(* ===== verification/Prelude.thy ===== *)
theory Prelude
  imports Main "HOL-Library.Multiset"
begin

text \<open>
  The shared layer of the development: the \<open>named_theorems\<close> collections the components fill,
  and generic facts on lists, options and association lists that are used by more than one
  component.
\<close>

named_theorems map_simps \<open>what a lookup in the ordered map returns after each operation\<close>
named_theorems map_inv \<open>every operation of the ordered map keeps its invariant\<close>
named_theorems diag_mono \<open>an operation only appends diagnostics\<close>
named_theorems order_simps \<open>facts on the requisite graph and its ordering\<close>

subsection \<open>Lists\<close>

definition is_prefix :: "'a list \<Rightarrow> 'a list \<Rightarrow> bool" where
  "is_prefix xs ys \<longleftrightarrow> (\<exists>zs. ys = xs @ zs)"

lemma is_prefix_refl [simp, intro]: "is_prefix xs xs"
  by (simp add: is_prefix_def)

lemma is_prefix_trans [trans]: "is_prefix xs ys \<Longrightarrow> is_prefix ys zs \<Longrightarrow> is_prefix xs zs"
  by (auto simp: is_prefix_def)

lemma is_prefix_append [simp, intro]: "is_prefix xs (xs @ ys)"
  by (auto simp: is_prefix_def)

lemma is_prefix_append_trans: "is_prefix xs ys \<Longrightarrow> is_prefix xs (ys @ zs)"
  by (auto simp: is_prefix_def)

lemma is_prefix_set: "is_prefix xs ys \<Longrightarrow> set xs \<subseteq> set ys"
  by (auto simp: is_prefix_def)

lemma foldl_invariant:
  assumes "P s" and "\<And>s x. x \<in> set xs \<Longrightarrow> P s \<Longrightarrow> P (f s x)"
  shows "P (foldl f s xs)"
  using assms by (induction xs arbitrary: s) auto

lemma fold_invariant:
  assumes "P s" and "\<And>s x. x \<in> set xs \<Longrightarrow> P s \<Longrightarrow> P (f x s)"
  shows "P (fold f xs s)"
  using assms by (induction xs arbitrary: s) auto

lemma fold_is_prefix:
  assumes "\<And>s x. is_prefix (g s) (g (f x s))"
  shows "is_prefix (g s) (g (fold f xs s))"
  using assms by (induction xs arbitrary: s) (auto intro: is_prefix_trans)

lemma distinct_nth_inj:
  "distinct xs \<Longrightarrow> i < length xs \<Longrightarrow> j < length xs \<Longrightarrow> xs ! i = xs ! j \<Longrightarrow> i = j"
  by (simp add: nth_eq_iff_index_eq)

lemma mset_list_update_swap:
  assumes "i < length xs" and "j < length xs"
  shows "mset (xs[i := xs ! j, j := xs ! i]) = mset xs"
  using mset_swap [OF assms(2,1)] by (simp add: list_update_swap nth_list_update)

text \<open>The position of the first element that satisfies a predicate, as an early-return loop.\<close>

fun find_index :: "('a \<Rightarrow> bool) \<Rightarrow> 'a list \<Rightarrow> nat option" where
  "find_index P [] = None"
| "find_index P (x # xs) = (if P x then Some 0 else map_option Suc (find_index P xs))"

lemma find_index_None: "find_index P xs = None \<longleftrightarrow> (\<forall>x \<in> set xs. \<not> P x)"
  by (induction xs) auto

lemma find_index_key_None: "find_index (\<lambda>x. f x = y) xs = None \<longleftrightarrow> y \<notin> f ` set xs"
  by (auto simp: find_index_None)

lemma find_index_Some:
  "find_index P xs = Some i \<Longrightarrow> i < length xs \<and> P (xs ! i) \<and> (\<forall>j < i. \<not> P (xs ! j))"
proof (induction xs arbitrary: i)
  case Nil
  then show ?case by simp
next
  case (Cons x xs)
  show ?case
  proof (cases "P x")
    case True
    with Cons.prems show ?thesis by simp
  next
    case False
    with Cons.prems obtain k where k: "find_index P xs = Some k" "i = Suc k"
      by auto
    with Cons.IH [OF k(1)] False show ?thesis
      by (auto simp: less_Suc_eq_0_disj nth_Cons split: nat.splits)
  qed
qed

subsection \<open>Loops that thread a state\<close>

text \<open>A loop that replaces each element and threads a state, as \<open>for i := range xs\<close> does when the
  body updates \<open>xs[i]\<close> and appends diagnostics.\<close>

fun map_accum :: "('s \<Rightarrow> 'a \<Rightarrow> 'b \<times> 's) \<Rightarrow> 's \<Rightarrow> 'a list \<Rightarrow> 'b list \<times> 's" where
  "map_accum f s [] = ([], s)"
| "map_accum f s (x # xs) =
     (let (y, s1) = f s x; (ys, s2) = map_accum f s1 xs in (y # ys, s2))"

lemma length_map_accum [simp]: "length (fst (map_accum f s xs)) = length xs"
  by (induction xs arbitrary: s) (auto simp: split_beta Let_def)

lemma map_accum_fst:
  assumes "\<And>s x. x \<in> set xs \<Longrightarrow> fst (f s x) = g x"
  shows "fst (map_accum f s xs) = map g xs"
  using assms by (induction xs arbitrary: s) (auto simp: split_beta Let_def)

lemma map_accum_is_prefix:
  assumes "\<And>s x. is_prefix s (snd (f s x))"
  shows "is_prefix s (snd (map_accum f s xs))"
  using assms by (induction xs arbitrary: s) (auto simp: split_beta Let_def intro: is_prefix_trans)

text \<open>The indices of the elements with a property, in order.\<close>

definition positions :: "('a \<Rightarrow> bool) \<Rightarrow> 'a list \<Rightarrow> nat list" where
  "positions P xs = map fst (filter (\<lambda>(i, x). P x) (enumerate 0 xs))"

lemma positions_Nil [simp]: "positions P [] = []"
  by (simp add: positions_def)

lemma positions_snoc [simp]:
  "positions P (xs @ [x]) = positions P xs @ (if P x then [length xs] else [])"
  by (simp add: positions_def enumerate_append_eq)

lemma set_positions: "i \<in> set (positions P xs) \<longleftrightarrow> i < length xs \<and> P (xs ! i)"
  by (induction xs rule: rev_induct) (auto simp: nth_append less_Suc_eq)

lemma positions_cong: "(\<And>x. x \<in> set xs \<Longrightarrow> P x = Q x) \<Longrightarrow> positions P xs = positions Q xs"
  by (induction xs rule: rev_induct) auto

lemma positions_empty: "positions P xs = [] \<longleftrightarrow> (\<forall>x \<in> set xs. \<not> P x)"
  by (induction xs rule: rev_induct) auto

subsection \<open>Association lists\<close>

text \<open>The Go built-in map as an association list whose newest entry comes first.\<close>

type_synonym ('k, 'v) gomap = "('k \<times> 'v) list"

abbreviation gomap_get :: "('k, 'v) gomap \<Rightarrow> 'k \<Rightarrow> 'v option" where
  "gomap_get \<equiv> map_of"

fun gomap_put :: "'k \<Rightarrow> 'v \<Rightarrow> ('k, 'v) gomap \<Rightarrow> ('k, 'v) gomap" where
  "gomap_put k v [] = [(k, v)]"
| "gomap_put k v ((k', v') # m) = (if k' = k then (k, v) # m else (k', v') # gomap_put k v m)"

definition gomap_del :: "'k \<Rightarrow> ('k, 'v) gomap \<Rightarrow> ('k, 'v) gomap" where
  "gomap_del k m = filter (\<lambda>(k', _). k' \<noteq> k) m"

lemma gomap_get_put [simp]: "gomap_get (gomap_put k v m) = (gomap_get m)(k \<mapsto> v)"
  by (induction m) (auto simp: fun_eq_iff)

lemma gomap_get_del [simp]: "gomap_get (gomap_del k m) = (gomap_get m)(k := None)"
  by (induction m) (auto simp: fun_eq_iff gomap_del_def)

lemma keys_gomap_put: "fst ` set (gomap_put k v m) = insert k (fst ` set m)"
  by (induction k v m rule: gomap_put.induct) (simp_all add: insert_commute)

lemma keys_gomap_put_list:
  "map fst (gomap_put k v m) = (if k \<in> fst ` set m then map fst m else map fst m @ [k])"
  by (induction k v m rule: gomap_put.induct) simp_all

lemma distinct_gomap_put: "distinct (map fst m) \<Longrightarrow> distinct (map fst (gomap_put k v m))"
  by (induction m) (auto simp: keys_gomap_put)

lemma map_of_remove_nth:
  "k \<notin> fst ` set xs \<Longrightarrow> k \<notin> fst ` set ys \<Longrightarrow>
     map_of (xs @ ys) a = (if a = k then None else map_of (xs @ (k, v) # ys) a)"
proof (induction xs)
  case Nil
  then show ?case by (simp add: map_of_eq_None_iff)
next
  case (Cons x xs)
  then show ?case by (cases x) (auto simp del: map_of_append)
qed

lemma map_of_eq_None_keys: "map_of m k = None \<longleftrightarrow> k \<notin> set (map fst m)"
  by (simp add: map_of_eq_None_iff)

text \<open>\<open>m[k] = append(m[k], v)\<close>: an absent key reads as the empty slice.\<close>

definition multi_get :: "('k, 'v list) gomap \<Rightarrow> 'k \<Rightarrow> 'v list" where
  "multi_get m k = (case gomap_get m k of None \<Rightarrow> [] | Some vs \<Rightarrow> vs)"

definition multi_put :: "'k \<Rightarrow> 'v \<Rightarrow> ('k, 'v list) gomap \<Rightarrow> ('k, 'v list) gomap" where
  "multi_put k v m = gomap_put k (multi_get m k @ [v]) m"

lemma gomap_get_multi_put:
  "gomap_get (multi_put k v m) k' = (if k' = k then Some (multi_get m k @ [v]) else gomap_get m k')"
  by (simp add: multi_put_def)

end
