(* ===== verification/Go_Lib.thy ===== *)
theory Go_Lib
  imports Prelude "HOL-Library.List_Lexorder" "HOL-Library.Char_ord"
begin

text \<open>
  What the sources use of Go's \<open>strings\<close> and \<open>strconv\<close> packages. A Go string is a sequence of
  bytes, and so is an Isabelle \<open>string\<close> (a \<open>char\<close> is a byte); the order on strings is Go's, the
  lexicographic order of the bytes.
\<close>

subsection \<open>strings\<close>

fun has_prefix :: "string \<Rightarrow> string \<Rightarrow> bool" where
  "has_prefix s [] = True"
| "has_prefix [] (p # ps) = False"
| "has_prefix (c # s) (p # ps) = (c = p \<and> has_prefix s ps)"

definition has_suffix :: "string \<Rightarrow> string \<Rightarrow> bool" where
  "has_suffix s p = has_prefix (rev s) (rev p)"

definition contains_any :: "string \<Rightarrow> string \<Rightarrow> bool" where
  "contains_any s chars = list_ex (\<lambda>c. c \<in> set chars) s"

text \<open>\<open>strings.Split\<close> for a separator that is not empty.\<close>

function split_aux :: "string \<Rightarrow> string \<Rightarrow> string \<Rightarrow> string list" where
  "split_aux sep acc s =
     (if s = [] then [rev acc]
      else if sep \<noteq> [] \<and> has_prefix s sep then rev acc # split_aux sep [] (drop (length sep) s)
      else split_aux sep (hd s # acc) (tl s))"
  by pat_completeness auto
termination
  by (relation "measure (\<lambda>(sep, acc, s). length s)") (auto simp: neq_Nil_conv)

declare split_aux.simps [simp del]

definition str_split :: "string \<Rightarrow> string \<Rightarrow> string list" where
  "str_split s sep = split_aux sep [] s"

fun str_join :: "string \<Rightarrow> string list \<Rightarrow> string" where
  "str_join sep [] = []"
| "str_join sep [w] = w"
| "str_join sep (w # v # ws) = w @ sep @ str_join sep (v # ws)"

definition trim_left :: "char \<Rightarrow> string \<Rightarrow> string" where
  "trim_left c s = dropWhile (\<lambda>x. x = c) s"

definition trim_suffix :: "string \<Rightarrow> string \<Rightarrow> string" where
  "trim_suffix s p = (if has_suffix s p then take (length s - length p) s else s)"

text \<open>\<open>strings.TrimSpace\<close>: the runes \<open>unicode.IsSpace\<close> accepts, by their UTF-8 encodings.\<close>

definition space_runes :: "string list" where
  "space_runes =
     map (\<lambda>c. [c]) [CHR '' '', CHR 0x09, CHR 0x0A, CHR 0x0B, CHR 0x0C, CHR 0x0D] @
     [[CHR 0xC2, CHR 0x85], [CHR 0xC2, CHR 0xA0], [CHR 0xE1, CHR 0x9A, CHR 0x80]] @
     map (\<lambda>n. [CHR 0xE2, CHR 0x80, char_of n]) ([0x80..<0x8B] @ [0xA8, 0xA9, 0xAF]) @
     [[CHR 0xE2, CHR 0x81, CHR 0x9F], [CHR 0xE3, CHR 0x80, CHR 0x80]]"

lemma space_runes_code [code]:
  "space_runes =
    [[CHR '' ''], [CHR 0x09], [CHR 0x0A], [CHR 0x0B], [CHR 0x0C], [CHR 0x0D], [CHR 0xC2, CHR 0x85],
     [CHR 0xC2, CHR 0xA0], [CHR 0xE1, CHR 0x9A, CHR 0x80], [CHR 0xE2, CHR 0x80, CHR 0x80],
     [CHR 0xE2, CHR 0x80, CHR 0x81], [CHR 0xE2, CHR 0x80, CHR 0x82], [CHR 0xE2, CHR 0x80, CHR 0x83],
     [CHR 0xE2, CHR 0x80, CHR 0x84], [CHR 0xE2, CHR 0x80, CHR 0x85], [CHR 0xE2, CHR 0x80, CHR 0x86],
     [CHR 0xE2, CHR 0x80, CHR 0x87], [CHR 0xE2, CHR 0x80, CHR 0x88], [CHR 0xE2, CHR 0x80, CHR 0x89],
     [CHR 0xE2, CHR 0x80, CHR 0x8A], [CHR 0xE2, CHR 0x80, CHR 0xA8], [CHR 0xE2, CHR 0x80, CHR 0xA9],
     [CHR 0xE2, CHR 0x80, CHR 0xAF], [CHR 0xE2, CHR 0x81, CHR 0x9F], [CHR 0xE3, CHR 0x80, CHR 0x80]]"
  by code_simp

lemma find_prefix_shorter:
  assumes "find (\<lambda>r. r \<noteq> [] \<and> has_prefix s r) spaces = Some r"
  shows "length (drop (length r) s) < length s"
proof -
  from assms have "r \<noteq> []" "has_prefix s r" by (auto simp: find_Some_iff)
  then show ?thesis by (cases s; cases r) auto
qed

function trim_spaces :: "string list \<Rightarrow> string \<Rightarrow> string" where
  "trim_spaces spaces s =
     (case find (\<lambda>r. r \<noteq> [] \<and> has_prefix s r) spaces of
        None \<Rightarrow> s
      | Some r \<Rightarrow> trim_spaces spaces (drop (length r) s))"
  by pat_completeness auto
termination
  by (relation "measure (\<lambda>(_, s). length s)") (simp_all add: find_prefix_shorter del: length_drop)

declare trim_spaces.simps [simp del]

definition trim_space :: "string \<Rightarrow> string" where
  "trim_space s = rev (trim_spaces (map rev space_runes) (rev (trim_spaces space_runes s)))"

definition trim_right :: "string \<Rightarrow> string \<Rightarrow> string" where
  "trim_right s cutset = rev (dropWhile (\<lambda>c. c \<in> set cutset) (rev s))"

text \<open>\<open>strings.Index\<close> for one byte.\<close>

definition index_byte :: "string \<Rightarrow> char \<Rightarrow> nat option" where
  "index_byte s c = find_index (\<lambda>x. x = c) s"

text \<open>
  \<open>strings.EqualFold\<close> against an ASCII word in lower case. Besides the letters themselves, only
  two runes fold to an ASCII letter: U+017F (the bytes C5 BF) to \<open>s\<close> and U+212A (E2 84 AA)
  to \<open>k\<close>.
\<close>

definition lower_byte :: "char \<Rightarrow> char" where
  "lower_byte c = (if 65 \<le> (of_char c :: nat) \<and> (of_char c :: nat) \<le> 90
                   then char_of ((of_char c :: nat) + 32) else c)"

function fold_case :: "string \<Rightarrow> string" where
  "fold_case s =
     (if s = [] then []
      else if has_prefix s [CHR 0xC5, CHR 0xBF] then CHR ''s'' # fold_case (drop 2 s)
      else if has_prefix s [CHR 0xE2, CHR 0x84, CHR 0xAA] then CHR ''k'' # fold_case (drop 3 s)
      else lower_byte (hd s) # fold_case (tl s))"
  by pat_completeness auto
termination
  by (relation "measure length") (auto simp: neq_Nil_conv)

declare fold_case.simps [simp del]

definition equal_fold :: "string \<Rightarrow> string \<Rightarrow> bool" where
  "equal_fold s word = (fold_case s = word)"

subsection \<open>strconv\<close>

definition digit_char :: "nat \<Rightarrow> char" where
  "digit_char d = char_of (48 + d)"

definition is_digit :: "char \<Rightarrow> bool" where
  "is_digit c = (48 \<le> (of_char c :: nat) \<and> (of_char c :: nat) \<le> 57)"

definition digit_val :: "char \<Rightarrow> nat" where
  "digit_val c = (of_char c :: nat) - 48"

fun nat_str :: "nat \<Rightarrow> string" where
  "nat_str n = (if n < 10 then [digit_char n] else nat_str (n div 10) @ [digit_char (n mod 10)])"

declare nat_str.simps [simp del]

definition format_int :: "int \<Rightarrow> string" where
  "format_int i = (if i < 0 then CHR ''-'' # nat_str (nat (- i)) else nat_str (nat i))"

definition nat_of_digits :: "string \<Rightarrow> nat" where
  "nat_of_digits s = foldl (\<lambda>n c. 10 * n + digit_val c) 0 s"

definition int64_range :: "int \<Rightarrow> bool" where
  "int64_range i \<longleftrightarrow> - (2 ^ 63) \<le> i \<and> i < 2 ^ 63"

definition unsigned_digits :: "string \<Rightarrow> nat option" where
  "unsigned_digits s = (if s \<noteq> [] \<and> list_all is_digit s then Some (nat_of_digits s) else None)"

text \<open>\<open>strconv.Atoi\<close>: an optional sign and at least one digit, refused out of range.\<close>

definition atoi :: "string \<Rightarrow> int option" where
  "atoi s =
     (case (case s of [] \<Rightarrow> None
            | c # r \<Rightarrow> if c = CHR ''-'' then map_option (\<lambda>n. - int n) (unsigned_digits r)
                     else if c = CHR ''+'' then map_option int (unsigned_digits r)
                     else map_option int (unsigned_digits s))
      of None \<Rightarrow> None | Some i \<Rightarrow> if int64_range i then Some i else None)"

text \<open>The wrap-around of \<open>int64\<close> arithmetic.\<close>

definition wrap64 :: "int \<Rightarrow> int" where
  "wrap64 i = (i + 2 ^ 63) mod 2 ^ 64 - 2 ^ 63"

subsection \<open>Facts\<close>

lemma has_prefix_iff: "has_prefix s p \<longleftrightarrow> (\<exists>r. s = p @ r)"
  by (induction s p rule: has_prefix.induct) auto

lemma has_prefix_append [simp]: "has_prefix (p @ r) p"
  by (simp add: has_prefix_iff)

lemma has_suffix_iff: "has_suffix s p \<longleftrightarrow> (\<exists>r. s = r @ p)"
  unfolding has_suffix_def has_prefix_iff
  by (metis rev_append rev_rev_ident)

lemma str_join_Cons: "ws \<noteq> [] \<Longrightarrow> str_join sep (w # ws) = w @ sep @ str_join sep ws"
  by (cases ws) auto

lemma split_aux_nonempty: "split_aux sep acc s \<noteq> []"
  by (induction sep acc s rule: split_aux.induct) (subst split_aux.simps, simp)

lemma str_split_nonempty [simp]: "str_split s sep \<noteq> []"
  by (simp add: str_split_def split_aux_nonempty)

lemma join_split_aux: "str_join sep (split_aux sep acc s) = rev acc @ s"
proof (induction sep acc s rule: split_aux.induct)
  case (1 sep acc s)
  consider (nil) "s = []" | (sep) "s \<noteq> []" "sep \<noteq> [] \<and> has_prefix s sep"
    | (chr) "s \<noteq> []" "\<not> (sep \<noteq> [] \<and> has_prefix s sep)" by blast
  then show ?case
  proof cases
    case nil
    then show ?thesis by (simp add: split_aux.simps [of sep acc "[]"])
  next
    case sep
    then obtain r where r: "s = sep @ r" by (auto simp: has_prefix_iff)
    with "1.IH"(1) sep have "str_join sep (split_aux sep [] r) = r" by simp
    with sep r show ?thesis
      by (simp add: split_aux.simps [of sep acc "sep @ r"] str_join_Cons split_aux_nonempty)
  next
    case chr
    with "1.IH"(2) have "str_join sep (split_aux sep (hd s # acc) (tl s)) = rev acc @ hd s # tl s"
      by simp
    with chr show ?thesis by (auto simp: split_aux.simps [of sep acc s])
  qed
qed

lemma join_split [simp]: "str_join sep (str_split s sep) = s"
  by (simp add: str_split_def join_split_aux)

lemma split_aux_no_sep: "c \<notin> set acc \<Longrightarrow> w \<in> set (split_aux [c] acc s) \<Longrightarrow> c \<notin> set w"
proof (induction s arbitrary: acc)
  case Nil
  then show ?case by (simp add: split_aux.simps [of "[c]" acc "[]"])
next
  case (Cons x s)
  have eq: "split_aux [c] acc (x # s) =
      (if x = c then rev acc # split_aux [c] [] s else split_aux [c] (x # acc) s)"
    by (simp add: split_aux.simps [of "[c]" acc "x # s"])
  show ?case
    using Cons.IH [of "[]"] Cons.IH [of "x # acc"] Cons.prems
    by (auto simp: eq split: if_splits)
qed

lemma split_no_sep: "w \<in> set (str_split s [c]) \<Longrightarrow> c \<notin> set w"
  unfolding str_split_def by (rule split_aux_no_sep [of c "[]"]) auto

lemma split_aux_clean: "c \<notin> set s \<Longrightarrow> split_aux [c] acc s = [rev acc @ s]"
proof (induction s arbitrary: acc)
  case Nil
  then show ?case by (simp add: split_aux.simps)
next
  case (Cons x s)
  then show ?case by (auto simp: split_aux.simps [of "[c]" acc])
qed

lemma split_aux_append:
  "c \<notin> set w \<Longrightarrow> split_aux [c] acc (w @ c # s) = (rev acc @ w) # split_aux [c] [] s"
proof (induction w arbitrary: acc)
  case Nil
  then show ?case by (simp add: split_aux.simps [of "[c]" acc])
next
  case (Cons x w)
  then show ?case by (auto simp: split_aux.simps [of "[c]" acc])
qed

lemma split_join:
  assumes "ws \<noteq> []" and "\<forall>w \<in> set ws. c \<notin> set w"
  shows "str_split (str_join [c] ws) [c] = ws"
  using assms
proof (induction ws rule: induct_list012)
  case (3 w v ws)
  then show ?case by (simp add: str_split_def split_aux_append)
qed (simp_all add: str_split_def split_aux_clean)

lemma split_append_sep: "str_split (p @ c # q) [c] = str_split p [c] @ str_split q [c]"
proof -
  have "split_aux [c] acc (p @ c # q) = split_aux [c] acc p @ split_aux [c] [] q" for acc
  proof (induction p arbitrary: acc)
    case Nil
    then show ?case by (simp add: split_aux.simps [of "[c]" acc])
  next
    case (Cons x p)
    then show ?case by (auto simp: split_aux.simps [of "[c]" acc])
  qed
  then show ?thesis by (simp add: str_split_def)
qed

lemma of_char_digit_char: "d < 10 \<Longrightarrow> (of_char (digit_char d) :: nat) = 48 + d"
  by (simp add: digit_char_def)

lemma digit_val_char [simp]: "d < 10 \<Longrightarrow> digit_val (digit_char d) = d"
  by (simp add: digit_val_def of_char_digit_char)

lemma is_digit_char [simp]: "d < 10 \<Longrightarrow> is_digit (digit_char d)"
  by (simp add: is_digit_def of_char_digit_char)

lemma nat_of_digits_snoc [simp]: "nat_of_digits (s @ [c]) = 10 * nat_of_digits s + digit_val c"
  by (simp add: nat_of_digits_def)

lemma nat_of_digits_nat_str [simp]: "nat_of_digits (nat_str n) = n"
proof (induction n rule: nat_str.induct)
  case (1 n)
  show ?case
  proof (cases "n < 10")
    case True
    then show ?thesis by (simp add: nat_str.simps [of n] nat_of_digits_def)
  next
    case False
    with "1.IH" show ?thesis by (simp add: nat_str.simps [of n])
  qed
qed

lemma nat_str_digits: "list_all is_digit (nat_str n) \<and> nat_str n \<noteq> []"
proof (induction n rule: nat_str.induct)
  case (1 n)
  then show ?case by (cases "n < 10") (simp_all add: nat_str.simps [of n])
qed

lemma nat_str_inject [simp]: "nat_str m = nat_str n \<longleftrightarrow> m = n"
  by (metis nat_of_digits_nat_str)

lemma is_digit_not_sign: "is_digit c \<Longrightarrow> c \<noteq> CHR ''-'' \<and> c \<noteq> CHR ''+''"
  by (auto simp: is_digit_def)

lemma nat_str_hd: "nat_str n = c # r \<Longrightarrow> c \<noteq> CHR ''-'' \<and> c \<noteq> CHR ''+''"
  using nat_str_digits [of n] is_digit_not_sign by auto

lemma format_int_inject [simp]: "format_int i = format_int j \<longleftrightarrow> i = j"
proof
  assume eq: "format_int i = format_int j"
  show "i = j"
  proof (cases "i < 0"; cases "j < 0")
    assume "i < 0" "j < 0"
    with eq show ?thesis by (simp add: format_int_def)
  next
    assume "i < 0" "\<not> j < 0"
    with eq have "nat_str (nat j) = CHR ''-'' # nat_str (nat (- i))" by (simp add: format_int_def)
    from nat_str_hd [OF this] show ?thesis by simp
  next
    assume "\<not> i < 0" "j < 0"
    with eq have "nat_str (nat i) = CHR ''-'' # nat_str (nat (- j))" by (simp add: format_int_def)
    from nat_str_hd [OF this] show ?thesis by simp
  next
    assume "\<not> i < 0" "\<not> j < 0"
    with eq show ?thesis by (simp add: format_int_def)
  qed
qed simp

lemma unsigned_digits_nat_str [simp]: "unsigned_digits (nat_str n) = Some n"
  using nat_str_digits [of n] by (simp add: unsigned_digits_def)

lemma atoi_format_int: "int64_range i \<Longrightarrow> atoi (format_int i) = Some i"
proof (cases "i < 0")
  case False
  assume r: "int64_range i"
  obtain c r where c: "nat_str (nat i) = c # r" using nat_str_digits [of "nat i"]
    by (cases "nat_str (nat i)") auto
  from nat_str_hd [OF c] c False r show ?thesis
    using unsigned_digits_nat_str [of "nat i"]
    by (simp add: atoi_def format_int_def)
qed (simp add: atoi_def format_int_def)

lemma wrap64_range: "int64_range (wrap64 i)"
  by (simp add: wrap64_def int64_range_def)

lemma wrap64_id: "int64_range i \<Longrightarrow> wrap64 i = i"
  by (simp add: wrap64_def int64_range_def)

end
