(* ===== verification/Value.thy ===== *)
theory Value
  imports Go_Lib
begin

text \<open>
  The data model of \<open>internal/value\<close>: the nine types a document may hold, the ordered mapping
  with its lookup index, the merge strategies of pillar and configuration, truthiness and path
  traversal. The mapping is modelled with both of its parts, the entry list and the index from a
  key's canonical form to a position, and shown to implement a finite map with ordered keys (the
  locale \<open>ordered_map\<close>), which is what every client of it relies on.
\<close>

subsection \<open>Positions, keys and values\<close>

record pos =
  pos_File :: string
  pos_Line :: int
  pos_Col :: int

definition zero_pos :: pos where
  "zero_pos = \<lparr>pos_File = [], pos_Line = 0, pos_Col = 0\<rparr>"

definition Pos_IsZero :: "pos \<Rightarrow> bool" where
  "Pos_IsZero p \<longleftrightarrow> pos_File p = [] \<and> pos_Line p = 0 \<and> pos_Col p = 0"

definition Pos_String :: "pos \<Rightarrow> string" where
  "Pos_String p =
     (if pos_File p = [] \<and> pos_Line p = 0 then ''<unknown>''
      else if pos_File p = [] then
        ''line '' @ format_int (pos_Line p) @ '', column '' @ format_int (pos_Col p)
      else if pos_Line p = 0 then pos_File p
      else pos_File p @ '':'' @ format_int (pos_Line p) @ '':'' @ format_int (pos_Col p))"

text \<open>
  A \<open>float64\<close> is held as the text \<open>strconv.FormatFloat(t, 'g', -1, 64)\<close> gives for it, the
  shortest decimal that reads back as the same number. The sources do no arithmetic on the floats
  of a document; they only print them, compare them with zero and use them as keys.
\<close>

datatype gofloat = GoFloat (float_text: string)

datatype key =
    KStr string
  | KInt int
  | KFloat gofloat
  | KBool bool
  | KNull

datatype val =
    VNull
  | VBool bool
  | VInt int
  | VFloat gofloat
  | VStr string
  | VBin string
  | VTime int \<comment> \<open>nanoseconds since the zero \<open>time.Time\<close>\<close>
  | VSeq "val list"
  | VMap vmap
and vmap = GMap (entries: "entry list") (index: "(string, nat) gomap") (map_Pos: pos)
and entry = Entry (Key: key) (Val: val) (KeyPos: pos) (ValPos: pos)

datatype Kind = KindNull | KindBool | KindInt | KindFloat | KindString | KindBinary
  | KindTimestamp | KindSeq | KindMap

fun Kind_String :: "Kind \<Rightarrow> string" where
  "Kind_String KindNull = ''null''"
| "Kind_String KindBool = ''bool''"
| "Kind_String KindInt = ''int''"
| "Kind_String KindFloat = ''float''"
| "Kind_String KindString = ''string''"
| "Kind_String KindBinary = ''binary''"
| "Kind_String KindTimestamp = ''timestamp''"
| "Kind_String KindSeq = ''sequence''"
| "Kind_String KindMap = ''mapping''"

fun KindOf :: "val \<Rightarrow> Kind" where
  "KindOf VNull = KindNull"
| "KindOf (VBool _) = KindBool"
| "KindOf (VInt _) = KindInt"
| "KindOf (VFloat _) = KindFloat"
| "KindOf (VStr _) = KindString"
| "KindOf (VBin _) = KindBinary"
| "KindOf (VTime _) = KindTimestamp"
| "KindOf (VSeq _) = KindSeq"
| "KindOf (VMap _) = KindMap"

definition TypeName :: "val \<Rightarrow> string" where
  "TypeName v = Kind_String (KindOf v)"

definition FormatBool :: "bool \<Rightarrow> string" where
  "FormatBool b = (if b then ''true'' else ''false'')"

fun CanonKey :: "key \<Rightarrow> string" where
  "CanonKey (KStr s) = ''s'' @ s"
| "CanonKey (KInt i) = ''i'' @ format_int i"
| "CanonKey (KFloat f) = ''f'' @ float_text f"
| "CanonKey (KBool b) = ''b'' @ FormatBool b"
| "CanonKey KNull = ''n''"

fun KeyString :: "key \<Rightarrow> string" where
  "KeyString (KStr s) = s"
| "KeyString (KInt i) = format_int i"
| "KeyString (KFloat f) = float_text f"
| "KeyString (KBool b) = FormatBool b"
| "KeyString KNull = ''null''"

text \<open>
  \<open>KeyString\<close> is also called on values. Its last branch is \<open>fmt.Sprint\<close>, whose text for a
  mapping holds machine addresses; it is the parameter \<open>sprint\<close>.
\<close>

fun KeyString_any :: "(val \<Rightarrow> string) \<Rightarrow> val \<Rightarrow> string" where
  "KeyString_any sprint (VStr s) = s"
| "KeyString_any sprint (VInt i) = format_int i"
| "KeyString_any sprint (VFloat f) = float_text f"
| "KeyString_any sprint (VBool b) = FormatBool b"
| "KeyString_any sprint VNull = ''null''"
| "KeyString_any sprint v = sprint v"

subsection \<open>The ordered mapping\<close>

definition NewMap :: vmap where
  "NewMap = GMap [] [] zero_pos"

definition Map_Len :: "vmap \<Rightarrow> nat" where
  "Map_Len m = length (entries m)"

definition Map_Keys :: "vmap \<Rightarrow> key list" where
  "Map_Keys m = map Key (entries m)"

definition Map_StringKeys :: "vmap \<Rightarrow> string list" where
  "Map_StringKeys m = map (\<lambda>e. KeyString (Key e)) (entries m)"

definition Map_SortedKeys :: "vmap \<Rightarrow> string list" where
  "Map_SortedKeys m = sort (Map_StringKeys m)"

definition Map_Entry :: "vmap \<Rightarrow> key \<Rightarrow> entry option" where
  "Map_Entry m k =
     (case gomap_get (index m) (CanonKey k) of
        None \<Rightarrow> None
      | Some i \<Rightarrow> Some (entries m ! i))"

definition Map_Get :: "vmap \<Rightarrow> key \<Rightarrow> val option" where
  "Map_Get m k =
     (case gomap_get (index m) (CanonKey k) of
        None \<Rightarrow> None
      | Some i \<Rightarrow> Some (Val (entries m ! i)))"

definition Map_GetString :: "vmap \<Rightarrow> string \<Rightarrow> val option" where
  "Map_GetString m s = Map_Get m (KStr s)"

definition Map_Has :: "vmap \<Rightarrow> key \<Rightarrow> bool" where
  "Map_Has m k \<longleftrightarrow> Map_Get m k \<noteq> None"

definition replace_entry :: "entry \<Rightarrow> val \<Rightarrow> pos \<Rightarrow> pos \<Rightarrow> entry" where
  "replace_entry e v keyPos valPos =
     Entry (Key e) v (if Pos_IsZero keyPos then KeyPos e else keyPos)
       (if Pos_IsZero valPos then ValPos e else valPos)"

definition Map_SetAt :: "vmap \<Rightarrow> key \<Rightarrow> val \<Rightarrow> pos \<Rightarrow> pos \<Rightarrow> vmap" where
  "Map_SetAt m k v keyPos valPos =
     (let ck = CanonKey k in
      case gomap_get (index m) ck of
        Some i \<Rightarrow> GMap ((entries m)[i := replace_entry (entries m ! i) v keyPos valPos])
                    (index m) (map_Pos m)
      | None \<Rightarrow> GMap (entries m @ [Entry k v keyPos valPos])
                    (gomap_put ck (length (entries m)) (index m)) (map_Pos m))"

definition Map_Set :: "vmap \<Rightarrow> key \<Rightarrow> val \<Rightarrow> vmap" where
  "Map_Set m k v = Map_SetAt m k v zero_pos zero_pos"

definition MapOf :: "(key \<times> val) list \<Rightarrow> vmap" where
  "MapOf kvs = foldl (\<lambda>m (k, v). Map_Set m k v) NewMap kvs"

fun reindex :: "entry list \<Rightarrow> nat \<Rightarrow> (string, nat) gomap \<Rightarrow> (string, nat) gomap" where
  "reindex [] j ix = ix"
| "reindex (e # es) j ix = reindex es (Suc j) (gomap_put (CanonKey (Key e)) j ix)"

definition Map_Delete :: "vmap \<Rightarrow> key \<Rightarrow> vmap \<times> bool" where
  "Map_Delete m k =
     (let ck = CanonKey k in
      case gomap_get (index m) ck of
        None \<Rightarrow> (m, False)
      | Some i \<Rightarrow>
          let es = take i (entries m) @ drop (Suc i) (entries m)
          in (GMap es (reindex (drop i es) i (gomap_del ck (index m))) (map_Pos m), True))"

definition Map_Clone :: "vmap \<Rightarrow> vmap" where
  "Map_Clone m = GMap (entries m) (index m) (map_Pos m)"

fun Deep :: "val \<Rightarrow> val"
  and Deep_map :: "vmap \<Rightarrow> vmap"
  and Deep_entries :: "entry list \<Rightarrow> entry list"
  and Deep_list :: "val list \<Rightarrow> val list" where
  "Deep (VMap m) = VMap (Deep_map m)"
| "Deep (VSeq xs) = VSeq (Deep_list xs)"
| "Deep v = v"
| "Deep_map (GMap es ix p) = GMap (Deep_entries es) ix p"
| "Deep_entries [] = []"
| "Deep_entries (Entry k v kp vp # es) = Entry k (Deep v) kp vp # Deep_entries es"
| "Deep_list [] = []"
| "Deep_list (v # vs) = Deep v # Deep_list vs"

subsection \<open>Truthiness and traversal\<close>

fun Truthy :: "val \<Rightarrow> bool" where
  "Truthy VNull = False"
| "Truthy (VBool b) = b"
| "Truthy (VInt i) = (i \<noteq> 0)"
| "Truthy (VFloat f) = (float_text f \<notin> {''0'', ''-0'', ''NaN''})"
| "Truthy (VStr s) = (s \<noteq> [])"
| "Truthy (VBin s) = (length s \<noteq> 0)"
| "Truthy (VTime t) = (t \<noteq> 0)"
| "Truthy (VSeq xs) = (length xs \<noteq> 0)"
| "Truthy (VMap m) = (Map_Len m \<noteq> 0)"

fun find_in_items :: "val list \<Rightarrow> string \<Rightarrow> val option" where
  "find_in_items [] part = None"
| "find_in_items (item # items) part =
     (case item of
        VMap m \<Rightarrow> (case Map_Get m (KStr part) of Some v \<Rightarrow> Some v | None \<Rightarrow> find_in_items items part)
      | _ \<Rightarrow> find_in_items items part)"

text \<open>One component of a path: the body of the loop of \<open>Traverse\<close>.\<close>

definition traverse_step :: "val \<Rightarrow> string \<Rightarrow> val option" where
  "traverse_step cur part =
     (case cur of
        VMap m \<Rightarrow> Map_Get m (KStr part)
      | VSeq t \<Rightarrow>
          (case atoi part of
             Some i \<Rightarrow> if i < 0 \<or> i \<ge> int (length t) then None else Some (t ! nat i)
           | None \<Rightarrow> find_in_items t part)
      | _ \<Rightarrow> None)"

fun traverse_parts :: "val \<Rightarrow> string list \<Rightarrow> val option" where
  "traverse_parts cur [] = Some cur"
| "traverse_parts cur (part # parts) =
     (case traverse_step cur part of None \<Rightarrow> None | Some v \<Rightarrow> traverse_parts v parts)"

definition Traverse :: "val \<Rightarrow> string \<Rightarrow> string \<Rightarrow> val option" where
  "Traverse root path delim =
     (if path = [] then Some root else traverse_parts root (str_split path delim))"

subsection \<open>Merging\<close>

datatype Strategy = Smart | Recurse | Aggregate | Overwrite

definition ParseStrategy :: "string \<Rightarrow> Strategy \<times> bool" where
  "ParseStrategy s =
     (if s = ''smart'' \<or> s = '''' then (Smart, True)
      else if s = ''recurse'' then (Recurse, True)
      else if s = ''aggregate'' then (Aggregate, True)
      else if s = ''overwrite'' then (Overwrite, True)
      else (Smart, False))"

fun Strategy_String :: "Strategy \<Rightarrow> string" where
  "Strategy_String Recurse = ''recurse''"
| "Strategy_String Aggregate = ''aggregate''"
| "Strategy_String Overwrite = ''overwrite''"
| "Strategy_String Smart = ''smart''"

record MergeOpts =
  opt_Strategy :: Strategy
  opt_MergeLists :: bool

definition maxMergeDepth :: nat where
  "maxMergeDepth = 10000"

definition set_entry :: "vmap \<Rightarrow> entry \<Rightarrow> vmap" where
  "set_entry m e = Map_SetAt m (Key e) (Val e) (KeyPos e) (ValPos e)"

definition overwriteTop :: "val \<Rightarrow> val \<Rightarrow> val" where
  "overwriteTop dst src =
     (case (dst, src) of
        (VMap dm, VMap sm) \<Rightarrow> VMap (foldl set_entry (Map_Clone dm) (entries sm))
      | _ \<Rightarrow> src)"

function mergeValue :: "MergeOpts \<Rightarrow> nat \<Rightarrow> val \<Rightarrow> val \<Rightarrow> val"
  and mergeEntries :: "MergeOpts \<Rightarrow> nat \<Rightarrow> vmap \<Rightarrow> entry list \<Rightarrow> vmap" where
  "mergeValue opts depth dst src =
     (if depth > maxMergeDepth then src
      else if opt_Strategy opts = Overwrite \<and> depth = 0 then overwriteTop dst src
      else (case (dst, src) of
              (VMap dm, VMap sm) \<Rightarrow> VMap (mergeEntries opts depth (Map_Clone dm) (entries sm))
            | (VSeq dl, VSeq sl) \<Rightarrow>
                if opt_Strategy opts = Aggregate \<or> opt_MergeLists opts then VSeq (dl @ sl) else src
            | _ \<Rightarrow> src))"
| "mergeEntries opts depth out [] = out"
| "mergeEntries opts depth out (e # es) =
     mergeEntries opts depth
       (case Map_Get out (Key e) of
          Some cur \<Rightarrow> Map_SetAt out (Key e) (mergeValue opts (Suc depth) cur (Val e)) (KeyPos e) (ValPos e)
        | None \<Rightarrow> Map_SetAt out (Key e) (Val e) (KeyPos e) (ValPos e)) es"
  by pat_completeness auto
termination
proof (relation "measure (\<lambda>x. case x of Inl (opts, depth, dst, src) \<Rightarrow> size src
                          | Inr (opts, depth, out, es) \<Rightarrow> size_list size es)", goal_cases)
  case 1
  then show ?case by simp
next
  case (2 opts depth dst src x y dm sm)
  then show ?case by (cases sm) auto
next
  case (3 opts depth out e es x)
  then show ?case by (cases e) auto
next
  case (4 opts depth out e es)
  then show ?case by (cases e) auto
qed

declare mergeValue.simps [simp del]

definition mergeMaps :: "vmap \<Rightarrow> vmap \<Rightarrow> MergeOpts \<Rightarrow> nat \<Rightarrow> vmap" where
  "mergeMaps dst src opts depth = mergeEntries opts depth (Map_Clone dst) (entries src)"

definition Merge :: "val \<Rightarrow> val \<Rightarrow> MergeOpts \<Rightarrow> val" where
  "Merge dst src opts = mergeValue opts 0 dst src"

subsection \<open>Keys are told apart by their canonical form\<close>

lemma FormatBool_inject [simp]: "FormatBool a = FormatBool b \<longleftrightarrow> a = b"
  by (auto simp: FormatBool_def)

text \<open>Two keys collide in the lookup index only when they are the same key, so the document
  keys \<open>1\<close>, \<open>"1"\<close>, \<open>1.0\<close> and \<open>true\<close> never overwrite one another.\<close>

theorem CanonKey_injective: "CanonKey k = CanonKey k' \<longleftrightarrow> k = k'"
  by (cases k; cases k') (auto intro: gofloat.expand)

lemma CanonKey_inject [simp]: "CanonKey k = CanonKey k' \<longleftrightarrow> k = k'"
  by (cases k; cases k') (auto intro: gofloat.expand)

subsection \<open>The interface of the ordered mapping\<close>

text \<open>What a client of the mapping relies on: a finite map whose keys keep the order in which
  they were first set.\<close>

locale ordered_map =
  fixes empty :: 'm
    and get :: "'m \<Rightarrow> 'k \<Rightarrow> 'v option"
    and put :: "'m \<Rightarrow> 'k \<Rightarrow> 'v \<Rightarrow> 'm"
    and del :: "'m \<Rightarrow> 'k \<Rightarrow> 'm"
    and keys :: "'m \<Rightarrow> 'k list"
    and invar :: "'m \<Rightarrow> bool"
  assumes invar_empty: "invar empty"
    and invar_put: "invar m \<Longrightarrow> invar (put m k v)"
    and invar_del: "invar m \<Longrightarrow> invar (del m k)"
    and keys_empty: "keys empty = []"
    and keys_put: "invar m \<Longrightarrow> keys (put m k v) = (if k \<in> set (keys m) then keys m else keys m @ [k])"
    and keys_del: "invar m \<Longrightarrow> keys (del m k) = filter (\<lambda>k'. k' \<noteq> k) (keys m)"
    and get_put: "invar m \<Longrightarrow> get (put m k v) k' = (if k' = k then Some v else get m k')"
    and get_del: "invar m \<Longrightarrow> get (del m k) k' = (if k' = k then None else get m k')"
    and get_keys: "invar m \<Longrightarrow> get m k \<noteq> None \<longleftrightarrow> k \<in> set (keys m)"
    and distinct_keys: "invar m \<Longrightarrow> distinct (keys m)"
begin

definition put_all :: "'m \<Rightarrow> ('k \<times> 'v) list \<Rightarrow> 'm" where
  "put_all m kvs = foldl (\<lambda>m (k, v). put m k v) m kvs"

lemma put_all_Nil: "put_all m [] = m"
  by (simp add: put_all_def)

lemma put_all_Cons: "put_all m ((k, v) # kvs) = put_all (put m k v) kvs"
  by (simp add: put_all_def)

lemma invar_put_all: "invar m \<Longrightarrow> invar (put_all m kvs)"
  by (induction kvs arbitrary: m) (auto simp: put_all_Nil put_all_Cons invar_put)

lemma get_put_all:
  "invar m \<Longrightarrow> get (put_all m kvs) k =
     (case map_of (rev kvs) k of Some v \<Rightarrow> Some v | None \<Rightarrow> get m k)"
proof (induction kvs arbitrary: m)
  case Nil
  then show ?case by (simp add: put_all_Nil)
next
  case (Cons kv kvs)
  obtain k' v where kv: "kv = (k', v)" by (cases kv)
  from Cons.IH [OF invar_put [OF Cons.prems], of k' v] Cons.prems show ?case
    by (auto simp: kv put_all_Cons get_put map_add_def split: option.splits)
qed

lemma keys_put_all:
  "invar m \<Longrightarrow> distinct (map fst kvs) \<Longrightarrow>
     keys (put_all m kvs) = keys m @ filter (\<lambda>k. k \<notin> set (keys m)) (map fst kvs)"
proof (induction kvs arbitrary: m)
  case Nil
  then show ?case by (simp add: put_all_Nil)
next
  case (Cons kv kvs)
  obtain k v where kv: "kv = (k, v)" by (cases kv)
  have IH: "keys (put_all (put m k v) kvs) =
      keys (put m k v) @ filter (\<lambda>k'. k' \<notin> set (keys (put m k v))) (map fst kvs)"
    using Cons by (simp add: kv invar_put)
  have "k \<notin> fst ` set kvs" using Cons.prems by (simp add: kv)
  then have "filter (\<lambda>x. x \<noteq> k \<and> x \<notin> set (keys m)) (map fst kvs) =
      filter (\<lambda>x. x \<notin> set (keys m)) (map fst kvs)"
    by (intro filter_cong) auto
  with IH Cons.prems(1) show ?case
    by (auto simp: kv put_all_Cons keys_put)
qed

lemma delete_then_put: "invar m \<Longrightarrow> keys (put (del m k) k v) = filter (\<lambda>k'. k' \<noteq> k) (keys m) @ [k]"
  by (simp add: keys_put invar_del keys_del)

end

subsection \<open>The invariant: the index describes the entries\<close>

definition map_ok :: "vmap \<Rightarrow> bool" where
  "map_ok m \<longleftrightarrow> distinct (map Key (entries m)) \<and>
     (\<forall>ck. gomap_get (index m) ck = find_index (\<lambda>e. CanonKey (Key e) = ck) (entries m))"

lemma find_index_append:
  "find_index P (xs @ ys) =
     (case find_index P xs of Some i \<Rightarrow> Some i | None \<Rightarrow> map_option (\<lambda>i. length xs + i) (find_index P ys))"
  by (induction xs) (auto split: option.splits simp: map_option_case)

lemma find_index_update_same:
  "(\<And>e. P (f e) = P e) \<Longrightarrow> find_index P (xs[i := f (xs ! i)]) = find_index P xs"
proof (induction xs arbitrary: i)
  case Nil
  then show ?case by simp
next
  case (Cons x xs)
  then show ?case by (cases i) auto
qed

lemma find_index_distinct:
  assumes "distinct (map f xs)" and "i < length xs"
  shows "find_index (\<lambda>x. f x = f (xs ! i)) xs = Some i"
  using assms
proof (induction xs arbitrary: i)
  case Nil
  then show ?case by simp
next
  case (Cons x xs)
  show ?case
  proof (cases i)
    case 0
    then show ?thesis by simp
  next
    case (Suc j)
    with Cons.prems have "f x \<noteq> f (xs ! j)" by (force simp: in_set_conv_nth)
    with Cons Suc show ?thesis by simp
  qed
qed

lemma map_ok_index:
  assumes "map_ok m"
  shows "gomap_get (index m) (CanonKey k) = find_index (\<lambda>e. Key e = k) (entries m)"
  using assms by (simp add: map_ok_def)

lemma map_ok_in_range:
  assumes "map_ok m" and "gomap_get (index m) (CanonKey k) = Some i"
  shows "i < length (entries m) \<and> Key (entries m ! i) = k"
  using find_index_Some [of "\<lambda>e. Key e = k"] assms by (simp add: map_ok_index)

lemma map_ok_NewMap [simp, map_inv]: "map_ok NewMap"
  by (simp add: map_ok_def NewMap_def)

lemma Key_replace_entry [simp]: "Key (replace_entry e v kp vp) = Key e"
  by (simp add: replace_entry_def)

lemma Val_replace_entry [simp]: "Val (replace_entry e v kp vp) = v"
  by (simp add: replace_entry_def)

lemma map_Key_update: "map Key (es[i := replace_entry (es ! i) v kp vp]) = map Key es"
  by (cases "i < length es") (simp_all add: map_update list_update_beyond list_update_same_conv)

lemma map_ok_SetAt [map_inv]:
  assumes "map_ok m"
  shows "map_ok (Map_SetAt m k v kp vp)"
proof (cases "gomap_get (index m) (CanonKey k)")
  case None
  with assms have "k \<notin> Key ` set (entries m)"
    by (auto simp: map_ok_index find_index_None)
  with None assms show ?thesis
    by (auto simp: map_ok_def Map_SetAt_def find_index_append split: option.splits)
next
  case (Some i)
  with assms show ?thesis
    by (auto simp: map_ok_def Map_SetAt_def map_Key_update find_index_update_same
        [where f = "\<lambda>e. replace_entry e v kp vp"])
qed

lemma Keys_SetAt [map_simps]:
  assumes "map_ok m"
  shows "Map_Keys (Map_SetAt m k v kp vp) =
     (if k \<in> set (Map_Keys m) then Map_Keys m else Map_Keys m @ [k])"
proof (cases "gomap_get (index m) (CanonKey k)")
  case None
  with assms have "k \<notin> Key ` set (entries m)"
    by (auto simp: map_ok_index find_index_None)
  with None show ?thesis by (simp add: Map_Keys_def Map_SetAt_def)
next
  case (Some i)
  from map_ok_in_range [OF assms Some] have "k \<in> Key ` set (entries m)"
    by (auto simp: image_iff intro!: bexI [of _ "entries m ! i"])
  with Some show ?thesis by (simp add: Map_Keys_def Map_SetAt_def map_Key_update)
qed

lemma Get_find:
  assumes "map_ok m"
  shows "Map_Get m k = map_option Val (find (\<lambda>e. Key e = k) (entries m))"
proof -
  have "find_index P es = Some i \<Longrightarrow> find P es = Some (es ! i)"
    and "find_index P es = None \<Longrightarrow> find P es = None" for P and es :: "entry list" and i
    by (induction es arbitrary: i) (auto split: if_splits)
  then show ?thesis
    using assms by (auto simp: Map_Get_def map_ok_index split: option.splits)
qed

lemma Get_map_of:
  assumes "map_ok m"
  shows "Map_Get m k = map_of (map (\<lambda>e. (Key e, Val e)) (entries m)) k"
proof -
  have "map_option Val (find (\<lambda>e. Key e = k) es) = map_of (map (\<lambda>e. (Key e, Val e)) es) k" for es
    by (induction es) auto
  with Get_find [OF assms] show ?thesis by simp
qed

lemma Get_keys:
  assumes "map_ok m"
  shows "Map_Get m k \<noteq> None \<longleftrightarrow> k \<in> set (Map_Keys m)"
  by (auto simp: Get_map_of [OF assms] Map_Keys_def map_of_eq_None_iff image_image)

lemma Get_SetAt [map_simps]:
  assumes "map_ok m"
  shows "Map_Get (Map_SetAt m k v kp vp) k' = (if k' = k then Some v else Map_Get m k')"
proof (cases "gomap_get (index m) (CanonKey k)")
  case None
  then show ?thesis
    using assms map_ok_in_range [OF assms]
    by (auto simp: Map_Get_def Map_SetAt_def nth_append split: option.splits)
next
  case (Some i)
  from map_ok_in_range [OF assms Some] Some show ?thesis
    using map_ok_in_range [OF assms]
    by (auto simp: Map_Get_def Map_SetAt_def nth_list_update split: option.splits)
qed

lemma Get_NewMap [simp, map_simps]: "Map_Get NewMap k = None"
  by (simp add: Map_Get_def NewMap_def)

lemma Keys_NewMap [simp, map_simps]: "Map_Keys NewMap = []"
  by (simp add: Map_Keys_def NewMap_def)

lemma distinct_Keys: "map_ok m \<Longrightarrow> distinct (Map_Keys m)"
  by (simp add: map_ok_def Map_Keys_def)

subsection \<open>Deletion renumbers the index\<close>

lemma get_reindex:
  assumes "distinct (map Key es)"
  shows "gomap_get (reindex es j ix) ck =
     (case find_index (\<lambda>e. CanonKey (Key e) = ck) es of
        Some i \<Rightarrow> Some (j + i) | None \<Rightarrow> gomap_get ix ck)"
  using assms
proof (induction es arbitrary: j ix)
  case Nil
  then show ?case by simp
next
  case (Cons e es)
  have "find_index (\<lambda>e'. CanonKey (Key e') = CanonKey (Key e)) es = None"
    using Cons.prems by (simp add: find_index_key_None)
  with Cons show ?case by (auto split: option.splits)
qed

lemma find_index_delete:
  assumes "distinct (map Key es)" and "i < length es" and "ck \<noteq> CanonKey (Key (es ! i))"
    and "find_index (\<lambda>e. CanonKey (Key e) = ck) (drop (Suc i) es) = None"
  shows "find_index (\<lambda>e. CanonKey (Key e) = ck) es
       = find_index (\<lambda>e. CanonKey (Key e) = ck) (take i es)"
proof -
  have "es = take i es @ es ! i # drop (Suc i) es"
    using assms(2) by (rule id_take_nth_drop)
  then have "find_index (\<lambda>e. CanonKey (Key e) = ck) es =
      find_index (\<lambda>e. CanonKey (Key e) = ck) (take i es @ es ! i # drop (Suc i) es)"
    by simp
  with assms(3,4) show ?thesis by (simp add: find_index_append split: option.splits)
qed

lemma map_ok_Delete [map_inv]:
  assumes "map_ok m"
  shows "map_ok (fst (Map_Delete m k))"
proof (cases "gomap_get (index m) (CanonKey k)")
  case None
  with assms show ?thesis by (simp add: Map_Delete_def)
next
  case (Some i)
  let ?es = "entries m"
  let ?new = "take i ?es @ drop (Suc i) ?es"
  from map_ok_in_range [OF assms Some] have i: "i < length ?es" and k: "Key (?es ! i) = k" by auto
  have es: "?es = take i ?es @ ?es ! i # drop (Suc i) ?es" using i by (rule id_take_nth_drop)
  have "distinct (map Key (take i ?es @ ?es ! i # drop (Suc i) ?es))"
    using assms es by (simp add: map_ok_def)
  then have d: "distinct (map Key ?new)" and kn: "k \<notin> Key ` set ?new"
    by (auto simp: k)
  have dd: "distinct (map Key (drop (Suc i) ?es))" using d by simp
  have len: "length (take i ?es) = i" using i by simp
  have drop: "drop i ?new = drop (Suc i) ?es" using len by simp
  have "gomap_get (reindex (drop i ?new) i (gomap_del (CanonKey k) (index m))) ck =
      find_index (\<lambda>e. CanonKey (Key e) = ck) ?new" (is "?l = ?r") for ck
  proof (cases "ck = CanonKey k")
    case True
    have "find_index (\<lambda>e. CanonKey (Key e) = ck) ?new = None"
      and "find_index (\<lambda>e. CanonKey (Key e) = ck) (drop (Suc i) ?es) = None"
      using kn True by (auto simp: find_index_None)
    with True show ?thesis by (simp only: drop get_reindex [OF dd]) simp
  next
    case False
    show ?thesis
    proof (cases "find_index (\<lambda>e. CanonKey (Key e) = ck) (drop (Suc i) ?es)")
      case None
      have "gomap_get (index m) ck = find_index (\<lambda>e. CanonKey (Key e) = ck) (take i ?es)"
        using assms find_index_delete [OF _ i _ None] False by (simp add: map_ok_def k)
      with None False show ?thesis
        by (simp only: drop get_reindex [OF dd]) (simp add: find_index_append split: option.splits)
    next
      case (Some j)
      from find_index_Some [OF Some] have "CanonKey (Key (drop (Suc i) ?es ! j)) = ck"
        and "j < length (drop (Suc i) ?es)" by auto
      then obtain e where e: "e \<in> set (drop (Suc i) ?es)" "CanonKey (Key e) = ck"
        using nth_mem by blast
      have "find_index (\<lambda>e. CanonKey (Key e) = ck) (take i ?es) = None"
        using e d by (auto simp: find_index_None)
      with Some len show ?thesis
        by (simp only: drop get_reindex [OF dd]) (simp add: find_index_append)
    qed
  qed
  with d Some show ?thesis by (simp add: Map_Delete_def map_ok_def Let_def)
qed

lemma Keys_Delete [map_simps]:
  assumes "map_ok m"
  shows "Map_Keys (fst (Map_Delete m k)) = filter (\<lambda>k'. k' \<noteq> k) (Map_Keys m)"
proof (cases "gomap_get (index m) (CanonKey k)")
  case None
  with assms have "k \<notin> set (Map_Keys m)"
    by (auto simp: map_ok_index find_index_None Map_Keys_def)
  then have "filter (\<lambda>k'. k' \<noteq> k) (Map_Keys m) = Map_Keys m" by (auto simp: filter_id_conv)
  with None show ?thesis by (simp add: Map_Delete_def)
next
  case (Some i)
  let ?ks = "Map_Keys m"
  from map_ok_in_range [OF assms Some] have i: "i < length ?ks" and k: "?ks ! i = k"
    by (auto simp: Map_Keys_def)
  have ks: "?ks = take i ?ks @ k # drop (Suc i) ?ks" using id_take_nth_drop [OF i] k by simp
  from distinct_Keys [OF assms] have "distinct (take i ?ks @ k # drop (Suc i) ?ks)"
    using ks by simp
  then have "filter (\<lambda>k'. k' \<noteq> k) (take i ?ks) = take i ?ks"
    and "filter (\<lambda>k'. k' \<noteq> k) (drop (Suc i) ?ks) = drop (Suc i) ?ks"
    by (auto simp: filter_id_conv)
  then have "filter (\<lambda>k'. k' \<noteq> k) (take i ?ks @ k # drop (Suc i) ?ks) = take i ?ks @ drop (Suc i) ?ks"
    by simp
  then have "filter (\<lambda>k'. k' \<noteq> k) ?ks = take i ?ks @ drop (Suc i) ?ks"
    by (subst ks)
  with Some show ?thesis by (simp add: Map_Delete_def Map_Keys_def take_map drop_map Let_def)
qed

lemma Get_Delete [map_simps]:
  assumes "map_ok m"
  shows "Map_Get (fst (Map_Delete m k)) k' = (if k' = k then None else Map_Get m k')"
proof -
  have g: "Map_Get (fst (Map_Delete m k)) k' =
      map_of (map (\<lambda>e. (Key e, Val e)) (entries (fst (Map_Delete m k)))) k'"
    by (rule Get_map_of) (rule map_ok_Delete [OF assms])
  show ?thesis
  proof (cases "gomap_get (index m) (CanonKey k)")
    case None
    then have "Map_Get m k = None" by (simp add: Map_Get_def)
    with None show ?thesis by (simp add: Map_Delete_def)
  next
    case (Some i)
    let ?kv = "map (\<lambda>e. (Key e, Val e))"
    from map_ok_in_range [OF assms Some] have i: "i < length (entries m)"
      and k: "Key (entries m ! i) = k" by auto
    have es: "entries m = take i (entries m) @ entries m ! i # drop (Suc i) (entries m)"
      using i by (rule id_take_nth_drop)
    from assms have "distinct (map Key (take i (entries m) @ entries m ! i # drop (Suc i) (entries m)))"
      using es by (simp add: map_ok_def)
    then have kn: "k \<notin> Key ` set (take i (entries m) @ drop (Suc i) (entries m))" by (auto simp: k)
    have "map_of (?kv (take i (entries m) @ drop (Suc i) (entries m))) k' =
        (if k' = k then None
         else map_of (?kv (take i (entries m) @ entries m ! i # drop (Suc i) (entries m))) k')"
      using map_of_remove_nth [of k "?kv (take i (entries m))" "?kv (drop (Suc i) (entries m))" k'
          "Val (entries m ! i)"] kn by (simp add: k image_image image_Un)
    with g Some es Get_map_of [OF assms, of k'] show ?thesis
      by (simp add: Map_Delete_def Let_def)
  qed
qed

interpretation om: ordered_map NewMap Map_Get "\<lambda>m k v. Map_Set m k v"
  "\<lambda>m k. fst (Map_Delete m k)" Map_Keys map_ok
  by unfold_locales
    (simp_all only: Map_Set_def map_inv map_simps Get_keys distinct_Keys simp_thms HOL.refl)

subsection \<open>Well-formed values: every mapping inside has a sound index\<close>

fun val_ok :: "val \<Rightarrow> bool"
  and vmap_ok :: "vmap \<Rightarrow> bool"
  and entries_ok :: "entry list \<Rightarrow> bool"
  and vals_ok :: "val list \<Rightarrow> bool" where
  "val_ok (VMap m) = vmap_ok m"
| "val_ok (VSeq xs) = vals_ok xs"
| "val_ok v = True"
| "vmap_ok (GMap es ix p) = (map_ok (GMap es ix p) \<and> entries_ok es)"
| "entries_ok [] = True"
| "entries_ok (Entry k v kp vp # es) = (val_ok v \<and> entries_ok es)"
| "vals_ok [] = True"
| "vals_ok (v # vs) = (val_ok v \<and> vals_ok vs)"

lemma entries_ok_iff: "entries_ok es \<longleftrightarrow> (\<forall>e \<in> set es. val_ok (Val e))"
proof (induction es)
  case (Cons e es)
  then show ?case by (cases e) simp
qed simp

lemma vals_ok_iff: "vals_ok vs \<longleftrightarrow> (\<forall>v \<in> set vs. val_ok v)"
  by (induction vs) auto

lemma vmap_ok_iff: "vmap_ok m \<longleftrightarrow> map_ok m \<and> (\<forall>e \<in> set (entries m). val_ok (Val e))"
  by (cases m) (simp add: entries_ok_iff)

lemma vmap_ok_Get: "vmap_ok m \<Longrightarrow> Map_Get m k = Some v \<Longrightarrow> val_ok v"
  by (auto simp: vmap_ok_iff Get_map_of dest!: map_of_SomeD)

lemma vmap_ok_NewMap [simp, map_inv]: "vmap_ok NewMap"
  by (simp add: NewMap_def map_ok_def)

lemma vmap_ok_SetAt [map_inv]: "vmap_ok m \<Longrightarrow> val_ok v \<Longrightarrow> vmap_ok (Map_SetAt m k v kp vp)"
  by (auto simp: vmap_ok_iff map_ok_SetAt)
    (auto simp: Map_SetAt_def Let_def split: option.splits dest!: set_update_subset_insert [THEN subsetD])

lemma Deep_id [simp]: "Deep v = v" and Deep_map_id [simp]: "Deep_map m = m"
  and Deep_entries_id [simp]: "Deep_entries es = es" and Deep_list_id [simp]: "Deep_list vs = vs"
  by (induction v and m and es and vs rule: Deep_Deep_map_Deep_entries_Deep_list.induct) simp_all

lemma Map_Clone_id [simp]: "Map_Clone m = m"
  by (simp add: Map_Clone_def)

subsection \<open>Merging\<close>

lemma map_ok_mergeEntries [map_inv]: "map_ok out \<Longrightarrow> map_ok (mergeEntries opts d out es)"
  by (induction es arbitrary: out) (auto split: option.splits simp: map_ok_SetAt)

lemma Get_mergeEntries:
  assumes "map_ok out" and "distinct (map Key es)"
  shows "Map_Get (mergeEntries opts d out es) k =
     (case map_of (map (\<lambda>e. (Key e, Val e)) es) k of
        None \<Rightarrow> Map_Get out k
      | Some v \<Rightarrow> Some (case Map_Get out k of
                         Some cur \<Rightarrow> mergeValue opts (Suc d) cur v | None \<Rightarrow> v))"
  using assms
proof (induction es arbitrary: out)
  case Nil
  then show ?case by simp
next
  case (Cons e es)
  have "map_of (map (\<lambda>e. (Key e, Val e)) es) (Key e) = None"
    using Cons.prems(2) by (simp add: map_of_eq_None_iff image_image)
  with Cons show ?case
    by (auto simp: map_ok_SetAt Get_SetAt split: option.splits)
qed

lemma Keys_mergeEntries:
  assumes "map_ok out" and "distinct (map Key es)"
  shows "Map_Keys (mergeEntries opts d out es) =
     Map_Keys out @ filter (\<lambda>k. k \<notin> set (Map_Keys out)) (map Key es)"
  using assms
proof (induction es arbitrary: out)
  case Nil
  then show ?case by simp
next
  case (Cons e es)
  let ?out = "case Map_Get out (Key e) of
      Some cur \<Rightarrow> Map_SetAt out (Key e) (mergeValue opts (Suc d) cur (Val e)) (KeyPos e) (ValPos e)
    | None \<Rightarrow> Map_SetAt out (Key e) (Val e) (KeyPos e) (ValPos e)"
  have ok: "map_ok ?out" using Cons.prems(1) by (auto simp: map_ok_SetAt split: option.splits)
  have keys: "Map_Keys ?out =
      (if Key e \<in> set (Map_Keys out) then Map_Keys out else Map_Keys out @ [Key e])"
    using Cons.prems(1) by (auto simp: Keys_SetAt split: option.splits)
  have "filter (\<lambda>x. x \<noteq> Key e \<and> x \<notin> set (Map_Keys out)) (map Key es) =
      filter (\<lambda>x. x \<notin> set (Map_Keys out)) (map Key es)"
    using Cons.prems(2) by (intro filter_cong) (auto simp: image_iff)
  with Cons.IH [OF ok] Cons.prems(2) keys show ?case by auto
qed

lemma mergeValue_maps:
  assumes "d \<le> maxMergeDepth" and "opt_Strategy opts \<noteq> Overwrite \<or> d \<noteq> 0"
  shows "mergeValue opts d (VMap dm) (VMap sm) = VMap (mergeMaps dm sm opts d)"
  using assms by (subst mergeValue.simps) (auto simp: mergeMaps_def)

lemma mergeValue_not_maps:
  assumes "\<And>dm sm. \<not> (dst = VMap dm \<and> src = VMap sm)" and "\<And>dl sl. \<not> (dst = VSeq dl \<and> src = VSeq sl)"
  shows "mergeValue opts d dst src = src"
  using assms
  by (subst mergeValue.simps) (auto simp: overwriteTop_def split: val.splits)

lemma map_ok_mergeMaps [map_inv]: "map_ok dm \<Longrightarrow> map_ok (mergeMaps dm sm opts d)"
  by (simp add: mergeMaps_def map_ok_mergeEntries)

lemma Get_mergeMaps:
  assumes "map_ok dm" and "map_ok sm"
  shows "Map_Get (mergeMaps dm sm opts d) k =
     (case (Map_Get dm k, Map_Get sm k) of
        (c, None) \<Rightarrow> c
      | (None, Some v) \<Rightarrow> Some v
      | (Some c, Some v) \<Rightarrow> Some (mergeValue opts (Suc d) c v))"
proof -
  have d: "distinct (map Key (entries sm))" using assms(2) by (simp add: map_ok_def)
  show ?thesis
    by (auto simp: mergeMaps_def Get_mergeEntries [OF assms(1) d] Get_map_of [OF assms(2)]
        split: option.splits)
qed

lemma Keys_mergeMaps:
  assumes "map_ok dm" and "map_ok sm"
  shows "Map_Keys (mergeMaps dm sm opts d) =
     Map_Keys dm @ filter (\<lambda>k. k \<notin> set (Map_Keys dm)) (Map_Keys sm)"
proof -
  have d: "distinct (map Key (entries sm))" using assms(2) by (simp add: map_ok_def)
  from Keys_mergeEntries [OF assms(1) d] show ?thesis
    by (simp add: mergeMaps_def) (simp add: Map_Keys_def)
qed

text \<open>One level of a merge, for any strategy that recurses. A key both mappings hold gets the
  merge of the two values, a key only one of them holds keeps its value, and the keys keep the
  destination's order followed by the new keys in the source's order.\<close>

theorem mergeMaps_functional:
  assumes "map_ok dm" and "map_ok sm"
  shows "(\<forall>k. Map_Get (mergeMaps dm sm opts d) k =
       (case (Map_Get dm k, Map_Get sm k) of
          (c, None) \<Rightarrow> c
        | (None, Some v) \<Rightarrow> Some v
        | (Some c, Some v) \<Rightarrow> Some (mergeValue opts (Suc d) c v)))
     \<and> Map_Keys (mergeMaps dm sm opts d) =
         Map_Keys dm @ filter (\<lambda>k. k \<notin> set (Map_Keys dm)) (Map_Keys sm)
     \<and> map_ok (mergeMaps dm sm opts d)"
  using Get_mergeMaps [OF assms] Keys_mergeMaps [OF assms] map_ok_mergeMaps [OF assms(1)] by blast

theorem mergeMaps_functional_witness:
  "Map_Get (mergeMaps (MapOf [(KStr ''a'', VInt 1)]) (MapOf [(KStr ''b'', VInt 2)])
      \<lparr>opt_Strategy = Smart, opt_MergeLists = False\<rparr> 0) (KStr ''a'') = Some (VInt 1)"
proof -
  have a: "map_ok (MapOf [(KStr ''a'', VInt 1)])" and b: "map_ok (MapOf [(KStr ''b'', VInt 2)])"
    by (simp_all add: MapOf_def Map_Set_def map_ok_SetAt)
  show ?thesis
    using mergeMaps_functional [OF a b, of "\<lparr>opt_Strategy = Smart, opt_MergeLists = False\<rparr>" 0]
    by (simp add: MapOf_def Map_Set_def Get_SetAt)
qed

subsection \<open>Values along a path of keys\<close>

fun get_path :: "val \<Rightarrow> key list \<Rightarrow> val option" where
  "get_path v [] = Some v"
| "get_path (VMap m) (k # ks) = (case Map_Get m k of None \<Rightarrow> None | Some v \<Rightarrow> get_path v ks)"
| "get_path v (k # ks) = None"

text \<open>A document is silent about a path when it runs out of keys inside its mappings.\<close>

fun silent :: "val \<Rightarrow> key list \<Rightarrow> bool" where
  "silent (VMap m) (k # ks) = (case Map_Get m k of None \<Rightarrow> True | Some v \<Rightarrow> silent v ks)"
| "silent v ks = False"

lemma silent_get_path: "silent v ks \<Longrightarrow> get_path v ks = None"
  by (induction v ks rule: silent.induct) (auto split: option.splits)

lemma mergeValue_keeps:
  assumes "opt_Strategy opts \<noteq> Overwrite" and "d + length ks \<le> maxMergeDepth"
    and "val_ok dst" and "val_ok src" and "silent src ks"
  shows "get_path (mergeValue opts d dst src) ks = get_path dst ks"
  using assms(2-5)
proof (induction ks arbitrary: d dst src)
  case Nil
  then show ?case by (cases src) simp_all
next
  case (Cons k ks)
  from Cons.prems(4) obtain sm where sm: "src = VMap sm" by (cases src) simp_all
  show ?case
  proof (cases "\<exists>dm. dst = VMap dm")
    case False
    then have "mergeValue opts d dst src = src" by (intro mergeValue_not_maps) (auto simp: sm)
    moreover have "get_path dst (k # ks) = None" using False by (cases dst) simp_all
    ultimately show ?thesis using silent_get_path [OF Cons.prems(4)] by simp
  next
    case True
    then obtain dm where dm: "dst = VMap dm" by blast
    have ok: "map_ok dm" "map_ok sm" using Cons.prems(2,3) by (simp_all add: dm sm vmap_ok_iff)
    have "mergeValue opts d dst src = VMap (mergeMaps dm sm opts d)"
      using Cons.prems(1) assms(1) by (simp add: dm sm mergeValue_maps)
    moreover have "get_path (mergeValue opts (Suc d) c v) ks = get_path c ks"
      if "Map_Get dm k = Some c" and "Map_Get sm k = Some v" for c v
      using that Cons.prems vmap_ok_Get [of dm k c] vmap_ok_Get [of sm k v]
      by (intro Cons.IH) (simp_all add: dm sm)
    ultimately show ?thesis
      using Cons.prems(4) silent_get_path [of _ ks]
      by (auto simp: dm sm Get_mergeMaps [OF ok] split: option.splits)
  qed
qed

text \<open>A merge loses nothing the source does not speak about: along any path of keys on which
  the source document runs out, no deeper than the recursion bound, the merged document holds what
  the destination held.\<close>

theorem Merge_keeps_unmentioned:
  assumes "opt_Strategy opts \<noteq> Overwrite" and "length ks \<le> maxMergeDepth"
    and "val_ok dst" and "val_ok src" and "silent src ks"
  shows "get_path (Merge dst src opts) ks = get_path dst ks"
  unfolding Merge_def by (rule mergeValue_keeps) (use assms in simp_all)

theorem Merge_keeps_unmentioned_witness:
  "get_path (Merge (VMap (MapOf [(KStr ''a'', VInt 1)])) (VMap (MapOf [(KStr ''b'', VInt 2)]))
      \<lparr>opt_Strategy = Smart, opt_MergeLists = False\<rparr>) [KStr ''a''] = Some (VInt 1)"
proof -
  have "vmap_ok (MapOf [(KStr ''a'', VInt 1)])" "vmap_ok (MapOf [(KStr ''b'', VInt 2)])"
    by (simp_all add: MapOf_def Map_Set_def vmap_ok_SetAt)
  moreover have "silent (VMap (MapOf [(KStr ''b'', VInt 2)])) [KStr ''a'']"
    by (simp add: MapOf_def Map_Set_def Get_SetAt)
  ultimately show ?thesis
    using Merge_keeps_unmentioned [of "\<lparr>opt_Strategy = Smart, opt_MergeLists = False\<rparr>" "[KStr ''a'']"
        "VMap (MapOf [(KStr ''a'', VInt 1)])" "VMap (MapOf [(KStr ''b'', VInt 2)])"]
    by (simp add: maxMergeDepth_def MapOf_def Map_Set_def Get_SetAt)
qed

text \<open>A leaf of the source is a value the merge never combines with what is below it.\<close>

definition is_leaf :: "val \<Rightarrow> bool" where
  "is_leaf v = (case v of VMap _ \<Rightarrow> False | VSeq _ \<Rightarrow> False | _ \<Rightarrow> True)"

lemma mergeValue_source_leaf:
  assumes "opt_Strategy opts \<noteq> Overwrite" and "val_ok dst" and "val_ok src"
    and "get_path src ks = Some x" and "is_leaf x"
  shows "get_path (mergeValue opts d dst src) ks = Some x"
  using assms(2-5)
proof (induction ks arbitrary: d dst src)
  case Nil
  then have "mergeValue opts d dst src = src"
    by (intro mergeValue_not_maps) (auto simp: is_leaf_def)
  with Nil show ?case by simp
next
  case (Cons k ks)
  from Cons.prems(3) obtain sm v where sm: "src = VMap sm" and v: "Map_Get sm k = Some v"
    and p: "get_path v ks = Some x" by (cases src) (auto split: option.splits)
  show ?case
  proof (cases "(\<exists>dm. dst = VMap dm) \<and> d \<le> maxMergeDepth")
    case False
    have "mergeValue opts d dst src = src"
    proof (cases "\<exists>dm. dst = VMap dm")
      case True
      with False show ?thesis by (subst mergeValue.simps) simp
    next
      case False
      then show ?thesis by (intro mergeValue_not_maps) (auto simp: sm)
    qed
    with Cons.prems(3) show ?thesis by simp
  next
    case True
    then obtain dm where dm: "dst = VMap dm" and d: "d \<le> maxMergeDepth" by blast
    have ok: "map_ok dm" "map_ok sm" using Cons.prems(1,2) by (simp_all add: dm sm vmap_ok_iff)
    have "get_path (mergeValue opts (Suc d) c v) ks = Some x" if "Map_Get dm k = Some c" for c
      using that Cons.prems v p vmap_ok_Get [of dm k c] vmap_ok_Get [of sm k v]
      by (intro Cons.IH) (simp_all add: dm sm)
    then show ?thesis
      using v p d assms(1) by (auto simp: dm sm mergeValue_maps Get_mergeMaps [OF ok] split: option.splits)
  qed
qed

text \<open>The later source wins: a scalar the source holds at a path is what the merged document
  holds there, at any depth.\<close>

theorem Merge_source_wins:
  assumes "opt_Strategy opts \<noteq> Overwrite" and "val_ok dst" and "val_ok src"
    and "get_path src ks = Some x" and "is_leaf x"
  shows "get_path (Merge dst src opts) ks = Some x"
  unfolding Merge_def using assms by (rule mergeValue_source_leaf)

theorem Merge_source_wins_witness:
  "get_path (Merge (VMap (MapOf [(KStr ''a'', VInt 1)])) (VMap (MapOf [(KStr ''a'', VInt 2)]))
      \<lparr>opt_Strategy = Recurse, opt_MergeLists = True\<rparr>) [KStr ''a''] = Some (VInt 2)"
proof -
  have "vmap_ok (MapOf [(KStr ''a'', VInt 1)])" "vmap_ok (MapOf [(KStr ''a'', VInt 2)])"
    by (simp_all add: MapOf_def Map_Set_def vmap_ok_SetAt)
  moreover have "get_path (VMap (MapOf [(KStr ''a'', VInt 2)])) [KStr ''a''] = Some (VInt 2)"
    by (simp add: MapOf_def Map_Set_def Get_SetAt)
  ultimately show ?thesis
    by (intro Merge_source_wins) (simp_all add: is_leaf_def)
qed

subsection \<open>Traversal\<close>

lemma traverse_parts_append:
  "traverse_parts v (ps @ qs) =
     (case traverse_parts v ps of None \<Rightarrow> None | Some w \<Rightarrow> traverse_parts w qs)"
  by (induction ps arbitrary: v) (auto split: option.splits)

text \<open>Traversing \<open>p:q\<close> is traversing \<open>p\<close> and then, from the value found there, \<open>q\<close>.\<close>

theorem Traverse_compose:
  assumes "p \<noteq> []" and "q \<noteq> []"
  shows "Traverse root (p @ c # q) [c] =
     (case Traverse root p [c] of None \<Rightarrow> None | Some v \<Rightarrow> Traverse v q [c])"
  using assms by (simp add: Traverse_def split_append_sep traverse_parts_append split: option.splits)

theorem Traverse_compose_witness:
  "Traverse (VSeq [VStr ''x'', VSeq [VStr ''y'']]) ''1:0'' '':'' =
     (case Traverse (VSeq [VStr ''x'', VSeq [VStr ''y'']]) ''1'' '':'' of
        None \<Rightarrow> None | Some v \<Rightarrow> Traverse v ''0'' '':'')"
  using Traverse_compose [of "''1''" "''0''" "VSeq [VStr ''x'', VSeq [VStr ''y'']]" "CHR '':''"] by simp

end
