(* ===== verification/Fnmatch.thy ===== *)
theory Fnmatch
  imports Value
begin

text \<open>
  The glob of \<open>internal/fnmatch\<close>: the translation of a pattern into a regular expression
  (\<open>fnmatchTranslate\<close>, \<open>fnmatchSet\<close>), compiled patterns with their length bound, and the
  least-recently-used cache behind \<open>Match\<close>. A Go panic (an index out of range) is \<open>None\<close>. The
  expression is held as the list of its parts rather than as text; what RE2 reads in a class is
  modelled on its tokens. Whether RE2 accepts an expression of some size is the field
  \<open>rt_accepts\<close> of the runtime record, which also holds the other functions of the Go runtime that
  later components use.
\<close>

subsection \<open>UTF-8\<close>

definition cont_byte :: "nat \<Rightarrow> bool" where
  "cont_byte b \<longleftrightarrow> 128 \<le> b \<and> b < 192"

text \<open>\<open>utf8.DecodeRune\<close>: the rune and its width; an invalid encoding is U+FFFD of width one.\<close>

definition rune_error :: nat where
  "rune_error = 65533"

fun decode_rune :: "nat list \<Rightarrow> nat \<times> nat" where
  "decode_rune bs =
     (case bs of
        [] \<Rightarrow> (rune_error, 0)
      | a # r \<Rightarrow>
          if a < 128 then (a, 1)
          else if 194 \<le> a \<and> a < 224 then
            (case r of
               b # _ \<Rightarrow> if cont_byte b then ((a - 192) * 64 + (b - 128), 2) else (rune_error, 1)
             | _ \<Rightarrow> (rune_error, 1))
          else if 224 \<le> a \<and> a < 240 then
            (case r of
               b # c # _ \<Rightarrow>
                 if cont_byte b \<and> cont_byte c \<and> (a = 224 \<longrightarrow> 160 \<le> b) \<and> (a = 237 \<longrightarrow> b < 160)
                 then ((a - 224) * 4096 + (b - 128) * 64 + (c - 128), 3) else (rune_error, 1)
             | _ \<Rightarrow> (rune_error, 1))
          else if 240 \<le> a \<and> a < 245 then
            (case r of
               b # c # d # _ \<Rightarrow>
                 if cont_byte b \<and> cont_byte c \<and> cont_byte d \<and> (a = 240 \<longrightarrow> 144 \<le> b) \<and> (a = 244 \<longrightarrow> b < 144)
                 then ((a - 240) * 262144 + (b - 128) * 4096 + (c - 128) * 64 + (d - 128), 4)
                 else (rune_error, 1)
             | _ \<Rightarrow> (rune_error, 1))
          else (rune_error, 1))"

declare decode_rune.simps [simp del]

function runes_of :: "nat list \<Rightarrow> nat list" where
  "runes_of bs = (if bs = [] then [] else
     fst (decode_rune bs) # runes_of (drop (max 1 (snd (decode_rune bs))) bs))"
  by pat_completeness auto
termination
  by (relation "measure length") (auto simp: neq_Nil_conv)

declare runes_of.simps [simp del]

function valid_utf8 :: "nat list \<Rightarrow> bool" where
  "valid_utf8 bs = (if bs = [] then True
     else decode_rune bs \<noteq> (rune_error, 1) \<and> valid_utf8 (drop (max 1 (snd (decode_rune bs))) bs))"
  by pat_completeness auto
termination
  by (relation "measure length") (auto simp: neq_Nil_conv)

declare valid_utf8.simps [simp del]

text \<open>ASCII bytes are runes of width one; the equations below evaluate them directly.\<close>

lemma decode_ascii: "a < 128 \<Longrightarrow> decode_rune (a # bs) = (a, 1)"
  by (simp add: decode_rune.simps)

lemma runes_of_ascii: "list_all (\<lambda>b. b < 128) bs \<Longrightarrow> runes_of bs = bs"
proof (induction bs)
  case (Cons b bs)
  then show ?case by (simp add: runes_of.simps [of "b # bs"] decode_ascii)
qed (simp add: runes_of.simps)

lemma valid_utf8_ascii: "list_all (\<lambda>b. b < 128) bs \<Longrightarrow> valid_utf8 bs"
proof (induction bs)
  case (Cons b bs)
  then show ?case by (simp add: valid_utf8.simps [of "b # bs"] decode_ascii rune_error_def)
qed (simp add: valid_utf8.simps)

lemma runes_of_code [code]:
  "runes_of bs = (if list_all (\<lambda>b. b < 128) bs then bs else
     if bs = [] then [] else fst (decode_rune bs) # runes_of (drop (max 1 (snd (decode_rune bs))) bs))"
  using runes_of_ascii [of bs] runes_of.simps [of bs] by presburger

lemma valid_utf8_code [code]:
  "valid_utf8 bs = (if list_all (\<lambda>b. b < 128) bs then True else
     if bs = [] then True
     else decode_rune bs \<noteq> (rune_error, 1) \<and> valid_utf8 (drop (max 1 (snd (decode_rune bs))) bs))"
  using valid_utf8_ascii [of bs] valid_utf8.simps [of bs] by presburger

definition bytes_of :: "string \<Rightarrow> nat list" where
  "bytes_of s = map of_char s"

definition runes :: "string \<Rightarrow> nat list" where
  "runes s = runes_of (bytes_of s)"

definition ValidString :: "string \<Rightarrow> bool" where
  "ValidString s = valid_utf8 (bytes_of s)"

subsection \<open>Regular expressions\<close>

datatype ctok = CLit nat | CDash

datatype re_item =
    RStar                   \<comment> \<open>\<open>.*\<close>\<close>
  | RAny                    \<comment> \<open>\<open>.\<close>\<close>
  | RLit nat                \<comment> \<open>\<open>\x{..}\<close>\<close>
  | RNever                  \<comment> \<open>\<open>[^\x00-\x{10FFFF}]\<close>\<close>
  | RClass bool "ctok list" \<comment> \<open>\<open>[..]\<close> or \<open>[^..]\<close>\<close>

fun tok_rune :: "ctok \<Rightarrow> nat" where
  "tok_rune (CLit r) = r"
| "tok_rune CDash = 45"

text \<open>The ranges RE2 reads in a class; \<open>None\<close> is its refusal of a range that runs backwards.\<close>

fun class_ranges :: "ctok list \<Rightarrow> (nat \<times> nat) list option" where
  "class_ranges [] = Some []"
| "class_ranges (t # CDash # t' # ts) =
     (if tok_rune t \<le> tok_rune t' then map_option ((#) (tok_rune t, tok_rune t')) (class_ranges ts)
      else None)"
| "class_ranges (t # ts) = map_option ((#) (tok_rune t, tok_rune t)) (class_ranges ts)"

definition in_ranges :: "(nat \<times> nat) list \<Rightarrow> nat \<Rightarrow> bool" where
  "in_ranges rs r = list_ex (\<lambda>(lo, hi). lo \<le> r \<and> r \<le> hi) rs"

fun item_matches :: "re_item \<Rightarrow> nat \<Rightarrow> bool" where
  "item_matches RStar r = True"
| "item_matches RAny r = True"
| "item_matches (RLit x) r = (r = x)"
| "item_matches RNever r = False"
| "item_matches (RClass neg ts) r =
     (case class_ranges ts of None \<Rightarrow> False | Some rs \<Rightarrow> in_ranges rs r \<noteq> neg)"

text \<open>\<open>(?s)\A\<close> the parts \<open>\z\<close>, over the runes of the input.\<close>

fun re_match :: "re_item list \<Rightarrow> nat list \<Rightarrow> bool" where
  "re_match [] s = (s = [])"
| "re_match (it # its) s =
     (if it = RStar then re_match its s \<or> (case s of [] \<Rightarrow> False | _ # s' \<Rightarrow> re_match (it # its) s')
      else (case s of [] \<Rightarrow> False | c # s' \<Rightarrow> item_matches it c \<and> re_match its s'))"

record go_runtime =
  rt_accepts :: "re_item list \<Rightarrow> bool"        \<comment> \<open>RE2 compiles an expression of this size\<close>
  rt_sprint :: "val \<Rightarrow> string"                \<comment> \<open>\<open>fmt.Sprint\<close>\<close>
  rt_ParseDuration :: "string \<Rightarrow> int option"  \<comment> \<open>\<open>time.ParseDuration\<close>\<close>
  rt_ParseSeconds :: "string \<Rightarrow> int option"   \<comment> \<open>\<open>strconv.ParseFloat\<close>, times a second\<close>
  rt_FloatSeconds :: "gofloat \<Rightarrow> int"         \<comment> \<open>a float of seconds as a duration\<close>
  rt_ParseFloat :: "string \<Rightarrow> gofloat option"  \<comment> \<open>\<open>strconv.ParseFloat\<close>\<close>
  rt_IntOfFloat :: "gofloat \<Rightarrow> int option"     \<comment> \<open>the \<open>int64\<close> a float is equal to\<close>
  rt_FloatOfInt :: "int \<Rightarrow> gofloat"           \<comment> \<open>\<open>float64(n)\<close>\<close>

subsection \<open>Translation\<close>

abbreviation rune_bang :: nat where "rune_bang \<equiv> 33"
abbreviation rune_star :: nat where "rune_star \<equiv> 42"
abbreviation rune_dash :: nat where "rune_dash \<equiv> 45"
abbreviation rune_quest :: nat where "rune_quest \<equiv> 63"
abbreviation rune_open :: nat where "rune_open \<equiv> 91"
abbreviation rune_close :: nat where "rune_close \<equiv> 93"

definition indexRune :: "nat list \<Rightarrow> nat \<Rightarrow> nat \<Rightarrow> nat option" where
  "indexRune rs r start = map_option (\<lambda>k. start + k) (find_index (\<lambda>x. x = r) (drop start rs))"

lemma indexRune_Some: "indexRune rs r start = Some k \<Longrightarrow> start \<le> k \<and> k < length rs \<and> rs ! k = r"
  by (auto simp: indexRune_def dest!: find_index_Some)

function split_chunks :: "nat list \<Rightarrow> nat \<Rightarrow> nat \<Rightarrow> nat list list \<Rightarrow> nat list list \<times> nat" where
  "split_chunks stuff i k chunks =
     (case indexRune stuff rune_dash k of
        None \<Rightarrow> (chunks, i)
      | Some k' \<Rightarrow> split_chunks stuff (k' + 1) (k' + 3) (chunks @ [drop i (take k' stuff)]))"
  by pat_completeness auto
termination
  by (relation "measure (\<lambda>(stuff, i, k, chunks). length stuff - k)") (auto dest!: indexRune_Some)

declare split_chunks.simps [simp del]

fun drop_backward :: "nat \<Rightarrow> nat list list \<Rightarrow> nat list list option" where
  "drop_backward 0 chunks = Some chunks"
| "drop_backward (Suc k) chunks =
     (let prev = chunks ! k; cur = chunks ! Suc k in
      if prev = [] \<or> cur = [] then None
      else if hd cur < last prev
      then drop_backward k (take k chunks @ [butlast prev @ tl cur] @ drop (Suc (Suc k)) chunks)
      else drop_backward k chunks)"

definition set_chunks :: "nat list \<Rightarrow> nat list list option" where
  "set_chunks stuff =
     (if rune_dash \<notin> set stuff then Some [stuff]
      else if stuff = [] then None
      else
        (let (chunks, i) = split_chunks stuff 0 (if stuff ! 0 = rune_bang then 2 else 1) [];
             chunk = drop i stuff
         in case (if 0 < length chunk then Some (chunks @ [chunk])
                  else if chunks = [] then None
                  else Some (butlast chunks @ [last chunks @ [rune_dash]])) of
              None \<Rightarrow> None
            | Some chunks' \<Rightarrow> drop_backward (length chunks' - 1) chunks'))"

fun class_tokens :: "nat list list \<Rightarrow> ctok list" where
  "class_tokens [] = []"
| "class_tokens [ch] = map CLit ch"
| "class_tokens (ch # ch' # chs) = map CLit ch @ CDash # class_tokens (ch' # chs)"

definition fnmatchSet :: "nat list \<Rightarrow> re_item option" where
  "fnmatchSet stuff =
     (case set_chunks stuff of
        None \<Rightarrow> None
      | Some chunks \<Rightarrow>
          let negate = (0 < length chunks \<and> 0 < length (chunks ! 0) \<and> chunks ! 0 ! 0 = rune_bang);
              chunks' = (if negate then chunks[0 := tl (chunks ! 0)] else chunks)
          in if list_all (\<lambda>ch. ch = []) chunks' then Some (if negate then RAny else RNever)
             else Some (RClass negate (class_tokens chunks')))"

definition skip_if :: "nat \<Rightarrow> nat list \<Rightarrow> nat \<Rightarrow> nat" where
  "skip_if r pat j = (if j < length pat \<and> pat ! j = r then j + 1 else j)"

definition close_bracket :: "nat list \<Rightarrow> nat option" where
  "close_bracket pat = indexRune pat rune_close (skip_if rune_close pat (skip_if rune_bang pat 0))"

function translate_from :: "nat list \<Rightarrow> re_item list option" where
  "translate_from [] = Some []"
| "translate_from (c # pat) =
     (if c = rune_star then map_option ((#) RStar) (translate_from (dropWhile (\<lambda>x. x = rune_star) pat))
      else if c = rune_quest then map_option ((#) RAny) (translate_from pat)
      else if c = rune_open then
        (case close_bracket pat of
           None \<Rightarrow> map_option ((#) (RLit rune_open)) (translate_from pat)
         | Some j \<Rightarrow>
             (case fnmatchSet (take j pat) of
                None \<Rightarrow> None
              | Some it \<Rightarrow> map_option ((#) it) (translate_from (drop (Suc j) pat))))
      else map_option ((#) (RLit c)) (translate_from pat))"
  by pat_completeness auto
termination
  by (relation "measure length") (auto simp: le_imp_less_Suc length_dropWhile_le)

definition fnmatchTranslate :: "string \<Rightarrow> re_item list option" where
  "fnmatchTranslate pattern = translate_from (runes pattern)"

subsection \<open>Matching and compiled patterns\<close>

definition HasMeta :: "string \<Rightarrow> bool" where
  "HasMeta pattern = contains_any pattern ''*?[''"

definition IsLiteral :: "string \<Rightarrow> bool" where
  "IsLiteral pattern \<longleftrightarrow> \<not> HasMeta pattern \<and> ValidString pattern"

definition MaxPatternLen :: nat where
  "MaxPatternLen = 1024"

definition class_compiles :: "re_item \<Rightarrow> bool" where
  "class_compiles it = (case it of RClass _ ts \<Rightarrow> class_ranges ts \<noteq> None | _ \<Rightarrow> True)"

text \<open>\<open>regexp.Compile\<close> of a translation.\<close>

definition compileRegexp :: "go_runtime \<Rightarrow> re_item list \<Rightarrow> re_item list option" where
  "compileRegexp rt re = (if list_all class_compiles re \<and> rt_accepts rt re then Some re else None)"

datatype fnm_error = ErrTooLong nat | ErrCompile nat | Panic

datatype Pattern = PLiteral string | PRegexp "re_item list"

definition Compile :: "go_runtime \<Rightarrow> string \<Rightarrow> fnm_error + Pattern" where
  "Compile rt pattern =
     (if IsLiteral pattern then Inr (PLiteral pattern)
      else if length pattern > MaxPatternLen then Inl (ErrTooLong (length pattern))
      else (case fnmatchTranslate pattern of
              None \<Rightarrow> Inl Panic
            | Some re \<Rightarrow> (case compileRegexp rt re of
                            None \<Rightarrow> Inl (ErrCompile (length pattern))
                          | Some re' \<Rightarrow> Inr (PRegexp re'))))"

fun Pattern_Match :: "Pattern \<Rightarrow> string \<Rightarrow> bool" where
  "Pattern_Match (PLiteral l) name = (l = name)"
| "Pattern_Match (PRegexp re) name = re_match re (runes name)"

text \<open>The cache: most recently used first, and the bytes of pattern text it holds.\<close>

definition cacheBytes :: nat where
  "cacheBytes = 65536"

record cache =
  cache_order :: "(string \<times> re_item list) list"
  cache_bytes :: int

definition empty_cache :: cache where
  "empty_cache = \<lparr>cache_order = [], cache_bytes = 0\<rparr>"

definition move_to_front :: "string \<Rightarrow> cache \<Rightarrow> re_item list \<Rightarrow> cache" where
  "move_to_front pattern c re =
     c\<lparr>cache_order := (pattern, re) # filter (\<lambda>(p, _). p \<noteq> pattern) (cache_order c)\<rparr>"

text \<open>The eviction loop; \<open>None\<close> is the nil dereference of \<open>Back()\<close> on an empty list.\<close>

function evict :: "nat \<Rightarrow> cache \<Rightarrow> cache option" where
  "evict n c =
     (if cache_bytes c + int n > int cacheBytes then
        (if cache_order c = [] then None
         else evict n \<lparr>cache_order = butlast (cache_order c),
                       cache_bytes = cache_bytes c - int (length (fst (last (cache_order c))))\<rparr>)
      else Some c)"
  by pat_completeness auto
termination
  by (relation "measure (\<lambda>(n, c). length (cache_order c))") auto

declare evict.simps [simp del]

text \<open>The two critical sections of \<open>cachedRegexp\<close>: the lookup, and, after the pattern was compiled
  outside the lock, the store, which looks again because another caller may have stored it.\<close>

definition cache_lookup :: "string \<Rightarrow> cache \<Rightarrow> re_item list option \<times> cache" where
  "cache_lookup pattern c =
     (case map_of (cache_order c) pattern of
        Some re \<Rightarrow> (Some re, move_to_front pattern c re)
      | None \<Rightarrow> (None, c))"

definition cache_store :: "string \<Rightarrow> re_item list \<Rightarrow> cache \<Rightarrow> (fnm_error + re_item list) \<times> cache" where
  "cache_store pattern re c =
     (case map_of (cache_order c) pattern of
        Some re' \<Rightarrow> (Inr re', move_to_front pattern c re')
      | None \<Rightarrow>
          (case evict (length pattern) c of
             None \<Rightarrow> (Inl Panic, c)
           | Some c' \<Rightarrow>
               (Inr re, \<lparr>cache_order = (pattern, re) # cache_order c',
                         cache_bytes = cache_bytes c' + int (length pattern)\<rparr>)))"

definition cachedRegexp :: "go_runtime \<Rightarrow> string \<Rightarrow> cache \<Rightarrow> (fnm_error + re_item list) \<times> cache" where
  "cachedRegexp rt pattern c =
     (case cache_lookup pattern c of
        (Some re, c') \<Rightarrow> (Inr re, c')
      | (None, c') \<Rightarrow>
          (case fnmatchTranslate pattern of
             None \<Rightarrow> (Inl Panic, c')
           | Some tr \<Rightarrow>
               (case compileRegexp rt tr of
                  None \<Rightarrow> (Inl (ErrCompile (length pattern)), c')
                | Some re \<Rightarrow>
                    if length pattern > cacheBytes then (Inr re, c') else cache_store pattern re c')))"

definition Match_cached :: "go_runtime \<Rightarrow> string \<Rightarrow> string \<Rightarrow> cache \<Rightarrow> bool \<times> cache" where
  "Match_cached rt pattern name c =
     (if IsLiteral pattern then (pattern = name, c)
      else (case cachedRegexp rt pattern c of
              (Inl _, c') \<Rightarrow> (False, c')
            | (Inr re, c') \<Rightarrow> (re_match re (runes name), c')))"

text \<open>\<open>Match\<close> as the other components call it, starting from an empty cache; that the cache never
  changes an answer is proved below.\<close>

definition Match :: "go_runtime \<Rightarrow> string \<Rightarrow> string \<Rightarrow> bool" where
  "Match rt pattern name = fst (Match_cached rt pattern name empty_cache)"

subsection \<open>The set translation never panics and RE2 reads every class\<close>

text \<open>The chunks of a set: none is empty, and only the first and the last may be a single rune.\<close>

definition chunks_ok :: "nat list list \<Rightarrow> bool" where
  "chunks_ok chs \<longleftrightarrow> (\<forall>ch \<in> set chs. ch \<noteq> []) \<and> (\<forall>j. 0 < j \<longrightarrow> Suc j < length chs \<longrightarrow> 2 \<le> length (chs ! j))"

definition all_ok :: "nat list list \<Rightarrow> bool" where
  "all_ok chs \<longleftrightarrow> (\<forall>ch \<in> set chs. ch \<noteq> []) \<and> (\<forall>j. 0 < j \<longrightarrow> j < length chs \<longrightarrow> 2 \<le> length (chs ! j))"

lemma all_ok_snoc: "all_ok chs \<Longrightarrow> ch \<noteq> [] \<Longrightarrow> chs = [] \<or> 2 \<le> length ch \<Longrightarrow> all_ok (chs @ [ch])"
  unfolding all_ok_def
  by (auto simp: nth_append less_Suc_eq)

lemma split_chunks_ok:
  assumes "all_ok chunks" and "i < k" and "chunks = [] \<or> i + 2 \<le> k" and "chunks = [] \<longrightarrow> i = 0"
    and "split_chunks stuff i k chunks = (chunks', i')"
  shows "all_ok chunks' \<and> (chunks' = [] \<longrightarrow> i' = 0)"
  using assms
proof (induction stuff i k chunks rule: split_chunks.induct)
  case (1 stuff i k chunks)
  show ?case
  proof (cases "indexRune stuff rune_dash k")
    case None
    with 1 show ?thesis by (simp add: split_chunks.simps [of stuff i k chunks])
  next
    case (Some k')
    from indexRune_Some [OF Some] have k': "k \<le> k'" "k' < length stuff" by auto
    have len: "length (drop i (take k' stuff)) = k' - i" using k' by simp
    have ok: "all_ok (chunks @ [drop i (take k' stuff)])"
    proof (rule all_ok_snoc [OF 1(2)])
      have "0 < length (drop i (take k' stuff))" using len k'(1) 1(3) by linarith
      then show "drop i (take k' stuff) \<noteq> []" by blast
      show "chunks = [] \<or> 2 \<le> length (drop i (take k' stuff))" unfolding len using k' 1(4) by linarith
    qed
    have "split_chunks stuff (k' + 1) (k' + 3) (chunks @ [drop i (take k' stuff)]) = (chunks', i')"
      using 1(6) Some by (simp add: split_chunks.simps [of stuff i k chunks])
    with "1.IH" [OF Some ok] show ?thesis by simp
  qed
qed

text \<open>Adjacent chunks from position \<open>k\<close> on: no range between two of them runs backwards.\<close>

definition forward_from :: "nat \<Rightarrow> nat list list \<Rightarrow> bool" where
  "forward_from k chs \<longleftrightarrow> (\<forall>j. k \<le> j \<longrightarrow> Suc j < length chs \<longrightarrow> last (chs ! j) \<le> hd (chs ! Suc j))"

text \<open>What the removal of backward ranges leaves: only the first chunk may be empty.\<close>

definition tail_ok :: "nat list list \<Rightarrow> bool" where
  "tail_ok chs \<longleftrightarrow> chs \<noteq> [] \<and> (\<forall>ch \<in> set (tl chs). ch \<noteq> []) \<and>
     (\<forall>j. 0 < j \<longrightarrow> Suc j < length chs \<longrightarrow> 2 \<le> length (chs ! j)) \<and>
     (\<forall>j. Suc j < length chs \<longrightarrow> chs ! j \<noteq> [] \<longrightarrow> last (chs ! j) \<le> hd (chs ! Suc j))"

lemma chunks_ok_tail_ok: "chunks_ok chs \<Longrightarrow> chs \<noteq> [] \<Longrightarrow> forward_from 0 chs \<Longrightarrow> tail_ok chs"
  by (auto simp: chunks_ok_def tail_ok_def forward_from_def dest: list.set_sel(2))

lemma merged_nth:
  assumes "Suc k < length chs"
  shows "length (take k chs @ [m] @ drop (Suc (Suc k)) chs) = length chs - 1"
    and "(take k chs @ [m] @ drop (Suc (Suc k)) chs) ! k = m"
    and "j < k \<Longrightarrow> (take k chs @ [m] @ drop (Suc (Suc k)) chs) ! j = chs ! j"
    and "k < j \<Longrightarrow> j < length chs - 1 \<Longrightarrow> (take k chs @ [m] @ drop (Suc (Suc k)) chs) ! j = chs ! Suc j"
  using assms by (auto simp: nth_append min_def)

lemma drop_backward_ok:
  assumes "chunks_ok chs" and "k < length chs" and "forward_from k chs"
  shows "\<exists>chs'. drop_backward k chs = Some chs' \<and> tail_ok chs'"
  using assms
proof (induction k arbitrary: chs)
  case 0
  then show ?case using chunks_ok_tail_ok [of chs] by auto
next
  case (Suc k)
  let ?prev = "chs ! k" and ?cur = "chs ! Suc k"
  have ne: "?prev \<noteq> []" "?cur \<noteq> []"
    using Suc.prems(1,2) by (auto simp: chunks_ok_def)
  show ?case
  proof (cases "hd ?cur < last ?prev")
    case False
    have "forward_from k chs"
      using Suc.prems(3) False by (auto simp: forward_from_def le_less_Suc_eq not_less elim!: le_SucE)
        (metis not_less_eq_eq le_antisym)
    with Suc.IH [of chs] Suc.prems ne False show ?thesis by simp
  next
    case True
    let ?m = "butlast ?prev @ tl ?cur"
    let ?new = "take k chs @ [?m] @ drop (Suc (Suc k)) chs"
    note n = merged_nth [OF Suc.prems(2), where m = ?m]
    have step: "drop_backward (Suc k) chs = drop_backward k ?new"
      using ne True by simp
    have prev2: "0 < k \<Longrightarrow> 2 \<le> length ?prev" using Suc.prems(1,2) by (simp add: chunks_ok_def)
    have cur2: "Suc (Suc k) < length chs \<Longrightarrow> 2 \<le> length ?cur" using Suc.prems(1) by (simp add: chunks_ok_def)
    have fwd: "forward_from k ?new"
      unfolding forward_from_def
    proof (intro allI impI)
      fix j assume j: "k \<le> j" "Suc j < length ?new"
      show "last (?new ! j) \<le> hd (?new ! Suc j)"
      proof (cases "j = k")
        case True
        have s: "Suc (Suc k) < length chs" using j True n(1) by simp
        have "tl ?cur \<noteq> []" using cur2 [OF s] by (cases ?cur) auto
        then have "last ?m = last ?cur" by (simp add: last_tl)
        moreover have "last ?cur \<le> hd (chs ! Suc (Suc k))"
          using Suc.prems(3) s by (simp add: forward_from_def)
        moreover have "?new ! Suc k = chs ! Suc (Suc k)" using n(4) [of "Suc k"] j True by simp
        ultimately show ?thesis using True n(2) by simp
      next
        case False
        then show ?thesis
          using j n(4) [of j] n(4) [of "Suc j"] n(1) Suc.prems(3) by (simp add: forward_from_def)
      qed
    qed
    show ?thesis
    proof (cases k)
      case 0
      then have new: "?new = ?m # drop 2 chs" by (simp add: numeral_2_eq_2)
      have tl: "set (drop 2 chs) \<subseteq> set chs" by (rule set_drop_subset)
      have "tail_ok ?new"
        unfolding tail_ok_def
      proof (intro conjI allI impI ballI)
        fix j assume "0 < j" "Suc j < length ?new"
        then show "2 \<le> length (?new ! j)"
          using n(1) n(4) [of j] 0 Suc.prems(1) by (simp add: chunks_ok_def)
      next
        fix j assume "Suc j < length ?new"
        then show "last (?new ! j) \<le> hd (?new ! Suc j)" using fwd 0 by (simp add: forward_from_def)
      qed (use new tl Suc.prems(1) in \<open>auto simp: chunks_ok_def\<close>)
      with step 0 show ?thesis by simp
    next
      case (Suc k')
      then have mne: "?m \<noteq> []" using prev2 by (cases ?prev rule: rev_cases) auto
      have "chunks_ok ?new"
        unfolding chunks_ok_def
      proof (intro conjI allI impI ballI)
        fix ch assume "ch \<in> set ?new"
        then show "ch \<noteq> []" using mne Suc.prems(1)
          by (auto simp: chunks_ok_def dest: in_set_takeD in_set_dropD)
      next
        fix j assume j: "0 < j" "Suc j < length ?new"
        consider "j < k" | "j = k" | "k < j" by linarith
        then show "2 \<le> length (?new ! j)"
        proof cases
          case 1
          then show ?thesis using n(3) [of j] j n(1) Suc.prems(1) by (simp add: chunks_ok_def)
        next
          case 2
          then have "Suc (Suc k) < length chs" using j n(1) by simp
          then show ?thesis using 2 n(2) prev2 cur2 Suc by simp
        next
          case 3
          then show ?thesis using n(4) [of j] j n(1) Suc.prems(1) by (simp add: chunks_ok_def)
        qed
      qed
      moreover have "k < length ?new" using n(1) Suc.prems(2) by simp
      ultimately show ?thesis using Suc.IH [of ?new] fwd step by simp
    qed
  qed
qed

lemma set_chunks_ok:
  assumes "stuff \<noteq> []"
  shows "\<exists>chs. set_chunks stuff = Some chs \<and> tail_ok chs"
proof (cases "rune_dash \<in> set stuff")
  case False
  then show ?thesis by (auto simp: set_chunks_def tail_ok_def)
next
  case True
  obtain chunks i where sc: "split_chunks stuff 0 (if stuff ! 0 = rune_bang then 2 else 1) [] = (chunks, i)"
    by (cases "split_chunks stuff 0 (if stuff ! 0 = rune_bang then 2 else 1) []")
  have ok: "all_ok chunks" and i0: "chunks = [] \<longrightarrow> i = 0"
    using split_chunks_ok [OF _ _ _ _ sc] by (auto simp: all_ok_def split: if_splits)
  define chs where "chs = (if 0 < length (drop i stuff) then chunks @ [drop i stuff]
      else butlast chunks @ [last chunks @ [rune_dash]])"
  have sel: "(if 0 < length (drop i stuff) then Some (chunks @ [drop i stuff])
      else if chunks = [] then None else Some (butlast chunks @ [last chunks @ [rune_dash]])) = Some chs"
    using assms i0 by (auto simp: chs_def)
  have "chunks_ok chs \<and> chs \<noteq> []"
  proof (cases "0 < length (drop i stuff)")
    case True
    then have "drop i stuff \<noteq> []" by auto
    with True ok show ?thesis by (auto simp: chs_def chunks_ok_def all_ok_def nth_append)
  next
    case False
    with i0 assms have "chunks \<noteq> []" by auto
    with False ok show ?thesis
      by (auto simp: chs_def chunks_ok_def all_ok_def nth_append nth_butlast dest: in_set_butlastD)
  qed
  moreover have "forward_from (length chs - 1) chs" by (auto simp: forward_from_def)
  ultimately obtain chs' where "drop_backward (length chs - 1) chs = Some chs'" "tail_ok chs'"
    using drop_backward_ok [of chs "length chs - 1"] by auto
  with True sc sel assms show ?thesis by (auto simp: set_chunks_def simp del: length_greater_0_conv)
qed

fun fwd :: "nat list \<Rightarrow> nat list list \<Rightarrow> bool" where
  "fwd ch [] = True"
| "fwd ch (d # ds) \<longleftrightarrow> d \<noteq> [] \<and> (ch \<noteq> [] \<longrightarrow> last ch \<le> hd d) \<and> (ds \<noteq> [] \<longrightarrow> 2 \<le> length d) \<and> fwd d ds"

lemma tail_ok_Cons: "tail_ok (ch # d # ds) \<Longrightarrow> tail_ok (d # ds)"
  unfolding tail_ok_def by (auto simp: nth_Cons split: nat.splits)

lemma tail_ok_fwd: "tail_ok (ch # ds) \<Longrightarrow> fwd ch ds"
proof (induction ds arbitrary: ch)
  case (Cons d ds)
  have "d \<in> set (tl (ch # d # ds))" by simp
  with Cons.prems have "d \<noteq> []" unfolding tail_ok_def by blast
  moreover have "last ch \<le> hd d" if "ch \<noteq> []"
  proof -
    have "Suc 0 < length (ch # d # ds)" "(ch # d # ds) ! 0 \<noteq> []" using that by simp_all
    with Cons.prems have "last ((ch # d # ds) ! 0) \<le> hd ((ch # d # ds) ! Suc 0)"
      unfolding tail_ok_def by blast
    then show ?thesis by simp
  qed
  moreover have "2 \<le> length d" if "ds \<noteq> []"
  proof -
    from Cons.prems have *: "\<forall>j. 0 < j \<longrightarrow> Suc j < length (ch # d # ds) \<longrightarrow> 2 \<le> length ((ch # d # ds) ! j)"
      unfolding tail_ok_def by (elim conjE)
    from * [rule_format, of 1] that show ?thesis by simp
  qed
  ultimately show ?case using Cons.IH [OF tail_ok_Cons [OF Cons.prems]] by simp
qed simp

lemma class_tokens_Cons: "class_tokens ((x # d) # ds) = CLit x # class_tokens (d # ds)"
  by (cases ds) auto

lemma fwd_tl: "fwd (x # d) ds \<Longrightarrow> fwd d ds"
  by (cases ds) auto

lemma class_ranges_ok: "fwd ch ds \<Longrightarrow> class_ranges (class_tokens (ch # ds)) \<noteq> None"
proof (induction ds arbitrary: ch)
  case Nil
  have "class_ranges (map CLit ch) \<noteq> None"
  proof (induction ch)
    case (Cons c ch)
    then show ?case by (cases ch) auto
  qed simp
  then show ?case by simp
next
  case (Cons d ds)
  obtain x d' where d: "d = x # d'" using Cons.prems by (cases d) auto
  have whole: "class_ranges (CLit x # class_tokens (d' # ds)) \<noteq> None"
    using Cons.IH [of d] Cons.prems by (simp add: d class_tokens_Cons del: class_tokens.simps)
  have rest: "class_ranges (class_tokens (d' # ds)) \<noteq> None"
    using Cons.IH [of d'] Cons.prems fwd_tl [of x d' ds] by (simp add: d)
  have "class_ranges (map CLit ch @ CDash # CLit x # class_tokens (d' # ds)) \<noteq> None"
    if "ch \<noteq> [] \<longrightarrow> last ch \<le> x" for ch
    using that
  proof (induction ch)
    case Nil
    then show ?case using whole by simp
  next
    case (Cons c ch)
    then show ?case using rest by (cases ch) auto
  qed
  with Cons.prems show ?case by (simp add: d class_tokens_Cons)
qed

lemma tail_ok_tl: "tail_ok ((c # ch) # ds) \<Longrightarrow> fwd ch ds"
  using fwd_tl tail_ok_fwd by blast

lemma fnmatchSet_ok:
  assumes "stuff \<noteq> []"
  shows "\<exists>it. fnmatchSet stuff = Some it \<and> class_compiles it \<and> it \<noteq> RStar"
proof -
  from set_chunks_ok [OF assms] obtain chs where sc: "set_chunks stuff = Some chs" and t: "tail_ok chs"
    by blast
  from t obtain ch ds where chs: "chs = ch # ds" by (cases chs) (auto simp: tail_ok_def)
  have "class_ranges (class_tokens (ch # ds)) \<noteq> None"
    using class_ranges_ok tail_ok_fwd t chs by blast
  moreover have "class_ranges (class_tokens (tl ch # ds)) \<noteq> None" if "ch \<noteq> []"
    using that class_ranges_ok tail_ok_tl [of "hd ch" "tl ch" ds] t chs by simp
  ultimately show ?thesis
    by (auto simp: fnmatchSet_def sc chs Let_def class_compiles_def)
qed

lemma close_bracket_pos:
  assumes "close_bracket pat = Some j"
  shows "j < length pat \<and> take j pat \<noteq> []"
proof -
  let ?s = "skip_if rune_close pat (skip_if rune_bang pat 0)"
  have j: "?s \<le> j" "j < length pat" "pat ! j = rune_close"
    using indexRune_Some [of pat rune_close ?s j] assms by (auto simp: close_bracket_def)
  have "j \<noteq> 0"
  proof
    assume "j = 0"
    with j(1) have "pat ! 0 \<noteq> rune_close" using j(2) by (auto simp: skip_if_def split: if_splits)
    with j(3) \<open>j = 0\<close> show False by simp
  qed
  with j(2) show ?thesis by auto
qed

lemma translate_from_ok:
  "\<exists>re. translate_from pat = Some re \<and> list_all class_compiles re"
proof (induction pat rule: translate_from.induct)
  case 1
  then show ?case by simp
next
  case (2 c pat)
  show ?case
  proof (cases "c = rune_open \<and> close_bracket pat \<noteq> None")
    case True
    then obtain j where j: "close_bracket pat = Some j" and c: "c = rune_open" by auto
    from fnmatchSet_ok [of "take j pat"] close_bracket_pos [OF j]
    obtain it where it: "fnmatchSet (take j pat) = Some it" "class_compiles it" by blast
    with "2.IH"(4) [OF _ _ _ j it(1)] c j show ?thesis by auto
  next
    case False
    then show ?thesis using "2.IH"(1,2,3,5) by (auto simp: class_compiles_def)
  qed
qed

text \<open>Translating a glob never panics, and every bracket set it writes is a class RE2 reads: no
  pattern an operator writes is refused for a range that runs backwards.\<close>

theorem fnmatchTranslate_total:
  "\<exists>re. fnmatchTranslate pattern = Some re \<and> list_all class_compiles re"
  unfolding fnmatchTranslate_def by (rule translate_from_ok)

lemma fnmatchTranslate_compiles:
  assumes "rt_accepts rt re" and "fnmatchTranslate pattern = Some re"
  shows "compileRegexp rt re = Some re"
  using assms translate_from_ok [of "runes pattern"] by (auto simp: compileRegexp_def fnmatchTranslate_def)

subsection \<open>What a translated glob matches\<close>

lemma re_match_RStar: "re_match (RStar # its) s \<longleftrightarrow> (\<exists>k \<le> length s. re_match its (drop k s))"
proof (induction s)
  case Nil
  then show ?case by simp
next
  case (Cons c s)
  have "(\<exists>k \<le> length (c # s). re_match its (drop k (c # s))) \<longleftrightarrow>
      re_match its (c # s) \<or> (\<exists>k \<le> length s. re_match its (drop k s))"
    (is "?l \<longleftrightarrow> ?r")
  proof
    assume ?l
    then obtain k where "k \<le> length (c # s)" "re_match its (drop k (c # s))" by blast
    then show ?r by (cases k) auto
  next
    assume ?r
    then show ?l
    proof
      assume "\<exists>k \<le> length s. re_match its (drop k s)"
      then obtain k where "k \<le> length s" "re_match its (drop k s)" by blast
      then show ?l by (intro exI [of _ "Suc k"]) simp
    qed (intro exI [of _ 0], simp)
  qed
  with Cons show ?case by simp
qed

lemma re_match_item: "it \<noteq> RStar \<Longrightarrow>
    re_match (it # its) s \<longleftrightarrow> s \<noteq> [] \<and> item_matches it (hd s) \<and> re_match its (tl s)"
  by (cases s) auto

declare re_match.simps(2) [simp del]

subsection \<open>What a bracket means\<close>

text \<open>The inside of a bracket as the characters and ranges it lists: \<open>a-b\<close> is a range, and a hyphen with
  nothing on one of its sides stands for itself.\<close>

datatype set_item = Single nat | Span nat nat

fun set_items :: "nat list \<Rightarrow> set_item list" where
  "set_items [] = []"
| "set_items [a] = [Single a]"
| "set_items (a # b # c) =
     (if b = rune_dash \<and> c \<noteq> [] then Span a (hd c) # set_items (tl c) else Single a # set_items (b # c))"

fun item_has :: "nat \<Rightarrow> set_item \<Rightarrow> bool" where
  "item_has r (Single a) \<longleftrightarrow> r = a"
| "item_has r (Span a b) \<longleftrightarrow> a \<le> r \<and> r \<le> b"

fun forward_item :: "set_item \<Rightarrow> bool" where
  "forward_item (Single a) = True"
| "forward_item (Span a b) \<longleftrightarrow> a \<le> b"

definition set_has :: "set_item list \<Rightarrow> nat \<Rightarrow> bool" where
  "set_has its r \<longleftrightarrow> list_ex (item_has r) its"

text \<open>A set whose first item begins with an exclamation mark is a complement; that of a range
  \<open>!-b\<close> leaves the hyphen and the range's end.\<close>

fun read_negation :: "set_item list \<Rightarrow> nat \<Rightarrow> bool" where
  "read_negation (Single a # its) r \<longleftrightarrow> (if a = rune_bang then \<not> set_has its r else set_has (Single a # its) r)"
| "read_negation (Span a b # its) r \<longleftrightarrow>
     (if a = rune_bang then \<not> set_has (Single rune_dash # Single b # its) r else set_has (Span a b # its) r)"
| "read_negation [] r \<longleftrightarrow> False"

definition bracket_has :: "nat list \<Rightarrow> nat \<Rightarrow> bool" where
  "bracket_has raw r \<longleftrightarrow>
     (if raw \<noteq> [] \<and> hd raw = rune_bang then \<not> set_has (set_items (tl raw)) r
      else read_negation (filter forward_item (set_items raw)) r)"

text \<open>A bracket ends at the first closing bracket after its first character, an exclamation mark not
  counted.\<close>

definition bracket :: "nat list \<Rightarrow> (nat list \<times> nat list) option" where
  "bracket pat =
     (let bang = (if pat \<noteq> [] \<and> hd pat = rune_bang then [rune_bang] else []); p = drop (length bang) pat in
      if p = [] \<or> rune_close \<notin> set (tl p) then None
      else Some (bang @ hd p # takeWhile (\<lambda>x. x \<noteq> rune_close) (tl p), tl (dropWhile (\<lambda>x. x \<noteq> rune_close) (tl p))))"

subsection \<open>The chunks of a set as its items\<close>

fun chunk_items :: "nat list list \<Rightarrow> set_item list" where
  "chunk_items [] = []"
| "chunk_items [c] = map Single c"
| "chunk_items (c # d # ds) = map Single (butlast c) @ Span (last c) (hd d) # chunk_items (tl d # ds)"

fun chunked :: "nat list list \<Rightarrow> bool" where
  "chunked [] = True"
| "chunked [c] = True"
| "chunked (c # d # ds) \<longleftrightarrow> c \<noteq> [] \<and> d \<noteq> [] \<and> chunked (tl d # ds)"

lemma chunked_append: "chunked (d # ds) \<Longrightarrow> chunked ((xs @ d) # ds)"
  by (cases ds) auto

lemma chunk_items_append:
  "chunked (d # ds) \<Longrightarrow> chunk_items ((xs @ d) # ds) = map Single xs @ chunk_items (d # ds)"
  by (cases ds) (auto simp: butlast_append)

lemma chunk_items_Cons: "chunked (d # ds) \<Longrightarrow> chunk_items ((x # d) # ds) = Single x # chunk_items (d # ds)"
  using chunk_items_append [of d ds "[x]"] by simp

lemma merge_first:
  assumes "chunked (p # c # bs)" and "hd c < last p"
  shows "chunked ((butlast p @ tl c) # bs) \<and>
     filter forward_item (chunk_items ((butlast p @ tl c) # bs)) = filter forward_item (chunk_items (p # c # bs))"
  using assms chunked_append [of "tl c" bs] chunk_items_append [of "tl c" bs] by simp

lemma merge_chunks:
  "chunked (as @ p # c # bs) \<Longrightarrow> p \<noteq> [] \<Longrightarrow> hd c < last p \<Longrightarrow>
     chunked (as @ (butlast p @ tl c) # bs) \<and>
     filter forward_item (chunk_items (as @ (butlast p @ tl c) # bs)) = filter forward_item (chunk_items (as @ p # c # bs))"
proof (induction as rule: chunked.induct)
  case 1
  then show ?case using merge_first by simp
next
  case (2 a)
  then have p: "tl p \<noteq> []" "chunked (tl p # c # bs)" by simp_all
  then have "last (tl p) = last p" "butlast (tl p) = tl (butlast p)" "butlast p \<noteq> []" "hd (butlast p) = hd p"
    by (cases p; simp)+
  with merge_first [OF p(2)] 2 p show ?case by (simp add: hd_append)
next
  case (3 a d ds)
  then show ?case by simp
qed

lemma drop_backward_items:
  "drop_backward k chs = Some chs' \<Longrightarrow> chunked chs \<Longrightarrow> k < length chs \<Longrightarrow>
     chunked chs' \<and> filter forward_item (chunk_items chs') = filter forward_item (chunk_items chs)"
proof (induction k arbitrary: chs)
  case (Suc k)
  have split: "chs = take k chs @ chs ! k # chs ! Suc k # drop (Suc (Suc k)) chs"
    using Suc.prems(3) by (metis Cons_nth_drop_Suc Suc_lessD append_take_drop_id)
  show ?case
  proof (cases "hd (chs ! Suc k) < last (chs ! k)")
    case True
    let ?new = "take k chs @ (butlast (chs ! k) @ tl (chs ! Suc k)) # drop (Suc (Suc k)) chs"
    from Suc.prems(1) True have p: "chs ! k \<noteq> []" "drop_backward k ?new = Some chs'"
      by (auto simp: Let_def split: if_splits)
    from merge_chunks [OF _ p(1) True, of "take k chs" "drop (Suc (Suc k)) chs"] split Suc.prems(2)
    have "chunked ?new" "filter forward_item (chunk_items ?new) = filter forward_item (chunk_items chs)" by auto
    with Suc.IH [OF p(2)] Suc.prems(3) show ?thesis by simp
  next
    case False
    with Suc.prems Suc.IH [of chs] show ?thesis by (auto simp: Let_def split: if_splits)
  qed
qed simp


lemma forward_items: "fwd c ds \<Longrightarrow> chunked (c # ds) \<Longrightarrow> list_all forward_item (chunk_items (c # ds))"
proof (induction ds arbitrary: c)
  case Nil
  then show ?case by (simp add: list_all_iff)
next
  case (Cons d ds)
  then have "fwd (tl d) ds" by (cases d) (auto intro: fwd_tl)
  with Cons show ?case by (auto simp: list_all_iff)
qed

text \<open>RE2 reads the class written from the chunks as their items.\<close>

fun item_bounds :: "set_item \<Rightarrow> nat \<times> nat" where
  "item_bounds (Single a) = (a, a)"
| "item_bounds (Span a b) = (a, b)"

lemma in_ranges_items: "in_ranges (map item_bounds its) r \<longleftrightarrow> set_has its r"
proof (induction its)
  case (Cons it its)
  then show ?case by (cases it) (auto simp: in_ranges_def set_has_def)
qed (simp add: in_ranges_def set_has_def)

lemma class_ranges_lits:
  "ts = [] \<or> (\<exists>x ts'. ts = CLit x # ts') \<Longrightarrow>
     class_ranges (map CLit c @ ts) = map_option ((@) (map item_bounds (map Single c))) (class_ranges ts)"
proof (induction c)
  case Nil
  then show ?case by (simp add: option.map_ident)
next
  case (Cons a c)
  have "class_ranges (CLit a # map CLit c @ ts) = map_option ((#) (a, a)) (class_ranges (map CLit c @ ts))"
    using Cons.prems by (cases c) auto
  with Cons show ?case by (simp add: option.map_comp comp_def)
qed

lemma tokens_first: "chunked (c # ds) \<Longrightarrow> class_tokens (c # ds) = [] \<or> (\<exists>x ts'. class_tokens (c # ds) = CLit x # ts')"
  by (cases c; cases ds) auto

lemma class_ranges_items:
  "chunked chs \<Longrightarrow> list_all forward_item (chunk_items chs) \<Longrightarrow>
     class_ranges (class_tokens chs) = Some (map item_bounds (chunk_items chs))"
proof (induction chs rule: chunked.induct)
  case (2 c)
  then show ?case using class_ranges_lits [of "[]" c] by simp
next
  case (3 c d ds)
  then have rest: "class_ranges (class_tokens (tl d # ds)) = Some (map item_bounds (chunk_items (tl d # ds)))" by simp
  have c: "c = butlast c @ [last c]" and d: "d = hd d # tl d" using 3(2) by simp_all
  have "map CLit c = map CLit (butlast c) @ [CLit (last c)]" by (subst c) simp
  then have "class_tokens (c # d # ds) =
      map CLit (butlast c) @ CLit (last c) # CDash # CLit (hd d) # class_tokens (tl d # ds)"
    using class_tokens_Cons [of "hd d" "tl d" ds] d by simp
  moreover have "class_ranges (CLit (last c) # CDash # CLit (hd d) # class_tokens (tl d # ds)) =
      Some ((last c, hd d) # map item_bounds (chunk_items (tl d # ds)))"
    using rest 3(3) by simp
  ultimately show ?case using class_ranges_lits [of _ "butlast c"] by (simp add: comp_def)
qed simp

subsection \<open>The split into chunks\<close>

function chop :: "nat \<Rightarrow> nat list \<Rightarrow> nat list list" where
  "chop n s =
     (case indexRune s rune_dash n of
        None \<Rightarrow> [s]
      | Some k \<Rightarrow> take k s # chop 2 (drop (Suc k) s))"
  by pat_completeness auto
termination
  by (relation "measure (\<lambda>(n, s). length s)") (auto dest!: indexRune_Some)

declare chop.simps [simp del]

definition close_chunks :: "nat list list \<Rightarrow> nat list list" where
  "close_chunks cs =
     (if last cs = [] then butlast (butlast cs) @ [last (butlast cs) @ [rune_dash]] else cs)"

lemma indexRune_drop:
  "i \<le> k \<Longrightarrow> indexRune stuff r k = map_option (\<lambda>k. i + k) (indexRune (drop i stuff) r (k - i))"
  by (simp add: indexRune_def option.map_comp comp_def)

lemma split_chunks_chop:
  "split_chunks stuff i k chunks = (chunks', i') \<Longrightarrow> i \<le> k \<Longrightarrow>
     chunks' @ [drop i' stuff] = chunks @ chop (k - i) (drop i stuff)"
proof (induction stuff i k chunks rule: split_chunks.induct)
  case (1 stuff i k chunks)
  show ?case
  proof (cases "indexRune (drop i stuff) rune_dash (k - i)")
    case None
    with 1(2) indexRune_drop [OF 1(3), of stuff rune_dash] show ?thesis
      by (simp add: split_chunks.simps [of stuff i k chunks] chop.simps [of _ "drop _ stuff"])
  next
    case (Some m)
    with indexRune_drop [OF 1(3), of stuff rune_dash] have ix: "indexRune stuff rune_dash k = Some (i + m)" by simp
    with 1(2) have "split_chunks stuff (i + m + 1) (i + m + 3) (chunks @ [drop i (take (i + m) stuff)]) = (chunks', i')"
      by (simp add: split_chunks.simps [of stuff i k chunks])
    from "1.IH" [OF ix this] Some show ?thesis
      by (simp add: chop.simps [of "k - i"] take_drop add.commute)
  qed
qed

lemma indexRune_here:
  "m < length s \<Longrightarrow> indexRune s r m = (if s ! m = r then Some m else indexRune s r (Suc m))"
  by (simp add: indexRune_def Cons_nth_drop_Suc [symmetric] option.map_comp comp_def)

lemma indexRune_beyond: "length s \<le> m \<Longrightarrow> indexRune s r m = None"
  by (simp add: indexRune_def)

lemma chop_not_Nil: "chop n s \<noteq> []"
  by (simp add: chop.simps [of n s] split: option.splits)

lemma close_chunks_Cons: "cs \<noteq> [] \<Longrightarrow> cs \<noteq> [[]] \<Longrightarrow> close_chunks (c # cs) = c # close_chunks cs"
  by (cases cs rule: rev_cases) (auto simp: close_chunks_def butlast_append)

lemma set_items_Cons: "s = [] \<or> hd s \<noteq> rune_dash \<Longrightarrow> set_items (a # s) = Single a # set_items s"
  by (cases s) auto

lemma chop_items:
  "s \<noteq> [] \<Longrightarrow> n \<le> length s \<Longrightarrow>
     \<exists>d ds. close_chunks (chop (Suc n) s) = (take n s @ d) # ds \<and> chunked (d # ds) \<and>
       chunk_items (d # ds) = set_items (drop n s)"
proof (induction s arbitrary: n rule: length_induct)
  case (1 s)
  note IH = 1(1) [rule_format]
  from 1(3,2) show ?case
  proof (induction n rule: inc_induct)
    case base
    then show ?case
      by (auto simp: chop.simps [of "Suc (length s)"] indexRune_beyond close_chunks_def intro!: exI [of _ "[]"])
  next
    case (step n)
    let ?x = "s ! n"
    have tk: "take (Suc n) s = take n s @ [?x]" using step.hyps by (simp add: take_Suc_conv_app_nth)
    have dr: "drop n s = ?x # drop (Suc n) s" using step.hyps by (simp add: Cons_nth_drop_Suc)
    show ?case
    proof (cases "Suc n < length s \<and> s ! Suc n = rune_dash")
      case False
      then have ix: "indexRune s rune_dash (Suc n) = indexRune s rune_dash (Suc (Suc n))"
        by (cases "Suc n < length s") (simp_all add: indexRune_here indexRune_beyond)
      then have "chop (Suc n) s = chop (Suc (Suc n)) s" by (simp add: chop.simps [of _ s])
      with step.IH [OF step.prems] obtain d ds where d: "close_chunks (chop (Suc n) s) = (take (Suc n) s @ d) # ds"
        "chunked (d # ds)" "chunk_items (d # ds) = set_items (drop (Suc n) s)" by auto
      moreover have "drop (Suc n) s = [] \<or> hd (drop (Suc n) s) \<noteq> rune_dash"
        using False by (auto simp: hd_drop_conv_nth)
      ultimately show ?thesis
        using chunked_append [OF d(2), of "[?x]"] chunk_items_Cons [OF d(2), of ?x]
        by (intro exI [of _ "?x # d"] exI [of _ ds]) (simp add: tk dr set_items_Cons)
    next
      case True
      let ?r = "drop (Suc (Suc n)) s"
      have ch: "chop (Suc n) s = take (Suc n) s # chop 2 ?r"
        using True by (simp add: chop.simps [of "Suc n"] indexRune_here)
      have dr2: "drop (Suc n) s = rune_dash # ?r" using True by (metis Cons_nth_drop_Suc)
      show ?thesis
      proof (cases "?r = []")
        case True
        then have "chop 2 ?r = [[]]" by (simp add: chop.simps [of 2] indexRune_beyond)
        then have "close_chunks (chop (Suc n) s) = [take n s @ [?x, rune_dash]]"
          by (simp add: ch close_chunks_def tk)
        with True show ?thesis by (intro exI [of _ "[?x, rune_dash]"] exI [of _ "[]"]) (simp add: dr dr2)
      next
        case False
        then obtain h t where r: "?r = h # t" by (cases ?r) auto
        have "length ?r < length s" using step.hyps by (simp add: diff_less_Suc less_imp_diff_less)
        from IH [OF this False, of 1] r obtain d ds where d: "close_chunks (chop 2 ?r) = (h # d) # ds"
          "chunked (d # ds)" "chunk_items (d # ds) = set_items t" by (auto simp: numeral_2_eq_2)
        have "chop 2 ?r \<noteq> [[]]" using d(1) r by (auto simp: close_chunks_def chop.simps [of 2] split: option.splits)
        then have "close_chunks (chop (Suc n) s) = take (Suc n) s # (h # d) # ds"
          by (simp add: ch close_chunks_Cons chop_not_Nil d(1))
        with d r show ?thesis
          by (intro exI [of _ "[?x]"] exI [of _ "(h # d) # ds"]) (simp add: tk dr dr2)
      qed
    qed
  qed
qed

text \<open>The items of the chunks the translator ends with: those of the set, without the ranges that run
  backwards.\<close>

definition raw_items :: "nat list \<Rightarrow> set_item list" where
  "raw_items stuff =
     (if hd stuff = rune_bang then Single rune_bang # set_items (tl stuff) else set_items stuff)"

lemma chop_raw_items:
  assumes "stuff \<noteq> []"
  shows "chunked (close_chunks (chop (if stuff ! 0 = rune_bang then 2 else 1) stuff)) \<and>
     chunk_items (close_chunks (chop (if stuff ! 0 = rune_bang then 2 else 1) stuff)) = raw_items stuff"
proof -
  obtain a rest where s: "stuff = a # rest" using assms by (cases stuff) auto
  show ?thesis
  proof (cases "a = rune_bang")
    case True
    from chop_items [of stuff 1] s obtain d ds where "close_chunks (chop 2 stuff) = (a # d) # ds" "chunked (d # ds)"
      "chunk_items (d # ds) = set_items rest" by (auto simp: numeral_2_eq_2)
    with True s show ?thesis using chunked_append [of d ds "[a]"] by (simp add: chunk_items_Cons raw_items_def)
  next
    case False
    with chop_items [of stuff 0] s show ?thesis by (auto simp: raw_items_def)
  qed
qed

lemma set_chunks_items:
  assumes "stuff \<noteq> []" and "set_chunks stuff = Some chs"
  shows "chunked chs \<and> filter forward_item (chunk_items chs) = filter forward_item (raw_items stuff)"
proof -
  let ?n = "if stuff ! 0 = rune_bang then 2 else 1"
  note raw = chop_raw_items [OF assms(1)]
  show ?thesis
  proof (cases "rune_dash \<in> set stuff")
    case False
    then have "find_index (\<lambda>x. x = rune_dash) (drop ?n stuff) = None"
      by (auto simp: find_index_None dest: in_set_dropD)
    then have "chop ?n stuff = [stuff]" by (simp add: chop.simps [of ?n] indexRune_def)
    with False assms raw show ?thesis by (auto simp: set_chunks_def close_chunks_def)
  next
    case True
    obtain chunks i where sc: "split_chunks stuff 0 ?n [] = (chunks, i)" by (cases "split_chunks stuff 0 ?n []")
    from split_chunks_chop [OF sc] have ch: "chop ?n stuff = chunks @ [drop i stuff]" by simp
    have "(if 0 < length (drop i stuff) then Some (chunks @ [drop i stuff])
        else if chunks = [] then None else Some (butlast chunks @ [last chunks @ [rune_dash]])) =
        (if drop i stuff = [] \<and> chunks = [] then None else Some (close_chunks (chop ?n stuff)))"
      by (simp add: ch close_chunks_def)
    with assms True sc have "drop_backward (length (close_chunks (chop ?n stuff)) - 1) (close_chunks (chop ?n stuff)) = Some chs"
      by (auto simp: set_chunks_def simp del: length_greater_0_conv split: if_splits)
    moreover have "close_chunks (chop ?n stuff) \<noteq> []" by (simp add: close_chunks_def chop_not_Nil)
    ultimately show ?thesis using drop_backward_items raw by fastforce
  qed
qed

lemma set_has_forward: "set_has (filter forward_item its) r = set_has its r"
proof (induction its)
  case (Cons it its)
  then show ?case by (cases it) (auto simp: set_has_def)
qed (simp add: set_has_def)

lemma empty_chunks: "chunked (c # cs) \<Longrightarrow> list_all (\<lambda>ch. ch = []) (c # cs) \<Longrightarrow> c = [] \<and> cs = []"
  by (cases cs) auto

lemma class_means_items:
  assumes "chunked (c # cs)" and "list_all forward_item (chunk_items (c # cs))"
  shows "item_matches (if list_all (\<lambda>ch. ch = []) (c # cs) then (if neg then RAny else RNever)
       else RClass neg (class_tokens (c # cs))) r \<longleftrightarrow> set_has (chunk_items (c # cs)) r \<noteq> neg"
proof (cases "list_all (\<lambda>ch. ch = []) (c # cs)")
  case True
  with empty_chunks [OF assms(1)] show ?thesis by (simp add: set_has_def)
next
  case False
  then have "item_matches (RClass neg (class_tokens (c # cs))) r \<longleftrightarrow> set_has (chunk_items (c # cs)) r \<noteq> neg"
    using class_ranges_items [OF assms] by (simp add: in_ranges_items)
  with False show ?thesis by (simp only: if_False)
qed

lemma bang_dash_class:
  assumes "chunked ([a] # d # ds)" and "list_all forward_item (chunk_items ([a] # d # ds))"
  shows "class_ranges (class_tokens ([] # d # ds)) =
     Some (map item_bounds (Single rune_dash # Single (hd d) # chunk_items (tl d # ds)))"
proof -
  have d: "d = hd d # tl d" "chunked (tl d # ds)" "list_all forward_item (chunk_items (tl d # ds))" using assms by simp_all
  have "class_tokens ([] # d # ds) = CDash # map CLit [hd d] @ class_tokens (tl d # ds)"
    using class_tokens_Cons [of "hd d" "tl d" ds] d(1) by simp
  moreover have "class_ranges (CDash # map CLit [hd d] @ ts) = map_option ((#) (45, 45)) (class_ranges (map CLit [hd d] @ ts))" for ts
    by simp
  ultimately show ?thesis
    using class_ranges_lits [OF tokens_first [OF d(2)], of "[hd d]"] class_ranges_items [OF d(2,3)] by simp
qed

lemma chunks_mean_items:
  assumes ok: "chunked (c # cs)" "list_all forward_item (chunk_items (c # cs))" and t: "set_chunks stuff = Some (c # cs)"
    and it: "fnmatchSet stuff = Some it"
  shows "item_matches it r \<longleftrightarrow> read_negation (chunk_items (c # cs)) r"
proof -
  consider (plain) "c = [] \<or> hd c \<noteq> rune_bang" | (neg) c' where "c = rune_bang # c'" "c' \<noteq> [] \<or> cs = []"
    | (dash) d ds where "c = [rune_bang]" "cs = d # ds"
    by (cases c; cases cs) auto
  then show ?thesis
  proof cases
    case plain
    then have "item_matches it r \<longleftrightarrow> set_has (chunk_items (c # cs)) r"
      using class_means_items [OF ok, of False r] it t
      by (cases c) (auto simp: fnmatchSet_def Let_def split: if_splits)
    moreover have "read_negation (chunk_items (c # cs)) r = set_has (chunk_items (c # cs)) r"
      using plain ok(1) by (cases c; cases cs) (auto simp: set_has_def)
    ultimately show ?thesis by simp
  next
    case neg
    have ok': "chunked (c' # cs)" using ok(1) neg by (cases cs) auto
    have eq: "chunk_items (c # cs) = Single rune_bang # chunk_items (c' # cs)"
      using chunk_items_Cons [OF ok'] neg by simp
    then have "item_matches it r \<longleftrightarrow> \<not> set_has (chunk_items (c' # cs)) r"
      using class_means_items [OF ok', of True r] ok(2) it t neg
      by (auto simp: fnmatchSet_def Let_def split: if_splits)
    with eq show ?thesis by simp
  next
    case dash
    have "it = RClass True (class_tokens ([] # d # ds))"
      using it t dash ok(1) by (simp add: fnmatchSet_def Let_def)
    moreover have "class_ranges (class_tokens ([] # d # ds)) =
        Some (map item_bounds (Single rune_dash # Single (hd d) # chunk_items (tl d # ds)))"
      using bang_dash_class ok dash by blast
    ultimately have "item_matches it r \<longleftrightarrow> \<not> set_has (Single rune_dash # Single (hd d) # chunk_items (tl d # ds)) r"
      by (simp only: item_matches.simps option.case in_ranges_items) simp
    with dash show ?thesis by simp
  qed
qed

lemma fnmatchSet_has:
  assumes "stuff \<noteq> []" and "fnmatchSet stuff = Some it"
  shows "item_matches it r \<longleftrightarrow> bracket_has stuff r"
proof -
  from set_chunks_ok [OF assms(1)] obtain chs where chs: "set_chunks stuff = Some chs" "tail_ok chs" by blast
  then obtain c cs where c: "chs = c # cs" by (cases chs) (auto simp: tail_ok_def)
  note sc = set_chunks_items [OF assms(1) chs(1)]
  have fw: "list_all forward_item (chunk_items (c # cs))"
    using forward_items [OF tail_ok_fwd] chs(2) sc c by blast
  then have its: "chunk_items (c # cs) = filter forward_item (raw_items stuff)"
    using sc c by (simp add: list_all_iff filter_id_conv)
  have "item_matches it r \<longleftrightarrow> read_negation (filter forward_item (raw_items stuff)) r"
    using chunks_mean_items [OF _ fw _ assms(2)] sc chs(1) by (simp add: c its)
  then show ?thesis
    using assms(1) by (auto simp: bracket_has_def raw_items_def set_has_forward)
qed

lemma find_index_takeWhile:
  "find_index (\<lambda>x. x = r) xs = (if r \<in> set xs then Some (length (takeWhile (\<lambda>x. x \<noteq> r) xs)) else None)"
  by (induction xs) auto

lemma after_takeWhile:
  "take (length (takeWhile P p)) p = takeWhile P p"
  "drop (length (takeWhile P p)) p = dropWhile P p"
  by (simp_all add: takeWhile_eq_take [symmetric] dropWhile_eq_drop)

lemma drop_takeWhile_tl: "drop (Suc (length (takeWhile P p))) p = tl (dropWhile P p)"
  by (metis after_takeWhile(2) drop_Suc tl_drop)

lemma close_bracket_bracket:
  "bracket pat = map_option (\<lambda>j. (take j pat, drop (Suc j) pat)) (close_bracket pat)"
proof (cases pat)
  case (Cons a q)
  then show ?thesis
    by (cases q)
      (auto simp: bracket_def close_bracket_def indexRune_def skip_if_def find_index_takeWhile after_takeWhile
        drop_takeWhile_tl)
qed (simp add: bracket_def close_bracket_def indexRune_def)

subsection \<open>The meaning of a glob\<close>

text \<open>Read off the pattern: \<open>*\<close> stands for any text, \<open>/\<close> included, \<open>?\<close> for any one character, a closed bracket
  for one character of its set, and any other character, an unclosed bracket and a backslash among them,
  for itself.\<close>

function glob_spec :: "nat list \<Rightarrow> nat list \<Rightarrow> bool" where
  "glob_spec [] s \<longleftrightarrow> s = []"
| "glob_spec (c # pat) s \<longleftrightarrow>
     (if c = rune_star then \<exists>k \<le> length s. glob_spec pat (drop k s)
      else s \<noteq> [] \<and>
        (case if c = rune_open then bracket pat else None of
           Some (raw, rest) \<Rightarrow> bracket_has raw (hd s) \<and> glob_spec rest (tl s)
         | None \<Rightarrow> (c = rune_quest \<or> hd s = c) \<and> glob_spec pat (tl s)))"
  by pat_completeness auto
termination
  by (relation "measure (\<lambda>(pat, s). length pat)")
    (auto simp: close_bracket_bracket le_imp_less_Suc split: if_splits)

declare glob_spec.simps(2) [simp del]

lemma glob_spec_stars: "(\<exists>k \<le> length s. glob_spec pat (drop k s)) \<longleftrightarrow>
    (\<exists>k \<le> length s. glob_spec (dropWhile (\<lambda>x. x = rune_star) pat) (drop k s))"
proof (induction pat arbitrary: s)
  case (Cons c pat)
  show ?case
  proof (cases "c = rune_star")
    case True
    have "(\<exists>k \<le> length s. glob_spec (c # pat) (drop k s)) \<longleftrightarrow>
        (\<exists>k \<le> length s. glob_spec pat (drop k s))" (is "?l \<longleftrightarrow> ?r")
    proof
      assume ?l
      then obtain k j where "k \<le> length s" "j \<le> length (drop k s)" "glob_spec pat (drop j (drop k s))"
        using True by (auto simp: glob_spec.simps(2))
      then show ?r by (intro exI [of _ "j + k"]) simp
    next
      assume ?r
      then show ?l using True by (intro exI [of _ 0]) (simp add: glob_spec.simps(2))
    qed
    with Cons.IH True show ?thesis by simp
  qed simp
qed simp

lemma translate_spec:
  "translate_from pat = Some re \<Longrightarrow> re_match re s \<longleftrightarrow> glob_spec pat s"
proof (induction pat arbitrary: re s rule: translate_from.induct)
  case 1
  then show ?case by simp
next
  case (2 c pat)
  consider (star) "c = rune_star" | (set) j where "c = rune_open" "close_bracket pat = Some j"
    | (other) "c \<noteq> rune_star" "c = rune_open \<longrightarrow> close_bracket pat = None" by fastforce
  then show ?case
  proof cases
    case star
    with "2.prems" obtain re' where re': "translate_from (dropWhile (\<lambda>x. x = rune_star) pat) = Some re'"
      "re = RStar # re'" by auto
    from "2.IH"(1) [OF star re'(1)] star show ?thesis
      by (simp add: re'(2) re_match_RStar glob_spec.simps(2) glob_spec_stars [of s pat])
  next
    case set
    from fnmatchSet_ok [of "take j pat"] close_bracket_pos [OF set(2)]
    obtain it where it: "fnmatchSet (take j pat) = Some it" "it \<noteq> RStar" by blast
    with "2.prems" set obtain re' where re': "translate_from (drop (Suc j) pat) = Some re'" "re = it # re'"
      by auto
    have "item_matches it r \<longleftrightarrow> bracket_has (take j pat) r" for r
      using fnmatchSet_has [OF _ it(1)] close_bracket_pos [OF set(2)] by blast
    with "2.IH"(4) [OF _ _ _ set(2) it(1) re'(1)] set it show ?thesis
      by (simp add: re'(2) re_match_item glob_spec.simps(2) close_bracket_bracket)
  next
    case other
    with "2.prems" obtain it re' where re': "translate_from pat = Some re'" "re = it # re'"
      and it: "it = (if c = rune_quest then RAny else RLit c)" by (auto split: if_splits)
    have "re_match re' s' \<longleftrightarrow> glob_spec pat s'" for s'
      using "2.IH"(2,3,5) other re'(1) by (cases "c = rune_quest"; cases "c = rune_open") auto
    with other it show ?thesis by (auto simp: re'(2) re_match_item glob_spec.simps(2) close_bracket_bracket)
  qed
qed

text \<open>C36: a glob is translated to a regular expression that matches exactly the texts the pattern means.
  \<open>*\<close> crosses \<open>/\<close>, runs of stars count once and an unclosed bracket is a literal. A bracket matches one
  character among those and the ranges it lists, or outside them when it begins with an exclamation mark; a
  range that runs backwards lists nothing, and an exclamation mark that comes first once such ranges are
  taken away negates too, as in Python.\<close>

theorem fnmatchTranslate_correct:
  "\<exists>re. fnmatchTranslate pattern = Some re \<and>
     (re_match re (runes name) \<longleftrightarrow> glob_spec (runes pattern) (runes name))"
  using translate_from_ok [of "runes pattern"] translate_spec [of "runes pattern" _ "runes name"]
  by (auto simp: fnmatchTranslate_def)

subsection \<open>The literal fast path\<close>

definition encode_rune :: "nat \<Rightarrow> nat list" where
  "encode_rune r =
     (if r < 128 then [r]
      else if r < 2048 then [192 + r div 64, 128 + r mod 64]
      else if r < 65536 then [224 + r div 4096, 128 + r div 64 mod 64, 128 + r mod 64]
      else [240 + r div 262144, 128 + r div 4096 mod 64, 128 + r div 64 mod 64, 128 + r mod 64])"

lemma digit64: "y < 64 \<Longrightarrow> (x * 64 + y) mod 64 = y \<and> (x * 64 + y) div 64 = (x::nat)"
  by simp

lemma cont_byte_digit: "cont_byte b \<Longrightarrow> \<exists>y. b = 128 + y \<and> y < 64"
  by (auto simp: cont_byte_def intro!: exI [of _ "b - 128"])

lemma decode_two:
  assumes "194 \<le> a" and "a < 224" and "cont_byte b"
  shows "encode_rune ((a - 192) * 64 + (b - 128)) = [a, b] \<and> 128 \<le> (a - 192) * 64 + (b - 128)"
proof -
  obtain y where b: "b = 128 + y" "y < 64" using cont_byte_digit [OF assms(3)] by blast
  define x where "x = a - 192"
  then have a: "a = 192 + x" "2 \<le> x" "x < 32" using assms by auto
  have "\<not> x * 64 + y < 128" "x * 64 + y < 2048" using a b by auto
  with digit64 [OF b(2), of x] show ?thesis
    by (simp add: encode_rune_def a(1) b(1) del: div_mult_self3 mod_mult_self3)
qed

lemma decode_three:
  assumes "224 \<le> a" and "a < 240" and "cont_byte b" and "cont_byte c" and "a = 224 \<longrightarrow> 160 \<le> b"
  shows "encode_rune ((a - 224) * 4096 + (b - 128) * 64 + (c - 128)) = [a, b, c]
     \<and> 128 \<le> (a - 224) * 4096 + (b - 128) * 64 + (c - 128)"
proof -
  obtain y where b: "b = 128 + y" "y < 64" using cont_byte_digit [OF assms(3)] by blast
  obtain z where c: "c = 128 + z" "z < 64" using cont_byte_digit [OF assms(4)] by blast
  define x where "x = a - 224"
  then have a: "a = 224 + x" "x < 16" "x = 0 \<longrightarrow> 32 \<le> y" using assms(1,2,5) b by auto
  define r where "r = (x * 64 + y) * 64 + z"
  have r: "(a - 224) * 4096 + (b - 128) * 64 + (c - 128) = r" by (simp add: r_def a(1) b(1) c(1))
  have "2048 \<le> r" "r < 65536" using a b c by (auto simp: r_def)
  moreover have d1: "r mod 64 = z" "r div 64 = x * 64 + y" unfolding r_def using digit64 [OF c(2), of "x * 64 + y"] by blast+
  moreover have "r div 4096 = r div 64 div 64" by (simp add: div_mult2_eq [symmetric])
  ultimately show ?thesis
    using digit64 [OF b(2), of x] unfolding r by (simp add: encode_rune_def a(1) b(1) c(1))
qed

lemma decode_four:
  assumes "240 \<le> a" and "cont_byte b" and "cont_byte c" and "cont_byte d" and "a = 240 \<longrightarrow> 144 \<le> b"
  shows "encode_rune ((a - 240) * 262144 + (b - 128) * 4096 + (c - 128) * 64 + (d - 128)) = [a, b, c, d]
     \<and> 128 \<le> (a - 240) * 262144 + (b - 128) * 4096 + (c - 128) * 64 + (d - 128)"
proof -
  obtain y where b: "b = 128 + y" "y < 64" using cont_byte_digit [OF assms(2)] by blast
  obtain z where c: "c = 128 + z" "z < 64" using cont_byte_digit [OF assms(3)] by blast
  obtain v where d: "d = 128 + v" "v < 64" using cont_byte_digit [OF assms(4)] by blast
  define x where "x = a - 240"
  then have a: "a = 240 + x" "x = 0 \<longrightarrow> 16 \<le> y" using assms(1,5) b by auto
  define r where "r = ((x * 64 + y) * 64 + z) * 64 + v"
  have r: "(a - 240) * 262144 + (b - 128) * 4096 + (c - 128) * 64 + (d - 128) = r"
    by (simp add: r_def a(1) b(1) c(1) d(1))
  have "65536 \<le> r" using a b c d by (auto simp: r_def)
  moreover have "r mod 64 = v" "r div 64 = (x * 64 + y) * 64 + z" unfolding r_def using digit64 [OF d(2), of "(x * 64 + y) * 64 + z"] by blast+
  moreover have "r div 4096 = r div 64 div 64" "r div 262144 = r div 64 div 64 div 64"
    by (simp_all add: div_mult2_eq [symmetric])
  ultimately show ?thesis
    using digit64 [OF b(2), of x] digit64 [OF c(2), of "x * 64 + y"] unfolding r
    by (simp add: encode_rune_def a(1) b(1) c(1) d(1))
qed

lemma encode_rune_nonempty [simp]: "encode_rune r \<noteq> []"
  by (simp add: encode_rune_def)

text \<open>A valid encoding is the encoding of the rune it decodes to.\<close>

lemma decode_valid:
  assumes "bs \<noteq> []" and "decode_rune bs = (r, w)" and "(r, w) \<noteq> (rune_error, 1)"
  shows "\<exists>rest. bs = encode_rune r @ rest \<and> w = length (encode_rune r)"
proof -
  obtain a bs1 where bs: "bs = a # bs1" using assms(1) by (cases bs) auto
  consider "a < 128" | "128 \<le> a" "a < 194" | "194 \<le> a" "a < 224" | "224 \<le> a" "a < 240"
    | "240 \<le> a" "a < 245" | "245 \<le> a" by linarith
  then show ?thesis
  proof cases
    case 1
    with assms(2) show ?thesis by (auto simp: bs decode_rune.simps encode_rune_def)
  next
    case 3
    with assms(2,3) decode_two [of a] show ?thesis
      by (auto simp: bs decode_rune.simps split: list.splits if_splits)
  next
    case 4
    with assms(2,3) decode_three [of a] show ?thesis
      by (auto simp: bs decode_rune.simps split: list.splits if_splits)
  next
    case 5
    with assms(2,3) decode_four [of a] show ?thesis
      by (auto simp: bs decode_rune.simps split: list.splits if_splits)
  qed (use assms(2,3) in \<open>auto simp: bs decode_rune.simps\<close>)
qed

lemma runes_of_inject:
  "valid_utf8 as \<Longrightarrow> valid_utf8 bs \<Longrightarrow> runes_of as = runes_of bs \<Longrightarrow> as = bs"
proof (induction "length as" arbitrary: as bs rule: less_induct)
  case less
  show ?case
  proof (cases "as = [] \<or> bs = []")
    case True
    with less.prems(3) show ?thesis
      by (auto simp: runes_of.simps [of as] runes_of.simps [of bs] split: if_splits)
  next
    case False
    obtain r w where a: "decode_rune as = (r, w)" by (cases "decode_rune as")
    obtain r' w' where b: "decode_rune bs = (r', w')" by (cases "decode_rune bs")
    from less.prems(1) False a have va: "(r, w) \<noteq> (rune_error, 1)" "valid_utf8 (drop (max 1 w) as)"
      by (simp_all add: valid_utf8.simps [of as])
    from less.prems(2) False b have vb: "(r', w') \<noteq> (rune_error, 1)" "valid_utf8 (drop (max 1 w') bs)"
      by (simp_all add: valid_utf8.simps [of bs])
    from less.prems(3) False a b have rr: "r = r'"
      and tl: "runes_of (drop (max 1 w) as) = runes_of (drop (max 1 w') bs)"
      by (simp_all add: runes_of.simps [of as] runes_of.simps [of bs])
    from decode_valid [OF _ a va(1)] False obtain as' where as': "as = encode_rune r @ as'" "w = length (encode_rune r)"
      by blast
    from decode_valid [OF _ b vb(1)] False obtain bs' where bs': "bs = encode_rune r' @ bs'" "w' = length (encode_rune r')"
      by blast
    have w: "max 1 w = w" "max 1 w' = w'" using as'(2) bs'(2) by (simp_all add: encode_rune_def)
    have "as' = bs'"
    proof (rule less.hyps)
      show "length as' < length as" using as' w by simp
    qed (use va vb tl as' bs' w in simp_all)
    with as' bs' rr show ?thesis by simp
  qed
qed

lemma rune_small: "bs \<noteq> [] \<Longrightarrow> fst (decode_rune bs) < 128 \<Longrightarrow> fst (decode_rune bs) \<in> set bs"
proof -
  assume ne: "bs \<noteq> []" and small: "fst (decode_rune bs) < 128"
  obtain r w where d: "decode_rune bs = (r, w)" by (cases "decode_rune bs")
  with small have "(r, w) \<noteq> (rune_error, 1)" by (auto simp: rune_error_def)
  from decode_valid [OF ne d this] small d show ?thesis by (auto simp: encode_rune_def)
qed

lemma set_runes_small: "r \<in> set (runes_of bs) \<Longrightarrow> r < 128 \<Longrightarrow> r \<in> set bs"
proof (induction bs rule: runes_of.induct)
  case (1 bs)
  show ?case
  proof (cases "bs = []")
    case True
    with 1 show ?thesis by (simp add: runes_of.simps)
  next
    case False
    with "1.prems" "1.IH" rune_small [OF False] show ?thesis
      by (auto simp: runes_of.simps [of bs] dest: in_set_dropD)
  qed
qed

lemma translate_literal:
  "rune_star \<notin> set pat \<Longrightarrow> rune_quest \<notin> set pat \<Longrightarrow> rune_open \<notin> set pat \<Longrightarrow>
     translate_from pat = Some (map RLit pat)"
  by (induction pat) auto

lemma re_match_literal: "re_match (map RLit pat) s \<longleftrightarrow> s = pat"
proof (induction pat arbitrary: s)
  case (Cons c pat)
  then show ?case by (cases s) (simp_all add: re_match_item)
qed simp

lemma literal_no_meta:
  assumes "\<not> HasMeta pattern" and "c \<in> set ''*?[''"
  shows "(of_char c :: nat) \<notin> set (runes pattern)"
proof
  assume r: "(of_char c :: nat) \<in> set (runes pattern)"
  have "(of_char c :: nat) < 128" using assms(2) by auto
  with r have "(of_char c :: nat) \<in> set (bytes_of pattern)"
    unfolding runes_def by (rule set_runes_small)
  then have "c \<in> set pattern" by (auto simp: bytes_of_def)
  with assms show False by (auto simp: HasMeta_def contains_any_def list_ex_iff)
qed

lemma bytes_of_inject: "bytes_of a = bytes_of b \<longleftrightarrow> a = b"
  unfolding bytes_of_def by (auto intro: inj_onI dest!: map_injective)

text \<open>Skipping the regular expression for a pattern without metacharacters changes no answer:
  its translation matches a name that is valid UTF-8 exactly when the two strings are equal.\<close>

theorem literal_fast_path:
  assumes "IsLiteral pattern" and "ValidString name"
  shows "\<exists>re. fnmatchTranslate pattern = Some re \<and> (re_match re (runes name) \<longleftrightarrow> pattern = name)"
proof -
  have "fnmatchTranslate pattern = Some (map RLit (runes pattern))"
    unfolding fnmatchTranslate_def
    using assms(1) literal_no_meta [of pattern "CHR ''*''"] literal_no_meta [of pattern "CHR ''?''"]
      literal_no_meta [of pattern "CHR ''[''"]
    by (intro translate_literal) (simp_all add: IsLiteral_def)
  moreover have "runes name = runes pattern \<longleftrightarrow> pattern = name"
    using assms runes_of_inject [of "bytes_of name" "bytes_of pattern"]
    by (auto simp: IsLiteral_def ValidString_def runes_def bytes_of_inject)
  ultimately show ?thesis by (auto simp: re_match_literal)
qed

theorem literal_fast_path_witness:
  "\<exists>re. fnmatchTranslate ''web1'' = Some re \<and> (re_match re (runes ''web1'') \<longleftrightarrow> ''web1'' = ''web1'')"
proof -
  have "IsLiteral ''web1''" "ValidString ''web1''" by code_simp+
  then show ?thesis by (rule literal_fast_path)
qed

subsection \<open>The cache\<close>

definition pattern_bytes :: "(string \<times> re_item list) list \<Rightarrow> nat" where
  "pattern_bytes es = sum_list (map (\<lambda>(p, _). length p) es)"

text \<open>What the lock protects: each pattern once, with its own compilation, and the count of their
  bytes, which never passes the bound.\<close>

definition cache_ok :: "go_runtime \<Rightarrow> cache \<Rightarrow> bool" where
  "cache_ok rt c \<longleftrightarrow>
     distinct (map fst (cache_order c))
     \<and> (\<forall>(p, re) \<in> set (cache_order c). \<exists>tr. fnmatchTranslate p = Some tr \<and> compileRegexp rt tr = Some re)
     \<and> cache_bytes c = int (pattern_bytes (cache_order c))
     \<and> pattern_bytes (cache_order c) \<le> cacheBytes"

lemma cache_ok_empty: "cache_ok rt empty_cache"
  by (simp add: cache_ok_def empty_cache_def pattern_bytes_def)

lemma pattern_bytes_simps [simp]:
  "pattern_bytes [] = 0"
  "pattern_bytes ((p, re) # es) = length p + pattern_bytes es"
  "pattern_bytes (es @ es') = pattern_bytes es + pattern_bytes es'"
  by (simp_all add: pattern_bytes_def)

lemma pattern_bytes_remove:
  "distinct (map fst es) \<Longrightarrow> map_of es p = Some re \<Longrightarrow>
     pattern_bytes es = length p + pattern_bytes (filter (\<lambda>(q, _). q \<noteq> p) es)"
proof (induction es)
  case (Cons e es)
  obtain q r where e: "e = (q, r)" by (cases e)
  show ?case
  proof (cases "q = p")
    case True
    with Cons.prems(1) have "p \<notin> fst ` set es" by (simp add: e)
    then have "filter (\<lambda>(q, _). q \<noteq> p) es = es" by (auto simp: filter_id_conv image_iff)
    with True show ?thesis by (simp add: e)
  next
    case False
    with Cons show ?thesis by (simp add: e)
  qed
qed simp

lemma cache_ok_move_to_front:
  assumes "cache_ok rt c" and "map_of (cache_order c) p = Some re"
  shows "cache_ok rt (move_to_front p c re)"
proof -
  let ?es = "filter (\<lambda>(q, _). q \<noteq> p) (cache_order c)"
  have "distinct (map fst ?es)" using assms(1) by (auto simp: cache_ok_def intro: distinct_map_filter)
  moreover have "p \<notin> fst ` set ?es" by auto
  moreover have "(p, re) \<in> set (cache_order c)" using assms(2) by (rule map_of_SomeD)
  moreover have "pattern_bytes (cache_order c) = length p + pattern_bytes ?es"
    using assms by (intro pattern_bytes_remove) (auto simp: cache_ok_def)
  ultimately show ?thesis
    using assms(1) by (auto simp: cache_ok_def move_to_front_def)
qed

lemma evict_ok:
  "cache_ok rt c \<Longrightarrow> n \<le> cacheBytes \<Longrightarrow>
     \<exists>c'. evict n c = Some c' \<and> cache_ok rt c' \<and> pattern_bytes (cache_order c') + n \<le> cacheBytes
          \<and> is_prefix (cache_order c') (cache_order c)"
proof (induction n c rule: evict.induct)
  case (1 n c)
  show ?case
  proof (cases "cache_bytes c + int n > int cacheBytes")
    case False
    with 1 show ?thesis by (auto simp: evict.simps [of n c] cache_ok_def)
  next
    case True
    have ne: "cache_order c \<noteq> []" using True 1(2,3) by (auto simp: cache_ok_def)
    then obtain es p re where es: "cache_order c = es @ [(p, re)]" by (metis rev_exhaust surj_pair)
    let ?c = "\<lparr>cache_order = es, cache_bytes = cache_bytes c - int (length p)\<rparr>"
    have "cache_ok rt ?c" using 1(2) by (auto simp: cache_ok_def es)
    with "1.IH" True ne es 1(3) obtain c' where "evict n ?c = Some c'" "cache_ok rt c'"
      "pattern_bytes (cache_order c') + n \<le> cacheBytes" "is_prefix (cache_order c') es" by auto
    then show ?thesis
      using True ne es by (auto simp: evict.simps [of n c] intro: is_prefix_append_trans)
  qed
qed

lemma cache_store_ok:
  assumes "cache_ok rt c" and "length p \<le> cacheBytes"
    and "fnmatchTranslate p = Some tr" and "compileRegexp rt tr = Some re"
  shows "\<exists>c'. cache_store p re c = (Inr re, c') \<and> cache_ok rt c'"
proof (cases "map_of (cache_order c) p")
  case None
  from evict_ok [OF assms(1,2)] obtain c' where c': "evict (length p) c = Some c'" "cache_ok rt c'"
    "pattern_bytes (cache_order c') + length p \<le> cacheBytes" "is_prefix (cache_order c') (cache_order c)"
    by blast
  have "p \<notin> fst ` set (cache_order c')"
    using None is_prefix_set [OF c'(4)] by (auto simp: map_of_eq_None_iff)
  with c' None assms(3,4) show ?thesis by (auto simp: cache_store_def cache_ok_def)
next
  case (Some re')
  from map_of_SomeD [OF Some] assms have "re' = re" by (auto simp: cache_ok_def)
  with Some cache_ok_move_to_front [OF assms(1) Some] show ?thesis by (simp add: cache_store_def)
qed

lemma cachedRegexp_ok:
  assumes "cache_ok rt c" and "fnmatchTranslate p = Some tr"
  shows "\<exists>c'. cachedRegexp rt p c =
     (case compileRegexp rt tr of None \<Rightarrow> Inl (ErrCompile (length p)) | Some re \<Rightarrow> Inr re, c') \<and> cache_ok rt c'"
proof (cases "map_of (cache_order c) p")
  case (Some re)
  from map_of_SomeD [OF Some] assms have "compileRegexp rt tr = Some re" by (auto simp: cache_ok_def)
  with Some cache_ok_move_to_front [OF assms(1) Some] show ?thesis
    by (auto simp: cachedRegexp_def cache_lookup_def)
next
  case None
  show ?thesis
  proof (cases "compileRegexp rt tr")
    case (Some re)
    with None assms cache_store_ok [OF assms(1) _ assms(2) Some] show ?thesis
      by (auto simp: cachedRegexp_def cache_lookup_def)
  qed (use None assms in \<open>simp add: cachedRegexp_def cache_lookup_def\<close>)
qed

lemma Match_cached_ok:
  assumes "cache_ok rt c"
  shows "fst (Match_cached rt p name c) = Match rt p name \<and> cache_ok rt (snd (Match_cached rt p name c))"
proof -
  obtain tr where tr: "fnmatchTranslate p = Some tr" using translate_from_ok by (auto simp: fnmatchTranslate_def)
  from cachedRegexp_ok [OF assms tr] cachedRegexp_ok [OF cache_ok_empty [of rt] tr] show ?thesis
    using assms by (auto simp: Match_def Match_cached_def split: option.splits)
qed

text \<open>The steps concurrent callers of \<open>Match\<close> take on the shared cache: each critical section of
  \<open>cachedRegexp\<close> is one step, and between the lookup and the store of one caller any number of
  steps of other callers may come.\<close>

inductive cache_step :: "go_runtime \<Rightarrow> cache \<Rightarrow> cache \<Rightarrow> bool" for rt where
  lookup: "cache_step rt c (snd (cache_lookup p c))"
| store: "fnmatchTranslate p = Some tr \<Longrightarrow> compileRegexp rt tr = Some re \<Longrightarrow> length p \<le> cacheBytes \<Longrightarrow>
    cache_step rt c (snd (cache_store p re c))"

inductive cache_reachable :: "go_runtime \<Rightarrow> cache \<Rightarrow> bool" for rt where
  start: "cache_reachable rt empty_cache"
| step: "cache_reachable rt c \<Longrightarrow> cache_step rt c c' \<Longrightarrow> cache_reachable rt c'"

lemma cache_step_ok: "cache_step rt c c' \<Longrightarrow> cache_ok rt c \<Longrightarrow> cache_ok rt c'"
proof (induction rule: cache_step.induct)
  case (lookup c p)
  then show ?case by (auto simp: cache_lookup_def cache_ok_move_to_front split: option.splits)
next
  case (store p tr re c)
  from cache_store_ok [OF store(4,3,1,2)] show ?case by auto
qed

lemma cache_reachable_ok: "cache_reachable rt c \<Longrightarrow> cache_ok rt c"
  by (induction rule: cache_reachable.induct) (auto intro: cache_ok_empty cache_step_ok)

text \<open>A runtime that accepts every expression and reads no number, for concrete runs.\<close>

definition no_runtime :: go_runtime where
  "no_runtime = \<lparr>rt_accepts = (\<lambda>_. True), rt_sprint = (\<lambda>_. []), rt_ParseDuration = (\<lambda>_. None),
     rt_ParseSeconds = (\<lambda>_. None), rt_FloatSeconds = (\<lambda>_. 0), rt_ParseFloat = (\<lambda>_. None),
     rt_IntOfFloat = (\<lambda>_. None), rt_FloatOfInt = (\<lambda>_. GoFloat [])\<rparr>"

text \<open>C37: however concurrent callers interleave, the pattern cache holds at most 64 KiB of pattern
  text with an exact byte count, its eviction loop never takes from an empty list, and no state of
  it changes the answer of a match.\<close>

theorem cache_transparent_and_bounded:
  assumes "cache_reachable rt c"
  shows "cache_bytes c = int (pattern_bytes (cache_order c)) \<and> cache_bytes c \<le> 65536
     \<and> fst (Match_cached rt p name c) = Match rt p name
     \<and> (length p \<le> 65536 \<longrightarrow> evict (length p) c \<noteq> None)
     \<and> cache_ok rt (snd (Match_cached rt p name c))"
  using cache_reachable_ok [OF assms] Match_cached_ok [of rt c p name] evict_ok [of rt c "length p"]
  by (auto simp: cache_ok_def cacheBytes_def)

theorem cache_transparent_and_bounded_witness:
  "fst (Match_cached no_runtime ''*'' ''a'' (snd (cache_lookup ''*'' empty_cache))) = Match no_runtime ''*'' ''a''"
  using cache_transparent_and_bounded [OF cache_reachable.step [OF cache_reachable.start cache_step.lookup]]
  by blast

lemma Match_eq:
  "Match rt p name \<longleftrightarrow>
     (if IsLiteral p then p = name
      else \<exists>re. fnmatchTranslate p = Some re \<and> compileRegexp rt re = Some re \<and> re_match re (runes name))"
proof -
  obtain tr where tr: "fnmatchTranslate p = Some tr" using translate_from_ok by (auto simp: fnmatchTranslate_def)
  from cachedRegexp_ok [OF cache_ok_empty tr, of rt] show ?thesis
    by (auto simp: Match_def Match_cached_def tr compileRegexp_def split: option.splits if_splits)
qed

text \<open>The equation evaluates a match without the cache.\<close>

lemma Match_code [code]:
  "Match rt p name =
     (if IsLiteral p then p = name
      else case fnmatchTranslate p of
        None \<Rightarrow> False
      | Some re \<Rightarrow> (case compileRegexp rt re of None \<Rightarrow> False | Some re' \<Rightarrow> re_match re' (runes name)))"
  by (auto simp: Match_eq compileRegexp_def split: option.split)

end
