(* ===== verification/Diag.thy ===== *)
theory Diag
  imports Value "HOL-Library.Product_Lexorder"
begin

text \<open>
  Diagnostics of the state compiler (\<open>internal/state/diag.go\<close>) and the one spelling of an SLS
  name (\<open>internal/state/slsname.go\<close>). A message is kept as the format string and the arguments
  the code passes to \<open>fmt.Sprintf\<close>; where the text itself decides something (sorting, printing),
  the formatter is the parameter \<open>sprintf\<close>.
\<close>

subsection \<open>Diagnostics\<close>

text \<open>\<open>FErr\<close> is an error value made by \<open>fmt.Errorf\<close> with its own format and arguments.\<close>

datatype fmt_arg = FStr string | FInt int | FErr string "fmt_arg list"

record Diag =
  diag_Pos :: pos
  diag_SLS :: string
  diag_ID :: string
  diag_Fmt :: string
  diag_Args :: "fmt_arg list"
  diag_Related :: "(pos \<times> string) list"
  diag_Warning :: bool

type_synonym Diags = "Diag list"

type_synonym sprintf = "string \<Rightarrow> fmt_arg list \<Rightarrow> string"

definition mk_diag :: "pos \<Rightarrow> string \<Rightarrow> string \<Rightarrow> string \<Rightarrow> fmt_arg list \<Rightarrow> Diag" where
  "mk_diag p sls ident fmt args =
     \<lparr>diag_Pos = p, diag_SLS = sls, diag_ID = ident, diag_Fmt = fmt, diag_Args = args,
      diag_Related = [], diag_Warning = False\<rparr>"

definition Diags_Add :: "pos \<Rightarrow> string \<Rightarrow> string \<Rightarrow> string \<Rightarrow> fmt_arg list \<Rightarrow> Diags \<Rightarrow> Diags" where
  "Diags_Add p sls ident fmt args ds = ds @ [mk_diag p sls ident fmt args]"

definition Diags_Warn :: "pos \<Rightarrow> string \<Rightarrow> string \<Rightarrow> string \<Rightarrow> fmt_arg list \<Rightarrow> Diags \<Rightarrow> Diags" where
  "Diags_Warn p sls ident fmt args ds = ds @ [(mk_diag p sls ident fmt args)\<lparr>diag_Warning := True\<rparr>]"

definition Diags_AddRelated ::
  "pos \<Rightarrow> string \<Rightarrow> string \<Rightarrow> (pos \<times> string) list \<Rightarrow> string \<Rightarrow> fmt_arg list \<Rightarrow> Diags \<Rightarrow> Diags" where
  "Diags_AddRelated p sls ident related fmt args ds =
     ds @ [(mk_diag p sls ident fmt args)\<lparr>diag_Related := related\<rparr>]"

definition Diags_Errors :: "Diags \<Rightarrow> Diags" where
  "Diags_Errors ds = filter (\<lambda>d. \<not> diag_Warning d) ds"

definition Diags_Warnings :: "Diags \<Rightarrow> Diags" where
  "Diags_Warnings ds = filter diag_Warning ds"

fun HasErrors :: "Diags \<Rightarrow> bool" where
  "HasErrors [] = False"
| "HasErrors (d # ds) = (if \<not> diag_Warning d then True else HasErrors ds)"

definition diag_Msg :: "sprintf \<Rightarrow> Diag \<Rightarrow> string" where
  "diag_Msg sprintf d = sprintf (diag_Fmt d) (diag_Args d)"

definition messageCarriesPosition :: "sprintf \<Rightarrow> Diag \<Rightarrow> bool" where
  "messageCarriesPosition sprintf d =
     (if pos_File (diag_Pos d) = [] then False
      else has_prefix (diag_Msg sprintf d) (pos_File (diag_Pos d) @ '':''))"

definition Diag_String :: "sprintf \<Rightarrow> Diag \<Rightarrow> string" where
  "Diag_String sprintf d =
     (if \<not> messageCarriesPosition sprintf d then
        (if \<not> Pos_IsZero (diag_Pos d) then Pos_String (diag_Pos d)
         else if diag_SLS d \<noteq> [] then diag_SLS d else ''<state>'')
        @ (if diag_ID d \<noteq> [] then '' ['' @ diag_ID d @ '']'' else [])
        @ '': ''
      else if diag_ID d \<noteq> [] then ''['' @ diag_ID d @ ''] '' else [])
     @ diag_Msg sprintf d
     @ concat (map (\<lambda>(p, m). [CHR 0x0A] @ ''    '' @ Pos_String p @ '': '' @ m) (diag_Related d))"

text \<open>\<open>sort.SliceStable\<close> on file, then line, then message.\<close>

definition Diags_Sorted :: "sprintf \<Rightarrow> Diags \<Rightarrow> Diags" where
  "Diags_Sorted sprintf ds =
     sort_key (\<lambda>d. (pos_File (diag_Pos d), pos_Line (diag_Pos d), diag_Msg sprintf d)) ds"

definition Diags_Err :: "sprintf \<Rightarrow> Diags \<Rightarrow> string option" where
  "Diags_Err sprintf ds =
     (let errs = Diags_Sorted sprintf (Diags_Errors ds) in
      if length errs = 0 then None
      else Some (''state compilation failed with '' @ format_int (int (length errs)) @ '' error(s):''
             @ concat (map (\<lambda>e. [CHR 0x0A] @ ''  '' @ Diag_String sprintf e) errs)))"

subsection \<open>SLS names\<close>

definition suggestSLS :: "string \<Rightarrow> string" where
  "suggestSLS name =
     (let s = map (\<lambda>c. if c = CHR ''/'' \<or> c = CHR 0x5C then CHR ''.'' else c) name
      in str_join ''.'' (filter (\<lambda>c. c \<noteq> []) (str_split s ''.'')))"

text \<open>The error is the format and arguments of the \<open>fmt.Errorf\<close> call.\<close>

definition CanonicalSLS :: "string \<Rightarrow> (string \<times> fmt_arg list) + string" where
  "CanonicalSLS name =
     (if name = [] then Inl (''an SLS name may not be empty'', [])
      else if contains_any name [CHR ''/'', CHR 0x5C] then
        Inl (''SLS name %q contains a path separator; write it with dots, as %q'',
             [FStr name, FStr (suggestSLS name)])
      else if list_ex (\<lambda>comp. comp = []) (str_split name ''.'') then
        Inl (''SLS name %q has an empty component (a leading, trailing or doubled dot); write it as %q'',
             [FStr name, FStr (suggestSLS name)])
      else Inr name)"

text \<open>The files a name may live in, of \<open>internal/fileserver/roots.go\<close>.\<close>

definition slsCandidates :: "string \<Rightarrow> string list" where
  "slsCandidates sls =
     (let rel = map (\<lambda>c. if c = CHR ''.'' then CHR ''/'' else c) sls in [rel @ ''.sls'', rel @ ''/init.sls''])"

subsection \<open>Facts on diagnostics\<close>

lemma HasErrors_iff: "HasErrors ds \<longleftrightarrow> (\<exists>d \<in> set ds. \<not> diag_Warning d)"
  by (induction ds) auto

lemma HasErrors_append [simp]: "HasErrors (ds @ es) \<longleftrightarrow> HasErrors ds \<or> HasErrors es"
  by (auto simp: HasErrors_iff)

lemma HasErrors_Add [simp]: "HasErrors (Diags_Add p sls ident fmt args ds)"
  by (simp add: Diags_Add_def mk_diag_def)

lemma HasErrors_Warn [simp]: "HasErrors (Diags_Warn p sls ident fmt args ds) = HasErrors ds"
  by (simp add: Diags_Warn_def mk_diag_def)

lemma HasErrors_AddRelated [simp]: "HasErrors (Diags_AddRelated p sls ident rel fmt args ds)"
  by (simp add: Diags_AddRelated_def mk_diag_def)

lemma Diags_Add_mono [simp, diag_mono]: "is_prefix ds (Diags_Add p sls ident fmt args ds)"
  by (simp add: Diags_Add_def)

lemma Diags_Warn_mono [simp, diag_mono]: "is_prefix ds (Diags_Warn p sls ident fmt args ds)"
  by (simp add: Diags_Warn_def)

lemma Diags_AddRelated_mono [simp, diag_mono]: "is_prefix ds (Diags_AddRelated p sls ident rel fmt args ds)"
  by (simp add: Diags_AddRelated_def)

lemma HasErrors_mono: "is_prefix ds es \<Longrightarrow> HasErrors ds \<Longrightarrow> HasErrors es"
  by (auto simp: is_prefix_def)

text \<open>A compilation is reported as failed, with every error and no warning in the report,
  exactly when some error was recorded: warnings never stop a compilation and no error is lost by
  the sorting.\<close>

theorem Diags_Err_iff:
  "(Diags_Err sprintf ds \<noteq> None \<longleftrightarrow> HasErrors ds)
   \<and> mset (Diags_Sorted sprintf (Diags_Errors ds)) = filter_mset (\<lambda>d. \<not> diag_Warning d) (mset ds)"
proof
  have "length (Diags_Sorted sprintf (Diags_Errors ds)) = length (Diags_Errors ds)"
    by (simp add: Diags_Sorted_def)
  moreover have "length (Diags_Errors ds) = 0 \<longleftrightarrow> \<not> HasErrors ds"
    by (auto simp: Diags_Errors_def HasErrors_iff filter_empty_conv)
  ultimately show "Diags_Err sprintf ds \<noteq> None \<longleftrightarrow> HasErrors ds"
    by (simp add: Diags_Err_def Let_def del: length_0_conv)
  show "mset (Diags_Sorted sprintf (Diags_Errors ds)) = filter_mset (\<lambda>d. \<not> diag_Warning d) (mset ds)"
    by (simp add: Diags_Sorted_def Diags_Errors_def)
qed

subsection \<open>Facts on SLS names\<close>

lemma CanonicalSLS_iff:
  "CanonicalSLS name = Inr n \<longleftrightarrow>
     n = name \<and> name \<noteq> [] \<and> CHR ''/'' \<notin> set name \<and> CHR 0x5C \<notin> set name
       \<and> [] \<notin> set (str_split name ''.'')"
  by (auto simp: CanonicalSLS_def contains_any_def list_ex_iff)

text \<open>The components a suggestion joins.\<close>

definition name_parts :: "string \<Rightarrow> string list" where
  "name_parts name =
     filter (\<lambda>c. c \<noteq> [])
       (str_split (map (\<lambda>c. if c = CHR ''/'' \<or> c = CHR 0x5C then CHR ''.'' else c) name) ''.'')"

lemma suggestSLS_file: "suggestSLS name = str_join ''.'' (name_parts name)"
  by (simp add: suggestSLS_def name_parts_def Let_def)

lemma name_parts_canonical:
  assumes "CanonicalSLS name = Inr n"
  shows "name_parts name = str_split name ''.''"
proof -
  have "map (\<lambda>c. if c = CHR ''/'' \<or> c = CHR 0x5C then CHR ''.'' else c) name = name"
    using assms by (auto simp: CanonicalSLS_iff intro!: map_idI)
  moreover have "filter (\<lambda>c. c \<noteq> []) (str_split name ''.'') = str_split name ''.''"
    using assms by (auto simp: CanonicalSLS_iff filter_id_conv)
  ultimately show ?thesis by (simp add: name_parts_def)
qed

lemma set_str_join_subset: "set (str_join sep ws) \<subseteq> set sep \<union> \<Union> (set ` set ws)"
  by (induction sep ws rule: str_join.induct) auto

lemma set_str_join_member: "w \<in> set ws \<Longrightarrow> set w \<subseteq> set (str_join sep ws)"
  by (induction sep ws rule: str_join.induct) auto

lemma name_parts_chars:
  assumes "w \<in> set (name_parts name)"
  shows "w \<noteq> [] \<and> CHR ''.'' \<notin> set w \<and> CHR ''/'' \<notin> set w \<and> CHR 0x5C \<notin> set w"
proof -
  let ?s = "map (\<lambda>c. if c = CHR ''/'' \<or> c = CHR 0x5C then CHR ''.'' else c) name"
  from assms have w: "w \<noteq> []" "w \<in> set (str_split ?s ''.'')" by (auto simp: name_parts_def)
  from set_str_join_member [OF w(2), of "''.''"] have "set w \<subseteq> set ?s" by simp
  moreover have "CHR ''/'' \<notin> set ?s" "CHR 0x5C \<notin> set ?s" by (auto split: if_splits)
  ultimately show ?thesis using w split_no_sep [OF w(2)] by blast
qed

lemma suggestSLS_canonical:
  assumes "name_parts name \<noteq> []"
  shows "CanonicalSLS (suggestSLS name) = Inr (suggestSLS name) \<and> name_parts (suggestSLS name) = name_parts name"
proof -
  have split: "str_split (suggestSLS name) ''.'' = name_parts name"
    unfolding suggestSLS_file by (rule split_join [OF assms]) (auto dest: name_parts_chars)
  have "set (suggestSLS name) \<subseteq> {CHR ''.''} \<union> \<Union> (set ` set (name_parts name))"
    using set_str_join_subset [of "''.''" "name_parts name"] by (simp add: suggestSLS_file)
  then have "CHR ''/'' \<notin> set (suggestSLS name)" "CHR 0x5C \<notin> set (suggestSLS name)"
    using name_parts_chars by fastforce+
  moreover have "suggestSLS name \<noteq> []"
  proof
    assume "suggestSLS name = []"
    then have "name_parts name = [[]]" using split by (simp add: str_split_def split_aux.simps)
    with name_parts_chars [of "[]" name] show False by simp
  qed
  ultimately have "CanonicalSLS (suggestSLS name) = Inr (suggestSLS name)"
    using split name_parts_chars by (auto simp: CanonicalSLS_iff)
  with name_parts_canonical [OF this] split show ?thesis by simp
qed

lemma suggestSLS_accepted: "CanonicalSLS name = Inr n \<Longrightarrow> n = name \<and> suggestSLS name = name"
  by (auto simp: suggestSLS_file name_parts_canonical join_split CanonicalSLS_iff)

lemma dots_inject:
  assumes "map (\<lambda>c. if c = CHR ''.'' then CHR ''/'' else c) a = map (\<lambda>c. if c = CHR ''.'' then CHR ''/'' else c) b"
    and "CHR ''/'' \<notin> set a" and "CHR ''/'' \<notin> set b"
  shows "a = b"
  using assms
proof (induction a arbitrary: b)
  case (Cons c a)
  then show ?case by (cases b) (auto split: if_splits)
qed simp

lemma candidate_init:
  "map (\<lambda>c. if c = CHR ''.'' then CHR ''/'' else c) a @ ''/init.sls'' =
   map (\<lambda>c. if c = CHR ''.'' then CHR ''/'' else c) (a @ ''.init'') @ ''.sls''"
  by simp

lemma candidates_shared:
  assumes "CHR ''/'' \<notin> set a" and "CHR ''/'' \<notin> set b"
  shows "set (slsCandidates a) \<inter> set (slsCandidates b) \<noteq> {} \<longleftrightarrow> a = b \<or> a = b @ ''.init'' \<or> b = a @ ''.init''"
proof -
  have same: "map (\<lambda>c. if c = CHR ''.'' then CHR ''/'' else c) x @ ''.sls'' =
      map (\<lambda>c. if c = CHR ''.'' then CHR ''/'' else c) y @ ''.sls'' \<longleftrightarrow> x = y"
    if "CHR ''/'' \<notin> set x" "CHR ''/'' \<notin> set y" for x y
    using dots_inject [OF _ that] by auto
  have "CHR ''/'' \<notin> set (x @ ''.init'')" if "CHR ''/'' \<notin> set x" for x using that by simp
  note ini = this [OF assms(1)] this [OF assms(2)]
  show ?thesis
    unfolding slsCandidates_def Let_def candidate_init
    using same [OF assms] same [OF assms(1) ini(2)] same [OF ini(1) assms(2)] same [OF ini]
    by (auto simp del: map_append)
qed

text \<open>C38: how far an accepted SLS name is the only spelling of a file. Two different accepted names have a
  candidate file in common exactly when one is the other followed by \<open>.init\<close>; an accepted name is taken as it is
  written and is its own suggestion; and a suggestion that is not empty is accepted.\<close>

theorem CanonicalSLS_one_spelling:
  "(\<forall>a b a' b'. CanonicalSLS a = Inr a' \<and> CanonicalSLS b = Inr b' \<longrightarrow>
      (set (slsCandidates a) \<inter> set (slsCandidates b) \<noteq> {} \<longleftrightarrow> a = b \<or> a = b @ ''.init'' \<or> b = a @ ''.init''))
   \<and> (\<forall>name n. CanonicalSLS name = Inr n \<longrightarrow> n = name \<and> suggestSLS name = name)
   \<and> (\<forall>name. suggestSLS name \<noteq> [] \<longrightarrow> CanonicalSLS (suggestSLS name) = Inr (suggestSLS name))"
proof (intro conjI allI impI)
  fix a b a' b'
  assume "CanonicalSLS a = Inr a' \<and> CanonicalSLS b = Inr b'"
  then have "CHR ''/'' \<notin> set a" "CHR ''/'' \<notin> set b" by (auto simp: CanonicalSLS_iff)
  then show "set (slsCandidates a) \<inter> set (slsCandidates b) \<noteq> {} \<longleftrightarrow> a = b \<or> a = b @ ''.init'' \<or> b = a @ ''.init''"
    by (rule candidates_shared)
next
  fix name assume "suggestSLS name \<noteq> []"
  then have "name_parts name \<noteq> []" by (auto simp: suggestSLS_file)
  with suggestSLS_canonical show "CanonicalSLS (suggestSLS name) = Inr (suggestSLS name)" by blast
qed (use suggestSLS_accepted in blast)+

theorem CanonicalSLS_one_spelling_witness:
  "CanonicalSLS (suggestSLS ''secret/./x'') = Inr ''secret.x'' \<and>
   set (slsCandidates ''web'') \<inter> set (slsCandidates ''web.init'') \<noteq> {}"
proof -
  have s: "suggestSLS ''secret/./x'' = ''secret.x''" by code_simp
  have c: "CanonicalSLS ''web'' = Inr ''web''" "CanonicalSLS ''web.init'' = Inr ''web.init''" by code_simp+
  have "CanonicalSLS (suggestSLS ''secret/./x'') = Inr (suggestSLS ''secret/./x'')"
    using CanonicalSLS_one_spelling [THEN conjunct2, THEN conjunct2, rule_format, of "''secret/./x''"] s by simp
  moreover have "set (slsCandidates ''web'') \<inter> set (slsCandidates ''web.init'') \<noteq> {}"
    using CanonicalSLS_one_spelling [THEN conjunct1, rule_format, of "''web''" "''web''" "''web.init''" "''web.init''"] c
    by simp
  ultimately show ?thesis using s by simp
qed

end
