(* ===== verification/Requisite.thy ===== *)
theory Requisite
  imports Fnmatch Diag
begin

text \<open>
  The low state's data (\<open>Chunk\<close>, \<open>Options\<close> and \<open>Retry\<close> of \<open>internal/state/lowstate.go\<close>) and its
  requisites (\<open>internal/state/requisite.go\<close>): the twelve kinds, the names they are written with,
  reading a requisite list, resolving every reference to chunk indices and copying the arguments
  of a \<open>use\<close> target. Resolution is shown to agree with a direct scan of the low state.
\<close>

subsection \<open>Requisite kinds\<close>

datatype ReqKind =
    Require | RequireAny
  | Watch | WatchAny
  | OnChanges | OnChangesAny
  | OnFail | OnFailAny | OnFailAll
  | Prereq | Use | Listen

definition reqNames :: "(ReqKind \<times> string) list" where
  "reqNames =
     [(Require, ''require''), (RequireAny, ''require_any''),
      (Watch, ''watch''), (WatchAny, ''watch_any''),
      (OnChanges, ''onchanges''), (OnChangesAny, ''onchanges_any''),
      (OnFail, ''onfail''), (OnFailAny, ''onfail_any''), (OnFailAll, ''onfail_all''),
      (Prereq, ''prereq''), (Use, ''use''), (Listen, ''listen'')]"

definition ReqKind_String :: "ReqKind \<Rightarrow> string" where
  "ReqKind_String k = (case map_of reqNames k of Some s \<Rightarrow> s | None \<Rightarrow> [])"

definition forwardReqs :: "(string, ReqKind) gomap" where
  "forwardReqs =
     [(''require'', Require), (''require_any'', RequireAny),
      (''watch'', Watch), (''watch_any'', WatchAny),
      (''onchanges'', OnChanges), (''onchanges_any'', OnChangesAny),
      (''onfail'', OnFail), (''onfail_any'', OnFailAny), (''onfail_all'', OnFailAll),
      (''prereq'', Prereq), (''use'', Use), (''listen'', Listen)]"

definition inverseReqs :: "(string, ReqKind) gomap" where
  "inverseReqs =
     [(''require_in'', Require), (''watch_in'', Watch),
      (''onchanges_in'', OnChanges), (''onfail_in'', OnFail),
      (''prereq_in'', Prereq), (''use_in'', Use), (''listen_in'', Listen)]"

definition notInverseReqs :: "(string, string) gomap" where
  "notInverseReqs =
     [(''require_any_in'', ''require_any''), (''watch_any_in'', ''watch_any''),
      (''onchanges_any_in'', ''onchanges_any''), (''onfail_any_in'', ''onfail_any''),
      (''onfail_all_in'', ''onfail_all'')]"

definition IsRequisiteArg :: "string \<Rightarrow> bool" where
  "IsRequisiteArg name =
     (if gomap_get forwardReqs name \<noteq> None then True
      else if gomap_get inverseReqs name \<noteq> None then True
      else gomap_get notInverseReqs name \<noteq> None)"

subsection \<open>Chunks\<close>

record ReqRef =
  ref_State :: string
  ref_ID :: string
  ref_SLS :: string
  ref_Pos :: pos

definition ReqRef_String :: "ReqRef \<Rightarrow> string" where
  "ReqRef_String r =
     (if ref_SLS r \<noteq> [] then ''sls: '' @ ref_SLS r
      else if ref_State r \<noteq> [] then ref_State r @ '': '' @ ref_ID r
      else ref_ID r)"

record Req =
  req_Kind :: ReqKind
  req_Refs :: "ReqRef list"
  req_Resolved :: "nat list"

definition Req_Describe :: "Req \<Rightarrow> string" where
  "Req_Describe r = str_join '', '' (map ReqRef_String (req_Refs r))"

datatype OrderMode = OrderNone | OrderExplicit | OrderLast

record Retry =
  retry_Attempts :: int
  retry_Interval :: int
  retry_Until :: bool
  retry_Splay :: int

record Options =
  o_Unless :: "val list"
  o_OnlyIf :: "val list"
  o_Creates :: "string list"
  o_CheckCmd :: "string list"
  o_Retry :: "Retry option"
  o_Parallel :: bool
  o_OrderMode :: OrderMode
  o_OrderValue :: int
  o_FailHard :: "bool option"
  o_ReloadModules :: bool
  o_ReloadGrains :: bool
  o_ReloadPillar :: bool
  o_RunAs :: string
  o_RunAsPassword :: string
  o_Umask :: string
  o_Timeout :: int
  o_FireEvent :: val
  o_Aggregate :: bool

definition zero_Options :: Options where
  "zero_Options =
     \<lparr>o_Unless = [], o_OnlyIf = [], o_Creates = [], o_CheckCmd = [], o_Retry = None,
      o_Parallel = False, o_OrderMode = OrderNone, o_OrderValue = 0, o_FailHard = None,
      o_ReloadModules = False, o_ReloadGrains = False, o_ReloadPillar = False,
      o_RunAs = [], o_RunAsPassword = [], o_Umask = [], o_Timeout = 0,
      o_FireEvent = VNull, o_Aggregate = False\<rparr>"

record Chunk =
  ch_ID :: string
  ch_SLS :: string
  ch_Env :: string
  ch_State :: string
  ch_Fun :: string
  ch_Name :: string
  ch_Args :: vmap
  ch_Reqs :: "Req list"
  ch_Opts :: Options
  ch_OptionArgs :: vmap
  ch_DeclOrder :: int
  ch_SeqOrder :: int
  ch_RunNum :: int
  ch_Pos :: pos

definition Chunk_Key :: "Chunk \<Rightarrow> string" where
  "Chunk_Key c = ch_State c @ ''_|-'' @ ch_ID c @ ''_|-'' @ ch_Name c @ ''_|-'' @ ch_Fun c"

definition Chunk_Func :: "Chunk \<Rightarrow> string" where
  "Chunk_Func c = ch_State c @ ''.'' @ ch_Fun c"

definition Chunk_Describe :: "Chunk \<Rightarrow> string" where
  "Chunk_Describe c = Chunk_Func c @ '' ('' @ ch_ID c @ '' in '' @ ch_SLS c @ '')''"

subsection \<open>Reading a requisite list\<close>

fun parseReqItem ::
  "pos \<Rightarrow> string \<Rightarrow> string \<Rightarrow> ReqRef list \<times> Diags \<Rightarrow> val \<Rightarrow> ReqRef list \<times> Diags" where
  "parseReqItem p sls ident (out, diags) (VStr t) =
     (out @ [\<lparr>ref_State = [], ref_ID = t, ref_SLS = [], ref_Pos = p\<rparr>], diags)"
| "parseReqItem p sls ident (out, diags) (VMap t) =
     (if Map_Len t \<noteq> 1 then
        (out, Diags_Add p sls ident ''a requisite entry must name exactly one target, found %d keys''
                [FInt (int (Map_Len t))] diags)
      else
        let e = entries t ! 0; k = KeyString (Key e) in
        case Val e of
          VStr target \<Rightarrow>
            (out @ [if k = ''sls'' then
                      \<lparr>ref_State = [], ref_ID = [], ref_SLS = target, ref_Pos = ValPos e\<rparr>
                    else if k = ''id'' then
                      \<lparr>ref_State = [], ref_ID = target, ref_SLS = [], ref_Pos = ValPos e\<rparr>
                    else
                      \<lparr>ref_State = k, ref_ID = target, ref_SLS = [], ref_Pos = ValPos e\<rparr>], diags)
        | v \<Rightarrow> (out, Diags_Add (ValPos e) sls ident ''a requisite target must be a string, found %s''
                       [FStr (TypeName v)] diags))"
| "parseReqItem p sls ident (out, diags) item =
     (out, Diags_Add p sls ident
             ''a requisite entry must be a state ID or a `module: id` mapping, found %s''
             [FStr (TypeName item)] diags)"

definition parseReqList ::
  "val \<Rightarrow> pos \<Rightarrow> string \<Rightarrow> string \<Rightarrow> string \<Rightarrow> Diags \<Rightarrow> ReqRef list \<times> Diags" where
  "parseReqList v p sls ident argName diags =
     (case v of
        VSeq t \<Rightarrow> foldl (parseReqItem p sls ident) ([], diags) t
      | VStr t \<Rightarrow> foldl (parseReqItem p sls ident) ([], diags) [v]
      | VMap t \<Rightarrow> foldl (parseReqItem p sls ident) ([], diags) [v]
      | VNull \<Rightarrow> ([], diags)
      | _ \<Rightarrow> ([], Diags_Add p sls ident ''%s must hold a list of requisites, found %s''
                    [FStr argName, FStr (TypeName v)] diags))"

subsection \<open>Resolution\<close>

text \<open>The three lookup tables: by ID, by SLS, and by \<open>State|ID\<close> or \<open>State|Name\<close>.\<close>

record req_index =
  byID :: "(string, nat list) gomap"
  bySLS :: "(string, nat list) gomap"
  byStateID :: "(string, nat) gomap"

definition empty_index :: req_index where
  "empty_index = \<lparr>byID = [], bySLS = [], byStateID = []\<rparr>"

fun index_chunk :: "req_index \<Rightarrow> nat \<times> Chunk \<Rightarrow> req_index" where
  "index_chunk ix (i, c) =
     (let m = gomap_put (ch_State c @ ''|'' @ ch_ID c) i (byStateID ix) in
      \<lparr>byID = multi_put (ch_ID c) i (byID ix),
       bySLS = multi_put (ch_SLS c) i (bySLS ix),
       byStateID = (if ch_Name c \<noteq> ch_ID c
                    then gomap_put (ch_State c @ ''|'' @ ch_Name c) i m else m)\<rparr>)"

definition build_index :: "Chunk list \<Rightarrow> req_index" where
  "build_index chunks = foldl index_chunk empty_index (enumerate 0 chunks)"

definition globRef :: "go_runtime \<Rightarrow> Chunk list \<Rightarrow> string \<Rightarrow> (Chunk \<Rightarrow> bool) \<Rightarrow> bool \<Rightarrow> nat list" where
  "globRef rt chunks pattern keep byName =
     positions (\<lambda>c. keep c \<and>
       (Match rt pattern (ch_ID c) \<or> (byName \<and> Match rt pattern (ch_Name c)))) chunks"

definition resolveOneRef ::
  "go_runtime \<Rightarrow> Chunk list \<Rightarrow> req_index \<Rightarrow> Chunk \<Rightarrow> Req \<times> Diags \<Rightarrow> ReqRef \<Rightarrow> Req \<times> Diags" where
  "resolveOneRef rt chunks ix c = (\<lambda>(req, diags) ref.
     let kind = FStr (ReqKind_String (req_Kind req));
         found = (\<lambda>idx. (req\<lparr>req_Resolved := req_Resolved req @ idx\<rparr>, diags));
         refuse = (\<lambda>fmt args. (req, Diags_Add (ref_Pos ref) (ch_SLS c) (ch_ID c) fmt args diags))
     in
     if ref_SLS ref \<noteq> [] then
       (case gomap_get (bySLS ix) (ref_SLS ref) of
          Some idx \<Rightarrow> found idx
        | None \<Rightarrow>
            if HasMeta (ref_SLS ref) then
              let idx = positions (\<lambda>c'. Match rt (ref_SLS ref) (ch_SLS c')) chunks in
              if length idx = 0 then
                refuse ''%s names sls %q, a glob that matches no sls in this run''
                  [kind, FStr (ref_SLS ref)]
              else found idx
            else refuse ''%s names sls %q, which is not part of this run''
                   [kind, FStr (ref_SLS ref)])
     else if ref_State ref \<noteq> [] then
       (case gomap_get (byStateID ix) (ref_State ref @ ''|'' @ ref_ID ref) of
          Some i \<Rightarrow> found [i]
        | None \<Rightarrow>
            if HasMeta (ref_ID ref) then
              let matches = globRef rt chunks (ref_ID ref) (\<lambda>c'. ch_State c' = ref_State ref) True in
              if length matches = 0 then
                refuse ''%s names `%s: %s`, a glob that matches no %s state in this run''
                  [kind, FStr (ref_State ref), FStr (ref_ID ref), FStr (ref_State ref)]
              else found matches
            else
              (case gomap_get (byID ix) (ref_ID ref) of
                 Some [k] \<Rightarrow>
                   (req\<lparr>req_Resolved := req_Resolved req @ [k]\<rparr>,
                    Diags_Warn (ref_Pos ref) (ch_SLS c) (ch_ID c)
                      ''%s names `%s: %s`, but %q is declared by %s; matching by ID''
                      [kind, FStr (ref_State ref), FStr (ref_ID ref), FStr (ref_ID ref),
                       FStr (ch_State (chunks ! k))] diags)
               | _ \<Rightarrow> refuse ''%s names `%s: %s`, which is not declared in this run''
                       [kind, FStr (ref_State ref), FStr (ref_ID ref)]))
     else
       let exact = multi_get (byID ix) (ref_ID ref);
           matches = (if length exact = 0 \<and> HasMeta (ref_ID ref)
                      then globRef rt chunks (ref_ID ref) (\<lambda>_. True) False else exact)
       in if length matches = 0 then
            refuse ''%s names %q, which is not declared in this run'' [kind, FStr (ref_ID ref)]
          else found matches)"

definition resolveReq ::
  "go_runtime \<Rightarrow> Chunk list \<Rightarrow> req_index \<Rightarrow> Chunk \<Rightarrow> Diags \<Rightarrow> Req \<Rightarrow> Req \<times> Diags" where
  "resolveReq rt chunks ix c diags req =
     foldl (resolveOneRef rt chunks ix c) (req, diags) (req_Refs req)"

definition resolveChunk ::
  "go_runtime \<Rightarrow> Chunk list \<Rightarrow> req_index \<Rightarrow> Diags \<Rightarrow> Chunk \<Rightarrow> Chunk \<times> Diags" where
  "resolveChunk rt chunks ix diags c =
     (let (reqs, diags1) = map_accum (resolveReq rt chunks ix c) diags (ch_Reqs c)
      in (c\<lparr>ch_Reqs := reqs\<rparr>, diags1))"

definition resolveRequisites :: "go_runtime \<Rightarrow> Chunk list \<Rightarrow> Diags \<Rightarrow> Chunk list \<times> Diags" where
  "resolveRequisites rt chunks diags =
     map_accum (resolveChunk rt chunks (build_index chunks)) diags chunks"

subsection \<open>Inheriting arguments\<close>

definition use_entry :: "vmap \<Rightarrow> entry \<Rightarrow> vmap" where
  "use_entry args e =
     (let name = KeyString (Key e) in
      if name = ''name'' \<or> name = ''names'' \<or> IsRequisiteArg name then args
      else if Map_Has args (KStr name) then args
      else Map_SetAt args (Key e) (Deep (Val e)) (KeyPos e) (ValPos e))"

definition use_from :: "nat \<Rightarrow> Chunk list \<Rightarrow> nat \<Rightarrow> Chunk list" where
  "use_from i chunks idx =
     chunks[i := (chunks ! i)\<lparr>ch_Args :=
       foldl use_entry (ch_Args (chunks ! i)) (entries (ch_Args (chunks ! idx)))\<rparr>]"

definition use_targets :: "Chunk \<Rightarrow> nat list" where
  "use_targets c = concat (map req_Resolved (filter (\<lambda>r. req_Kind r = Use) (ch_Reqs c)))"

definition applyUse :: "Chunk list \<Rightarrow> Chunk list" where
  "applyUse chunks =
     foldl (\<lambda>cs i. foldl (use_from i) cs (use_targets (cs ! i))) chunks [0..<length chunks]"

definition listenSLSRefusal :: string where
  "listenSLSRefusal =
     ''%s names sls %q; Salt's listen takes no sls and fails the run with \"Referenced state sls: %[2]s does not exist\"''"

subsection \<open>What a reference denotes\<close>

text \<open>The specification of resolution, by scanning the low state: an exact name wins over a glob;
  an SLS or a bare ID denotes every chunk that carries it; \<open>module: id\<close> denotes the last chunk of
  that module with this ID or name, and failing that the only chunk with that ID.\<close>

definition ref_targets :: "go_runtime \<Rightarrow> Chunk list \<Rightarrow> ReqRef \<Rightarrow> nat list" where
  "ref_targets rt chunks ref =
     (if ref_SLS ref \<noteq> [] then
        let exact = positions (\<lambda>c. ch_SLS c = ref_SLS ref) chunks in
        if exact \<noteq> [] then exact
        else if HasMeta (ref_SLS ref) then positions (\<lambda>c. Match rt (ref_SLS ref) (ch_SLS c)) chunks
        else []
      else if ref_State ref \<noteq> [] then
        let exact = positions (\<lambda>c. ch_State c @ ''|'' @ ch_ID c = ref_State ref @ ''|'' @ ref_ID ref
                              \<or> ch_State c @ ''|'' @ ch_Name c = ref_State ref @ ''|'' @ ref_ID ref) chunks;
            ids = positions (\<lambda>c. ch_ID c = ref_ID ref) chunks in
        if exact \<noteq> [] then [last exact]
        else if HasMeta (ref_ID ref) then
          positions (\<lambda>c. ch_State c = ref_State ref
            \<and> (Match rt (ref_ID ref) (ch_ID c) \<or> Match rt (ref_ID ref) (ch_Name c))) chunks
        else if length ids = 1 then ids else []
      else
        let exact = positions (\<lambda>c. ch_ID c = ref_ID ref) chunks in
        if exact \<noteq> [] then exact
        else if HasMeta (ref_ID ref) then positions (\<lambda>c. Match rt (ref_ID ref) (ch_ID c)) chunks
        else [])"

definition opt_list :: "'a list \<Rightarrow> 'a list option" where
  "opt_list xs = (if xs = [] then None else Some xs)"

lemma build_index_snoc:
  "build_index (chunks @ [c]) = index_chunk (build_index chunks) (length chunks, c)"
  by (simp add: build_index_def enumerate_append_eq)

lemma byID_positions:
  "gomap_get (byID (build_index chunks)) k = opt_list (positions (\<lambda>c. ch_ID c = k) chunks)"
proof (induction chunks rule: rev_induct)
  case Nil
  then show ?case by (simp add: build_index_def empty_index_def opt_list_def)
next
  case (snoc c chunks)
  then show ?case
    by (auto simp: build_index_snoc gomap_get_multi_put multi_get_def opt_list_def Let_def)
qed

lemma bySLS_positions:
  "gomap_get (bySLS (build_index chunks)) k = opt_list (positions (\<lambda>c. ch_SLS c = k) chunks)"
proof (induction chunks rule: rev_induct)
  case Nil
  then show ?case by (simp add: build_index_def empty_index_def opt_list_def)
next
  case (snoc c chunks)
  then show ?case
    by (auto simp: build_index_snoc gomap_get_multi_put multi_get_def opt_list_def Let_def)
qed

lemma byStateID_positions:
  "gomap_get (byStateID (build_index chunks)) k =
     map_option last (opt_list (positions (\<lambda>c. ch_State c @ ''|'' @ ch_ID c = k
                                            \<or> ch_State c @ ''|'' @ ch_Name c = k) chunks))"
proof (induction chunks rule: rev_induct)
  case Nil
  then show ?case by (simp add: build_index_def empty_index_def opt_list_def)
next
  case (snoc c chunks)
  then show ?case
    by (auto simp: build_index_snoc opt_list_def Let_def)
qed

lemma last_position: "positions P xs \<noteq> [] \<Longrightarrow> last (positions P xs) < length xs"
  using set_positions [of "last (positions P xs)" P xs] by simp

lemma ref_targets_in_range: "set (ref_targets rt chunks ref) \<subseteq> {..<length chunks}"
  by (auto simp: ref_targets_def Let_def set_positions last_position split: if_splits)

lemma resolveOneRef_targets:
  "\<exists>ds. resolveOneRef rt chunks (build_index chunks) c (req, diags) ref =
      (req\<lparr>req_Resolved := req_Resolved req @ ref_targets rt chunks ref\<rparr>, diags @ ds)
    \<and> (HasErrors ds \<longleftrightarrow> ref_targets rt chunks ref = [])"
proof -
  consider (sls) "ref_SLS ref \<noteq> []" | (state) "ref_SLS ref = []" "ref_State ref \<noteq> []"
    | (bare) "ref_SLS ref = []" "ref_State ref = []" by blast
  then show ?thesis
  proof cases
    case sls
    then show ?thesis
      by (auto simp: resolveOneRef_def ref_targets_def bySLS_positions opt_list_def Let_def
          Diags_Add_def mk_diag_def)
  next
    case state
    then show ?thesis
      by (auto simp: resolveOneRef_def ref_targets_def byStateID_positions byID_positions
          opt_list_def Let_def Diags_Add_def Diags_Warn_def mk_diag_def globRef_def
          split: list.splits)
  next
    case bare
    then show ?thesis
      by (auto simp: resolveOneRef_def ref_targets_def byID_positions multi_get_def opt_list_def
          Let_def Diags_Add_def mk_diag_def globRef_def)
  qed
qed

lemma resolve_refs_targets:
  "\<exists>ds. foldl (resolveOneRef rt chunks (build_index chunks) c) (req, diags) refs =
      (req\<lparr>req_Resolved := req_Resolved req @ concat (map (ref_targets rt chunks) refs)\<rparr>, diags @ ds)
    \<and> (HasErrors ds \<longleftrightarrow> (\<exists>ref \<in> set refs. ref_targets rt chunks ref = []))"
proof (induction refs arbitrary: req diags)
  case Nil
  then show ?case by simp
next
  case (Cons ref refs)
  obtain ds where ds: "resolveOneRef rt chunks (build_index chunks) c (req, diags) ref =
      (req\<lparr>req_Resolved := req_Resolved req @ ref_targets rt chunks ref\<rparr>, diags @ ds)"
    "HasErrors ds \<longleftrightarrow> ref_targets rt chunks ref = []"
    using resolveOneRef_targets by blast
  obtain es where es: "foldl (resolveOneRef rt chunks (build_index chunks) c)
        (req\<lparr>req_Resolved := req_Resolved req @ ref_targets rt chunks ref\<rparr>, diags @ ds) refs =
      (req\<lparr>req_Resolved := req_Resolved req @ ref_targets rt chunks ref
             @ concat (map (ref_targets rt chunks) refs)\<rparr>, diags @ ds @ es)"
    "HasErrors es \<longleftrightarrow> (\<exists>ref \<in> set refs. ref_targets rt chunks ref = [])"
    using Cons.IH [of "req\<lparr>req_Resolved := req_Resolved req @ ref_targets rt chunks ref\<rparr>" "diags @ ds"]
    by auto
  show ?case by (rule exI [of _ "ds @ es"]) (use ds es in auto)
qed

definition resolved_req :: "go_runtime \<Rightarrow> Chunk list \<Rightarrow> Req \<Rightarrow> Req" where
  "resolved_req rt chunks r =
     r\<lparr>req_Resolved := req_Resolved r @ concat (map (ref_targets rt chunks) (req_Refs r))\<rparr>"

definition resolved_chunk :: "go_runtime \<Rightarrow> Chunk list \<Rightarrow> Chunk \<Rightarrow> Chunk" where
  "resolved_chunk rt chunks c = c\<lparr>ch_Reqs := map (resolved_req rt chunks) (ch_Reqs c)\<rparr>"

definition dangling_req :: "go_runtime \<Rightarrow> Chunk list \<Rightarrow> Req \<Rightarrow> bool" where
  "dangling_req rt chunks r = list_ex (\<lambda>ref. ref_targets rt chunks ref = []) (req_Refs r)"

lemma map_accum_errors:
  assumes "\<And>s x. fst (f s x) = g x"
    and "\<And>s x. HasErrors (snd (f s x)) \<longleftrightarrow> HasErrors s \<or> bad x"
  shows "fst (map_accum f s xs) = map g xs \<and>
     (HasErrors (snd (map_accum f s xs)) \<longleftrightarrow> HasErrors s \<or> list_ex bad xs)"
  using assms by (induction xs arbitrary: s) (auto simp: split_beta Let_def)

lemma resolveReq_spec:
  "fst (resolveReq rt chunks (build_index chunks) c diags r) = resolved_req rt chunks r \<and>
   (HasErrors (snd (resolveReq rt chunks (build_index chunks) c diags r))
      \<longleftrightarrow> HasErrors diags \<or> dangling_req rt chunks r)"
proof -
  obtain ds where "resolveReq rt chunks (build_index chunks) c diags r =
      (resolved_req rt chunks r, diags @ ds)" "HasErrors ds \<longleftrightarrow> dangling_req rt chunks r"
    using resolve_refs_targets [of rt chunks c r diags "req_Refs r"]
    by (auto simp: resolveReq_def resolved_req_def dangling_req_def list_ex_iff)
  then show ?thesis by simp
qed

lemma resolveChunk_spec:
  "fst (resolveChunk rt chunks (build_index chunks) diags c) = resolved_chunk rt chunks c \<and>
   (HasErrors (snd (resolveChunk rt chunks (build_index chunks) diags c))
      \<longleftrightarrow> HasErrors diags \<or> list_ex (dangling_req rt chunks) (ch_Reqs c))"
proof -
  have "fst (map_accum (resolveReq rt chunks (build_index chunks) c) diags (ch_Reqs c)) =
      map (resolved_req rt chunks) (ch_Reqs c) \<and>
    (HasErrors (snd (map_accum (resolveReq rt chunks (build_index chunks) c) diags (ch_Reqs c)))
      \<longleftrightarrow> HasErrors diags \<or> list_ex (dangling_req rt chunks) (ch_Reqs c))"
    by (rule map_accum_errors) (simp_all add: resolveReq_spec)
  then show ?thesis
    by (simp add: resolveChunk_def resolved_chunk_def split_beta Let_def)
qed

lemma resolveRequisites_spec:
  "fst (resolveRequisites rt chunks diags) = map (resolved_chunk rt chunks) chunks \<and>
   (HasErrors (snd (resolveRequisites rt chunks diags)) \<longleftrightarrow>
      HasErrors diags \<or> list_ex (\<lambda>c. list_ex (dangling_req rt chunks) (ch_Reqs c)) chunks)"
  unfolding resolveRequisites_def by (rule map_accum_errors) (simp_all add: resolveChunk_spec)

text \<open>C10: resolving through the three lookup tables is scanning the low state. Every requisite
  gets, in the order of its references, exactly the chunks each reference denotes; the pass reports
  an error exactly when some reference denotes no chunk (a dangling reference is never dropped in
  silence, and a good one never refused); and every index it produces is an index of the low state,
  so no later pass can read out of range.\<close>

theorem resolveRequisites_is_scan:
  "fst (resolveRequisites rt chunks diags) = map (resolved_chunk rt chunks) chunks \<and>
   (HasErrors (snd (resolveRequisites rt chunks diags)) \<longleftrightarrow>
      HasErrors diags \<or> list_ex (\<lambda>c. list_ex (dangling_req rt chunks) (ch_Reqs c)) chunks) \<and>
   set (ref_targets rt chunks ref) \<subseteq> {..<length chunks}"
  using resolveRequisites_spec ref_targets_in_range by blast

subsection \<open>Inherited arguments\<close>

definition reserved_arg :: "string \<Rightarrow> bool" where
  "reserved_arg name \<longleftrightarrow> name = ''name'' \<or> name = ''names'' \<or> IsRequisiteArg name"

fun first_value :: "'a option list \<Rightarrow> 'a option" where
  "first_value [] = None"
| "first_value (x # xs) = (case x of Some v \<Rightarrow> Some v | None \<Rightarrow> first_value xs)"

definition arg_of :: "Chunk \<Rightarrow> string \<Rightarrow> val option" where
  "arg_of c k = Map_Get (ch_Args c) (KStr k)"

text \<open>What a chunk inherits under a name: its own value, or else the first one among the \<open>use\<close> targets in
  the order of its requisites. A target that comes earlier in the low state has inherited before.\<close>

definition inherited :: "Chunk list \<Rightarrow> Chunk list \<Rightarrow> nat \<Rightarrow> string \<Rightarrow> val option" where
  "inherited cs cs' i k =
     (case arg_of (cs ! i) k of
        Some v \<Rightarrow> Some v
      | None \<Rightarrow> if reserved_arg k then None
                else first_value (map (\<lambda>t. arg_of (if t < i then cs' ! t else cs ! t) k) (use_targets (cs ! i))))"

lemma map_ok_use_entry: "map_ok args \<Longrightarrow> map_ok (use_entry args e)"
  by (simp add: use_entry_def Let_def map_inv)

lemma map_ok_use_entries: "map_ok args \<Longrightarrow> map_ok (foldl use_entry args es)"
  by (rule foldl_invariant) (auto intro: map_ok_use_entry)

lemma Get_use_entry:
  assumes "map_ok args"
  shows "Map_Get (use_entry args e) (KStr k) =
     (case Map_Get args (KStr k) of
        Some v \<Rightarrow> Some v
      | None \<Rightarrow> if \<not> reserved_arg k \<and> Key e = KStr k then Some (Val e) else None)"
  using assms
  by (cases "Key e")
    (auto simp: use_entry_def Let_def Map_Has_def om.get_put reserved_arg_def map_simps split: option.splits)

lemma Get_use_entries:
  assumes "map_ok args"
  shows "Map_Get (foldl use_entry args es) (KStr k) =
     (case Map_Get args (KStr k) of
        Some v \<Rightarrow> Some v
      | None \<Rightarrow> if reserved_arg k then None else map_option Val (find (\<lambda>e. Key e = KStr k) es))"
  using assms
proof (induction es arbitrary: args)
  case (Cons e es)
  from Cons.IH [OF map_ok_use_entry [OF Cons.prems], of e] Get_use_entry [OF Cons.prems, of e k]
  show ?case by (auto split: option.splits if_splits)
qed (simp split: option.splits)

lemma use_from_nth:
  assumes "i < length cs" and "\<forall>c \<in> set cs. map_ok (ch_Args c)" and "idx < length cs"
  shows "arg_of (use_from i cs idx ! i) k =
     (case arg_of (cs ! i) k of
        Some v \<Rightarrow> Some v
      | None \<Rightarrow> if reserved_arg k then None else arg_of (cs ! idx) k)"
  using assms Get_use_entries [of "ch_Args (cs ! i)" "entries (ch_Args (cs ! idx))" k]
    Get_find [of "ch_Args (cs ! idx)" "KStr k"]
  by (simp add: use_from_def arg_of_def split: option.split)

text \<open>What an intermediate low state keeps of the one \<open>applyUse\<close> started from.\<close>

definition use_extends :: "Chunk list \<Rightarrow> Chunk list \<Rightarrow> bool" where
  "use_extends cs cs' \<longleftrightarrow> length cs' = length cs \<and>
     (\<forall>j < length cs. map_ok (ch_Args (cs' ! j)) \<and> (cs' ! j)\<lparr>ch_Args := ch_Args (cs ! j)\<rparr> = cs ! j)"

lemma use_extends_from: "use_extends cs cs' \<Longrightarrow> use_extends cs (use_from i cs' idx)"
  by (cases "i < length cs")
    (auto simp: use_extends_def use_from_def nth_list_update map_ok_use_entries list_update_beyond)

lemma use_extends_targets: "use_extends cs cs' \<Longrightarrow> use_extends cs (foldl (use_from i) cs' idxs)"
  by (rule foldl_invariant) (auto intro: use_extends_from)

lemma use_extends_loop:
  "use_extends cs cs' \<Longrightarrow>
     use_extends cs (foldl (\<lambda>cs i. foldl (use_from i) cs (use_targets (cs ! i))) cs' js)"
  by (rule foldl_invariant) (auto intro: use_extends_targets)

lemma use_extends_refl: "(\<forall>c \<in> set cs. map_ok (ch_Args c)) \<Longrightarrow> use_extends cs cs"
  by (simp add: use_extends_def)

lemma use_extends_map_ok: "use_extends cs cs' \<Longrightarrow> \<forall>c \<in> set cs'. map_ok (ch_Args c)"
  by (auto simp: use_extends_def in_set_conv_nth)

lemma use_extends_use_targets:
  assumes "use_extends cs cs'" and "j < length cs"
  shows "use_targets (cs' ! j) = use_targets (cs ! j)"
proof -
  from assms have "ch_Reqs ((cs' ! j)\<lparr>ch_Args := ch_Args (cs ! j)\<rparr>) = ch_Reqs (cs ! j)"
    by (simp add: use_extends_def)
  then show ?thesis by (simp add: use_targets_def)
qed

lemma use_targets_other: "j \<noteq> i \<Longrightarrow> foldl (use_from i) cs idxs ! j = cs ! j"
  by (induction idxs arbitrary: cs) (simp_all add: use_from_def)

lemma use_targets_nth:
  assumes "i < length cs" and "\<forall>c \<in> set cs. map_ok (ch_Args c)" and "\<forall>t \<in> set idxs. t < length cs"
  shows "arg_of (foldl (use_from i) cs idxs ! i) k =
     (case arg_of (cs ! i) k of
        Some v \<Rightarrow> Some v
      | None \<Rightarrow> if reserved_arg k then None else first_value (map (\<lambda>t. arg_of (cs ! t) k) idxs))"
  using assms
proof (induction idxs arbitrary: cs)
  case (Cons t idxs)
  let ?c = "use_from i cs t"
  have len: "length ?c = length cs" by (simp add: use_from_def)
  have "\<forall>c \<in> set ?c. map_ok (ch_Args c)"
    using use_extends_map_ok [OF use_extends_from [OF use_extends_refl [OF Cons.prems(2)]]] .
  note IH = Cons.IH [of ?c, unfolded len, OF Cons.prems(1) this]
  note one = use_from_nth [OF Cons.prems(1,2), of t k]
  show ?case
  proof (cases "arg_of (?c ! i) k")
    case None
    have "arg_of (?c ! u) k = arg_of (cs ! u) k" for u
      using None one Cons.prems(3) by (cases "u = i") (auto simp: use_from_def split: option.splits)
    with None IH one Cons.prems(3) show ?thesis by (auto split: option.splits)
  next
    case (Some v)
    with IH one Cons.prems(3) show ?thesis by (auto split: option.splits if_splits)
  qed
qed (simp split: option.splits)

text \<open>The loop over the low state: a round touches its own chunk only.\<close>

definition use_rounds :: "Chunk list \<Rightarrow> nat \<Rightarrow> Chunk list" where
  "use_rounds cs n = foldl (\<lambda>cs i. foldl (use_from i) cs (use_targets (cs ! i))) cs [0..<n]"

lemma use_rounds_Suc: "use_rounds cs (Suc n) = foldl (use_from n) (use_rounds cs n) (use_targets (use_rounds cs n ! n))"
  by (simp add: use_rounds_def)

lemma use_rounds_later: "n \<le> j \<Longrightarrow> use_rounds cs n ! j = cs ! j"
  by (induction n) (simp_all add: use_rounds_Suc use_targets_other, simp add: use_rounds_def)

lemma use_rounds_done: "j < n \<Longrightarrow> n \<le> m \<Longrightarrow> use_rounds cs m ! j = use_rounds cs n ! j"
  by (induction m) (auto simp: use_rounds_Suc use_targets_other le_Suc_eq)

lemma applyUse_rounds: "applyUse cs = use_rounds cs (length cs)"
  by (simp add: applyUse_def use_rounds_def)

lemma applyUse_extends: "(\<forall>c \<in> set cs. map_ok (ch_Args c)) \<Longrightarrow> use_extends cs (applyUse cs)"
  unfolding applyUse_def by (intro use_extends_loop use_extends_refl)

lemma applyUse_nth:
  assumes ok: "\<forall>c \<in> set cs. map_ok (ch_Args c)" and i: "i < length cs"
    and ts: "\<forall>t \<in> set (use_targets (cs ! i)). t < length cs"
  shows "arg_of (applyUse cs ! i) k = inherited cs (applyUse cs) i k"
proof -
  let ?c = "use_rounds cs i"
  have ext: "use_extends cs ?c" unfolding use_rounds_def by (intro use_extends_loop use_extends_refl ok)
  have len: "length ?c = length cs" using ext by (simp add: use_extends_def)
  have here: "?c ! i = cs ! i" by (simp add: use_rounds_later)
  have "?c ! t = (if t < i then applyUse cs ! t else cs ! t)" for t
    using i by (simp add: use_rounds_later applyUse_rounds use_rounds_done [of t i "length cs"])
  moreover have "applyUse cs ! i = foldl (use_from i) ?c (use_targets (cs ! i)) ! i"
    using i by (simp add: applyUse_rounds use_rounds_done [of i "Suc i"] use_rounds_Suc here)
  ultimately show ?thesis
    using use_targets_nth [of i ?c "use_targets (cs ! i)" k] i ts use_extends_map_ok [OF ext]
    by (simp add: len here inherited_def split: option.split)
qed

text \<open>C11: \<open>use\<close> inherits without overwriting, and inherits nothing else. Copying arguments changes nothing
  of a chunk but its arguments. Under each string name the chunk ends with its own value if it has one; a
  name it does not have stays absent if it is \<open>name\<close>, \<open>names\<close> or a requisite; any other name gets the value
  of the first \<open>use\<close> target, in the order of its requisites, that has one, where a target earlier in the low
  state counts with what it has itself inherited, and stays absent when no target has one.\<close>

theorem applyUse_inherits:
  assumes "\<forall>c \<in> set cs. map_ok (ch_Args c)" and "i < length cs"
    and "\<forall>t \<in> set (use_targets (cs ! i)). t < length cs"
  shows "(applyUse cs ! i)\<lparr>ch_Args := ch_Args (cs ! i)\<rparr> = cs ! i \<and>
     arg_of (applyUse cs ! i) k = inherited cs (applyUse cs) i k"
  using applyUse_extends [OF assms(1)] assms(2) applyUse_nth [OF assms] by (simp add: use_extends_def)

definition sample_chunk :: "string \<Rightarrow> (key \<times> val) list \<Rightarrow> Req list \<Rightarrow> Chunk" where
  "sample_chunk ident args reqs =
     \<lparr>ch_ID = ident, ch_SLS = ''web'', ch_Env = ''base'', ch_State = ''file'', ch_Fun = ''managed'',
      ch_Name = ident, ch_Args = MapOf args, ch_Reqs = reqs, ch_Opts = zero_Options,
      ch_OptionArgs = NewMap, ch_DeclOrder = 0, ch_SeqOrder = 0, ch_RunNum = 0, ch_Pos = zero_pos\<rparr>"

theorem applyUse_inherits_witness:
  "map (arg_of (applyUse
      [sample_chunk ''a'' [(KStr ''name'', VStr ''a''), (KStr ''mode'', VInt 644)]
         [\<lparr>req_Kind = Use, req_Refs = [], req_Resolved = [1]\<rparr>],
       sample_chunk ''b'' [(KStr ''name'', VStr ''b''), (KStr ''mode'', VInt 600), (KStr ''user'', VStr ''root'')] []]
      ! 0)) [''name'', ''mode'', ''user'', ''group''] = [Some (VStr ''a''), Some (VInt 644), Some (VStr ''root''), None]"
proof -
  let ?cs = "[sample_chunk ''a'' [(KStr ''name'', VStr ''a''), (KStr ''mode'', VInt 644)]
         [\<lparr>req_Kind = Use, req_Refs = [], req_Resolved = [1]\<rparr>],
       sample_chunk ''b'' [(KStr ''name'', VStr ''b''), (KStr ''mode'', VInt 600), (KStr ''user'', VStr ''root'')] []]"
  have ok: "\<forall>c \<in> set ?cs. map_ok (ch_Args c)" by (simp add: sample_chunk_def MapOf_def om.invar_put map_inv)
  have t: "use_targets (?cs ! 0) = [1]" by (simp add: use_targets_def sample_chunk_def)
  have "map (inherited ?cs (applyUse ?cs) 0) [''name'', ''mode'', ''user'', ''group''] =
      [Some (VStr ''a''), Some (VInt 644), Some (VStr ''root''), None]" by code_simp
  moreover have "arg_of (applyUse ?cs ! 0) k = inherited ?cs (applyUse ?cs) 0 k" for k
    using applyUse_inherits [OF ok, of 0 k] t by simp
  ultimately show ?thesis by (simp only: list.map)
qed

end
