(* ===== verification/Ready_Heap.thy ===== *)
theory Ready_Heap
  imports Prelude
begin

text \<open>
  The ready set of the run order (\<open>order\<close> in \<open>internal/state/order.go\<close>): a binary heap kept in
  a slice, with its \<open>push\<close> and \<open>pop\<close> closures. The locale \<open>ready_queue\<close> is what the ordering
  loop relies on; it is interpreted here on the heap and on the linear scan the heap replaced.
\<close>

subsection \<open>The heap operations\<close>

definition swap :: "'a list \<Rightarrow> nat \<Rightarrow> nat \<Rightarrow> 'a list" where
  "swap xs i j = xs[i := xs ! j, j := xs ! i]"

function sift_up :: "('a \<Rightarrow> 'a \<Rightarrow> bool) \<Rightarrow> 'a list \<Rightarrow> nat \<Rightarrow> 'a list" where
  "sift_up before ready i =
     (if 0 < i then
        let parent = (i - 1) div 2 in
        if \<not> before (ready ! i) (ready ! parent) then ready
        else sift_up before (swap ready i parent) parent
      else ready)"
  by pat_completeness auto
termination
  by (relation "measure (\<lambda>(before, ready, i). i)") auto

declare sift_up.simps [simp del]

definition heap_push :: "('a \<Rightarrow> 'a \<Rightarrow> bool) \<Rightarrow> 'a \<Rightarrow> 'a list \<Rightarrow> 'a list" where
  "heap_push before e ready = sift_up before (ready @ [e]) (length ready)"

definition smallest_child :: "('a \<Rightarrow> 'a \<Rightarrow> bool) \<Rightarrow> 'a list \<Rightarrow> nat \<Rightarrow> nat" where
  "smallest_child before ready i =
     (let l = 2 * i + 1; r = 2 * i + 2;
          s1 = (if l < length ready \<and> before (ready ! l) (ready ! i) then l else i)
      in if r < length ready \<and> before (ready ! r) (ready ! s1) then r else s1)"

lemma length_swap [simp]: "length (swap xs i j) = length xs"
  by (simp add: swap_def)

lemma smallest_child_cases:
  "smallest_child before ready i = i \<or>
   (smallest_child before ready i = 2 * i + 1 \<and> 2 * i + 1 < length ready) \<or>
   (smallest_child before ready i = 2 * i + 2 \<and> 2 * i + 2 < length ready)"
  by (auto simp: smallest_child_def Let_def)

function sift_down :: "('a \<Rightarrow> 'a \<Rightarrow> bool) \<Rightarrow> 'a list \<Rightarrow> nat \<Rightarrow> 'a list" where
  "sift_down before ready i =
     (let smallest = smallest_child before ready i in
      if smallest = i then ready
      else sift_down before (swap ready i smallest) smallest)"
  by pat_completeness auto
termination
proof (relation "measure (\<lambda>(before, ready, i). length ready - i)", goal_cases)
  case 1
  then show ?case by simp
next
  case (2 before ready i x)
  then show ?case using smallest_child_cases [of before ready i] by auto
qed

declare sift_down.simps [simp del]

definition heap_pop :: "('a \<Rightarrow> 'a \<Rightarrow> bool) \<Rightarrow> 'a list \<Rightarrow> 'a \<times> 'a list" where
  "heap_pop before ready =
     (let top = ready ! 0; last = length ready - 1;
          ready1 = take last (ready[0 := ready ! last])
      in (top, sift_down before ready1 0))"

subsection \<open>The linear scan the heap replaced\<close>

text \<open>\<open>ready\<close> in order of arrival; the first chunk no other is better than is taken out.\<close>

fun scan_best :: "('a \<Rightarrow> 'a \<Rightarrow> bool) \<Rightarrow> 'a \<Rightarrow> 'a list \<Rightarrow> 'a" where
  "scan_best better b [] = b"
| "scan_best better b (x # xs) = scan_best better (if better x b then x else b) xs"

definition scan_push :: "'a \<Rightarrow> 'a list \<Rightarrow> 'a list" where
  "scan_push e ready = ready @ [e]"

definition scan_pop :: "('a \<Rightarrow> 'a \<Rightarrow> bool) \<Rightarrow> 'a list \<Rightarrow> 'a \<times> 'a list" where
  "scan_pop better ready = (let b = scan_best better (hd ready) (tl ready) in (b, remove1 b ready))"

subsection \<open>The interface\<close>

text \<open>\<open>before\<close> is the negation of a total preorder.\<close>

locale preference =
  fixes before :: "'a \<Rightarrow> 'a \<Rightarrow> bool"
  assumes before_trans: "\<not> before y x \<Longrightarrow> \<not> before z y \<Longrightarrow> \<not> before z x"
    and before_asym: "before x y \<Longrightarrow> \<not> before y x"
begin

definition le :: "'a \<Rightarrow> 'a \<Rightarrow> bool" where
  "le x y \<longleftrightarrow> \<not> before y x"

lemma le_refl [simp]: "le x x"
  using before_asym by (auto simp: le_def)

lemma le_trans: "le x y \<Longrightarrow> le y z \<Longrightarrow> le x z"
  unfolding le_def by (rule before_trans)

lemma before_le: "before x y \<Longrightarrow> le x y"
  using before_asym by (auto simp: le_def)

lemma not_before_le: "\<not> before x y \<longleftrightarrow> le y x"
  by (simp add: le_def)

end

locale ready_queue = preference before for before :: "'a \<Rightarrow> 'a \<Rightarrow> bool" +
  fixes push :: "'a \<Rightarrow> 'a list \<Rightarrow> 'a list"
    and pop :: "'a list \<Rightarrow> 'a \<times> 'a list"
    and invar :: "'a list \<Rightarrow> bool"
  assumes invar_Nil: "invar []"
    and mset_push: "mset (push e q) = add_mset e (mset q)"
    and mset_pop: "invar q \<Longrightarrow> q \<noteq> [] \<Longrightarrow> mset q = add_mset (fst (pop q)) (mset (snd (pop q)))"
    and pop_min: "invar q \<Longrightarrow> q \<noteq> [] \<Longrightarrow> x \<in> set q \<Longrightarrow> \<not> before x (fst (pop q))"
    and invar_push: "invar q \<Longrightarrow> invar (push e q)"
    and invar_pop: "invar q \<Longrightarrow> q \<noteq> [] \<Longrightarrow> invar (snd (pop q))"
begin

lemma set_push: "set (push e q) = insert e (set q)"
  using mset_push [of e q] by (metis set_mset_add_mset_insert set_mset_mset)

lemma length_push: "length (push e q) = Suc (length q)"
  using mset_push [of e q] by (metis size_add_mset size_mset)

lemma pop_in: "invar q \<Longrightarrow> q \<noteq> [] \<Longrightarrow> fst (pop q) \<in> set q"
  using mset_pop [of q] by (metis set_mset_add_mset_insert set_mset_mset insertI1)

lemma set_pop: "invar q \<Longrightarrow> q \<noteq> [] \<Longrightarrow> set q = insert (fst (pop q)) (set (snd (pop q)))"
  using mset_pop [of q] by (metis set_mset_add_mset_insert set_mset_mset)

lemma length_pop: "invar q \<Longrightarrow> q \<noteq> [] \<Longrightarrow> length q = Suc (length (snd (pop q)))"
  using mset_pop [of q] by (metis size_add_mset size_mset)

end

subsection \<open>The heap implements it\<close>

lemma mset_swap_list [simp]: "i < length xs \<Longrightarrow> j < length xs \<Longrightarrow> mset (swap xs i j) = mset xs"
  by (simp add: swap_def mset_list_update_swap)

lemma swap_nth:
  "i < length xs \<Longrightarrow> j < length xs \<Longrightarrow> k < length xs \<Longrightarrow>
     swap xs i j ! k = (if k = j then xs ! i else if k = i then xs ! j else xs ! k)"
  by (auto simp: swap_def nth_list_update)

lemma mset_sift_up: "i < length ready \<Longrightarrow> mset (sift_up before ready i) = mset ready"
proof (induction before ready i rule: sift_up.induct)
  case (1 before ready i)
  let ?p = "(i - 1) div 2"
  have "mset (sift_up before (swap ready i ?p) ?p) = mset ready"
    if "0 < i" "before (ready ! i) (ready ! ?p)"
    using that 1 by simp
  then show ?case by (subst sift_up.simps) (simp add: Let_def)
qed

lemma mset_sift_down: "i < length ready \<Longrightarrow> mset (sift_down before ready i) = mset ready"
proof (induction before ready i rule: sift_down.induct)
  case (1 before ready i)
  let ?s = "smallest_child before ready i"
  have "mset (sift_down before (swap ready i ?s) ?s) = mset ready" if "?s \<noteq> i"
    using that 1 smallest_child_cases [of before ready i] by auto
  then show ?case by (subst sift_down.simps) (simp add: Let_def)
qed

context preference
begin

text \<open>Every heap edge outside \<open>S\<close> is in order.\<close>

definition heap_but :: "nat set \<Rightarrow> 'a list \<Rightarrow> bool" where
  "heap_but S h \<longleftrightarrow> (\<forall>k < length h. 0 < k \<longrightarrow> k \<notin> S \<longrightarrow> le (h ! ((k - 1) div 2)) (h ! k))"

definition heap :: "'a list \<Rightarrow> bool" where
  "heap h \<longleftrightarrow> heap_but {} h"

text \<open>The edges around \<open>i\<close> that skip \<open>i\<close> itself.\<close>

definition skip_ok :: "nat \<Rightarrow> 'a list \<Rightarrow> bool" where
  "skip_ok i h \<longleftrightarrow> (\<forall>k < length h. 0 < k \<longrightarrow> 0 < i \<longrightarrow> (k - 1) div 2 = i \<longrightarrow> le (h ! ((i - 1) div 2)) (h ! k))"

lemma heap_root: "heap h \<Longrightarrow> k < length h \<Longrightarrow> le (h ! 0) (h ! k)"
proof (induction k rule: less_induct)
  case (less k)
  show ?case
  proof (cases "k = 0")
    case False
    then have p: "(k - 1) div 2 < k" by linarith
    with less have "le (h ! 0) (h ! ((k - 1) div 2))" by simp
    moreover have "le (h ! ((k - 1) div 2)) (h ! k)"
      using less.prems False by (simp add: heap_def heap_but_def)
    ultimately show ?thesis by (rule le_trans)
  qed simp
qed

lemma heap_sift_up:
  "i < length h \<Longrightarrow> heap_but {i} h \<Longrightarrow> skip_ok i h \<Longrightarrow> heap (sift_up before h i)"
proof (induction i arbitrary: h rule: less_induct)
  case (less i)
  let ?p = "(i - 1) div 2"
  show ?case
  proof (cases "0 < i")
    case False
    with less.prems(2) show ?thesis
      by (subst sift_up.simps) (auto simp: heap_def heap_but_def)
  next
    case True
    then have p: "?p < i" by linarith
    show ?thesis
    proof (cases "before (h ! i) (h ! ?p)")
      case False
      with True less.prems(2) show ?thesis
        by (subst sift_up.simps) (auto simp: heap_def heap_but_def le_def Let_def)
    next
      case b: True
      let ?g = "swap h i ?p"
      have len: "length ?g = length h" by simp
      have nth: "?g ! k = (if k = ?p then h ! i else if k = i then h ! ?p else h ! k)"
        if "k < length h" for k using that less.prems(1) p by (simp add: swap_nth)
      have le_ip: "le (h ! i) (h ! ?p)" using b by (rule before_le)
      have "heap_but {?p} ?g"
        unfolding heap_but_def
      proof (intro allI impI)
        fix k assume k: "k < length ?g" "0 < k" "k \<notin> {?p}"
        let ?q = "(k - 1) div 2"
        have q: "?q < length h" "?q < k" using k by auto
        show "le (?g ! ?q) (?g ! k)"
        proof (cases "k = i")
          case True
          then show ?thesis using le_ip nth p less.prems(1) by auto
        next
          case ki: False
          then have hk: "le (h ! ?q) (h ! k)" using less.prems(2) k by (simp add: heap_but_def)
          have gk: "?g ! k = h ! k" using nth [of k] k ki by simp
          consider "?q = ?p" | "?q = i" | "?q \<noteq> ?p" "?q \<noteq> i" by blast
          then show ?thesis
          proof cases
            case 1
            then have "?g ! ?q = h ! i" using nth [OF q(1)] by simp
            moreover have "le (h ! i) (h ! k)" using le_trans [OF le_ip] hk 1 by simp
            ultimately show ?thesis using gk by simp
          next
            case 2
            then have "?g ! ?q = h ! ?p" using nth [OF q(1)] p by simp
            moreover have "le (h ! ?p) (h ! k)"
              using less.prems(3) k True 2 by (simp add: skip_ok_def)
            ultimately show ?thesis using gk by simp
          next
            case 3
            then show ?thesis using nth [OF q(1)] hk gk by simp
          qed
        qed
      qed
      moreover have "skip_ok ?p ?g"
        unfolding skip_ok_def
      proof (intro allI impI)
        fix k assume k: "k < length ?g" "0 < k" "0 < ?p" "(k - 1) div 2 = ?p"
        let ?r = "(?p - 1) div 2"
        have r: "?r < ?p" using k(3) by linarith
        have pp: "le (h ! ?r) (h ! ?p)"
          using less.prems(1,2) p k(3) by (auto simp: heap_but_def)
        have gr: "?g ! ?r = h ! ?r" using nth [of ?r] r p less.prems(1) by auto
        show "le (?g ! ?r) (?g ! k)"
        proof (cases "k = i")
          case True
          then show ?thesis using nth [of i] gr pp p less.prems(1) by auto
        next
          case False
          have "k \<noteq> ?p" using k(4) k(2,3) by linarith
          then have "?g ! k = h ! k" using nth [of k] k False by simp
          moreover have "le (h ! ?p) (h ! k)" using less.prems(2) k False by (auto simp: heap_but_def)
          ultimately show ?thesis using gr le_trans [OF pp] by simp
        qed
      qed
      ultimately have "heap (sift_up before ?g ?p)"
        using less.IH [OF p, of ?g] p less.prems(1) by simp
      then show ?thesis using True b by (subst sift_up.simps) (simp add: Let_def)
    qed
  qed
qed

lemma heap_heap_push: "heap h \<Longrightarrow> heap (heap_push before e h)"
  unfolding heap_push_def
proof (rule heap_sift_up)
  assume h: "heap h"
  show "heap_but {length h} (h @ [e])"
    using h by (auto simp: heap_def heap_but_def nth_append)
  show "skip_ok (length h) (h @ [e])"
    by (auto simp: skip_ok_def)
qed simp

lemma smallest_child_spec:
  fixes h :: "'a list" and i :: nat
  defines "s \<equiv> smallest_child before h i"
  shows "le (h ! s) (h ! i)"
    and "2 * i + 1 < length h \<Longrightarrow> le (h ! s) (h ! (2 * i + 1))"
    and "2 * i + 2 < length h \<Longrightarrow> le (h ! s) (h ! (2 * i + 2))"
proof -
  define s1 where "s1 = (if 2 * i + 1 < length h \<and> before (h ! (2 * i + 1)) (h ! i) then 2 * i + 1 else i)"
  have s: "s = (if 2 * i + 2 < length h \<and> before (h ! (2 * i + 2)) (h ! s1) then 2 * i + 2 else s1)"
    by (simp add: s_def smallest_child_def s1_def Let_def)
  have s1: "le (h ! s1) (h ! i)" "2 * i + 1 < length h \<Longrightarrow> le (h ! s1) (h ! (2 * i + 1))"
    using before_asym by (auto simp: s1_def le_def)
  have s2: "le (h ! s) (h ! s1)" "2 * i + 2 < length h \<Longrightarrow> le (h ! s) (h ! (2 * i + 2))"
    using before_asym by (auto simp: s le_def)
  show "le (h ! s) (h ! i)" using s2(1) s1(1) by (rule le_trans)
  show "2 * i + 1 < length h \<Longrightarrow> le (h ! s) (h ! (2 * i + 1))"
    using le_trans [OF s2(1) s1(2)] .
  show "2 * i + 2 < length h \<Longrightarrow> le (h ! s) (h ! (2 * i + 2))" by (rule s2(2))
qed

lemma smallest_child_le:
  assumes "k < length h" and "0 < k" and "(k - 1) div 2 = i"
  shows "le (h ! smallest_child before h i) (h ! k)"
proof -
  have "k = 2 * i + 1 \<or> k = 2 * i + 2" using assms(2,3) by linarith
  then show ?thesis using smallest_child_spec(2,3) [where h = h and i = i] assms(1) by blast
qed

lemma heap_sift_down:
  "i < length h \<Longrightarrow> heap_but {k. (k - 1) div 2 = i} h \<Longrightarrow> skip_ok i h \<Longrightarrow> heap (sift_down before h i)"
proof (induction "length h - i" arbitrary: h i rule: less_induct)
  case less
  let ?s = "smallest_child before h i"
  show ?case
  proof (cases "?s = i")
    case True
    have "heap h"
      unfolding heap_def heap_but_def
    proof (intro allI impI)
      fix k assume k: "k < length h" "0 < k"
      show "le (h ! ((k - 1) div 2)) (h ! k)"
      proof (cases "(k - 1) div 2 = i")
        case True
        then show ?thesis using smallest_child_le [OF k, of i] \<open>?s = i\<close> by simp
      next
        case False
        then show ?thesis using less.prems(2) k by (simp add: heap_but_def)
      qed
    qed
    with True show ?thesis by (subst sift_down.simps) simp
  next
    case False
    with smallest_child_cases [of before h i]
    have s: "?s < length h" "i < ?s" "(?s - 1) div 2 = i" by auto
    let ?g = "swap h i ?s"
    have nth: "?g ! k = (if k = ?s then h ! i else if k = i then h ! ?s else h ! k)"
      if "k < length h" for k using that less.prems(1) s by (simp add: swap_nth)
    have "heap_but {k. (k - 1) div 2 = ?s} ?g"
      unfolding heap_but_def
    proof (intro allI impI)
      fix k assume k: "k < length ?g" "0 < k" "k \<notin> {k. (k - 1) div 2 = ?s}"
      let ?q = "(k - 1) div 2"
      have q: "?q < length h" "?q \<noteq> ?s" using k by auto
      consider "?q = i" | "?q \<noteq> i" "k = i" | "?q \<noteq> i" "k \<noteq> i" by blast
      then show "le (?g ! ?q) (?g ! k)"
      proof cases
        case 1
        then have g: "?g ! ?q = h ! ?s" using nth [OF q(1)] s by simp
        have ki: "k \<noteq> i" using 1 k(2) by linarith
        show ?thesis
        proof (cases "k = ?s")
          case True
          then show ?thesis using g nth [of k] k smallest_child_spec(1) [where h = h and i = i] by simp
        next
          case False
          then show ?thesis using g nth [of k] k ki smallest_child_le [of k h i] 1 by simp
        qed
      next
        case 2
        then have "le (h ! ?q) (h ! ?s)"
          using less.prems(3) s k by (simp add: skip_ok_def)
        then show ?thesis using nth [OF q(1)] nth [of k] k q(2) s 2 by simp
      next
        case 3
        then have "k \<noteq> ?s" using s by auto
        moreover have "le (h ! ?q) (h ! k)" using less.prems(2) k 3 by (simp add: heap_but_def)
        ultimately show ?thesis using nth [OF q(1)] nth [of k] k q(2) 3 by simp
      qed
    qed
    moreover have "skip_ok ?s ?g"
      unfolding skip_ok_def
    proof (intro allI impI)
      fix k assume k: "k < length ?g" "0 < k" "0 < ?s" "(k - 1) div 2 = ?s"
      then have kn: "k \<noteq> ?s" "k \<noteq> i" using s by auto
      have "le (h ! ?s) (h ! k)" using less.prems(2) k s by (auto simp: heap_but_def)
      then show "le (?g ! ((?s - 1) div 2)) (?g ! k)"
        using nth [of i] nth [of k] s k kn less.prems(1) by simp
    qed
    ultimately have "heap (sift_down before ?g ?s)"
      using less.hyps [of ?g ?s] s less.prems(1) by simp
    then show ?thesis using False by (subst sift_down.simps) (simp add: Let_def)
  qed
qed

lemma heap_take: "heap_but S h \<Longrightarrow> heap_but S (take n h)"
  by (auto simp: heap_but_def)

lemma sift_down_Nil: "sift_down before [] 0 = []"
  by (subst sift_down.simps) (simp add: smallest_child_def)

lemma mset_sift_down_0: "mset (sift_down before g 0) = mset g"
  using mset_sift_down [of 0 g before] sift_down_Nil by (cases g) simp_all

lemma heap_heap_pop:
  assumes "heap h" and "h \<noteq> []"
  shows "heap (snd (heap_pop before h))"
proof -
  let ?n = "length h - 1"
  let ?g = "take ?n (h[0 := h ! ?n])"
  have b: "heap_but {k. (k - 1) div 2 = 0} (h[0 := h ! ?n])"
    using assms by (auto simp: heap_def heap_but_def nth_list_update)
  show ?thesis
  proof (cases "?g = []")
    case True
    then show ?thesis
      by (simp add: heap_pop_def Let_def sift_down_Nil heap_def heap_but_def del: take_eq_Nil)
  next
    case False
    have "heap (sift_down before ?g 0)"
      using False heap_take [OF b, of ?n] by (intro heap_sift_down) (auto simp: skip_ok_def)
    then show ?thesis by (simp add: heap_pop_def Let_def)
  qed
qed

lemma mset_heap_pop:
  assumes "h \<noteq> []"
  shows "mset h = add_mset (fst (heap_pop before h)) (mset (snd (heap_pop before h)))"
proof -
  let ?n = "length h - 1"
  let ?g = "take ?n (h[0 := h ! ?n])"
  have "mset (sift_down before ?g 0) = mset ?g"
    by (rule mset_sift_down_0)
  moreover have "mset h = add_mset (h ! 0) (mset ?g)"
  proof (cases h rule: rev_cases)
    case (snoc ys y)
    then show ?thesis by (cases ys) (auto simp: nth_append)
  qed (use assms in simp)
  ultimately show ?thesis by (simp add: heap_pop_def Let_def)
qed

lemma heap_pop_fst: "fst (heap_pop before h) = h ! 0"
  by (simp add: heap_pop_def Let_def)

text \<open>The scan: the element it takes is one no other is better than.\<close>

lemma scan_best_in: "scan_best before b xs \<in> insert b (set xs)"
  by (induction xs arbitrary: b) (auto split: if_splits)

lemma scan_best_le: "x \<in> insert b (set xs) \<Longrightarrow> le (scan_best before b xs) x"
proof (induction xs arbitrary: b x)
  case Nil
  then show ?case by simp
next
  case (Cons y xs)
  let ?b = "if before y b then y else b"
  have b: "le ?b b" "le ?b y" using before_asym by (auto simp: le_def)
  have "le (scan_best before ?b xs) ?b" using Cons.IH [of ?b ?b] by simp
  from le_trans [OF this b(1)] le_trans [OF this b(2)] Cons.IH [of x ?b] Cons.prems
  show ?case by auto
qed

end

sublocale preference \<subseteq> hq: ready_queue before "heap_push before" "heap_pop before" heap
proof unfold_locales
  show "heap []" by (simp add: heap_def heap_but_def)
  show "mset (heap_push before e q) = add_mset e (mset q)" for e q
    by (simp add: heap_push_def mset_sift_up)
  show "heap q \<Longrightarrow> q \<noteq> [] \<Longrightarrow> x \<in> set q \<Longrightarrow> \<not> before x (fst (heap_pop before q))" for q x
    using heap_root [of q] by (auto simp: heap_pop_fst in_set_conv_nth le_def)
qed (simp_all add: mset_heap_pop heap_heap_push heap_heap_pop)

sublocale preference \<subseteq> sq: ready_queue before scan_push "scan_pop before" "\<lambda>_. True"
proof unfold_locales
  fix q :: "'a list" and x
  assume q: "q \<noteq> []"
  let ?b = "scan_best before (hd q) (tl q)"
  have b: "?b \<in> set q" using scan_best_in [of "hd q" "tl q"] q by (cases q) auto
  then show "mset q = add_mset (fst (scan_pop before q)) (mset (snd (scan_pop before q)))"
    by (simp add: scan_pop_def Let_def)
  show "x \<in> set q \<Longrightarrow> \<not> before x (fst (scan_pop before q))"
    using scan_best_le [of x "hd q" "tl q"] q by (cases q) (auto simp: scan_pop_def Let_def le_def)
qed (simp_all add: scan_push_def)

end
