(* ===== verification/Kahn.thy ===== *)
theory Kahn
  imports Ready_Heap "HOL-Library.While_Combinator" "HOL-Library.Product_Lexorder"
begin

text \<open>
  The topological sort at the centre of \<open>order\<close> (\<open>internal/state/order.go\<close>): in-degrees, the
  dependents of each chunk, the initial ready set and the loop that takes the best ready chunk and
  releases its dependents. It is stated over the ready set's \<open>push\<close> and \<open>pop\<close>, and its correctness
  is proved once from the interface \<open>ready_queue\<close>.
\<close>

subsection \<open>The loop\<close>

type_synonym ready_entry = "nat \<times> nat" \<comment> \<open>chunk index and arrival number\<close>

record kstate =
  k_ready :: "ready_entry list"
  k_seq :: nat
  k_indegree :: "int list"
  k_placed :: "bool list"
  k_out :: "nat list"

definition indegrees :: "nat list list \<Rightarrow> int list" where
  "indegrees edges = map (\<lambda>befores. int (length befores)) edges"

definition add_dependents :: "nat list list \<Rightarrow> nat \<times> nat list \<Rightarrow> nat list list" where
  "add_dependents deps = (\<lambda>(after, befores).
     foldl (\<lambda>deps before. deps[before := deps ! before @ [after]]) deps befores)"

definition dependents :: "nat list list \<Rightarrow> nat list list" where
  "dependents edges =
     foldl add_dependents (replicate (length edges) []) (enumerate 0 edges)"

definition push_ready :: "(ready_entry \<Rightarrow> ready_entry list \<Rightarrow> ready_entry list) \<Rightarrow> kstate \<Rightarrow> nat \<Rightarrow> kstate" where
  "push_ready push st i = st\<lparr>k_ready := push (i, k_seq st) (k_ready st), k_seq := k_seq st + 1\<rparr>"

definition init_ready ::
  "(ready_entry \<Rightarrow> ready_entry list \<Rightarrow> ready_entry list) \<Rightarrow> nat list list \<Rightarrow> kstate" where
  "init_ready push edges =
     foldl (\<lambda>st i. if k_indegree st ! i = 0 then push_ready push st i else st)
       \<lparr>k_ready = [], k_seq = 0, k_indegree = indegrees edges,
        k_placed = replicate (length edges) False, k_out = []\<rparr>
       [0..<length edges]"

definition release ::
  "(ready_entry \<Rightarrow> ready_entry list \<Rightarrow> ready_entry list) \<Rightarrow> kstate \<Rightarrow> nat \<Rightarrow> kstate" where
  "release push st dep =
     (let d = k_indegree st ! dep - 1;
          st1 = st\<lparr>k_indegree := (k_indegree st)[dep := d]\<rparr>
      in if d = 0 then push_ready push st1 dep else st1)"

definition kahn_step ::
  "(ready_entry \<Rightarrow> ready_entry list \<Rightarrow> ready_entry list) \<Rightarrow>
   (ready_entry list \<Rightarrow> ready_entry \<times> ready_entry list) \<Rightarrow> nat list list \<Rightarrow> kstate \<Rightarrow> kstate" where
  "kahn_step push pop deps st =
     (let (e, ready) = pop (k_ready st); idx = fst e;
          st1 = st\<lparr>k_ready := ready, k_placed := (k_placed st)[idx := True],
                   k_out := k_out st @ [idx]\<rparr>
      in foldl (release push) st1 (deps ! idx))"

definition kahn ::
  "(ready_entry \<Rightarrow> ready_entry list \<Rightarrow> ready_entry list) \<Rightarrow>
   (ready_entry list \<Rightarrow> ready_entry \<times> ready_entry list) \<Rightarrow> nat list list \<Rightarrow> kstate option" where
  "kahn push pop edges =
     while_option (\<lambda>st. length (k_ready st) > 0) (kahn_step push pop (dependents edges))
       (init_ready push edges)"

subsection \<open>The graph\<close>

definition edges_ok :: "nat list list \<Rightarrow> bool" where
  "edges_ok edges \<longleftrightarrow>
     (\<forall>i < length edges. distinct (edges ! i) \<and> set (edges ! i) \<subseteq> {..<length edges})"

lemma add_dependents_nth:
  assumes "distinct befores" and "set befores \<subseteq> {..<length deps}"
  shows "length (add_dependents deps (after, befores)) = length deps \<and>
     (\<forall>b < length deps. add_dependents deps (after, befores) ! b =
        deps ! b @ (if b \<in> set befores then [after] else []))"
  using assms
proof (induction befores arbitrary: deps)
  case Nil
  then show ?case by (simp add: add_dependents_def)
next
  case (Cons x befores)
  let ?d = "deps[x := deps ! x @ [after]]"
  have eq: "add_dependents deps (after, x # befores) = add_dependents ?d (after, befores)"
    by (simp add: add_dependents_def)
  from Cons.IH [of ?d] Cons.prems show ?case
    unfolding eq by (auto simp: nth_list_update)
qed

lemma dependents_prefix:
  assumes "edges_ok edges" and "m \<le> length edges"
  shows "length (foldl add_dependents (replicate (length edges) []) (enumerate 0 (take m edges))) = length edges \<and>
     (\<forall>b < length edges. foldl add_dependents (replicate (length edges) []) (enumerate 0 (take m edges)) ! b =
        filter (\<lambda>a. b \<in> set (edges ! a)) [0..<m])"
  using assms(2)
proof (induction m)
  case 0
  then show ?case by simp
next
  case (Suc m)
  let ?d = "foldl add_dependents (replicate (length edges) []) (enumerate 0 (take m edges))"
  from Suc have IH: "length ?d = length edges"
    "\<forall>b < length edges. ?d ! b = filter (\<lambda>a. b \<in> set (edges ! a)) [0..<m]" by auto
  have eq: "foldl add_dependents (replicate (length edges) []) (enumerate 0 (take (Suc m) edges)) =
      add_dependents ?d (m, edges ! m)"
    using Suc.prems by (simp add: take_Suc_conv_app_nth enumerate_append_eq)
  have "distinct (edges ! m)" "set (edges ! m) \<subseteq> {..<length ?d}"
    using assms(1) Suc.prems IH(1) by (auto simp: edges_ok_def)
  from add_dependents_nth [OF this] IH show ?case
    unfolding eq by auto
qed

lemma dependents_spec:
  assumes "edges_ok edges"
  shows "length (dependents edges) = length edges"
    and "b < length edges \<Longrightarrow> dependents edges ! b = filter (\<lambda>a. b \<in> set (edges ! a)) [0..<length edges]"
  using dependents_prefix [OF assms, of "length edges"] by (auto simp: dependents_def)

subsection \<open>Correctness from the interface of the ready set\<close>

text \<open>A ready set of chunk indices with arrival numbers, whose preference is a priority and then
  the arrival number.\<close>

locale ready_chunks = ready_queue before push pop invar
  for before :: "ready_entry \<Rightarrow> ready_entry \<Rightarrow> bool"
    and push :: "ready_entry \<Rightarrow> ready_entry list \<Rightarrow> ready_entry list"
    and pop :: "ready_entry list \<Rightarrow> ready_entry \<times> ready_entry list"
    and invar :: "ready_entry list \<Rightarrow> bool" +
  fixes prio :: "nat \<Rightarrow> 'p::linorder"
  assumes before_iff: "before (a, s) (b, t) \<longleftrightarrow> prio a < prio b \<or> (prio a = prio b \<and> s < t)"
begin

definition kinv :: "nat list list \<Rightarrow> kstate \<Rightarrow> bool" where
  "kinv edges st \<longleftrightarrow>
     invar (k_ready st) \<and>
     length (k_indegree st) = length edges \<and>
     length (k_placed st) = length edges \<and>
     distinct (k_out st @ map fst (k_ready st)) \<and>
     set (k_out st) \<union> fst ` set (k_ready st) \<subseteq> {..<length edges} \<and>
     (\<forall>i < length edges. k_placed st ! i \<longleftrightarrow> i \<in> set (k_out st)) \<and>
     (\<forall>i < length edges. k_indegree st ! i = int (card (set (edges ! i) - set (k_out st)))) \<and>
     (\<forall>i < length edges. i \<in> set (k_out st) \<union> fst ` set (k_ready st) \<longleftrightarrow> set (edges ! i) \<subseteq> set (k_out st)) \<and>
     (\<forall>k < length (k_out st). set (edges ! (k_out st ! k)) \<subseteq> set (take k (k_out st))) \<and>
     (\<forall>k < length (k_out st). \<forall>b < length edges.
        set (edges ! b) \<subseteq> set (take k (k_out st)) \<and> b \<notin> set (take k (k_out st)) \<longrightarrow>
        prio (k_out st ! k) \<le> prio b)"

lemma kinvD:
  assumes "kinv edges st"
  shows "invar (k_ready st)"
    and "length (k_indegree st) = length edges"
    and "length (k_placed st) = length edges"
    and "distinct (k_out st @ map fst (k_ready st))"
    and "set (k_out st) \<union> fst ` set (k_ready st) \<subseteq> {..<length edges}"
    and "i < length edges \<Longrightarrow> k_placed st ! i \<longleftrightarrow> i \<in> set (k_out st)"
    and "i < length edges \<Longrightarrow> k_indegree st ! i = int (card (set (edges ! i) - set (k_out st)))"
    and "i < length edges \<Longrightarrow>
           i \<in> set (k_out st) \<union> fst ` set (k_ready st) \<longleftrightarrow> set (edges ! i) \<subseteq> set (k_out st)"
    and "k < length (k_out st) \<Longrightarrow> set (edges ! (k_out st ! k)) \<subseteq> set (take k (k_out st))"
    and "k < length (k_out st) \<Longrightarrow> b < length edges \<Longrightarrow>
           set (edges ! b) \<subseteq> set (take k (k_out st)) \<Longrightarrow> b \<notin> set (take k (k_out st)) \<Longrightarrow>
           prio (k_out st ! k) \<le> prio b"
  using assms unfolding kinv_def by blast+

lemma mset_fst_push: "mset (map fst (push e q)) = add_mset (fst e) (mset (map fst q))"
  using mset_push [of e q] by (metis image_mset_add_mset mset_map)

lemma release_simps:
  "k_out (release push st d) = k_out st"
  "k_placed (release push st d) = k_placed st"
  "k_indegree (release push st d) = (k_indegree st)[d := k_indegree st ! d - 1]"
  by (simp_all add: release_def push_ready_def Let_def)

lemma release_ready:
  "invar (k_ready st) \<Longrightarrow> invar (k_ready (release push st d))"
  "mset (map fst (k_ready (release push st d))) =
     mset (map fst (k_ready st)) + (if k_indegree st ! d = 1 then {#d#} else {#})"
  by (auto simp: release_def push_ready_def Let_def invar_push mset_fst_push simp del: mset_map)

lemma release_all:
  assumes "distinct ds" and "set ds \<subseteq> {..<length (k_indegree st)}"
  shows "k_out (foldl (release push) st ds) = k_out st"
    and "k_placed (foldl (release push) st ds) = k_placed st"
    and "length (k_indegree (foldl (release push) st ds)) = length (k_indegree st)"
    and "\<forall>i < length (k_indegree st). k_indegree (foldl (release push) st ds) ! i =
           k_indegree st ! i - (if i \<in> set ds then 1 else 0)"
    and "invar (k_ready st) \<Longrightarrow> invar (k_ready (foldl (release push) st ds))"
    and "mset (map fst (k_ready (foldl (release push) st ds))) =
           mset (map fst (k_ready st)) + mset (filter (\<lambda>d. k_indegree st ! d = 1) ds)"
  using assms
proof (induction ds arbitrary: st)
  case (Cons d ds)
  {
    case 1
    with Cons.IH(1) [of "release push st d"] show ?case by (simp add: release_simps)
  next
    case 2
    with Cons.IH(2) [of "release push st d"] show ?case by (simp add: release_simps)
  next
    case 3
    with Cons.IH(3) [of "release push st d"] show ?case by (simp add: release_simps)
  next
    case 4
    with Cons.IH(4) [of "release push st d"] show ?case by (auto simp: release_simps nth_list_update)
  next
    case 5
    with Cons.IH(5) [of "release push st d"] show ?case by (simp add: release_simps release_ready)
  next
    case 6
    then have e: "filter (\<lambda>x. k_indegree (release push st d) ! x = 1) ds =
        filter (\<lambda>x. k_indegree st ! x = 1) ds"
      by (intro filter_cong) (auto simp: release_simps nth_list_update)
    have "distinct ds" "set ds \<subseteq> {..<length (k_indegree (release push st d))}"
      using 6 by (auto simp: release_simps)
    from Cons.IH(6) [OF this] show ?case
      unfolding e by (simp add: release_ready(2) del: mset_map)
  }
qed simp_all

lemma released_distinct:
  assumes "edges_ok edges" and "idx < length edges"
  shows "distinct (dependents edges ! idx)"
    and "set (dependents edges ! idx) = {a. a < length edges \<and> idx \<in> set (edges ! a)}"
  using dependents_spec [OF assms(1)] assms(2) by auto

lemma card_remove_one:
  assumes "finite A" and "idx \<notin> B"
  shows "int (card (A - insert idx B)) = int (card (A - B)) - (if idx \<in> A then 1 else 0)"
proof (cases "idx \<in> A")
  case True
  have "A - insert idx B = (A - B) - {idx}" by auto
  moreover have "idx \<in> A - B" using True assms(2) by auto
  moreover have "card (A - B) > 0" using calculation(2) assms(1) by (auto simp: card_gt_0_iff)
  ultimately show ?thesis using True by simp
next
  case False
  then have "A - insert idx B = A - B" by auto
  with False show ?thesis by simp
qed

text \<open>One step of the loop: the popped chunk is placed and its dependents are released.\<close>

lemma kahn_step_ready:
  assumes inv: "kinv edges st" and ok: "edges_ok edges" and ne: "k_ready st \<noteq> []"
  defines "idx \<equiv> fst (fst (pop (k_ready st)))"
    and "st' \<equiv> kahn_step push pop (dependents edges) st"
  shows "idx < length edges" and "idx \<notin> set (k_out st)" and "set (edges ! idx) \<subseteq> set (k_out st)"
    and "k_out st' = k_out st @ [idx]"
    and "k_placed st' = (k_placed st)[idx := True]"
    and "length (k_indegree st') = length edges"
    and "\<forall>i < length edges. k_indegree st' ! i = k_indegree st ! i - (if idx \<in> set (edges ! i) then 1 else 0)"
    and "invar (k_ready st')"
    and "mset (map fst (k_ready st')) + {#idx#} = mset (map fst (k_ready st)) +
           mset (filter (\<lambda>d. k_indegree st ! d = 1) (dependents edges ! idx))"
proof -
  note q = kinvD(1) [OF inv]
  have "idx \<in> fst ` set (k_ready st)" using pop_in [OF q ne] by (simp add: idx_def)
  with kinvD(4,5,8) [OF inv] show idx: "idx < length edges" "idx \<notin> set (k_out st)"
    "set (edges ! idx) \<subseteq> set (k_out st)"
    by auto
  let ?st1 = "st\<lparr>k_ready := snd (pop (k_ready st)), k_placed := (k_placed st)[idx := True],
                 k_out := k_out st @ [idx]\<rparr>"
  have st': "st' = foldl (release push) ?st1 (dependents edges ! idx)"
    by (simp add: st'_def kahn_step_def split_beta Let_def idx_def)
  have len: "length (k_indegree ?st1) = length edges" using inv by (simp add: kinv_def)
  note d = released_distinct [OF ok idx(1)]
  have sub: "set (dependents edges ! idx) \<subseteq> {..<length (k_indegree ?st1)}" using d(2) len by auto
  note all = release_all [OF d(1) sub, folded st']
  from all(1,2) show "k_out st' = k_out st @ [idx]" "k_placed st' = (k_placed st)[idx := True]" by simp_all
  from all(3) len show "length (k_indegree st') = length edges" by simp
  from all(4) len d(2) show "\<forall>i < length edges. k_indegree st' ! i =
      k_indegree st ! i - (if idx \<in> set (edges ! i) then 1 else 0)" by auto
  from all(5) invar_pop [OF q ne] show "invar (k_ready st')" by simp
  have "mset (map fst (k_ready st)) = add_mset idx (mset (map fst (snd (pop (k_ready st)))))"
    using mset_pop [OF q ne] by (metis idx_def image_mset_add_mset mset_map)
  with all(6) show "mset (map fst (k_ready st')) + {#idx#} = mset (map fst (k_ready st)) +
      mset (filter (\<lambda>d. k_indegree st ! d = 1) (dependents edges ! idx))"
    by (simp del: mset_map mset_filter)
qed

lemma kahn_step_ready_set:
  assumes inv: "kinv edges st" and ok: "edges_ok edges" and ne: "k_ready st \<noteq> []"
  defines "idx \<equiv> fst (fst (pop (k_ready st)))"
    and "st' \<equiv> kahn_step push pop (dependents edges) st"
  shows "distinct (k_out st' @ map fst (k_ready st'))"
    and "set (k_out st') \<union> fst ` set (k_ready st') =
           set (k_out st) \<union> fst ` set (k_ready st) \<union>
           {d. d < length edges \<and> idx \<in> set (edges ! d) \<and> k_indegree st ! d = 1}"
proof -
  note step = kahn_step_ready [OF inv ok ne, folded idx_def st'_def]
  note dep = released_distinct [OF ok step(1)]
  let ?new = "filter (\<lambda>d. k_indegree st ! d = 1) (dependents edges ! idx)"
  have m: "mset (k_out st' @ map fst (k_ready st')) = mset (k_out st @ map fst (k_ready st) @ ?new)"
    using step(9) by (simp add: step(4) del: mset_map mset_filter)
  then have "set (k_out st' @ map fst (k_ready st')) = set (k_out st @ map fst (k_ready st) @ ?new)"
    by (rule mset_eq_setD)
  then show "set (k_out st') \<union> fst ` set (k_ready st') =
      set (k_out st) \<union> fst ` set (k_ready st) \<union>
      {d. d < length edges \<and> idx \<in> set (edges ! d) \<and> k_indegree st ! d = 1}"
    using dep(2) by auto
  have "d \<notin> set (k_out st) \<union> fst ` set (k_ready st)" if "d \<in> set ?new" for d
  proof -
    from that dep(2) have "d < length edges" "idx \<in> set (edges ! d)" by auto
    with kinvD(8) [OF inv, of d] step(2) show ?thesis by auto
  qed
  then have "distinct (k_out st @ map fst (k_ready st) @ ?new)"
    using kinvD(4) [OF inv] dep(1) by auto
  then show "distinct (k_out st' @ map fst (k_ready st'))"
    using m by (metis mset_eq_imp_distinct_iff)
qed

lemma kahn_step_covers:
  assumes inv: "kinv edges st" and ok: "edges_ok edges" and ne: "k_ready st \<noteq> []"
    and i: "i < length edges"
  defines "st' \<equiv> kahn_step push pop (dependents edges) st"
  shows "i \<in> set (k_out st') \<union> fst ` set (k_ready st') \<longleftrightarrow> set (edges ! i) \<subseteq> set (k_out st')"
proof -
  define idx where "idx = fst (fst (pop (k_ready st)))"
  note step = kahn_step_ready [OF inv ok ne, folded idx_def st'_def]
  have "(idx \<in> set (edges ! i) \<and> k_indegree st ! i = 1) \<longleftrightarrow>
      idx \<in> set (edges ! i) \<and> set (edges ! i) \<subseteq> insert idx (set (k_out st))"
  proof (cases "idx \<in> set (edges ! i)")
    case True
    then have "k_indegree st ! i = 1 \<longleftrightarrow> card (set (edges ! i) - insert idx (set (k_out st))) = 0"
      using card_remove_one [of "set (edges ! i)" idx "set (k_out st)"] step(2) kinvD(7) [OF inv i] by auto
    then show ?thesis using True by auto
  qed simp
  then have "i \<in> set (k_out st') \<union> fst ` set (k_ready st') \<longleftrightarrow>
      set (edges ! i) \<subseteq> set (k_out st) \<or>
      (idx \<in> set (edges ! i) \<and> set (edges ! i) \<subseteq> insert idx (set (k_out st)))"
    using kahn_step_ready_set(2) [OF inv ok ne, folded idx_def st'_def] kinvD(8) [OF inv i] i by auto
  also have "\<dots> \<longleftrightarrow> set (edges ! i) \<subseteq> insert idx (set (k_out st))" by auto
  finally show ?thesis by (simp add: step(4))
qed

lemma pop_best:
  assumes inv: "kinv edges st" and ne: "k_ready st \<noteq> []"
    and b: "b < length edges" "set (edges ! b) \<subseteq> set (k_out st)" "b \<notin> set (k_out st)"
  shows "prio (fst (fst (pop (k_ready st)))) \<le> prio b"
proof -
  from kinvD(8) [OF inv b(1)] b obtain s where "(b, s) \<in> set (k_ready st)" by auto
  from pop_min [OF kinvD(1) [OF inv] ne this] show ?thesis
    by (cases "fst (pop (k_ready st))") (auto simp: before_iff not_less)
qed

lemma kinv_step:
  assumes inv: "kinv edges st" and ok: "edges_ok edges" and ne: "k_ready st \<noteq> []"
  shows "kinv edges (kahn_step push pop (dependents edges) st)"
proof -
  define idx st' where "idx = fst (fst (pop (k_ready st)))"
    and "st' = kahn_step push pop (dependents edges) st"
  note step = kahn_step_ready [OF inv ok ne, folded idx_def st'_def]
  note rset = kahn_step_ready_set [OF inv ok ne, folded idx_def st'_def]
  have "set (k_out st') \<union> fst ` set (k_ready st') \<subseteq> {..<length edges}"
    using rset(2) kinvD(5) [OF inv] by auto
  moreover have "k_indegree st' ! i = int (card (set (edges ! i) - set (k_out st')))"
    if "i < length edges" for i
    using that step(7) kinvD(7) [OF inv that] card_remove_one [OF _ step(2), of "set (edges ! i)"]
    by (simp add: step(4))
  moreover have "k_placed st' ! i \<longleftrightarrow> i \<in> set (k_out st')" if "i < length edges" for i
    using that step(1) kinvD(3) [OF inv] kinvD(6) [OF inv that] by (auto simp: step(4,5) nth_list_update)
  moreover have "set (edges ! (k_out st' ! k)) \<subseteq> set (take k (k_out st'))" if "k < length (k_out st')" for k
    using that kinvD(9) [OF inv, of k] step(3)
    by (cases "k < length (k_out st)") (auto simp: step(4) nth_append less_Suc_eq)
  moreover have "prio (k_out st' ! k) \<le> prio b"
    if "k < length (k_out st')" "b < length edges" "set (edges ! b) \<subseteq> set (take k (k_out st'))"
      "b \<notin> set (take k (k_out st'))" for k b
    using that kinvD(10) [OF inv, of k b] pop_best [OF inv ne, of b]
    by (cases "k < length (k_out st)") (auto simp: step(4) nth_append less_Suc_eq idx_def)
  ultimately show ?thesis
    unfolding kinv_def st'_def [symmetric]
    using step(6,8) kinvD(3) [OF inv] rset(1) kahn_step_covers [OF inv ok ne, folded st'_def]
    by (simp add: step(5))
qed

text \<open>The initial ready set: the chunks with no edge into them, in index order.\<close>

lemma init_prefix:
  assumes "m \<le> length edges"
  defines "st \<equiv> foldl (\<lambda>st i. if k_indegree st ! i = 0 then push_ready push st i else st)
       \<lparr>k_ready = [], k_seq = 0, k_indegree = indegrees edges,
        k_placed = replicate (length edges) False, k_out = []\<rparr> [0..<m]"
  shows "invar (k_ready st) \<and> k_indegree st = indegrees edges \<and>
     k_placed st = replicate (length edges) False \<and> k_out st = [] \<and>
     mset (map fst (k_ready st)) = mset (filter (\<lambda>i. edges ! i = []) [0..<m])"
  unfolding st_def using assms(1)
proof (induction m)
  case 0
  then show ?case by (simp add: invar_Nil)
next
  case (Suc m)
  then show ?case
    by (auto simp: push_ready_def invar_push mset_fst_push indegrees_def simp del: mset_map)
qed

lemma kinv_init:
  assumes "edges_ok edges"
  shows "kinv edges (init_ready push edges)"
proof -
  let ?st = "init_ready push edges"
  have st: "invar (k_ready ?st)" "k_indegree ?st = indegrees edges"
    "k_placed ?st = replicate (length edges) False" "k_out ?st = []"
    "mset (map fst (k_ready ?st)) = mset (filter (\<lambda>i. edges ! i = []) [0..<length edges])"
    using init_prefix [of "length edges" edges] by (simp_all add: init_ready_def del: mset_map)
  have "distinct (map fst (k_ready ?st))"
    using st(5) by (metis distinct_filter distinct_upt mset_eq_imp_distinct_iff)
  moreover have "fst ` set (k_ready ?st) = {i. i < length edges \<and> edges ! i = []}"
    using mset_eq_setD [OF st(5)] by auto
  moreover have "indegrees edges ! i = int (card (set (edges ! i)))" if "i < length edges" for i
    using that assms by (simp add: indegrees_def edges_ok_def distinct_card)
  ultimately show ?thesis
    by (auto simp: kinv_def st(1-4) indegrees_def)
qed

text \<open>The loop ends: every step places one more chunk.\<close>

lemma kahn_result:
  assumes "edges_ok edges"
  obtains st where "kahn push pop edges = Some st" and "kinv edges st" and "k_ready st = []"
proof -
  let ?b = "\<lambda>st. length (k_ready st) > 0"
  let ?c = "kahn_step push pop (dependents edges)"
  have "\<exists>st. while_option ?b ?c (init_ready push edges) = Some st"
  proof (rule measure_while_option_Some [where P = "kinv edges" and f = "\<lambda>st. length edges - length (k_out st)"])
    fix st
    assume inv: "kinv edges st" and "?b st"
    then have ne: "k_ready st \<noteq> []" by simp
    note step = kahn_step_ready [OF inv assms ne]
    have "distinct (k_out (?c st))" "set (k_out (?c st)) \<subseteq> {..<length edges}"
      using kinvD(4,5) [OF kinv_step [OF inv assms ne]] by auto
    then have "length (k_out (?c st)) \<le> length edges"
      by (metis card_lessThan card_mono distinct_card finite_lessThan)
    then show "kinv edges (?c st) \<and> length edges - length (k_out (?c st)) < length edges - length (k_out st)"
      using kinv_step [OF inv assms ne] step(4) by simp
  qed (rule kinv_init [OF assms])
  then obtain st where st: "while_option ?b ?c (init_ready push edges) = Some st" ..
  have "kinv edges st"
    by (rule while_option_rule [OF _ st]) (auto intro: kinv_step kinv_init assms)
  with while_option_stop [OF st] st show ?thesis by (intro that) (auto simp: kahn_def)
qed

text \<open>With no edges at all, the arrival number of a chunk is its index.\<close>

definition free_inv :: "nat list list \<Rightarrow> kstate \<Rightarrow> bool" where
  "free_inv edges st \<longleftrightarrow> kinv edges st \<and> (\<forall>e \<in> set (k_ready st). snd e = fst e) \<and>
     (\<forall>k < length (k_out st). \<forall>b < length edges. b \<notin> set (take k (k_out st)) \<longrightarrow>
        (prio (k_out st ! k), k_out st ! k) \<le> (prio b, b))"

lemma free_init_prefix:
  assumes "\<forall>i < length edges. edges ! i = []" and "m \<le> length edges"
  defines "st \<equiv> foldl (\<lambda>st i. if k_indegree st ! i = 0 then push_ready push st i else st)
       \<lparr>k_ready = [], k_seq = 0, k_indegree = indegrees edges,
        k_placed = replicate (length edges) False, k_out = []\<rparr> [0..<m]"
  shows "k_indegree st = indegrees edges \<and> k_seq st = m \<and> (\<forall>e \<in> set (k_ready st). snd e = fst e)"
  unfolding st_def using assms(1,2)
proof (induction m)
  case (Suc m)
  then show ?case by (auto simp: push_ready_def set_push indegrees_def)
qed simp

lemma free_init:
  assumes "\<forall>i < length edges. edges ! i = []" and "edges_ok edges"
  shows "free_inv edges (init_ready push edges)"
proof -
  have "k_out (init_ready push edges) = []"
    using init_prefix [of "length edges" edges] by (simp add: init_ready_def)
  with free_init_prefix [OF assms(1), of "length edges"] kinv_init [OF assms(2)] show ?thesis
    by (simp add: free_inv_def init_ready_def)
qed

lemma free_step:
  assumes free: "\<forall>i < length edges. edges ! i = []" and ok: "edges_ok edges"
    and inv: "free_inv edges st" and ne: "k_ready st \<noteq> []"
  shows "free_inv edges (kahn_step push pop (dependents edges) st)"
proof -
  define idx st' where "idx = fst (fst (pop (k_ready st)))"
    and "st' = kahn_step push pop (dependents edges) st"
  from inv have k: "kinv edges st" by (simp add: free_inv_def)
  note q = kinvD(1) [OF k]
  note step = kahn_step_ready [OF k ok ne, folded idx_def st'_def]
  have "dependents edges ! idx = []"
    using dependents_spec(2) [OF ok step(1)] free by simp
  then have ready: "k_ready st' = snd (pop (k_ready st))"
    by (simp add: st'_def kahn_step_def split_beta Let_def idx_def)
  have best: "(prio idx, idx) \<le> (prio b, b)" if "b < length edges" "b \<notin> set (k_out st)" for b
  proof -
    from that free kinvD(8) [OF k that(1)] inv have b: "(b, b) \<in> set (k_ready st)"
      by (force simp: free_inv_def)
    have "fst (pop (k_ready st)) = (idx, idx)"
      using inv pop_in [OF q ne] by (auto simp: free_inv_def idx_def prod_eq_iff)
    with pop_min [OF q ne b] show ?thesis by (auto simp: before_iff)
  qed
  have "(prio (k_out st' ! k), k_out st' ! k) \<le> (prio b, b)"
    if "k < length (k_out st')" "b < length edges" "b \<notin> set (take k (k_out st'))" for k b
    using that best [of b] inv
    by (cases "k < length (k_out st)") (auto simp: step(4) nth_append less_Suc_eq free_inv_def)
  then show ?thesis
    using kinv_step [OF k ok ne] inv set_pop [OF q ne] ready
    unfolding free_inv_def st'_def [symmetric] by simp
qed

lemma kahn_free:
  assumes free: "\<forall>i < length edges. edges ! i = []" and ok: "edges_ok edges"
    and run: "kahn push pop edges = Some st"
  shows "k_out st = sort_key (\<lambda>i. (prio i, i)) [0..<length edges]"
proof -
  have inv: "free_inv edges st"
  proof (rule while_option_rule [where P = "free_inv edges", OF _ run [unfolded kahn_def]])
    show "free_inv edges (init_ready push edges)" by (rule free_init [OF free ok])
    show "free_inv edges (kahn_step push pop (dependents edges) s)"
      if "free_inv edges s" and "0 < length (k_ready s)" for s
      by (rule free_step [OF free ok that(1)]) (use that(2) in simp)
  qed
  then have k: "kinv edges st" by (simp add: free_inv_def)
  from while_option_stop [OF run [unfolded kahn_def]] have ready: "k_ready st = []" by simp
  have "i \<in> set (k_out st)" if "i < length edges" for i
    using kinvD(8) [OF k that] free that ready by simp
  moreover have "set (k_out st) \<subseteq> {..<length edges}" using kinvD(5) [OF k] by simp
  ultimately have all: "set (k_out st) = {..<length edges}" by blast
  have dist: "distinct (k_out st)" using kinvD(4) [OF k] by simp
  have m: "mset [0..<length edges] = mset (k_out st)"
    using set_eq_iff_mset_eq_distinct [OF distinct_upt dist, of 0 "length edges"] all
    by (simp add: lessThan_atLeast0)
  have "sorted (map (\<lambda>i. (prio i, i)) (k_out st))"
    unfolding sorted_iff_nth_mono_less
  proof (intro allI impI)
    fix i j
    assume ij: "i < j" "j < length (map (\<lambda>i. (prio i, i)) (k_out st))"
    then have j: "j < length (k_out st)" by simp
    have "k_out st ! j \<notin> set (take i (k_out st))"
    proof
      assume "k_out st ! j \<in> set (take i (k_out st))"
      then obtain m where "m < i" "k_out st ! m = k_out st ! j" by (auto simp: in_set_conv_nth)
      with dist ij(1) j show False by (simp add: nth_eq_iff_index_eq)
    qed
    moreover have "k_out st ! j < length edges" using all nth_mem [OF j] by simp
    ultimately have "(prio (k_out st ! i), k_out st ! i) \<le> (prio (k_out st ! j), k_out st ! j)"
      using inv ij(1) j unfolding free_inv_def by (meson less_trans)
    then show "map (\<lambda>i. (prio i, i)) (k_out st) ! i \<le> map (\<lambda>i. (prio i, i)) (k_out st) ! j"
      using ij(1) j by simp
  qed
  from sort_key_inj_key_eq [OF m _ this] show ?thesis by (simp add: inj_on_def)
qed

end

subsection \<open>The order does not depend on how the ready set is kept\<close>

text \<open>Two ready sets with the same preference pop the same chunks: arrival numbers are distinct, so
  the preference is total on what is in the set.\<close>

locale ready_pair =
  q: ready_chunks before push1 pop1 invar1 prio + r: ready_chunks before push2 pop2 invar2 prio
  for before push1 pop1 invar1 push2 pop2 invar2 and prio :: "nat \<Rightarrow> 'p::linorder"
begin

definition sim :: "kstate \<Rightarrow> kstate \<Rightarrow> bool" where
  "sim s t \<longleftrightarrow> invar1 (k_ready s) \<and> invar2 (k_ready t) \<and> mset (k_ready s) = mset (k_ready t) \<and>
     k_seq s = k_seq t \<and> k_indegree s = k_indegree t \<and> k_placed s = k_placed t \<and> k_out s = k_out t \<and>
     distinct (map snd (k_ready s)) \<and> (\<forall>e \<in> set (k_ready s). snd e < k_seq s)"

lemma sim_push:
  assumes "sim s t"
  shows "sim (push_ready push1 s i) (push_ready push2 t i)"
proof -
  have "distinct (map snd (push1 (i, k_seq s) (k_ready s))) \<longleftrightarrow>
      distinct (map snd ((i, k_seq s) # k_ready s))"
    using q.mset_push by (metis mset.simps(2) mset_eq_imp_distinct_iff mset_map)
  with assms show ?thesis
    by (auto simp: sim_def push_ready_def q.invar_push r.invar_push q.mset_push r.mset_push q.set_push)
qed

lemma sim_release: "sim s t \<Longrightarrow> sim (release push1 s d) (release push2 t d)"
proof -
  assume *: "sim s t"
  let ?upd = "\<lambda>st. st\<lparr>k_indegree := (k_indegree st)[d := k_indegree st ! d - 1]\<rparr>"
  have "k_indegree s = k_indegree t" "sim (?upd s) (?upd t)" using * by (auto simp: sim_def)
  with sim_push [of "?upd s" "?upd t" d] show ?thesis
    by (cases "k_indegree t ! d = 1") (simp_all add: release_def Let_def)
qed

lemma sim_release_all: "sim s t \<Longrightarrow> sim (foldl (release push1) s ds) (foldl (release push2) t ds)"
  by (induction ds arbitrary: s t) (auto intro: sim_release)

lemma same_pop:
  assumes "sim s t" and "k_ready s \<noteq> []"
  shows "fst (pop1 (k_ready s)) = fst (pop2 (k_ready t))"
proof -
  let ?a = "fst (pop1 (k_ready s))" and ?b = "fst (pop2 (k_ready t))"
  from assms have s: "invar1 (k_ready s)" "invar2 (k_ready t)" "k_ready t \<noteq> []"
    "set (k_ready s) = set (k_ready t)" "distinct (map snd (k_ready s))"
    by (auto simp: sim_def dest: mset_eq_setD)
  have a: "?a \<in> set (k_ready s)" and b: "?b \<in> set (k_ready s)"
    using q.pop_in [OF s(1) assms(2)] r.pop_in [OF s(2,3)] s(4) by auto
  have "\<not> before ?b ?a" "\<not> before ?a ?b"
    using q.pop_min [OF s(1) assms(2) b] r.pop_min [OF s(2,3), of ?a] a s(4) by auto
  then have "snd ?a = snd ?b"
    using q.before_iff [of "fst ?a" "snd ?a" "fst ?b" "snd ?b"]
      q.before_iff [of "fst ?b" "snd ?b" "fst ?a" "snd ?a"] by auto
  with a b s(5) show ?thesis by (auto simp: distinct_map dest: inj_onD)
qed

lemma sim_step:
  assumes "sim s t" and "k_ready s \<noteq> []"
  shows "sim (kahn_step push1 pop1 deps s) (kahn_step push2 pop2 deps t)"
proof -
  let ?idx = "fst (fst (pop1 (k_ready s)))"
  let ?s = "s\<lparr>k_ready := snd (pop1 (k_ready s)), k_placed := (k_placed s)[?idx := True],
              k_out := k_out s @ [?idx]\<rparr>"
  let ?t = "t\<lparr>k_ready := snd (pop2 (k_ready t)), k_placed := (k_placed t)[?idx := True],
              k_out := k_out t @ [?idx]\<rparr>"
  from assms have s: "invar1 (k_ready s)" "invar2 (k_ready t)" "k_ready t \<noteq> []"
    by (auto simp: sim_def)
  have m: "mset (k_ready s) = add_mset (fst (pop1 (k_ready s))) (mset (snd (pop1 (k_ready s))))"
    by (rule q.mset_pop [OF s(1) assms(2)])
  have "mset (snd (pop1 (k_ready s))) = mset (snd (pop2 (k_ready t)))"
    using m r.mset_pop [OF s(2,3)] same_pop [OF assms] assms(1) by (simp add: sim_def)
  moreover have "distinct (map snd (fst (pop1 (k_ready s)) # snd (pop1 (k_ready s))))"
    using m assms(1) unfolding sim_def by (metis mset.simps(2) mset_eq_imp_distinct_iff mset_map)
  moreover have "\<forall>e \<in> set (snd (pop1 (k_ready s))). snd e < k_seq s"
    using q.set_pop [OF s(1) assms(2)] assms(1) unfolding sim_def by blast
  ultimately have "sim ?s ?t"
    using assms q.invar_pop [OF s(1) assms(2)] r.invar_pop [OF s(2,3)] by (auto simp: sim_def)
  from sim_release_all [OF this] same_pop [OF assms] show ?thesis
    by (simp add: kahn_step_def split_beta Let_def)
qed

lemma sim_init: "sim (init_ready push1 edges) (init_ready push2 edges)"
proof -
  let ?s0 = "\<lparr>k_ready = [], k_seq = 0, k_indegree = indegrees edges,
        k_placed = replicate (length edges) False, k_out = []\<rparr>"
  have "sim s t \<Longrightarrow>
      sim (foldl (\<lambda>st i. if k_indegree st ! i = 0 then push_ready push1 st i else st) s is)
        (foldl (\<lambda>st i. if k_indegree st ! i = 0 then push_ready push2 st i else st) t is)" for s t "is"
  proof (induction "is" arbitrary: s t)
    case (Cons i "is")
    then have "k_indegree s = k_indegree t" by (simp add: sim_def)
    with Cons show ?case using sim_push by auto
  qed simp
  moreover have "sim ?s0 ?s0" by (simp add: sim_def q.invar_Nil r.invar_Nil)
  ultimately show ?thesis by (simp add: init_ready_def)
qed

lemma kahn_same:
  "rel_option sim (kahn push1 pop1 edges) (kahn push2 pop2 edges)"
proof -
  let ?c = "\<lambda>(s, t). (kahn_step push1 pop1 (dependents edges) s, kahn_step push2 pop2 (dependents edges) t)"
  let ?b = "\<lambda>st. length (k_ready (fst st)) > 0"
  let ?init = "(init_ready push1 edges, init_ready push2 edges)"
  let ?P = "\<lambda>(s, t). sim s t"
  have step: "?P st \<Longrightarrow> ?b st \<Longrightarrow> ?P (?c st)" for st
    using sim_step by (auto split: prod.splits)
  have len: "?P st \<Longrightarrow> ?b st = (length (k_ready (snd st)) > 0)" for st
    by (auto simp: sim_def dest: mset_eq_length)
  let ?w = "while_option ?b ?c ?init"
  have "map_option fst ?w = kahn push1 pop1 edges"
    unfolding kahn_def
    by (subst while_option_commute_invariant [where P = ?P and f = fst
          and c' = "kahn_step push1 pop1 (dependents edges)"
          and b' = "\<lambda>st. length (k_ready st) > 0", OF step])
      (auto simp: sim_init split: prod.splits)
  moreover have "map_option snd ?w = kahn push2 pop2 edges"
    unfolding kahn_def
    by (subst while_option_commute_invariant [where P = ?P and f = snd and c' = "kahn_step push2 pop2 (dependents edges)"
          and b' = "\<lambda>st. length (k_ready st) > 0", OF step len])
      (auto simp: sim_init split: prod.splits)
  moreover have "?w = Some st \<Longrightarrow> ?P st" for st
    by (rule while_option_rule [where P = ?P]) (use step sim_init in auto)
  then have "rel_option sim (map_option fst ?w) (map_option snd ?w)" by (cases ?w) auto
  ultimately show ?thesis by simp
qed

end

end
