(* ===== verification/Order.thy ===== *)
theory Order
  imports Requisite Kahn
begin

text \<open>
  The run order (\<open>internal/state/order.go\<close>): the requisite graph, the preference of the ready set,
  the topological sort over the heap, the report of a cycle and the rewriting of requisite indices
  to run positions. The theorems show that the order is a permutation of the low state which
  respects every requisite, that compilation fails exactly when the requisites are cyclic and then
  names a real cycle, and that unconstrained states run in priority and declaration order.
\<close>

subsection \<open>The requisite graph\<close>

definition addEdge :: "nat \<Rightarrow> nat \<Rightarrow> nat list list \<Rightarrow> nat list list" where
  "addEdge before after edges =
     (if before = after then edges
      else if before \<in> set (edges ! after) then edges
      else edges[after := edges ! after @ [before]])"

definition requisiteTargets :: "Req \<Rightarrow> Chunk \<Rightarrow> bool" where
  "requisiteTargets req to =
     list_ex (\<lambda>ref. ref_ID ref = ch_ID to \<or> (ref_SLS ref \<noteq> [] \<and> ref_SLS ref = ch_SLS to)) (req_Refs req)"

definition kindBetween :: "Chunk \<Rightarrow> Chunk \<Rightarrow> string" where
  "kindBetween from to =
     (case find (\<lambda>req. requisiteTargets req to) (ch_Reqs from) of
        Some req \<Rightarrow> ReqKind_String (req_Kind req)
      | None \<Rightarrow> ''requires'')"

definition renderCycle :: "Chunk list \<Rightarrow> nat list \<Rightarrow> string" where
  "renderCycle chunks cyc =
     concat (map (\<lambda>i. let from = chunks ! (cyc ! i); to = chunks ! (cyc ! (i + 1)) in
                   (if i > 0 then '' -> '' else []) @ ch_ID from @ '' -> '' @ kindBetween from to)
             [0..<length cyc - 1])
     @ '' -> '' @ ch_ID (chunks ! (cyc ! (length cyc - 1)))"

record graph =
  g_edges :: "nat list list"
  g_self :: "bool list"
  g_diags :: Diags

definition graph_target :: "Chunk list \<Rightarrow> nat \<Rightarrow> ReqKind \<Rightarrow> graph \<Rightarrow> nat \<Rightarrow> graph" where
  "graph_target chunks i kind g target =
     (let c = chunks ! i;
          g1 = (if target = i \<and> kind \<noteq> Listen \<and> kind \<noteq> Use \<and> \<not> g_self g ! i
                then g\<lparr>g_self := (g_self g)[i := True],
                       g_diags := Diags_Add (ch_Pos c) (ch_SLS c) (ch_ID c) ''requisite cycle: %s''
                                    [FStr (renderCycle chunks [i, i])] (g_diags g)\<rparr>
                else g)
      in case kind of
           Prereq \<Rightarrow> g1\<lparr>g_edges := addEdge i target (g_edges g1)\<rparr>
         | Listen \<Rightarrow> g1
         | Use \<Rightarrow> g1
         | _ \<Rightarrow> g1\<lparr>g_edges := addEdge target i (g_edges g1)\<rparr>)"

definition graph_chunk :: "Chunk list \<Rightarrow> graph \<Rightarrow> nat \<Rightarrow> graph" where
  "graph_chunk chunks g i =
     foldl (\<lambda>g req. foldl (graph_target chunks i (req_Kind req)) g (req_Resolved req)) g
       (ch_Reqs (chunks ! i))"

definition build_graph :: "Chunk list \<Rightarrow> Diags \<Rightarrow> graph" where
  "build_graph chunks diags =
     foldl (graph_chunk chunks)
       \<lparr>g_edges = replicate (length chunks) [], g_self = replicate (length chunks) False,
        g_diags = diags\<rparr>
       [0..<length chunks]"

subsection \<open>The preference\<close>

definition priority :: "Chunk \<Rightarrow> int \<times> int \<times> int \<times> int" where
  "priority c =
     (case o_OrderMode (ch_Opts c) of
        OrderExplicit \<Rightarrow> (0, o_OrderValue (ch_Opts c), ch_DeclOrder c, ch_SeqOrder c)
      | OrderLast \<Rightarrow> (2, 0, ch_DeclOrder c, ch_SeqOrder c)
      | OrderNone \<Rightarrow> (1, 0, ch_DeclOrder c, ch_SeqOrder c))"

definition order_less :: "Chunk list \<Rightarrow> nat \<Rightarrow> nat \<Rightarrow> bool" where
  "order_less chunks a b =
     (case (priority (chunks ! a), priority (chunks ! b)) of
        ((am, av, ad, as), (bm, bv, bd, bs)) \<Rightarrow>
          if am \<noteq> bm then am < bm
          else if av \<noteq> bv then av < bv
          else if ad \<noteq> bd then ad < bd
          else as < bs)"

definition order_before :: "Chunk list \<Rightarrow> ready_entry \<Rightarrow> ready_entry \<Rightarrow> bool" where
  "order_before chunks a b =
     (if order_less chunks (fst a) (fst b) then True
      else if order_less chunks (fst b) (fst a) then False
      else snd a < snd b)"

subsection \<open>Reporting a cycle\<close>

datatype color = White | Grey | Black

text \<open>The depth-first search. The first argument bounds the depth of the recursion; every nested
  call turns a white chunk grey, so the number of chunks is enough.\<close>

fun walk :: "nat list list \<Rightarrow> bool list \<Rightarrow> nat \<Rightarrow> nat \<Rightarrow> color list \<times> nat list
               \<Rightarrow> nat list option \<times> color list \<times> nat list"
  and walk_edges :: "nat list list \<Rightarrow> bool list \<Rightarrow> nat \<Rightarrow> nat \<Rightarrow> nat list \<Rightarrow> color list \<times> nat list
               \<Rightarrow> nat list option \<times> color list \<times> nat list" where
  "walk edges placed 0 i st = (None, st)"
| "walk edges placed (Suc fuel) i (col, stack) =
     walk_edges edges placed fuel i (edges ! i) (col[i := Grey], stack @ [i])"
| "walk_edges edges placed fuel i [] (col, stack) =
     (None, col[i := Black], take (length stack - 1) stack)"
| "walk_edges edges placed fuel i (before # bs) (col, stack) =
     (if placed ! before then walk_edges edges placed fuel i bs (col, stack)
      else case (if col ! before = Grey then find_index (\<lambda>x. x = before) stack else None) of
        Some s \<Rightarrow> (Some (drop s stack @ [before]), col, stack)
      | None \<Rightarrow>
          if col ! before = White then
            (case walk edges placed fuel before (col, stack) of
               (Some cyc, st) \<Rightarrow> (Some cyc, st)
             | (None, st) \<Rightarrow> walk_edges edges placed fuel i bs st)
          else walk_edges edges placed fuel i bs (col, stack))"

fun find_cycle :: "nat list list \<Rightarrow> bool list \<Rightarrow> nat list \<Rightarrow> color list \<times> nat list \<Rightarrow> nat list option" where
  "find_cycle edges placed [] st = None"
| "find_cycle edges placed (i # is) (col, stack) =
     (if placed ! i \<or> col ! i \<noteq> White then find_cycle edges placed is (col, stack)
      else case walk edges placed (length edges) i (col, []) of
        (Some cyc, _) \<Rightarrow> Some cyc
      | (None, st) \<Rightarrow> find_cycle edges placed is st)"

definition reportCycle :: "Chunk list \<Rightarrow> nat list list \<Rightarrow> bool list \<Rightarrow> Diags \<Rightarrow> Diags" where
  "reportCycle chunks edges placed diags =
     (case find_cycle edges placed [0..<length chunks] (replicate (length chunks) White, []) of
        Some cyc \<Rightarrow>
          (let c = chunks ! (cyc ! 0) in
           Diags_Add (ch_Pos c) (ch_SLS c) (ch_ID c) ''requisite cycle: %s''
             [FStr (renderCycle chunks cyc)] diags)
      | None \<Rightarrow>
          Diags_Add zero_pos [] [] ''requisite cycle among: %s''
            [FStr (str_join '', '' (map (\<lambda>i. Chunk_Describe (chunks ! i))
                (filter (\<lambda>i. \<not> placed ! i) [0..<length chunks])))] diags)"

subsection \<open>The order\<close>

text \<open>A chunk is a pointer in the code; its identity here is its index in the declaration-ordered
  list, and the run order is a list of those indices.\<close>

definition remap_index :: "nat \<Rightarrow> nat list \<Rightarrow> nat \<Rightarrow> nat" where
  "remap_index n out old =
     (if old \<ge> n then old
      else case find_index (\<lambda>x. x = old) out of Some newPos \<Rightarrow> newPos | None \<Rightarrow> old)"

definition remapResolved :: "nat \<Rightarrow> nat list \<Rightarrow> Chunk list \<Rightarrow> Chunk list" where
  "remapResolved n out after =
     map (\<lambda>c. c\<lparr>ch_Reqs := map (\<lambda>r. r\<lparr>req_Resolved := map (remap_index n out) (req_Resolved r)\<rparr>)
                             (ch_Reqs c)\<rparr>) after"

definition place :: "Chunk list \<Rightarrow> nat list \<Rightarrow> Chunk list" where
  "place chunks out = map (\<lambda>(k, idx). (chunks ! idx)\<lparr>ch_RunNum := int k\<rparr>) (enumerate 0 out)"

text \<open>The run order as indices, with the diagnostics. \<open>None\<close> stands for a loop that does not end,
  which the theorems below exclude.\<close>

definition order_indices :: "Chunk list \<Rightarrow> Diags \<Rightarrow> (nat list \<times> Diags) option" where
  "order_indices chunks diags =
     (let g = build_graph chunks diags; bef = order_before chunks in
      case kahn (heap_push bef) (heap_pop bef) (g_edges g) of
        None \<Rightarrow> None
      | Some st \<Rightarrow>
          if length (k_out st) \<noteq> length chunks then
            Some (k_out st @ sort_key (\<lambda>i. priority (chunks ! i))
                               (filter (\<lambda>i. \<not> k_placed st ! i) [0..<length chunks]),
                  reportCycle chunks (g_edges g) (k_placed st) (g_diags g))
          else Some (k_out st, g_diags g))"

definition order :: "Chunk list \<Rightarrow> Diags \<Rightarrow> (Chunk list \<times> Diags) option" where
  "order chunks diags =
     (if length chunks = 0 then Some (chunks, diags)
      else case order_indices chunks diags of
        None \<Rightarrow> None
      | Some (out, diags1) \<Rightarrow>
          Some (remapResolved (length chunks) out (place chunks out), diags1))"

subsection \<open>The ready set of the order\<close>

lemma order_less_iff: "order_less chunks a b \<longleftrightarrow> priority (chunks ! a) < priority (chunks ! b)"
  by (auto simp: order_less_def split: prod.splits)

lemma order_before_iff:
  "order_before chunks (a, s) (b, t) \<longleftrightarrow>
     priority (chunks ! a) < priority (chunks ! b) \<or>
     (priority (chunks ! a) = priority (chunks ! b) \<and> s < t)"
  by (auto simp: order_before_def order_less_iff)

interpretation pref: preference "order_before chunks" for chunks
proof
  show "\<not> order_before chunks y x \<Longrightarrow> \<not> order_before chunks z y \<Longrightarrow> \<not> order_before chunks z x" for x y z
    by (cases x; cases y; cases z) (auto simp: order_before_iff)
  show "order_before chunks x y \<Longrightarrow> \<not> order_before chunks y x" for x y
    by (cases x; cases y) (auto simp: order_before_iff)
qed

interpretation hp: ready_chunks "order_before chunks" "heap_push (order_before chunks)"
  "heap_pop (order_before chunks)" "pref.heap chunks" "\<lambda>i. priority (chunks ! i)" for chunks
  by unfold_locales (rule order_before_iff)

interpretation rp: ready_pair "order_before chunks" "heap_push (order_before chunks)"
  "heap_pop (order_before chunks)" "pref.heap chunks"
  scan_push "scan_pop (order_before chunks)" "\<lambda>_. True" "\<lambda>i. priority (chunks ! i)" for chunks
  by unfold_locales (rule order_before_iff)

subsection \<open>What the requisites ask of the order\<close>

text \<open>Every resolved requisite, as the chunk that declares it, its kind and its target; and the pair
  (earlier, later) it asks for.\<close>

definition hops :: "Chunk list \<Rightarrow> (nat \<times> ReqKind \<times> nat) list" where
  "hops chunks =
     concat (map (\<lambda>i. concat (map (\<lambda>r. map (\<lambda>t. (i, req_Kind r, t)) (req_Resolved r)) (ch_Reqs (chunks ! i))))
       [0..<length chunks])"

fun constraint :: "nat \<times> ReqKind \<times> nat \<Rightarrow> (nat \<times> nat) option" where
  "constraint (i, Prereq, t) = Some (i, t)"
| "constraint (i, Listen, t) = None"
| "constraint (i, Use, t) = None"
| "constraint (i, _, t) = Some (t, i)"

definition must_precede :: "Chunk list \<Rightarrow> (nat \<times> nat) set" where
  "must_precede chunks = {(b, a). \<exists>h \<in> set (hops chunks). constraint h = Some (b, a)}"

definition resolved_in_range :: "Chunk list \<Rightarrow> bool" where
  "resolved_in_range chunks \<longleftrightarrow>
     list_all (\<lambda>c. list_all (\<lambda>r. list_all (\<lambda>t. t < length chunks) (req_Resolved r)) (ch_Reqs c)) chunks"

lemma set_hops:
  "(i, k, t) \<in> set (hops chunks) \<longleftrightarrow>
     i < length chunks \<and> (\<exists>r \<in> set (ch_Reqs (chunks ! i)). k = req_Kind r \<and> t \<in> set (req_Resolved r))"
  by (auto simp: hops_def image_iff Bex_def)

lemma hops_in_range:
  "resolved_in_range chunks \<Longrightarrow> (i, k, t) \<in> set (hops chunks) \<Longrightarrow> i < length chunks \<and> t < length chunks"
  by (fastforce simp: set_hops resolved_in_range_def list_all_iff dest: nth_mem)

definition graph_hop :: "Chunk list \<Rightarrow> graph \<Rightarrow> nat \<times> ReqKind \<times> nat \<Rightarrow> graph" where
  "graph_hop chunks g = (\<lambda>(i, k, t). graph_target chunks i k g t)"

lemma foldl_concat_map: "foldl f s (concat (map g xs)) = foldl (\<lambda>s x. foldl f s (g x)) s xs"
  by (induction xs arbitrary: s) auto

lemma build_graph_hops:
  "build_graph chunks diags =
     foldl (graph_hop chunks)
       \<lparr>g_edges = replicate (length chunks) [], g_self = replicate (length chunks) False, g_diags = diags\<rparr>
       (hops chunks)"
proof -
  have "graph_chunk chunks = (\<lambda>g i.
      foldl (graph_hop chunks) g
        (concat (map (\<lambda>r. map (\<lambda>t. (i, req_Kind r, t)) (req_Resolved r)) (ch_Reqs (chunks ! i)))))"
    by (simp add: fun_eq_iff graph_chunk_def foldl_concat_map foldl_map graph_hop_def)
  then show ?thesis by (simp add: build_graph_def hops_def foldl_concat_map)
qed

lemma addEdge_ok:
  assumes "edges_ok edges" and "b < length edges" and "a < length edges"
  shows "edges_ok (addEdge b a edges) \<and> length (addEdge b a edges) = length edges \<and>
     (\<forall>i < length edges. set (addEdge b a edges ! i) = set (edges ! i) \<union> (if i = a \<and> b \<noteq> a then {b} else {}))"
  using assms by (auto simp: edges_ok_def addEdge_def nth_list_update)

text \<open>A hop of one chunk to itself that is neither \<open>listen\<close> nor \<open>use\<close>.\<close>

definition self_hop :: "nat \<times> ReqKind \<times> nat \<Rightarrow> nat \<Rightarrow> bool" where
  "self_hop h j \<longleftrightarrow> constraint h = Some (j, j)"

lemma self_hop_iff: "self_hop (i, k, t) j \<longleftrightarrow> i = j \<and> t = j \<and> k \<noteq> Listen \<and> k \<noteq> Use"
  by (cases k) (auto simp: self_hop_def)

lemma graph_hop_edges:
  "g_edges (graph_hop chunks g h) =
     (case constraint h of None \<Rightarrow> g_edges g | Some (b, a) \<Rightarrow> addEdge b a (g_edges g))"
proof -
  obtain i k t where "h = (i, k, t)" by (cases h)
  then show ?thesis by (cases k) (simp_all add: graph_hop_def graph_target_def Let_def)
qed

lemma graph_hop_self:
  "g_self (graph_hop chunks g (i, k, t)) =
     (if self_hop (i, k, t) i \<and> \<not> g_self g ! i then (g_self g)[i := True] else g_self g)"
  "HasErrors (g_diags (graph_hop chunks g (i, k, t))) \<longleftrightarrow>
     HasErrors (g_diags g) \<or> (self_hop (i, k, t) i \<and> \<not> g_self g ! i)"
  by (cases k; auto simp: graph_hop_def graph_target_def Let_def self_hop_iff)+

definition graph_ok :: "nat \<Rightarrow> Diags \<Rightarrow> (nat \<times> ReqKind \<times> nat) set \<Rightarrow> graph \<Rightarrow> bool" where
  "graph_ok n diags H g \<longleftrightarrow>
     length (g_edges g) = n \<and> length (g_self g) = n \<and> edges_ok (g_edges g) \<and>
     (\<forall>a < n. set (g_edges g ! a) = {b. b \<noteq> a \<and> (\<exists>h \<in> H. constraint h = Some (b, a))}) \<and>
     (\<forall>i < n. g_self g ! i \<longleftrightarrow> (\<exists>h \<in> H. self_hop h i)) \<and>
     (HasErrors (g_diags g) \<longleftrightarrow> HasErrors diags \<or> (\<exists>i < n. \<exists>h \<in> H. self_hop h i))"

lemma graph_ok_hop:
  assumes "graph_ok n diags H g" and "i < n" and "t < n"
  shows "graph_ok n diags (insert (i, k, t) H) (graph_hop chunks g (i, k, t))"
proof -
  have e: "edges_ok (g_edges (graph_hop chunks g (i, k, t))) \<and>
      length (g_edges (graph_hop chunks g (i, k, t))) = n \<and>
      (\<forall>a < n. set (g_edges (graph_hop chunks g (i, k, t)) ! a) =
        {b. b \<noteq> a \<and> (\<exists>h \<in> insert (i, k, t) H. constraint h = Some (b, a))})"
  proof (cases "constraint (i, k, t)")
    case None
    with assms show ?thesis by (simp add: graph_hop_edges graph_ok_def)
  next
    case (Some ba)
    then obtain b a where ba: "ba = (b, a)" "b < n" "a < n" using assms by (cases k) auto
    from addEdge_ok [of "g_edges g" b a] ba Some assms(1) show ?thesis
      by (auto simp: graph_hop_edges graph_ok_def)
  qed
  have s: "self_hop (i, k, t) j \<Longrightarrow> j = i" for j by (simp add: self_hop_iff)
  show ?thesis
    using e assms s by (auto simp: graph_ok_def graph_hop_self nth_list_update)
qed

lemma build_graph_ok:
  assumes "resolved_in_range chunks"
  shows "graph_ok (length chunks) diags (set (hops chunks)) (build_graph chunks diags)"
proof -
  let ?g0 = "\<lparr>g_edges = replicate (length chunks) [], g_self = replicate (length chunks) False, g_diags = diags\<rparr>"
  have "set hs \<subseteq> set (hops chunks) \<Longrightarrow>
      graph_ok (length chunks) diags (set hs) (foldl (graph_hop chunks) ?g0 hs)" for hs
  proof (induction hs rule: rev_induct)
    case Nil
    then show ?case by (simp add: graph_ok_def edges_ok_def)
  next
    case (snoc h hs)
    obtain i k t where h: "h = (i, k, t)" by (cases h)
    with snoc hops_in_range [OF assms, of i k t] graph_ok_hop [of _ diags "set hs" _ i t k chunks]
    show ?case by simp
  qed
  then show ?thesis by (simp add: build_graph_hops)
qed

lemma build_graph_spec:
  fixes diags :: Diags
  assumes "resolved_in_range chunks"
  defines "g \<equiv> build_graph chunks diags"
  shows "length (g_edges g) = length chunks"
    and "edges_ok (g_edges g)"
    and "a < length chunks \<Longrightarrow> b \<in> set (g_edges g ! a) \<longleftrightarrow> b \<noteq> a \<and> (b, a) \<in> must_precede chunks"
    and "HasErrors (g_diags g) \<longleftrightarrow> HasErrors diags \<or> (\<exists>i. (i, i) \<in> must_precede chunks)"
proof -
  note ok = build_graph_ok [OF assms(1), of diags, folded g_def]
  show "length (g_edges g) = length chunks" "edges_ok (g_edges g)"
    and "a < length chunks \<Longrightarrow> b \<in> set (g_edges g ! a) \<longleftrightarrow> b \<noteq> a \<and> (b, a) \<in> must_precede chunks"
    using ok by (simp_all add: graph_ok_def must_precede_def)
  have "i < length chunks" if "h \<in> set (hops chunks)" "self_hop h i" for h i
  proof -
    obtain j k t where h: "h = (j, k, t)" by (cases h)
    with that hops_in_range [OF assms(1), of j k t] show ?thesis by (simp add: self_hop_iff)
  qed
  then have "(\<exists>i < length chunks. \<exists>h \<in> set (hops chunks). self_hop h i) \<longleftrightarrow>
      (\<exists>i. \<exists>h \<in> set (hops chunks). self_hop h i)" by blast
  moreover have "HasErrors (g_diags g) \<longleftrightarrow>
      HasErrors diags \<or> (\<exists>i < length chunks. \<exists>h \<in> set (hops chunks). self_hop h i)"
    using ok by (simp only: graph_ok_def)
  ultimately show "HasErrors (g_diags g) \<longleftrightarrow> HasErrors diags \<or> (\<exists>i. (i, i) \<in> must_precede chunks)"
    by (simp only: must_precede_def self_hop_def mem_Collect_eq split_conv)
qed

subsection \<open>The search for a cycle\<close>

definition hop_chain :: "nat list list \<Rightarrow> nat list \<Rightarrow> bool" where
  "hop_chain edges xs \<longleftrightarrow> successively (\<lambda>x y. y \<in> set (edges ! x)) xs"

text \<open>A closed walk along the edges through chunks that were not placed.\<close>

definition is_cycle :: "nat list list \<Rightarrow> bool list \<Rightarrow> nat list \<Rightarrow> bool" where
  "is_cycle edges placed cyc \<longleftrightarrow>
     2 \<le> length cyc \<and> hd cyc = last cyc \<and> hop_chain edges cyc \<and>
     (\<forall>x \<in> set cyc. x < length edges \<and> \<not> placed ! x)"

text \<open>Every chunk that was not placed waits for another one that was not placed.\<close>

definition stuck :: "nat list list \<Rightarrow> bool list \<Rightarrow> bool" where
  "stuck edges placed \<longleftrightarrow>
     (\<forall>i < length edges. \<not> placed ! i \<longrightarrow>
        (\<exists>b \<in> set (edges ! i). b < length edges \<and> \<not> placed ! b))"

definition walk_inv :: "nat list list \<Rightarrow> bool list \<Rightarrow> color list \<Rightarrow> nat list \<Rightarrow> bool" where
  "walk_inv edges placed col stack \<longleftrightarrow>
     length col = length edges \<and> (\<forall>j < length edges. col ! j \<noteq> Black) \<and>
     (\<forall>j < length edges. col ! j = Grey \<longleftrightarrow> j \<in> set stack) \<and> hop_chain edges stack \<and>
     (\<forall>x \<in> set stack. x < length edges \<and> \<not> placed ! x)"

definition whites :: "color list \<Rightarrow> nat" where
  "whites col = card {j. j < length col \<and> col ! j = White}"

lemma whites_grey: "i < length col \<Longrightarrow> col ! i = White \<Longrightarrow> whites col = Suc (whites (col[i := Grey]))"
proof -
  assume i: "i < length col" "col ! i = White"
  then have "{j. j < length col \<and> col ! j = White} =
      insert i {j. j < length (col[i := Grey]) \<and> col[i := Grey] ! j = White}"
    by (auto simp: nth_list_update)
  then show ?thesis using i by (simp add: whites_def)
qed

lemma whites_pos: "i < length col \<Longrightarrow> col ! i = White \<Longrightarrow> 0 < whites col"
  using whites_grey by simp

lemma hop_chain_snoc:
  "hop_chain edges (xs @ [x]) \<longleftrightarrow> hop_chain edges xs \<and> (xs = [] \<or> x \<in> set (edges ! last xs))"
  by (auto simp: hop_chain_def successively_append_iff)

lemma hop_chain_drop: "hop_chain edges xs \<Longrightarrow> hop_chain edges (drop n xs)"
  unfolding hop_chain_def by (metis append_take_drop_id successively_append_iff)

lemma walk_inv_push:
  assumes "walk_inv edges placed col stack" and "i < length edges" and "\<not> placed ! i"
    and "stack = [] \<or> i \<in> set (edges ! last stack)"
  shows "walk_inv edges placed (col[i := Grey]) (stack @ [i])"
  using assms by (auto simp: walk_inv_def hop_chain_snoc nth_list_update)

text \<open>A grey chunk is on the stack, and closes a cycle.\<close>

lemma grey_closes:
  assumes inv: "walk_inv edges placed col stack" and b: "b < length edges" "col ! b = Grey"
    and edge: "b \<in> set (edges ! last stack)"
  shows "\<exists>s. find_index (\<lambda>x. x = b) stack = Some s \<and> is_cycle edges placed (drop s stack @ [b])"
proof -
  from inv b have "b \<in> set stack" by (simp add: walk_inv_def)
  then obtain s where s: "find_index (\<lambda>x. x = b) stack = Some s"
    by (cases "find_index (\<lambda>x. x = b) stack") (auto simp: find_index_None)
  from find_index_Some [OF s] have s': "s < length stack" "stack ! s = b" by auto
  then have "is_cycle edges placed (drop s stack @ [b])"
    using inv edge unfolding is_cycle_def walk_inv_def
    by (auto simp: hop_chain_snoc hop_chain_drop hd_drop_conv_nth dest: in_set_dropD)
  with s show ?thesis by blast
qed

lemma walk_edges_finds:
  assumes walk: "\<And>b col stack. walk_inv edges placed col stack \<Longrightarrow> b < length edges \<Longrightarrow> \<not> placed ! b \<Longrightarrow>
      col ! b = White \<Longrightarrow> stack = [] \<or> b \<in> set (edges ! last stack) \<Longrightarrow> whites col \<le> fuel \<Longrightarrow>
      \<exists>cyc st. walk edges placed fuel b (col, stack) = (Some cyc, st) \<and> is_cycle edges placed cyc"
    and inv: "walk_inv edges placed col stack" and i: "stack \<noteq> []" "last stack = i"
    and bs: "set bs \<subseteq> set (edges ! i)" "set bs \<subseteq> {..<length edges}" "\<exists>b \<in> set bs. \<not> placed ! b"
    and fuel: "whites col \<le> fuel"
  shows "\<exists>cyc st. walk_edges edges placed fuel i bs (col, stack) = (Some cyc, st) \<and> is_cycle edges placed cyc"
  using bs
proof (induction bs)
  case (Cons b bs)
  show ?case
  proof (cases "placed ! b")
    case True
    with Cons show ?thesis by auto
  next
    case False
    have b: "b < length edges" "b \<in> set (edges ! last stack)" using Cons.prems i by auto
    consider "col ! b = White" | "col ! b = Grey" using inv b(1) by (cases "col ! b") (auto simp: walk_inv_def)
    then show ?thesis
    proof cases
      case 1
      with walk [OF inv b(1) False 1 _ fuel] b(2) obtain cyc st
        where "walk edges placed fuel b (col, stack) = (Some cyc, st)" "is_cycle edges placed cyc" by blast
      with False 1 show ?thesis by simp
    next
      case 2
      with grey_closes [OF inv b(1) 2 b(2)] False show ?thesis by auto
    qed
  qed
qed simp

lemma walk_finds:
  assumes "edges_ok edges" and "stuck edges placed"
    and "walk_inv edges placed col stack" and "i < length edges" and "\<not> placed ! i"
    and "col ! i = White" and "stack = [] \<or> i \<in> set (edges ! last stack)" and "whites col \<le> fuel"
  shows "\<exists>cyc st. walk edges placed fuel i (col, stack) = (Some cyc, st) \<and> is_cycle edges placed cyc"
  using assms(3-)
proof (induction fuel arbitrary: i col stack)
  case 0
  with whites_pos [of i col] show ?case by (simp add: walk_inv_def)
next
  case (Suc fuel)
  have len: "i < length col" using Suc.prems by (simp add: walk_inv_def)
  have some: "\<exists>b \<in> set (edges ! i). \<not> placed ! b"
    using assms(2) Suc.prems(2,3) by (auto simp: stuck_def)
  have range: "set (edges ! i) \<subseteq> {..<length edges}"
    using assms(1) Suc.prems(2) by (simp add: edges_ok_def)
  have fuel: "whites (col[i := Grey]) \<le> fuel"
    using whites_grey [OF len Suc.prems(4)] Suc.prems(6) by simp
  have inv: "walk_inv edges placed (col[i := Grey]) (stack @ [i])"
    by (rule walk_inv_push [OF Suc.prems(1,2,3,5)])
  show ?case
    unfolding walk.simps
  proof (rule walk_edges_finds [OF _ inv _ _ _ range some fuel])
    fix b col stack
    assume "walk_inv edges placed col stack" "b < length edges" "\<not> placed ! b" "col ! b = White"
      "stack = [] \<or> b \<in> set (edges ! last stack)" "whites col \<le> fuel"
    then show "\<exists>cyc st. walk edges placed fuel b (col, stack) = (Some cyc, st) \<and> is_cycle edges placed cyc"
      by (rule Suc.IH)
  qed simp_all
qed

lemma find_cycle_finds:
  assumes "edges_ok edges" and "stuck edges placed" and "\<exists>i \<in> set is. \<not> placed ! i"
    and "set is \<subseteq> {..<length edges}"
  shows "\<exists>cyc. find_cycle edges placed is (replicate (length edges) White, []) = Some cyc
           \<and> is_cycle edges placed cyc"
  using assms(3,4)
proof (induction "is")
  case (Cons i "is")
  have inv: "walk_inv edges placed (replicate (length edges) White) []"
    by (simp add: walk_inv_def hop_chain_def)
  have fuel: "whites (replicate (length edges) White) \<le> length edges"
    using card_mono [of "{..<length edges}" "{j. j < length edges \<and> replicate (length edges) White ! j = White}"]
    by (auto simp: whites_def)
  show ?case
  proof (cases "placed ! i")
    case True
    with Cons show ?thesis by simp
  next
    case False
    have "i < length edges" using Cons.prems by simp
    with walk_finds [OF assms(1,2) inv this False _ _ fuel] False show ?thesis by auto
  qed
qed simp

text \<open>A cycle the search names is a cycle of the requisites.\<close>

definition requisite_cycle :: "Chunk list \<Rightarrow> nat list \<Rightarrow> bool" where
  "requisite_cycle chunks cyc \<longleftrightarrow>
     2 \<le> length cyc \<and> hd cyc = last cyc \<and> successively (\<lambda>x y. (y, x) \<in> must_precede chunks) cyc"

lemma successively_trancl:
  "successively (\<lambda>x y. (y, x) \<in> R) xs \<Longrightarrow> 2 \<le> length xs \<Longrightarrow> (last xs, hd xs) \<in> R\<^sup>+"
proof (induction xs rule: induct_list012)
  case (3 x y zs)
  show ?case
  proof (cases zs)
    case Nil
    with 3 show ?thesis by auto
  next
    case (Cons z zs')
    with 3 have "(last (y # zs), y) \<in> R\<^sup>+" "(y, x) \<in> R" by auto
    with Cons show ?thesis by (auto intro: trancl_trans)
  qed
qed simp_all

lemma requisite_cycle_not_acyclic: "requisite_cycle chunks cyc \<Longrightarrow> \<not> acyclic (must_precede chunks)"
  using successively_trancl [of "must_precede chunks" cyc] by (auto simp: requisite_cycle_def acyclic_def)

subsection \<open>The diagnostics of the graph\<close>

definition names_cycle :: "Chunk list \<Rightarrow> Diag \<Rightarrow> bool" where
  "names_cycle chunks d \<longleftrightarrow> \<not> diag_Warning d \<and>
     (\<exists>cyc. diag_Fmt d = ''requisite cycle: %s'' \<and> diag_Args d = [FStr (renderCycle chunks cyc)]
        \<and> requisite_cycle chunks cyc)"

lemma graph_hop_diags:
  assumes "h \<in> set (hops chunks)"
  shows "\<exists>new. g_diags (graph_hop chunks g h) = g_diags g @ new \<and> (\<forall>d \<in> set new. names_cycle chunks d)"
proof -
  obtain i k t where h: "h = (i, k, t)" by (cases h)
  show ?thesis
  proof (cases "t = i \<and> k \<noteq> Listen \<and> k \<noteq> Use \<and> \<not> g_self g ! i")
    case True
    then have "self_hop h i" by (simp add: h self_hop_iff)
    with assms have "requisite_cycle chunks [i, i]"
      by (auto simp: requisite_cycle_def must_precede_def self_hop_def)
    with True show ?thesis
      by (cases k) (auto simp: h graph_hop_def graph_target_def Let_def Diags_Add_def mk_diag_def names_cycle_def)
  next
    case False
    then show ?thesis
      by (cases k) (auto simp: h graph_hop_def graph_target_def Let_def)
  qed
qed

lemma build_graph_diags:
  "\<exists>new. g_diags (build_graph chunks diags) = diags @ new \<and> (\<forall>d \<in> set new. names_cycle chunks d)"
proof -
  have "set hs \<subseteq> set (hops chunks) \<Longrightarrow>
      \<exists>new. g_diags (foldl (graph_hop chunks) g hs) = g_diags g @ new \<and> (\<forall>d \<in> set new. names_cycle chunks d)" for g hs
  proof (induction hs arbitrary: g)
    case (Cons h hs)
    obtain new1 where "g_diags (graph_hop chunks g h) = g_diags g @ new1" "\<forall>d \<in> set new1. names_cycle chunks d"
      using graph_hop_diags [of h chunks g] Cons.prems by auto
    moreover obtain new2 where "g_diags (foldl (graph_hop chunks) (graph_hop chunks g h) hs) =
        g_diags (graph_hop chunks g h) @ new2" "\<forall>d \<in> set new2. names_cycle chunks d"
      using Cons.IH [of "graph_hop chunks g h"] Cons.prems by auto
    ultimately show ?case by (intro exI [of _ "new1 @ new2"]) auto
  qed simp
  from this [of "hops chunks" "\<lparr>g_edges = replicate (length chunks) [],
      g_self = replicate (length chunks) False, g_diags = diags\<rparr>"]
  show ?thesis by (simp add: build_graph_hops)
qed

subsection \<open>The sort\<close>

text \<open>What the loop leaves: its output, and the chunks it could not place.\<close>

lemma kahn_order:
  fixes diags :: Diags
  assumes "resolved_in_range chunks"
  defines "edges \<equiv> g_edges (build_graph chunks diags)"
  obtains st where "kahn (heap_push (order_before chunks)) (heap_pop (order_before chunks)) edges = Some st"
    and "hp.kinv chunks edges st" and "k_ready st = []"
    and "distinct (k_out st)" and "set (k_out st) \<subseteq> {..<length chunks}"
    and "\<And>i. i < length chunks \<Longrightarrow> k_placed st ! i \<longleftrightarrow> i \<in> set (k_out st)"
    and "stuck edges (k_placed st)"
proof -
  note g = build_graph_spec [OF assms(1), where diags = diags, folded edges_def]
  from hp.kahn_result [OF g(2)] obtain st
    where st: "kahn (heap_push (order_before chunks)) (heap_pop (order_before chunks)) edges = Some st"
      "hp.kinv chunks edges st" "k_ready st = []" .
  note k = hp.kinvD [OF st(2)]
  have placed: "k_placed st ! i \<longleftrightarrow> i \<in> set (k_out st)" if "i < length chunks" for i
    using k(6) that g(1) by simp
  have "\<exists>b \<in> set (edges ! i). b < length edges \<and> \<not> k_placed st ! b"
    if "i < length edges" "\<not> k_placed st ! i" for i
  proof -
    from that k(6,8) [OF that(1)] st(3) obtain b where "b \<in> set (edges ! i)" "b \<notin> set (k_out st)" by auto
    moreover have "b < length edges" using g(2) that(1) calculation(1) by (auto simp: edges_ok_def)
    ultimately show ?thesis using placed g(1) by auto
  qed
  then have "stuck edges (k_placed st)" by (simp add: stuck_def)
  with st placed k(4,5) g(1) show ?thesis by (intro that) auto
qed

lemma cycle_of_edges:
  assumes "resolved_in_range chunks" and "is_cycle (g_edges (build_graph chunks diags)) placed cyc"
  shows "requisite_cycle chunks cyc"
proof -
  note g = build_graph_spec [OF assms(1), where diags = diags]
  have "successively (\<lambda>x y. (y, x) \<in> must_precede chunks) cyc"
  proof (rule successively_mono)
    show "successively (\<lambda>x y. y \<in> set (g_edges (build_graph chunks diags) ! x)) cyc"
      using assms(2) by (simp add: is_cycle_def hop_chain_def)
    show "(y, x) \<in> must_precede chunks"
      if "x \<in> set cyc" "y \<in> set (g_edges (build_graph chunks diags) ! x)" for x y
      using that assms(2) g(1) g(3) [of x y] by (simp add: is_cycle_def)
  qed
  with assms(2) show ?thesis by (simp add: is_cycle_def requisite_cycle_def)
qed

text \<open>A list that places every earlier chunk of a pair before the later one.\<close>

lemma ordered_acyclic:
  assumes out: "\<And>b a. (b, a) \<in> R \<Longrightarrow> \<exists>p < length out. out ! p = a \<and> b \<in> set (take p out)"
    and "distinct out"
  shows "acyclic R"
proof -
  define idx where "idx a = (THE p. p < length out \<and> out ! p = a)" for a
  have idx: "idx (out ! p) = p" if "p < length out" for p
    unfolding idx_def using that assms(2) by (auto simp: nth_eq_iff_index_eq)
  have "idx b < idx a" if "(b, a) \<in> R" for b a
  proof -
    from out [OF that] obtain p where p: "p < length out" "out ! p = a" "b \<in> set (take p out)" by blast
    then obtain q where "q < p" "out ! q = b" by (auto simp: in_set_conv_nth)
    with idx [of p] idx [of q] p show ?thesis by simp
  qed
  then have "R \<subseteq> measure idx" by auto
  then show ?thesis by (meson wf_acyclic wf_measure wf_subset)
qed

lemma build_graph_prefix:
  "g_diags (build_graph chunks diags) = diags @ g_diags (build_graph chunks []) \<and>
   g_edges (build_graph chunks diags) = g_edges (build_graph chunks [])"
proof -
  let ?pre = "\<lambda>g. g\<lparr>g_diags := diags @ g_diags g\<rparr>"
  have hop: "graph_hop chunks (?pre g) h = ?pre (graph_hop chunks g h)" for g h
  proof -
    obtain i k t where "h = (i, k, t)" by (cases h)
    then show ?thesis by (cases k) (simp_all add: graph_hop_def graph_target_def Let_def Diags_Add_def)
  qed
  have "foldl (graph_hop chunks) (?pre g) hs = ?pre (foldl (graph_hop chunks) g hs)" for g hs
    by (induction hs arbitrary: g) (simp_all add: hop)
  from this [of "\<lparr>g_edges = replicate (length chunks) [], g_self = replicate (length chunks) False, g_diags = []\<rparr>"]
  show ?thesis by (simp add: build_graph_hops)
qed

lemma build_graph_new:
  assumes "resolved_in_range chunks"
  shows "\<forall>d \<in> set (g_diags (build_graph chunks [])). names_cycle chunks d"
    and "g_diags (build_graph chunks []) = [] \<longleftrightarrow> (\<forall>i. (i, i) \<notin> must_precede chunks)"
proof -
  show *: "\<forall>d \<in> set (g_diags (build_graph chunks [])). names_cycle chunks d"
    using build_graph_diags [of chunks "[]"] by auto
  then have "HasErrors (g_diags (build_graph chunks [])) \<longleftrightarrow> g_diags (build_graph chunks []) \<noteq> []"
    by (cases "g_diags (build_graph chunks [])") (auto simp: names_cycle_def)
  with build_graph_spec(4) [OF assms, of "[]"]
  show "g_diags (build_graph chunks []) = [] \<longleftrightarrow> (\<forall>i. (i, i) \<notin> must_precede chunks)" by auto
qed

lemma reportCycle_names:
  assumes r: "resolved_in_range chunks"
    and st: "stuck (g_edges (build_graph chunks diags)) placed" and i: "\<exists>i < length chunks. \<not> placed ! i"
  shows "\<exists>d. reportCycle chunks (g_edges (build_graph chunks diags)) placed ds = ds @ [d] \<and> names_cycle chunks d"
proof -
  note g = build_graph_spec [OF r, where diags = diags]
  have "\<exists>i \<in> set [0..<length chunks]. \<not> placed ! i" "set [0..<length chunks] \<subseteq> {..<length (g_edges (build_graph chunks diags))}"
    using i g(1) by auto
  from find_cycle_finds [OF g(2) st this] obtain cyc
    where cyc: "find_cycle (g_edges (build_graph chunks diags)) placed [0..<length chunks]
        (replicate (length chunks) White, []) = Some cyc"
      "is_cycle (g_edges (build_graph chunks diags)) placed cyc" by (auto simp: g(1))
  from cycle_of_edges [OF r cyc(2)] cyc(1) show ?thesis
    by (auto simp: reportCycle_def Let_def Diags_Add_def mk_diag_def names_cycle_def)
qed

lemma mset_complete:
  assumes "distinct out" and "set out \<subseteq> {..<n}"
  shows "mset (out @ sort_key f (filter (\<lambda>i. i \<notin> set out) [0..<n])) = mset [0..<n]"
proof -
  have "mset (out @ filter (\<lambda>i. i \<notin> set out) [0..<n]) = mset [0..<n]"
    using assms
    by (intro set_eq_iff_mset_eq_distinct [THEN iffD1]) (auto simp: lessThan_atLeast0)
  then show ?thesis by simp
qed

lemma distinct_full:
  assumes "distinct out" and "set out \<subseteq> {..<n}"
  shows "length out = n \<longleftrightarrow> set out = {..<n}"
  using assms card_subset_eq [of "{..<n}" "set out"] distinct_card [of out] by auto

subsection \<open>The order of the indices\<close>

definition greedy :: "Chunk list \<Rightarrow> nat list \<Rightarrow> bool" where
  "greedy chunks out \<longleftrightarrow>
     (\<forall>p < length out. \<forall>b < length chunks. b \<notin> set (take p out) \<and>
        (\<forall>x. (x, b) \<in> must_precede chunks \<longrightarrow> x \<in> set (take p out)) \<longrightarrow>
        priority (chunks ! (out ! p)) \<le> priority (chunks ! b))"

definition respects_order :: "Chunk list \<Rightarrow> nat list \<Rightarrow> bool" where
  "respects_order chunks out \<longleftrightarrow>
     (\<forall>p < length out. \<forall>b. (b, out ! p) \<in> must_precede chunks \<longrightarrow> b \<in> set (take p out))"

lemma must_precede_range:
  "resolved_in_range chunks \<Longrightarrow> (b, a) \<in> must_precede chunks \<Longrightarrow> b < length chunks \<and> a < length chunks"
proof -
  assume r: "resolved_in_range chunks" and "(b, a) \<in> must_precede chunks"
  then obtain i k t where "(i, k, t) \<in> set (hops chunks)" "constraint (i, k, t) = Some (b, a)"
    by (auto simp: must_precede_def)
  with hops_in_range [OF r] show ?thesis by (cases k) auto
qed

lemma respects_acyclic:
  assumes "resolved_in_range chunks" and "respects_order chunks out" and "mset out = mset [0..<length chunks]"
  shows "acyclic (must_precede chunks)"
proof (rule ordered_acyclic)
  show "distinct out" using assms(3) by (metis distinct_upt mset_eq_imp_distinct_iff)
  fix b a
  assume ba: "(b, a) \<in> must_precede chunks"
  then have "a \<in> set out" using must_precede_range [OF assms(1) ba] mset_eq_setD [OF assms(3)] by simp
  then obtain p where "p < length out" "out ! p = a" by (auto simp: in_set_conv_nth)
  with assms(2) ba show "\<exists>p < length out. out ! p = a \<and> b \<in> set (take p out)" by (auto simp: respects_order_def)
qed

lemma order_indices_placed:
  assumes r: "resolved_in_range chunks"
    and k: "hp.kinv chunks (g_edges (build_graph chunks diags)) st" and full: "set (k_out st) = {..<length chunks}"
  shows "(\<forall>i. (i, i) \<notin> must_precede chunks) \<longleftrightarrow> acyclic (must_precede chunks)"
    and "acyclic (must_precede chunks) \<Longrightarrow> respects_order chunks (k_out st) \<and> greedy chunks (k_out st)"
proof -
  note g = build_graph_spec [OF r, where diags = diags]
  note inv = hp.kinvD [OF k]
  have m: "mset (k_out st) = mset [0..<length chunks]"
    using mset_complete [of "k_out st" "length chunks" id] inv(4) full by (simp add: filter_empty_conv)
  have res: "respects_order chunks (k_out st)" if "\<forall>i. (i, i) \<notin> must_precede chunks"
    unfolding respects_order_def
  proof (intro allI impI)
    fix p b
    assume p: "p < length (k_out st)" and b: "(b, k_out st ! p) \<in> must_precede chunks"
    have "k_out st ! p < length chunks" using full nth_mem [OF p] by simp
    with g(3) b that have "b \<in> set (g_edges (build_graph chunks diags) ! (k_out st ! p))" by metis
    with inv(9) [OF p] show "b \<in> set (take p (k_out st))" by auto
  qed
  from respects_acyclic [OF r res m]
  show iff: "(\<forall>i. (i, i) \<notin> must_precede chunks) \<longleftrightarrow> acyclic (must_precede chunks)"
    by (auto simp: acyclic_def)
  have "greedy chunks (k_out st)"
    unfolding greedy_def
  proof (intro allI impI)
    fix p b
    assume p: "p < length (k_out st)" "b < length chunks"
      and *: "b \<notin> set (take p (k_out st)) \<and> (\<forall>x. (x, b) \<in> must_precede chunks \<longrightarrow> x \<in> set (take p (k_out st)))"
    then have "set (g_edges (build_graph chunks diags) ! b) \<subseteq> set (take p (k_out st))"
      using g(3) [OF p(2)] by blast
    with inv(10) [OF p(1), of b] p(2) g(1) * show "priority (chunks ! (k_out st ! p)) \<le> priority (chunks ! b)"
      by simp
  qed
  with res iff show "acyclic (must_precede chunks) \<Longrightarrow> respects_order chunks (k_out st) \<and> greedy chunks (k_out st)"
    by blast
qed

lemma order_indices_result:
  assumes r: "resolved_in_range chunks"
  obtains out new where "order_indices chunks diags = Some (out, diags @ new)"
    and "mset out = mset [0..<length chunks]"
    and "\<forall>d \<in> set new. names_cycle chunks d"
    and "new = [] \<longleftrightarrow> acyclic (must_precede chunks)"
    and "acyclic (must_precede chunks) \<Longrightarrow> respects_order chunks out \<and> greedy chunks out"
proof -
  let ?g = "build_graph chunks diags" and ?new = "g_diags (build_graph chunks [])"
  from kahn_order [OF r, of diags] obtain st
    where st: "kahn (heap_push (order_before chunks)) (heap_pop (order_before chunks)) (g_edges ?g) = Some st"
      and k: "hp.kinv chunks (g_edges ?g) st" and ready: "k_ready st = []"
      and out: "distinct (k_out st)" "set (k_out st) \<subseteq> {..<length chunks}"
      and placed: "\<And>i. i < length chunks \<Longrightarrow> k_placed st ! i \<longleftrightarrow> i \<in> set (k_out st)"
      and stuck: "stuck (g_edges ?g) (k_placed st)" by blast
  have unplaced: "filter (\<lambda>i. \<not> k_placed st ! i) [0..<length chunks] =
      filter (\<lambda>i. i \<notin> set (k_out st)) [0..<length chunks]"
    by (intro filter_cong) (auto simp: placed)
  note new = build_graph_new [OF r]
  show ?thesis
  proof (cases "length (k_out st) = length chunks")
    case True
    with distinct_full [OF out] have full: "set (k_out st) = {..<length chunks}" by simp
    show ?thesis
    proof (rule that)
      show "order_indices chunks diags = Some (k_out st, diags @ ?new)"
        using st True build_graph_prefix [of chunks diags] by (simp add: order_indices_def Let_def)
      show "mset (k_out st) = mset [0..<length chunks]"
        using mset_complete [OF out, of id] full by (simp add: filter_empty_conv)
      show "\<forall>d \<in> set ?new. names_cycle chunks d" by (rule new(1))
      show "?new = [] \<longleftrightarrow> acyclic (must_precede chunks)"
        using new(2) order_indices_placed(1) [OF r k full] by simp
    qed (rule order_indices_placed(2) [OF r k full])
  next
    case False
    with distinct_full [OF out] out(2) placed have "\<exists>i < length chunks. \<not> k_placed st ! i" by auto
    from reportCycle_names [OF r stuck this, of "g_diags ?g"] obtain d
      where d: "reportCycle chunks (g_edges ?g) (k_placed st) (g_diags ?g) = g_diags ?g @ [d]" "names_cycle chunks d"
      by blast
    then have cyc: "\<not> acyclic (must_precede chunks)"
      using requisite_cycle_not_acyclic by (auto simp: names_cycle_def)
    show ?thesis
    proof (rule that)
      show "order_indices chunks diags =
          Some (k_out st @ sort_key (\<lambda>i. priority (chunks ! i)) (filter (\<lambda>i. i \<notin> set (k_out st)) [0..<length chunks]),
            diags @ (?new @ [d]))"
        using st False d(1) build_graph_prefix [of chunks diags] unplaced
        by (simp add: order_indices_def Let_def)
      show "\<forall>d \<in> set (?new @ [d]). names_cycle chunks d" using new(1) d(2) by auto
    qed (use mset_complete [OF out] cyc in auto)
  qed
qed

subsection \<open>The ordered low state\<close>

definition reindexed :: "nat list \<Rightarrow> Chunk list \<Rightarrow> nat \<Rightarrow> Chunk" where
  "reindexed out chunks p =
     (chunks ! (out ! p))\<lparr>ch_RunNum := int p,
        ch_Reqs := map (\<lambda>r. r\<lparr>req_Resolved := map (remap_index (length chunks) out) (req_Resolved r)\<rparr>)
                     (ch_Reqs (chunks ! (out ! p)))\<rparr>"

lemma placed_reindexed:
  "remapResolved (length chunks) out (place chunks out) = map (reindexed out chunks) [0..<length out]"
  by (rule nth_equalityI) (simp_all add: remapResolved_def place_def reindexed_def nth_enumerate_eq)

lemma order_result:
  assumes r: "resolved_in_range chunks"
  obtains out new where "order chunks diags = Some (map (reindexed out chunks) [0..<length chunks], diags @ new)"
    and "mset out = mset [0..<length chunks]" and "length out = length chunks"
    and "\<forall>d \<in> set new. names_cycle chunks d"
    and "new = [] \<longleftrightarrow> acyclic (must_precede chunks)"
    and "acyclic (must_precede chunks) \<Longrightarrow> respects_order chunks out"
proof (cases "chunks = []")
  case True
  then have "must_precede chunks = {}" by (simp add: must_precede_def hops_def)
  with True show ?thesis
    by (intro that [of "[]" "[]"]) (auto simp: order_def respects_order_def acyclic_def)
next
  case False
  from order_indices_result [OF r, of diags] obtain out new
    where o: "order_indices chunks diags = Some (out, diags @ new)" "mset out = mset [0..<length chunks]"
      "\<forall>d \<in> set new. names_cycle chunks d" "new = [] \<longleftrightarrow> acyclic (must_precede chunks)"
      "acyclic (must_precede chunks) \<Longrightarrow> respects_order chunks out \<and> greedy chunks out" by blast
  have len: "length out = length chunks" using mset_eq_length [OF o(2)] by simp
  show ?thesis
    by (rule that [OF _ o(2) len o(3,4)]) (use False o(1,5) len in \<open>auto simp: order_def placed_reindexed\<close>)
qed

lemma remap_index_spec:
  assumes "mset out = mset [0..<n]" and "old < n"
  shows "remap_index n out old < n \<and> out ! remap_index n out old = old"
proof -
  have "old \<in> set out" "length out = n" using assms mset_eq_setD [OF assms(1)] mset_eq_length [OF assms(1)] by auto
  then obtain p where p: "find_index (\<lambda>x. x = old) out = Some p"
    by (cases "find_index (\<lambda>x. x = old) out") (auto simp: find_index_None)
  from find_index_Some [OF p] \<open>length out = n\<close> assms(2) p show ?thesis by (simp add: remap_index_def)
qed

lemma take_before:
  assumes "distinct out" and "p < length out" and "q < length out" and "out ! q \<in> set (take p out)"
  shows "q < p"
  using assms by (auto simp: in_set_conv_nth nth_eq_iff_index_eq)

lemma hop_of_reindexed:
  assumes "p < length chunks" and "length out = length chunks" and "r \<in> set (ch_Reqs (reindexed out chunks p))"
    and "t \<in> set (req_Resolved r)" and "out ! p < length chunks"
  obtains old where "(out ! p, req_Kind r, old) \<in> set (hops chunks)" and "t = remap_index (length chunks) out old"
proof -
  from assms(3,4) obtain r0 old where "r0 \<in> set (ch_Reqs (chunks ! (out ! p)))"
    "req_Kind r = req_Kind r0" "old \<in> set (req_Resolved r0)" "t = remap_index (length chunks) out old"
    by (auto simp: reindexed_def)
  with assms(5) show thesis by (intro that [of old]) (auto simp: set_hops)
qed

lemma requisites_respected:
  assumes r: "resolved_in_range chunks" and out: "mset out = mset [0..<length chunks]" "length out = length chunks"
    and resp: "respects_order chunks out" and p: "p < length chunks"
    and req: "r \<in> set (ch_Reqs (reindexed out chunks p))" and t: "t \<in> set (req_Resolved r)"
  shows "t < length chunks \<and> (req_Kind r = Prereq \<longrightarrow> p < t) \<and>
     (req_Kind r \<noteq> Prereq \<and> req_Kind r \<noteq> Listen \<and> req_Kind r \<noteq> Use \<longrightarrow> t < p)"
proof -
  have dist: "distinct out" using out(1) by (metis distinct_upt mset_eq_imp_distinct_iff)
  have "out ! p < length chunks" using nth_mem [of p out] mset_eq_setD [OF out(1)] p out(2) by auto
  from hop_of_reindexed [OF p out(2) req t this] obtain old
    where hop: "(out ! p, req_Kind r, old) \<in> set (hops chunks)" and t': "t = remap_index (length chunks) out old" .
  have old: "old < length chunks" using hops_in_range [OF r hop] by simp
  note idx = remap_index_spec [OF out(1) old, folded t']
  have mp: "constraint (out ! p, req_Kind r, old) = Some (b, a) \<Longrightarrow> (b, a) \<in> must_precede chunks" for a b
    using hop by (auto simp: must_precede_def)
  have pre: "p < t" if "req_Kind r = Prereq"
    using that mp [of "out ! p" old] resp idx p out(2) take_before [OF dist, of t p]
    by (auto simp: respects_order_def)
  have "t < p" if "req_Kind r \<noteq> Prereq" "req_Kind r \<noteq> Listen" "req_Kind r \<noteq> Use"
  proof -
    from that have "constraint (out ! p, req_Kind r, old) = Some (old, out ! p)" by (cases "req_Kind r") auto
    from mp [OF this] resp p out(2) have "out ! t \<in> set (take p out)" using idx by (auto simp: respects_order_def)
    with take_before [OF dist, of p t] p out(2) idx show ?thesis by simp
  qed
  with pre idx show ?thesis by simp
qed

text \<open>Every resolved target stands on the right side of the chunk that names it.\<close>

definition in_run_order :: "Chunk list \<Rightarrow> bool" where
  "in_run_order low \<longleftrightarrow>
     (\<forall>p < length low. \<forall>r \<in> set (ch_Reqs (low ! p)). \<forall>t \<in> set (req_Resolved r).
        t < length low \<and> (req_Kind r = Prereq \<longrightarrow> p < t) \<and>
        (req_Kind r \<noteq> Prereq \<and> req_Kind r \<noteq> Listen \<and> req_Kind r \<noteq> Use \<longrightarrow> t < p))"

lemma order_run_order:
  assumes "resolved_in_range chunks"
  shows "\<exists>out ds. order chunks diags = Some (out, ds) \<and> (\<not> HasErrors ds \<longrightarrow> in_run_order out)"
proof -
  from order_result [OF assms, of diags] obtain out new
    where o: "order chunks diags = Some (map (reindexed out chunks) [0..<length chunks], diags @ new)"
      "mset out = mset [0..<length chunks]" "length out = length chunks"
      "\<forall>d \<in> set new. names_cycle chunks d" "new = [] \<longleftrightarrow> acyclic (must_precede chunks)"
      "acyclic (must_precede chunks) \<Longrightarrow> respects_order chunks out" by blast
  have "respects_order chunks out" if "\<not> HasErrors (diags @ new)"
  proof -
    from that o(4) have "new = []" by (cases new) (auto simp: names_cycle_def)
    with o(5,6) show ?thesis by simp
  qed
  note resp = requisites_respected [OF assms o(2,3) this]
  show ?thesis unfolding in_run_order_def
  proof (intro exI conjI impI allI ballI)
    show "order chunks diags = Some (map (reindexed out chunks) [0..<length chunks], diags @ new)" by (rule o(1))
  qed (simp_all only: length_map length_upt diff_zero nth_map nth_upt add_0, (use resp in blast)+)
qed

text \<open>C6: ordering always ends, and when it reports no error the run order respects every requisite:
  at every position, each resolved target of an ordinary requisite has an earlier position, and each
  target of a \<open>prereq\<close> a later one. In particular the runner never evaluates a requisite on a state
  that has not run yet.\<close>

theorem order_respects_requisites:
  assumes "resolved_in_range chunks"
  shows "\<exists>out ds. order chunks diags = Some (out, ds) \<and>
     (\<not> HasErrors ds \<longrightarrow>
       (\<forall>p < length out. \<forall>r \<in> set (ch_Reqs (out ! p)). \<forall>t \<in> set (req_Resolved r).
          t < length out \<and> (req_Kind r = Prereq \<longrightarrow> p < t) \<and>
          (req_Kind r \<noteq> Prereq \<and> req_Kind r \<noteq> Listen \<and> req_Kind r \<noteq> Use \<longrightarrow> t < p)))"
  using order_run_order [OF assms, of diags] by (simp only: in_run_order_def)

text \<open>Two chunks, the first of which requires the second.\<close>

definition require_pair :: "Chunk list" where
  "require_pair =
     [sample_chunk ''a'' [] [\<lparr>req_Kind = Require, req_Refs = [], req_Resolved = [1]\<rparr>],
      sample_chunk ''b'' [] []]"

theorem order_respects_requisites_witness:
  "\<exists>out ds. order require_pair [] = Some (out, ds)"
proof -
  have "resolved_in_range require_pair"
    by (simp add: resolved_in_range_def require_pair_def sample_chunk_def)
  from order_respects_requisites [OF this, of "[]"] show ?thesis by blast
qed

text \<open>C7: ordering fails exactly on a cycle, and then says which. The pass only appends
  diagnostics; it appends none exactly when the requisites are acyclic; and each one it appends is an
  error whose message is the rendering of a real cycle of requisites. The fallback report for a
  search that finds no cycle is never used.\<close>

theorem order_fails_exactly_on_cycles:
  assumes "resolved_in_range chunks"
  shows "\<exists>out new. order chunks diags = Some (out, diags @ new) \<and>
     (new = [] \<longleftrightarrow> acyclic (must_precede chunks)) \<and> list_all (names_cycle chunks) new"
proof -
  obtain out new
    where "order chunks diags = Some (map (reindexed out chunks) [0..<length chunks], diags @ new)"
      "\<forall>d \<in> set new. names_cycle chunks d" "new = [] \<longleftrightarrow> acyclic (must_precede chunks)"
    by (rule order_result [OF assms, of diags])
  then show ?thesis by (intro exI conjI) (auto simp: list_all_iff)
qed

theorem order_fails_exactly_on_cycles_witness:
  "\<exists>out d ds. order [sample_chunk ''a'' [] [\<lparr>req_Kind = Require, req_Refs = [], req_Resolved = [0]\<rparr>]] [] =
     Some (out, d # ds) \<and> \<not> diag_Warning d"
proof -
  let ?c = "sample_chunk ''a'' [] [\<lparr>req_Kind = Require, req_Refs = [], req_Resolved = [0]\<rparr>]"
  have "resolved_in_range [?c]" by (simp add: resolved_in_range_def sample_chunk_def)
  from order_fails_exactly_on_cycles [OF this, of "[]"] obtain out new
    where o: "order [?c] [] = Some (out, new)" "new = [] \<longleftrightarrow> acyclic (must_precede [?c])"
      "list_all (names_cycle [?c]) new" by auto
  have "(0, 0) \<in> must_precede [?c]" by (simp add: must_precede_def hops_def sample_chunk_def)
  then have "\<not> acyclic (must_precede [?c])" by (auto simp: acyclic_def)
  with o show ?thesis by (cases new) (auto simp: names_cycle_def)
qed

text \<open>C8: ordering loses and duplicates nothing, and every requisite still points at the chunk it
  named. The result is a permutation of the low state; position \<open>p\<close> carries the run number \<open>p\<close>; and
  translating the new indices of a chunk's requisites back through the permutation gives the chunk
  as it was. This holds when ordering fails, too.\<close>

theorem order_permutes_low_state:
  assumes "resolved_in_range chunks"
  shows "\<exists>out ds perm. order chunks diags = Some (out, ds) \<and>
     mset perm = mset [0..<length chunks] \<and> length out = length chunks \<and>
     (\<forall>p < length chunks. ch_RunNum (out ! p) = int p \<and>
        (out ! p)\<lparr>ch_RunNum := 0,
                  ch_Reqs := map (\<lambda>r. r\<lparr>req_Resolved := map ((!) perm) (req_Resolved r)\<rparr>) (ch_Reqs (out ! p))\<rparr>
        = (chunks ! (perm ! p))\<lparr>ch_RunNum := 0\<rparr>)"
proof -
  from order_result [OF assms, of diags] obtain perm new
    where o: "order chunks diags = Some (map (reindexed perm chunks) [0..<length chunks], diags @ new)"
      "mset perm = mset [0..<length chunks]" "length perm = length chunks" by blast
  have "map (\<lambda>r. r\<lparr>req_Resolved := map ((!) perm) (req_Resolved r)\<rparr>) (ch_Reqs (reindexed perm chunks p)) =
      ch_Reqs (chunks ! (perm ! p))" if "p < length chunks" for p
  proof -
    have "perm ! p < length chunks" using nth_mem [of p perm] mset_eq_setD [OF o(2)] that o(3) by auto
    then have "t < length chunks" if "r \<in> set (ch_Reqs (chunks ! (perm ! p)))" "t \<in> set (req_Resolved r)" for r t
      using hops_in_range [OF assms, of "perm ! p" "req_Kind r" t] that by (auto simp: set_hops)
    then have "map (\<lambda>t. perm ! remap_index (length chunks) perm t) (req_Resolved r) = req_Resolved r"
      if "r \<in> set (ch_Reqs (chunks ! (perm ! p)))" for r
      using that remap_index_spec [OF o(2)] by (intro map_idI) blast
    then show ?thesis by (auto simp: reindexed_def o_def intro!: map_idI)
  qed
  then show ?thesis
    by (intro exI [of _ "map (reindexed perm chunks) [0..<length chunks]"] exI [of _ "diags @ new"] exI [of _ perm])
      (auto simp: o reindexed_def)
qed

theorem order_permutes_low_state_witness:
  "\<exists>out ds. order require_pair [] = Some (out, ds) \<and> length out = 2"
proof -
  have "resolved_in_range require_pair"
    by (simp add: resolved_in_range_def require_pair_def sample_chunk_def)
  from order_permutes_low_state [OF this, of "[]"] show ?thesis by (auto simp: require_pair_def)
qed

text \<open>Explicit order first, then declaration order. Where the requisites are acyclic, whenever a
  chunk runs while another one was free to run (everything the other waits for had run), the chunk
  that runs has the better or an equal priority; and where no requisite constrains anything the run
  order is exactly the low state sorted by \<open>order\<close>, declaration and expansion position, with the
  position in the low state as the last tiebreak.\<close>

theorem order_honours_priority:
  assumes "resolved_in_range chunks" and "acyclic (must_precede chunks)"
  shows "\<exists>out ds. order_indices chunks diags = Some (out, ds) \<and> greedy chunks out \<and>
     (must_precede chunks = {} \<longrightarrow>
        out = sort_key (\<lambda>i. (priority (chunks ! i), i)) [0..<length chunks])"
proof -
  from order_indices_result [OF assms(1), of diags] obtain out new
    where o: "order_indices chunks diags = Some (out, diags @ new)" "mset out = mset [0..<length chunks]"
      "greedy chunks out" using assms(2) by blast
  have "out = sort_key (\<lambda>i. (priority (chunks ! i), i)) [0..<length chunks]" if "must_precede chunks = {}"
  proof -
    note g = build_graph_spec [OF assms(1), where diags = diags]
    have free: "\<forall>i < length (g_edges (build_graph chunks diags)). g_edges (build_graph chunks diags) ! i = []"
      using g(1,3) that by (metis empty_iff last_in_set)
    from kahn_order [OF assms(1), of diags] obtain st
      where st: "kahn (heap_push (order_before chunks)) (heap_pop (order_before chunks)) (g_edges (build_graph chunks diags)) = Some st"
      by blast
    from hp.kahn_free [OF free g(2) st] have
      sort: "k_out st = sort_key (\<lambda>i. (priority (chunks ! i), i)) [0..<length chunks]" by (simp add: g(1))
    then have "length (k_out st) = length chunks" by simp
    with st o(1) sort show ?thesis by (simp add: order_indices_def Let_def)
  qed
  with o show ?thesis by blast
qed

theorem order_honours_priority_witness:
  "\<exists>out ds. order_indices [sample_chunk ''a'' [] [], sample_chunk ''b'' [] []] [] = Some (out, ds) \<and> out = [0, 1]"
proof -
  let ?cs = "[sample_chunk ''a'' [] [], sample_chunk ''b'' [] []]"
  have r: "resolved_in_range ?cs" by (simp add: resolved_in_range_def sample_chunk_def)
  have e: "must_precede ?cs = {}" by (simp add: must_precede_def hops_def sample_chunk_def upt_rec)
  then have "acyclic (must_precede ?cs)" by (simp add: acyclic_def)
  from order_honours_priority [OF r this, of "[]"] e obtain out ds
    where "order_indices ?cs [] = Some (out, ds)" "out = sort_key (\<lambda>i. (priority (?cs ! i), i)) [0..<length ?cs]"
    by blast
  then show ?thesis by (simp add: upt_rec sample_chunk_def priority_def zero_Options_def)
qed

subsection \<open>The scan that knows only the preference and the slice\<close>

definition arrival_order :: "kstate \<Rightarrow> bool" where
  "arrival_order st \<longleftrightarrow>
     sorted_wrt (\<lambda>a b. snd a < snd b) (k_ready st) \<and> (\<forall>e \<in> set (k_ready st). snd e < k_seq st)"

lemma arrival_push: "arrival_order st \<Longrightarrow> arrival_order (push_ready scan_push st i)"
  by (auto simp: arrival_order_def push_ready_def scan_push_def sorted_wrt_append less_Suc_eq)

lemma arrival_cong:
  "k_ready s = k_ready t \<Longrightarrow> k_seq s = k_seq t \<Longrightarrow> arrival_order s \<longleftrightarrow> arrival_order t"
  by (simp add: arrival_order_def)

lemma arrival_release: "arrival_order st \<Longrightarrow> arrival_order (release scan_push st d)"
  by (auto simp: release_def Let_def intro!: arrival_push) (simp_all add: arrival_order_def)

lemma arrival_releases: "arrival_order st \<Longrightarrow> arrival_order (foldl (release scan_push) st ds)"
  by (induction ds arbitrary: st) (simp_all add: arrival_release)

lemma sorted_wrt_remove1: "sorted_wrt P xs \<Longrightarrow> sorted_wrt P (remove1 x xs)"
  by (induction xs) (use notin_set_remove1 in fastforce)+

lemma arrival_init: "arrival_order (init_ready scan_push edges)"
proof -
  have "arrival_order st \<Longrightarrow> arrival_order
     (foldl (\<lambda>st i. if k_indegree st ! i = 0 then push_ready scan_push st i else st) st js)" for st js
    by (induction js arbitrary: st) (simp_all add: arrival_push)
  moreover have "arrival_order \<lparr>k_ready = [], k_seq = 0, k_indegree = indegrees edges,
        k_placed = replicate (length edges) False, k_out = []\<rparr>" by (simp add: arrival_order_def)
  ultimately show ?thesis by (simp add: init_ready_def)
qed

lemma arrival_step:
  "arrival_order st \<Longrightarrow> arrival_order (kahn_step scan_push (scan_pop better) deps st)"
  unfolding kahn_step_def scan_pop_def Let_def split_beta
  by (rule arrival_releases)
    (auto simp: arrival_order_def sorted_wrt_remove1 dest: notin_set_remove1 [rotated] in_set_remove1 [THEN iffD1, rotated])

lemma scan_best_less:
  assumes "sorted_wrt (\<lambda>a b. snd a < snd b) (b # xs)"
  shows "scan_best (order_before chunks) b xs = scan_best (\<lambda>a b. order_less chunks (fst a) (fst b)) b xs"
  using assms
proof (induction xs arbitrary: b)
  case (Cons x xs)
  have "order_before chunks x b = order_less chunks (fst x) (fst b)"
    using Cons.prems by (auto simp: order_before_def)
  moreover have "sorted_wrt (\<lambda>a b. snd a < snd b) ((if order_less chunks (fst x) (fst b) then x else b) # xs)"
    using Cons.prems by auto
  ultimately show ?case using Cons.IH by simp
qed simp

lemma scan_step_less:
  assumes "arrival_order st" and "k_ready st \<noteq> []"
  shows "kahn_step scan_push (scan_pop (order_before chunks)) deps st =
     kahn_step scan_push (scan_pop (\<lambda>a b. order_less chunks (fst a) (fst b))) deps st"
proof -
  have "scan_pop (order_before chunks) (k_ready st) =
      scan_pop (\<lambda>a b. order_less chunks (fst a) (fst b)) (k_ready st)"
    using assms scan_best_less [of "hd (k_ready st)" "tl (k_ready st)" chunks]
    by (simp add: scan_pop_def arrival_order_def)
  then show ?thesis by (simp add: kahn_step_def)
qed

lemma scan_loop_less:
  "kahn scan_push (scan_pop (order_before chunks)) edges =
   kahn scan_push (scan_pop (\<lambda>a b. order_less chunks (fst a) (fst b))) edges"
proof -
  let ?c = "kahn_step scan_push (scan_pop (order_before chunks)) (dependents edges)"
  let ?d = "kahn_step scan_push (scan_pop (\<lambda>a b. order_less chunks (fst a) (fst b))) (dependents edges)"
  let ?b = "\<lambda>st. length (k_ready st) > 0"
  have "map_option id (while_option ?b ?c (init_ready scan_push edges)) =
      while_option ?b ?d (id (init_ready scan_push edges))"
    by (rule while_option_commute_invariant [where P = arrival_order])
      (auto simp: arrival_init arrival_step scan_step_less)
  then show ?thesis by (simp add: kahn_def option.map_id)
qed

text \<open>C9: the heap changed nothing. The loop over the binary heap, whose entries carry an arrival
  number that breaks ties, places the same chunks in the same order as the linear scan it replaced,
  which compares chunks by \<open>less\<close> alone and among equals takes the first of its slice.\<close>

theorem heap_order_is_scan_order:
  "map_option (\<lambda>st. (k_out st, k_placed st))
     (kahn (heap_push (order_before chunks)) (heap_pop (order_before chunks)) edges) =
   map_option (\<lambda>st. (k_out st, k_placed st))
     (kahn scan_push (scan_pop (\<lambda>a b. order_less chunks (fst a) (fst b))) edges)"
  unfolding scan_loop_less [symmetric] using rp.kahn_same [of chunks edges]
  by (auto simp: option_rel_Some1 option_rel_Some2 rp.sim_def elim!: option.rel_cases)

end
