(* ===== verification/Highstate.thy ===== *)
theory Highstate
  imports Diag
begin

text \<open>
  The high state (\<open>internal/state/highstate.go\<close>): declarations under a state ID, reading one
  rendered SLS document into declarations, includes, extends and excludes, and the assembled
  collection of declarations with its index by ID.
\<close>

subsection \<open>Declarations\<close>

record FuncDecl =
  fd_State :: string
  fd_Fun :: string
  fd_Args :: vmap
  fd_Flags :: "string list"
  fd_Pos :: pos

definition FuncDecl_Name :: "FuncDecl \<Rightarrow> string" where
  "FuncDecl_Name f = fd_State f @ ''.'' @ fd_Fun f"

record Decl =
  d_ID :: string
  d_SLS :: string
  d_Env :: string
  d_Pos :: pos
  d_Funcs :: "FuncDecl list"
  d_Order :: int

definition Decl_Func :: "Decl \<Rightarrow> string \<Rightarrow> FuncDecl option" where
  "Decl_Func d state = find (\<lambda>f. fd_State f = state) (d_Funcs d)"

subsection \<open>The collection of declarations\<close>

record HighState =
  hs_decls :: "Decl list"
  hs_index :: "(string, nat) gomap"
  hs_excludedSLS :: "(string, bool) gomap"
  hs_excludedIDs :: "(string, bool) gomap"

definition NewHighState :: HighState where
  "NewHighState = \<lparr>hs_decls = [], hs_index = [], hs_excludedSLS = [], hs_excludedIDs = []\<rparr>"

definition HighState_Lookup :: "HighState \<Rightarrow> string \<Rightarrow> Decl option" where
  "HighState_Lookup h ident =
     (case gomap_get (hs_index h) ident of
        None \<Rightarrow> None
      | Some i \<Rightarrow> Some (hs_decls h ! i))"

definition HighState_Len :: "HighState \<Rightarrow> nat" where
  "HighState_Len h = length (hs_decls h)"

definition HighState_add :: "Decl \<Rightarrow> HighState \<times> Diags \<Rightarrow> HighState \<times> Diags" where
  "HighState_add d = (\<lambda>(h, diags).
     case gomap_get (hs_index h) (d_ID d) of
       Some i \<Rightarrow>
         let prev = hs_decls h ! i in
         (h, Diags_AddRelated (d_Pos d) (d_SLS d) (d_ID d)
               [(d_Pos prev, ''first declared here, in '' @ d_SLS prev)]
               ''duplicate state ID %q; an ID is global across the whole compiled state''
               [FStr (d_ID d)] diags)
     | None \<Rightarrow>
         (h\<lparr>hs_index := gomap_put (d_ID d) (length (hs_decls h)) (hs_index h),
            hs_decls := hs_decls h @ [d\<lparr>d_Order := int (length (hs_decls h))\<rparr>]\<rparr>, diags))"

subsection \<open>Includes and excludes\<close>

record includeRef =
  inc_Name :: string
  inc_Env :: string
  inc_Pos :: pos

record excludeRef =
  exc_SLS :: string
  exc_ID :: string
  exc_Pos :: pos

definition file_pos :: "string \<Rightarrow> pos" where
  "file_pos f = \<lparr>pos_File = f, pos_Line = 0, pos_Col = 0\<rparr>"

definition resolveRelative ::
  "string \<Rightarrow> string \<Rightarrow> bool \<Rightarrow> string \<Rightarrow> pos \<Rightarrow> Diags \<Rightarrow> string \<times> Diags" where
  "resolveRelative name sls pkg sourceSLS p diags =
     (if \<not> has_prefix name ''.'' then (name, diags)
      else
        let rest = trim_left CHR ''.'' name;
            levels = length name - length rest;
            comps0 = (if sls \<noteq> [] then str_split sls ''.'' else []);
            comps = (if pkg then comps0 @ [''init''] else comps0)
        in
        if levels > length comps then
          (rest, Diags_Add p sourceSLS []
             ''the relative include %q climbs %d level(s) above %q, which has %d''
             [FStr name, FInt (int levels), FStr sls, FInt (int (length comps))] diags)
        else
          let up = take (length comps - levels) comps in
          if length up = 0 then (rest, diags)
          else (str_join ''.'' up @ ''.'' @ rest, diags))"

text \<open>\<open>filepath.Base\<close> where the separator is a slash.\<close>

definition path_base :: "string \<Rightarrow> string" where
  "path_base path =
     (if path = [] then ''.''
      else
        let stripped = rev (dropWhile (\<lambda>c. c = CHR ''/'') (rev path))
        in if stripped = [] then ''/'' else last (str_split stripped ''/''))"

definition isPackage :: "string \<Rightarrow> bool" where
  "isPackage filePath = (path_base filePath = ''init.sls'')"

fun include_name ::
  "string \<Rightarrow> bool \<Rightarrow> string \<Rightarrow> pos \<Rightarrow> includeRef list \<times> Diags \<Rightarrow> val \<Rightarrow> includeRef list \<times> Diags" where
  "include_name sls pkg otherEnv p (out, diags) (VStr s) =
     (let (n, diags1) = resolveRelative s sls pkg sls p diags
      in (out @ [\<lparr>inc_Name = n, inc_Env = otherEnv, inc_Pos = p\<rparr>], diags1))"
| "include_name sls pkg otherEnv p (out, diags) v =
     (out, Diags_Add p sls [] ''an SLS name must be a string, found %s'' [FStr (TypeName v)] diags)"

fun include_item ::
  "string \<Rightarrow> string \<Rightarrow> bool \<Rightarrow> pos \<Rightarrow> includeRef list \<times> Diags \<Rightarrow> val \<Rightarrow> includeRef list \<times> Diags" where
  "include_item sls env pkg p (out, diags) (VStr t) =
     (let (n, diags1) = resolveRelative t sls pkg sls p diags
      in (out @ [\<lparr>inc_Name = n, inc_Env = env, inc_Pos = p\<rparr>], diags1))"
| "include_item sls env pkg p st (VMap t) =
     foldl (\<lambda>(out, diags) e.
        case Val e of
          VSeq names \<Rightarrow> foldl (include_name sls pkg (KeyString (Key e)) (ValPos e)) (out, diags) names
        | _ \<Rightarrow> (out, Diags_Add (ValPos e) sls []
                      ''an environment include must hold a list of SLS names'' [] diags))
       st (entries t)"
| "include_item sls env pkg p (out, diags) v =
     (out, Diags_Add p sls [] ''an include entry must be an SLS name, found %s''
             [FStr (TypeName v)] diags)"

definition parseIncludes ::
  "val \<Rightarrow> string \<Rightarrow> string \<Rightarrow> bool \<Rightarrow> pos \<Rightarrow> Diags \<Rightarrow> includeRef list \<times> Diags" where
  "parseIncludes v sls env pkg p diags =
     (case v of
        VSeq items \<Rightarrow> foldl (include_item sls env pkg p) ([], diags) items
      | _ \<Rightarrow> ([], Diags_Add p sls [] ''include must hold a list, found %s'' [FStr (TypeName v)] diags))"

definition str_or_empty :: "val \<Rightarrow> string" where
  "str_or_empty v = (case v of VStr s \<Rightarrow> s | _ \<Rightarrow> [])"

definition exclude_item ::
  "string \<Rightarrow> pos \<Rightarrow> excludeRef list \<times> Diags \<Rightarrow> val \<Rightarrow> excludeRef list \<times> Diags" where
  "exclude_item sls p = (\<lambda>(out, diags) item.
     case item of
       VMap m \<Rightarrow>
         (if Map_Len m \<noteq> 1 then
            (out, Diags_Add p sls [] ''an exclude entry must be `- sls: name` or `- id: name`'' [] diags)
          else
            let e = entries m ! 0; name = str_or_empty (Val e); k = KeyString (Key e) in
            if k = ''sls'' then (out @ [\<lparr>exc_SLS = name, exc_ID = [], exc_Pos = ValPos e\<rparr>], diags)
            else if k = ''id'' then (out @ [\<lparr>exc_SLS = [], exc_ID = name, exc_Pos = ValPos e\<rparr>], diags)
            else (out, Diags_Add (KeyPos e) sls []
                   ''an exclude entry must be `- sls: name` or `- id: name`, found %q'' [FStr k] diags))
     | _ \<Rightarrow> (out, Diags_Add p sls [] ''an exclude entry must be `- sls: name` or `- id: name`'' [] diags))"

definition parseExcludes :: "val \<Rightarrow> string \<Rightarrow> pos \<Rightarrow> Diags \<Rightarrow> excludeRef list \<times> Diags" where
  "parseExcludes v sls p diags =
     (case v of
        VSeq items \<Rightarrow> foldl (exclude_item sls p) ([], diags) items
      | _ \<Rightarrow> ([], Diags_Add p sls [] ''exclude must hold a list, found %s'' [FStr (TypeName v)] diags))"

subsection \<open>Reading declarations\<close>

definition mustEntryPos :: "vmap \<Rightarrow> string \<Rightarrow> pos" where
  "mustEntryPos m k = (case Map_Entry m (KStr k) of Some e \<Rightarrow> KeyPos e | None \<Rightarrow> zero_pos)"

definition func_arg ::
  "string \<Rightarrow> string \<Rightarrow> string \<Rightarrow> FuncDecl \<times> Diags \<Rightarrow> entry \<Rightarrow> FuncDecl \<times> Diags" where
  "func_arg k sls ident = (\<lambda>(f, diags) ae.
     let name = KeyString (Key ae) in
     if Map_Has (fd_Args f) (KStr name) then
       (f, Diags_AddRelated (KeyPos ae) sls ident [(mustEntryPos (fd_Args f) name, ''first given here'')]
             ''argument %q is given twice to %s'' [FStr name, FStr k] diags)
     else
       (f\<lparr>fd_Args := Map_SetAt (fd_Args f) (KStr name) (Val ae) (KeyPos ae) (ValPos ae)\<rparr>, diags))"

fun func_item ::
  "string \<Rightarrow> pos \<Rightarrow> string \<Rightarrow> string \<Rightarrow> FuncDecl \<times> Diags \<Rightarrow> val \<Rightarrow> FuncDecl \<times> Diags" where
  "func_item k valPos sls ident (f, diags) (VStr arg) =
     (if fd_Fun f = [] then (f\<lparr>fd_Fun := arg\<rparr>, diags)
      else (f\<lparr>fd_Flags := fd_Flags f @ [arg]\<rparr>, diags))"
| "func_item k valPos sls ident st (VMap arg) = foldl (func_arg k sls ident) st (entries arg)"
| "func_item k valPos sls ident (f, diags) item =
     (f, Diags_Add valPos sls ident
           ''an argument to %s must be `- name: value` or a bare option, found %s''
           [FStr k, FStr (TypeName item)] diags)"

definition dict_arg :: "FuncDecl \<Rightarrow> entry \<Rightarrow> FuncDecl" where
  "dict_arg f ae =
     f\<lparr>fd_Args := Map_SetAt (fd_Args f) (KStr (KeyString (Key ae))) (Val ae) (KeyPos ae) (ValPos ae)\<rparr>"

definition func_header :: "string \<Rightarrow> pos \<Rightarrow> FuncDecl" where
  "func_header k keyPos =
     (case index_byte k CHR ''.'' of
        Some i \<Rightarrow> \<lparr>fd_State = take i k, fd_Fun = drop (i + 1) k, fd_Args = NewMap, fd_Flags = [], fd_Pos = keyPos\<rparr>
      | None \<Rightarrow> \<lparr>fd_State = k, fd_Fun = [], fd_Args = NewMap, fd_Flags = [], fd_Pos = keyPos\<rparr>)"

definition parseFuncDecl ::
  "string \<Rightarrow> entry \<Rightarrow> string \<Rightarrow> string \<Rightarrow> Diags \<Rightarrow> FuncDecl option \<times> Diags" where
  "parseFuncDecl k fe sls ident diags =
     (let f0 = func_header k (KeyPos fe);
          body = (case Val fe of
                    VNull \<Rightarrow> Some (f0, diags)
                  | VSeq items \<Rightarrow> Some (foldl (func_item k (ValPos fe) sls ident) (f0, diags) items)
                  | VMap m \<Rightarrow> Some (foldl dict_arg f0 (entries m), diags)
                  | _ \<Rightarrow> None)
      in case body of
           None \<Rightarrow> (None, Diags_Add (ValPos fe) sls ident
                            ''the arguments to %s must be a list or a mapping, found %s''
                            [FStr k, FStr (TypeName (Val fe))] diags)
         | Some (f, diags1) \<Rightarrow>
             if fd_Fun f = [] then
               (None, Diags_Add (KeyPos fe) sls ident
                        ''%q names a module with no function; write it as module.function'' [FStr k] diags1)
             else (Some f, diags1))"

definition is_dunder :: "string \<Rightarrow> bool" where
  "is_dunder k = (has_prefix k ''__'' \<and> has_suffix k ''__'')"

definition decl_func ::
  "string \<Rightarrow> string \<Rightarrow> FuncDecl list \<times> Diags \<Rightarrow> entry \<Rightarrow> FuncDecl list \<times> Diags" where
  "decl_func sls ident = (\<lambda>(fs, diags) fe.
     let k = KeyString (Key fe) in
     if is_dunder k then (fs, diags)
     else case parseFuncDecl k fe sls ident diags of
            (Some f, diags1) \<Rightarrow> (fs @ [f], diags1)
          | (None, diags1) \<Rightarrow> (fs, diags1))"

definition parseDecl ::
  "string \<Rightarrow> entry \<Rightarrow> string \<Rightarrow> string \<Rightarrow> Diags \<Rightarrow> Decl option \<times> Diags" where
  "parseDecl ident e sls env diags =
     (let d = \<lparr>d_ID = ident, d_SLS = sls, d_Env = env, d_Pos = KeyPos e, d_Funcs = [], d_Order = 0\<rparr> in
      case Val e of
        VStr short \<Rightarrow>
          (case parseFuncDecl short (Entry (KStr short) VNull (ValPos e) (ValPos e)) sls ident diags of
             (None, diags1) \<Rightarrow> (None, diags1)
           | (Some f, diags1) \<Rightarrow> (Some (d\<lparr>d_Funcs := [f]\<rparr>), diags1))
      | VMap body \<Rightarrow>
          (let (fs, diags1) = foldl (decl_func sls ident) ([], diags) (entries body) in
           if length fs = 0 then
             (None, Diags_Add (ValPos e) sls ident ''this state ID declares no module.function'' [] diags1)
           else (Some (d\<lparr>d_Funcs := fs\<rparr>), diags1))
      | v \<Rightarrow> (None, Diags_Add (ValPos e) sls ident
                ''a state ID must hold a mapping of module.function declarations, found %s''
                [FStr (TypeName v)] diags))"

record slsContent =
  sc_Includes :: "includeRef list"
  sc_Extends :: "vmap option"
  sc_Excludes :: "excludeRef list"
  sc_Decls :: "Decl list"

definition empty_content :: slsContent where
  "empty_content = \<lparr>sc_Includes = [], sc_Extends = None, sc_Excludes = [], sc_Decls = []\<rparr>"

definition sls_entry ::
  "string \<Rightarrow> string \<Rightarrow> string \<Rightarrow> slsContent \<times> Diags \<Rightarrow> entry \<Rightarrow> slsContent \<times> Diags" where
  "sls_entry sls env filePath = (\<lambda>(out, diags) e.
     let ident = KeyString (Key e) in
     if ident = ''include'' then
       (let (incs, diags1) = parseIncludes (Val e) sls env (isPackage filePath) (ValPos e) diags
        in (out\<lparr>sc_Includes := sc_Includes out @ incs\<rparr>, diags1))
     else if ident = ''extend'' then
       (case Val e of
          VMap m \<Rightarrow> (out\<lparr>sc_Extends := Some m\<rparr>, diags)
        | v \<Rightarrow> (out, Diags_Add (ValPos e) sls [] ''extend must hold a mapping of state IDs, found %s''
                  [FStr (TypeName v)] diags))
     else if ident = ''exclude'' then
       (let (excs, diags1) = parseExcludes (Val e) sls (ValPos e) diags
        in (out\<lparr>sc_Excludes := sc_Excludes out @ excs\<rparr>, diags1))
     else if is_dunder ident then (out, diags)
     else case parseDecl ident e sls env diags of
            (Some d, diags1) \<Rightarrow> (out\<lparr>sc_Decls := sc_Decls out @ [d]\<rparr>, diags1)
          | (None, diags1) \<Rightarrow> (out, diags1))"

definition parseSLS ::
  "val \<Rightarrow> string \<Rightarrow> string \<Rightarrow> string \<Rightarrow> Diags \<Rightarrow> slsContent \<times> Diags" where
  "parseSLS v sls env filePath diags =
     (case v of
        VNull \<Rightarrow> (empty_content, diags)
      | VMap doc \<Rightarrow> foldl (sls_entry sls env filePath) (empty_content, diags) (entries doc)
      | _ \<Rightarrow> (empty_content, Diags_Add (file_pos sls) sls []
                ''an SLS file must hold a mapping of state IDs, found %s'' [FStr (TypeName v)] diags))"

subsection \<open>One declaration per ID\<close>

text \<open>What the compiler relies on of a collection of declarations: the first one with an ID is kept
  and found by that ID, later ones change nothing.\<close>

locale id_store =
  fixes empty :: 'h
    and add :: "'d \<Rightarrow> 'h \<Rightarrow> 'h"
    and lookup :: "'h \<Rightarrow> 'i \<Rightarrow> 'd option"
    and ident :: "'d \<Rightarrow> 'i"
    and content :: "'d \<Rightarrow> 'c"
    and invar :: "'h \<Rightarrow> bool"
  assumes invar_empty: "invar empty"
    and invar_add: "invar h \<Longrightarrow> invar (add d h)"
    and lookup_empty: "lookup empty i = None"
    and lookup_add: "invar h \<Longrightarrow> map_option content (lookup (add d h) i) =
          (case lookup h i of Some x \<Rightarrow> Some (content x)
           | None \<Rightarrow> if i = ident d then Some (content d) else None)"
begin

lemma invar_add_all: "invar h \<Longrightarrow> invar (foldl (\<lambda>h d. add d h) h ds)"
  by (induction ds arbitrary: h) (auto intro: invar_add)

lemma lookup_add_all:
  "invar h \<Longrightarrow> map_option content (lookup (foldl (\<lambda>h d. add d h) h ds) i) =
     (case lookup h i of Some x \<Rightarrow> Some (content x)
      | None \<Rightarrow> map_option content (find (\<lambda>d. ident d = i) ds))"
proof (induction ds arbitrary: h)
  case Nil
  then show ?case by (auto split: option.splits)
next
  case (Cons d ds)
  have "map_option content (lookup (foldl (\<lambda>h d. add d h) h (d # ds)) i) =
      (case map_option content (lookup (add d h) i) of Some x \<Rightarrow> Some x
       | None \<Rightarrow> map_option content (find (\<lambda>d. ident d = i) ds))"
    using Cons.IH [OF invar_add [OF Cons.prems], of d] by (auto split: option.splits)
  then show ?case by (auto simp: lookup_add [OF Cons.prems] split: option.splits)
qed

lemma first_wins: "map_option content (lookup (foldl (\<lambda>h d. add d h) empty ds) i) =
     map_option content (find (\<lambda>d. ident d = i) ds)"
  by (simp add: lookup_add_all invar_empty lookup_empty)

end

text \<open>The index names the position of every ID, and every declaration knows its position.\<close>

definition hs_ok :: "HighState \<Rightarrow> bool" where
  "hs_ok h \<longleftrightarrow>
     (\<forall>i. gomap_get (hs_index h) i = find_index (\<lambda>d. d_ID d = i) (hs_decls h)) \<and>
     distinct (map d_ID (hs_decls h)) \<and>
     (\<forall>k < length (hs_decls h). d_Order (hs_decls h ! k) = int k)"

lemma hs_ok_New [simp]: "hs_ok NewHighState"
  by (simp add: hs_ok_def NewHighState_def)

lemma HighState_add_h: "fst (HighState_add d (h, diags)) = fst (HighState_add d (h, []))"
  by (simp add: HighState_add_def Let_def split: option.splits)

lemma hs_ok_add:
  assumes "hs_ok h"
  shows "hs_ok (fst (HighState_add d (h, diags)))"
proof (cases "gomap_get (hs_index h) (d_ID d)")
  case None
  with assms have "d_ID d \<notin> d_ID ` set (hs_decls h)" by (simp add: hs_ok_def find_index_key_None)
  with None assms show ?thesis
    by (auto simp: HighState_add_def hs_ok_def find_index_append nth_append less_Suc_eq
        split: option.splits)
next
  case (Some i)
  with assms show ?thesis by (simp add: HighState_add_def Let_def)
qed

lemma Lookup_find:
  assumes "hs_ok h"
  shows "HighState_Lookup h i = find (\<lambda>d. d_ID d = i) (hs_decls h)"
proof -
  have "find_index P xs = Some k \<Longrightarrow> find P xs = Some (xs ! k)" and "find_index P xs = None \<Longrightarrow> find P xs = None"
    for P and xs :: "Decl list" and k
    by (induction xs arbitrary: k) (auto split: if_splits)
  then show ?thesis using assms by (auto simp: HighState_Lookup_def hs_ok_def split: option.splits)
qed

lemma find_append: "find P (xs @ ys) = (case find P xs of Some x \<Rightarrow> Some x | None \<Rightarrow> find P ys)"
  by (induction xs) auto

definition decl_content :: "Decl \<Rightarrow> Decl" where
  "decl_content d = d\<lparr>d_Order := 0\<rparr>"

lemma Lookup_add:
  assumes "hs_ok h"
  shows "map_option decl_content (HighState_Lookup (fst (HighState_add d (h, diags))) i) =
     (case HighState_Lookup h i of Some x \<Rightarrow> Some (decl_content x)
      | None \<Rightarrow> if i = d_ID d then Some (decl_content d) else None)"
proof (cases "gomap_get (hs_index h) (d_ID d)")
  case None
  then have decls: "hs_decls (fst (HighState_add d (h, diags))) = hs_decls h @ [d\<lparr>d_Order := int (length (hs_decls h))\<rparr>]"
    by (simp add: HighState_add_def)
  show ?thesis
    unfolding Lookup_find [OF assms] Lookup_find [OF hs_ok_add [OF assms]] decls
    by (auto simp: find_append decl_content_def split: option.splits)
next
  case (Some k)
  then have "fst (HighState_add d (h, diags)) = h" by (simp add: HighState_add_def Let_def)
  moreover have "HighState_Lookup h (d_ID d) \<noteq> None" using Some by (simp add: HighState_Lookup_def)
  ultimately show ?thesis by (auto split: option.splits)
qed

interpretation hs: id_store NewHighState "\<lambda>d h. fst (HighState_add d (h, []))" HighState_Lookup d_ID
  decl_content hs_ok
  by unfold_locales (simp_all add: hs_ok_add Lookup_add, simp add: HighState_Lookup_def NewHighState_def)

lemma add_all_fst:
  "fst (foldl (\<lambda>s d. HighState_add d s) (h, diags) ds) = foldl (\<lambda>h d. fst (HighState_add d (h, []))) h ds"
proof (induction ds arbitrary: h diags)
  case (Cons d ds)
  obtain h' diags' where s: "HighState_add d (h, diags) = (h', diags')" by (cases "HighState_add d (h, diags)")
  then have "h' = fst (HighState_add d (h, []))" using HighState_add_h [of d h diags] by simp
  with s Cons.IH show ?case by simp
qed simp

lemma add_all_errors:
  "hs_ok h \<Longrightarrow> HasErrors (snd (foldl (\<lambda>s d. HighState_add d s) (h, diags) ds)) \<longleftrightarrow>
     HasErrors diags \<or> \<not> distinct (map d_ID ds) \<or> d_ID ` set ds \<inter> d_ID ` set (hs_decls h) \<noteq> {}"
proof (induction ds arbitrary: h diags)
  case (Cons d ds)
  show ?case
  proof (cases "gomap_get (hs_index h) (d_ID d)")
    case None
    with Cons.prems have fresh: "d_ID d \<notin> d_ID ` set (hs_decls h)" by (simp add: hs_ok_def find_index_key_None)
    let ?h = "fst (HighState_add d (h, diags))"
    have s: "HighState_add d (h, diags) = (?h, diags)"
      "d_ID ` set (hs_decls ?h) = insert (d_ID d) (d_ID ` set (hs_decls h))"
      using None by (simp_all add: HighState_add_def)
    have "foldl (\<lambda>s d. HighState_add d s) (h, diags) (d # ds) = foldl (\<lambda>s d. HighState_add d s) (?h, diags) ds"
      using s(1) by simp
    with Cons.IH [OF hs_ok_add [OF Cons.prems], of d diags diags] s(2) fresh show ?thesis by auto
  next
    case (Some i)
    with Cons.prems have "d_ID d \<in> d_ID ` set (hs_decls h)"
      using find_index_key_None [of d_ID "d_ID d" "hs_decls h"] by (simp add: hs_ok_def)
    moreover have "HasErrors (snd (HighState_add d (h, diags)))" "fst (HighState_add d (h, diags)) = h"
      using Some by (simp_all add: HighState_add_def Let_def)
    ultimately show ?thesis using Cons.IH [OF Cons.prems, of "snd (HighState_add d (h, diags))"]
      by (cases "HighState_add d (h, diags)") auto
  qed
qed simp

text \<open>State IDs are global. Assembling any sequence of declarations keeps the first declaration
  of every ID and finds it by that ID; an error is recorded exactly when some ID is declared twice;
  and every declaration that is kept carries its own position, which is what orders unconstrained
  states.\<close>

theorem HighState_first_declaration:
  "map_option decl_content (HighState_Lookup (fst (foldl (\<lambda>s d. HighState_add d s) (NewHighState, []) ds)) i) =
     map_option decl_content (find (\<lambda>d. d_ID d = i) ds) \<and>
   (HasErrors (snd (foldl (\<lambda>s d. HighState_add d s) (NewHighState, []) ds)) \<longleftrightarrow> \<not> distinct (map d_ID ds)) \<and>
   hs_ok (fst (foldl (\<lambda>s d. HighState_add d s) (NewHighState, []) ds))"
  using hs.first_wins [of ds i] hs.invar_add_all [OF hs.invar_empty, of ds]
    add_all_errors [OF hs_ok_New, of "[]" ds]
  by (simp add: add_all_fst NewHighState_def)

subsection \<open>Relative includes\<close>

text \<open>The components an including file counts back from: its SLS name's, and \<open>init\<close> for a package.\<close>

definition sls_components :: "string \<Rightarrow> bool \<Rightarrow> string list" where
  "sls_components sls pkg = (if sls = [] then [] else str_split sls ''.'') @ (if pkg then [''init''] else [])"

lemma str_join_snoc: "ws \<noteq> [] \<Longrightarrow> str_join sep (ws @ [w]) = str_join sep ws @ sep @ w"
  by (induction sep ws rule: str_join.induct) auto

lemma trim_left_dots:
  "rest = [] \<or> hd rest \<noteq> c \<Longrightarrow> trim_left c (replicate k c @ rest) = rest"
  by (induction k) (auto simp: trim_left_def dropWhile_eq_self_iff)

text \<open>A relative include is resolved by counting back components. A name with \<open>k\<close> leading dots
  replaces the last \<open>k\<close> components of the including file, where an \<open>init.sls\<close> counts as a file
  inside its own directory, so \<open>.foo\<close> names a sibling of a plain file and a child of a package; the
  only error is climbing past the root, and it is always reported.\<close>

theorem resolveRelative_components:
  assumes "0 < k" and "rest = [] \<or> hd rest \<noteq> CHR ''.''"
  shows "fst (resolveRelative (replicate k CHR ''.'' @ rest) sls pkg src p diags) =
      (if k \<le> length (sls_components sls pkg)
       then str_join ''.'' (take (length (sls_components sls pkg) - k) (sls_components sls pkg) @ [rest])
       else rest) \<and>
    (HasErrors (snd (resolveRelative (replicate k CHR ''.'' @ rest) sls pkg src p diags)) \<longleftrightarrow>
       HasErrors diags \<or> length (sls_components sls pkg) < k)"
proof -
  have dot: "has_prefix (replicate k CHR ''.'' @ rest) ''.''" using assms(1) by (cases k) auto
  have trim: "trim_left CHR ''.'' (replicate k CHR ''.'' @ rest) = rest"
    by (rule trim_left_dots [OF assms(2)])
  have comps: "(if pkg then (if sls \<noteq> [] then str_split sls ''.'' else []) @ [''init'']
      else if sls \<noteq> [] then str_split sls ''.'' else []) = sls_components sls pkg"
    by (simp add: sls_components_def)
  have up: "str_join ''.'' (take n cs @ [rest]) = (if n = 0 \<or> cs = [] then rest
      else str_join ''.'' (take n cs) @ ''.'' @ rest)" for n and cs :: "string list"
    by (cases "take n cs = []") (auto simp: str_join_snoc)
  show ?thesis
    unfolding resolveRelative_def Let_def trim comps
    using dot up by auto
qed

theorem resolveRelative_components_witness:
  "fst (resolveRelative ''.foo'' ''web.nginx'' False [] zero_pos []) = ''web.foo'' \<and>
   fst (resolveRelative ''.foo'' ''web.nginx'' True [] zero_pos []) = ''web.nginx.foo''"
proof -
  have "str_split ''web.nginx'' ''.'' = [''web'', ''nginx'']" by code_simp
  with resolveRelative_components [of 1 "''foo''" "''web.nginx''" False "[]" zero_pos "[]"]
    resolveRelative_components [of 1 "''foo''" "''web.nginx''" True "[]" zero_pos "[]"]
  show ?thesis by (simp add: sls_components_def)
qed

subsection \<open>The spellings of a declaration\<close>

definition str_keys :: "entry list \<Rightarrow> bool" where
  "str_keys es = list_all (\<lambda>e. case Key e of KStr _ \<Rightarrow> True | _ \<Rightarrow> False) es"

text \<open>One argument per list item, each a mapping with one key.\<close>

definition arg_items :: "entry list \<Rightarrow> val list" where
  "arg_items es = map (\<lambda>e. VMap (Map_SetAt NewMap (Key e) (Val e) (KeyPos e) (ValPos e))) es"

lemma entries_single: "entries (Map_SetAt NewMap k v kp vp) = [Entry k v kp vp]"
  by (simp add: Map_SetAt_def NewMap_def)

lemma func_arg_fresh:
  assumes "\<not> Map_Has (fd_Args f) (KStr (KeyString (Key e)))"
  shows "func_arg k sls ident (f, diags) e = (dict_arg f e, diags)"
  using assms by (simp add: func_arg_def dict_arg_def Let_def)

lemma func_items_dict:
  assumes "map_ok (fd_Args f)" and "distinct (map (\<lambda>e. KeyString (Key e)) es)"
    and "\<forall>e \<in> set es. \<not> Map_Has (fd_Args f) (KStr (KeyString (Key e)))"
  shows "foldl (func_item k vp sls ident) (f, diags) (arg_items es) = (foldl dict_arg f es, diags)"
  using assms
proof (induction es arbitrary: f)
  case Nil
  then show ?case by (simp add: arg_items_def)
next
  case (Cons e es)
  have e: "Entry (Key e) (Val e) (KeyPos e) (ValPos e) = e" by (cases e) simp
  have ok: "map_ok (fd_Args (dict_arg f e))" using Cons.prems(1) by (simp add: dict_arg_def map_inv)
  have "\<forall>x \<in> set es. \<not> Map_Has (fd_Args (dict_arg f e)) (KStr (KeyString (Key x)))"
    using Cons.prems by (auto simp: dict_arg_def Map_Has_def map_simps image_iff)
  from Cons.IH [OF ok _ this] Cons.prems func_arg_fresh [of f e k sls ident diags] show ?case
    by (simp add: arg_items_def entries_single e)
qed

lemma func_header_plain:
  assumes "CHR ''.'' \<notin> set st"
  shows "func_header (st @ ''.'' @ fn) kp =
      \<lparr>fd_State = st, fd_Fun = fn, fd_Args = NewMap, fd_Flags = [], fd_Pos = kp\<rparr>"
    and "func_header st kp = \<lparr>fd_State = st, fd_Fun = [], fd_Args = NewMap, fd_Flags = [], fd_Pos = kp\<rparr>"
proof -
  have none: "find_index (\<lambda>x. x = CHR ''.'') st = None" using assms by (auto simp: find_index_None)
  then show "func_header (st @ ''.'' @ fn) kp =
      \<lparr>fd_State = st, fd_Fun = fn, fd_Args = NewMap, fd_Flags = [], fd_Pos = kp\<rparr>"
    by (simp add: func_header_def index_byte_def find_index_append)
  from none show "func_header st kp = \<lparr>fd_State = st, fd_Fun = [], fd_Args = NewMap, fd_Flags = [], fd_Pos = kp\<rparr>"
    by (simp add: func_header_def index_byte_def)
qed

text \<open>The three spellings of a declaration mean the same. A function named \<open>module.function\<close>
  with a list of arguments, the same with a mapping, and the split form with the module as the key
  and the function as the first bare word of the list all give the same declaration and no
  diagnostics, for arguments with distinct names.\<close>

theorem parseFuncDecl_spellings:
  assumes "CHR ''.'' \<notin> set st" and "fn \<noteq> []"
    and "distinct (map (\<lambda>e. KeyString (Key e)) (entries m))"
  shows "parseFuncDecl (st @ ''.'' @ fn) (Entry k (VSeq (arg_items (entries m))) kp vp) sls ident diags =
        parseFuncDecl (st @ ''.'' @ fn) (Entry k (VMap m) kp vp) sls ident diags \<and>
      parseFuncDecl st (Entry k (VSeq (VStr fn # arg_items (entries m))) kp vp) sls ident diags =
        parseFuncDecl (st @ ''.'' @ fn) (Entry k (VMap m) kp vp) sls ident diags \<and>
      snd (parseFuncDecl (st @ ''.'' @ fn) (Entry k (VMap m) kp vp) sls ident diags) = diags"
proof -
  let ?f = "\<lparr>fd_State = st, fd_Fun = fn, fd_Args = NewMap, fd_Flags = [], fd_Pos = kp\<rparr>"
  have empty: "\<forall>e \<in> set (entries m). \<not> Map_Has (fd_Args ?f) (KStr (KeyString (Key e)))"
    by (simp add: Map_Has_def Map_Get_def NewMap_def)
  have items: "foldl (func_item key' vp sls ident) (?f, diags) (arg_items (entries m)) = (foldl dict_arg ?f (entries m), diags)" for key'
    by (rule func_items_dict [OF _ assms(3) empty]) simp
  have "fd_Fun (foldl dict_arg f es) = fd_Fun f" for f es
    by (induction es arbitrary: f) (simp_all add: dict_arg_def)
  then have "fd_Fun (foldl dict_arg ?f (entries m)) \<noteq> []" using assms(2) by simp
  then show ?thesis
    using items assms(2) by (simp add: parseFuncDecl_def func_header_plain [OF assms(1), simplified])
qed

definition sample_map :: vmap where
  "sample_map = Map_SetAt NewMap (KStr ''mode'') (VInt 644) zero_pos zero_pos"

theorem parseFuncDecl_spellings_witness:
  "parseFuncDecl ''file'' (Entry KNull (VSeq (VStr ''managed'' # arg_items (entries sample_map))) zero_pos zero_pos) [] [] [] =
   parseFuncDecl (''file'' @ ''.'' @ ''managed'') (Entry KNull (VMap sample_map) zero_pos zero_pos) [] [] []"
proof -
  have "CHR ''.'' \<notin> set ''file''" "''managed'' \<noteq> []"
    "distinct (map (\<lambda>e. KeyString (Key e)) (entries sample_map))"
    by (simp_all add: sample_map_def entries_single)
  from parseFuncDecl_spellings [OF this, of KNull zero_pos zero_pos "[]" "[]" "[]"] show ?thesis by blast
qed

end
