(* ===== verification/Lowstate.thy ===== *)
theory Lowstate
  imports Highstate Requisite
begin

text \<open>
  Building the low state (\<open>internal/state/lowstate.go\<close>): splitting a declaration's arguments into
  module arguments, runner options and requisites, reading the options, and expanding \<open>names\<close> into
  one chunk per name. Durations are read as in \<open>internal/value/duration.go\<close>.
\<close>

subsection \<open>Durations\<close>

definition second :: int where
  "second = 1000000000"

text \<open>The cases for a Go \<open>time.Duration\<close> and \<open>int\<close> have no value of the document model.\<close>

definition ParseDuration :: "go_runtime \<Rightarrow> val \<Rightarrow> (string \<times> fmt_arg list) + int" where
  "ParseDuration rt v =
     (case v of
        VInt t \<Rightarrow> Inr (wrap64 (t * second))
      | VFloat t \<Rightarrow> Inr (rt_FloatSeconds rt t)
      | VStr t \<Rightarrow>
          (case rt_ParseDuration rt t of
             Some dur \<Rightarrow> Inr dur
           | None \<Rightarrow>
               (case rt_ParseSeconds rt t of
                  Some dur \<Rightarrow> Inr dur
                | None \<Rightarrow> Inl (''%q is not a duration: write it as a number of seconds, or with a unit such as 15m'',
                              [FStr t])))
      | VNull \<Rightarrow> Inl (''a duration is missing'', [])
      | _ \<Rightarrow> Inl (''%s is not a duration: write it as a number of seconds, or with a unit such as 15m'',
               [FStr (TypeName v)]))"

definition asDuration :: "go_runtime \<Rightarrow> val \<Rightarrow> (string \<times> fmt_arg list) + int" where
  "asDuration rt v = ParseDuration rt v"

subsection \<open>Options\<close>

definition optionNames :: "string list" where
  "optionNames =
     [''unless'', ''onlyif'', ''creates'', ''check_cmd'',
      ''retry'', ''parallel'', ''order'', ''failhard'',
      ''reload_modules'', ''reload_grains'', ''reload_pillar'',
      ''runas'', ''runas_password'', ''umask'', ''timeout'',
      ''fire_event'', ''aggregate'', ''names'']"

definition IsOptionArg :: "string \<Rightarrow> bool" where
  "IsOptionArg name = (name \<in> set optionNames)"

definition asAnyList :: "val \<Rightarrow> val list" where
  "asAnyList v = (case v of VSeq t \<Rightarrow> t | VNull \<Rightarrow> [] | _ \<Rightarrow> [v])"

definition string_item :: "pos \<Rightarrow> Decl \<Rightarrow> string \<Rightarrow> string list \<times> Diags \<Rightarrow> val \<Rightarrow> string list \<times> Diags" where
  "string_item p d name = (\<lambda>(out, diags) item.
     case item of
       VStr s \<Rightarrow> (out @ [s], diags)
     | _ \<Rightarrow> (out, Diags_Add p (d_SLS d) (d_ID d) ''%s entries must be strings, found %s''
                   [FStr name, FStr (TypeName item)] diags))"

definition asStringList :: "val \<Rightarrow> pos \<Rightarrow> Decl \<Rightarrow> string \<Rightarrow> Diags \<Rightarrow> string list \<times> Diags" where
  "asStringList v p d name diags =
     (case v of
        VStr t \<Rightarrow> ([t], diags)
      | VSeq t \<Rightarrow> foldl (string_item p d name) ([], diags) t
      | VNull \<Rightarrow> ([], diags)
      | _ \<Rightarrow> ([], Diags_Add p (d_SLS d) (d_ID d) ''%s must be a string or a list, found %s''
                   [FStr name, FStr (TypeName v)] diags))"

definition retry_entry :: "go_runtime \<Rightarrow> Decl \<Rightarrow> Retry \<times> Diags \<Rightarrow> entry \<Rightarrow> Retry \<times> Diags" where
  "retry_entry rt d = (\<lambda>(r, diags) e.
     let k = KeyString (Key e); sls = d_SLS d; ident = d_ID d in
     if k = ''attempts'' then
       (case Val e of
          VInt n \<Rightarrow> (r\<lparr>retry_Attempts := n\<rparr>, diags)
        | _ \<Rightarrow> (r, Diags_Add (ValPos e) sls ident ''retry attempts must be an integer'' [] diags))
     else if k = ''interval'' then
       (case asDuration rt (Val e) of
          Inr dur \<Rightarrow> (r\<lparr>retry_Interval := dur\<rparr>, diags)
        | Inl _ \<Rightarrow> (r, Diags_Add (ValPos e) sls ident ''retry interval must be a duration'' [] diags))
     else if k = ''splay'' then
       (case asDuration rt (Val e) of
          Inr dur \<Rightarrow> (r\<lparr>retry_Splay := dur\<rparr>, diags)
        | Inl _ \<Rightarrow> (r, Diags_Add (ValPos e) sls ident ''retry splay must be a duration'' [] diags))
     else if k = ''until'' then (r\<lparr>retry_Until := Truthy (Val e)\<rparr>, diags)
     else (r, Diags_Add (KeyPos e) sls ident
               ''retry has no option %q; it takes attempts, interval, until, and splay'' [FStr k] diags))"

definition parseRetry :: "go_runtime \<Rightarrow> val \<Rightarrow> pos \<Rightarrow> Decl \<Rightarrow> Diags \<Rightarrow> Retry option \<times> Diags" where
  "parseRetry rt v p d diags =
     (let r0 = \<lparr>retry_Attempts = 2, retry_Interval = 30 * second, retry_Until = True, retry_Splay = 0\<rparr> in
      case v of
        VMap m \<Rightarrow>
          (let (r, diags1) = foldl (retry_entry rt d) (r0, diags) (entries m) in
           if retry_Attempts r < 1 then
             (Some r, Diags_Add p (d_SLS d) (d_ID d) ''retry attempts must be at least 1'' [] diags1)
           else (Some r, diags1))
      | _ \<Rightarrow> (if Truthy v then Some r0 else None, diags))"

definition parseOrder :: "Decl \<Rightarrow> val \<Rightarrow> pos \<Rightarrow> Options \<times> Diags \<Rightarrow> Options \<times> Diags" where
  "parseOrder d v p = (\<lambda>(opts, diags).
     case v of
       VInt t \<Rightarrow> (opts\<lparr>o_OrderMode := OrderExplicit, o_OrderValue := t\<rparr>, diags)
     | VStr t \<Rightarrow>
         if equal_fold t ''last'' then (opts\<lparr>o_OrderMode := OrderLast\<rparr>, diags)
         else if equal_fold t ''first'' then
           (opts\<lparr>o_OrderMode := OrderExplicit, o_OrderValue := 0\<rparr>, diags)
         else
           (case atoi t of
              None \<Rightarrow> (opts, Diags_Add p (d_SLS d) (d_ID d)
                        ''order must be an integer, `first`, or `last`, found %q'' [FStr t] diags)
            | Some n \<Rightarrow> (opts\<lparr>o_OrderMode := OrderExplicit, o_OrderValue := n\<rparr>, diags))
     | _ \<Rightarrow> (opts, Diags_Add p (d_SLS d) (d_ID d)
               ''order must be an integer, `first`, or `last`, found %s'' [FStr (TypeName v)] diags))"

text \<open>The options in the order the code reads them, each with what it does with its value.\<close>

type_synonym option_action = "val \<Rightarrow> pos \<Rightarrow> Options \<times> Diags \<Rightarrow> Options \<times> Diags"

definition set_field :: "(val \<Rightarrow> Options \<Rightarrow> Options) \<Rightarrow> option_action" where
  "set_field upd v p = (\<lambda>(opts, diags). (upd v opts, diags))"

definition plain_actions :: "go_runtime \<Rightarrow> Decl \<Rightarrow> (string \<times> option_action) list" where
  "plain_actions rt d =
     [(''unless'', set_field (\<lambda>v. o_Unless_update (\<lambda>_. asAnyList v))),
      (''onlyif'', set_field (\<lambda>v. o_OnlyIf_update (\<lambda>_. asAnyList v))),
      (''creates'', (\<lambda>v p (opts, diags).
         let (xs, diags1) = asStringList v p d ''creates'' diags in (opts\<lparr>o_Creates := xs\<rparr>, diags1))),
      (''check_cmd'', (\<lambda>v p (opts, diags).
         let (xs, diags1) = asStringList v p d ''check_cmd'' diags in (opts\<lparr>o_CheckCmd := xs\<rparr>, diags1))),
      (''parallel'', set_field (\<lambda>v. o_Parallel_update (\<lambda>_. Truthy v))),
      (''reload_modules'', set_field (\<lambda>v. o_ReloadModules_update (\<lambda>_. Truthy v))),
      (''reload_grains'', set_field (\<lambda>v. o_ReloadGrains_update (\<lambda>_. Truthy v))),
      (''reload_pillar'', set_field (\<lambda>v. o_ReloadPillar_update (\<lambda>_. Truthy v))),
      (''aggregate'', set_field (\<lambda>v. o_Aggregate_update (\<lambda>_. Truthy v))),
      (''fire_event'', set_field (\<lambda>v. o_FireEvent_update (\<lambda>_. v))),
      (''runas'', set_field (\<lambda>v. o_RunAs_update (\<lambda>_. KeyString_any (rt_sprint rt) v))),
      (''runas_password'', set_field (\<lambda>v. o_RunAsPassword_update (\<lambda>_. str_or_empty v))),
      (''umask'', set_field (\<lambda>v. o_Umask_update (\<lambda>_. KeyString_any (rt_sprint rt) v))),
      (''failhard'', set_field (\<lambda>v. o_FailHard_update (\<lambda>_. Some (Truthy v)))),
      (''timeout'', (\<lambda>v p (opts, diags).
         case asDuration rt v of
           Inr dur \<Rightarrow> (opts\<lparr>o_Timeout := dur\<rparr>, diags)
         | Inl (fmt, args) \<Rightarrow>
             (opts, Diags_Add p (d_SLS d) (d_ID d) ''timeout: %v'' [FErr fmt args] diags))),
      (''order'', parseOrder d)]"

definition retry_action :: "go_runtime \<Rightarrow> Decl \<Rightarrow> option_action" where
  "retry_action rt d v p = (\<lambda>(opts, diags).
     let (r, diags1) = parseRetry rt v p d diags in (opts\<lparr>o_Retry := r\<rparr>, diags1))"

definition option_actions :: "go_runtime \<Rightarrow> Decl \<Rightarrow> (string \<times> option_action) list" where
  "option_actions rt d = plain_actions rt d @ [(''retry'', retry_action rt d)]"

definition read_option :: "vmap \<Rightarrow> Options \<times> Diags \<Rightarrow> string \<times> option_action \<Rightarrow> Options \<times> Diags" where
  "read_option args st = (\<lambda>(name, act).
     case Map_Entry args (KStr name) of None \<Rightarrow> st | Some e \<Rightarrow> act (Val e) (ValPos e) st)"

definition parseOptions :: "go_runtime \<Rightarrow> FuncDecl \<Rightarrow> Decl \<Rightarrow> Diags \<Rightarrow> Options \<times> Diags" where
  "parseOptions rt f d diags =
     foldl (read_option (fd_Args f)) (zero_Options, diags) (option_actions rt d)"

subsection \<open>Requisites\<close>

definition isForwardReq :: "string \<Rightarrow> bool" where
  "isForwardReq name \<longleftrightarrow> gomap_get forwardReqs name \<noteq> None"

definition forwardOf :: "string \<Rightarrow> string" where
  "forwardOf name = trim_suffix name ''_in''"

definition keep_listen ::
  "pos \<Rightarrow> Decl \<Rightarrow> string \<Rightarrow> ReqRef list \<times> Diags \<Rightarrow> ReqRef \<Rightarrow> ReqRef list \<times> Diags" where
  "keep_listen p d name = (\<lambda>(kept, diags) ref.
     if ref_SLS ref \<noteq> [] then
       (kept, Diags_Add p (d_SLS d) (d_ID d) listenSLSRefusal [FStr name, FStr (ref_SLS ref)] diags)
     else (kept @ [ref], diags))"

definition collect_entry :: "Decl \<Rightarrow> Req list \<times> Diags \<Rightarrow> entry \<Rightarrow> Req list \<times> Diags" where
  "collect_entry d = (\<lambda>(out, diags) e.
     let name = KeyString (Key e) in
     case gomap_get forwardReqs name of
       None \<Rightarrow> (out, diags)
     | Some kind \<Rightarrow>
         let (refs0, diags1) = parseReqList (Val e) (ValPos e) (d_SLS d) (d_ID d) name diags;
             (refs, diags2) = (if kind = Listen
                               then foldl (keep_listen (ValPos e) d name) ([], diags1) refs0
                               else (refs0, diags1))
         in if length refs = 0 then (out, diags2)
            else (out @ [\<lparr>req_Kind = kind, req_Refs = refs, req_Resolved = []\<rparr>], diags2))"

definition collectRequisites :: "FuncDecl \<Rightarrow> Decl \<Rightarrow> Diags \<Rightarrow> Req list \<times> Diags" where
  "collectRequisites f d diags = foldl (collect_entry d) ([], diags) (entries (fd_Args f))"

subsection \<open>Chunks of a declaration\<close>

definition argPos :: "vmap \<Rightarrow> string \<Rightarrow> pos" where
  "argPos args name = (case Map_Entry args (KStr name) of Some e \<Rightarrow> KeyPos e | None \<Rightarrow> zero_pos)"

definition extractNames :: "vmap \<Rightarrow> Decl \<Rightarrow> Diags \<Rightarrow> val list \<times> Diags" where
  "extractNames args d diags =
     (case Map_Get args (KStr ''names'') of
        None \<Rightarrow> ([], diags)
      | Some (VSeq t) \<Rightarrow> (t, diags)
      | Some VNull \<Rightarrow> ([], diags)
      | Some v \<Rightarrow> ([], Diags_Add (argPos args ''names'') (d_SLS d) (d_ID d)
                         ''names must hold a list, found %s'' [FStr (TypeName v)] diags))"

definition own_item :: "Chunk \<Rightarrow> Decl \<Rightarrow> vmap \<times> Diags \<Rightarrow> val \<Rightarrow> vmap \<times> Diags" where
  "own_item c d = (\<lambda>(own, diags) item.
     case item of
       VMap m \<Rightarrow> (foldl set_entry own (entries m), diags)
     | _ \<Rightarrow> (own, Diags_Add (ch_Pos c) (d_SLS d) (d_ID d)
               ''a names entry's arguments must be `key: value` pairs, found %s''
               [FStr (TypeName item)] diags))"

definition own_args :: "Chunk \<Rightarrow> Decl \<Rightarrow> val \<Rightarrow> Diags \<Rightarrow> vmap \<times> Diags" where
  "own_args c d v diags =
     (case v of
        VNull \<Rightarrow> (NewMap, diags)
      | VMap sub \<Rightarrow> (foldl set_entry NewMap (entries sub), diags)
      | VSeq sub \<Rightarrow> foldl (own_item c d) (NewMap, diags) sub
      | _ \<Rightarrow> (NewMap, Diags_Add (ch_Pos c) (d_SLS d) (d_ID d)
               ''a names entry's arguments must be a mapping or a list of them, found %s''
               [FStr (TypeName v)] diags))"

text \<open>The state of the loop over a name's own arguments: the chunk, the arguments merged with the
  declaration's, and whether an option or a requisite was among them.\<close>

record own_state =
  os_chunk :: Chunk
  os_merged :: vmap
  os_options :: bool
  os_requisites :: bool
  os_diags :: Diags

definition own_entry :: "Decl \<Rightarrow> own_state \<Rightarrow> entry \<Rightarrow> own_state" where
  "own_entry d st se =
     (let name = KeyString (Key se);
          c = os_chunk st;
          st1 = st\<lparr>os_merged := set_entry (os_merged st) se\<rparr>
      in
      if name = ''names'' then
        st1\<lparr>os_diags := Diags_Add (ch_Pos c) (d_SLS d) (d_ID d)
              ''a names entry cannot carry `names` of its own'' [] (os_diags st)\<rparr>
      else if IsRequisiteArg name \<and> \<not> isForwardReq name then
        st1\<lparr>os_diags := Diags_Add (ch_Pos c) (d_SLS d) (d_ID d)
              ''`%s` cannot be given to one name; put it on the declaration, or a `%s` on the other state''
              [FStr name, FStr (forwardOf name)] (os_diags st)\<rparr>
      else if IsRequisiteArg name then st1\<lparr>os_requisites := True\<rparr>
      else if IsOptionArg name then
        st1\<lparr>os_options := True, os_chunk := c\<lparr>ch_OptionArgs := set_entry (ch_OptionArgs c) se\<rparr>\<rparr>
      else st1\<lparr>os_chunk := c\<lparr>ch_Args := set_entry (ch_Args c) se\<rparr>\<rparr>)"

definition applyPerNameArgs ::
  "go_runtime \<Rightarrow> Chunk \<Rightarrow> FuncDecl \<Rightarrow> val \<Rightarrow> Decl \<Rightarrow> Diags \<Rightarrow> Chunk \<times> Diags" where
  "applyPerNameArgs rt c f v d diags =
     (let (own, diags1) = own_args c d v diags in
      if Map_Len own = 0 then (c, diags1)
      else
        let st = foldl (own_entry d)
                   \<lparr>os_chunk = c, os_merged = foldl set_entry NewMap (entries (fd_Args f)),
                    os_options = False, os_requisites = False, os_diags = diags1\<rparr>
                   (entries own);
            merged = f\<lparr>fd_Args := os_merged st\<rparr>;
            (c1, diags2) = (if os_options st
                            then let (o', ds) = parseOptions rt merged d (os_diags st)
                                 in ((os_chunk st)\<lparr>ch_Opts := o'\<rparr>, ds)
                            else (os_chunk st, os_diags st))
        in if os_requisites st
           then let (rs, ds) = collectRequisites merged d diags2 in (c1\<lparr>ch_Reqs := rs\<rparr>, ds)
           else (c1, diags2))"

definition split_entry :: "vmap \<times> vmap \<Rightarrow> entry \<Rightarrow> vmap \<times> vmap" where
  "split_entry = (\<lambda>(args, optionArgs) e.
     let name = KeyString (Key e) in
     if name = ''name'' \<or> name = ''names'' then (args, optionArgs)
     else if IsRequisiteArg name then (args, optionArgs)
     else if IsOptionArg name then (args, set_entry optionArgs e)
     else (set_entry args e, optionArgs))"

definition base_chunk :: "go_runtime \<Rightarrow> Decl \<Rightarrow> FuncDecl \<Rightarrow> Diags \<Rightarrow> Chunk \<times> Diags" where
  "base_chunk rt d f diags =
     (let (name, diags1) =
            (case Map_Get (fd_Args f) (KStr ''name'') of
               None \<Rightarrow> (d_ID d, diags)
             | Some (VStr s) \<Rightarrow> (s, diags)
             | Some v \<Rightarrow> (d_ID d, Diags_Add (argPos (fd_Args f) ''name'') (d_SLS d) (d_ID d)
                 ''name must be a string, found %s; quote it if the value looks like a number or a boolean''
                 [FStr (TypeName v)] diags));
          (args, optionArgs) = foldl split_entry (NewMap, NewMap) (entries (fd_Args f));
          (opts, diags2) = parseOptions rt f d diags1;
          (reqs, diags3) = collectRequisites f d diags2
      in (\<lparr>ch_ID = d_ID d, ch_SLS = d_SLS d, ch_Env = d_Env d, ch_State = fd_State f, ch_Fun = fd_Fun f,
           ch_Name = name, ch_Args = args, ch_Reqs = reqs, ch_Opts = opts, ch_OptionArgs = optionArgs,
           ch_DeclOrder = d_Order d, ch_SeqOrder = 0, ch_RunNum = 0, ch_Pos = fd_Pos f\<rparr>, diags3))"

definition set_name :: "Chunk \<Rightarrow> Chunk" where
  "set_name c = c\<lparr>ch_Args := Map_Set (ch_Args c) (KStr ''name'') (VStr (ch_Name c))\<rparr>"

definition name_chunk ::
  "go_runtime \<Rightarrow> Decl \<Rightarrow> FuncDecl \<Rightarrow> Chunk \<Rightarrow> Chunk list \<times> Diags \<Rightarrow> nat \<times> val \<Rightarrow> Chunk list \<times> Diags" where
  "name_chunk rt d f base = (\<lambda>(out, diags) (i, n).
     let c = base\<lparr>ch_Name := [], ch_Args := Deep_map (ch_Args base),
                  ch_OptionArgs := Deep_map (ch_OptionArgs base), ch_SeqOrder := int i\<rparr>
     in case n of
          VMap t \<Rightarrow>
            (if Map_Len t \<noteq> 1 then
               (out, Diags_Add (ch_Pos c) (d_SLS d) (d_ID d)
                       ''a names entry mapping must have exactly one key'' [] diags)
             else
               let e = entries t ! 0;
                   (c1, diags1) = applyPerNameArgs rt (c\<lparr>ch_Name := KeyString (Key e)\<rparr>) f (Val e) d diags
               in (out @ [set_name c1], diags1))
        | _ \<Rightarrow> (out @ [set_name (c\<lparr>ch_Name := KeyString_any (rt_sprint rt) n\<rparr>)], diags))"

definition buildChunksForFunc :: "go_runtime \<Rightarrow> Decl \<Rightarrow> FuncDecl \<Rightarrow> Diags \<Rightarrow> Chunk list \<times> Diags" where
  "buildChunksForFunc rt d f diags =
     (let (names, diags1) = extractNames (fd_Args f) d diags;
          (base, diags2) = base_chunk rt d f diags1
      in if length names = 0 then ([set_name base], diags2)
         else foldl (name_chunk rt d f base) ([], diags2) (enumerate 0 names))"

definition buildChunks :: "go_runtime \<Rightarrow> Decl \<Rightarrow> Diags \<Rightarrow> Chunk list \<times> Diags" where
  "buildChunks rt d diags =
     (let (css, diags1) = map_accum (\<lambda>ds f. buildChunksForFunc rt d f ds) diags (d_Funcs d)
      in (concat css, diags1))"

subsection \<open>Diagnostics only accumulate\<close>

lemma foldl_errors:
  assumes "\<And>s x. HasErrors (snd s) \<Longrightarrow> HasErrors (snd (f s x))" and "HasErrors (snd s)"
  shows "HasErrors (snd (foldl f s xs))"
  using assms by (induction xs arbitrary: s) auto

lemma string_item_errors: "HasErrors (snd st) \<Longrightarrow> HasErrors (snd (string_item p d n st v))"
  by (cases v; cases st) (auto simp: string_item_def)

lemma asStringList_errors: "HasErrors diags \<Longrightarrow> HasErrors (snd (asStringList v p d n diags))"
  by (cases v) (simp_all add: asStringList_def foldl_errors [where f = "string_item p d n", OF string_item_errors])

lemma retry_entry_errors: "HasErrors (snd st) \<Longrightarrow> HasErrors (snd (retry_entry rt d st e))"
  by (cases st) (auto simp: retry_entry_def Let_def split: val.splits sum.splits)

lemma parseRetry_errors: "HasErrors diags \<Longrightarrow> HasErrors (snd (parseRetry rt v p d diags))"
proof (cases v)
  case (VMap m)
  assume "HasErrors diags"
  then have "HasErrors (snd (foldl (retry_entry rt d) (r0, diags) (entries m)))" for r0
    by (simp add: foldl_errors [where f = "retry_entry rt d", OF retry_entry_errors])
  then show ?thesis by (auto simp: parseRetry_def VMap split_beta Let_def)
qed (simp_all add: parseRetry_def Let_def)

lemma parseOrder_errors: "HasErrors (snd st) \<Longrightarrow> HasErrors (snd (parseOrder d v p st))"
  by (cases st) (auto simp: parseOrder_def split: val.splits option.splits)

lemma set_field_errors: "HasErrors (snd st) \<Longrightarrow> HasErrors (snd (set_field u v p st))"
  by (cases st) (simp add: set_field_def)

lemma option_action_errors:
  "(n, act) \<in> set (option_actions rt d) \<Longrightarrow> HasErrors (snd st) \<Longrightarrow> HasErrors (snd (act v p st))"
  by (cases st)
    (auto simp: option_actions_def plain_actions_def retry_action_def set_field_errors parseOrder_errors asStringList_errors parseRetry_errors
      split_beta Let_def split: sum.splits)

lemma parseOptions_errors: "HasErrors diags \<Longrightarrow> HasErrors (snd (parseOptions rt f d diags))"
proof -
  assume e: "HasErrors diags"
  have "set acts \<subseteq> set (option_actions rt d) \<Longrightarrow> HasErrors (snd st) \<Longrightarrow>
      HasErrors (snd (foldl (read_option args) st acts))" for acts st args
  proof (induction acts arbitrary: st)
    case (Cons a acts)
    then have "HasErrors (snd (read_option args st a))"
      using option_action_errors [of "fst a" "snd a" rt d st]
      by (auto simp: read_option_def split_beta split: option.splits)
    with Cons show ?case by simp
  qed simp
  with e show ?thesis by (simp add: parseOptions_def)
qed

lemma parseReqItem_errors: "HasErrors (snd st) \<Longrightarrow> HasErrors (snd (parseReqItem p sls ident st v))"
  by (cases v; cases st) (auto simp: Let_def split: val.splits)

lemma parseReqList_errors: "HasErrors diags \<Longrightarrow> HasErrors (snd (parseReqList v p sls ident n diags))"
  by (cases v) (simp_all add: parseReqList_def parseReqItem_errors
      foldl_errors [where f = "parseReqItem p sls ident", OF parseReqItem_errors] del: foldl_Cons)

lemma keep_listen_errors: "HasErrors (snd st) \<Longrightarrow> HasErrors (snd (keep_listen p d n st ref))"
  by (cases st) (simp add: keep_listen_def)

lemma collect_entry_errors: "HasErrors (snd st) \<Longrightarrow> HasErrors (snd (collect_entry d st e))"
proof -
  assume e: "HasErrors (snd st)"
  obtain out diags where st: "st = (out, diags)" by (cases st)
  let ?l = "parseReqList (Val e) (ValPos e) (d_SLS d) (d_ID d) (KeyString (Key e)) diags"
  have l: "HasErrors (snd ?l)" using e st by (simp add: parseReqList_errors)
  then have "HasErrors (snd (foldl (keep_listen (ValPos e) d (KeyString (Key e))) ([], snd ?l) (fst ?l)))"
    by (simp add: foldl_errors [where f = "keep_listen (ValPos e) d (KeyString (Key e))", OF keep_listen_errors])
  with l e show ?thesis by (auto simp: st collect_entry_def Let_def split_beta split: option.splits)
qed

lemma collectRequisites_errors: "HasErrors diags \<Longrightarrow> HasErrors (snd (collectRequisites f d diags))"
  by (simp add: collectRequisites_def foldl_errors [where f = "collect_entry d", OF collect_entry_errors])

lemma own_entry_errors: "HasErrors (os_diags st) \<Longrightarrow> HasErrors (os_diags (own_entry d st e))"
  by (simp add: own_entry_def Let_def)

lemma own_entries_errors: "HasErrors (os_diags st) \<Longrightarrow> HasErrors (os_diags (foldl (own_entry d) st es))"
  by (induction es arbitrary: st) (auto intro: own_entry_errors)

lemma own_args_errors: "HasErrors diags \<Longrightarrow> HasErrors (snd (own_args c d v diags))"
proof -
  assume e: "HasErrors diags"
  have "HasErrors (snd st) \<Longrightarrow> HasErrors (snd (own_item c d st i))" for st i
    by (cases st; cases i) (auto simp: own_item_def)
  then have "HasErrors (snd (foldl (own_item c d) (NewMap, diags) xs))" for xs
    by (simp add: e foldl_errors [where f = "own_item c d"])
  with e show ?thesis by (cases v) (auto simp: own_args_def)
qed

lemma applyPerNameArgs_errors: "HasErrors diags \<Longrightarrow> HasErrors (snd (applyPerNameArgs rt c f v d diags))"
proof -
  assume "HasErrors diags"
  then have own: "HasErrors (snd (own_args c d v diags))" by (rule own_args_errors)
  define st where "st = foldl (own_entry d)
      \<lparr>os_chunk = c, os_merged = foldl set_entry NewMap (entries (fd_Args f)),
       os_options = False, os_requisites = False, os_diags = snd (own_args c d v diags)\<rparr>
      (entries (fst (own_args c d v diags)))"
  have "HasErrors (os_diags st)" unfolding st_def by (rule own_entries_errors) (simp add: own)
  with own parseOptions_errors collectRequisites_errors show ?thesis
    by (auto simp: applyPerNameArgs_def split_beta Let_def st_def [symmetric])
qed

subsection \<open>What a chunk carries\<close>

text \<open>Only module arguments reach the module: no requisite and no runner option.\<close>

definition module_key :: "key \<Rightarrow> bool" where
  "module_key k \<longleftrightarrow> \<not> IsRequisiteArg (KeyString k) \<and> \<not> IsOptionArg (KeyString k)"

definition args_ok :: "vmap \<Rightarrow> bool" where
  "args_ok m \<longleftrightarrow> map_ok m \<and> list_all module_key (Map_Keys m)"

definition retry_ok :: "Options \<Rightarrow> bool" where
  "retry_ok opts \<longleftrightarrow> (case o_Retry opts of None \<Rightarrow> True | Some r \<Rightarrow> 1 \<le> retry_Attempts r)"

definition unresolved :: "Req list \<Rightarrow> bool" where
  "unresolved rs \<longleftrightarrow> list_all (\<lambda>r. req_Resolved r = []) rs"

text \<open>The chunk of one function of a declaration, before and after its \<open>name\<close> argument is set.\<close>

definition chunk_of :: "Decl \<Rightarrow> FuncDecl \<Rightarrow> Chunk \<Rightarrow> bool" where
  "chunk_of d f c \<longleftrightarrow>
     ch_ID c = d_ID d \<and> ch_SLS c = d_SLS d \<and> ch_Env c = d_Env d \<and> ch_DeclOrder c = d_Order d \<and>
     ch_State c = fd_State f \<and> ch_Fun c = fd_Fun f \<and> args_ok (ch_Args c) \<and> unresolved (ch_Reqs c)"

definition chunk_ok :: "Decl \<Rightarrow> FuncDecl \<Rightarrow> Chunk \<Rightarrow> bool" where
  "chunk_ok d f c \<longleftrightarrow> chunk_of d f c \<and> Map_Get (ch_Args c) (KStr ''name'') = Some (VStr (ch_Name c))"

lemma args_ok_set_entry: "args_ok m \<Longrightarrow> module_key (Key e) \<Longrightarrow> args_ok (set_entry m e)"
  by (auto simp: args_ok_def set_entry_def map_inv map_simps)

lemma module_key_name: "module_key (KStr ''name'')"
  by code_simp

lemma chunk_ok_set_name: "chunk_of d f c \<Longrightarrow> chunk_ok d f (set_name c)"
  by (auto simp: chunk_ok_def chunk_of_def set_name_def args_ok_def Map_Set_def map_inv map_simps module_key_name)

lemma split_entry_ok: "args_ok (fst st) \<Longrightarrow> args_ok (fst (split_entry st e))"
  by (cases st) (auto simp: split_entry_def Let_def module_key_def intro: args_ok_set_entry)

lemma split_entries_ok: "args_ok (fst st) \<Longrightarrow> args_ok (fst (foldl split_entry st es))"
  by (induction es arbitrary: st) (simp_all add: split_entry_ok)

lemma collect_entry_unresolved: "unresolved (fst st) \<Longrightarrow> unresolved (fst (collect_entry d st e))"
  by (cases st) (auto simp: collect_entry_def Let_def split_beta unresolved_def split: option.splits)

lemma collectRequisites_unresolved: "unresolved (fst (collectRequisites f d diags))"
proof -
  have "unresolved (fst st) \<Longrightarrow> unresolved (fst (foldl (collect_entry d) st es))" for st es
    by (induction es arbitrary: st) (simp_all add: collect_entry_unresolved)
  then show ?thesis by (simp add: collectRequisites_def unresolved_def)
qed

lemma base_chunk_of: "chunk_of d f (fst (base_chunk rt d f diags))"
  using split_entries_ok [of "(NewMap, NewMap)" "entries (fd_Args f)"] collectRequisites_unresolved
  by (simp add: base_chunk_def chunk_of_def split_beta Let_def args_ok_def)

lemma own_entry_of: "chunk_of d f (os_chunk st) \<Longrightarrow> chunk_of d f (os_chunk (own_entry d st e))"
  by (auto simp: own_entry_def Let_def chunk_of_def module_key_def intro: args_ok_set_entry)

lemma own_entries_of: "chunk_of d f (os_chunk st) \<Longrightarrow> chunk_of d f (os_chunk (foldl (own_entry d) st es))"
  by (induction es arbitrary: st) (auto intro: own_entry_of)

lemma applyPerNameArgs_of:
  assumes "chunk_of d f c"
  shows "chunk_of d f (fst (applyPerNameArgs rt c f v d diags))"
proof -
  define st where "st = foldl (own_entry d)
      \<lparr>os_chunk = c, os_merged = foldl set_entry NewMap (entries (fd_Args f)),
       os_options = False, os_requisites = False, os_diags = snd (own_args c d v diags)\<rparr>
      (entries (fst (own_args c d v diags)))"
  have "chunk_of d f (os_chunk st)" unfolding st_def by (rule own_entries_of) (simp add: assms)
  with assms show ?thesis
    by (auto simp: applyPerNameArgs_def split_beta Let_def st_def [symmetric] chunk_of_def
        collectRequisites_unresolved)
qed

lemma chunk_of_upd: "chunk_of d f (c\<lparr>ch_SeqOrder := i, ch_Name := nm\<rparr>) = chunk_of d f c"
  "chunk_of d f (c\<lparr>ch_Name := nm, ch_SeqOrder := i\<rparr>) = chunk_of d f c"
  by (simp_all add: chunk_of_def)

lemma name_chunk_ok:
  assumes "chunk_of d f base" and "list_all (chunk_ok d f) (fst st)"
  shows "list_all (chunk_ok d f) (fst (name_chunk rt d f base st x))"
proof -
  obtain out diags i n where st: "st = (out, diags)" "x = (i, n)" by (cases st; cases x) auto
  show ?thesis
    using assms
    by (cases n) (simp_all add: name_chunk_def st split_beta Let_def chunk_ok_set_name applyPerNameArgs_of chunk_of_upd)
qed

lemma buildChunksForFunc_ok: "list_all (chunk_ok d f) (fst (buildChunksForFunc rt d f diags))"
proof -
  have "chunk_of d f base \<Longrightarrow> list_all (chunk_ok d f) (fst st) \<Longrightarrow>
      list_all (chunk_ok d f) (fst (foldl (name_chunk rt d f base) st xs))" for base st xs
    by (induction xs arbitrary: st) (simp_all add: name_chunk_ok)
  then show ?thesis
    by (simp add: buildChunksForFunc_def split_beta Let_def base_chunk_of chunk_ok_set_name)
qed

lemma set_map_accum_fst:
  "y \<in> set (fst (map_accum f s xs)) \<Longrightarrow> \<exists>x \<in> set xs. \<exists>s'. y = fst (f s' x)"
  by (induction xs arbitrary: s) (auto simp: split_beta Let_def)

lemma buildChunks_ok:
  assumes "c \<in> set (fst (buildChunks rt d diags))"
  shows "\<exists>f \<in> set (d_Funcs d). chunk_ok d f c"
proof -
  from assms obtain cs where "cs \<in> set (fst (map_accum (\<lambda>ds f. buildChunksForFunc rt d f ds) diags (d_Funcs d)))"
    "c \<in> set cs" by (auto simp: buildChunks_def split_beta Let_def)
  then obtain f ds where "f \<in> set (d_Funcs d)" "c \<in> set (fst (buildChunksForFunc rt d f ds))"
    by (auto dest: set_map_accum_fst)
  with buildChunksForFunc_ok [of d f rt ds] show ?thesis by (auto simp: list_all_iff)
qed

text \<open>What reaches a state module. Every chunk of a declaration belongs to one of its functions
  and carries the declaration's ID, file, environment and position; its \<open>name\<close> argument is the
  chunk's name; no requisite and no runner option is left among its module arguments, not even one
  given to a single entry of \<open>names\<close>; and its requisites are not resolved yet.\<close>

theorem buildChunks_well_formed:
  "list_all (\<lambda>c. list_ex (\<lambda>f. chunk_ok d f c) (d_Funcs d)) (fst (buildChunks rt d diags))"
  by (auto simp: list_all_iff list_ex_iff dest: buildChunks_ok)

subsection \<open>Expanding names\<close>

lemma name_chunk_plain:
  assumes "\<forall>m. n \<noteq> VMap m"
  shows "name_chunk rt d f base (out, diags) (i, n) =
     (out @ [set_name (base\<lparr>ch_SeqOrder := int i, ch_Name := KeyString_any (rt_sprint rt) n\<rparr>)], diags)"
  using assms by (cases n) (simp_all add: name_chunk_def Let_def)

lemma name_chunks_plain:
  assumes "\<forall>n \<in> set names. \<forall>m. n \<noteq> VMap m"
  shows "foldl (name_chunk rt d f base) (out, diags) (enumerate j names) =
     (out @ map (\<lambda>(i, n). set_name (base\<lparr>ch_SeqOrder := int i, ch_Name := KeyString_any (rt_sprint rt) n\<rparr>))
              (enumerate j names), diags)"
  using assms
proof (induction names arbitrary: out j)
  case (Cons n names)
  then show ?case by (simp add: name_chunk_plain)
qed simp

text \<open>\<open>names\<close> is one chunk per name, in order. A list of plain names gives, for each name, the
  chunk the declaration gives without \<open>names\<close>, with that name and its position in the list.\<close>

theorem names_expand_in_order:
  assumes "Map_Get (fd_Args f) (KStr ''names'') = Some (VSeq names)" and "names \<noteq> []"
    and "\<forall>n \<in> set names. \<forall>m. n \<noteq> VMap m"
  shows "buildChunksForFunc rt d f diags =
     (map (\<lambda>(i, n). set_name ((fst (base_chunk rt d f diags))
             \<lparr>ch_SeqOrder := int i, ch_Name := KeyString_any (rt_sprint rt) n\<rparr>)) (enumerate 0 names),
      snd (base_chunk rt d f diags))"
  using assms by (simp add: buildChunksForFunc_def extractNames_def split_beta Let_def name_chunks_plain)

theorem names_expand_in_order_witness:
  "\<exists>cs ds. buildChunksForFunc no_runtime
      \<lparr>d_ID = ''dirs'', d_SLS = ''web'', d_Env = ''base'', d_Pos = zero_pos, d_Funcs = [], d_Order = 0\<rparr>
      \<lparr>fd_State = ''file'', fd_Fun = ''directory'',
       fd_Args = Map_Set NewMap (KStr ''names'') (VSeq [VStr ''/a'', VStr ''/b'']), fd_Flags = [], fd_Pos = zero_pos\<rparr> [] =
      (cs, ds) \<and> map ch_Name cs = [''/a'', ''/b''] \<and> map ch_SeqOrder cs = [0, 1]"
proof -
  let ?f = "\<lparr>fd_State = ''file'', fd_Fun = ''directory'',
       fd_Args = Map_Set NewMap (KStr ''names'') (VSeq [VStr ''/a'', VStr ''/b'']), fd_Flags = [], fd_Pos = zero_pos\<rparr>"
  have get: "Map_Get (fd_Args ?f) (KStr ''names'') = Some (VSeq [VStr ''/a'', VStr ''/b''])"
    by (simp add: om.get_put om.invar_empty)
  show ?thesis
    by (subst names_expand_in_order [OF get]) (auto simp: set_name_def)
qed

subsection \<open>Retries\<close>

lemma parseRetry_attempts:
  "\<not> HasErrors (snd (parseRetry rt v p d diags)) \<Longrightarrow> fst (parseRetry rt v p d diags) = Some r \<Longrightarrow>
     1 \<le> retry_Attempts r"
  by (cases v) (auto simp: parseRetry_def Let_def split_beta split: if_splits)

lemma plain_action_retry:
  "(n, act) \<in> set (plain_actions rt d) \<Longrightarrow> o_Retry (fst (act v p st)) = o_Retry (fst st)"
  by (cases st)
    (auto simp: plain_actions_def set_field_def parseOrder_def split_beta Let_def
      split: sum.splits val.splits option.splits)

lemma plain_actions_retry:
  "set acts \<subseteq> set (plain_actions rt d) \<Longrightarrow>
     o_Retry (fst (foldl (read_option args) st acts)) = o_Retry (fst st)"
proof (induction acts arbitrary: st)
  case (Cons a acts)
  then have "o_Retry (fst (read_option args st a)) = o_Retry (fst st)"
    using plain_action_retry [of "fst a" "snd a" rt d]
    by (auto simp: read_option_def split_beta split: option.splits)
  with Cons show ?case by simp
qed simp

lemma parseOptions_retry:
  assumes "\<not> HasErrors (snd (parseOptions rt f d diags))"
  shows "retry_ok (fst (parseOptions rt f d diags))"
proof -
  let ?st = "foldl (read_option (fd_Args f)) (zero_Options, diags) (plain_actions rt d)"
  have none: "o_Retry (fst ?st) = None"
    using plain_actions_retry [of "plain_actions rt d" rt d "fd_Args f" "(zero_Options, diags)"]
    by (simp add: zero_Options_def)
  have all: "parseOptions rt f d diags = read_option (fd_Args f) ?st (''retry'', retry_action rt d)"
    by (simp add: parseOptions_def option_actions_def)
  show ?thesis
    using none assms parseRetry_attempts unfolding all
    by (auto simp: read_option_def retry_action_def retry_ok_def split_beta Let_def split: option.splits)
qed

lemma base_chunk_retry:
  assumes "\<not> HasErrors (snd (base_chunk rt d f diags))"
  shows "retry_ok (ch_Opts (fst (base_chunk rt d f diags)))"
proof -
  obtain ds where "ch_Opts (fst (base_chunk rt d f diags)) = fst (parseOptions rt f d ds)"
    "snd (base_chunk rt d f diags) = snd (collectRequisites f d (snd (parseOptions rt f d ds)))"
    by (simp add: base_chunk_def split_beta Let_def)
  with assms collectRequisites_errors parseOptions_retry show ?thesis by metis
qed

lemma applyPerNameArgs_retry:
  assumes "\<not> HasErrors (snd (applyPerNameArgs rt c f v d diags))" and "retry_ok (ch_Opts c)"
  shows "retry_ok (ch_Opts (fst (applyPerNameArgs rt c f v d diags)))"
proof -
  define st where "st = foldl (own_entry d)
      \<lparr>os_chunk = c, os_merged = foldl set_entry NewMap (entries (fd_Args f)),
       os_options = False, os_requisites = False, os_diags = snd (own_args c d v diags)\<rparr>
      (entries (fst (own_args c d v diags)))"
  have "ch_Opts (os_chunk (own_entry d s e)) = ch_Opts (os_chunk s)" for s e
    by (simp add: own_entry_def Let_def)
  then have "ch_Opts (os_chunk (foldl (own_entry d) s es)) = ch_Opts (os_chunk s)" for s es
    by (induction es arbitrary: s) simp_all
  then have "ch_Opts (os_chunk st) = ch_Opts c" by (simp add: st_def)
  moreover have "retry_ok (fst (parseOptions rt g d ds))"
    if "\<not> HasErrors (snd (collectRequisites g' d (snd (parseOptions rt g d ds))))" for g g' ds
    using that collectRequisites_errors parseOptions_retry by blast
  ultimately show ?thesis
    using assms parseOptions_retry
    by (cases "os_options st"; cases "os_requisites st")
      (auto simp: applyPerNameArgs_def split_beta Let_def st_def [symmetric] split: if_splits)
qed

definition retries_ok :: "Chunk list \<times> Diags \<Rightarrow> bool" where
  "retries_ok st \<longleftrightarrow> HasErrors (snd st) \<or> list_all (\<lambda>c. retry_ok (ch_Opts c)) (fst st)"

lemma name_chunk_retry:
  assumes "retry_ok (ch_Opts base)" and "retries_ok st"
  shows "retries_ok (name_chunk rt d f base st x)"
proof -
  obtain out diags i n where st: "st = (out, diags)" "x = (i, n)" by (cases st; cases x) auto
  have opts: "ch_Opts (set_name c) = ch_Opts c" for c by (simp add: set_name_def)
  show ?thesis
    using assms applyPerNameArgs_retry applyPerNameArgs_errors
    by (cases n) (auto simp: name_chunk_def st split_beta Let_def retries_ok_def opts)
qed

lemma name_chunks_retry:
  "retry_ok (ch_Opts base) \<Longrightarrow> retries_ok st \<Longrightarrow> retries_ok (foldl (name_chunk rt d f base) st xs)"
  by (induction xs arbitrary: st) (simp_all add: name_chunk_retry)

lemma name_chunk_errors: "HasErrors (snd st) \<Longrightarrow> HasErrors (snd (name_chunk rt d f base st x))"
  by (cases st; cases x; cases "snd x") (auto simp: name_chunk_def split_beta Let_def applyPerNameArgs_errors)

text \<open>The retry loop always runs the state. When a function's options are read without an
  error, every chunk built from it retries at least once or not at all: an attempt count below one,
  also one given to a single entry of \<open>names\<close>, is always refused.\<close>

theorem retry_attempts_positive:
  "retries_ok (buildChunksForFunc rt d f diags)"
proof -
  let ?b = "base_chunk rt d f (snd (extractNames (fd_Args f) d diags))"
  show ?thesis
  proof (cases "HasErrors (snd ?b)")
    case True
    then have "HasErrors (snd (foldl (name_chunk rt d f base) ([], snd ?b) xs))" for base xs
      by (simp add: foldl_errors [where f = "name_chunk rt d f base", OF name_chunk_errors])
    with True show ?thesis by (simp add: retries_ok_def buildChunksForFunc_def split_beta Let_def)
  next
    case False
    then have base: "retry_ok (ch_Opts (fst ?b))" by (rule base_chunk_retry)
    then have "retries_ok (foldl (name_chunk rt d f (fst ?b)) ([], snd ?b) xs)" for xs
      by (rule name_chunks_retry) (simp add: retries_ok_def)
    with base show ?thesis
      by (simp add: buildChunksForFunc_def split_beta Let_def) (simp add: retries_ok_def set_name_def)
  qed
qed

end
