(* ===== verification/Go_Path.thy ===== *)
theory Go_Path
  imports Fnmatch
begin

text \<open>
  \<open>path.Match\<close> of Go's standard library, which the state compiler uses for its allow and deny lists:
  a glob in which a star does not cross a slash. A malformed pattern is an error, \<open>None\<close> here.
\<close>

text \<open>The stars at the front, and the pattern up to the next star outside a character class.\<close>

fun scan_to_star :: "bool \<Rightarrow> string \<Rightarrow> string \<times> string" where
  "scan_to_star inrange [] = ([], [])"
| "scan_to_star inrange (c # p) =
     (if c = CHR 0x5C then
        (case p of
           [] \<Rightarrow> ([c], [])
         | e # q \<Rightarrow> let (chunk, rest) = scan_to_star inrange q in (c # e # chunk, rest))
      else if c = CHR ''*'' \<and> \<not> inrange then ([], c # p)
      else
        let inrange' = (if c = CHR ''['' then True else if c = CHR '']'' then False else inrange);
            (chunk, rest) = scan_to_star inrange' p
        in (c # chunk, rest))"

definition scanChunk :: "string \<Rightarrow> bool \<times> string \<times> string" where
  "scanChunk pattern =
     (let p = dropWhile (\<lambda>c. c = CHR ''*'') pattern;
          star = (p \<noteq> pattern);
          (chunk, rest) = scan_to_star False p
      in (star, chunk, rest))"

text \<open>One character of a class, possibly escaped; the class may not end with it.\<close>

definition getEsc :: "string \<Rightarrow> (nat \<times> string) option" where
  "getEsc chunk =
     (if chunk = [] \<or> hd chunk = CHR ''-'' \<or> hd chunk = CHR '']'' then None
      else
        let c1 = (if hd chunk = CHR 0x5C then tl chunk else chunk) in
        if c1 = [] then None
        else
          let (r, n) = decode_rune (bytes_of c1); rest = drop n c1 in
          if r = rune_error \<and> n = 1 then None
          else if rest = [] then None
          else Some (r, rest))"

text \<open>The ranges of a class up to its closing bracket. The first argument bounds the number of
  ranges; every range consumes a byte, so the length of the text is enough.\<close>

fun class_loop :: "nat \<Rightarrow> nat \<Rightarrow> nat \<Rightarrow> bool \<Rightarrow> string \<Rightarrow> (bool \<times> string) option" where
  "class_loop 0 r nrange m chunk = None"
| "class_loop (Suc fuel) r nrange m chunk =
     (if chunk \<noteq> [] \<and> hd chunk = CHR '']'' \<and> nrange > 0 then Some (m, tl chunk)
      else
        case getEsc chunk of
          None \<Rightarrow> None
        | Some (lo, c1) \<Rightarrow>
            (case (if hd c1 = CHR ''-'' then getEsc (tl c1) else Some (lo, c1)) of
               None \<Rightarrow> None
             | Some (hi, c2) \<Rightarrow> class_loop fuel r (nrange + 1) (m \<or> (lo \<le> r \<and> r \<le> hi)) c2))"

text \<open>The rest of the name after a chunk; \<open>failed\<close> goes on only to check the pattern. The first
  argument bounds the number of elements by the length of the chunk.\<close>

fun matchChunk :: "nat \<Rightarrow> string \<Rightarrow> string \<Rightarrow> bool \<Rightarrow> string option option" where
  "matchChunk 0 chunk s failed = (if chunk = [] then Some (if failed then None else Some s) else None)"
| "matchChunk (Suc fuel) chunk s failed0 =
     (if chunk = [] then Some (if failed0 then None else Some s)
      else
        let failed = (failed0 \<or> s = []);
            (r, n) = decode_rune (bytes_of s)
        in
        if hd chunk = CHR ''['' then
          let s1 = (if failed then s else drop n s);
              c1 = tl chunk;
              negated = (c1 \<noteq> [] \<and> hd c1 = CHR ''^'');
              c2 = (if negated then tl c1 else c1)
          in case class_loop (Suc (length c2)) (if failed then 0 else r) 0 False c2 of
               None \<Rightarrow> None
             | Some (m, c3) \<Rightarrow> matchChunk fuel c3 s1 (failed \<or> m = negated)
        else if hd chunk = CHR ''?'' then
          matchChunk fuel (tl chunk) (if failed then s else drop n s) (failed \<or> hd s = CHR ''/'')
        else
          let c1 = (if hd chunk = CHR 0x5C then tl chunk else chunk) in
          if c1 = [] then None
          else matchChunk fuel (tl c1) (if failed then s else tl s) (failed \<or> hd c1 \<noteq> hd s))"

text \<open>\<open>None\<close> for a malformed chunk, the rest of the name for a match.\<close>

definition match_chunk :: "string \<Rightarrow> string \<Rightarrow> string option option" where
  "match_chunk chunk s = matchChunk (length chunk) chunk s False"

text \<open>A match after skipping at least one byte that is not a slash.\<close>

fun skip_match :: "string \<Rightarrow> bool \<Rightarrow> string \<Rightarrow> string option option" where
  "skip_match chunk isLast [] = Some None"
| "skip_match chunk isLast (c # name) =
     (if c = CHR ''/'' then Some None
      else case match_chunk chunk name of
             None \<Rightarrow> None
           | Some (Some t) \<Rightarrow> if isLast \<and> t \<noteq> [] then skip_match chunk isLast name else Some (Some t)
           | Some None \<Rightarrow> skip_match chunk isLast name)"

lemma scan_to_star_append: "fst (scan_to_star b p) @ snd (scan_to_star b p) = p"
proof (induction b p rule: scan_to_star.induct)
  case (2 inrange c p)
  then show ?case by (cases p) (simp_all add: split_beta Let_def)
qed simp

lemma scan_to_star_nonempty:
  "p \<noteq> [] \<Longrightarrow> hd p \<noteq> CHR ''*'' \<Longrightarrow> fst (scan_to_star False p) \<noteq> []"
  by (cases p) (auto simp: split_beta Let_def split: list.splits)

lemma scanChunk_shorter:
  assumes "scanChunk pattern = (star, chunk, rest)" and "pattern \<noteq> []"
  shows "length rest < length pattern"
proof -
  define p where "p = dropWhile (\<lambda>c. c = CHR ''*'') pattern"
  from assms(1) have s: "star = (p \<noteq> pattern)" "scan_to_star False p = (chunk, rest)"
    by (auto simp: scanChunk_def Let_def split_beta p_def)
  have len: "length p \<le> length pattern" by (simp add: p_def length_dropWhile_le)
  have app: "p = chunk @ rest" using scan_to_star_append [of False p] s(2) by simp
  show ?thesis
  proof (cases "p = []")
    case True
    with app assms(2) show ?thesis by simp
  next
    case False
    then have "hd p \<noteq> CHR ''*''" unfolding p_def using hd_dropWhile by blast
    with scan_to_star_nonempty [OF False] s(2) have "chunk \<noteq> []" by simp
    with app len show ?thesis by (cases chunk) auto
  qed
qed

function path_rest_ok :: "string \<Rightarrow> bool" where
  "path_rest_ok pattern =
     (if pattern = [] then True
      else let (star, chunk, rest) = scanChunk pattern in
           if match_chunk chunk [] = None then False else path_rest_ok rest)"
  by pat_completeness auto
termination
  by (relation "measure length") (auto dest: scanChunk_shorter [OF sym])

declare path_rest_ok.simps [simp del]

text \<open>\<open>None\<close> is \<open>ErrBadPattern\<close>.\<close>

function path_Match :: "string \<Rightarrow> string \<Rightarrow> bool option" where
  "path_Match pattern name =
     (if pattern = [] then Some (name = [])
      else
        let (star, chunk, rest) = scanChunk pattern;
            fail = (if path_rest_ok rest then Some False else None)
        in
        if star \<and> chunk = [] then Some (CHR ''/'' \<notin> set name)
        else
          case match_chunk chunk name of
            None \<Rightarrow> None
          | Some res \<Rightarrow>
              (case res of
                 Some t \<Rightarrow>
                   if t = [] \<or> rest \<noteq> [] then path_Match rest t
                   else if star then
                     (case skip_match chunk (rest = []) name of
                        None \<Rightarrow> None | Some None \<Rightarrow> fail | Some (Some t') \<Rightarrow> path_Match rest t')
                   else fail
               | None \<Rightarrow>
                   if star then
                     (case skip_match chunk (rest = []) name of
                        None \<Rightarrow> None | Some None \<Rightarrow> fail | Some (Some t') \<Rightarrow> path_Match rest t')
                   else fail))"
  by pat_completeness auto
termination
  by (relation "measure (\<lambda>(p, n). length p)") (auto dest: scanChunk_shorter [OF sym])

declare path_Match.simps [simp del]

end
