(* ===== verification/Signature.thy ===== *)
theory Signature
  imports Value Fnmatch Diag
begin

text \<open>
  Function signatures (\<open>internal/signature\<close>): the declared parameters of a module function, binding
  arguments to them, the narrow coercion of values, the platform check and the registry that the
  compiler validates against.
\<close>

subsection \<open>The declarations\<close>

datatype Type = TAny | TString | TInt | TFloat | TBool | TList | TMap | TPath | TMode | TDuration

definition typeNames :: "(Type \<times> string) list" where
  "typeNames =
     [(TAny, ''any''), (TString, ''string''), (TInt, ''int''), (TFloat, ''float''), (TBool, ''bool''),
      (TList, ''list''), (TMap, ''map''), (TPath, ''path''), (TMode, ''mode''), (TDuration, ''duration'')]"

definition Type_String :: "Type \<Rightarrow> string" where
  "Type_String t = (case map_of typeNames t of Some n \<Rightarrow> n | None \<Rightarrow> ''unknown'')"

definition NamedType :: "string \<Rightarrow> Type" where
  "NamedType name = (case find (\<lambda>(t, n). n = name) typeNames of Some (t, _) \<Rightarrow> t | None \<Rightarrow> TAny)"

datatype TestMode = TestReliable | TestUnreliable | TestNotApplicable

fun TestMode_String :: "TestMode \<Rightarrow> string" where
  "TestMode_String TestUnreliable = ''unreliable''"
| "TestMode_String TestNotApplicable = ''not_applicable''"
| "TestMode_String TestReliable = ''reliable''"

definition PrivRoot :: string where "PrivRoot = ''root''"
definition PrivRootForOthers :: string where "PrivRootForOthers = ''root to signal another account's process''"
definition PrivCaller :: string where "PrivCaller = ''whatever the command needs''"
definition PrivTargetAccount :: string where "PrivTargetAccount = ''the target account, or root''"
definition PrivZFSDelegation :: string where "PrivZFSDelegation = ''root, or a delegated zfs permission''"

text \<open>A nil default is the null value.\<close>

record Param =
  p_Name :: string
  p_Type :: Type
  p_Required :: bool
  p_Default :: val
  p_Doc :: string
  p_Variadic :: bool
  p_KeywordOnly :: bool
  p_Choices :: "string list"
  p_Ineffective :: string

record Signature =
  sig_Module :: string
  sig_Function :: string
  sig_Doc :: string
  sig_Params :: "Param list"
  sig_Mutates :: bool
  sig_TestMode :: TestMode
  sig_Platforms :: "string list"
  sig_Privileges :: "string list"
  sig_AnyKwargs :: bool
  sig_ArbitraryCode :: bool
  sig_Returns :: string
  sig_Section :: string

definition Signature_Name :: "Signature \<Rightarrow> string" where
  "Signature_Name s = sig_Module s @ ''.'' @ sig_Function s"

definition Signature_Param :: "Signature \<Rightarrow> string \<Rightarrow> Param option" where
  "Signature_Param s name = find (\<lambda>p. p_Name p = name) (sig_Params s)"

definition NeedsPrivilege :: "Signature \<Rightarrow> bool" where
  "NeedsPrivilege s =
     list_ex (\<lambda>p. p \<in> set [PrivRoot, PrivRootForOthers, PrivCaller, PrivTargetAccount, PrivZFSDelegation])
       (sig_Privileges s)"

subsection \<open>Platform and privilege\<close>

definition CheckPlatform :: "string \<Rightarrow> Signature \<Rightarrow> fmt_arg option" where
  "CheckPlatform GOOS s =
     (if length (sig_Platforms s) = 0 then None
      else if list_ex (\<lambda>p. p = GOOS) (sig_Platforms s) then None
      else Some (FErr ''%s runs on %s, and this node is %s''
             [FStr (Signature_Name s), FStr (str_join '', '' (sig_Platforms s)), FStr GOOS]))"

definition PrivilegeNote :: "Signature \<Rightarrow> int \<Rightarrow> string" where
  "PrivilegeNote s euid =
     (if length (sig_Privileges s) = 0 \<or> euid = 0 then []
      else if list_ex (\<lambda>p. p = ''root'') (sig_Privileges s) then
        '' ('' @ Signature_Name s @ '' declares that it needs root, and this process is not root)''
      else '' ('' @ Signature_Name s @ '' declares that it needs '' @ str_join '', '' (sig_Privileges s) @ '')'')"

subsection \<open>The registry\<close>

record Registry =
  reg_byName :: "(string, Signature) gomap"

definition NewRegistry :: Registry where
  "NewRegistry = \<lparr>reg_byName = []\<rparr>"

definition Registry_Add :: "Registry \<Rightarrow> Signature list \<Rightarrow> Registry" where
  "Registry_Add r sigs =
     foldl (\<lambda>r s. r\<lparr>reg_byName := gomap_put (Signature_Name s) s (reg_byName r)\<rparr>) r sigs"

definition Registry_Lookup :: "Registry \<Rightarrow> string \<Rightarrow> Signature option" where
  "Registry_Lookup r name = gomap_get (reg_byName r) name"

definition Registry_Has :: "Registry \<Rightarrow> string \<Rightarrow> bool" where
  "Registry_Has r name = (gomap_get (reg_byName r) name \<noteq> None)"

definition Registry_Names :: "Registry \<Rightarrow> string list" where
  "Registry_Names r = sort (map fst (reg_byName r))"

definition Registry_Modules :: "Registry \<Rightarrow> string list" where
  "Registry_Modules r = sort (remdups (map (sig_Module \<circ> snd) (reg_byName r)))"

definition Registry_Functions :: "Registry \<Rightarrow> string \<Rightarrow> Signature list" where
  "Registry_Functions r module =
     sort_key sig_Function (filter (\<lambda>s. sig_Module s = module) (map snd (reg_byName r)))"

subsection \<open>Coercion\<close>

type_synonym arg_error = "string \<times> string \<times> string \<times> fmt_arg list"
  \<comment> \<open>\<open>ArgError\<close>: the function, the parameter and the message as format and arguments\<close>

definition ArgError_Error :: "arg_error \<Rightarrow> fmt_arg" where
  "ArgError_Error = (\<lambda>(fn, param, fmt, args).
     if param = [] then FErr ''%s: %s'' [FStr fn, FErr fmt args]
     else FErr ''%s: argument %q: %s'' [FStr fn, FStr param, FErr fmt args])"

fun octal :: "nat \<Rightarrow> string" where
  "octal n = (if n < 8 then [digit_char n] else octal (n div 8) @ [digit_char (n mod 8)])"

declare octal.simps [simp del]

definition octal4 :: "nat \<Rightarrow> string" where
  "octal4 n = (let s = octal n in replicate (4 - length s) (CHR ''0'') @ s)"

definition isOctalDigits :: "string \<Rightarrow> bool" where
  "isOctalDigits s \<longleftrightarrow> list_all (\<lambda>c. 48 \<le> (of_char c :: nat) \<and> (of_char c :: nat) \<le> 55) s \<and> s \<noteq> []"

definition modeAdvice :: "int \<Rightarrow> string \<times> fmt_arg list" where
  "modeAdvice n =
     (if n < 0 then (''write it as a quoted string'', [])
      else
        let asTyped = format_int n; asOctal = octal4 (nat n) in
        if isOctalDigits asTyped \<and> asOctal \<noteq> ''0'' @ asTyped then
          (''write it as '0%s' if you meant that mode, or '%s' if you meant the number %d'',
           [FStr asTyped, FStr asOctal, FInt n])
        else (''write it as '%s'' @ [CHR 0x27], [FStr asOctal]))"

definition arg_fail :: "Signature \<Rightarrow> Param \<Rightarrow> string \<Rightarrow> val \<Rightarrow> arg_error" where
  "arg_fail s p want v =
     (Signature_Name s, p_Name p, ''must be %s, found %s'', [FStr want, FStr (TypeName v)])"

text \<open>\<open>strings.ToLower\<close> against words without a \<open>k\<close> or an \<open>i\<close>: no rune outside ASCII lowers to any
  of their letters.\<close>

definition bool_word :: "string \<Rightarrow> bool option" where
  "bool_word t =
     (let w = map lower_byte (trim_space t) in
      if w \<in> set [''true'', ''yes'', ''on'', ''1''] then Some True
      else if w \<in> set [''false'', ''no'', ''off'', ''0''] then Some False
      else None)"

definition coerce_string :: "Signature \<Rightarrow> Param \<Rightarrow> val \<Rightarrow> arg_error + val" where
  "coerce_string s p v =
     (case v of
        VStr str \<Rightarrow>
          if length (p_Choices p) > 0 \<and> str \<notin> set (p_Choices p) then
            Inl (Signature_Name s, p_Name p, ''must be one of %s, found %q'',
                 [FStr (str_join '', '' (p_Choices p)), FStr str])
          else Inr (VStr str)
      | VInt n \<Rightarrow> Inr (VStr (format_int n))
      | _ \<Rightarrow> Inl (arg_fail s p ''a string'' v))"

definition coerce_mode :: "Signature \<Rightarrow> Param \<Rightarrow> val \<Rightarrow> arg_error + val" where
  "coerce_mode s p v =
     (case v of
        VStr str \<Rightarrow> Inr (VStr str)
      | VInt n \<Rightarrow>
          (case modeAdvice n of (fmt, args) \<Rightarrow>
             Inl (Signature_Name s, p_Name p, ''must be a quoted string, found the integer %d; %s'',
                  [FInt n, FErr fmt args]))
      | _ \<Rightarrow> Inl (arg_fail s p (''a quoted file mode such as '0644'' @ [CHR 0x27]) v))"

definition coerce_int :: "go_runtime \<Rightarrow> Signature \<Rightarrow> Param \<Rightarrow> val \<Rightarrow> arg_error + val" where
  "coerce_int rt s p v =
     (case (case v of
              VInt t \<Rightarrow> Some t
            | VFloat t \<Rightarrow> rt_IntOfFloat rt t
            | VStr t \<Rightarrow> atoi (trim_space t)
            | _ \<Rightarrow> None)
      of Some n \<Rightarrow> Inr (VInt n) | None \<Rightarrow> Inl (arg_fail s p ''an integer'' v))"

definition coerce_float :: "go_runtime \<Rightarrow> Signature \<Rightarrow> Param \<Rightarrow> val \<Rightarrow> arg_error + val" where
  "coerce_float rt s p v =
     (case (case v of
              VFloat t \<Rightarrow> Some t
            | VInt t \<Rightarrow> Some (rt_FloatOfInt rt t)
            | VStr t \<Rightarrow> rt_ParseFloat rt (trim_space t)
            | _ \<Rightarrow> None)
      of Some f \<Rightarrow> Inr (VFloat f) | None \<Rightarrow> Inl (arg_fail s p ''a number'' v))"

definition coerce_bool :: "Signature \<Rightarrow> Param \<Rightarrow> val \<Rightarrow> arg_error + val" where
  "coerce_bool s p v =
     (case (case v of VBool t \<Rightarrow> Some t | VStr t \<Rightarrow> bool_word t | _ \<Rightarrow> None)
      of Some b \<Rightarrow> Inr (VBool b) | None \<Rightarrow> Inl (arg_fail s p ''a boolean'' v))"

definition coerce :: "go_runtime \<Rightarrow> Signature \<Rightarrow> Param \<Rightarrow> val \<Rightarrow> arg_error + val" where
  "coerce rt s p v =
     (if v = VNull then Inr VNull
      else case p_Type p of
        TAny \<Rightarrow> Inr v
      | TString \<Rightarrow> coerce_string s p v
      | TPath \<Rightarrow> coerce_string s p v
      | TMode \<Rightarrow> coerce_mode s p v
      | TInt \<Rightarrow> coerce_int rt s p v
      | TFloat \<Rightarrow> coerce_float rt s p v
      | TBool \<Rightarrow> coerce_bool s p v
      | TList \<Rightarrow> (case v of VSeq l \<Rightarrow> Inr (VSeq l) | _ \<Rightarrow> Inr (VSeq [v]))
      | TMap \<Rightarrow> (case v of VMap m \<Rightarrow> Inr (VMap m) | _ \<Rightarrow> Inl (arg_fail s p ''a mapping'' v))
      | TDuration \<Rightarrow>
          (case v of
             VStr _ \<Rightarrow> Inr v | VInt _ \<Rightarrow> Inr v | VFloat _ \<Rightarrow> Inr v
           | _ \<Rightarrow> Inl (arg_fail s p ''a duration'' v)))"

subsection \<open>Binding\<close>

record bind_state =
  b_out :: vmap
  b_used :: "string list"
  b_errs :: "arg_error list"

definition appendVariadic :: "vmap \<Rightarrow> string \<Rightarrow> val \<Rightarrow> vmap" where
  "appendVariadic out name v =
     (let l = (case Map_Get out (KStr name) of Some (VSeq l) \<Rightarrow> l | _ \<Rightarrow> [])
      in Map_Set out (KStr name) (VSeq (l @ [v])))"

definition bind_err :: "bind_state \<Rightarrow> arg_error \<Rightarrow> bind_state" where
  "bind_err st e = st\<lparr>b_errs := b_errs st @ [e]\<rparr>"

definition bind_set :: "bind_state \<Rightarrow> string \<Rightarrow> val \<Rightarrow> bind_state" where
  "bind_set st name v = st\<lparr>b_out := Map_Set (b_out st) (KStr name) v, b_used := name # b_used st\<rparr>"

definition bind_value :: "go_runtime \<Rightarrow> Signature \<Rightarrow> Param \<Rightarrow> val \<Rightarrow> bind_state \<Rightarrow> bind_state" where
  "bind_value rt s p v st =
     (case coerce rt s p v of Inl e \<Rightarrow> bind_err st e | Inr v' \<Rightarrow> bind_set st (p_Name p) v')"

fun bind_positional ::
  "go_runtime \<Rightarrow> Signature \<Rightarrow> Param list \<Rightarrow> nat \<Rightarrow> nat \<Rightarrow> val list \<Rightarrow> bind_state \<Rightarrow> bind_state" where
  "bind_positional rt s positional given i [] st = st"
| "bind_positional rt s positional given i (a # as) st =
     (if i \<ge> length positional then
        if positional \<noteq> [] \<and> p_Variadic (last positional) then
          bind_positional rt s positional given (Suc i) as
            (st\<lparr>b_out := appendVariadic (b_out st) (p_Name (last positional)) a\<rparr>)
        else bind_err st (Signature_Name s, [], ''takes at most %d positional arguments, got %d'',
                          [FInt (int (length positional)), FInt (int given)])
      else
        let p = positional ! i in
        if p_Variadic p then
          bind_positional rt s positional given (Suc i) as (st\<lparr>b_out := appendVariadic (b_out st) (p_Name p) a\<rparr>)
        else bind_positional rt s positional given (Suc i) as (bind_value rt s p a st))"

definition bind_keyword :: "go_runtime \<Rightarrow> Signature \<Rightarrow> bind_state \<Rightarrow> entry \<Rightarrow> bind_state" where
  "bind_keyword rt s st e =
     (let name = KeyString (Key e) in
      case Signature_Param s name of
        None \<Rightarrow>
          if sig_AnyKwargs s then bind_set st name (Val e)
          else bind_err st (Signature_Name s, name, ''is not a parameter of this function'', [])
      | Some p \<Rightarrow>
          if name \<in> set (b_used st) then
            bind_err st (Signature_Name s, name, ''was given both positionally and by keyword'', [])
          else
            (case coerce rt s p (Val e) of
               Inl err \<Rightarrow> (bind_err st err)\<lparr>b_used := name # b_used st\<rparr>
             | Inr v \<Rightarrow> bind_set st name v))"

definition bind_default :: "Signature \<Rightarrow> bind_state \<Rightarrow> Param \<Rightarrow> bind_state" where
  "bind_default s st p =
     (if p_Name p \<in> set (b_used st) \<or> Map_Has (b_out st) (KStr (p_Name p)) then st
      else if p_Required p then bind_err st (Signature_Name s, p_Name p, ''is required'', [])
      else if p_Default p \<noteq> VNull then st\<lparr>b_out := Map_Set (b_out st) (KStr (p_Name p)) (p_Default p)\<rparr>
      else st)"

definition Bind :: "go_runtime \<Rightarrow> Signature \<Rightarrow> val list \<Rightarrow> vmap option \<Rightarrow> vmap \<times> arg_error list" where
  "Bind rt s args kwargs =
     (let positional = filter (\<lambda>p. \<not> p_KeywordOnly p) (sig_Params s);
          st1 = bind_positional rt s positional (length args) 0 args \<lparr>b_out = NewMap, b_used = [], b_errs = []\<rparr>;
          st2 = (case kwargs of None \<Rightarrow> st1 | Some m \<Rightarrow> foldl (bind_keyword rt s) st1 (entries m));
          st3 = foldl (bind_default s) st2 (sig_Params s)
      in (b_out st3, b_errs st3))"

subsection \<open>Documentation and schema\<close>

definition describe_param :: "go_runtime \<Rightarrow> Param \<Rightarrow> string" where
  "describe_param rt p =
     (if p_Variadic p then ''*'' else []) @ p_Name p @ '': '' @ Type_String (p_Type p) @
     (if \<not> p_Required p \<and> p_Default p \<noteq> VNull then '' = '' @ rt_sprint rt (p_Default p) else [])"

definition describe_flags :: "Signature \<Rightarrow> string list" where
  "describe_flags s =
     (if sig_Mutates s then [''changes the system''] else []) @
     (if sig_ArbitraryCode s then [''runs arbitrary code; must be granted by name''] else []) @
     (if sig_TestMode s = TestUnreliable then [''test mode is unreliable''] else []) @
     (if length (sig_Platforms s) > 0 then [''platforms: '' @ str_join '', '' (sig_Platforms s)] else []) @
     (if length (sig_Privileges s) > 0 then [''needs: '' @ str_join '', '' (sig_Privileges s)] else [])"

definition Describe :: "go_runtime \<Rightarrow> Signature \<Rightarrow> string" where
  "Describe rt s =
     Signature_Name s @ ''('' @ str_join '', '' (map (describe_param rt) (sig_Params s)) @ '')'' @
     (if sig_Doc s \<noteq> [] then [CHR 0x0A] @ ''  '' @ sig_Doc s else []) @
     concat (map (\<lambda>f. [CHR 0x0A] @ ''  - '' @ f) (describe_flags s))"

definition set_if :: "bool \<Rightarrow> string \<Rightarrow> val \<Rightarrow> vmap \<Rightarrow> vmap" where
  "set_if c name v m = (if c then Map_Set m (KStr name) v else m)"

definition param_JSON :: "Param \<Rightarrow> val" where
  "param_JSON p =
     (let pm0 = MapOf [(KStr ''name'', VStr (p_Name p)), (KStr ''type'', VStr (Type_String (p_Type p))),
                       (KStr ''required'', VBool (p_Required p))];
          pm1 = set_if (p_Default p \<noteq> VNull) ''default'' (p_Default p) pm0;
          pm2 = set_if (p_Doc p \<noteq> []) ''doc'' (VStr (p_Doc p)) pm1;
          pm3 = set_if (p_Variadic p) ''variadic'' (VBool True) pm2;
          pm4 = set_if (p_KeywordOnly p) ''keyword_only'' (VBool True) pm3;
          pm5 = set_if (length (p_Choices p) > 0) ''choices'' (VSeq (map VStr (p_Choices p))) pm4
      in VMap pm5)"

definition Signature_JSON :: "Signature \<Rightarrow> val" where
  "Signature_JSON s =
     (let m0 = MapOf [(KStr ''module'', VStr (sig_Module s)), (KStr ''function'', VStr (sig_Function s)),
                      (KStr ''params'', VSeq (map param_JSON (sig_Params s))), (KStr ''mutates'', VBool (sig_Mutates s)),
                      (KStr ''test_mode'', VStr (TestMode_String (sig_TestMode s))),
                      (KStr ''arbitrary_code'', VBool (sig_ArbitraryCode s))];
          m1 = set_if (sig_Doc s \<noteq> []) ''doc'' (VStr (sig_Doc s)) m0;
          m2 = set_if (sig_Returns s \<noteq> []) ''returns'' (VStr (sig_Returns s)) m1;
          m3 = set_if (length (sig_Platforms s) > 0) ''platforms'' (VSeq (map VStr (sig_Platforms s))) m2;
          m4 = set_if (length (sig_Privileges s) > 0) ''privileges'' (VSeq (map VStr (sig_Privileges s))) m3;
          m5 = set_if (sig_Section s \<noteq> []) ''spec_section'' (VStr (sig_Section s)) m4
      in VMap m5)"

definition Registry_JSON :: "Registry \<Rightarrow> vmap" where
  "Registry_JSON r =
     foldl (\<lambda>out name. case gomap_get (reg_byName r) name of
                        None \<Rightarrow> out
                      | Some s \<Rightarrow> Map_Set out (KStr name) (Signature_JSON s))
       NewMap (Registry_Names r)"

subsection \<open>What coercion gives\<close>

fun well_typed :: "Param \<Rightarrow> val \<Rightarrow> bool" where
  "well_typed p v =
     (case v of
        VNull \<Rightarrow> True
      | VStr _ \<Rightarrow> p_Type p \<in> set [TAny, TString, TPath, TMode, TDuration]
      | VInt _ \<Rightarrow> p_Type p \<in> set [TAny, TInt, TDuration]
      | VFloat _ \<Rightarrow> p_Type p \<in> set [TAny, TFloat, TDuration]
      | VBool _ \<Rightarrow> p_Type p \<in> set [TAny, TBool]
      | VSeq _ \<Rightarrow> p_Type p \<in> set [TAny, TList]
      | VMap _ \<Rightarrow> p_Type p \<in> set [TAny, TMap]
      | _ \<Rightarrow> p_Type p = TAny)"

lemmas coerce_defs = coerce_def coerce_string_def coerce_mode_def coerce_int_def coerce_float_def coerce_bool_def

lemma coerce_typed: "coerce rt s p v = Inr v' \<Longrightarrow> well_typed p v'"
  by (cases "p_Type p"; cases v)
    (auto simp: coerce_defs split: if_splits option.splits prod.splits)

lemma coerce_again:
  assumes "coerce rt s p v = Inr v'" and "p_Choices p = [] \<or> \<not> (\<exists>n. v = VInt n)"
  shows "coerce rt s p v' = Inr v'"
  using assms by (cases "p_Type p"; cases v) (auto simp: coerce_defs split: if_splits option.splits prod.splits)

text \<open>An argument that was coerced is left alone by coercing it again, so that binding a bound
  argument list changes nothing. The one exception is an integer given to a string parameter with
  choices.\<close>

theorem coerce_idempotent:
  assumes "coerce rt s p v = Inr v'" and "p_Choices p = [] \<or> \<not> (\<exists>n. v = VInt n)"
  shows "coerce rt s p v' = Inr v' \<and> well_typed p v'"
  using coerce_again [OF assms] coerce_typed [OF assms(1)] by simp

definition plain_param :: "string \<Rightarrow> Type \<Rightarrow> string list \<Rightarrow> Param" where
  "plain_param name t choices =
     \<lparr>p_Name = name, p_Type = t, p_Required = True, p_Default = VNull, p_Doc = [], p_Variadic = False,
      p_KeywordOnly = False, p_Choices = choices, p_Ineffective = []\<rparr>"

definition plain_sig :: "Param list \<Rightarrow> Signature" where
  "plain_sig ps =
     \<lparr>sig_Module = ''file'', sig_Function = ''managed'', sig_Doc = [], sig_Params = ps, sig_Mutates = True,
      sig_TestMode = TestReliable, sig_Platforms = [], sig_Privileges = [], sig_AnyKwargs = False,
      sig_ArbitraryCode = False, sig_Returns = [], sig_Section = []\<rparr>"

lemma coerce_count: "coerce rt (plain_sig []) (plain_param ''n'' TString []) (VInt 7) = Inr (VStr ''7'')"
  by (simp add: coerce_defs plain_param_def format_int_def nat_str.simps digit_char_def) code_simp

theorem coerce_idempotent_witness:
  "coerce no_runtime (plain_sig []) (plain_param ''n'' TString []) (VStr ''7'') = Inr (VStr ''7'')"
  using coerce_idempotent [OF coerce_count, of no_runtime] by (simp add: plain_param_def)

text \<open>An integer is not checked against the choices of a string parameter: it is turned into its
  decimal spelling and accepted, where the same spelling given as a string is refused.\<close>

theorem coerce_integer_skips_choices:
  "coerce rt s (plain_param ''state'' TString [''on'', ''off'']) (VInt 7) = Inr (VStr ''7'') \<and>
   \<not> (\<exists>v. coerce rt s (plain_param ''state'' TString [''on'', ''off'']) (VStr ''7'') = Inr v)"
proof -
  have "format_int 7 = ''7''" by code_simp
  then show ?thesis by (simp add: coerce_defs plain_param_def)
qed

text \<open>The spelling of an integer has no space to trim.\<close>

lemma has_prefix_hd: "s \<noteq> [] \<Longrightarrow> r \<noteq> [] \<Longrightarrow> has_prefix s r \<Longrightarrow> hd s = hd r"
  by (cases s; cases r) auto

lemma trim_spaces_id:
  assumes "\<forall>r \<in> set spaces. r \<noteq> [] \<longrightarrow> s \<noteq> [] \<longrightarrow> hd s \<noteq> hd r"
  shows "trim_spaces spaces s = s"
proof -
  have "find (\<lambda>r. r \<noteq> [] \<and> has_prefix s r) spaces = None"
    using assms by (auto simp: find_None_iff dest: has_prefix_hd) (metis has_prefix.simps has_prefix_hd neq_Nil_conv)
  then show ?thesis by (simp add: trim_spaces.simps [of spaces s])
qed

definition num_char :: "char \<Rightarrow> bool" where
  "num_char c \<longleftrightarrow> is_digit c \<or> c = CHR ''-''"

lemma spaces_not_num:
  "list_all (\<lambda>r. \<not> num_char (hd r)) space_runes" "list_all (\<lambda>r. \<not> num_char (hd r)) (map rev space_runes)"
  by code_simp+

lemma format_int_num: "list_all num_char (format_int n)"
  using nat_str_digits [of "nat n"] nat_str_digits [of "nat (- n)"]
  by (auto simp: format_int_def num_char_def list_all_iff)

lemma trim_spaces_num: "list_all num_char s \<Longrightarrow> list_all (\<lambda>r. \<not> num_char (hd r)) spaces \<Longrightarrow> trim_spaces spaces s = s"
  by (rule trim_spaces_id) (cases s; auto simp: list_all_iff)

lemma trim_space_format_int: "trim_space (format_int n) = format_int n"
  using format_int_num [of n]
  by (simp add: trim_space_def trim_spaces_num [OF _ spaces_not_num(1)] trim_spaces_num [OF _ spaces_not_num(2)] list_all_rev)

text \<open>An integer given to a string parameter is read back as the same integer by an integer
  parameter.\<close>

theorem coerce_integer_roundtrip:
  assumes "p_Type p = TString" and "p_Type q = TInt" and "int64_range n"
  shows "\<exists>str. coerce rt s p (VInt n) = Inr (VStr str) \<and> coerce rt s q (VStr str) = Inr (VInt n)"
  using assms by (simp add: coerce_defs trim_space_format_int atoi_format_int)

theorem coerce_integer_roundtrip_witness:
  "\<exists>str. coerce no_runtime (plain_sig []) (plain_param ''a'' TString []) (VInt (- 42)) = Inr (VStr str) \<and>
     coerce no_runtime (plain_sig []) (plain_param ''b'' TInt []) (VStr str) = Inr (VInt (- 42))"
  by (rule coerce_integer_roundtrip) (simp_all add: plain_param_def int64_range_def)

text \<open>A platform is only its operating system. A function whose platforms are all given as
  \<open>os/arch\<close> pairs is refused everywhere, on that very platform too.\<close>

theorem CheckPlatform_knows_no_architecture:
  assumes "sig_Platforms s \<noteq> []" and "list_all (\<lambda>p. CHR ''/'' \<in> set p) (sig_Platforms s)" and "CHR ''/'' \<notin> set GOOS"
  shows "CheckPlatform GOOS s \<noteq> None"
  using assms by (auto simp: CheckPlatform_def list_ex_iff list_all_iff)

theorem CheckPlatform_knows_no_architecture_witness:
  "CheckPlatform ''linux'' ((plain_sig [])\<lparr>sig_Platforms := [''linux/amd64'']\<rparr>) \<noteq> None"
  by (rule CheckPlatform_knows_no_architecture) simp_all

subsection \<open>What binding gives\<close>

text \<open>Where a string or path parameter lists choices, a value is one of them, or the decimal spelling of an
  integer, which is not checked against them, or null.\<close>

definition choice_ok :: "Param \<Rightarrow> val \<Rightarrow> bool" where
  "choice_ok p v \<longleftrightarrow>
     p_Type p \<notin> {TString, TPath} \<or> p_Choices p = [] \<or> v = VNull \<or>
     (\<exists>str. v = VStr str \<and> (str \<in> set (p_Choices p) \<or> (\<exists>n. str = format_int n)))"

text \<open>A value bound under a declared name comes from a parameter of that name: it was coerced to its type and
  choices, collected by a variadic parameter, or is the default. Only a signature that takes any keyword has
  values under other names.\<close>

definition param_ok :: "Param \<Rightarrow> val \<Rightarrow> bool" where
  "param_ok p v \<longleftrightarrow> well_typed p v \<and> choice_ok p v \<or> (p_Variadic p \<and> KindOf v = KindSeq) \<or> v = p_Default p"

definition bound_ok :: "Signature \<Rightarrow> string \<Rightarrow> val \<Rightarrow> bool" where
  "bound_ok s name v \<longleftrightarrow>
     (if list_ex (\<lambda>p. p_Name p = name) (sig_Params s)
      then list_ex (\<lambda>p. p_Name p = name \<and> param_ok p v) (sig_Params s) else sig_AnyKwargs s)"

lemma coerce_choice: "coerce rt s p v = Inr v' \<Longrightarrow> choice_ok p v'"
  by (cases "p_Type p"; cases v) (auto simp: coerce_defs choice_ok_def split: if_splits)

lemma coerce_param_ok: "coerce rt s p v = Inr v' \<Longrightarrow> param_ok p v'"
  using coerce_typed coerce_choice by (auto simp: param_ok_def simp del: well_typed.simps)

definition bind_inv :: "Signature \<Rightarrow> bind_state \<Rightarrow> bool" where
  "bind_inv s st \<longleftrightarrow>
     map_ok (b_out st) \<and>
     (\<forall>name v. Map_Get (b_out st) (KStr name) = Some v \<longrightarrow> bound_ok s name v) \<and>
     (b_errs st = [] \<longrightarrow> (\<forall>name \<in> set (b_used st). Map_Get (b_out st) (KStr name) \<noteq> None))"

lemma bound_ok_param:
  "p \<in> set (sig_Params s) \<Longrightarrow> param_ok p v \<Longrightarrow> bound_ok s (p_Name p) v"
  by (auto simp: bound_ok_def list_ex_iff)

lemma bind_inv_err: "bind_inv s st \<Longrightarrow> bind_inv s (bind_err st e)"
  by (simp add: bind_inv_def bind_err_def)

lemma bind_inv_put:
  "bind_inv s st \<Longrightarrow> bound_ok s name v \<Longrightarrow> bind_inv s (st\<lparr>b_out := Map_Set (b_out st) (KStr name) v\<rparr>)"
  by (auto simp: bind_inv_def om.invar_put om.get_put)

lemma bind_inv_set: "bind_inv s st \<Longrightarrow> bound_ok s name v \<Longrightarrow> bind_inv s (bind_set st name v)"
  by (auto simp: bind_inv_def bind_set_def om.invar_put om.get_put)

lemma bind_inv_value: "bind_inv s st \<Longrightarrow> p \<in> set (sig_Params s) \<Longrightarrow> bind_inv s (bind_value rt s p v st)"
  by (auto simp: bind_value_def bind_inv_err intro!: bind_inv_set bound_ok_param dest: coerce_param_ok split: sum.split)

lemma bind_inv_variadic:
  "bind_inv s st \<Longrightarrow> p \<in> set (sig_Params s) \<Longrightarrow> p_Variadic p \<Longrightarrow>
     bind_inv s (st\<lparr>b_out := appendVariadic (b_out st) (p_Name p) v\<rparr>)"
  unfolding appendVariadic_def Let_def by (intro bind_inv_put bound_ok_param) (auto simp: param_ok_def)

lemma bind_inv_positional:
  "bind_inv s st \<Longrightarrow> set positional \<subseteq> set (sig_Params s) \<Longrightarrow>
     bind_inv s (bind_positional rt s positional given i as st)"
proof (induction as arbitrary: st i)
  case (Cons a as)
  have "positional \<noteq> [] \<Longrightarrow> last positional \<in> set (sig_Params s)" "i < length positional \<Longrightarrow> positional ! i \<in> set (sig_Params s)"
    using Cons.prems(2) by (auto dest: last_in_set nth_mem)
  with Cons show ?case
    by (simp add: Let_def bind_inv_err bind_inv_value bind_inv_variadic)
qed simp

lemma Signature_Param_Some: "Signature_Param s name = Some p \<Longrightarrow> p \<in> set (sig_Params s) \<and> p_Name p = name"
  by (auto simp: Signature_Param_def find_Some_iff)

lemma bind_inv_keyword: "bind_inv s st \<Longrightarrow> bind_inv s (bind_keyword rt s st e)"
proof -
  assume inv: "bind_inv s st"
  have used: "bind_inv s ((bind_err st err)\<lparr>b_used := u\<rparr>)" for err u
    using inv by (simp add: bind_inv_def bind_err_def)
  show ?thesis
  proof (cases "Signature_Param s (KeyString (Key e))")
    case None
    then have "\<not> list_ex (\<lambda>p. p_Name p = KeyString (Key e)) (sig_Params s)"
      by (auto simp: Signature_Param_def find_None_iff list_ex_iff)
    with None inv show ?thesis
      by (auto simp: bind_keyword_def Let_def bind_inv_err bound_ok_def intro!: bind_inv_set)
  next
    case (Some p)
    note p = Signature_Param_Some [OF Some]
    from inv Some p show ?thesis
      by (auto simp: bind_keyword_def Let_def bind_inv_err used intro!: bind_inv_set bound_ok_param [of p s, simplified p]
          dest: coerce_param_ok split: sum.split)
  qed
qed

lemma bind_inv_default: "bind_inv s st \<Longrightarrow> p \<in> set (sig_Params s) \<Longrightarrow> bind_inv s (bind_default s st p)"
  by (auto simp: bind_default_def bind_inv_err param_ok_def intro!: bind_inv_put bound_ok_param)

lemma bind_default_errs: "b_errs (bind_default s st p) = [] \<Longrightarrow> b_errs st = []"
  by (auto simp: bind_default_def bind_err_def split: if_splits)

lemma bind_default_keeps:
  "bind_inv s st \<Longrightarrow> Map_Get (b_out st) (KStr n) \<noteq> None \<Longrightarrow> Map_Get (b_out (bind_default s st p)) (KStr n) \<noteq> None"
  by (auto simp: bind_default_def bind_err_def bind_inv_def om.get_put)

lemma bind_default_required:
  assumes "bind_inv s st" and "b_errs (bind_default s st p) = []" and "p_Required p"
  shows "Map_Get (b_out (bind_default s st p)) (KStr (p_Name p)) \<noteq> None"
  using assms bind_default_errs [OF assms(2)]
  by (auto simp: bind_default_def bind_err_def bind_inv_def Map_Has_def split: if_splits)

lemma bind_defaults:
  "bind_inv s st \<Longrightarrow> set ps \<subseteq> set (sig_Params s) \<Longrightarrow>
     bind_inv s (foldl (bind_default s) st ps) \<and>
     (b_errs (foldl (bind_default s) st ps) = [] \<longrightarrow> b_errs st = [] \<and>
        (\<forall>n. Map_Get (b_out st) (KStr n) \<noteq> None \<longrightarrow> Map_Get (b_out (foldl (bind_default s) st ps)) (KStr n) \<noteq> None) \<and>
        (\<forall>p \<in> set ps. p_Required p \<longrightarrow> Map_Get (b_out (foldl (bind_default s) st ps)) (KStr (p_Name p)) \<noteq> None))"
proof (induction ps arbitrary: st)
  case (Cons p ps)
  let ?st = "bind_default s st p"
  have inv: "bind_inv s ?st" using Cons.prems by (simp add: bind_inv_default)
  from Cons.IH [OF inv] Cons.prems(2)
  have IH: "bind_inv s (foldl (bind_default s) ?st ps)"
    "b_errs (foldl (bind_default s) ?st ps) = [] \<Longrightarrow> b_errs ?st = [] \<and>
       (\<forall>n. Map_Get (b_out ?st) (KStr n) \<noteq> None \<longrightarrow> Map_Get (b_out (foldl (bind_default s) ?st ps)) (KStr n) \<noteq> None) \<and>
       (\<forall>p \<in> set ps. p_Required p \<longrightarrow> Map_Get (b_out (foldl (bind_default s) ?st ps)) (KStr (p_Name p)) \<noteq> None)"
    by simp_all
  show ?case
    using IH bind_default_errs bind_default_keeps [OF Cons.prems(1)] bind_default_required [OF Cons.prems(1)]
    by (simp del: not_None_eq) blast
qed simp

lemma bind_inv_start: "bind_inv s \<lparr>b_out = NewMap, b_used = [], b_errs = []\<rparr>"
  by (simp add: bind_inv_def)

lemma bind_inv_keywords: "bind_inv s st \<Longrightarrow> bind_inv s (foldl (bind_keyword rt s) st es)"
  by (rule foldl_invariant) (auto intro: bind_inv_keyword)

text \<open>C35: what a module function may rely on. When binding reports no error, every required parameter has a
  value. A value under the name of a declared parameter is null or has the declared type and, for a string or
  path with choices, is one of them or the decimal spelling of an integer; or it is the list of a variadic
  parameter; or it is the declared default. A value under any other name reaches only a function whose
  signature takes any keyword.\<close>

theorem Bind_sound:
  assumes "Bind rt s args kwargs = (out, [])"
  shows "list_all (\<lambda>p. p_Required p \<longrightarrow> Map_Get out (KStr (p_Name p)) \<noteq> None) (sig_Params s) \<and>
     (\<forall>name v. Map_Get out (KStr name) = Some v \<longrightarrow> bound_ok s name v)"
proof -
  let ?st1 = "bind_positional rt s (filter (\<lambda>p. \<not> p_KeywordOnly p) (sig_Params s)) (length args) 0 args
      \<lparr>b_out = NewMap, b_used = [], b_errs = []\<rparr>"
  have inv1: "bind_inv s ?st1" by (intro bind_inv_positional bind_inv_start) auto
  define st2 where "st2 = (case kwargs of None \<Rightarrow> ?st1 | Some m \<Rightarrow> foldl (bind_keyword rt s) ?st1 (entries m))"
  have "bind_inv s st2" using inv1 by (simp add: st2_def bind_inv_keywords split: option.split)
  from bind_defaults [OF this, of "sig_Params s"] assms show ?thesis
    by (auto simp: Bind_def Let_def st2_def [symmetric] bind_inv_def list_all_iff)
qed

theorem Bind_sound_witness:
  "\<exists>out. Bind no_runtime (plain_sig [plain_param ''name'' TPath [], plain_param ''mode'' TMode []]) []
       (Some (MapOf [(KStr ''name'', VStr ''/etc/motd''), (KStr ''mode'', VStr ''0644'')])) = (out, []) \<and>
     Map_Get out (KStr ''mode'') \<noteq> None"
proof -
  let ?s = "plain_sig [plain_param ''name'' TPath [], plain_param ''mode'' TMode []]"
  let ?m = "Some (MapOf [(KStr ''name'', VStr ''/etc/motd''), (KStr ''mode'', VStr ''0644'')])"
  have "snd (Bind no_runtime ?s [] ?m) = []" by code_simp
  then obtain out where out: "Bind no_runtime ?s [] ?m = (out, [])" by (cases "Bind no_runtime ?s [] ?m") simp
  from Bind_sound [OF out] show ?thesis
    by (intro exI [of _ out] conjI out) (simp add: plain_sig_def plain_param_def)
qed

end
