(* ===== verification/Compile.thy ===== *)
theory Compile
  imports Lowstate Order Go_Path Signature
begin

text \<open>
  The state compiler (\<open>internal/state/compile.go\<close>): loading SLS files depth-first with their
  includes, the allow and deny lists, extends, excludes, the inverse requisites, validation against
  the registry of state modules and the stages that give the ordered low state. The loader, the
  render engine and the registry are interfaces in the code and parameters here.
\<close>

subsection \<open>The compiler and its result\<close>

datatype source_result =
    SrcNotFound                      \<comment> \<open>\<open>ErrNotFound\<close>\<close>
  | SrcError string                  \<comment> \<open>any other error\<close>
  | SrcOK string string              \<comment> \<open>the bytes and the path to report\<close>

record Compiler =
  co_rt :: go_runtime
  co_Source :: "string \<Rightarrow> string \<Rightarrow> source_result"
  co_Envs :: "string list"
  co_Render :: "string \<Rightarrow> string \<Rightarrow> string \<Rightarrow> string \<Rightarrow> string list \<times> (string + val)"
    \<comment> \<open>source, environment, SLS name and path to warnings and an error or the document\<close>
  co_Registry :: "Registry option"
  co_Env :: string
  co_StateAllowlist :: "string list"
  co_StateDenylist :: "string list"
  co_TopMergeStrategy :: string

record Compiled =
  out_High :: HighState
  out_Low :: "Chunk list"
  out_SLS :: "string list"
  out_Diags :: Diags
  out_RenderWarnings :: "string list"

definition new_Compiled :: Compiled where
  "new_Compiled = \<lparr>out_High = NewHighState, out_Low = [], out_SLS = [], out_Diags = [],
                   out_RenderWarnings = []\<rparr>"

definition Compiler_env :: "Compiler \<Rightarrow> string" where
  "Compiler_env c = (if co_Env c \<noteq> [] then co_Env c else ''base'')"

subsection \<open>The allow and deny lists\<close>

definition globOK :: "string \<Rightarrow> string \<Rightarrow> bool" where
  "globOK pattern s = (path_Match pattern s = Some True)"

definition allowedSLS :: "Compiler \<Rightarrow> string \<Rightarrow> bool" where
  "allowedSLS c name =
     (if list_ex (\<lambda>pattern. globOK pattern name) (co_StateDenylist c) then False
      else if length (co_StateAllowlist c) = 0 then True
      else list_ex (\<lambda>pattern. globOK pattern name) (co_StateAllowlist c))"

subsection \<open>Loading\<close>

record pendingExtend =
  pe_from :: string
  pe_env :: string
  pe_m :: vmap

record load_state =
  ld_out :: Compiled
  ld_seen :: "string list"
  ld_extends :: "pendingExtend list"
  ld_excludes :: "excludeRef list"

definition stripEnv :: "string list \<Rightarrow> string list" where
  "stripEnv keys =
     map (\<lambda>k. case index_byte k CHR ''|'' of Some j \<Rightarrow> drop (j + 1) k | None \<Rightarrow> k) keys"

definition ld_add :: "string \<Rightarrow> string \<Rightarrow> string \<Rightarrow> fmt_arg list \<Rightarrow> load_state \<Rightarrow> load_state" where
  "ld_add file name fmt args st =
     st\<lparr>ld_out := (ld_out st)\<lparr>out_Diags := Diags_Add (file_pos file) name [] fmt args (out_Diags (ld_out st))\<rparr>\<rparr>"

definition ld_decl :: "load_state \<Rightarrow> Decl \<Rightarrow> load_state" where
  "ld_decl st d =
     (let out = ld_out st; (h, diags) = HighState_add d (out_High out, out_Diags out)
      in st\<lparr>ld_out := out\<lparr>out_High := h, out_Diags := diags\<rparr>\<rparr>)"

definition ld_content :: "string \<Rightarrow> string \<Rightarrow> slsContent \<Rightarrow> load_state \<Rightarrow> load_state" where
  "ld_content env name content st =
     (let st1 = foldl ld_decl st (sc_Decls content);
          st2 = (case sc_Extends content of
                   None \<Rightarrow> st1
                 | Some m \<Rightarrow> st1\<lparr>ld_extends := ld_extends st1 @ [\<lparr>pe_from = name, pe_env = env, pe_m = m\<rparr>]\<rparr>)
      in st2\<lparr>ld_excludes := ld_excludes st2 @ sc_Excludes content\<rparr>)"

text \<open>What \<open>loadSLS\<close> does up to the includes: either it is done with this name, or the file was
  rendered and read.\<close>

definition sls_key :: "string \<Rightarrow> string \<Rightarrow> string" where
  "sls_key env name = env @ ''|'' @ name"

definition load_file ::
  "Compiler \<Rightarrow> string \<Rightarrow> string \<Rightarrow> string list \<Rightarrow> load_state \<Rightarrow> load_state + (slsContent \<times> load_state)" where
  "load_file c env name stack st =
     (let k = sls_key env name in
      case find_index (\<lambda>s. s = k) stack of
        Some i \<Rightarrow>
          Inl (st\<lparr>ld_out := (ld_out st)\<lparr>out_Diags :=
                 Diags_Warn (file_pos name) name [] ''include cycle: %s; the second arrival is skipped''
                   [FStr (str_join '' -> '' (stripEnv (drop i stack @ [k])))] (out_Diags (ld_out st))\<rparr>\<rparr>)
      | None \<Rightarrow>
          if k \<in> set (ld_seen st) then Inl st
          else
            (case CanonicalSLS name of
               Inl (fmt, args) \<Rightarrow> Inl (ld_add name name ''%v'' [FErr fmt args] st)
             | Inr _ \<Rightarrow>
                 if \<not> allowedSLS c name then
                   Inl (ld_add name name ''sls %q is excluded by state_allowlist or state_denylist'' [FStr name] st)
                 else
                   let st1 = st\<lparr>ld_seen := ld_seen st @ [k]\<rparr> in
                   (case co_Source c env name of
                      SrcNotFound \<Rightarrow>
                        Inl (ld_add name name ''sls %q was not found in environment %q'' [FStr name, FStr env] st1)
                    | SrcError err \<Rightarrow>
                        Inl (ld_add name name ''reading sls %q: %v'' [FStr name, FStr err] st1)
                    | SrcOK src filePath \<Rightarrow>
                        (case co_Render c src env name filePath of
                           (warnings, res) \<Rightarrow>
                             let st2 = st1\<lparr>ld_out := (ld_out st1)\<lparr>out_RenderWarnings :=
                                         out_RenderWarnings (ld_out st1) @ warnings\<rparr>\<rparr> in
                             (case res of
                                Inl err \<Rightarrow> Inl (ld_add filePath name ''%v'' [FStr err] st2)
                              | Inr v \<Rightarrow>
                                  (case parseSLS v name env filePath (out_Diags (ld_out st2)) of
                                     (content, diags) \<Rightarrow>
                                       Inr (content,
                                            st2\<lparr>ld_out := (ld_out st2)\<lparr>out_Diags := diags,
                                                  out_SLS := out_SLS (ld_out st2) @ [name]\<rparr>\<rparr>)))))))"

text \<open>The first numeric argument bounds the depth of the recursion; \<open>None\<close> is running out of it.
  One more than the number of loadable files is enough (theory \<open>Loading\<close>).\<close>

fun loadSLS :: "Compiler \<Rightarrow> nat \<Rightarrow> string \<Rightarrow> string \<Rightarrow> string list \<Rightarrow> load_state \<Rightarrow> load_state option"
  and loadIncludes :: "Compiler \<Rightarrow> nat \<Rightarrow> string \<Rightarrow> includeRef list \<Rightarrow> string list \<Rightarrow> load_state \<Rightarrow> load_state option" where
  "loadSLS c 0 env name stack st = None"
| "loadSLS c (Suc depth) env name stack st =
     (case load_file c env name stack st of
        Inl st1 \<Rightarrow> Some st1
      | Inr (content, st1) \<Rightarrow>
          map_option (ld_content env name content)
            (loadIncludes c depth env (sc_Includes content) (stack @ [sls_key env name]) st1))"
| "loadIncludes c depth env [] stack st = Some st"
| "loadIncludes c depth env (inc # incs) stack st =
     (case loadSLS c depth (if inc_Env inc = [] then env else inc_Env inc) (inc_Name inc) stack st of
        None \<Rightarrow> None
      | Some st1 \<Rightarrow> loadIncludes c depth env incs stack st1)"

fun loadNames :: "Compiler \<Rightarrow> nat \<Rightarrow> string \<Rightarrow> string list \<Rightarrow> load_state \<Rightarrow> load_state option" where
  "loadNames c depth env [] st = Some st"
| "loadNames c depth env (name # names) st =
     (case loadSLS c depth env name [] st of None \<Rightarrow> None | Some st1 \<Rightarrow> loadNames c depth env names st1)"

subsection \<open>Extends and excludes\<close>

definition extend_arg :: "vmap \<Rightarrow> entry \<Rightarrow> vmap" where
  "extend_arg args ae =
     (let name = KeyString (Key ae) in
      case Map_Get args (KStr name) of
        None \<Rightarrow> set_entry args ae
      | Some cur \<Rightarrow>
          (case (cur, Val ae) of
             (VSeq curList, VSeq newList) \<Rightarrow>
               Map_SetAt args (Key ae) (VSeq (curList @ newList)) (KeyPos ae) (ValPos ae)
           | _ \<Rightarrow> set_entry args ae))"

definition extend_existing :: "FuncDecl \<Rightarrow> FuncDecl \<Rightarrow> FuncDecl" where
  "extend_existing existing newDecl =
     existing\<lparr>fd_Args := foldl extend_arg (fd_Args existing) (entries (fd_Args newDecl)),
              fd_Flags := fd_Flags existing @ fd_Flags newDecl\<rparr>"

definition extendFunc :: "string \<Rightarrow> nat \<Rightarrow> HighState \<times> Diags \<Rightarrow> entry \<Rightarrow> HighState \<times> Diags" where
  "extendFunc from i = (\<lambda>(h, diags) fe.
     let decl = hs_decls h ! i; k = KeyString (Key fe) in
     case parseFuncDecl k fe from (d_ID decl) diags of
       (None, diags1) \<Rightarrow> (h, diags1)
     | (Some newDecl, diags1) \<Rightarrow>
         let fs = (case find_index (\<lambda>f. fd_State f = fd_State newDecl) (d_Funcs decl) of
                     None \<Rightarrow> d_Funcs decl @ [newDecl]
                   | Some j \<Rightarrow> (d_Funcs decl)[j := extend_existing (d_Funcs decl ! j) newDecl])
         in (h\<lparr>hs_decls := (hs_decls h)[i := decl\<lparr>d_Funcs := fs\<rparr>]\<rparr>, diags1))"

definition extend_entry :: "string \<Rightarrow> HighState \<times> Diags \<Rightarrow> entry \<Rightarrow> HighState \<times> Diags" where
  "extend_entry from = (\<lambda>(h, diags) e.
     let ident = KeyString (Key e) in
     case gomap_get (hs_index h) ident of
       None \<Rightarrow> (h, Diags_Add (KeyPos e) from ident
                    ''extend names %q, which is not declared anywhere in this run'' [FStr ident] diags)
     | Some i \<Rightarrow>
         (case Val e of
            VMap body \<Rightarrow> foldl (extendFunc from i) (h, diags) (entries body)
          | v \<Rightarrow> (h, Diags_Add (ValPos e) from ident
                     ''an extend entry must hold module.function declarations, found %s''
                     [FStr (TypeName v)] diags)))"

definition applyExtends :: "pendingExtend list \<Rightarrow> HighState \<times> Diags \<Rightarrow> HighState \<times> Diags" where
  "applyExtends extends st =
     foldl (\<lambda>st ext. foldl (extend_entry (pe_from ext)) st (entries (pe_m ext))) st extends"

definition mark_excluded :: "HighState \<Rightarrow> excludeRef \<Rightarrow> HighState" where
  "mark_excluded h ex =
     (if exc_SLS ex \<noteq> [] then h\<lparr>hs_excludedSLS := gomap_put (exc_SLS ex) True (hs_excludedSLS h)\<rparr>
      else if exc_ID ex \<noteq> [] then h\<lparr>hs_excludedIDs := gomap_put (exc_ID ex) True (hs_excludedIDs h)\<rparr>
      else h)"

definition is_excluded :: "HighState \<Rightarrow> Decl \<Rightarrow> bool" where
  "is_excluded h d \<longleftrightarrow> gomap_get (hs_excludedSLS h) (d_SLS d) = Some True
     \<or> gomap_get (hs_excludedIDs h) (d_ID d) = Some True"

definition keep_decl :: "Decl list \<times> (string, nat) gomap \<Rightarrow> Decl \<Rightarrow> Decl list \<times> (string, nat) gomap" where
  "keep_decl = (\<lambda>(kept, index) d.
     (kept @ [d\<lparr>d_Order := int (length kept)\<rparr>], gomap_put (d_ID d) (length kept) index))"

definition applyExcludes :: "excludeRef list \<Rightarrow> HighState \<Rightarrow> HighState" where
  "applyExcludes excludes h =
     (if length excludes = 0 then h
      else
        let h1 = foldl mark_excluded h excludes;
            (kept, index) = foldl keep_decl ([], []) (filter (\<lambda>d. \<not> is_excluded h1 d) (hs_decls h1))
        in h1\<lparr>hs_decls := kept, hs_index := index\<rparr>)"

definition compileNames :: "Compiler \<Rightarrow> nat \<Rightarrow> Compiled \<Rightarrow> string \<Rightarrow> string list \<Rightarrow> Compiled option" where
  "compileNames c depth out env names =
     (case loadNames c depth env names \<lparr>ld_out = out, ld_seen = [], ld_extends = [], ld_excludes = []\<rparr> of
        None \<Rightarrow> None
      | Some st \<Rightarrow>
          let out1 = ld_out st;
              (h, diags) = applyExtends (ld_extends st) (out_High out1, out_Diags out1)
          in Some (out1\<lparr>out_High := applyExcludes (ld_excludes st) h, out_Diags := diags\<rparr>))"

subsection \<open>Inverse requisites\<close>

record addition =
  add_targetID :: string
  add_targetState :: string
  add_targetSLS :: string
  add_kind :: ReqKind
  add_ref :: ReqRef
  add_pos :: pos
  add_fromSLS :: string
  add_fromID :: string

definition addition_ref ::
  "Decl \<Rightarrow> FuncDecl \<Rightarrow> entry \<Rightarrow> ReqKind \<Rightarrow> addition list \<times> Diags \<Rightarrow> ReqRef \<Rightarrow> addition list \<times> Diags" where
  "addition_ref d f e kind = (\<lambda>(adds, diags) ref.
     if kind = Listen \<and> ref_SLS ref \<noteq> [] then
       (adds, Diags_Add (ValPos e) (d_SLS d) (d_ID d) listenSLSRefusal
                [FStr (KeyString (Key e)), FStr (ref_SLS ref)] diags)
     else
       (adds @ [\<lparr>add_targetID = ref_ID ref, add_targetState = ref_State ref, add_targetSLS = ref_SLS ref,
                 add_kind = kind,
                 add_ref = \<lparr>ref_State = fd_State f, ref_ID = d_ID d, ref_SLS = [], ref_Pos = ValPos e\<rparr>,
                 add_pos = ValPos e, add_fromSLS = d_SLS d, add_fromID = d_ID d\<rparr>], diags))"

definition addition_entry ::
  "Decl \<Rightarrow> FuncDecl \<Rightarrow> addition list \<times> Diags \<Rightarrow> entry \<Rightarrow> addition list \<times> Diags" where
  "addition_entry d f = (\<lambda>(adds, diags) e.
     let name = KeyString (Key e) in
     case gomap_get notInverseReqs name of
       Some forward \<Rightarrow>
         (adds, Diags_Add (KeyPos e) (d_SLS d) (d_ID d)
            ''Salt has no %s: it passes it to the state function as an argument and attaches nothing; write %s on the states it names''
            [FStr name, FStr forward] diags)
     | None \<Rightarrow>
         (case gomap_get inverseReqs name of
            None \<Rightarrow> (adds, diags)
          | Some kind \<Rightarrow>
              let (refs, diags1) = parseReqList (Val e) (ValPos e) (d_SLS d) (d_ID d) name diags
              in foldl (addition_ref d f e kind) (adds, diags1) refs))"

definition collect_additions :: "Decl list \<Rightarrow> Diags \<Rightarrow> addition list \<times> Diags" where
  "collect_additions decls diags =
     foldl (\<lambda>st d. foldl (\<lambda>st f. foldl (addition_entry d f) st (entries (fd_Args f))) st (d_Funcs d))
       ([], diags) decls"

definition appendRequisiteArg :: "ReqKind \<Rightarrow> ReqRef \<Rightarrow> FuncDecl \<Rightarrow> FuncDecl" where
  "appendRequisiteArg kind ref f =
     (let name = ReqKind_String kind;
          p = ref_Pos ref;
          item = VMap (if ref_State ref \<noteq> [] then Map_SetAt NewMap (KStr (ref_State ref)) (VStr (ref_ID ref)) p p
                       else Map_SetAt NewMap (KStr ''id'') (VStr (ref_ID ref)) p p);
          items = (case Map_Get (fd_Args f) (KStr name) of
                     None \<Rightarrow> [item]
                   | Some (VSeq items) \<Rightarrow> items @ [item]
                   | Some cur \<Rightarrow> [cur, item])
      in f\<lparr>fd_Args := Map_SetAt (fd_Args f) (KStr name) (VSeq items) p p\<rparr>)"

definition pickExtendTarget :: "Decl \<Rightarrow> string \<Rightarrow> nat option" where
  "pickExtendTarget d state =
     (if state = [] then (if length (d_Funcs d) > 0 then Some 0 else None)
      else find_index (\<lambda>f. fd_State f = state) (d_Funcs d))"

definition inverseToSLS :: "addition \<Rightarrow> HighState \<times> Diags \<Rightarrow> HighState \<times> Diags" where
  "inverseToSLS a = (\<lambda>(h, diags).
     let sls = add_targetSLS a; kind = FStr (ReqKind_String (add_kind a));
         refuse = (\<lambda>fmt. (h, Diags_Add (add_pos a) (add_fromSLS a) (add_fromID a) fmt [kind, FStr sls] diags))
     in
     if HasMeta sls then
       refuse ''%s_in names sls %q, a glob; an `_in` requisite takes an sls by its name (Salt accepts a glob here and attaches nothing)''
     else if list_ex (\<lambda>d. d_SLS d = sls \<and> d_Funcs d \<noteq> []) (hs_decls h) then
       (h\<lparr>hs_decls := map (\<lambda>d. if d_SLS d = sls
              then d\<lparr>d_Funcs := map (appendRequisiteArg (add_kind a) (add_ref a)) (d_Funcs d)\<rparr> else d) (hs_decls h)\<rparr>,
        diags)
     else
       refuse ''%s_in names sls %q, which is not part of this run (Salt accepts this and attaches nothing)'')"

definition apply_addition :: "HighState \<times> Diags \<Rightarrow> addition \<Rightarrow> HighState \<times> Diags" where
  "apply_addition = (\<lambda>(h, diags) a.
     let refuse = (\<lambda>fmt args. (h, Diags_Add (add_pos a) (add_fromSLS a) (add_fromID a) fmt
                                   (FStr (ReqKind_String (add_kind a)) # args) diags))
     in
     if add_targetSLS a \<noteq> [] then inverseToSLS a (h, diags)
     else if add_targetID a = [] then refuse ''%s_in names nothing it can attach to'' []
     else
       case gomap_get (hs_index h) (add_targetID a) of
         None \<Rightarrow> refuse ''%s_in names %q, which is not declared in this run'' [FStr (add_targetID a)]
       | Some i \<Rightarrow>
           (let decl = hs_decls h ! i in
            case pickExtendTarget decl (add_targetState a) of
              None \<Rightarrow> refuse ''%s_in names `%s: %s`, but %q does not declare %s''
                        [FStr (add_targetState a), FStr (add_targetID a), FStr (add_targetID a),
                         FStr (add_targetState a)]
            | Some j \<Rightarrow>
                (h\<lparr>hs_decls := (hs_decls h)[i := decl\<lparr>d_Funcs := (d_Funcs decl)[j :=
                     appendRequisiteArg (add_kind a) (add_ref a) (d_Funcs decl ! j)]\<rparr>]\<rparr>, diags)))"

definition resolveInverseRequisites :: "HighState \<times> Diags \<Rightarrow> HighState \<times> Diags" where
  "resolveInverseRequisites = (\<lambda>(h, diags).
     let (adds, diags1) = collect_additions (hs_decls h) diags
     in foldl apply_addition (h, diags1) adds)"

subsection \<open>Validation\<close>

definition unknownFunctionMessage :: "Registry \<Rightarrow> Chunk \<Rightarrow> fmt_arg" where
  "unknownFunctionMessage reg ch =
     (let fns = map sig_Function (Registry_Functions reg (ch_State ch)) in
      if length fns > 0 then
        FErr ''the %s state module has no function %q; it provides %s''
          [FStr (ch_State ch), FStr (ch_Fun ch), FStr (str_join '', '' fns)]
      else FErr ''%q is not a state module this build ships; see the tier table in SPEC section 15''
             [FStr (ch_State ch)])"

definition validate_prereqs :: "Registry \<Rightarrow> Chunk list \<Rightarrow> Chunk \<Rightarrow> Diags \<Rightarrow> Diags" where
  "validate_prereqs reg chunks ch diags =
     foldl (\<lambda>diags idx.
        let target = chunks ! idx in
        case Registry_Lookup reg (Chunk_Func target) of
          Some tsig \<Rightarrow>
            if sig_TestMode tsig = TestUnreliable then
              Diags_Warn (ch_Pos ch) (ch_SLS ch) (ch_ID ch)
                ''prereq names %s, whose test mode is unreliable; the changes prediction this prereq depends on may be wrong''
                [FStr (Chunk_Func target)] diags
            else diags
        | None \<Rightarrow> diags)
       diags (concat (map req_Resolved (filter (\<lambda>r. req_Kind r = Prereq) (ch_Reqs ch))))"

definition validate_chunk :: "go_runtime \<Rightarrow> Registry \<Rightarrow> Chunk list \<Rightarrow> Diags \<Rightarrow> Chunk \<Rightarrow> Diags" where
  "validate_chunk rt reg chunks diags ch =
     (let p = ch_Pos ch; sls = ch_SLS ch; ident = ch_ID ch in
      case Registry_Lookup reg (Chunk_Func ch) of
        None \<Rightarrow> Diags_Add p sls ident ''%s'' [unknownFunctionMessage reg ch] diags
      | Some s \<Rightarrow>
          let diags1 = foldl (\<lambda>ds err. Diags_Add p sls ident ''%v'' [ArgError_Error err] ds) diags
                     (snd (Bind rt s [] (Some (ch_Args ch))));
              diags2 = (if o_Parallel (ch_Opts ch) then
                          Diags_Warn p sls ident
                            ''%s: `parallel: True` is accepted and this build runs every state in order, one at a time; the state runs, and it does not overlap with its neighbours''
                            [FStr (Chunk_Func ch)] diags1
                        else diags1);
              diags3 = foldl (\<lambda>ds q.
                          if p_Ineffective q = [] \<or> \<not> Map_Has (ch_Args ch) (KStr (p_Name q)) then ds
                          else Diags_Warn p sls ident ''%s: %q has no effect here: %s''
                                 [FStr (Chunk_Func ch), FStr (p_Name q), FStr (p_Ineffective q)] ds)
                        diags2 (sig_Params s)
          in validate_prereqs reg chunks ch diags3)"

definition validate :: "Compiler \<Rightarrow> Chunk list \<Rightarrow> Diags \<Rightarrow> Diags" where
  "validate c chunks diags =
     (case co_Registry c of
        None \<Rightarrow> diags
      | Some reg \<Rightarrow> foldl (validate_chunk (co_rt c) reg chunks) diags chunks)"

subsection \<open>The stages\<close>

definition build_all :: "go_runtime \<Rightarrow> Decl list \<Rightarrow> Diags \<Rightarrow> Chunk list \<times> Diags" where
  "build_all rt decls diags =
     (let (css, diags1) = map_accum (\<lambda>ds d. buildChunks rt d ds) diags decls in (concat css, diags1))"

definition finish :: "Compiler \<Rightarrow> Compiled \<Rightarrow> Compiled option" where
  "finish c out =
     (let (h, diags1) = resolveInverseRequisites (out_High out, out_Diags out);
          (chunks1, diags2) = build_all (co_rt c) (hs_decls h) diags1;
          (chunks2, diags3) = resolveRequisites (co_rt c) chunks1 diags2;
          chunks3 = applyUse chunks2;
          diags4 = validate c chunks3 diags3
      in case order chunks3 diags4 of
           None \<Rightarrow> None
         | Some (low, diags5) \<Rightarrow> Some (out\<lparr>out_High := h, out_Low := low, out_Diags := diags5\<rparr>))"

definition CompileSLS :: "Compiler \<Rightarrow> nat \<Rightarrow> string list \<Rightarrow> Compiled option" where
  "CompileSLS c depth names =
     (case compileNames c depth new_Compiled (Compiler_env c) names of
        None \<Rightarrow> None
      | Some out \<Rightarrow> finish c out)"

definition Compiled_Err :: "sprintf \<Rightarrow> Compiled \<Rightarrow> string option" where
  "Compiled_Err sprintf out = Diags_Err sprintf (out_Diags out)"

end
