(* ===== verification/Loading.thy ===== *)
theory Loading
  imports Compile
begin

text \<open>
  What loading SLS files guarantees: the recursion over includes ends, whatever the include graph
  looks like, and only files under their one accepted name that pass the allow and deny lists
  contribute declarations.
\<close>

subsection \<open>Loading ends\<close>

definition loadable :: "Compiler \<Rightarrow> string set" where
  "loadable c = {sls_key env name | env name src path. co_Source c env name = SrcOK src path}"

lemma load_file_Inr:
  assumes "load_file c env name stack st = Inr (content, st1)"
  shows "sls_key env name \<notin> set stack \<and> sls_key env name \<in> loadable c \<and> CanonicalSLS name = Inr name \<and>
     allowedSLS c name"
proof -
  have stack: "find_index (\<lambda>s. s = sls_key env name) stack = None"
    using assms by (cases "find_index (\<lambda>s. s = sls_key env name) stack") (simp_all add: load_file_def)
  have canon: "\<exists>n. CanonicalSLS name = Inr n"
    using assms stack by (cases "CanonicalSLS name") (auto simp: load_file_def Let_def split: if_splits)
  then have "allowedSLS c name" "\<exists>src path. co_Source c env name = SrcOK src path"
    using assms stack
    by (auto simp: load_file_def Let_def split: if_splits source_result.splits)
  with stack canon show ?thesis
    by (auto simp: find_index_None loadable_def CanonicalSLS_iff)
qed

lemma loadSLS_enough:
  shows "finite (loadable c) \<Longrightarrow> set stack \<subseteq> loadable c \<Longrightarrow> distinct stack \<Longrightarrow> card (loadable c) < depth + length stack \<Longrightarrow>
       loadSLS c depth env name stack st \<noteq> None"
    and "finite (loadable c) \<Longrightarrow> set stack \<subseteq> loadable c \<Longrightarrow> distinct stack \<Longrightarrow> card (loadable c) < depth + length stack \<Longrightarrow>
       loadIncludes c depth env incs stack st \<noteq> None"
proof (induction c depth env name stack st and c depth env incs stack st rule: loadSLS_loadIncludes.induct)
  case (1 c env name stack st)
  then have "length stack \<le> card (loadable c)"
    by (metis card_mono distinct_card)
  with 1 show ?case by simp
next
  case (2 c depth env name stack st)
  show ?case
  proof (cases "load_file c env name stack st")
    case (Inl st1)
    then show ?thesis by simp
  next
    case (Inr x)
    obtain content st1 where x: "x = (content, st1)" by (cases x)
    note key = load_file_Inr [OF Inr [unfolded x]]
    with "2.IH" [OF Inr x [symmetric]] "2.prems" Inr x show ?thesis by simp
  qed
next
  case (4 c depth env inc incs stack st)
  then obtain st1 where "loadSLS c depth (if inc_Env inc = [] then env else inc_Env inc) (inc_Name inc) stack st = Some st1"
    by blast
  with "4.IH"(2) [OF this "4.prems"] show ?case by simp
qed simp

lemma loadNames_enough:
  assumes "finite (loadable c)" and "card (loadable c) < depth"
  shows "\<exists>st'. loadNames c depth env names st = Some st'"
proof (induction names arbitrary: st)
  case (Cons name names)
  from loadSLS_enough(1) [OF assms(1), of "[]" depth env name st] assms(2)
  obtain st1 where "loadSLS c depth env name [] st = Some st1" by auto
  with Cons show ?case by simp
qed simp

text \<open>More depth than enough changes nothing.\<close>

lemma loadSLS_deeper:
  shows "loadSLS c depth env name stack st = Some st' \<Longrightarrow> depth \<le> depth' \<Longrightarrow>
       loadSLS c depth' env name stack st = Some st'"
    and "loadIncludes c depth env incs stack st = Some st' \<Longrightarrow> depth \<le> depth' \<Longrightarrow>
       loadIncludes c depth' env incs stack st = Some st'"
proof (induction c depth env name stack st and c depth env incs stack st
    arbitrary: st' depth' and st' depth' rule: loadSLS_loadIncludes.induct)
  case (2 c depth env name stack st)
  from "2.prems"(2) obtain d where d: "depth' = Suc d" "depth \<le> d" by (cases depth') auto
  show ?case
  proof (cases "load_file c env name stack st")
    case (Inl st1)
    with "2.prems"(1) d show ?thesis by simp
  next
    case (Inr x)
    obtain content st1 where x: "x = (content, st1)" by (cases x)
    from "2.prems"(1) Inr x obtain st2
      where st2: "loadIncludes c depth env (sc_Includes content) (stack @ [sls_key env name]) st1 = Some st2"
        "st' = ld_content env name content st2" by auto
    from "2.IH" [OF Inr x [symmetric] st2(1) d(2)] st2(2) Inr x d(1) show ?thesis by simp
  qed
next
  case (4 c depth env inc incs stack st)
  from "4.prems"(1) obtain st1
    where st1: "loadSLS c depth (if inc_Env inc = [] then env else inc_Env inc) (inc_Name inc) stack st = Some st1"
      "loadIncludes c depth env incs stack st1 = Some st'" by (auto split: option.splits)
  from "4.IH"(1) [OF st1(1) "4.prems"(2)] "4.IH"(2) [OF st1 "4.prems"(2)] show ?case by simp
qed simp_all

lemma loadNames_deeper:
  "loadNames c depth env names st = Some st' \<Longrightarrow> depth \<le> depth' \<Longrightarrow> loadNames c depth' env names st = Some st'"
proof (induction names arbitrary: st)
  case (Cons name names)
  from Cons.prems(1) obtain st1 where st1: "loadSLS c depth env name [] st = Some st1"
    "loadNames c depth env names st1 = Some st'" by (auto split: option.splits)
  from loadSLS_deeper(1) [OF st1(1) Cons.prems(2)] Cons.IH [OF st1(2) Cons.prems(2)] show ?case by simp
qed simp

subsection \<open>What is loaded\<close>

lemma parseDecl_SLS: "fst (parseDecl ident e sls env diags) = Some d \<Longrightarrow> d_SLS d = sls"
proof (cases "Val e")
  case (VStr short)
  assume "fst (parseDecl ident e sls env diags) = Some d"
  then show ?thesis
    by (cases "parseFuncDecl short (Entry (KStr short) VNull (ValPos e) (ValPos e)) sls ident diags")
      (auto simp: parseDecl_def Let_def VStr split: option.splits)
next
  case (VMap body)
  assume "fst (parseDecl ident e sls env diags) = Some d"
  then show ?thesis
    by (cases "foldl (decl_func sls ident) ([], diags) (entries body)")
      (auto simp: parseDecl_def Let_def VMap split: if_splits)
qed (simp_all add: parseDecl_def Let_def)

lemma sls_entry_Decls:
  "sc_Decls (fst (sls_entry sls env filePath (out, diags) e)) = sc_Decls out @
     (if KeyString (Key e) \<in> {''include'', ''extend'', ''exclude''} \<or> is_dunder (KeyString (Key e)) then []
      else case fst (parseDecl (KeyString (Key e)) e sls env diags) of None \<Rightarrow> [] | Some d \<Rightarrow> [d])"
proof -
  define n where "n = KeyString (Key e)"
  obtain r ds where pd: "parseDecl n e sls env diags = (r, ds)" by (cases "parseDecl n e sls env diags")
  consider "n = ''include''" | "n = ''extend''" | "n = ''exclude''" | "n \<notin> {''include'', ''extend'', ''exclude''}" by blast
  then show ?thesis
  proof cases
    case 2
    then show ?thesis by (cases "Val e") (simp_all add: sls_entry_def Let_def n_def)
  next
    case 4
    then show ?thesis using pd by (cases r) (simp_all add: sls_entry_def Let_def n_def)
  qed (simp_all add: sls_entry_def Let_def split_beta n_def)
qed

abbreviation decls_from :: "string \<Rightarrow> slsContent \<Rightarrow> bool" where
  "decls_from sls content \<equiv> list_all (\<lambda>d. d_SLS d = sls) (sc_Decls content)"

lemma sls_entry_SLS:
  assumes "decls_from sls (fst st)"
  shows "decls_from sls (fst (sls_entry sls env filePath st e))"
proof (cases st)
  case (Pair out diags)
  then show ?thesis
    using assms parseDecl_SLS [of "KeyString (Key e)" e sls env diags]
    by (cases "fst (parseDecl (KeyString (Key e)) e sls env diags)") (simp_all add: sls_entry_Decls)
qed

lemma sls_entries_SLS: "decls_from sls (fst st) \<Longrightarrow> decls_from sls (fst (foldl (sls_entry sls env filePath) st es))"
  by (induction es arbitrary: st) (simp_all add: sls_entry_SLS)

lemma parseSLS_SLS: "decls_from sls (fst (parseSLS v sls env filePath diags))"
  by (cases v) (simp_all add: parseSLS_def empty_content_def sls_entries_SLS)

text \<open>The invariant of loading: every file that contributed has its one accepted name and passes the
  lists, every declaration comes from such a file, and the declarations are indexed.\<close>

definition out_inv :: "Compiler \<Rightarrow> string set \<Rightarrow> Compiled \<Rightarrow> bool" where
  "out_inv c S out \<longleftrightarrow>
     hs_ok (out_High out) \<and> S \<subseteq> set (out_SLS out) \<and>
     (\<forall>n \<in> set (out_SLS out). CanonicalSLS n = Inr n \<and> allowedSLS c n) \<and>
     (\<forall>d \<in> set (hs_decls (out_High out)). d_SLS d \<in> set (out_SLS out))"

abbreviation load_inv :: "Compiler \<Rightarrow> string set \<Rightarrow> load_state \<Rightarrow> bool" where
  "load_inv c S st \<equiv> out_inv c S (ld_out st)"

lemma out_inv_diags [simp]:
  "out_inv c S (out\<lparr>out_Diags := ds\<rparr>) = out_inv c S out"
  "out_inv c S (out\<lparr>out_RenderWarnings := ws\<rparr>) = out_inv c S out"
  by (simp_all add: out_inv_def)

lemma load_inv_add [simp]: "load_inv c S (ld_add file name fmt args st) = load_inv c S st"
  by (simp add: ld_add_def)

lemma load_file_inv:
  assumes "load_inv c S st"
  shows "load_file c env name stack st = Inl st1 \<Longrightarrow> load_inv c S st1"
    and "load_file c env name stack st = Inr (content, st1) \<Longrightarrow>
           load_inv c (insert name S) st1 \<and> decls_from name content"
proof -
  assume "load_file c env name stack st = Inl st1"
  with assms show "load_inv c S st1"
    by (auto simp: load_file_def Let_def split: option.splits if_splits sum.splits prod.splits source_result.splits)
next
  assume f: "load_file c env name stack st = Inr (content, st1)"
  note key = load_file_Inr [OF f]
  from f obtain v filePath ds ds' ws where "parseSLS v name env filePath ds = (content, ds')"
    "ld_out st1 = (ld_out st)\<lparr>out_RenderWarnings := ws, out_Diags := ds', out_SLS := out_SLS (ld_out st) @ [name]\<rparr>"
    by (auto simp: load_file_def Let_def split: option.splits if_splits sum.splits prod.splits source_result.splits)
  with assms key parseSLS_SLS [of name v env filePath ds] show "load_inv c (insert name S) st1 \<and> decls_from name content"
    by (auto simp: out_inv_def)
qed

lemma HighState_add_decls:
  "set (hs_decls (fst (HighState_add d (h, diags)))) \<subseteq> insert (d\<lparr>d_Order := int (length (hs_decls h))\<rparr>) (set (hs_decls h))"
  by (auto simp: HighState_add_def Let_def split: option.splits)

lemma ld_decl_inv:
  assumes "load_inv c S st" and "d_SLS d \<in> S"
  shows "load_inv c S (ld_decl st d)"
proof -
  let ?o = "ld_out st"
  have "hs_ok (fst (HighState_add d (out_High ?o, out_Diags ?o)))" using assms(1) by (simp add: out_inv_def hs_ok_add)
  moreover have "\<forall>x \<in> set (hs_decls (fst (HighState_add d (out_High ?o, out_Diags ?o)))). d_SLS x \<in> set (out_SLS ?o)"
  proof
    fix x
    assume "x \<in> set (hs_decls (fst (HighState_add d (out_High ?o, out_Diags ?o))))"
    with HighState_add_decls have "x \<in> insert (d\<lparr>d_Order := int (length (hs_decls (out_High ?o)))\<rparr>) (set (hs_decls (out_High ?o)))"
      by blast
    then show "d_SLS x \<in> set (out_SLS ?o)" using assms by (auto simp: out_inv_def)
  qed
  ultimately show ?thesis using assms(1) by (simp add: ld_decl_def split_beta Let_def out_inv_def)
qed

lemma ld_content_inv:
  assumes "load_inv c S st" and "name \<in> S" and "decls_from name content"
  shows "load_inv c S (ld_content env name content st)"
proof -
  have "\<forall>d \<in> set ds. d_SLS d \<in> S \<Longrightarrow> load_inv c S s \<Longrightarrow> load_inv c S (foldl ld_decl s ds)" for ds s
    by (induction ds arbitrary: s) (simp_all add: ld_decl_inv)
  then have "load_inv c S (foldl ld_decl st (sc_Decls content))" using assms by (simp add: list_all_iff)
  then show ?thesis by (simp add: ld_content_def Let_def split: option.splits)
qed

lemma out_inv_mono: "out_inv c S out \<Longrightarrow> T \<subseteq> S \<Longrightarrow> out_inv c T out"
  by (auto simp: out_inv_def)

lemma loadSLS_inv:
  shows "load_inv c S st \<Longrightarrow> loadSLS c depth env name stack st = Some st' \<Longrightarrow> load_inv c S st'"
    and "load_inv c S st \<Longrightarrow> loadIncludes c depth env incs stack st = Some st' \<Longrightarrow> load_inv c S st'"
proof (induction c depth env name stack st and c depth env incs stack st
    arbitrary: S st' and S st' rule: loadSLS_loadIncludes.induct)
  case (2 c depth env name stack st)
  show ?case
  proof (cases "load_file c env name stack st")
    case (Inl st1)
    with load_file_inv(1) [OF "2.prems"(1) Inl] "2.prems"(2) show ?thesis by simp
  next
    case (Inr x)
    obtain content st1 where x: "x = (content, st1)" by (cases x)
    note f = load_file_inv(2) [OF "2.prems"(1) Inr [unfolded x]]
    from "2.prems"(2) Inr x obtain st2
      where st2: "loadIncludes c depth env (sc_Includes content) (stack @ [sls_key env name]) st1 = Some st2"
        "st' = ld_content env name content st2" by auto
    from "2.IH" [OF Inr x [symmetric] _ st2(1)] f have "load_inv c (insert name S) st2" by blast
    then have "load_inv c (insert name S) st'" unfolding st2(2) by (rule ld_content_inv) (use f in auto)
    then show ?thesis by (rule out_inv_mono) auto
  qed
next
  case (4 c depth env inc incs stack st)
  from "4.prems"(2) obtain st1
    where st1: "loadSLS c depth (if inc_Env inc = [] then env else inc_Env inc) (inc_Name inc) stack st = Some st1"
      "loadIncludes c depth env incs stack st1 = Some st'" by (auto split: option.splits)
  from "4.IH"(2) [OF st1(1) "4.IH"(1) [OF "4.prems"(1) st1(1)] st1(2)] show ?case .
qed simp_all

lemma loadNames_inv: "load_inv c S st \<Longrightarrow> loadNames c depth env names st = Some st' \<Longrightarrow> load_inv c S st'"
  by (induction names arbitrary: st) (auto split: option.splits dest: loadSLS_inv(1))

end
