(* ===== verification/Pipeline.thy ===== *)
theory Pipeline
  imports Loading
begin

text \<open>
  The stages after loading, and the compiler as a whole: extends and excludes keep the declarations
  they do not name, the inverse requisites attach, and \<open>CompileSLS\<close> always returns, with a low state
  whose order respects every requisite unless it reports an error.
\<close>

subsection \<open>What the passes over the high state keep\<close>

text \<open>A pass that only changes functions keeps the index and every declaration's identity.\<close>

definition decl_tag :: "Decl \<Rightarrow> string \<times> string \<times> int" where
  "decl_tag d = (d_ID d, d_SLS d, d_Order d)"

definition same_tags :: "HighState \<Rightarrow> HighState \<Rightarrow> bool" where
  "same_tags h h' \<longleftrightarrow> hs_index h' = hs_index h \<and> map decl_tag (hs_decls h') = map decl_tag (hs_decls h)"

lemma same_tags_refl [simp]: "same_tags h h"
  by (simp add: same_tags_def)

lemma same_tags_trans: "same_tags h h' \<Longrightarrow> same_tags h' h'' \<Longrightarrow> same_tags h h''"
  by (simp add: same_tags_def)

lemma map_update_same: "f y = f (xs ! i) \<Longrightarrow> map f (xs[i := y]) = map f xs"
  by (cases "i < length xs") (auto simp: map_update list_update_same_conv list_update_beyond)

lemma same_tags_Funcs:
  "same_tags h (h\<lparr>hs_decls := (hs_decls h)[i := (hs_decls h ! i)\<lparr>d_Funcs := fs\<rparr>]\<rparr>)"
  by (simp add: same_tags_def map_update_same decl_tag_def)

lemma foldl_same_tags:
  assumes "\<And>st x. same_tags (fst st) (fst (f st x))"
  shows "same_tags (fst st) (fst (foldl f st xs))"
proof (induction xs arbitrary: st)
  case (Cons x xs)
  show ?case using same_tags_trans [OF assms Cons.IH] by simp
qed simp

lemma same_tags_nth:
  assumes "same_tags h h'" and "k < length (hs_decls h)"
  shows "decl_tag (hs_decls h' ! k) = decl_tag (hs_decls h ! k)"
  using assms by (metis same_tags_def length_map nth_map)

lemma hs_ok_same_tags:
  assumes "hs_ok h" and "same_tags h h'"
  shows "hs_ok h'"
proof -
  have len: "length (hs_decls h') = length (hs_decls h)" using assms(2) by (metis same_tags_def length_map)
  have ids: "map d_ID (hs_decls h') = map d_ID (hs_decls h)"
    by (rule nth_equalityI) (use same_tags_nth [OF assms(2)] len in \<open>auto simp: decl_tag_def\<close>)
  have "find_index (\<lambda>d. d_ID d = i) ds = find_index (\<lambda>x. x = i) (map d_ID ds)" for i and ds :: "Decl list"
    by (induction ds) auto
  then have "find_index (\<lambda>d. d_ID d = i) (hs_decls h') = find_index (\<lambda>d. d_ID d = i) (hs_decls h)" for i
    using ids by simp
  moreover have "\<forall>k < length (hs_decls h'). d_Order (hs_decls h' ! k) = int k"
    using assms(1) same_tags_nth [OF assms(2)] len by (simp add: hs_ok_def decl_tag_def)
  ultimately show ?thesis using assms ids by (simp add: hs_ok_def same_tags_def)
qed

lemma SLS_same_tags: "same_tags h h' \<Longrightarrow> d_SLS ` set (hs_decls h') = d_SLS ` set (hs_decls h)"
proof -
  assume "same_tags h h'"
  then have "(fst \<circ> snd) ` set (map decl_tag (hs_decls h')) = (fst \<circ> snd) ` set (map decl_tag (hs_decls h))"
    by (simp add: same_tags_def)
  then show ?thesis by (simp add: image_image decl_tag_def)
qed

lemma extendFunc_tags: "same_tags (fst st) (fst (extendFunc from i st fe))"
  by (cases st) (auto simp: extendFunc_def Let_def same_tags_Funcs split: prod.splits option.splits)

lemma extend_entry_tags: "same_tags (fst st) (fst (extend_entry from st e))"
proof (cases st)
  case (Pair h diags)
  show ?thesis
  proof (cases "gomap_get (hs_index h) (KeyString (Key e))")
    case (Some i)
    then show ?thesis
      using foldl_same_tags [of "extendFunc from i", OF extendFunc_tags, of st]
      by (cases "Val e") (simp_all add: Pair extend_entry_def Let_def)
  qed (simp add: Pair extend_entry_def Let_def)
qed

lemma applyExtends_tags: "same_tags (fst st) (fst (applyExtends exts st))"
  unfolding applyExtends_def by (intro foldl_same_tags extend_entry_tags)

lemma keep_decls:
  "foldl keep_decl (kept, ix) ds = (kept', ix') \<Longrightarrow>
     hs_ok (h\<lparr>hs_decls := kept, hs_index := ix\<rparr>) \<Longrightarrow> distinct (map d_ID kept @ map d_ID ds) \<Longrightarrow>
     hs_ok (h\<lparr>hs_decls := kept', hs_index := ix'\<rparr>) \<and> d_SLS ` set kept' \<subseteq> d_SLS ` set kept \<union> d_SLS ` set ds"
proof (induction ds arbitrary: kept ix)
  case (Cons d ds)
  have "find_index (\<lambda>x. d_ID x = d_ID d) kept = None" using Cons.prems(3) by (simp add: find_index_key_None)
  then have "find_index (\<lambda>d. d_ID d = i) (kept @ [d\<lparr>d_Order := int (length kept)\<rparr>]) =
      gomap_get (gomap_put (d_ID d) (length kept) ix) i" for i
    using Cons.prems(2,3) by (auto simp: hs_ok_def find_index_append split: option.splits)
  then have "hs_ok (h\<lparr>hs_decls := kept @ [d\<lparr>d_Order := int (length kept)\<rparr>],
      hs_index := gomap_put (d_ID d) (length kept) ix\<rparr>)"
    using Cons.prems(2,3) by (auto simp: hs_ok_def nth_append less_Suc_eq)
  with Cons.IH [of "kept @ [d\<lparr>d_Order := int (length kept)\<rparr>]" "gomap_put (d_ID d) (length kept) ix"] Cons.prems
  show ?case by (auto simp: keep_decl_def)
qed simp

lemma mark_excluded_same:
  "hs_decls (foldl mark_excluded h exs) = hs_decls h \<and> hs_index (foldl mark_excluded h exs) = hs_index h"
  by (induction exs arbitrary: h) (simp_all add: mark_excluded_def)

lemma applyExcludes_ok:
  assumes "hs_ok h"
  shows "hs_ok (applyExcludes exs h)" and "d_SLS ` set (hs_decls (applyExcludes exs h)) \<subseteq> d_SLS ` set (hs_decls h)"
proof -
  define h1 where "h1 = foldl mark_excluded h exs"
  define ds where "ds = filter (\<lambda>d. \<not> is_excluded h1 d) (hs_decls h1)"
  obtain kept ix where k: "foldl keep_decl ([], []) ds = (kept, ix)" by (cases "foldl keep_decl ([], []) ds")
  have "distinct (map d_ID ds)"
    using assms mark_excluded_same [of h exs] by (simp add: ds_def h1_def hs_ok_def distinct_map_filter)
  with keep_decls [OF k, of h1]
  have "hs_ok (h1\<lparr>hs_decls := kept, hs_index := ix\<rparr>)" "d_SLS ` set kept \<subseteq> d_SLS ` set ds"
    by (simp_all add: hs_ok_def)
  moreover have "d_SLS ` set ds \<subseteq> d_SLS ` set (hs_decls h)"
    using mark_excluded_same [of h exs] by (auto simp: ds_def h1_def)
  moreover have "exs \<noteq> [] \<Longrightarrow> applyExcludes exs h = h1\<lparr>hs_decls := kept, hs_index := ix\<rparr>"
    using k by (simp add: applyExcludes_def h1_def [symmetric] ds_def [symmetric] Let_def)
  ultimately show "hs_ok (applyExcludes exs h)" "d_SLS ` set (hs_decls (applyExcludes exs h)) \<subseteq> d_SLS ` set (hs_decls h)"
    using assms by (cases "exs = []"; auto simp: applyExcludes_def)+
qed

lemma apply_addition_tags: "same_tags (fst st) (fst (apply_addition st a))"
proof (cases st)
  case (Pair h diags)
  have "same_tags h (fst (inverseToSLS a (h, diags)))"
    by (simp add: inverseToSLS_def Let_def same_tags_def decl_tag_def)
  then show ?thesis
    by (auto simp: Pair apply_addition_def Let_def same_tags_Funcs split: option.splits)
qed

lemma resolveInverseRequisites_tags: "same_tags (fst st) (fst (resolveInverseRequisites st))"
  using foldl_same_tags [of apply_addition, OF apply_addition_tags]
  by (simp add: resolveInverseRequisites_def split_beta Let_def) (metis fst_conv)

subsection \<open>The low state\<close>

lemma build_all_ok:
  assumes "c \<in> set (fst (build_all rt ds diags))"
  shows "\<exists>d \<in> set ds. \<exists>f \<in> set (d_Funcs d). chunk_ok d f c"
proof -
  from assms obtain cs where cs: "cs \<in> set (fst (map_accum (\<lambda>dg d. buildChunks rt d dg) diags ds))" "c \<in> set cs"
    by (auto simp: build_all_def split_beta Let_def)
  from set_map_accum_fst [OF cs(1)] obtain d dg where "d \<in> set ds" "cs = fst (buildChunks rt d dg)" by auto
  with buildChunks_ok [of c rt d dg] cs(2) show ?thesis by auto
qed

definition chunks_ready :: "Chunk list \<Rightarrow> bool" where
  "chunks_ready cs \<longleftrightarrow> (\<forall>c \<in> set cs. map_ok (ch_Args c) \<and> unresolved (ch_Reqs c))"

lemma build_all_ready: "chunks_ready (fst (build_all rt ds diags))"
  unfolding chunks_ready_def by (auto dest!: build_all_ok simp: chunk_ok_def chunk_of_def args_ok_def)

definition use_resolved :: "go_runtime \<Rightarrow> Chunk list \<Rightarrow> Diags \<Rightarrow> Chunk list" where
  "use_resolved rt cs diags = applyUse (fst (resolveRequisites rt cs diags))"

lemma use_resolved_extends:
  assumes "chunks_ready cs"
  shows "use_extends (map (resolved_chunk rt cs) cs) (use_resolved rt cs diags)"
  using assms applyUse_extends [of "map (resolved_chunk rt cs) cs"]
  by (simp add: use_resolved_def resolveRequisites_spec chunks_ready_def resolved_chunk_def)

lemma use_resolved_nth:
  assumes "chunks_ready cs" and "j < length cs"
  shows "(use_resolved rt cs diags ! j)\<lparr>ch_Args := ch_Args (cs ! j)\<rparr> = resolved_chunk rt cs (cs ! j)"
  using use_resolved_extends [OF assms(1), of rt diags] assms(2)
  by (simp add: use_extends_def resolved_chunk_def)

lemma use_resolved_length [simp]: "chunks_ready cs \<Longrightarrow> length (use_resolved rt cs diags) = length cs"
  using use_resolved_extends [of cs rt diags] by (simp add: use_extends_def)

lemma use_resolved_keeps:
  assumes "chunks_ready cs" and "j < length cs"
  shows "ch_Reqs (use_resolved rt cs diags ! j) = map (resolved_req rt cs) (ch_Reqs (cs ! j))"
    and "ch_SLS (use_resolved rt cs diags ! j) = ch_SLS (cs ! j)"
    and "ch_ID (use_resolved rt cs diags ! j) = ch_ID (cs ! j)"
proof -
  note eq = use_resolved_nth [OF assms, of rt diags]
  show "ch_Reqs (use_resolved rt cs diags ! j) = map (resolved_req rt cs) (ch_Reqs (cs ! j))"
    using arg_cong [OF eq, of ch_Reqs] by (simp add: resolved_chunk_def)
  show "ch_SLS (use_resolved rt cs diags ! j) = ch_SLS (cs ! j)"
    using arg_cong [OF eq, of ch_SLS] by (simp add: resolved_chunk_def)
  show "ch_ID (use_resolved rt cs diags ! j) = ch_ID (cs ! j)"
    using arg_cong [OF eq, of ch_ID] by (simp add: resolved_chunk_def)
qed

lemma use_resolved_in_range:
  assumes "chunks_ready cs"
  shows "resolved_in_range (use_resolved rt cs diags)"
proof -
  have "set (req_Resolved r) \<subseteq> {..<length cs}" if "j < length cs" "r \<in> set (ch_Reqs (use_resolved rt cs diags ! j))" for j r
  proof -
    from that use_resolved_keeps(1) [OF assms that(1)] obtain r0
      where r0: "r0 \<in> set (ch_Reqs (cs ! j))" "r = resolved_req rt cs r0" by auto
    from assms that(1) r0(1) have "req_Resolved r0 = []"
      by (auto simp: chunks_ready_def unresolved_def list_all_iff dest: nth_mem)
    with r0(2) ref_targets_in_range [of rt cs] show ?thesis by (auto simp: resolved_req_def)
  qed
  then show ?thesis using assms
    by (auto simp: resolved_in_range_def list_all_iff in_set_conv_nth [of _ "use_resolved rt cs diags"] subset_iff)
qed

subsection \<open>The last stages together\<close>

lemma validate_prereqs_errors: "HasErrors ds \<Longrightarrow> HasErrors (validate_prereqs reg cs ch ds)"
  unfolding validate_prereqs_def by (rule foldl_invariant) (auto simp: Let_def split: option.splits)

lemma validate_chunk_errors:
  assumes "HasErrors ds"
  shows "HasErrors (validate_chunk rt reg cs ds ch)"
proof (cases "Registry_Lookup reg (Chunk_Func ch)")
  case (Some s)
  have add: "HasErrors ds \<Longrightarrow> HasErrors (foldl (\<lambda>ds err. Diags_Add p sls i ''%v'' [ArgError_Error err] ds) ds errs)" for ds p sls i errs
    by (induction errs arbitrary: ds) auto
  have warn: "HasErrors ds \<Longrightarrow> HasErrors (foldl (\<lambda>ds q.
      if p_Ineffective q = [] \<or> \<not> Map_Has (ch_Args ch) (KStr (p_Name q)) then ds
      else Diags_Warn p sls i fmt [FStr (Chunk_Func ch), FStr (p_Name q), FStr (p_Ineffective q)] ds) ds ps)" for ds p sls i ps fmt
    by (induction ps arbitrary: ds) auto
  show ?thesis
    using Some assms by (simp add: validate_chunk_def Let_def validate_prereqs_errors warn add)
qed (use assms in \<open>simp add: validate_chunk_def Let_def\<close>)

lemma validate_errors: "HasErrors ds \<Longrightarrow> HasErrors (validate c cs ds)"
proof -
  have "HasErrors ds \<Longrightarrow> HasErrors (foldl (validate_chunk rt reg cs) ds chs)" for rt reg chs
    by (induction chs arbitrary: ds) (simp_all add: validate_chunk_errors)
  then show "HasErrors ds \<Longrightarrow> HasErrors (validate c cs ds)" by (simp add: validate_def split: option.split)
qed

text \<open>A requisite that names something has a target.\<close>

definition all_targets_found :: "Chunk list \<Rightarrow> bool" where
  "all_targets_found cs \<longleftrightarrow>
     list_all (\<lambda>c. list_all (\<lambda>r. req_Refs r = [] \<or> req_Resolved r \<noteq> []) (ch_Reqs c)) cs"

lemma use_resolved_found:
  assumes "chunks_ready cs" and "\<not> HasErrors (snd (resolveRequisites rt cs diags))"
  shows "all_targets_found (use_resolved rt cs diags)"
proof -
  have *: "req_Refs r = [] \<or> req_Resolved r \<noteq> []"
    if "j < length cs" "r \<in> set (ch_Reqs (use_resolved rt cs diags ! j))" for j r
  proof -
    from that use_resolved_keeps(1) [OF assms(1) that(1)] obtain r0
      where r0: "r0 \<in> set (ch_Reqs (cs ! j))" "r = resolved_req rt cs r0" by auto
    moreover from assms(2) that(1) r0(1) have "\<not> dangling_req rt cs r0"
      by (auto simp: resolveRequisites_spec list_ex_iff dest: nth_mem)
    ultimately show ?thesis
      by (cases "req_Refs r0") (simp_all add: resolved_req_def dangling_req_def)
  qed
  have "list_all (\<lambda>r. req_Refs r = [] \<or> req_Resolved r \<noteq> []) (ch_Reqs (use_resolved rt cs diags ! j))"
    if "j < length cs" for j unfolding list_all_iff using * [OF that] by blast
  then show ?thesis using assms(1) by (simp add: all_targets_found_def list_all_length [of _ "use_resolved rt cs diags"])
qed

lemma ordered_found:
  assumes "all_targets_found cs" and "mset out = mset [0..<length cs]"
  shows "all_targets_found (map (reindexed out cs) [0..<length cs])"
proof -
  have "out ! p < length cs" if "p < length cs" for p
    using that nth_mem [of p out] mset_eq_setD [OF assms(2)] mset_eq_length [OF assms(2)] by auto
  then show ?thesis
    using assms(1) by (auto simp: all_targets_found_def list_all_iff reindexed_def dest: nth_mem)
qed

definition finish_ok :: "Compiled \<Rightarrow> Compiled \<Rightarrow> bool" where
  "finish_ok out out' \<longleftrightarrow>
     out_SLS out' = out_SLS out \<and> same_tags (out_High out) (out_High out') \<and>
     (\<forall>c \<in> set (out_Low out'). \<exists>d \<in> set (hs_decls (out_High out')). ch_SLS c = d_SLS d \<and> ch_ID c = d_ID d) \<and>
     (\<not> HasErrors (out_Diags out') \<longrightarrow> in_run_order (out_Low out') \<and> all_targets_found (out_Low out'))"

lemma finish_spec: "\<exists>out'. finish c out = Some out' \<and> finish_ok out out'"
proof -
  obtain h d1 where h: "resolveInverseRequisites (out_High out, out_Diags out) = (h, d1)"
    by (cases "resolveInverseRequisites (out_High out, out_Diags out)")
  obtain cs d2 where cs: "build_all (co_rt c) (hs_decls h) d1 = (cs, d2)" by (cases "build_all (co_rt c) (hs_decls h) d1")
  obtain cs2 d3 where cs2: "resolveRequisites (co_rt c) cs d2 = (cs2, d3)" by (cases "resolveRequisites (co_rt c) cs d2")
  define us where "us = use_resolved (co_rt c) cs d2"
  have us: "applyUse cs2 = us" by (simp add: us_def use_resolved_def cs2)
  have ready: "chunks_ready cs" using build_all_ready [of "co_rt c" "hs_decls h" d1] cs by simp
  have range: "resolved_in_range us" unfolding us_def by (rule use_resolved_in_range [OF ready])
  from order_result [OF range, of "validate c us d3"] obtain p new
    where o: "order us (validate c us d3) = Some (map (reindexed p us) [0..<length us], validate c us d3 @ new)"
      "mset p = mset [0..<length us]" "length p = length us" .
  define low where "low = map (reindexed p us) [0..<length us]"
  have fin: "finish c out = Some (out\<lparr>out_High := h, out_Low := low, out_Diags := validate c us d3 @ new\<rparr>)"
    by (simp add: finish_def h cs cs2 us o low_def Let_def)
  have run: "in_run_order low" if "\<not> HasErrors (validate c us d3 @ new)"
    using order_run_order [OF range, of "validate c us d3"] o(1) that by (simp add: low_def)
  have found: "all_targets_found low" if "\<not> HasErrors (validate c us d3 @ new)"
    using that validate_errors [of d3 c us] use_resolved_found [OF ready, of "co_rt c" d2] ordered_found [OF _ o(2)]
    by (auto simp: low_def us_def cs2)
  have from_decl: "\<exists>d \<in> set (hs_decls h). ch_SLS ch = d_SLS d \<and> ch_ID ch = d_ID d" if ch: "ch \<in> set low" for ch
  proof -
    have "p ! q < length us" if "q < length us" for q
      using that nth_mem [of q p] mset_eq_setD [OF o(2)] o(3) by auto
    moreover from ch obtain q where "q < length us" "ch = reindexed p us q" by (auto simp: low_def)
    ultimately have "p ! q < length us" "ch_SLS ch = ch_SLS (us ! (p ! q))" "ch_ID ch = ch_ID (us ! (p ! q))"
      by (simp_all add: reindexed_def)
    then obtain j where j: "j < length us" "ch_SLS ch = ch_SLS (us ! j)" "ch_ID ch = ch_ID (us ! j)" by blast
    then have "j < length cs" using ready by (simp add: us_def)
    with build_all_ok [of "cs ! j" "co_rt c" "hs_decls h" d1] cs j use_resolved_keeps(2,3) [OF ready, of j "co_rt c" d2]
    show ?thesis by (auto simp: us_def chunk_ok_def chunk_of_def)
  qed
  have "same_tags (out_High out) h" using resolveInverseRequisites_tags [of "(out_High out, out_Diags out)"] h by simp
  then have "finish_ok out (out\<lparr>out_High := h, out_Low := low, out_Diags := validate c us d3 @ new\<rparr>)"
    unfolding finish_ok_def using from_decl run found by simp
  with fin show ?thesis by blast
qed

subsection \<open>The compiler\<close>

lemma compileNames_inv:
  assumes "compileNames c depth out0 env names = Some out" and "out_inv c {} out0"
  shows "out_inv c {} out"
proof -
  let ?st0 = "\<lparr>ld_out = out0, ld_seen = [], ld_extends = [], ld_excludes = []\<rparr>"
  have "load_inv c {} ?st0" using assms(2) by simp
  moreover from assms(1) obtain st where st: "loadNames c depth env names ?st0 = Some st"
    by (auto simp: compileNames_def split: option.splits)
  ultimately have inv: "out_inv c {} (ld_out st)" by (rule loadNames_inv)
  let ?h0 = "out_High (ld_out st)"
  define h where "h = fst (applyExtends (ld_extends st) (?h0, out_Diags (ld_out st)))"
  have tags: "same_tags ?h0 h" using applyExtends_tags [of "(?h0, out_Diags (ld_out st))"] by (simp add: h_def)
  have ok: "hs_ok h" using inv tags hs_ok_same_tags by (auto simp: out_inv_def)
  have "d_SLS ` set (hs_decls (applyExcludes (ld_excludes st) h)) \<subseteq> d_SLS ` set (hs_decls ?h0)"
    using applyExcludes_ok(2) [OF ok] SLS_same_tags [OF tags] by blast
  also have "\<dots> \<subseteq> set (out_SLS (ld_out st))" using inv by (auto simp: out_inv_def)
  finally have "\<forall>d \<in> set (hs_decls (applyExcludes (ld_excludes st) h)). d_SLS d \<in> set (out_SLS (ld_out st))" by blast
  moreover have "out = (ld_out st)\<lparr>out_High := applyExcludes (ld_excludes st) h,
      out_Diags := snd (applyExtends (ld_extends st) (?h0, out_Diags (ld_out st)))\<rparr>"
    using assms(1) st by (simp add: compileNames_def split_beta Let_def h_def)
  ultimately show ?thesis using inv applyExcludes_ok(1) [OF ok] by (simp add: out_inv_def)
qed

lemma out_inv_new: "out_inv c {} (new_Compiled\<lparr>out_Diags := ds\<rparr>)" "out_inv c {} new_Compiled"
  by (simp_all add: out_inv_def new_Compiled_def NewHighState_def hs_ok_def)

lemma CompileSLS_finish:
  assumes "CompileSLS c depth names = Some out"
  obtains out0 where "out_inv c {} out0" and "finish_ok out0 out"
proof -
  from assms obtain out0 where out0: "compileNames c depth new_Compiled (Compiler_env c) names = Some out0"
    "finish c out0 = Some out" by (auto simp: CompileSLS_def split: option.splits)
  with finish_spec [of c out0] show thesis by (intro that [of out0]) (auto dest: compileNames_inv intro: out_inv_new)
qed

lemma compileNames_enough:
  assumes "finite (loadable c)" and "card (loadable c) < depth"
  shows "\<exists>out'. compileNames c depth out env names = Some out'"
  using loadNames_enough [OF assms, of env names "\<lparr>ld_out = out, ld_seen = [], ld_extends = [], ld_excludes = []\<rparr>"]
  by (auto simp: compileNames_def split_beta Let_def)

lemma compileNames_deeper:
  assumes "compileNames c depth out env names = Some out'" and "depth \<le> depth'"
  shows "compileNames c depth' out env names = Some out'"
  using assms by (auto simp: compileNames_def split: option.splits dest: loadNames_deeper [where depth' = depth'])

text \<open>C5: compiling always ends, however the files include one another. When the file server
  offers finitely many files, one recursion level more than there are files is enough, every larger
  bound gives the same result, and every later stage returns too.\<close>

theorem CompileSLS_terminates:
  assumes "finite (loadable c)"
  shows "\<exists>out. \<forall>depth > card (loadable c). CompileSLS c depth names = Some out"
proof -
  from compileNames_enough [OF assms lessI, where out = new_Compiled and env = "Compiler_env c" and names = names]
  obtain out0 where out0: "compileNames c (Suc (card (loadable c))) new_Compiled (Compiler_env c) names = Some out0" by blast
  obtain out where out: "finish c out0 = Some out" using finish_spec by blast
  have "CompileSLS c depth names = Some out" if "card (loadable c) < depth" for depth
    using compileNames_deeper [OF out0, of depth] that out by (simp add: CompileSLS_def)
  then show ?thesis by blast
qed

text \<open>A file server with two files that include each other: \<open>web\<close> declares a package, \<open>site\<close> a file
  that requires it.\<close>

definition doc_map :: "(string \<times> val) list \<Rightarrow> val" where
  "doc_map kvs = VMap (MapOf (map (\<lambda>(k, v). (KStr k, v)) kvs))"

definition site_compiler :: Compiler where
  "site_compiler = \<lparr>co_rt = no_runtime,
     co_Source = (\<lambda>env name. if env = ''base'' \<and> name = ''web'' then SrcOK ''w'' ''web.sls''
                             else if env = ''base'' \<and> name = ''site'' then SrcOK ''s'' ''site.sls'' else SrcNotFound),
     co_Envs = [''base''],
     co_Render = (\<lambda>src env name path. ([],
        Inr (if src = ''w''
             then doc_map [(''include'', VSeq [VStr ''site'']),
                           (''nginx'', doc_map [(''pkg.installed'', VSeq [])])]
             else doc_map [(''include'', VSeq [VStr ''web'']),
                           (''conf'', doc_map [(''file.managed'', VSeq [doc_map [(''require'',
                                          VSeq [doc_map [(''pkg'', VStr ''nginx'')]])]])])]))),
     co_Registry = None, co_Env = [], co_StateAllowlist = [], co_StateDenylist = [], co_TopMergeStrategy = []\<rparr>"

lemma site_source: "co_Source site_compiler env name = SrcOK src path \<Longrightarrow> env = ''base'' \<and> name \<in> {''web'', ''site''}"
  by (simp add: site_compiler_def split: if_splits)

lemma site_loadable: "finite (loadable site_compiler)" "card (loadable site_compiler) < 3"
proof -
  have sub: "loadable site_compiler \<subseteq> sls_key ''base'' ` {''web'', ''site''}"
    unfolding loadable_def by (blast dest: site_source)
  then show "finite (loadable site_compiler)" by (rule finite_subset) simp
  have "card (loadable site_compiler) \<le> card (sls_key ''base'' ` {''web'', ''site''})" by (rule card_mono [OF _ sub]) simp
  also have "\<dots> \<le> 2" by (rule order_trans [OF card_image_le]) simp_all
  finally show "card (loadable site_compiler) < 3" by simp
qed

theorem CompileSLS_terminates_witness: "\<exists>out. CompileSLS site_compiler 3 [''web''] = Some out"
  using CompileSLS_terminates [OF site_loadable(1), of "[''web'']"] site_loadable(2) by blast

text \<open>Compiled, the package comes before the file although \<open>site\<close> is loaded first, and there is no error.\<close>

lemma site_compiled:
  "map_option (\<lambda>out. (map ch_ID (out_Low out), HasErrors (out_Diags out))) (CompileSLS site_compiler 3 [''web'']) =
     Some ([''nginx'', ''conf''], False)"
  by code_simp

lemma site_out:
  obtains out where "CompileSLS site_compiler 3 [''web''] = Some out"
    and "map ch_ID (out_Low out) = [''nginx'', ''conf'']" and "\<not> HasErrors (out_Diags out)"
  using site_compiled by (cases "CompileSLS site_compiler 3 [''web'']") auto

lemma finish_permitted:
  assumes o: "out_inv c {} out0" "finish_ok out0 out"
  shows "list_all (\<lambda>n. CanonicalSLS n = Inr n \<and> allowedSLS c n) (out_SLS out) \<and>
     list_all (\<lambda>ch. ch_SLS ch \<in> set (out_SLS out) \<and> HighState_Lookup (out_High out) (ch_ID ch) \<noteq> None) (out_Low out)"
proof -
  have ok: "hs_ok (out_High out)" using o hs_ok_same_tags by (auto simp: out_inv_def finish_ok_def)
  have "d_SLS ` set (hs_decls (out_High out)) = d_SLS ` set (hs_decls (out_High out0))"
    using o(2) by (intro SLS_same_tags) (simp add: finish_ok_def)
  then have sls: "d_SLS d \<in> set (out_SLS out)" if "d \<in> set (hs_decls (out_High out))" for d
    using that o imageI [OF that, of d_SLS] by (auto simp: out_inv_def finish_ok_def)
  have "HighState_Lookup (out_High out) (d_ID d) \<noteq> None" if "d \<in> set (hs_decls (out_High out))" for d
    using that by (auto simp: Lookup_find [OF ok] find_None_iff)
  with sls have "ch_SLS ch \<in> set (out_SLS out) \<and> HighState_Lookup (out_High out) (ch_ID ch) \<noteq> None"
    if "ch \<in> set (out_Low out)" for ch
    using o(2) that unfolding finish_ok_def by metis
  with o show ?thesis by (simp add: list_all_iff out_inv_def finish_ok_def)
qed

text \<open>C4: only permitted files take part. Every SLS file that a compilation read has its one
  accepted name and passes the allow and deny lists, and every step of the low state belongs to a
  state declared in one of them, whatever includes, extends and excludes did on the way.\<close>

theorem CompileSLS_only_permitted:
  assumes "CompileSLS c depth names = Some out"
  shows "list_all (\<lambda>n. CanonicalSLS n = Inr n \<and> allowedSLS c n) (out_SLS out) \<and>
     list_all (\<lambda>ch. ch_SLS ch \<in> set (out_SLS out) \<and> HighState_Lookup (out_High out) (ch_ID ch) \<noteq> None) (out_Low out)"
  by (rule CompileSLS_finish [OF assms]) (rule finish_permitted)

theorem CompileSLS_only_permitted_witness:
  "\<exists>out. CompileSLS site_compiler 3 [''web''] = Some out \<and> list_all (\<lambda>ch. ch_SLS ch \<in> set (out_SLS out)) (out_Low out)"
proof -
  from site_out obtain out where "CompileSLS site_compiler 3 [''web''] = Some out" .
  with CompileSLS_only_permitted [OF this] show ?thesis by (auto simp: list_all_iff)
qed

text \<open>C3: the compiler from end to end. When a compilation reports no error, every requisite that
  names something has a target in the low state, every target of an ordinary requisite runs earlier
  than the step that names it, and every target of a \<open>prereq\<close> runs later. Unresolved and misordered
  requisites never reach the runner without an error.\<close>

theorem CompileSLS_run_order:
  assumes "CompileSLS c depth names = Some out" and "\<not> HasErrors (out_Diags out)"
  shows "all_targets_found (out_Low out) \<and> in_run_order (out_Low out)"
proof -
  from CompileSLS_finish [OF assms(1)] obtain out0 where "finish_ok out0 out" .
  with assms(2) show ?thesis by (simp add: finish_ok_def)
qed

theorem CompileSLS_run_order_witness:
  "\<exists>out. CompileSLS site_compiler 3 [''web''] = Some out \<and> map ch_ID (out_Low out) = [''nginx'', ''conf''] \<and>
     in_run_order (out_Low out)"
proof -
  from site_out obtain out where out: "CompileSLS site_compiler 3 [''web''] = Some out"
    "map ch_ID (out_Low out) = [''nginx'', ''conf'']" "\<not> HasErrors (out_Diags out)" .
  show ?thesis
    by (intro exI [of _ out] conjI out(1,2)) (rule CompileSLS_run_order [OF out(1,3), THEN conjunct2])
qed

end
