(* ===== verification/States.thy ===== *)
theory States
  imports Signature Requisite
begin

text \<open>
  The state module surface (\<open>internal/states\<close>): what a state function returns, the registry of state
  modules, and calling one of them. The functions themselves act on the machine; they are parameters,
  as functions of the context of the call, the bound arguments and the machine's state \<open>'w\<close>.
\<close>

subsection \<open>Results\<close>

record Result =
  res_Name :: string
  res_Result :: "bool option"       \<comment> \<open>\<open>None\<close> is test mode's "would change"\<close>
  res_Changes :: "vmap option"
  res_Comment :: string
  res_Warnings :: "string list"

definition mk_result :: "bool option \<Rightarrow> string \<Rightarrow> vmap option \<Rightarrow> Result" where
  "mk_result r comment changes =
     \<lparr>res_Name = [], res_Result = r, res_Changes = changes, res_Comment = comment, res_Warnings = []\<rparr>"

definition Result_True :: "string \<Rightarrow> Result" where
  "Result_True comment = mk_result (Some True) comment (Some NewMap)"

definition Result_False :: "string \<Rightarrow> Result" where
  "Result_False comment = mk_result (Some False) comment (Some NewMap)"

definition or_empty :: "vmap option \<Rightarrow> vmap" where
  "or_empty changes = (case changes of None \<Rightarrow> NewMap | Some m \<Rightarrow> m)"

definition Result_Changed :: "string \<Rightarrow> vmap option \<Rightarrow> Result" where
  "Result_Changed comment changes = mk_result (Some True) comment (Some (or_empty changes))"

definition Result_WouldChange :: "string \<Rightarrow> vmap option \<Rightarrow> Result" where
  "Result_WouldChange comment changes = mk_result None comment (Some (or_empty changes))"

definition Change :: "val \<Rightarrow> val \<Rightarrow> vmap" where
  "Change old new = MapOf [(KStr ''old'', old), (KStr ''new'', new)]"

definition HasChanges :: "Result \<Rightarrow> bool" where
  "HasChanges r = (case res_Changes r of None \<Rightarrow> False | Some m \<Rightarrow> Map_Len m > 0)"

definition Succeeded :: "Result \<Rightarrow> bool" where
  "Succeeded r = (case res_Result r of None \<Rightarrow> True | Some b \<Rightarrow> b)"

definition Failed :: "Result \<Rightarrow> bool" where
  "Failed r = (case res_Result r of None \<Rightarrow> False | Some b \<Rightarrow> \<not> b)"

definition ResultString :: "Result \<Rightarrow> string" where
  "ResultString r =
     (case res_Result r of
        None \<Rightarrow> ''would change'' | Some True \<Rightarrow> ''succeeded'' | Some False \<Rightarrow> ''failed'')"

lemma Failed_iff: "Failed r \<longleftrightarrow> \<not> Succeeded r"
  by (simp add: Failed_def Succeeded_def split: option.split)

lemma Result_simps [simp]:
  "Failed (Result_False c)" "\<not> Failed (Result_True c)" "\<not> HasChanges (Result_False c)" "\<not> HasChanges (Result_True c)"
  by (simp_all add: Failed_def HasChanges_def Result_False_def Result_True_def mk_result_def Map_Len_def NewMap_def)

subsection \<open>The registry\<close>

text \<open>The parts of the module context a state run sets for one call.\<close>

record call_ctx =
  cc_StateID :: string
  cc_RunAs :: string
  cc_Umask :: string
  cc_CheckCmd :: "string list"
  cc_Reaction :: string
  cc_WatchChanged :: "string list"
  cc_Test :: bool
  cc_Timeout :: "int option"        \<comment> \<open>the deadline set on the call's context\<close>

type_synonym 'w Func = "call_ctx \<Rightarrow> vmap \<Rightarrow> 'w \<Rightarrow> (fmt_arg + Result) \<times> 'w"

record 'w Module =
  md_Sig :: Signature
  md_Fn :: "'w Func"
  md_ModWatch :: "'w Func option"

record 'w StateRegistry =
  sr_fns :: "(string, 'w Module) gomap"
  sr_sigs :: Registry

definition NewStateRegistry :: "'w StateRegistry" where
  "NewStateRegistry = \<lparr>sr_fns = [], sr_sigs = NewRegistry\<rparr>"

text \<open>\<open>None\<close> is the panic on a name registered twice.\<close>

fun StateRegistry_Add :: "'w StateRegistry \<Rightarrow> 'w Module list \<Rightarrow> 'w StateRegistry option" where
  "StateRegistry_Add r [] = Some r"
| "StateRegistry_Add r (m # ms) =
     (let name = Signature_Name (md_Sig m) in
      if gomap_get (sr_fns r) name \<noteq> None then None
      else StateRegistry_Add (r\<lparr>sr_fns := gomap_put name m (sr_fns r),
                                 sr_sigs := Registry_Add (sr_sigs r) [md_Sig m]\<rparr>) ms)"

definition StateRegistry_Lookup :: "'w StateRegistry \<Rightarrow> string \<Rightarrow> 'w Module option" where
  "StateRegistry_Lookup r name = gomap_get (sr_fns r) name"

definition StateRegistry_Has :: "'w StateRegistry \<Rightarrow> string \<Rightarrow> bool" where
  "StateRegistry_Has r name = (gomap_get (sr_fns r) name \<noteq> None)"

definition bind_failure :: "sprintf \<Rightarrow> string \<Rightarrow> arg_error list \<Rightarrow> fmt_arg" where
  "bind_failure sprintf name errs =
     FErr ''%s: %s'' [FStr name, FStr (str_join ''; '' (map (\<lambda>e. sprintf ''%v'' [ArgError_Error e]) errs))]"

text \<open>\<open>Call\<close> and \<open>CallWatch\<close> differ in the function they pick.\<close>

definition call_with ::
  "go_runtime \<Rightarrow> sprintf \<Rightarrow> string \<Rightarrow> ('w Module \<Rightarrow> 'w Func) \<Rightarrow> 'w StateRegistry \<Rightarrow> call_ctx \<Rightarrow> string \<Rightarrow> vmap
     \<Rightarrow> 'w \<Rightarrow> (fmt_arg + Result) \<times> 'w" where
  "call_with rt sprintf GOOS pick r c name args w =
     (case gomap_get (sr_fns r) name of
        None \<Rightarrow> (Inl (FErr ''%q is not a state function this build ships'' [FStr name]), w)
      | Some m \<Rightarrow>
          (case CheckPlatform GOOS (md_Sig m) of
             Some err \<Rightarrow> (Inl err, w)
           | None \<Rightarrow>
               let (bound, errs) = Bind rt (md_Sig m) [] (Some args) in
               if length errs > 0 then (Inl (bind_failure sprintf name errs), w)
               else pick m c bound w))"

definition Call ::
  "go_runtime \<Rightarrow> sprintf \<Rightarrow> string \<Rightarrow> 'w StateRegistry \<Rightarrow> call_ctx \<Rightarrow> string \<Rightarrow> vmap \<Rightarrow> 'w \<Rightarrow> (fmt_arg + Result) \<times> 'w" where
  "Call rt sprintf GOOS = call_with rt sprintf GOOS md_Fn"

definition watch_fn :: "'w Module \<Rightarrow> 'w Func" where
  "watch_fn m = (case md_ModWatch m of Some f \<Rightarrow> f | None \<Rightarrow> md_Fn m)"

definition CallWatch ::
  "go_runtime \<Rightarrow> sprintf \<Rightarrow> string \<Rightarrow> 'w StateRegistry \<Rightarrow> call_ctx \<Rightarrow> string \<Rightarrow> vmap \<Rightarrow> 'w \<Rightarrow> (fmt_arg + Result) \<times> 'w" where
  "CallWatch rt sprintf GOOS = call_with rt sprintf GOOS watch_fn"

definition OwnsCheckCmd :: "'w StateRegistry \<Rightarrow> string \<Rightarrow> bool" where
  "OwnsCheckCmd r name =
     (case StateRegistry_Lookup r name of
        None \<Rightarrow> False
      | Some m \<Rightarrow> list_ex (\<lambda>p. p_Name p = ''check_cmd'') (sig_Params (md_Sig m)))"

definition SupportsWatch :: "'w StateRegistry \<Rightarrow> string \<Rightarrow> bool" where
  "SupportsWatch r name =
     (case gomap_get (sr_fns r) name of None \<Rightarrow> False | Some m \<Rightarrow> md_ModWatch m \<noteq> None)"

subsection \<open>Reading arguments\<close>

definition Str :: "go_runtime \<Rightarrow> vmap \<Rightarrow> string \<Rightarrow> string \<Rightarrow> string" where
  "Str rt args name def =
     (case Map_Get args (KStr name) of
        None \<Rightarrow> def | Some VNull \<Rightarrow> def | Some (VStr s) \<Rightarrow> s | Some v \<Rightarrow> KeyString_any (rt_sprint rt) v)"

definition Bool :: "vmap \<Rightarrow> string \<Rightarrow> bool \<Rightarrow> bool" where
  "Bool args name def =
     (case Map_Get args (KStr name) of None \<Rightarrow> def | Some VNull \<Rightarrow> def | Some v \<Rightarrow> Truthy v)"

definition Strings :: "go_runtime \<Rightarrow> vmap \<Rightarrow> string \<Rightarrow> string list" where
  "Strings rt args name =
     (case Map_Get args (KStr name) of
        Some (VStr t) \<Rightarrow> [t]
      | Some (VSeq t) \<Rightarrow> map (KeyString_any (rt_sprint rt)) t
      | _ \<Rightarrow> [])"

definition Mapping :: "vmap \<Rightarrow> string \<Rightarrow> vmap option" where
  "Mapping args name = (case Map_Get args (KStr name) of Some (VMap m) \<Rightarrow> Some m | _ \<Rightarrow> None)"

definition SortedNames :: "string list \<Rightarrow> string" where
  "SortedNames xs = str_join '', '' (sort xs)"

end
