(* ===== verification/Runner.thy ===== *)
theory Runner
  imports States
begin

text \<open>
  The state runner (\<open>internal/runner/runner.go\<close>, \<open>util.go\<close>): running a compiled low state. Requisites
  and gates decide whether a chunk runs, a chunk that runs is retried and checked, failhard aborts the
  run, and the listen reactions come last. The machine is a value of type \<open>'w\<close> passed through every
  call; the commands, module functions and random bytes a run uses are parameters. The clock, the
  progress callback and the trace spans are left out: no decision depends on them.
\<close>

subsection \<open>The runner and its result\<close>

record command =
  cmd_Line :: string
  cmd_RunAs :: string
  cmd_Umask :: string

record 'w Runner =
  rn_rt :: go_runtime
  rn_sprintf :: sprintf
  rn_GOOS :: string
  rn_Euid :: int
  rn_Run :: "command \<Rightarrow> 'w \<Rightarrow> (fmt_arg + int) \<times> 'w"
    \<comment> \<open>a shell command run to its exit code\<close>
  rn_CallPositional :: "string \<Rightarrow> val list \<Rightarrow> vmap \<Rightarrow> 'w \<Rightarrow> (fmt_arg + val) \<times> 'w"
    \<comment> \<open>an execution module function\<close>
  rn_Exists :: "string \<Rightarrow> 'w \<Rightarrow> bool"
  rn_Sleep :: "int \<Rightarrow> 'w \<Rightarrow> 'w"
  rn_Rand :: "'w \<Rightarrow> nat option \<times> 'w"
    \<comment> \<open>eight random bytes, as a number below \<open>2 ^ 64\<close>\<close>
  rn_States :: "'w StateRegistry"
  rn_Ctx :: call_ctx
  rn_FailHard :: bool
  rn_Seed :: "(string, Result) gomap"

record StateResult =
  sr_Chunk :: Chunk
  sr_Result :: Result
  sr_RunNum :: nat
  sr_Skipped :: bool

record RunResult =
  rr_Results :: "StateResult list"
  rr_Aborted :: bool
  rr_AbortedBy :: string

definition RunResult_Failed :: "RunResult \<Rightarrow> bool" where
  "RunResult_Failed r = list_ex (\<lambda>res. Failed (sr_Result res)) (rr_Results r)"

definition RunResult_Changed :: "RunResult \<Rightarrow> bool" where
  "RunResult_Changed r = list_ex (\<lambda>res. HasChanges (sr_Result res)) (rr_Results r)"

definition RetCode :: "RunResult \<Rightarrow> int" where
  "RetCode r = (if RunResult_Failed r then 1 else if \<not> RunResult_Changed r then 2 else 0)"

subsection \<open>Requisite predicates\<close>

type_synonym results = "StateResult option list"

text \<open>The result at an index, \<open>None\<close> where the code finds nil or where the index is out of range. The
  \<open>require\<close> rule indexes without a bound check; the compiler's low states have every index in range.\<close>

definition result_at :: "results \<Rightarrow> nat \<Rightarrow> StateResult option" where
  "result_at results idx = (if idx < length results then results ! idx else None)"

definition holds_at :: "(StateResult \<Rightarrow> bool) \<Rightarrow> results \<Rightarrow> nat \<Rightarrow> bool" where
  "holds_at P results idx = (case result_at results idx of None \<Rightarrow> False | Some r \<Rightarrow> P r)"

definition changed :: "nat \<Rightarrow> results \<Rightarrow> bool" where
  "changed idx results = holds_at (\<lambda>r. HasChanges (sr_Result r)) results idx"

definition anyChanged :: "nat list \<Rightarrow> results \<Rightarrow> bool" where
  "anyChanged targets results = list_ex (\<lambda>idx. changed idx results) targets"

definition allChanged :: "nat list \<Rightarrow> results \<Rightarrow> bool" where
  "allChanged targets results =
     (if length targets = 0 then False else list_all (\<lambda>idx. changed idx results) targets)"

definition anySucceeded :: "nat list \<Rightarrow> results \<Rightarrow> bool" where
  "anySucceeded targets results =
     list_ex (holds_at (\<lambda>r. Succeeded (sr_Result r) \<and> \<not> sr_Skipped r) results) targets"

definition anyFailed :: "nat list \<Rightarrow> results \<Rightarrow> bool" where
  "anyFailed targets results = list_ex (holds_at (\<lambda>r. Failed (sr_Result r)) results) targets"

definition allFailed :: "nat list \<Rightarrow> results \<Rightarrow> bool" where
  "allFailed targets results =
     (if length targets = 0 then False
      else list_all (holds_at (\<lambda>r. Failed (sr_Result r)) results) targets)"

definition describe :: "Chunk \<Rightarrow> string" where
  "describe ch = ch_ID ch @ '' ('' @ Chunk_Func ch @ '')''"

definition describeAll :: "Chunk list \<Rightarrow> nat list \<Rightarrow> string" where
  "describeAll chunks targets =
     str_join '', '' (map (\<lambda>idx. describe (chunks ! idx)) (filter (\<lambda>idx. idx < length chunks) targets))"

subsection \<open>Requisite evaluation\<close>

record reaction =
  rx_kind :: string
  rx_watchChanged :: "string list"

definition no_reaction :: reaction where
  "no_reaction = \<lparr>rx_kind = [], rx_watchChanged = []\<rparr>"

datatype decision = Skip Result | Go reaction

record req_flags =
  f_sawOnChanges :: bool
  f_onChangesSatisfied :: bool
  f_sawOnFail :: bool
  f_onFailSatisfied :: bool
  f_watchFired :: bool
  f_watchChanged :: "string list"

definition no_flags :: req_flags where
  "no_flags = \<lparr>f_sawOnChanges = False, f_onChangesSatisfied = False, f_sawOnFail = False,
               f_onFailSatisfied = False, f_watchFired = False, f_watchChanged = []\<rparr>"

definition State_Call :: "'w Runner \<Rightarrow> call_ctx \<Rightarrow> string \<Rightarrow> vmap \<Rightarrow> 'w \<Rightarrow> (fmt_arg + Result) \<times> 'w" where
  "State_Call r = Call (rn_rt r) (rn_sprintf r) (rn_GOOS r) (rn_States r)"

definition State_CallWatch :: "'w Runner \<Rightarrow> call_ctx \<Rightarrow> string \<Rightarrow> vmap \<Rightarrow> 'w \<Rightarrow> (fmt_arg + Result) \<times> 'w" where
  "State_CallWatch r = CallWatch (rn_rt r) (rn_sprintf r) (rn_GOOS r) (rn_States r)"

fun prereqWouldChange :: "'w Runner \<Rightarrow> Chunk list \<Rightarrow> nat list \<Rightarrow> 'w \<Rightarrow> bool \<times> 'w" where
  "prereqWouldChange r chunks [] w = (False, w)"
| "prereqWouldChange r chunks (idx # targets) w =
     (let target = chunks ! idx in
      case State_Call r ((rn_Ctx r)\<lparr>cc_Test := True\<rparr>) (Chunk_Func target) (ch_Args target) w of
        (Inl err, w1) \<Rightarrow> (True, w1)
      | (Inr res, w1) \<Rightarrow>
          if res_Result res = None \<or> HasChanges res then (True, w1)
          else prereqWouldChange r chunks targets w1)"

text \<open>One requisite: either the chunk is skipped at once, or the flags move on.\<close>

definition eval_req ::
  "'w Runner \<Rightarrow> Chunk list \<Rightarrow> results \<Rightarrow> Req \<Rightarrow> req_flags \<Rightarrow> 'w \<Rightarrow> (Result + req_flags) \<times> 'w" where
  "eval_req r chunks results req fl w =
     (let targets = req_Resolved req in
      if length targets = 0 then (Inr fl, w)
      else case req_Kind req of
        Require \<Rightarrow>
          (case find (holds_at (\<lambda>x. Failed (sr_Result x)) results) targets of
             Some idx \<Rightarrow> (Inl (Result_False (rn_sprintf r ''This state was skipped because %s failed.''
                             [FStr (describe (chunks ! idx))])), w)
           | None \<Rightarrow> (Inr fl, w))
      | Watch \<Rightarrow>
          (case find (holds_at (\<lambda>x. Failed (sr_Result x)) results) targets of
             Some idx \<Rightarrow> (Inl (Result_False (rn_sprintf r ''This state was skipped because %s failed.''
                             [FStr (describe (chunks ! idx))])), w)
           | None \<Rightarrow>
               let hit = filter (\<lambda>idx. changed idx results) targets in
               (Inr (fl\<lparr>f_watchFired := f_watchFired fl \<or> hit \<noteq> [],
                        f_watchChanged := f_watchChanged fl @
                          map (\<lambda>idx. ch_State (chunks ! idx) @ '': '' @ ch_ID (chunks ! idx)) hit\<rparr>), w))
      | RequireAny \<Rightarrow>
          if \<not> anySucceeded targets results then
            (Inl (Result_False (rn_sprintf r ''This state was skipped because none of %s succeeded.''
               [FStr (describeAll chunks targets)])), w)
          else (Inr fl, w)
      | WatchAny \<Rightarrow>
          if \<not> anySucceeded targets results then
            (Inl (Result_False (rn_sprintf r ''This state was skipped because none of %s succeeded.''
               [FStr (describeAll chunks targets)])), w)
          else (Inr (fl\<lparr>f_watchFired := f_watchFired fl \<or> anyChanged targets results\<rparr>), w)
      | OnChanges \<Rightarrow>
          (Inr (fl\<lparr>f_sawOnChanges := True,
                   f_onChangesSatisfied := f_onChangesSatisfied fl \<or> allChanged targets results\<rparr>), w)
      | OnChangesAny \<Rightarrow>
          (Inr (fl\<lparr>f_sawOnChanges := True,
                   f_onChangesSatisfied := f_onChangesSatisfied fl \<or> anyChanged targets results\<rparr>), w)
      | OnFail \<Rightarrow>
          (Inr (fl\<lparr>f_sawOnFail := True,
                   f_onFailSatisfied := f_onFailSatisfied fl \<or> anyFailed targets results\<rparr>), w)
      | OnFailAny \<Rightarrow>
          (Inr (fl\<lparr>f_sawOnFail := True,
                   f_onFailSatisfied := f_onFailSatisfied fl \<or> anyFailed targets results\<rparr>), w)
      | OnFailAll \<Rightarrow>
          (Inr (fl\<lparr>f_sawOnFail := True,
                   f_onFailSatisfied := f_onFailSatisfied fl \<or> allFailed targets results\<rparr>), w)
      | Prereq \<Rightarrow>
          (case prereqWouldChange r chunks targets w of
             (True, w1) \<Rightarrow> (Inr fl, w1)
           | (False, w1) \<Rightarrow>
               (Inl (Result_True (rn_sprintf r ''This state was skipped because %s would make no changes.''
                  [FStr (describeAll chunks targets)])), w1))
      | Listen \<Rightarrow> (Inr fl, w)
      | Use \<Rightarrow> (Inr fl, w))"

fun eval_reqs ::
  "'w Runner \<Rightarrow> Chunk list \<Rightarrow> results \<Rightarrow> Req list \<Rightarrow> req_flags \<Rightarrow> 'w \<Rightarrow> (Result + req_flags) \<times> 'w" where
  "eval_reqs r chunks results [] fl w = (Inr fl, w)"
| "eval_reqs r chunks results (req # reqs) fl w =
     (case eval_req r chunks results req fl w of
        (Inl res, w1) \<Rightarrow> (Inl res, w1)
      | (Inr fl1, w1) \<Rightarrow> eval_reqs r chunks results reqs fl1 w1)"

definition conclude :: "req_flags \<Rightarrow> decision" where
  "conclude fl =
     (if f_sawOnChanges fl \<and> \<not> f_onChangesSatisfied fl then
        Skip (Result_True ''This state was skipped because none of its onchanges requisites reported changes.'')
      else if f_sawOnFail fl \<and> \<not> f_onFailSatisfied fl then
        Skip (Result_True ''This state was skipped because none of its onfail requisites failed.'')
      else if \<not> f_watchFired fl then Go no_reaction
      else Go \<lparr>rx_kind = ''watch'', rx_watchChanged = f_watchChanged fl\<rparr>)"

definition evaluateRequisites ::
  "'w Runner \<Rightarrow> Chunk \<Rightarrow> Chunk list \<Rightarrow> results \<Rightarrow> 'w \<Rightarrow> decision \<times> 'w" where
  "evaluateRequisites r ch chunks results w =
     (case eval_reqs r chunks results (ch_Reqs ch) no_flags w of
        (Inl res, w1) \<Rightarrow> (Skip res, w1)
      | (Inr fl, w1) \<Rightarrow> (conclude fl, w1))"

subsection \<open>Gates\<close>

definition Context_Run :: "'w Runner \<Rightarrow> command \<Rightarrow> 'w \<Rightarrow> (fmt_arg + int) \<times> 'w" where
  "Context_Run r cmd =
     rn_Run r (cmd\<lparr>cmd_RunAs := (if cmd_RunAs cmd = [] then cc_RunAs (rn_Ctx r) else cmd_RunAs cmd),
                   cmd_Umask := (if cmd_Umask cmd = [] then cc_Umask (rn_Ctx r) else cmd_Umask cmd)\<rparr>)"

definition chunk_command :: "Chunk \<Rightarrow> string \<Rightarrow> command" where
  "chunk_command ch line =
     \<lparr>cmd_Line = line, cmd_RunAs = o_RunAs (ch_Opts ch), cmd_Umask = o_Umask (ch_Opts ch)\<rparr>"

definition mustGet :: "vmap \<Rightarrow> string \<Rightarrow> val" where
  "mustGet m k = (case Map_Get m (KStr k) of Some v \<Rightarrow> v | None \<Rightarrow> VNull)"

definition evalCondition :: "'w Runner \<Rightarrow> Chunk \<Rightarrow> val \<Rightarrow> 'w \<Rightarrow> (fmt_arg + bool) \<times> 'w" where
  "evalCondition r ch cond w =
     (case cond of
        VStr t \<Rightarrow>
          (case Context_Run r (chunk_command ch t) w of
             (Inl err, w1) \<Rightarrow> (Inl err, w1)
           | (Inr code, w1) \<Rightarrow> (Inr (code = 0), w1))
      | VMap t \<Rightarrow>
          (let fnName = KeyString_any (rt_sprint (rn_rt r)) (mustGet t ''fun'') in
           if fnName = [] then
             (Inl (FErr ''a structured condition needs a `fun` naming a module function'' []), w)
           else
             let callArgs = (case Map_Get t (KStr ''kwargs'') of
                               Some (VMap m) \<Rightarrow> foldl set_entry NewMap (entries m)
                             | _ \<Rightarrow> NewMap);
                 positional = (case Map_Get t (KStr ''args'') of Some (VSeq l) \<Rightarrow> l | _ \<Rightarrow> [])
             in (case rn_CallPositional r fnName positional callArgs w of
                   (Inl err, w1) \<Rightarrow> (Inl err, w1)
                 | (Inr out, w1) \<Rightarrow> (Inr (Truthy out), w1)))
      | VBool t \<Rightarrow> (Inr t, w)
      | _ \<Rightarrow> (Inl (FErr ''a condition must be a command string, a list, or a `{fun: ...}` mapping, found %s''
                   [FStr (TypeName cond)]), w))"

fun unless_gate :: "'w Runner \<Rightarrow> Chunk \<Rightarrow> val list \<Rightarrow> 'w \<Rightarrow> Result option \<times> 'w" where
  "unless_gate r ch [] w = (None, w)"
| "unless_gate r ch (cond # conds) w =
     (case evalCondition r ch cond w of
        (Inl err, w1) \<Rightarrow>
          (Some (Result_False (rn_sprintf r ''The unless condition could not be evaluated: %v'' [err])), w1)
      | (Inr True, w1) \<Rightarrow> (Some (Result_True ''This state was skipped because its unless condition was met.''), w1)
      | (Inr False, w1) \<Rightarrow> unless_gate r ch conds w1)"

fun onlyif_gate :: "'w Runner \<Rightarrow> Chunk \<Rightarrow> val list \<Rightarrow> 'w \<Rightarrow> Result option \<times> 'w" where
  "onlyif_gate r ch [] w = (None, w)"
| "onlyif_gate r ch (cond # conds) w =
     (case evalCondition r ch cond w of
        (Inl err, w1) \<Rightarrow>
          (Some (Result_False (rn_sprintf r ''The onlyif condition could not be evaluated: %v'' [err])), w1)
      | (Inr False, w1) \<Rightarrow> (Some (Result_True ''This state was skipped because its onlyif condition was not met.''), w1)
      | (Inr True, w1) \<Rightarrow> onlyif_gate r ch conds w1)"

definition evaluateGates :: "'w Runner \<Rightarrow> Chunk \<Rightarrow> 'w \<Rightarrow> Result option \<times> 'w" where
  "evaluateGates r ch w =
     (case find (\<lambda>path. rn_Exists r path w) (o_Creates (ch_Opts ch)) of
        Some path \<Rightarrow>
          (Some (Result_True (rn_sprintf r ''This state was skipped because %s already exists.'' [FStr path])), w)
      | None \<Rightarrow>
          (case unless_gate r ch (o_Unless (ch_Opts ch)) w of
             (Some res, w1) \<Rightarrow> (Some res, w1)
           | (None, w1) \<Rightarrow> onlyif_gate r ch (o_OnlyIf (ch_Opts ch)) w1))"

subsection \<open>Executing a chunk\<close>

definition chunkContext :: "'w Runner \<Rightarrow> Chunk \<Rightarrow> call_ctx" where
  "chunkContext r ch =
     (rn_Ctx r)\<lparr>cc_StateID := ch_ID ch, cc_RunAs := o_RunAs (ch_Opts ch), cc_Umask := o_Umask (ch_Opts ch),
                cc_CheckCmd := o_CheckCmd (ch_Opts ch)\<rparr>"

definition attempt :: "'w Runner \<Rightarrow> Chunk \<Rightarrow> reaction \<Rightarrow> 'w \<Rightarrow> Result \<times> 'w" where
  "attempt r ch react w =
     (let base = (chunkContext r ch)\<lparr>cc_Reaction := rx_kind react, cc_WatchChanged := rx_watchChanged react\<rparr>;
          ctx = (if o_Timeout (ch_Opts ch) > 0 then base\<lparr>cc_Timeout := Some (o_Timeout (ch_Opts ch))\<rparr> else base);
          (res, w1) = (if rx_kind react \<noteq> [] then State_CallWatch r ctx (Chunk_Func ch) (ch_Args ch) w
                       else State_Call r ctx (Chunk_Func ch) (ch_Args ch) w)
      in (case res of
            Inl err \<Rightarrow> (Result_False (rn_sprintf r ''The state raised an error: %v'' [err]), w1)
          | Inr x \<Rightarrow> (x, w1)))"

definition notePrivilege :: "'w Runner \<Rightarrow> Chunk \<Rightarrow> Result \<Rightarrow> Result" where
  "notePrivilege r ch res =
     (if \<not> Failed res then res
      else case Registry_Lookup (sr_sigs (rn_States r)) (Chunk_Func ch) of
        None \<Rightarrow> res
      | Some s \<Rightarrow>
          let note = PrivilegeNote s (rn_Euid r) in
          if note \<noteq> [] then res\<lparr>res_Comment := res_Comment res @ note\<rparr> else res)"

definition splay :: "'w Runner \<Rightarrow> int \<Rightarrow> 'w \<Rightarrow> int \<times> 'w" where
  "splay r most w =
     (if most \<le> 0 then (0, w)
      else case rn_Rand r w of
             (None, w1) \<Rightarrow> (most div 2, w1)
           | (Some n, w1) \<Rightarrow> (int (n mod nat (most + 1)), w1))"

fun retry_loop :: "'w Runner \<Rightarrow> Chunk \<Rightarrow> reaction \<Rightarrow> Retry \<Rightarrow> nat \<Rightarrow> Result \<Rightarrow> 'w \<Rightarrow> Result \<times> 'w" where
  "retry_loop r ch react rt 0 res w = (res, w)"
| "retry_loop r ch react rt (Suc n) res w =
     (if Succeeded res = retry_Until rt then (res, w)
      else
        let (s, w1) = splay r (retry_Splay rt) w;
            w2 = rn_Sleep r (wrap64 (retry_Interval rt + s)) w1;
            (res', w3) = attempt r ch react w2
        in retry_loop r ch react rt n res' w3)"

fun applyCheckCmd :: "'w Runner \<Rightarrow> Chunk \<Rightarrow> string list \<Rightarrow> Result \<Rightarrow> 'w \<Rightarrow> Result \<times> 'w" where
  "applyCheckCmd r ch [] res w = (res, w)"
| "applyCheckCmd r ch (cmd # cmds) res w =
     (case Context_Run r (chunk_command ch cmd) w of
        (Inl err, w1) \<Rightarrow>
          (Result_False (rn_sprintf r ''The check_cmd %q could not be run: %v'' [FStr cmd, err]), w1)
      | (Inr code, w1) \<Rightarrow>
          if code \<noteq> 0 then
            ((Result_False (rn_sprintf r ''The check_cmd %q failed with exit status %d.'' [FStr cmd, FInt code]))
               \<lparr>res_Changes := res_Changes res\<rparr>, w1)
          else applyCheckCmd r ch cmds res w1)"

definition checkCmdResult :: "'w Runner \<Rightarrow> Chunk \<Rightarrow> Result \<Rightarrow> 'w \<Rightarrow> Result \<times> 'w" where
  "checkCmdResult r ch res w =
     (if cc_Test (rn_Ctx r) then
        (res\<lparr>res_Comment := trim_right (res_Comment res) ('' '' @ [CHR 0x0A]) @ [CHR 0x0A] @
               ''Its check_cmd was not run: this was a test run, and the check validates what '' @
               (if length (o_CheckCmd (ch_Opts ch)) = 1 then ''would have been written.''
                else ''would have been written ('' @ format_int (int (length (o_CheckCmd (ch_Opts ch)))) @ '' commands).'')\<rparr>, w)
      else applyCheckCmd r ch (o_CheckCmd (ch_Opts ch)) res w)"

definition execute :: "'w Runner \<Rightarrow> Chunk \<Rightarrow> reaction \<Rightarrow> 'w \<Rightarrow> Result \<times> 'w" where
  "execute r ch react w =
     (let (res0, w1) = attempt r ch react w;
          res1 = notePrivilege r ch res0;
          (res2, w2) = (case o_Retry (ch_Opts ch) of
                          None \<Rightarrow> (res1, w1)
                        | Some rt \<Rightarrow> retry_loop r ch react rt (nat (retry_Attempts rt - 1)) res1 w1);
          (res3, w3) = (if length (o_CheckCmd (ch_Opts ch)) > 0 \<and> Succeeded res2
                           \<and> \<not> OwnsCheckCmd (rn_States r) (Chunk_Func ch)
                        then checkCmdResult r ch res2 w2 else (res2, w2))
      in (if res_Name res3 = [] then res3\<lparr>res_Name := ch_Name ch\<rparr> else res3, w3))"

definition runChunk :: "'w Runner \<Rightarrow> Chunk \<Rightarrow> reaction \<Rightarrow> 'w \<Rightarrow> Result \<times> bool \<times> 'w" where
  "runChunk r ch react w =
     (case evaluateGates r ch w of
        (Some gate, w1) \<Rightarrow> (gate, True, w1)
      | (None, w1) \<Rightarrow> (case execute r ch react w1 of (res, w2) \<Rightarrow> (res, False, w2)))"

subsection \<open>The run\<close>

definition failHardFor :: "'w Runner \<Rightarrow> Chunk \<Rightarrow> bool" where
  "failHardFor r ch = (case o_FailHard (ch_Opts ch) of Some b \<Rightarrow> b | None \<Rightarrow> rn_FailHard r)"

record 'w run_state =
  ru_results :: results
  ru_out :: RunResult
  ru_world :: 'w

definition zero_Result :: Result where
  "zero_Result = mk_result None [] None"

definition record_result :: "nat \<Rightarrow> StateResult \<Rightarrow> 'w \<Rightarrow> 'w run_state \<Rightarrow> 'w run_state" where
  "record_result i sr w st =
     st\<lparr>ru_results := (ru_results st)[i := Some sr],
        ru_out := (ru_out st)\<lparr>rr_Results := rr_Results (ru_out st) @ [sr]\<rparr>, ru_world := w\<rparr>"

definition run_step :: "'w Runner \<Rightarrow> Chunk list \<Rightarrow> 'w run_state \<Rightarrow> nat \<Rightarrow> 'w run_state" where
  "run_step r chunks st i =
     (let ch = chunks ! i; out = ru_out st; w = ru_world st;
          sr = \<lparr>sr_Chunk = ch, sr_Result = zero_Result, sr_RunNum = length (rr_Results out), sr_Skipped = False\<rparr>;
          skipped = (\<lambda>res. sr\<lparr>sr_Result := res, sr_Skipped := True\<rparr>)
      in
      if rr_Aborted out then
        record_result i (skipped (Result_False (rn_sprintf r
          ''This state was not attempted: the run was aborted by failhard on %s.'' [FStr (rr_AbortedBy out)]))) w st
      else case gomap_get (rn_Seed r) (ch_ID ch) of
        Some seeded \<Rightarrow> record_result i (skipped seeded) w st
      | None \<Rightarrow>
          (case evaluateRequisites r ch chunks ((ru_results st)[i := Some sr]) w of
             (Skip res, w1) \<Rightarrow> record_result i (skipped res) w1 st
           | (Go react, w1) \<Rightarrow>
               (case runChunk r ch react w1 of (res, held, w2) \<Rightarrow>
                  let st1 = record_result i (sr\<lparr>sr_Result := res, sr_Skipped := held\<rparr>) w2 st in
                  if \<not> held \<and> Failed res \<and> failHardFor r ch then
                    st1\<lparr>ru_out := (ru_out st1)\<lparr>rr_Aborted := True, rr_AbortedBy := ch_ID ch\<rparr>\<rparr>
                  else st1)))"

definition run_start :: "Chunk list \<Rightarrow> 'w \<Rightarrow> 'w run_state" where
  "run_start chunks w =
     \<lparr>ru_results = replicate (length chunks) None,
      ru_out = \<lparr>rr_Results = [], rr_Aborted = False, rr_AbortedBy = []\<rparr>, ru_world = w\<rparr>"

definition listen_step :: "'w Runner \<Rightarrow> results \<Rightarrow> RunResult \<times> 'w \<Rightarrow> Chunk \<Rightarrow> RunResult \<times> 'w" where
  "listen_step r results = (\<lambda>(out, w) ch.
     if \<not> list_ex (\<lambda>req. req_Kind req = Listen \<and> anyChanged (req_Resolved req) results) (ch_Reqs ch) then (out, w)
     else
       case runChunk r ch \<lparr>rx_kind = ''listen'', rx_watchChanged = []\<rparr> w of
         (res0, held, w1) \<Rightarrow>
           let res1 = (if res_Name res0 = [] then res0\<lparr>res_Name := ch_Name ch\<rparr> else res0);
               res2 = res1\<lparr>res_Comment := ''Listening reaction, run at the end of the state run. '' @ res_Comment res1\<rparr>;
               sr = \<lparr>sr_Chunk = ch, sr_Result = res2, sr_RunNum = length (rr_Results out), sr_Skipped = held\<rparr>
           in (out\<lparr>rr_Results := rr_Results out @ [sr]\<rparr>, w1))"

definition runListeners :: "'w Runner \<Rightarrow> Chunk list \<Rightarrow> results \<Rightarrow> RunResult \<times> 'w \<Rightarrow> RunResult \<times> 'w" where
  "runListeners r chunks results = (\<lambda>(out, w).
     if rr_Aborted out then (out, w) else foldl (listen_step r results) (out, w) chunks)"

definition main_pass :: "'w Runner \<Rightarrow> Chunk list \<Rightarrow> 'w \<Rightarrow> 'w run_state" where
  "main_pass r chunks w = foldl (run_step r chunks) (run_start chunks w) [0..<length chunks]"

definition Run :: "'w Runner \<Rightarrow> Chunk list \<Rightarrow> 'w \<Rightarrow> RunResult \<times> 'w" where
  "Run r chunks w =
     (let st = main_pass r chunks w
      in runListeners r chunks (ru_results st) (ru_out st, ru_world st))"

end
