(* ===== verification/Running.thy ===== *)
theory Running
  imports Runner Order "HOL-Library.Sublist"
begin

text \<open>
  What a run guarantees: every chunk is reported once and in order, a chunk runs only when its
  requisites are met, failhard stops everything after it, a test run leaves the machine alone, and
  retrying is bounded.
\<close>

subsection \<open>One step\<close>

definition zero_sr :: "Chunk list \<Rightarrow> nat \<Rightarrow> 'w run_state \<Rightarrow> StateResult" where
  "zero_sr chunks i st =
     \<lparr>sr_Chunk = chunks ! i, sr_Result = zero_Result, sr_RunNum = length (rr_Results (ru_out st)), sr_Skipped = False\<rparr>"

text \<open>The chunk got past its requisites and its gates.\<close>

definition allowed :: "'w Runner \<Rightarrow> Chunk list \<Rightarrow> 'w run_state \<Rightarrow> nat \<Rightarrow> bool" where
  "allowed r chunks st i \<longleftrightarrow> \<not> rr_Aborted (ru_out st) \<and> gomap_get (rn_Seed r) (ch_ID (chunks ! i)) = None \<and>
     (\<exists>rx w1. evaluateRequisites r (chunks ! i) chunks ((ru_results st)[i := Some (zero_sr chunks i st)]) (ru_world st)
        = (Go rx, w1))"

definition step_ok :: "'w Runner \<Rightarrow> Chunk list \<Rightarrow> nat \<Rightarrow> 'w run_state \<Rightarrow> StateResult \<Rightarrow> 'w run_state \<Rightarrow> bool" where
  "step_ok r chunks i st sr st' \<longleftrightarrow>
     ru_results st' = (ru_results st)[i := Some sr] \<and>
     rr_Results (ru_out st') = rr_Results (ru_out st) @ [sr] \<and>
     sr_Chunk sr = chunks ! i \<and> sr_RunNum sr = length (rr_Results (ru_out st)) \<and>
     (\<not> sr_Skipped sr \<longrightarrow> allowed r chunks st i) \<and>
     (rr_Aborted (ru_out st) \<longrightarrow> sr_Skipped sr \<and> Failed (sr_Result sr) \<and> ru_world st' = ru_world st) \<and>
     (rr_Aborted (ru_out st') \<longleftrightarrow>
        rr_Aborted (ru_out st) \<or> (\<not> sr_Skipped sr \<and> Failed (sr_Result sr) \<and> failHardFor r (chunks ! i)))"

lemma run_step_ok: "\<exists>sr. step_ok r chunks i st sr (run_step r chunks st i)"
proof (cases "rr_Aborted (ru_out st)")
  case True
  then show ?thesis
    by (intro exI [of _ "(zero_sr chunks i st)\<lparr>sr_Result := Result_False (rn_sprintf r
          ''This state was not attempted: the run was aborted by failhard on %s.''
          [FStr (rr_AbortedBy (ru_out st))]), sr_Skipped := True\<rparr>"])
      (simp add: step_ok_def run_step_def Let_def record_result_def zero_sr_def)
next
  case False
  note go = this
  show ?thesis
  proof (cases "gomap_get (rn_Seed r) (ch_ID (chunks ! i))")
    case (Some seeded)
    with go show ?thesis
      by (intro exI [of _ "(zero_sr chunks i st)\<lparr>sr_Result := seeded, sr_Skipped := True\<rparr>"])
        (simp add: step_ok_def run_step_def Let_def record_result_def zero_sr_def)
  next
    case None
    obtain d w1 where d: "evaluateRequisites r (chunks ! i) chunks ((ru_results st)[i := Some (zero_sr chunks i st)]) (ru_world st) = (d, w1)"
      by (cases "evaluateRequisites r (chunks ! i) chunks ((ru_results st)[i := Some (zero_sr chunks i st)]) (ru_world st)")
    show ?thesis
    proof (cases d)
      case (Skip res)
      with go None d show ?thesis
        by (intro exI [of _ "(zero_sr chunks i st)\<lparr>sr_Result := res, sr_Skipped := True\<rparr>"])
          (simp add: step_ok_def run_step_def Let_def record_result_def zero_sr_def)
    next
      case (Go rx)
      obtain res held w2 where c: "runChunk r (chunks ! i) rx w1 = (res, held, w2)" by (cases "runChunk r (chunks ! i) rx w1")
      from go None d Go c show ?thesis
        by (intro exI [of _ "(zero_sr chunks i st)\<lparr>sr_Result := res, sr_Skipped := held\<rparr>"])
          (auto simp: step_ok_def run_step_def Let_def record_result_def zero_sr_def allowed_def)
    qed
  qed
qed

subsection \<open>The main pass\<close>

definition prefix_state :: "'w Runner \<Rightarrow> Chunk list \<Rightarrow> 'w \<Rightarrow> nat \<Rightarrow> 'w run_state" where
  "prefix_state r chunks w k = foldl (run_step r chunks) (run_start chunks w) [0..<k]"

lemma prefix_state_0: "prefix_state r chunks w 0 = run_start chunks w"
  by (simp add: prefix_state_def)

lemma prefix_state_Suc: "prefix_state r chunks w (Suc k) = run_step r chunks (prefix_state r chunks w k) k"
  by (simp add: prefix_state_def)

lemma main_pass_prefix: "main_pass r chunks w = prefix_state r chunks w (length chunks)"
  by (simp add: main_pass_def prefix_state_def)

definition sr_at :: "'w Runner \<Rightarrow> Chunk list \<Rightarrow> 'w \<Rightarrow> nat \<Rightarrow> StateResult" where
  "sr_at r chunks w k = last (rr_Results (ru_out (prefix_state r chunks w (Suc k))))"

lemma sr_at_step: "step_ok r chunks k (prefix_state r chunks w k) (sr_at r chunks w k) (prefix_state r chunks w (Suc k))"
proof -
  from run_step_ok obtain sr where sr: "step_ok r chunks k (prefix_state r chunks w k) sr (prefix_state r chunks w (Suc k))"
    unfolding prefix_state_Suc by blast
  then have "sr_at r chunks w k = sr" by (simp add: sr_at_def step_ok_def)
  with sr show ?thesis by simp
qed

lemma prefix_results:
  "k \<le> length chunks \<Longrightarrow>
     rr_Results (ru_out (prefix_state r chunks w k)) = map (sr_at r chunks w) [0..<k] \<and>
     ru_results (prefix_state r chunks w k) = map (\<lambda>j. Some (sr_at r chunks w j)) [0..<k] @ replicate (length chunks - k) None"
proof (induction k)
  case 0
  then show ?case by (simp add: prefix_state_0 run_start_def)
next
  case (Suc k)
  have "(map (\<lambda>j. Some (sr_at r chunks w j)) [0..<k] @ replicate (length chunks - k) None)[k := Some (sr_at r chunks w k)] =
      map (\<lambda>j. Some (sr_at r chunks w j)) [0..<Suc k] @ replicate (length chunks - Suc k) None"
    using Suc.prems by (cases "length chunks - k") (simp_all add: list_update_append)
  with Suc sr_at_step [of r chunks k w] show ?case by (simp add: step_ok_def)
qed

lemma sr_at_RunNum: "k < length chunks \<Longrightarrow> sr_RunNum (sr_at r chunks w k) = k \<and> sr_Chunk (sr_at r chunks w k) = chunks ! k"
  using sr_at_step [of r chunks k w] prefix_results [of k chunks r w] by (simp add: step_ok_def)

lemma main_results:
  "rr_Results (ru_out (main_pass r chunks w)) = map (sr_at r chunks w) [0..<length chunks]"
  "ru_results (main_pass r chunks w) = map (\<lambda>j. Some (sr_at r chunks w j)) [0..<length chunks]"
  using prefix_results [of "length chunks" chunks r w] by (simp_all add: main_pass_prefix)

subsection \<open>The listeners\<close>

definition listens :: "Chunk \<Rightarrow> bool" where
  "listens ch = list_ex (\<lambda>req. req_Kind req = Listen) (ch_Reqs ch)"

lemma listen_step_adds:
  "\<exists>xs. rr_Results (fst (listen_step r results (out, w) ch)) = rr_Results out @ xs \<and>
     map sr_Chunk xs = (if xs = [] then [] else [ch]) \<and> (xs \<noteq> [] \<longrightarrow> listens ch) \<and>
     map sr_RunNum xs = [length (rr_Results out)..<length (rr_Results out) + length xs] \<and>
     rr_Aborted (fst (listen_step r results (out, w) ch)) = rr_Aborted out"
proof (cases "list_ex (\<lambda>req. req_Kind req = Listen \<and> anyChanged (req_Resolved req) results) (ch_Reqs ch)")
  case True
  obtain res held w1 where c: "runChunk r ch \<lparr>rx_kind = ''listen'', rx_watchChanged = []\<rparr> w = (res, held, w1)"
    by (cases "runChunk r ch \<lparr>rx_kind = ''listen'', rx_watchChanged = []\<rparr> w")
  from True have "listens ch" by (auto simp: listens_def list_ex_iff)
  with True c show ?thesis by (simp add: listen_step_def Let_def)
next
  case False
  then show ?thesis by (simp add: listen_step_def)
qed

lemma listen_steps_add:
  "\<exists>xs. rr_Results (fst (foldl (listen_step r results) (out, w) chs)) = rr_Results out @ xs \<and>
     subseq (map sr_Chunk xs) chs \<and> list_all listens (map sr_Chunk xs) \<and>
     map sr_RunNum xs = [length (rr_Results out)..<length (rr_Results out) + length xs] \<and>
     rr_Aborted (fst (foldl (listen_step r results) (out, w) chs)) = rr_Aborted out"
proof (induction chs arbitrary: out w)
  case (Cons ch chs)
  obtain out1 w1 where s: "listen_step r results (out, w) ch = (out1, w1)" by (cases "listen_step r results (out, w) ch")
  from listen_step_adds [of r results out w ch] s obtain xs
    where xs: "rr_Results out1 = rr_Results out @ xs" "map sr_Chunk xs = (if xs = [] then [] else [ch])"
      "xs \<noteq> [] \<longrightarrow> listens ch" "map sr_RunNum xs = [length (rr_Results out)..<length (rr_Results out) + length xs]"
      "rr_Aborted out1 = rr_Aborted out" by auto
  from Cons.IH [of out1 w1] obtain ys
    where ys: "rr_Results (fst (foldl (listen_step r results) (out1, w1) chs)) = rr_Results out1 @ ys"
      "subseq (map sr_Chunk ys) chs" "list_all listens (map sr_Chunk ys)"
      "map sr_RunNum ys = [length (rr_Results out1)..<length (rr_Results out1) + length ys]"
      "rr_Aborted (fst (foldl (listen_step r results) (out1, w1) chs)) = rr_Aborted out1" by auto
  have "map sr_RunNum (xs @ ys) = [length (rr_Results out)..<length (rr_Results out) + length (xs @ ys)]"
  proof -
    let ?n = "length (rr_Results out)"
    have "map sr_RunNum ys = [?n + length xs..<?n + length xs + length ys]" using xs(1) ys(4) by simp
    then show ?thesis
      using xs(4) upt_add_eq_append [of ?n "?n + length xs" "length ys"] by (simp only: map_append length_append add.assoc)
  qed
  moreover have "subseq (map sr_Chunk (xs @ ys)) (ch # chs)"
  proof (cases "xs = []")
    case True
    with ys(2) show ?thesis by (simp add: list_emb_Cons)
  next
    case False
    with xs(2) have "map sr_Chunk (xs @ ys) = ch # map sr_Chunk ys" by simp
    with subseq_Cons2 [OF ys(2), of ch] show ?thesis by simp
  qed
  moreover have "list_all listens (map sr_Chunk (xs @ ys))"
    using arg_cong [OF xs(2), of "list_all listens"] xs(3) ys(3) by (simp split: if_splits)
  ultimately show ?case using xs(1,5) ys(1,5) s by (intro exI [of _ "xs @ ys"]) simp
qed simp

lemma Run_results:
  "\<exists>xs. rr_Results (fst (Run r chunks w)) = map (sr_at r chunks w) [0..<length chunks] @ xs \<and>
     subseq (map sr_Chunk xs) chunks \<and> list_all listens (map sr_Chunk xs) \<and>
     map sr_RunNum xs = [length chunks..<length chunks + length xs] \<and>
     (rr_Aborted (ru_out (main_pass r chunks w)) \<longrightarrow> xs = []) \<and>
     rr_Aborted (fst (Run r chunks w)) = rr_Aborted (ru_out (main_pass r chunks w))"
proof (cases "rr_Aborted (ru_out (main_pass r chunks w))")
  case True
  then show ?thesis by (simp add: Run_def runListeners_def Let_def main_results)
next
  case False
  with listen_steps_add [of r "ru_results (main_pass r chunks w)" "ru_out (main_pass r chunks w)" "ru_world (main_pass r chunks w)" chunks]
  show ?thesis by (simp add: Run_def runListeners_def Let_def main_results)
qed

text \<open>C14: every step is reported once, in order. A run gives one result per chunk of the low state,
  in its order, followed by the listen reactions in the same order, each of a chunk that listens; the
  run numbers count up from zero without a gap.\<close>

theorem Run_reports_every_chunk:
  "\<exists>ls. map sr_Chunk (rr_Results (fst (Run r chunks w))) = chunks @ ls \<and> subseq ls chunks \<and> list_all listens ls \<and>
     map sr_RunNum (rr_Results (fst (Run r chunks w))) = [0..<length chunks + length ls]"
proof -
  from Run_results [of r chunks w] obtain xs
    where xs: "rr_Results (fst (Run r chunks w)) = map (sr_at r chunks w) [0..<length chunks] @ xs"
      "subseq (map sr_Chunk xs) chunks" "list_all listens (map sr_Chunk xs)"
      "map sr_RunNum xs = [length chunks..<length chunks + length xs]" by blast
  have "map sr_Chunk (map (sr_at r chunks w) [0..<length chunks]) = chunks"
    by (rule nth_equalityI) (simp_all add: sr_at_RunNum)
  moreover have "map sr_RunNum (map (sr_at r chunks w) [0..<length chunks]) = [0..<length chunks]"
    by (rule nth_equalityI) (simp_all add: sr_at_RunNum)
  ultimately show ?thesis using xs
    by (intro exI [of _ "map sr_Chunk xs"]) (simp add: upt_add_eq_append [of 0])
qed

subsection \<open>Requisites\<close>

text \<open>The rules, stated on the results of the run.\<close>

definition failed_at :: "results \<Rightarrow> nat \<Rightarrow> bool" where
  "failed_at results idx = holds_at (\<lambda>x. Failed (sr_Result x)) results idx"

definition req_holds :: "results \<Rightarrow> Req \<Rightarrow> bool" where
  "req_holds results req =
     (case req_Kind req of
        Require \<Rightarrow> list_all (\<lambda>t. \<not> failed_at results t) (req_Resolved req)
      | Watch \<Rightarrow> list_all (\<lambda>t. \<not> failed_at results t) (req_Resolved req)
      | RequireAny \<Rightarrow> anySucceeded (req_Resolved req) results
      | WatchAny \<Rightarrow> anySucceeded (req_Resolved req) results
      | OnChanges \<Rightarrow> list_all (\<lambda>t. changed t results) (req_Resolved req)
      | OnChangesAny \<Rightarrow> list_ex (\<lambda>t. changed t results) (req_Resolved req)
      | OnFail \<Rightarrow> list_ex (failed_at results) (req_Resolved req)
      | OnFailAny \<Rightarrow> list_ex (failed_at results) (req_Resolved req)
      | OnFailAll \<Rightarrow> list_all (failed_at results) (req_Resolved req)
      | _ \<Rightarrow> True)"

definition of_kind :: "ReqKind list \<Rightarrow> Req list \<Rightarrow> Req list" where
  "of_kind ks reqs = filter (\<lambda>q. req_Kind q \<in> set ks \<and> req_Resolved q \<noteq> []) reqs"

text \<open>Every \<open>require\<close>, \<open>watch\<close> and their \<open>any\<close> forms hold; of the \<open>onchanges\<close> family at least one holds
  when there is any, and likewise of the \<open>onfail\<close> family.\<close>

definition requisites_met :: "results \<Rightarrow> Req list \<Rightarrow> bool" where
  "requisites_met results reqs \<longleftrightarrow>
     list_all (req_holds results) (of_kind [Require, Watch, RequireAny, WatchAny] reqs) \<and>
     (let q = of_kind [OnChanges, OnChangesAny] reqs in q = [] \<or> list_ex (req_holds results) q) \<and>
     (let q = of_kind [OnFail, OnFailAny, OnFailAll] reqs in q = [] \<or> list_ex (req_holds results) q)"

lemma of_kind_Cons:
  "of_kind ks (q # qs) = (if req_Kind q \<in> set ks \<and> req_Resolved q \<noteq> [] then q # of_kind ks qs else of_kind ks qs)"
  by (simp add: of_kind_def)

lemma find_failed: "find (holds_at (\<lambda>x. Failed (sr_Result x)) results) ts = None \<longleftrightarrow> list_all (\<lambda>t. \<not> failed_at results t) ts"
  by (auto simp: find_None_iff list_all_iff failed_at_def)

lemma eval_req_go:
  assumes "eval_req r chunks results q fl w = (Inr fl', w')"
  shows "(req_Kind q \<in> set [Require, Watch, RequireAny, WatchAny] \<and> req_Resolved q \<noteq> [] \<longrightarrow> req_holds results q) \<and>
     f_sawOnChanges fl' = (f_sawOnChanges fl \<or> of_kind [OnChanges, OnChangesAny] [q] \<noteq> []) \<and>
     f_onChangesSatisfied fl' = (f_onChangesSatisfied fl \<or> list_ex (req_holds results) (of_kind [OnChanges, OnChangesAny] [q])) \<and>
     f_sawOnFail fl' = (f_sawOnFail fl \<or> of_kind [OnFail, OnFailAny, OnFailAll] [q] \<noteq> []) \<and>
     f_onFailSatisfied fl' = (f_onFailSatisfied fl \<or> list_ex (req_holds results) (of_kind [OnFail, OnFailAny, OnFailAll] [q]))"
proof (cases "req_Resolved q = []")
  case True
  with assms show ?thesis by (simp add: eval_req_def of_kind_def)
next
  case False
  then show ?thesis
    using assms
    by (cases "req_Kind q")
      (auto simp: eval_req_def Let_def req_holds_def of_kind_def anyChanged_def allChanged_def anyFailed_def allFailed_def
        failed_at_def find_failed [unfolded failed_at_def] list_ex_iff list_all_iff
        split: option.splits if_splits prod.splits bool.splits)
qed

lemma eval_reqs_go:
  "eval_reqs r chunks results qs fl w = (Inr fl', w') \<Longrightarrow>
     list_all (req_holds results) (of_kind [Require, Watch, RequireAny, WatchAny] qs) \<and>
     f_sawOnChanges fl' = (f_sawOnChanges fl \<or> of_kind [OnChanges, OnChangesAny] qs \<noteq> []) \<and>
     f_onChangesSatisfied fl' = (f_onChangesSatisfied fl \<or> list_ex (req_holds results) (of_kind [OnChanges, OnChangesAny] qs)) \<and>
     f_sawOnFail fl' = (f_sawOnFail fl \<or> of_kind [OnFail, OnFailAny, OnFailAll] qs \<noteq> []) \<and>
     f_onFailSatisfied fl' = (f_onFailSatisfied fl \<or> list_ex (req_holds results) (of_kind [OnFail, OnFailAny, OnFailAll] qs))"
proof (induction qs arbitrary: fl w)
  case Nil
  then show ?case by (simp add: of_kind_def)
next
  case (Cons q qs)
  from Cons.prems obtain fl1 w1 where q: "eval_req r chunks results q fl w = (Inr fl1, w1)"
    "eval_reqs r chunks results qs fl1 w1 = (Inr fl', w')" by (auto split: prod.splits sum.splits)
  have app: "of_kind ks (q # qs) = of_kind ks [q] @ of_kind ks qs" for ks by (simp add: of_kind_def)
  have must: "list_all (req_holds results) (of_kind [Require, Watch, RequireAny, WatchAny] [q])"
    using eval_req_go [OF q(1)] by (simp add: of_kind_def)
  show ?case
    unfolding app using eval_req_go [OF q(1)] must Cons.IH [OF q(2)] by auto
qed

lemma evaluateRequisites_go:
  assumes "evaluateRequisites r ch chunks results w = (Go rx, w')"
  shows "requisites_met results (ch_Reqs ch)"
proof -
  from assms obtain fl w1 where e: "eval_reqs r chunks results (ch_Reqs ch) no_flags w = (Inr fl, w1)" "conclude fl = Go rx"
    by (auto simp: evaluateRequisites_def split: prod.splits sum.splits)
  from eval_reqs_go [OF e(1)] e(2) show ?thesis
    by (auto simp: requisites_met_def Let_def conclude_def no_flags_def split: if_splits)
qed

text \<open>Results of earlier chunks do not change any more.\<close>

lemma req_holds_cong:
  assumes "\<forall>t \<in> set (req_Resolved q). result_at results t = result_at results' t"
  shows "req_holds results q = req_holds results' q"
proof -
  have h: "holds_at P results t = holds_at P results' t" if "t \<in> set (req_Resolved q)" for P t
    using assms that by (simp add: holds_at_def)
  show ?thesis
    by (cases "req_Kind q")
      (auto simp: req_holds_def failed_at_def changed_def anySucceeded_def list_all_iff list_ex_iff h)
qed

lemma requisites_met_cong:
  assumes "\<forall>q \<in> set reqs. req_Kind q \<notin> {Prereq, Listen, Use} \<longrightarrow>
      (\<forall>t \<in> set (req_Resolved q). result_at results t = result_at results' t)"
  shows "requisites_met results reqs = requisites_met results' reqs"
proof -
  have eq: "req_holds results q = req_holds results' q" if "q \<in> set (of_kind ks reqs)" "set ks \<inter> {Prereq, Listen, Use} = {}" for q ks
    using that assms by (intro req_holds_cong) (auto simp: of_kind_def)
  have all: "list_all (req_holds results) (of_kind ks reqs) = list_all (req_holds results') (of_kind ks reqs)"
    and ex: "list_ex (req_holds results) (of_kind ks reqs) = list_ex (req_holds results') (of_kind ks reqs)"
    if "set ks \<inter> {Prereq, Listen, Use} = {}" for ks
    using eq [OF _ that] by (auto simp: list_all_iff list_ex_iff)
  show ?thesis by (simp add: requisites_met_def Let_def all ex)
qed

definition final_results :: "'w Runner \<Rightarrow> Chunk list \<Rightarrow> 'w \<Rightarrow> results" where
  "final_results r chunks w = map Some (take (length chunks) (rr_Results (fst (Run r chunks w))))"

lemma final_results_sr_at: "final_results r chunks w = map (\<lambda>j. Some (sr_at r chunks w j)) [0..<length chunks]"
  using Run_results [of r chunks w] by (auto simp: final_results_def)

lemma Run_nth: "i < length chunks \<Longrightarrow> rr_Results (fst (Run r chunks w)) ! i = sr_at r chunks w i"
  using Run_results [of r chunks w] by (auto simp: nth_append)

lemma earlier_final:
  assumes "t < i" and "i < length chunks"
  shows "result_at ((ru_results (prefix_state r chunks w i))[i := x]) t = result_at (final_results r chunks w) t"
  using assms prefix_results [of i chunks r w] by (simp add: result_at_def final_results_sr_at nth_append)

lemma ran_met:
  assumes "in_run_order chunks" and "i < length chunks" and "\<not> sr_Skipped (sr_at r chunks w i)"
  shows "requisites_met (final_results r chunks w) (ch_Reqs (chunks ! i))"
proof -
  let ?st = "prefix_state r chunks w i"
  from sr_at_step [of r chunks i w] assms(3) have "allowed r chunks ?st i" by (simp add: step_ok_def)
  then obtain rx w1 where "evaluateRequisites r (chunks ! i) chunks ((ru_results ?st)[i := Some (zero_sr chunks i ?st)])
      (ru_world ?st) = (Go rx, w1)" unfolding allowed_def by blast
  from evaluateRequisites_go [OF this] obtain x
    where met: "requisites_met ((ru_results ?st)[i := x]) (ch_Reqs (chunks ! i))" by blast
  have "t < i" if "q \<in> set (ch_Reqs (chunks ! i))" "req_Kind q \<notin> {Prereq, Listen, Use}" "t \<in> set (req_Resolved q)" for q t
    using assms(1) [unfolded in_run_order_def, rule_format, OF assms(2) that(1,3)] that(2) by simp
  then have "requisites_met ((ru_results ?st)[i := x]) (ch_Reqs (chunks ! i)) =
      requisites_met (final_results r chunks w) (ch_Reqs (chunks ! i))"
    by (intro requisites_met_cong) (auto simp: earlier_final [OF _ assms(2)])
  with met show ?thesis by simp
qed

text \<open>A \<open>prereq\<close> is judged before its targets run, by trial: a target is called in test mode, and would
  change something when that call fails, gives no verdict or reports changes. The trials of a step
  start from the machine as the steps before it left it.\<close>

definition trial :: "'w Runner \<Rightarrow> Chunk \<Rightarrow> 'w \<Rightarrow> (fmt_arg + Result) \<times> 'w" where
  "trial r ch = State_Call r ((rn_Ctx r)\<lparr>cc_Test := True\<rparr>) (Chunk_Func ch) (ch_Args ch)"

definition would_change :: "'w Runner \<Rightarrow> Chunk \<Rightarrow> 'w \<Rightarrow> bool" where
  "would_change r ch w =
     (case fst (trial r ch w) of Inl err \<Rightarrow> True | Inr res \<Rightarrow> res_Result res = None \<or> HasChanges res)"

inductive after_trials :: "'w Runner \<Rightarrow> Chunk list \<Rightarrow> 'w \<Rightarrow> 'w \<Rightarrow> bool" for r chunks w0 where
  no_trial: "after_trials r chunks w0 w0"
| one_more: "after_trials r chunks w0 w \<Longrightarrow> after_trials r chunks w0 (snd (trial r (chunks ! t) w))"

definition prereqs_met :: "'w Runner \<Rightarrow> Chunk list \<Rightarrow> 'w \<Rightarrow> Req list \<Rightarrow> bool" where
  "prereqs_met r chunks w0 reqs \<longleftrightarrow>
     (\<forall>q \<in> set reqs. req_Kind q = Prereq \<and> req_Resolved q \<noteq> [] \<longrightarrow>
        (\<exists>t \<in> set (req_Resolved q). \<exists>w. after_trials r chunks w0 w \<and> would_change r (chunks ! t) w))"

lemma prereq_trials:
  "prereqWouldChange r chunks ts w = (b, w') \<Longrightarrow> after_trials r chunks w0 w \<Longrightarrow>
     after_trials r chunks w0 w' \<and>
     (b \<longrightarrow> (\<exists>t \<in> set ts. \<exists>v. after_trials r chunks w0 v \<and> would_change r (chunks ! t) v))"
proof (induction ts arbitrary: w)
  case (Cons t ts)
  obtain res w1 where c: "trial r (chunks ! t) w = (res, w1)" by (cases "trial r (chunks ! t) w")
  note step = c [unfolded trial_def]
  from one_more [OF Cons.prems(2), of t] c have w1: "after_trials r chunks w0 w1" by simp
  show ?case
  proof (cases "would_change r (chunks ! t) w")
    case True
    with Cons.prems(1) c step have "w' = w1" by (cases res) (auto simp: Let_def would_change_def)
    with True w1 Cons.prems(2) show ?thesis by auto
  next
    case False
    with c obtain x where x: "res = Inr x" "\<not> (res_Result x = None \<or> HasChanges x)"
      by (cases res) (auto simp: would_change_def)
    with Cons.prems(1) step have "prereqWouldChange r chunks ts w1 = (b, w')" by (auto simp: Let_def)
    from Cons.IH [OF this w1] show ?thesis by auto
  qed
qed simp

lemma eval_req_trials:
  assumes "eval_req r chunks results q fl w = (Inr fl', w')" and "after_trials r chunks w0 w"
  shows "after_trials r chunks w0 w' \<and> prereqs_met r chunks w0 [q]"
proof (cases "req_Kind q = Prereq \<and> req_Resolved q \<noteq> []")
  case True
  with assms(1) have "prereqWouldChange r chunks (req_Resolved q) w = (True, w')"
    by (auto simp: eval_req_def Let_def split: prod.splits bool.splits)
  from prereq_trials [OF this assms(2)] show ?thesis by (simp add: prereqs_met_def)
next
  case False
  then have "prereqs_met r chunks w0 [q]" by (auto simp: prereqs_met_def)
  moreover from False assms(1) have "w' = w"
    by (cases "req_Kind q") (auto simp: eval_req_def Let_def split: option.splits if_splits)
  ultimately show ?thesis using assms(2) by simp
qed

lemma eval_reqs_trials:
  "eval_reqs r chunks results qs fl w = (Inr fl', w') \<Longrightarrow> after_trials r chunks w0 w \<Longrightarrow>
     prereqs_met r chunks w0 qs"
proof (induction qs arbitrary: fl w)
  case (Cons q qs)
  from Cons.prems(1) obtain fl1 w1 where q: "eval_req r chunks results q fl w = (Inr fl1, w1)"
    "eval_reqs r chunks results qs fl1 w1 = (Inr fl', w')" by (auto split: prod.splits sum.splits)
  from eval_req_trials [OF q(1) Cons.prems(2)] Cons.IH [OF q(2)] show ?case by (auto simp: prereqs_met_def)
qed (simp add: prereqs_met_def)

lemma ran_prereqs_met:
  assumes "\<not> sr_Skipped (sr_at r chunks w i)"
  shows "prereqs_met r chunks (ru_world (prefix_state r chunks w i)) (ch_Reqs (chunks ! i))"
proof -
  let ?st = "prefix_state r chunks w i"
  from sr_at_step [of r chunks i w] assms have "allowed r chunks ?st i" by (simp add: step_ok_def)
  then obtain rx w1 where "evaluateRequisites r (chunks ! i) chunks ((ru_results ?st)[i := Some (zero_sr chunks i ?st)])
      (ru_world ?st) = (Go rx, w1)" unfolding allowed_def by blast
  then obtain fl w2 where "eval_reqs r chunks ((ru_results ?st)[i := Some (zero_sr chunks i ?st)]) (ch_Reqs (chunks ! i))
      no_flags (ru_world ?st) = (Inr fl, w2)" by (auto simp: evaluateRequisites_def split: prod.splits sum.splits)
  from eval_reqs_trials [OF this no_trial] show ?thesis .
qed

text \<open>C2: a step runs only when its requisites are met. In a low state that is in run order, whenever
  the run did not skip a chunk, none of the targets it requires or watches failed, one target of each
  \<open>require_any\<close> and \<open>watch_any\<close> was run and succeeded, one of its \<open>onchanges\<close> requisites reported changes
  if it has any, and one of its \<open>onfail\<close> requisites failed if it has any, all judged on the results the
  run finally reports.\<close>

theorem Run_only_when_met:
  assumes "in_run_order chunks" and "i < length chunks"
    and "\<not> sr_Skipped (rr_Results (fst (Run r chunks w)) ! i)"
  shows "requisites_met (final_results r chunks w) (ch_Reqs (chunks ! i))"
  using ran_met [OF assms(1,2)] assms(3) by (simp add: Run_nth [OF assms(2)])

subsection \<open>Failhard\<close>

lemma abort_stays:
  "k \<le> j \<Longrightarrow> rr_Aborted (ru_out (prefix_state r chunks w k)) \<Longrightarrow>
     rr_Aborted (ru_out (prefix_state r chunks w j)) \<and> ru_world (prefix_state r chunks w j) = ru_world (prefix_state r chunks w k)"
proof (induction j rule: dec_induct)
  case (step j)
  with sr_at_step [of r chunks j w] show ?case by (simp add: step_ok_def)
qed simp

text \<open>C13: failhard stops the run. When a step that ran fails and failhard applies to it, every later
  step is reported as failed and not attempted, the machine is not touched again, no listen reaction
  runs, and the run is reported as failed.\<close>

theorem failhard_stops_run:
  assumes "i < length chunks" and "failHardFor r (chunks ! i)"
    and "\<not> sr_Skipped (rr_Results (fst (Run r chunks w)) ! i)" and "Failed (sr_Result (rr_Results (fst (Run r chunks w)) ! i))"
  shows "list_all (\<lambda>sr. sr_Skipped sr \<and> Failed (sr_Result sr)) (drop (Suc i) (rr_Results (fst (Run r chunks w)))) \<and>
     length (rr_Results (fst (Run r chunks w))) = length chunks \<and>
     snd (Run r chunks w) = ru_world (prefix_state r chunks w (Suc i)) \<and> RetCode (fst (Run r chunks w)) = 1"
proof -
  have ab: "rr_Aborted (ru_out (prefix_state r chunks w (Suc i)))"
    using sr_at_step [of r chunks i w] assms by (simp add: step_ok_def Run_nth [OF assms(1)])
  note stays = abort_stays [OF _ ab]
  have main: "rr_Aborted (ru_out (main_pass r chunks w))" "ru_world (main_pass r chunks w) = ru_world (prefix_state r chunks w (Suc i))"
    using stays [of "length chunks"] assms(1) by (simp_all add: main_pass_prefix)
  have res: "rr_Results (fst (Run r chunks w)) = map (sr_at r chunks w) [0..<length chunks]"
    using Run_results [of r chunks w] main(1) by auto
  have "sr_Skipped (sr_at r chunks w j) \<and> Failed (sr_Result (sr_at r chunks w j))" if "Suc i \<le> j" for j
    using sr_at_step [of r chunks j w] stays [OF that] by (simp add: step_ok_def)
  moreover have "RunResult_Failed (fst (Run r chunks w))"
    using assms(1,4) by (auto simp: RunResult_Failed_def list_ex_iff res Run_nth [OF assms(1)] image_iff)
  moreover have "snd (Run r chunks w) = ru_world (main_pass r chunks w)"
    using main(1) by (simp add: Run_def runListeners_def Let_def)
  ultimately show ?thesis using main(2) by (simp add: res list_all_iff drop_map RetCode_def)
qed

subsection \<open>Test runs\<close>

text \<open>The contract of test mode: in a test call no module function changes the machine. Sleeping and
  drawing random bytes do not either.\<close>

definition test_contract :: "'w Runner \<Rightarrow> bool" where
  "test_contract r \<longleftrightarrow>
     (\<forall>name m c args w. gomap_get (sr_fns (rn_States r)) name = Some m \<and> cc_Test c \<longrightarrow>
        snd (md_Fn m c args w) = w \<and> snd (watch_fn m c args w) = w) \<and>
     (\<forall>d w. rn_Sleep r d w = w) \<and> (\<forall>w. snd (rn_Rand r w) = w)"

definition conditions_harmless :: "'w Runner \<Rightarrow> Chunk list \<Rightarrow> bool" where
  "conditions_harmless r chunks \<longleftrightarrow>
     (\<forall>ch \<in> set chunks. \<forall>cond \<in> set (o_Unless (ch_Opts ch) @ o_OnlyIf (ch_Opts ch)). \<forall>w. snd (evalCondition r ch cond w) = w)"

lemma call_with_keeps:
  assumes "\<And>m args w. gomap_get (sr_fns sr) name = Some m \<Longrightarrow> snd (pick m c args w) = w"
  shows "snd (call_with rt sp os pick sr c name args w) = w"
  using assms by (auto simp: call_with_def Let_def split: option.split prod.split)

lemma State_Call_keeps: "test_contract r \<Longrightarrow> cc_Test c \<Longrightarrow> snd (State_Call r c name args w) = w"
  unfolding State_Call_def Call_def by (rule call_with_keeps) (auto simp: test_contract_def)

lemma State_CallWatch_keeps: "test_contract r \<Longrightarrow> cc_Test c \<Longrightarrow> snd (State_CallWatch r c name args w) = w"
  unfolding State_CallWatch_def CallWatch_def by (rule call_with_keeps) (auto simp: test_contract_def)

lemma prereq_keeps: "test_contract r \<Longrightarrow> snd (prereqWouldChange r chunks ts w) = w"
proof (induction ts arbitrary: w)
  case (Cons t ts)
  obtain res w1 where c: "State_Call r ((rn_Ctx r)\<lparr>cc_Test := True\<rparr>) (Chunk_Func (chunks ! t)) (ch_Args (chunks ! t)) w = (res, w1)"
    by (cases "State_Call r ((rn_Ctx r)\<lparr>cc_Test := True\<rparr>) (Chunk_Func (chunks ! t)) (ch_Args (chunks ! t)) w")
  have "w1 = w" using State_Call_keeps [OF Cons.prems, of "(rn_Ctx r)\<lparr>cc_Test := True\<rparr>" "Chunk_Func (chunks ! t)" "ch_Args (chunks ! t)" w] c by simp
  with Cons c show ?case by (cases res) (simp_all add: Let_def)
qed simp

lemma eval_req_keeps: "test_contract r \<Longrightarrow> snd (eval_req r chunks results q fl w) = w"
  using prereq_keeps [of r chunks "req_Resolved q" w]
  by (cases "req_Kind q") (auto simp: eval_req_def Let_def split: option.split prod.splits bool.split)

lemma eval_reqs_keeps: "test_contract r \<Longrightarrow> snd (eval_reqs r chunks results qs fl w) = w"
proof (induction qs arbitrary: fl w)
  case (Cons q qs)
  obtain x w1 where e: "eval_req r chunks results q fl w = (x, w1)" by (cases "eval_req r chunks results q fl w")
  with eval_req_keeps [OF Cons.prems, of chunks results q fl w] Cons show ?case by (cases x) simp_all
qed simp

lemma evaluateRequisites_keeps: "test_contract r \<Longrightarrow> snd (evaluateRequisites r ch chunks results w) = w"
  using eval_reqs_keeps [of r chunks results "ch_Reqs ch" no_flags w]
  by (auto simp: evaluateRequisites_def split: prod.splits sum.split)

lemma unless_keeps: "(\<forall>c \<in> set conds. \<forall>w. snd (evalCondition r ch c w) = w) \<Longrightarrow> snd (unless_gate r ch conds w) = w"
proof (induction conds arbitrary: w)
  case (Cons c conds)
  obtain x w1 where e: "evalCondition r ch c w = (x, w1)" by (cases "evalCondition r ch c w")
  moreover have "w1 = w" using Cons.prems e by (metis list.set_intros(1) snd_conv)
  ultimately show ?case using Cons by (auto split: sum.split bool.split)
qed simp

lemma onlyif_keeps: "(\<forall>c \<in> set conds. \<forall>w. snd (evalCondition r ch c w) = w) \<Longrightarrow> snd (onlyif_gate r ch conds w) = w"
proof (induction conds arbitrary: w)
  case (Cons c conds)
  obtain x w1 where e: "evalCondition r ch c w = (x, w1)" by (cases "evalCondition r ch c w")
  moreover have "w1 = w" using Cons.prems e by (metis list.set_intros(1) snd_conv)
  ultimately show ?case using Cons by (auto split: sum.split bool.split)
qed simp

lemma gates_keep:
  assumes "conditions_harmless r chunks" and "ch \<in> set chunks"
  shows "snd (evaluateGates r ch w) = w"
proof -
  have u: "snd (unless_gate r ch (o_Unless (ch_Opts ch)) w) = w" for w
    using assms by (intro unless_keeps) (auto simp: conditions_harmless_def)
  have o: "snd (onlyif_gate r ch (o_OnlyIf (ch_Opts ch)) w) = w" for w
    using assms by (intro onlyif_keeps) (auto simp: conditions_harmless_def)
  show ?thesis using u [of w] o [of w] by (auto simp: evaluateGates_def split: option.split prod.splits)
qed

lemma attempt_keeps: "test_contract r \<Longrightarrow> cc_Test (rn_Ctx r) \<Longrightarrow> snd (attempt r ch react w) = w"
  by (auto simp: attempt_def Let_def split_beta chunkContext_def State_Call_keeps State_CallWatch_keeps split: sum.split)

lemma splay_keeps: "test_contract r \<Longrightarrow> snd (splay r most w) = w"
proof -
  assume "test_contract r"
  then have "snd (rn_Rand r w) = w" by (simp add: test_contract_def)
  then show ?thesis by (cases "rn_Rand r w"; cases "fst (rn_Rand r w)") (simp_all add: splay_def)
qed

lemma Sleep_keeps: "test_contract r \<Longrightarrow> rn_Sleep r d w = w"
  by (simp add: test_contract_def)

lemma retry_keeps: "test_contract r \<Longrightarrow> cc_Test (rn_Ctx r) \<Longrightarrow> snd (retry_loop r ch react rt n res w) = w"
proof (induction n arbitrary: res w)
  case (Suc n)
  then show ?case
    using splay_keeps [OF Suc.prems(1), of "retry_Splay rt" w] attempt_keeps [OF Suc.prems]
    by (simp add: split_beta Let_def Sleep_keeps)
qed simp

lemma execute_keeps: "test_contract r \<Longrightarrow> cc_Test (rn_Ctx r) \<Longrightarrow> snd (execute r ch react w) = w"
  by (auto simp: execute_def Let_def split_beta attempt_keeps retry_keeps checkCmdResult_def split: option.split)

lemma runChunk_keeps:
  assumes "test_contract r" and "cc_Test (rn_Ctx r)" and "conditions_harmless r chunks" and "ch \<in> set chunks"
  shows "snd (snd (runChunk r ch react w)) = w"
  using gates_keep [OF assms(3,4), of w] execute_keeps [OF assms(1,2), of ch react w]
  by (auto simp: runChunk_def split: prod.splits option.split)

lemma run_step_keeps:
  assumes "test_contract r" and "cc_Test (rn_Ctx r)" and "conditions_harmless r chunks" and "i < length chunks"
  shows "ru_world (run_step r chunks st i) = ru_world st"
proof -
  let ?rs = "(ru_results st)[i := Some (zero_sr chunks i st)]"
  obtain d w1 where d: "evaluateRequisites r (chunks ! i) chunks ?rs (ru_world st) = (d, w1)"
    by (cases "evaluateRequisites r (chunks ! i) chunks ?rs (ru_world st)")
  have w1: "w1 = ru_world st" using evaluateRequisites_keeps [OF assms(1), of "chunks ! i" chunks ?rs "ru_world st"] d by simp
  have run: "snd (snd (runChunk r (chunks ! i) rx w)) = w" for rx w
    by (rule runChunk_keeps [OF assms(1,2,3)]) (use assms(4) in simp)
  show ?thesis
  proof (cases d)
    case (Skip res)
    with d w1 show ?thesis
      by (simp add: run_step_def Let_def record_result_def zero_sr_def split: option.split)
  next
    case (Go rx)
    obtain res held w2 where c: "runChunk r (chunks ! i) rx w1 = (res, held, w2)" by (cases "runChunk r (chunks ! i) rx w1")
    with run [of rx w1] w1 have "w2 = ru_world st" by simp
    with d w1 Go c show ?thesis
      by (simp add: run_step_def Let_def record_result_def zero_sr_def split: option.split)
  qed
qed

lemma listen_step_keeps:
  assumes "test_contract r" and "cc_Test (rn_Ctx r)" and "conditions_harmless r chunks" and "ch \<in> set chunks"
  shows "snd (listen_step r results (out, w) ch) = w"
  using runChunk_keeps [OF assms, of "\<lparr>rx_kind = ''listen'', rx_watchChanged = []\<rparr>" w]
  by (auto simp: listen_step_def Let_def split: prod.splits)

text \<open>C12: a test run changes nothing. Under the contract of test mode for the module functions, and
  when the \<open>unless\<close> and \<open>onlyif\<close> conditions themselves only look, a run in test mode leaves the machine
  exactly as it was: the runner never calls a module outside test mode, not for a \<open>prereq\<close> nor for a
  reaction, and never runs a \<open>check_cmd\<close>.\<close>

theorem test_run_changes_nothing:
  assumes "test_contract r" and "cc_Test (rn_Ctx r)" and "conditions_harmless r chunks"
  shows "snd (Run r chunks w) = w"
proof -
  have "k \<le> length chunks \<Longrightarrow> ru_world (prefix_state r chunks w k) = w" for k
    by (induction k) (simp_all add: prefix_state_0 run_start_def prefix_state_Suc run_step_keeps [OF assms])
  then have main: "ru_world (main_pass r chunks w) = w" by (simp add: main_pass_prefix)
  have "set chs \<subseteq> set chunks \<Longrightarrow> snd (foldl (listen_step r results) (out, w) chs) = w" for chs out results
  proof (induction chs arbitrary: out)
    case (Cons ch chs)
    then show ?case
      using listen_step_keeps [OF assms, of ch results out w]
      by (cases "listen_step r results (out, w) ch") simp
  qed simp
  with main show ?thesis by (simp add: Run_def runListeners_def Let_def)
qed

subsection \<open>Retries\<close>

text \<open>The attempts a retried chunk makes, one after the other.\<close>

definition next_attempt :: "'w Runner \<Rightarrow> Chunk \<Rightarrow> reaction \<Rightarrow> Retry \<Rightarrow> Result \<times> 'w \<Rightarrow> Result \<times> 'w" where
  "next_attempt r ch react rt = (\<lambda>(res, w).
     let (s, w1) = splay r (retry_Splay rt) w
     in attempt r ch react (rn_Sleep r (wrap64 (retry_Interval rt + s)) w1))"

definition meets :: "Retry \<Rightarrow> Result \<times> 'w \<Rightarrow> bool" where
  "meets rt x \<longleftrightarrow> Succeeded (fst x) = retry_Until rt"

text \<open>Retrying is exact and bounded. The loop returns the first attempt whose outcome is the one
  asked for, and makes no attempt after it; when no attempt among the first and the \<open>n\<close> retries has that
  outcome, it returns the last of them.\<close>

theorem retry_loop_spec:
  "\<exists>k \<le> n. retry_loop r ch react rt n res w = (next_attempt r ch react rt ^^ k) (res, w) \<and>
     list_all (\<lambda>j. \<not> meets rt ((next_attempt r ch react rt ^^ j) (res, w))) [0..<k] \<and>
     (k = n \<or> meets rt ((next_attempt r ch react rt ^^ k) (res, w)))"
proof (induction n arbitrary: res w)
  case (Suc n)
  let ?f = "next_attempt r ch react rt"
  show ?case
  proof (cases "meets rt (res, w)")
    case True
    then show ?thesis by (intro exI [of _ 0]) (simp add: meets_def)
  next
    case False
    obtain res' w' where s: "?f (res, w) = (res', w')" by (cases "?f (res, w)")
    from Suc.IH [of res' w'] obtain k where k: "k \<le> n" "retry_loop r ch react rt n res' w' = (?f ^^ k) (res', w')"
      "list_all (\<lambda>j. \<not> meets rt ((?f ^^ j) (res', w'))) [0..<k]" "k = n \<or> meets rt ((?f ^^ k) (res', w'))" by blast
    have shift: "(?f ^^ j) (res', w') = (?f ^^ Suc j) (res, w)" for j
      using s by (simp add: funpow_swap1)
    have eq: "retry_loop r ch react rt (Suc n) res w = retry_loop r ch react rt n res' w'"
      using False s by (simp add: meets_def next_attempt_def split_beta Let_def)
    have "\<not> meets rt ((?f ^^ j) (res, w))" if "j < Suc k" for j
      using that False k(3) by (cases j) (simp_all add: shift [symmetric] list_all_iff del: funpow.simps)
    then have "list_all (\<lambda>j. \<not> meets rt ((?f ^^ j) (res, w))) [0..<Suc k]" by (simp add: list_all_iff)
    then show ?thesis using eq k(1,2,4) shift by (intro exI [of _ "Suc k"]) (simp del: funpow.simps)
  qed
qed simp

text \<open>The random part of a retry's wait never exceeds the \<open>splay\<close> asked for and is never negative,
  so a retry waits at least its interval.\<close>

theorem splay_bounds: "0 \<le> fst (splay r most w) \<and> fst (splay r most w) \<le> max 0 most"
proof (cases "most \<le> 0")
  case False
  then have "int (n mod nat (most + 1)) \<le> most" for n
    using mod_less_divisor [of "nat (most + 1)" n] by linarith
  with False show ?thesis by (cases "rn_Rand r w"; cases "fst (rn_Rand r w)") (simp_all add: splay_def)
qed (simp add: splay_def)

subsection \<open>A small machine\<close>

text \<open>A machine that counts its changes. \<open>file.managed\<close> and \<open>pkg.installed\<close> change it unless in test mode, \<open>cmd.run\<close> always
  fails, and a shell command, which only a \<open>check_cmd\<close> runs here, changes it too.\<close>

definition demo_module :: "string \<Rightarrow> string \<Rightarrow> nat Func \<Rightarrow> string \<times> nat Module" where
  "demo_module m f fn =
     (m @ ''.'' @ f, \<lparr>md_Sig = (plain_sig [])\<lparr>sig_Module := m, sig_Function := f, sig_AnyKwargs := True\<rparr>,
        md_Fn = fn, md_ModWatch = None\<rparr>)"

definition demo_changes :: vmap where
  "demo_changes = Change VNull (VStr ''x'')"

definition demo_managed :: "nat Func" where
  "demo_managed c args w =
     (if cc_Test c then (Inr (Result_WouldChange ''would'' (Some demo_changes)), w)
      else (Inr (Result_Changed ''did'' (Some demo_changes)), Suc w))"

definition demo_runner :: "bool \<Rightarrow> (string, Result) gomap \<Rightarrow> nat Runner" where
  "demo_runner test seed =
     \<lparr>rn_rt = no_runtime, rn_sprintf = (\<lambda>f args. f), rn_GOOS = ''linux'', rn_Euid = 0,
      rn_Run = (\<lambda>cmd w. (Inr 0, Suc w)), rn_CallPositional = (\<lambda>name args kw w. (Inr (VBool True), w)),
      rn_Exists = (\<lambda>path w. False), rn_Sleep = (\<lambda>d w. w), rn_Rand = (\<lambda>w. (None, w)),
      rn_States = \<lparr>sr_fns = [demo_module ''file'' ''managed'' demo_managed, demo_module ''pkg'' ''installed'' demo_managed,
                             demo_module ''cmd'' ''run'' (\<lambda>c args w. (Inr (Result_False ''no''), w))],
                   sr_sigs = NewRegistry\<rparr>,
      rn_Ctx = \<lparr>cc_StateID = [], cc_RunAs = [], cc_Umask = [], cc_CheckCmd = [], cc_Reaction = [],
                cc_WatchChanged = [], cc_Test = test, cc_Timeout = None\<rparr>,
      rn_FailHard = True, rn_Seed = seed\<rparr>"

definition demo_chunk :: "string \<Rightarrow> string \<Rightarrow> string \<Rightarrow> Req list \<Rightarrow> Chunk" where
  "demo_chunk ident st f reqs = (sample_chunk ident [] reqs)\<lparr>ch_State := st, ch_Fun := f\<rparr>"

definition needs :: "ReqKind \<Rightarrow> nat list \<Rightarrow> Req" where
  "needs k ts = \<lparr>req_Kind = k, req_Refs = [], req_Resolved = ts\<rparr>"

text \<open>A file, another that requires it, a command that fails, and a file after it.\<close>

definition demo_low :: "Chunk list" where
  "demo_low = [demo_chunk ''a'' ''file'' ''managed'' [], demo_chunk ''b'' ''file'' ''managed'' [needs Require [0]],
               demo_chunk ''c'' ''cmd'' ''run'' [], demo_chunk ''d'' ''file'' ''managed'' []]"

lemma demo_run:
  "map (\<lambda>sr. (sr_Skipped sr, Failed (sr_Result sr))) (rr_Results (fst (Run (demo_runner False []) demo_low 0))) =
     [(False, False), (False, False), (False, True), (True, True)]"
  by code_simp

lemma demo_run_nth:
  "i < 4 \<Longrightarrow> (sr_Skipped (rr_Results (fst (Run (demo_runner False []) demo_low 0)) ! i),
              Failed (sr_Result (rr_Results (fst (Run (demo_runner False []) demo_low 0)) ! i))) =
     [(False, False), (False, False), (False, True), (True, True)] ! i"
proof -
  let ?rs = "rr_Results (fst (Run (demo_runner False []) demo_low 0))"
  assume "i < 4"
  moreover have "length ?rs = 4" using arg_cong [OF demo_run, of length] by simp
  ultimately show ?thesis using arg_cong [OF demo_run, of "\<lambda>xs. xs ! i"] by simp
qed

lemma demo_in_order: "in_run_order demo_low"
proof -
  have "req_Resolved q = [0] \<and> req_Kind q = Require \<and> p = 1" if "p < length demo_low" "q \<in> set (ch_Reqs (demo_low ! p))" for p q
    using that by (auto simp: demo_low_def demo_chunk_def sample_chunk_def needs_def less_Suc_eq nth_Cons')
  then show ?thesis unfolding in_run_order_def by (auto simp: demo_low_def)
qed

theorem Run_only_when_met_witness:
  "requisites_met (final_results (demo_runner False []) demo_low (0 :: nat)) [needs Require [0]]"
proof -
  have "\<not> sr_Skipped (rr_Results (fst (Run (demo_runner False []) demo_low 0)) ! 1)" using demo_run_nth [of 1] by simp
  moreover have "1 < length demo_low" "ch_Reqs (demo_low ! 1) = [needs Require [0]]"
    by (simp_all add: demo_low_def demo_chunk_def sample_chunk_def)
  ultimately show ?thesis using Run_only_when_met [OF demo_in_order, of 1 "demo_runner False []" 0] by simp
qed

theorem failhard_stops_run_witness:
  "list_all (\<lambda>sr. sr_Skipped sr \<and> Failed (sr_Result sr)) (drop 3 (rr_Results (fst (Run (demo_runner False []) demo_low (0 :: nat)))))"
proof -
  have l: "2 < length demo_low" by (simp add: demo_low_def)
  have f: "failHardFor (demo_runner False []) (demo_low ! 2)"
    by (simp add: failHardFor_def demo_runner_def demo_low_def demo_chunk_def sample_chunk_def zero_Options_def)
  show ?thesis using failhard_stops_run [OF l f, of 0] demo_run_nth [of 2] by simp
qed

theorem test_run_changes_nothing_witness:
  "snd (Run (demo_runner True []) (map (\<lambda>ch. ch\<lparr>ch_Opts := (ch_Opts ch)\<lparr>o_CheckCmd := [''true'']\<rparr>\<rparr>) demo_low) 7) = (7 :: nat)"
proof (rule test_run_changes_nothing)
  show "test_contract (demo_runner True [])"
    by (auto simp: test_contract_def demo_runner_def demo_module_def demo_managed_def watch_fn_def split: if_splits)
  show "cc_Test (rn_Ctx (demo_runner True []))" by (simp add: demo_runner_def)
  show "conditions_harmless (demo_runner True []) (map (\<lambda>ch. ch\<lparr>ch_Opts := (ch_Opts ch)\<lparr>o_CheckCmd := [''true'']\<rparr>\<rparr>) demo_low)"
    by (auto simp: conditions_harmless_def demo_low_def demo_chunk_def sample_chunk_def zero_Options_def)
qed

subsection \<open>Resumed runs and structured conditions\<close>

text \<open>A resumed run does not see a seeded step as finished everywhere. A step that succeeded before
  and is presented through \<open>Seed\<close> satisfies a \<open>require\<close>, but a \<open>require_any\<close> on it is refused and the
  step that names it is reported as failed.\<close>

theorem seeded_success_refused_by_require_any:
  "map (\<lambda>sr. (ch_ID (sr_Chunk sr), Failed (sr_Result sr)))
     (rr_Results (fst (Run (demo_runner False [(''a'', Result_True ''done before'')])
        [demo_chunk ''a'' ''file'' ''managed'' [], demo_chunk ''b'' ''file'' ''managed'' [needs Require [0]],
         demo_chunk ''c'' ''file'' ''managed'' [needs RequireAny [0]]] 0))) =
   [(''a'', False), (''b'', False), (''c'', True)]"
  by code_simp

text \<open>\<open>onchanges\<close> asks for a change in every target. With two targets of which one reported changes, the
  step is skipped, as a success, where \<open>onchanges_any\<close> runs it.\<close>

theorem onchanges_needs_every_target:
  "map (\<lambda>sr. (ch_ID (sr_Chunk sr), sr_Skipped sr, Failed (sr_Result sr)))
     (rr_Results (fst (Run (demo_runner False [(''b'', Result_True ''unchanged'')])
        [demo_chunk ''a'' ''file'' ''managed'' [], demo_chunk ''b'' ''file'' ''managed'' [],
         demo_chunk ''c'' ''file'' ''managed'' [needs OnChanges [0, 1]],
         demo_chunk ''d'' ''file'' ''managed'' [needs OnChangesAny [0, 1]]] 0))) =
   [(''a'', False, False), (''b'', True, False), (''c'', True, False), (''d'', False, False)]"
  by code_simp

text \<open>A structured condition without a \<open>fun\<close> is not reported as such: the function \<open>null\<close> is
  called instead, because the text of a missing value is not empty.\<close>

theorem condition_without_fun_calls_null:
  assumes "Map_Get m (KStr ''fun'') = None" and "Map_Get m (KStr ''args'') = None" and "Map_Get m (KStr ''kwargs'') = None"
  shows "evalCondition r ch (VMap m) w =
     (case rn_CallPositional r ''null'' [] NewMap w of
        (Inl err, w1) \<Rightarrow> (Inl err, w1) | (Inr out, w1) \<Rightarrow> (Inr (Truthy out), w1))"
  using assms by (simp add: evalCondition_def mustGet_def Let_def)

theorem condition_without_fun_calls_null_witness:
  "evalCondition (demo_runner False []) (demo_chunk ''a'' ''file'' ''managed'' []) (VMap NewMap) (0 :: nat) = (Inr True, 0)"
  by (subst condition_without_fun_calls_null) (simp_all add: demo_runner_def)

end
