(* ===== verification/Target.thy ===== *)
theory Target
  imports Fnmatch Diag
begin

text \<open>
  Target expressions (\<open>internal/target\<close>): the leaf matchers, nodegroup expansion, the tokenizer and
  the recursive-descent parser of the compound grammar, and matching a node. Regular expressions
  (\<open>internal/regexcompat\<close>) and \<open>net/netip\<close> are parameters.
\<close>

subsection \<open>Kinds, nodes and errors\<close>

datatype TKind = TkGlob | TkList | TkRegex | TkGrain | TkGrainRegex | TkPillar | TkPillarRegex
  | TkSubnet | TkNodegroup | TkCompound

fun TKind_String :: "TKind \<Rightarrow> string" where
  "TKind_String TkGlob = ''glob''"
| "TKind_String TkList = ''list''"
| "TKind_String TkRegex = ''pcre''"
| "TKind_String TkGrain = ''grain''"
| "TKind_String TkGrainRegex = ''grain_pcre''"
| "TKind_String TkPillar = ''pillar''"
| "TKind_String TkPillarRegex = ''pillar_pcre''"
| "TKind_String TkSubnet = ''ipcidr''"
| "TKind_String TkNodegroup = ''nodegroup''"
| "TKind_String TkCompound = ''compound''"

definition kindLetters :: "(string, TKind) gomap" where
  "kindLetters =
     [(''G'', TkGrain), (''P'', TkGrainRegex), (''I'', TkPillar), (''J'', TkPillarRegex),
      (''L'', TkList), (''S'', TkSubnet), (''E'', TkRegex), (''N'', TkNodegroup)]"

definition KindFromFlag :: "string \<Rightarrow> TKind option" where
  "KindFromFlag flag =
     (if flag \<in> set [[], ''glob''] then Some TkGlob
      else if flag \<in> set [''L'', ''list''] then Some TkList
      else if flag \<in> set [''E'', ''pcre''] then Some TkRegex
      else if flag \<in> set [''G'', ''grain''] then Some TkGrain
      else if flag \<in> set [''P'', ''grain_pcre''] then Some TkGrainRegex
      else if flag \<in> set [''I'', ''pillar''] then Some TkPillar
      else if flag \<in> set [''J'', ''pillar_pcre''] then Some TkPillarRegex
      else if flag \<in> set [''S'', ''ipcidr''] then Some TkSubnet
      else if flag \<in> set [''N'', ''nodegroup''] then Some TkNodegroup
      else if flag \<in> set [''C'', ''compound''] then Some TkCompound
      else None)"

record Node =
  nd_ID :: string
  nd_Grains :: "vmap option"
  nd_Pillar :: "vmap option"
  nd_LoadPillar :: "vmap option option"   \<comment> \<open>the loader and what it returns\<close>

record Term =
  tm_Kind :: TKind
  tm_Key :: string

type_synonym Nodegroups = "(string, string) gomap"

record terror =
  te_Expr :: string
  te_Col :: nat
  te_Msg :: "string \<times> fmt_arg list"

definition mk_error :: "string \<Rightarrow> nat \<Rightarrow> string \<Rightarrow> fmt_arg list \<Rightarrow> terror" where
  "mk_error expr col fmt args = \<lparr>te_Expr = expr, te_Col = col, te_Msg = (fmt, args)\<rparr>"

definition terror_Error :: "terror \<Rightarrow> fmt_arg" where
  "terror_Error e =
     (if te_Col e > 0 then FErr ''target expression %q: column %d: %s''
        [FStr (te_Expr e), FInt (int (te_Col e)), FErr (fst (te_Msg e)) (snd (te_Msg e))]
      else FErr ''target expression %q: %s'' [FStr (te_Expr e), FErr (fst (te_Msg e)) (snd (te_Msg e))])"

definition withCol :: "terror \<Rightarrow> nat \<Rightarrow> terror" where
  "withCol e col = (if te_Col e = 0 then e\<lparr>te_Col := col\<rparr> else e)"

text \<open>What the matchers take from outside the package.\<close>

record target_env =
  tv_rt :: go_runtime
  tv_Regexp :: "string \<Rightarrow> string + (string \<Rightarrow> bool)"
    \<comment> \<open>\<open>regexcompat.Compile\<close>: an error text or the search it does\<close>
  tv_ParseAddr :: "string \<Rightarrow> (bool \<times> string) option"
    \<comment> \<open>\<open>netip.ParseAddr\<close>: whether it is IPv4, and its canonical text\<close>
  tv_ParsePrefix :: "string \<Rightarrow> (bool \<times> string) option"
    \<comment> \<open>\<open>netip.ParsePrefix\<close> and \<open>Masked\<close>: whether it is IPv4, and the network\<close>
  tv_Contains :: "string \<Rightarrow> string \<Rightarrow> bool"
    \<comment> \<open>the network holds the address, parsed and without its zone\<close>

subsection \<open>Leaf matchers\<close>

definition elide :: "string \<Rightarrow> string" where
  "elide expr =
     (if length expr \<le> 64 then expr
      else take 64 expr @ ''... ('' @ format_int (int (length expr)) @ '' bytes)'')"

definition maxPatternBytes :: int where "maxPatternBytes = 32768"

definition MaxExprLen :: int where "MaxExprLen = 1048576"

text \<open>Spending leaves what is left, or fails.\<close>

definition spend :: "string \<Rightarrow> nat \<Rightarrow> int \<Rightarrow> terror + int" where
  "spend expr n left =
     (if int n > left then
        Inl (mk_error (elide expr) 0
          ''the expression's globs and regular expressions exceed the budget of %d bytes for one target''
          [FInt maxPatternBytes])
      else Inr (left - int n))"

definition fnm_error_text :: "fnm_error \<Rightarrow> fmt_arg" where
  "fnm_error_text e =
     (case e of
        ErrTooLong n \<Rightarrow> FErr ''%w: %d bytes, and the limit is %d''
          [FStr ''the glob is too long'', FInt (int n), FInt (int MaxPatternLen)]
      | ErrCompile n \<Rightarrow> FErr ''a glob of %d bytes is too large to compile'' [FInt (int n)]
      | Panic \<Rightarrow> FStr [])"

definition compileGlob :: "target_env \<Rightarrow> string \<Rightarrow> string \<Rightarrow> int \<Rightarrow> terror + (string \<Rightarrow> bool) \<times> int" where
  "compileGlob v expr pattern left =
     (if pattern = ''*'' then Inr (\<lambda>_. True, left)
      else case Compile (tv_rt v) pattern of
        Inl e \<Rightarrow> Inl (mk_error (elide expr) 0 ''%v'' [fnm_error_text e])
      | Inr p \<Rightarrow>
          if IsLiteral pattern then Inr (Pattern_Match p, left)
          else case spend expr (length pattern) left of
                 Inl e \<Rightarrow> Inl e
               | Inr left' \<Rightarrow> Inr (Pattern_Match p, left'))"

definition ListIDs :: "string \<Rightarrow> string list" where
  "ListIDs expr = filter (\<lambda>x. x \<noteq> []) (map trim_space (str_split expr '',''))"

definition last_index :: "char \<Rightarrow> string \<Rightarrow> nat option" where
  "last_index c s = (case positions (\<lambda>x. x = c) s of [] \<Rightarrow> None | ps \<Rightarrow> Some (last ps))"

definition splitKeyValue :: "string \<Rightarrow> terror + string \<times> string" where
  "splitKeyValue expr =
     (case last_index (CHR '':'') expr of
        None \<Rightarrow> Inr (expr, ''*'')
      | Some i \<Rightarrow>
          if take i expr = [] then Inl (mk_error expr 0 ''the grain or pillar name is empty'' [])
          else Inr (take i expr, drop (i + 1) expr))"

definition leafKey :: "TKind \<Rightarrow> string \<Rightarrow> string" where
  "leafKey kind expr =
     (if kind \<in> set [TkGrain, TkGrainRegex, TkPillar, TkPillarRegex] then
        (case splitKeyValue expr of Inl _ \<Rightarrow> [] | Inr (k, _) \<Rightarrow> k)
      else [])"

text \<open>Every reading of the expression as a path and a pattern, the last colon first.\<close>

definition splitCandidates :: "string \<Rightarrow> terror + (string \<times> string) list" where
  "splitCandidates expr =
     (if CHR '':'' \<notin> set expr then Inr [(expr, ''*'')]
      else
        let out = map (\<lambda>i. (take i expr, drop (i + 1) expr))
                    (filter (\<lambda>i. i \<noteq> 0) (rev (positions (\<lambda>x. x = CHR '':'') expr)))
        in if length out = 0 then Inl (mk_error expr 0 ''the grain or pillar name is empty'' [])
           else Inr out)"

text \<open>The compiled leaves, by what they consult.\<close>

datatype leaf =
    LGlob "string \<Rightarrow> bool"
  | LList "string list"
  | LRegex "string \<Rightarrow> bool"
  | LKey bool "(string \<times> (string \<Rightarrow> bool)) list"          \<comment> \<open>pillar or grains; the readings\<close>
  | LKeyRegex bool "(string \<times> (string \<Rightarrow> bool) option) list"
  | LAddr string string                                    \<comment> \<open>the grain and the address\<close>
  | LNet string string                                     \<comment> \<open>the grain and the network\<close>

fun compile_globs ::
  "target_env \<Rightarrow> string \<Rightarrow> (string \<times> string) list \<Rightarrow> int \<Rightarrow> terror + (string \<times> (string \<Rightarrow> bool)) list \<times> int" where
  "compile_globs v expr [] left = Inr ([], left)"
| "compile_globs v expr ((k, p) # cands) left =
     (case compileGlob v expr p left of
        Inl e \<Rightarrow> Inl e
      | Inr (g, left1) \<Rightarrow>
          (case compile_globs v expr cands left1 of
             Inl e \<Rightarrow> Inl e
           | Inr (gs, left2) \<Rightarrow> Inr ((k, g) # gs, left2)))"

text \<open>Only the first reading's pattern has to compile.\<close>

fun compile_regexps ::
  "target_env \<Rightarrow> string \<Rightarrow> bool \<Rightarrow> (string \<times> string) list \<Rightarrow> int
     \<Rightarrow> terror + (string \<times> (string \<Rightarrow> bool) option) list \<times> int" where
  "compile_regexps v expr is_first [] left = Inr ([], left)"
| "compile_regexps v expr is_first ((k, p) # cands) left =
     (case spend expr (length p) left of
        Inl e \<Rightarrow> Inl e
      | Inr left1 \<Rightarrow>
          (let re = (case tv_Regexp v p of Inl _ \<Rightarrow> None | Inr f \<Rightarrow> Some f) in
           case (is_first, tv_Regexp v p) of
             (True, Inl err) \<Rightarrow> Inl (mk_error expr 0 ''%v'' [FStr err])
           | _ \<Rightarrow>
               (case compile_regexps v expr False cands left1 of
                  Inl e \<Rightarrow> Inl e
                | Inr (rs, left2) \<Rightarrow> Inr ((k, re) # rs, left2))))"

definition addressGrain :: "bool \<Rightarrow> string" where
  "addressGrain is4 = (if is4 then ''ipv4'' else ''ipv6'')"

definition compileSubnet :: "target_env \<Rightarrow> string \<Rightarrow> terror + leaf" where
  "compileSubnet v expr =
     (case tv_ParseAddr v expr of
        Some (is4, want) \<Rightarrow> Inr (LAddr (addressGrain is4) want)
      | None \<Rightarrow>
          (case tv_ParsePrefix v expr of
             None \<Rightarrow> Inl (mk_error expr 0 ''%q is neither an address nor a network'' [FStr expr])
           | Some (is4, net) \<Rightarrow> Inr (LNet (addressGrain is4) net)))"

definition compileLeaf :: "target_env \<Rightarrow> TKind \<Rightarrow> string \<Rightarrow> int \<Rightarrow> terror + leaf \<times> int" where
  "compileLeaf v kind expr left =
     (case kind of
        TkGlob \<Rightarrow>
          (case compileGlob v expr expr left of Inl e \<Rightarrow> Inl e | Inr (g, left1) \<Rightarrow> Inr (LGlob g, left1))
      | TkList \<Rightarrow> Inr (LList (ListIDs expr), left)
      | TkRegex \<Rightarrow>
          (case spend expr (length expr) left of
             Inl e \<Rightarrow> Inl e
           | Inr left1 \<Rightarrow>
               (case tv_Regexp v expr of
                  Inl err \<Rightarrow> Inl (mk_error expr 0 ''%v'' [FStr err])
                | Inr f \<Rightarrow> Inr (LRegex f, left1)))
      | TkSubnet \<Rightarrow> (case compileSubnet v expr of Inl e \<Rightarrow> Inl e | Inr l \<Rightarrow> Inr (l, left))
      | _ \<Rightarrow>
          if kind \<in> set [TkGrain, TkPillar] then
            (case splitCandidates expr of
               Inl e \<Rightarrow> Inl e
             | Inr cands \<Rightarrow>
                 (case compile_globs v expr cands left of
                    Inl e \<Rightarrow> Inl e | Inr (gs, left1) \<Rightarrow> Inr (LKey (kind = TkPillar) gs, left1)))
          else if kind \<in> set [TkGrainRegex, TkPillarRegex] then
            (case splitCandidates expr of
               Inl e \<Rightarrow> Inl e
             | Inr cands \<Rightarrow>
                 (case compile_regexps v expr True cands left of
                    Inl e \<Rightarrow> Inl e | Inr (rs, left1) \<Rightarrow> Inr (LKeyRegex (kind = TkPillarRegex) rs, left1)))
          else Inl (mk_error expr 0 ''unsupported target type'' []))"

subsection \<open>Matching\<close>

definition pickGrains :: "Node \<Rightarrow> val" where
  "pickGrains n = VMap (case nd_Grains n of None \<Rightarrow> NewMap | Some m \<Rightarrow> m)"

definition pickPillar :: "Node \<Rightarrow> val" where
  "pickPillar n =
     (case nd_LoadPillar n of
        Some (Some m) \<Rightarrow> VMap m
      | Some None \<Rightarrow> VMap NewMap
      | None \<Rightarrow> VMap (case nd_Pillar n of None \<Rightarrow> NewMap | Some m \<Rightarrow> m))"

definition matchScalarOrList :: "target_env \<Rightarrow> val \<Rightarrow> (string \<Rightarrow> bool) \<Rightarrow> bool" where
  "matchScalarOrList v x pred =
     (case x of
        VSeq items \<Rightarrow> list_ex (\<lambda>item. pred (KeyString_any (rt_sprint (tv_rt v)) item)) items
      | VMap _ \<Rightarrow> False
      | _ \<Rightarrow> pred (KeyString_any (rt_sprint (tv_rt v)) x))"

definition key_match :: "target_env \<Rightarrow> val \<Rightarrow> string \<Rightarrow> (string \<Rightarrow> bool) \<Rightarrow> bool" where
  "key_match v root key pred =
     (case Traverse root key '':'' of None \<Rightarrow> False | Some x \<Rightarrow> matchScalarOrList v x pred)"

definition anyGrainAddress :: "Node \<Rightarrow> string \<Rightarrow> (string \<Rightarrow> bool) \<Rightarrow> bool" where
  "anyGrainAddress n key pred =
     (case nd_Grains n of
        None \<Rightarrow> False
      | Some m \<Rightarrow>
          (case Map_Get m (KStr key) of
             Some (VSeq items) \<Rightarrow> list_ex (\<lambda>item. case item of VStr s \<Rightarrow> pred s | _ \<Rightarrow> False) items
           | _ \<Rightarrow> False))"

fun leaf_match :: "target_env \<Rightarrow> leaf \<Rightarrow> Node \<Rightarrow> bool" where
  "leaf_match v (LGlob g) n = g (nd_ID n)"
| "leaf_match v (LList ids) n = (nd_ID n \<in> set ids)"
| "leaf_match v (LRegex re) n = re (nd_ID n)"
| "leaf_match v (LKey pillar cands) n =
     list_ex (\<lambda>(k, g). key_match v (if pillar then pickPillar n else pickGrains n) k g) cands"
| "leaf_match v (LKeyRegex pillar cands) n =
     list_ex (\<lambda>(k, re). case re of None \<Rightarrow> False
                       | Some f \<Rightarrow> key_match v (if pillar then pickPillar n else pickGrains n) k f) cands"
| "leaf_match v (LAddr key want) n = anyGrainAddress n key (\<lambda>s. s = want)"
| "leaf_match v (LNet key net) n = anyGrainAddress n key (tv_Contains v net)"

datatype tnode = Leaf leaf | AnyNode "tnode list" | AllNode "tnode list" | NotNode tnode

fun node_match :: "target_env \<Rightarrow> tnode \<Rightarrow> Node \<Rightarrow> bool" where
  "node_match v (Leaf l) n = leaf_match v l n"
| "node_match v (AnyNode xs) n = list_ex (\<lambda>x. node_match v x n) xs"
| "node_match v (AllNode xs) n = list_all (\<lambda>x. node_match v x n) xs"
| "node_match v (NotNode x) n = (\<not> node_match v x n)"

subsection \<open>Nodegroups\<close>

definition ends_name :: "char \<Rightarrow> bool" where
  "ends_name c \<longleftrightarrow> c = CHR '' '' \<or> c = CHR '')'' \<or> c = CHR ''(''"

text \<open>The first number counts the levels left below the limit of ten.\<close>

function resolveNodegroup :: "Nodegroups \<Rightarrow> nat \<Rightarrow> string \<Rightarrow> string list \<Rightarrow> terror + string"
  and expand_refs :: "Nodegroups \<Rightarrow> nat \<Rightarrow> string list \<Rightarrow> string \<Rightarrow> terror + string" where
  "resolveNodegroup groups 0 name seen =
     Inl (mk_error name 0 ''nodegroup references nest deeper than %d levels'' [FInt 10])"
| "resolveNodegroup groups (Suc left) name seen =
     (if name \<in> set seen then
        Inl (mk_error name 0 ''nodegroup cycle: %s -> %s'' [FStr (str_join '' -> '' seen), FStr name])
      else case gomap_get groups name of
        None \<Rightarrow> Inl (mk_error name 0 ''nodegroup %q is not defined'' [FStr name])
      | Some expr \<Rightarrow> expand_refs groups left (seen @ [name]) expr)"
| "expand_refs groups left seen [] = Inr []"
| "expand_refs groups left seen (c # cs) =
     (if c = CHR ''N'' \<and> cs \<noteq> [] \<and> hd cs = CHR ''@'' then
        (let name = takeWhile (\<lambda>x. \<not> ends_name x) (tl cs); rest = dropWhile (\<lambda>x. \<not> ends_name x) (tl cs) in
         case resolveNodegroup groups left name seen of
           Inl e \<Rightarrow> Inl e
         | Inr inner \<Rightarrow>
             (case expand_refs groups left seen rest of
                Inl e \<Rightarrow> Inl e
              | Inr out \<Rightarrow> Inr (''( '' @ inner @ '' )'' @ out)))
      else
        (case expand_refs groups left seen cs of Inl e \<Rightarrow> Inl e | Inr out \<Rightarrow> Inr (c # out)))"
  by pat_completeness auto
termination
  by (relation "measures [\<lambda>x. case x of Inl (_, left, _) \<Rightarrow> left | Inr (_, left, _) \<Rightarrow> left,
      \<lambda>x. case x of Inl _ \<Rightarrow> 0 | Inr (_, _, _, rest) \<Rightarrow> Suc (length rest)]")
    (auto simp: less_Suc_eq_le intro: le_trans [OF length_dropWhile_le])

definition nodegroup_levels :: nat where "nodegroup_levels = 11"

subsection \<open>Tokens\<close>

record token =
  tk_text :: string
  tk_col :: nat

text \<open>\<open>start\<close> and \<open>depth\<close> of the token being read, and the tokens so far.\<close>

record tok_state =
  ts_start :: "nat option"
  ts_depth :: nat
  ts_toks :: "token list"

definition tok_flush :: "string \<Rightarrow> nat \<Rightarrow> tok_state \<Rightarrow> tok_state" where
  "tok_flush src stop st =
     (case ts_start st of
        None \<Rightarrow> st
      | Some start \<Rightarrow>
          \<lparr>ts_start = None, ts_depth = 0,
           ts_toks = ts_toks st @ [\<lparr>tk_text = take (stop - start) (drop start src), tk_col = start + 1\<rparr>]\<rparr>)"

definition tok_paren :: "char \<Rightarrow> nat \<Rightarrow> tok_state \<Rightarrow> tok_state" where
  "tok_paren c i st = st\<lparr>ts_toks := ts_toks st @ [\<lparr>tk_text = [c], tk_col = i + 1\<rparr>]\<rparr>"

definition tok_step :: "string \<Rightarrow> tok_state \<Rightarrow> nat \<Rightarrow> tok_state" where
  "tok_step src st i =
     (let c = src ! i in
      if c = CHR '' '' \<or> c = CHR 0x09 then (if ts_depth st > 0 then st else tok_flush src i st)
      else if c = CHR ''('' \<and> ts_start st = None then tok_paren c i st
      else if c = CHR ''('' then st\<lparr>ts_depth := ts_depth st + 1\<rparr>
      else if c = CHR '')'' \<and> ts_depth st > 0 then st\<lparr>ts_depth := ts_depth st - 1\<rparr>
      else if c = CHR '')'' then tok_paren c i (tok_flush src i st)
      else if ts_start st = None then st\<lparr>ts_start := Some i\<rparr>
      else st)"

definition tokenize :: "string \<Rightarrow> token list" where
  "tokenize src =
     ts_toks (tok_flush src (length src)
       (foldl (tok_step src) \<lparr>ts_start = None, ts_depth = 0, ts_toks = []\<rparr> [0..<length src]))"

subsection \<open>The parser\<close>

text \<open>
  The tokens from the parser's position on, the nesting, the terms so far and what is left of the
  budget. The parsing functions take fuel; \<open>None\<close> is running out of it.
\<close>

record pstate =
  ps_toks :: "token list"
  ps_depth :: nat
  ps_terms :: "Term list"
  ps_left :: int

type_synonym 'a presult = "(terror + 'a \<times> pstate) option"

text \<open>What a parser keeps unchanged: its source, all its tokens, and how it compiles a term.\<close>

record parser =
  pa_src :: string
  pa_all :: "token list"
  pa_term :: "token \<Rightarrow> pstate \<Rightarrow> tnode presult"

definition p_bind :: "'a presult \<Rightarrow> ('a \<Rightarrow> pstate \<Rightarrow> 'b presult) \<Rightarrow> 'b presult" where
  "p_bind r f =
     (case r of None \<Rightarrow> None | Some (Inl e) \<Rightarrow> Some (Inl e) | Some (Inr (x, st)) \<Rightarrow> f x st)"

definition p_error :: "parser \<Rightarrow> nat \<Rightarrow> string \<Rightarrow> fmt_arg list \<Rightarrow> 'a presult" where
  "p_error p col fmt args = Some (Inl (mk_error (pa_src p) col fmt args))"

definition maxCompoundDepth :: nat where "maxCompoundDepth = 100"

definition enter :: "parser \<Rightarrow> token \<Rightarrow> pstate \<Rightarrow> unit presult" where
  "enter p t st =
     (if ps_depth st \<ge> maxCompoundDepth then
        p_error p (tk_col t) ''the expression nests deeper than %d levels of `(` and `not`''
          [FInt (int maxCompoundDepth)]
      else Some (Inr ((), st\<lparr>ps_depth := ps_depth st + 1\<rparr>)))"

definition leave :: "pstate \<Rightarrow> pstate" where
  "leave st = st\<lparr>ps_depth := ps_depth st - 1\<rparr>"

definition advance :: "pstate \<Rightarrow> pstate" where
  "advance st = st\<lparr>ps_toks := tl (ps_toks st)\<rparr>"

definition peek_is :: "string \<Rightarrow> pstate \<Rightarrow> bool" where
  "peek_is word st = (case ps_toks st of [] \<Rightarrow> False | t # _ \<Rightarrow> equal_fold (tk_text t) word)"

definition end_col :: "parser \<Rightarrow> nat" where
  "end_col p =
     (if length (pa_all p) > 0 then tk_col (last (pa_all p)) + length (tk_text (last (pa_all p)))
      else length (pa_src p) + 1)"

fun parseOr :: "parser \<Rightarrow> nat \<Rightarrow> pstate \<Rightarrow> tnode presult"
  and orLoop :: "parser \<Rightarrow> nat \<Rightarrow> tnode list \<Rightarrow> pstate \<Rightarrow> tnode list presult"
  and parseAnd :: "parser \<Rightarrow> nat \<Rightarrow> pstate \<Rightarrow> tnode presult"
  and andLoop :: "parser \<Rightarrow> nat \<Rightarrow> tnode list \<Rightarrow> pstate \<Rightarrow> tnode list presult"
  and parseNot :: "parser \<Rightarrow> nat \<Rightarrow> pstate \<Rightarrow> tnode presult"
  and parsePrimary :: "parser \<Rightarrow> nat \<Rightarrow> pstate \<Rightarrow> tnode presult" where
  "parseOr p 0 st = None"
| "parseOr p (Suc k) st =
     p_bind (parseAnd p k st) (\<lambda>first st1. p_bind (orLoop p k [first] st1) (\<lambda>terms st2.
       Some (Inr (if length terms = 1 then first else AnyNode terms, st2))))"
| "orLoop p 0 terms st = None"
| "orLoop p (Suc k) terms st =
     (if \<not> peek_is ''or'' st then Some (Inr (terms, st))
      else p_bind (parseAnd p k (advance st)) (\<lambda>right st1. orLoop p k (terms @ [right]) st1))"
| "parseAnd p 0 st = None"
| "parseAnd p (Suc k) st =
     p_bind (parseNot p k st) (\<lambda>first st1. p_bind (andLoop p k [first] st1) (\<lambda>terms st2.
       Some (Inr (if length terms = 1 then first else AllNode terms, st2))))"
| "andLoop p 0 terms st = None"
| "andLoop p (Suc k) terms st =
     (if \<not> peek_is ''and'' st then Some (Inr (terms, st))
      else p_bind (parseNot p k (advance st)) (\<lambda>right st1. andLoop p k (terms @ [right]) st1))"
| "parseNot p 0 st = None"
| "parseNot p (Suc k) st =
     (if peek_is ''not'' st then
        p_bind (enter p (hd (ps_toks st)) st) (\<lambda>_ st1.
          p_bind (parseNot p k (advance st1)) (\<lambda>inner st2. Some (Inr (NotNode inner, leave st2))))
      else parsePrimary p k st)"
| "parsePrimary p 0 st = None"
| "parsePrimary p (Suc k) st =
     (case ps_toks st of
        [] \<Rightarrow> p_error p (end_col p) ''the expression ends where a target was expected'' []
      | t # _ \<Rightarrow>
          if tk_text t = ''('' then
            p_bind (enter p t st) (\<lambda>_ st1. p_bind (parseOr p k (advance st1)) (\<lambda>inner st2.
              let st3 = leave st2 in
              if ps_toks st3 = [] \<or> tk_text (hd (ps_toks st3)) \<noteq> '')'' then
                p_error p (tk_col t) ''this `(` is never closed'' []
              else Some (Inr (inner, advance st3))))
          else if tk_text t = '')'' then p_error p (tk_col t) ''unmatched `)`'' []
          else if peek_is ''and'' st \<or> peek_is ''or'' st then
            p_error p (tk_col t) ''%q needs a target on its left'' [FStr (tk_text t)]
          else pa_term p t (advance st))"

definition add_leaf ::
  "target_env \<Rightarrow> nat \<Rightarrow> TKind \<Rightarrow> string \<Rightarrow> string \<Rightarrow> pstate \<Rightarrow> tnode presult" where
  "add_leaf v col kind expr key st =
     (case compileLeaf v kind expr (ps_left st) of
        Inl e \<Rightarrow> Some (Inl (withCol e col))
      | Inr (l, left1) \<Rightarrow>
          Some (Inr (Leaf l, st\<lparr>ps_terms := ps_terms st @ [\<lparr>tm_Kind = kind, tm_Key = key\<rparr>], ps_left := left1\<rparr>)))"

text \<open>
  The parser of a nodegroup's expansion is a parameter: it gives the tree, its terms and what is left
  of the budget.
\<close>

type_synonym sub_parser = "string \<Rightarrow> int \<Rightarrow> (terror + tnode \<times> Term list \<times> int) option"

definition compileTerm ::
  "target_env \<Rightarrow> Nodegroups \<Rightarrow> sub_parser \<Rightarrow> string \<Rightarrow> token \<Rightarrow> pstate \<Rightarrow> tnode presult" where
  "compileTerm v groups sub src t st =
     (let as_glob = add_leaf v (tk_col t) TkGlob (tk_text t) [] st in
      case index_byte (tk_text t) (CHR ''@'') of
        None \<Rightarrow> as_glob
      | Some at \<Rightarrow>
          if at = 0 then as_glob
          else
            let letter = take at (tk_text t); rest = drop (at + 1) (tk_text t) in
            case gomap_get kindLetters letter of
              None \<Rightarrow> as_glob
            | Some kind \<Rightarrow>
                if rest = [] then
                  Some (Inl (mk_error src (tk_col t) ''%s@ has no value'' [FStr letter]))
                else if kind = TkNodegroup then
                  (case resolveNodegroup groups nodegroup_levels rest [] of
                     Inl e \<Rightarrow> Some (Inl (withCol e (tk_col t)))
                   | Inr expanded \<Rightarrow>
                       (case sub expanded (ps_left st) of
                          None \<Rightarrow> None
                        | Some (Inl e) \<Rightarrow> Some (Inl e)
                        | Some (Inr (n, terms, left1)) \<Rightarrow>
                            Some (Inr (n, st\<lparr>ps_terms := ps_terms st @ terms, ps_left := left1\<rparr>))))
                else add_leaf v (tk_col t) kind rest (leafKey kind rest) st)"

definition parse_fuel :: "token list \<Rightarrow> nat" where
  "parse_fuel toks = 4 * length toks + 4"

definition parse_with :: "target_env \<Rightarrow> Nodegroups \<Rightarrow> sub_parser \<Rightarrow> sub_parser" where
  "parse_with v groups sub src left =
     (let toks = tokenize src;
          p = \<lparr>pa_src = src, pa_all = toks, pa_term = compileTerm v groups sub src\<rparr> in
      if length toks = 0 then Some (Inl (mk_error src 0 ''the expression is empty'' []))
      else case parseOr p (parse_fuel toks) \<lparr>ps_toks = toks, ps_depth = 0, ps_terms = [], ps_left = left\<rparr> of
        None \<Rightarrow> None
      | Some (Inl e) \<Rightarrow> Some (Inl e)
      | Some (Inr (n, st)) \<Rightarrow>
          (case ps_toks st of
             [] \<Rightarrow> Some (Inr (n, ps_terms st, ps_left st))
           | t # _ \<Rightarrow>
               Some (Inl (if tk_text t = '')'' then mk_error src (tk_col t) ''unmatched `)`'' []
                          else mk_error src (tk_col t) ''unexpected %q'' [FStr (tk_text t)]))))"

text \<open>
  A term \<open>N@group\<close> starts a second parser on the expansion. A third one has no model: it gives
  \<open>None\<close>, and is shown never to be asked for.
\<close>

definition parse :: "target_env \<Rightarrow> Nodegroups \<Rightarrow> sub_parser" where
  "parse v groups = parse_with v groups (parse_with v groups (\<lambda>_ _. None))"

subsection \<open>Compiling a target\<close>

record Matcher =
  mt_kind :: TKind
  mt_expr :: string
  mt_ast :: tnode
  mt_group :: Nodegroups
  mt_terms :: "Term list"

definition parsed_matcher ::
  "TKind \<Rightarrow> string \<Rightarrow> Nodegroups \<Rightarrow> (terror + tnode \<times> Term list \<times> int) option \<Rightarrow> (terror + Matcher) option" where
  "parsed_matcher kind expr groups r =
     (case r of
        None \<Rightarrow> None
      | Some (Inl e) \<Rightarrow> Some (Inl e)
      | Some (Inr (ast, terms, _)) \<Rightarrow>
          Some (Inr \<lparr>mt_kind = kind, mt_expr = expr, mt_ast = ast, mt_group = groups, mt_terms = terms\<rparr>))"

definition target_Compile :: "target_env \<Rightarrow> TKind \<Rightarrow> string \<Rightarrow> Nodegroups \<Rightarrow> (terror + Matcher) option" where
  "target_Compile v kind expr groups =
     (if int (length expr) > MaxExprLen then
        Some (Inl (mk_error (elide expr) 0 ''the expression is %d bytes; the limit is %d''
          [FInt (int (length expr)), FInt MaxExprLen]))
      else if kind = TkCompound then
        parsed_matcher kind expr groups (parse v groups expr maxPatternBytes)
      else if kind = TkNodegroup then
        (case resolveNodegroup groups nodegroup_levels expr [] of
           Inl e \<Rightarrow> Some (Inl e)
         | Inr resolved \<Rightarrow> parsed_matcher kind expr groups (parse v groups resolved maxPatternBytes))
      else
        (case compileLeaf v kind expr maxPatternBytes of
           Inl e \<Rightarrow> Some (Inl e)
         | Inr (l, _) \<Rightarrow>
             Some (Inr \<lparr>mt_kind = kind, mt_expr = expr, mt_ast = Leaf l, mt_group = groups,
                        mt_terms = [\<lparr>tm_Kind = kind, tm_Key = leafKey kind expr\<rparr>]\<rparr>)))"

definition Matcher_Match :: "target_env \<Rightarrow> Matcher \<Rightarrow> Node \<Rightarrow> bool" where
  "Matcher_Match v m n = node_match v (mt_ast m) n"

text \<open>\<open>strings.FieldsSeq\<close>: the runs of anything but space.\<close>

function fields_aux :: "string \<Rightarrow> string \<Rightarrow> string list" where
  "fields_aux acc s =
     (if s = [] then (if acc = [] then [] else [rev acc])
      else case find (has_prefix s) space_runes of
        Some r \<Rightarrow> (if acc = [] then [] else [rev acc]) @ fields_aux [] (drop (max 1 (length r)) s)
      | None \<Rightarrow> fields_aux (hd s # acc) (tl s))"
  by pat_completeness auto
termination
  by (relation "measure (\<lambda>(acc, s). length s)") (auto simp: neq_Nil_conv)

declare fields_aux.simps [simp del]

definition looksCompound :: "string \<Rightarrow> bool" where
  "looksCompound expr =
     (if contains_any expr ''()'' then True
      else list_ex (\<lambda>word.
        if word \<in> set [''and'', ''or'', ''not''] then True
        else case index_byte word (CHR ''@'') of
          None \<Rightarrow> False
        | Some i \<Rightarrow> i > 0 \<and> gomap_get kindLetters (take i word) \<noteq> None) (fields_aux [] expr))"

definition CompileAuto :: "target_env \<Rightarrow> string \<Rightarrow> Nodegroups \<Rightarrow> (terror + Matcher) option" where
  "CompileAuto v expr groups =
     (if looksCompound expr then target_Compile v TkCompound expr groups
      else target_Compile v TkGlob expr groups)"

text \<open>The insertion sort of the package: element \<open>j\<close> moves down while it is smaller.\<close>

fun sort_down :: "nat \<Rightarrow> string list \<Rightarrow> string list" where
  "sort_down 0 s = s"
| "sort_down (Suc j) s =
     (if s ! Suc j < s ! j then sort_down j (s[Suc j := s ! j, j := s ! Suc j]) else s)"

definition sortStrings :: "string list \<Rightarrow> string list" where
  "sortStrings s = foldl (\<lambda>s i. sort_down i s) s [1..<length s]"

fun validate_groups :: "target_env \<Rightarrow> Nodegroups \<Rightarrow> string list \<Rightarrow> fmt_arg option option" where
  "validate_groups v groups [] = Some None"
| "validate_groups v groups (name # names) =
     (case resolveNodegroup groups nodegroup_levels name [] of
        Inl e \<Rightarrow> Some (Some (terror_Error e))
      | Inr expanded \<Rightarrow>
          (case parse v groups expanded maxPatternBytes of
             None \<Rightarrow> None
           | Some (Inl e) \<Rightarrow> Some (Some (FErr ''nodegroup %q: %w'' [FStr name, terror_Error e]))
           | Some (Inr _) \<Rightarrow> validate_groups v groups names))"

definition ValidateNodegroups :: "target_env \<Rightarrow> Nodegroups \<Rightarrow> fmt_arg option option" where
  "ValidateNodegroups v groups = validate_groups v groups (sortStrings (map fst groups))"

end
