(* ===== verification/Targeting.thy ===== *)
theory Targeting
  imports Target "HOL-Library.Sublist"
begin

text \<open>
  What the target compiler promises: nodegroup expansion leaves no reference behind, the parser
  always ends and reads the documented grammar, the tree it builds is shallow, and the terms it
  reports are all that matching consults.
\<close>

subsection \<open>Nodegroup expansion\<close>

text \<open>No \<open>N@\<close> anywhere in a string.\<close>

fun no_ref :: "string \<Rightarrow> bool" where
  "no_ref [] = True"
| "no_ref (c # cs) = (\<not> (c = CHR ''N'' \<and> cs \<noteq> [] \<and> hd cs = CHR ''@'') \<and> no_ref cs)"

lemma no_ref_append:
  "no_ref xs \<Longrightarrow> no_ref ys \<Longrightarrow> ys = [] \<or> hd ys \<noteq> CHR ''@'' \<Longrightarrow> no_ref (xs @ ys)"
  by (induction xs) (auto simp: neq_Nil_conv hd_append)

lemma no_ref_appendD: "no_ref (xs @ ys) \<Longrightarrow> no_ref xs \<and> no_ref ys"
  by (induction xs) (auto simp: neq_Nil_conv hd_append)

lemma no_ref_sublist: "sublist xs ys \<Longrightarrow> no_ref ys \<Longrightarrow> no_ref xs"
  by (auto simp: sublist_def dest: no_ref_appendD)

lemma no_ref_wrapped:
  assumes "no_ref inner" and "no_ref out" and "out = [] \<or> hd out \<noteq> CHR ''@''"
  shows "no_ref (''( '' @ inner @ '' )'' @ out)"
proof -
  have "no_ref ('' )'' @ out)" using assms(2,3) by simp
  then have "no_ref (inner @ '' )'' @ out)" by (rule no_ref_append [OF assms(1)]) simp
  then show ?thesis by simp
qed

text \<open>The expansion holds no reference, and starts as the text did or with a parenthesis.\<close>

lemma expand_no_ref:
  "resolveNodegroup groups left name seen = Inr s \<Longrightarrow> no_ref s"
  "expand_refs groups left seen expr = Inr s \<Longrightarrow>
     no_ref s \<and> (s = [] \<or> hd s = CHR ''('' \<or> (expr \<noteq> [] \<and> hd s = hd expr))"
proof (induction groups left name seen and groups left seen expr arbitrary: s and s
    rule: resolveNodegroup_expand_refs.induct)
  case (4 groups left seen c cs)
  show ?case
  proof (cases "c = CHR ''N'' \<and> cs \<noteq> [] \<and> hd cs = CHR ''@''")
    case True
    let ?rest = "dropWhile (\<lambda>x. \<not> ends_name x) (tl cs)"
    from 4(4) True obtain inner out where io:
      "resolveNodegroup groups left (takeWhile (\<lambda>x. \<not> ends_name x) (tl cs)) seen = Inr inner"
      "expand_refs groups left seen ?rest = Inr out" "s = ''( '' @ inner @ '' )'' @ out"
      by (auto simp: Let_def split: sum.splits)
    have "?rest = [] \<or> ends_name (hd ?rest)" using hd_dropWhile [of "\<lambda>x. \<not> ends_name x" "tl cs"] by blast
    then have "?rest = [] \<or> hd ?rest \<noteq> CHR ''@''" by (auto simp: ends_name_def)
    moreover have "no_ref out \<and> (out = [] \<or> hd out = CHR ''('' \<or> (?rest \<noteq> [] \<and> hd out = hd ?rest))"
      using 4(2) True io by blast
    moreover have "no_ref inner" using 4(1) True io(1) by blast
    ultimately have "no_ref s" unfolding io(3) by (intro no_ref_wrapped) auto
    with io(3) show ?thesis by simp
  next
    case False
    with 4(4) obtain out where "expand_refs groups left seen cs = Inr out" "s = c # out"
      by (auto split: sum.splits)
    with 4(3) [OF False] False show ?thesis by auto
  qed
qed (auto split: if_splits option.splits)

definition plain_toks :: "tok_state \<Rightarrow> bool" where
  "plain_toks st = list_all (\<lambda>t. no_ref (tk_text t)) (ts_toks st)"

lemma plain_toks_flush:
  assumes "no_ref src" and "plain_toks st"
  shows "plain_toks (tok_flush src i st)"
proof (cases "ts_start st")
  case (Some b)
  have "sublist (take (i - b) (drop b src)) src"
    using sublist_drop sublist_take by (rule sublist_order.order_trans [rotated])
  then have "no_ref (take (i - b) (drop b src))" using assms(1) by (rule no_ref_sublist)
  with assms(2) Some show ?thesis by (simp add: tok_flush_def plain_toks_def)
qed (use assms in \<open>simp add: tok_flush_def\<close>)

lemma plain_toks_paren: "plain_toks st \<Longrightarrow> plain_toks (tok_paren c i st)"
  by (simp add: plain_toks_def tok_paren_def)

lemma plain_toks_upd [simp]:
  "plain_toks (st\<lparr>ts_depth := d\<rparr>) = plain_toks st" "plain_toks (st\<lparr>ts_start := b\<rparr>) = plain_toks st"
  by (simp_all add: plain_toks_def)

lemma plain_toks_step: "no_ref src \<Longrightarrow> plain_toks st \<Longrightarrow> plain_toks (tok_step src st i)"
  by (simp add: tok_step_def Let_def plain_toks_flush plain_toks_paren)

lemma tokenize_no_ref:
  assumes "no_ref src"
  shows "list_all (\<lambda>t. no_ref (tk_text t)) (tokenize src)"
proof -
  let ?st = "\<lparr>ts_start = None, ts_depth = 0, ts_toks = []\<rparr>"
  have "plain_toks (foldl (tok_step src) ?st [0..<length src])"
    by (rule foldl_invariant [of plain_toks]) (simp_all add: plain_toks_step assms, simp add: plain_toks_def)
  from plain_toks_flush [OF assms this] show ?thesis by (simp only: tokenize_def plain_toks_def)
qed

subsection \<open>The grammar\<close>

text \<open>
  The documented grammar, as derivations of a token list: the category, the enclosing levels of
  parenthesis and \<open>not\<close>, the tokens, the trees and the terms. A term of the grammar is what the
  relation \<open>Y\<close> says one token compiles to. The chains \<open>CAnds\<close> and \<open>COrs\<close> carry the list of their
  members.
\<close>

datatype cat = CPrimary | CNot | CAnds | CAnd | COrs | COr

definition plain_word :: "token \<Rightarrow> bool" where
  "plain_word t \<longleftrightarrow> tk_text t \<noteq> ''('' \<and> tk_text t \<noteq> '')'' \<and>
     \<not> equal_fold (tk_text t) ''and'' \<and> \<not> equal_fold (tk_text t) ''or'' \<and> \<not> equal_fold (tk_text t) ''not''"

definition chain_node :: "(tnode list \<Rightarrow> tnode) \<Rightarrow> tnode list \<Rightarrow> tnode" where
  "chain_node f ns = (if length ns = 1 then hd ns else f ns)"

inductive derives ::
  "(token \<Rightarrow> tnode \<Rightarrow> Term list \<Rightarrow> bool) \<Rightarrow> nat \<Rightarrow> cat \<Rightarrow> token list \<Rightarrow> tnode list \<Rightarrow> Term list \<Rightarrow> bool"
  for Y :: "token \<Rightarrow> tnode \<Rightarrow> Term list \<Rightarrow> bool" where
  prim_term: "plain_word t \<Longrightarrow> Y t n ts \<Longrightarrow> derives Y d CPrimary [t] [n] ts"
| prim_paren: "tk_text a = ''('' \<Longrightarrow> tk_text b = '')'' \<Longrightarrow> d < maxCompoundDepth \<Longrightarrow>
     derives Y (Suc d) COr us [n] ts \<Longrightarrow> derives Y d CPrimary (a # us @ [b]) [n] ts"
| not_prim: "derives Y d CPrimary us [n] ts \<Longrightarrow> derives Y d CNot us [n] ts"
| not_not: "equal_fold (tk_text w) ''not'' \<Longrightarrow> d < maxCompoundDepth \<Longrightarrow>
     derives Y (Suc d) CNot us [n] ts \<Longrightarrow> derives Y d CNot (w # us) [NotNode n] ts"
| ands_one: "derives Y d CNot us [n] ts \<Longrightarrow> derives Y d CAnds us [n] ts"
| ands_more: "derives Y d CAnds us ns ts \<Longrightarrow> equal_fold (tk_text w) ''and'' \<Longrightarrow>
     derives Y d CNot us' [n] ts' \<Longrightarrow> derives Y d CAnds (us @ w # us') (ns @ [n]) (ts @ ts')"
| and_chain: "derives Y d CAnds us ns ts \<Longrightarrow> derives Y d CAnd us [chain_node AllNode ns] ts"
| ors_one: "derives Y d CAnd us [n] ts \<Longrightarrow> derives Y d COrs us [n] ts"
| ors_more: "derives Y d COrs us ns ts \<Longrightarrow> equal_fold (tk_text w) ''or'' \<Longrightarrow>
     derives Y d CAnd us' [n] ts' \<Longrightarrow> derives Y d COrs (us @ w # us') (ns @ [n]) (ts @ ts')"
| or_chain: "derives Y d COrs us ns ts \<Longrightarrow> derives Y d COr us [chain_node AnyNode ns] ts"

text \<open>From one parser state to another: what was consumed derives the trees.\<close>

definition consumed ::
  "(token \<Rightarrow> tnode \<Rightarrow> Term list \<Rightarrow> bool) \<Rightarrow> cat \<Rightarrow> pstate \<Rightarrow> tnode list \<Rightarrow> pstate \<Rightarrow> bool" where
  "consumed Y c st ns st' \<longleftrightarrow> ps_depth st' = ps_depth st \<and>
     (\<exists>us ts. ps_toks st = us @ ps_toks st' \<and> ps_terms st' = ps_terms st @ ts \<and>
        derives Y (ps_depth st) c us ns ts)"

lemma consumed_one:
  "consumed Y CPrimary st [n] st' \<Longrightarrow> consumed Y CNot st [n] st'"
  "consumed Y CNot st [n] st' \<Longrightarrow> consumed Y CAnds st [n] st'"
  "consumed Y CAnds st ns st' \<Longrightarrow> consumed Y CAnd st [chain_node AllNode ns] st'"
  "consumed Y CAnd st [n] st' \<Longrightarrow> consumed Y COrs st [n] st'"
  "consumed Y COrs st ns st' \<Longrightarrow> consumed Y COr st [chain_node AnyNode ns] st'"
  unfolding consumed_def by (blast intro: derives.intros)+

lemma peek_is_Cons:
  assumes "peek_is word st"
  obtains t rest where "ps_toks st = t # rest" and "equal_fold (tk_text t) word"
  using assms by (auto simp: peek_is_def split: list.splits)

lemma advance_simps [simp]:
  "ps_toks (advance st) = tl (ps_toks st)" "ps_depth (advance st) = ps_depth st"
  "ps_terms (advance st) = ps_terms st" "ps_left (advance st) = ps_left st"
  by (simp_all add: advance_def)

lemma leave_simps [simp]:
  "ps_toks (leave st) = ps_toks st" "ps_depth (leave st) = ps_depth st - 1"
  "ps_terms (leave st) = ps_terms st" "ps_left (leave st) = ps_left st"
  by (simp_all add: leave_def)

lemma consumed_more:
  assumes "consumed Y c st ns st1" and "peek_is word st1" and "consumed Y c' (advance st1) [n] st2"
    and "(c, c', word) \<in> {(CAnds, CNot, ''and''), (COrs, CAnd, ''or'')}"
  shows "consumed Y c st (ns @ [n]) st2"
proof -
  from assms(2) obtain w rest where w: "ps_toks st1 = w # rest" "equal_fold (tk_text w) word"
    by (rule peek_is_Cons)
  from assms(1) obtain us ts where 1: "ps_toks st = us @ ps_toks st1" "ps_terms st1 = ps_terms st @ ts"
    "derives Y (ps_depth st) c us ns ts" "ps_depth st1 = ps_depth st" by (auto simp: consumed_def)
  from assms(3) w obtain us' ts' where 2: "rest = us' @ ps_toks st2" "ps_terms st2 = ps_terms st1 @ ts'"
    "derives Y (ps_depth st) c' us' [n] ts'" "ps_depth st2 = ps_depth st" by (auto simp: consumed_def 1(4))
  have "derives Y (ps_depth st) c (us @ w # us') (ns @ [n]) (ts @ ts')"
    using assms(4) w(2) 1(3) 2(3) by (auto intro: derives.intros)
  with 1 2 w show ?thesis unfolding consumed_def by (intro conjI exI [of _ "us @ w # us'"] exI [of _ "ts @ ts'"]) simp_all
qed

lemma p_bind_Some:
  assumes "p_bind r f = Some (Inr z)"
  obtains x st where "r = Some (Inr (x, st))" and "f x st = Some (Inr z)"
  using assms by (auto simp: p_bind_def split: option.splits sum.splits)

lemma p_bind_None:
  assumes "r \<noteq> None" and "\<And>x st. r = Some (Inr (x, st)) \<Longrightarrow> f x st \<noteq> None"
  shows "p_bind r f \<noteq> None"
  using assms by (auto simp: p_bind_def split: option.splits sum.splits)

lemma enter_Some: "enter p t st = Some (Inr (u, st')) \<longleftrightarrow>
    ps_depth st < maxCompoundDepth \<and> st' = st\<lparr>ps_depth := ps_depth st + 1\<rparr>"
  by (auto simp: enter_def p_error_def)

lemma enter_total: "enter p t st \<noteq> None"
  by (simp add: enter_def p_error_def)

subsection \<open>The parser, over any way of compiling a term\<close>

definition sound_at ::
  "(token \<Rightarrow> tnode \<Rightarrow> Term list \<Rightarrow> bool) \<Rightarrow> cat \<Rightarrow> (pstate \<Rightarrow> tnode presult) \<Rightarrow> bool" where
  "sound_at Y c f \<longleftrightarrow> (\<forall>st n st'. f st = Some (Inr (n, st')) \<longrightarrow> consumed Y c st [n] st')"

definition loop_at ::
  "(token \<Rightarrow> tnode \<Rightarrow> Term list \<Rightarrow> bool) \<Rightarrow> cat \<Rightarrow> (tnode list \<Rightarrow> pstate \<Rightarrow> tnode list presult) \<Rightarrow> bool" where
  "loop_at Y c f \<longleftrightarrow> (\<forall>st0 ns0 st ns st'. f ns0 st = Some (Inr (ns, st')) \<longrightarrow> ns0 \<noteq> [] \<longrightarrow> consumed Y c st0 ns0 st \<longrightarrow>
      consumed Y c st0 ns st' \<and> hd ns = hd ns0)"

lemma sound_atD: "sound_at Y c f \<Longrightarrow> f st = Some (Inr (n, st')) \<Longrightarrow> consumed Y c st [n] st'"
  by (simp add: sound_at_def)

lemma loop_atD:
  "loop_at Y c f \<Longrightarrow> f ns0 st = Some (Inr (ns, st')) \<Longrightarrow> ns0 \<noteq> [] \<Longrightarrow> consumed Y c st0 ns0 st \<Longrightarrow>
     consumed Y c st0 ns st' \<and> hd ns = hd ns0"
  unfolding loop_at_def by blast

lemma or_sound:
  assumes "sound_at Y CAnd (parseAnd p k)" and "loop_at Y COrs (orLoop p k)"
  shows "sound_at Y COr (parseOr p (Suc k))"
  unfolding sound_at_def
proof (intro allI impI)
  fix st n st' assume "parseOr p (Suc k) st = Some (Inr (n, st'))"
  then obtain f st1 ns where f: "parseAnd p k st = Some (Inr (f, st1))" "orLoop p k [f] st1 = Some (Inr (ns, st'))"
    and n: "n = (if length ns = 1 then f else AnyNode ns)" by (auto elim!: p_bind_Some)
  from loop_atD [OF assms(2) f(2) _ consumed_one(4) [OF sound_atD [OF assms(1) f(1)]]]
  have "consumed Y COrs st ns st'" "hd ns = f" by simp_all
  with n consumed_one(5) [of Y st ns st'] show "consumed Y COr st [n] st'"
    by (simp add: chain_node_def split: if_splits)
qed

lemma or_loop_sound:
  assumes "sound_at Y CAnd (parseAnd p k)" and "loop_at Y COrs (orLoop p k)"
  shows "loop_at Y COrs (orLoop p (Suc k))"
  unfolding loop_at_def
proof (intro allI impI)
  fix st0 ns0 st ns st'
  assume a: "orLoop p (Suc k) ns0 st = Some (Inr (ns, st'))" "ns0 \<noteq> []" "consumed Y COrs st0 ns0 st"
  show "consumed Y COrs st0 ns st' \<and> hd ns = hd ns0"
  proof (cases "peek_is ''or'' st")
    case True
    with a(1) obtain r st1 where r: "parseAnd p k (advance st) = Some (Inr (r, st1))"
      "orLoop p k (ns0 @ [r]) st1 = Some (Inr (ns, st'))" by (auto elim: p_bind_Some)
    have "consumed Y COrs st0 (ns0 @ [r]) st1"
      using a(3) True sound_atD [OF assms(1) r(1)] by (rule consumed_more) simp
    from loop_atD [OF assms(2) r(2) _ this] a(2) show ?thesis by simp
  qed (use a in simp)
qed

lemma and_sound:
  assumes "sound_at Y CNot (parseNot p k)" and "loop_at Y CAnds (andLoop p k)"
  shows "sound_at Y CAnd (parseAnd p (Suc k))"
  unfolding sound_at_def
proof (intro allI impI)
  fix st n st' assume "parseAnd p (Suc k) st = Some (Inr (n, st'))"
  then obtain f st1 ns where f: "parseNot p k st = Some (Inr (f, st1))" "andLoop p k [f] st1 = Some (Inr (ns, st'))"
    and n: "n = (if length ns = 1 then f else AllNode ns)" by (auto elim!: p_bind_Some)
  from loop_atD [OF assms(2) f(2) _ consumed_one(2) [OF sound_atD [OF assms(1) f(1)]]]
  have "consumed Y CAnds st ns st'" "hd ns = f" by simp_all
  with n consumed_one(3) [of Y st ns st'] show "consumed Y CAnd st [n] st'"
    by (simp add: chain_node_def split: if_splits)
qed

lemma and_loop_sound:
  assumes "sound_at Y CNot (parseNot p k)" and "loop_at Y CAnds (andLoop p k)"
  shows "loop_at Y CAnds (andLoop p (Suc k))"
  unfolding loop_at_def
proof (intro allI impI)
  fix st0 ns0 st ns st'
  assume a: "andLoop p (Suc k) ns0 st = Some (Inr (ns, st'))" "ns0 \<noteq> []" "consumed Y CAnds st0 ns0 st"
  show "consumed Y CAnds st0 ns st' \<and> hd ns = hd ns0"
  proof (cases "peek_is ''and'' st")
    case True
    with a(1) obtain r st1 where r: "parseNot p k (advance st) = Some (Inr (r, st1))"
      "andLoop p k (ns0 @ [r]) st1 = Some (Inr (ns, st'))" by (auto elim: p_bind_Some)
    have "consumed Y CAnds st0 (ns0 @ [r]) st1"
      using a(3) True sound_atD [OF assms(1) r(1)] by (rule consumed_more) simp
    from loop_atD [OF assms(2) r(2) _ this] a(2) show ?thesis by simp
  qed (use a in simp)
qed

text \<open>A primary is only asked for where no \<open>not\<close> stands.\<close>

definition primary_at :: "parser \<Rightarrow> nat \<Rightarrow> pstate \<Rightarrow> tnode presult" where
  "primary_at p k st = (if peek_is ''not'' st then None else parsePrimary p k st)"

lemma not_sound:
  assumes "sound_at Y CNot (parseNot p k)" and "sound_at Y CPrimary (primary_at p k)"
  shows "sound_at Y CNot (parseNot p (Suc k))"
  unfolding sound_at_def
proof (intro allI impI)
  fix st n st' assume a: "parseNot p (Suc k) st = Some (Inr (n, st'))"
  show "consumed Y CNot st [n] st'"
  proof (cases "peek_is ''not'' st")
    case True
    then obtain w rest where w: "ps_toks st = w # rest" "equal_fold (tk_text w) ''not''" by (rule peek_is_Cons)
    from a True obtain m st2 where d: "ps_depth st < maxCompoundDepth"
      and st2: "parseNot p k (advance (st\<lparr>ps_depth := ps_depth st + 1\<rparr>)) = Some (Inr (m, st2))"
      and n: "n = NotNode m" "st' = leave st2"
      by (auto simp: enter_Some elim!: p_bind_Some)
    from sound_atD [OF assms(1) st2] w obtain us ts where c: "rest = us @ ps_toks st2"
      "ps_depth st2 = Suc (ps_depth st)" "ps_terms st2 = ps_terms st @ ts"
      "derives Y (Suc (ps_depth st)) CNot us [m] ts" by (auto simp: consumed_def)
    have "derives Y (ps_depth st) CNot (w # us) [NotNode m] ts" using w(2) d c(4) by (rule not_not)
    with c n w show ?thesis unfolding consumed_def by (intro conjI exI [of _ "w # us"] exI [of _ ts]) simp_all
  next
    case False
    with a have "primary_at p k st = Some (Inr (n, st'))" by (simp add: primary_at_def)
    from consumed_one(1) [OF sound_atD [OF assms(2) this]] show ?thesis .
  qed
qed

text \<open>Four units of fuel per token, and the rank of the function, are enough.\<close>

definition total_at :: "(token \<Rightarrow> bool) \<Rightarrow> nat \<Rightarrow> nat \<Rightarrow> (pstate \<Rightarrow> 'a presult) \<Rightarrow> bool" where
  "total_at good rank k f \<longleftrightarrow>
     (\<forall>st. list_all good (ps_toks st) \<longrightarrow> 4 * length (ps_toks st) + rank \<le> k \<longrightarrow> f st \<noteq> None)"

lemma total_atD:
  "total_at good rank k f \<Longrightarrow> list_all good (ps_toks st) \<Longrightarrow> 4 * length (ps_toks st) + rank \<le> k \<Longrightarrow> f st \<noteq> None"
  by (simp add: total_at_def)

lemma consumed_shorter:
  "consumed Y c st ns st' \<Longrightarrow> list_all good (ps_toks st) \<Longrightarrow>
     list_all good (ps_toks st') \<and> length (ps_toks st') \<le> length (ps_toks st)"
  by (auto simp: consumed_def)

text \<open>
  What the recursive descent relies on: compiling a good token ends, and a success appends its terms
  and moves nothing but the budget.
\<close>

locale term_compiler =
  fixes p :: parser and good :: "token \<Rightarrow> bool" and Y :: "token \<Rightarrow> tnode \<Rightarrow> Term list \<Rightarrow> bool"
  assumes term_total: "good t \<Longrightarrow> pa_term p t st \<noteq> None"
    and term_yields: "pa_term p t st = Some (Inr (n, st')) \<Longrightarrow>
      \<exists>ts left. st' = st\<lparr>ps_terms := ps_terms st @ ts, ps_left := left\<rparr> \<and> Y t n ts"
begin

lemma primary_sound:
  assumes "parsePrimary p (Suc k) st = Some (Inr (n, st'))" and "\<not> peek_is ''not'' st"
    and "\<And>st1 n st2. parseOr p k st1 = Some (Inr (n, st2)) \<Longrightarrow> consumed Y COr st1 [n] st2"
  shows "consumed Y CPrimary st [n] st'"
proof (cases "ps_toks st")
  case Nil
  with assms(1) show ?thesis by (simp add: p_error_def)
next
  case (Cons t rest)
  show ?thesis
  proof (cases "tk_text t = ''(''")
    case True
    from assms(1) Cons True obtain st2 where d: "ps_depth st < maxCompoundDepth"
      and st2: "parseOr p k (advance (st\<lparr>ps_depth := ps_depth st + 1\<rparr>)) = Some (Inr (n, st2))"
      and cl: "ps_toks st2 \<noteq> []" "tk_text (hd (ps_toks st2)) = '')''" "st' = advance (leave st2)"
      by (auto simp: enter_Some Let_def p_error_def elim!: p_bind_Some split: if_splits)
    from assms(3) [OF st2] Cons obtain us ts where c: "rest = us @ ps_toks st2" "ps_depth st2 = Suc (ps_depth st)"
      "ps_terms st2 = ps_terms st @ ts" "derives Y (Suc (ps_depth st)) COr us [n] ts" by (auto simp: consumed_def)
    from cl obtain b r where b: "ps_toks st2 = b # r" "tk_text b = '')''" by (auto simp: neq_Nil_conv)
    have "derives Y (ps_depth st) CPrimary (t # us @ [b]) [n] ts" using True b(2) d c(4) by (rule prim_paren)
    with b c cl(3) Cons show ?thesis unfolding consumed_def
      by (intro conjI exI [of _ "t # us @ [b]"] exI [of _ ts]) simp_all
  next
    case False
    with assms(1) Cons have ok: "tk_text t \<noteq> '')''" "\<not> peek_is ''and'' st" "\<not> peek_is ''or'' st"
      and pt: "pa_term p t (advance st) = Some (Inr (n, st'))" by (auto simp: p_error_def split: if_splits)
    from term_yields [OF pt] obtain ts left where
      y: "st' = advance st\<lparr>ps_terms := ps_terms st @ ts, ps_left := left\<rparr>" "Y t n ts" by auto
    from False ok assms(2) Cons have "plain_word t" by (simp add: plain_word_def peek_is_def)
    then have "derives Y (ps_depth st) CPrimary [t] [n] ts" using y(2) by (rule prim_term)
    with y Cons show ?thesis unfolding consumed_def by (intro conjI exI [of _ "[t]"] exI [of _ ts]) simp_all
  qed
qed

lemma parse_sound:
  "sound_at Y COr (parseOr p k) \<and> loop_at Y COrs (orLoop p k) \<and> sound_at Y CAnd (parseAnd p k) \<and>
   loop_at Y CAnds (andLoop p k) \<and> sound_at Y CNot (parseNot p k) \<and> sound_at Y CPrimary (primary_at p k)"
proof (induction k)
  case (Suc k)
  then have "sound_at Y CPrimary (primary_at p (Suc k))"
    unfolding sound_at_def primary_at_def using primary_sound [of k] by (simp del: parsePrimary.simps)
  with Suc show ?case by (blast intro: or_sound or_loop_sound and_sound and_loop_sound not_sound)
qed (simp add: sound_at_def loop_at_def primary_at_def)

lemma loop_total:
  assumes "sound_at Y c step" and "total_at good rank k step" and "\<And>ns. total_at good 1 k (again ns)" and "rank \<le> 4"
    and "\<And>st. h st = (if \<not> peek_is word st then Some (Inr (ns, st))
      else p_bind (step (advance st)) (\<lambda>r st1. again (ns @ [r]) st1))"
  shows "total_at good 1 (Suc k) h"
  unfolding total_at_def
proof (intro allI impI)
  fix st :: pstate assume good: "list_all good (ps_toks st)" and fuel: "4 * length (ps_toks st) + 1 \<le> Suc k"
  show "h st \<noteq> None"
  proof (cases "peek_is word st")
    case True
    then obtain t rest where t: "ps_toks st = t # rest" by (rule peek_is_Cons)
    have st: "step (advance st) \<noteq> None"
      using good fuel t assms(4) by (intro total_atD [OF assms(2)]) simp_all
    have "again (ns @ [r]) st1 \<noteq> None" if "step (advance st) = Some (Inr (r, st1))" for r st1
    proof -
      have "list_all good (ps_toks (advance st))" using good t by simp
      from consumed_shorter [OF sound_atD [OF assms(1) that] this] fuel t show ?thesis
        by (intro total_atD [OF assms(3)]) simp_all
    qed
    with True st show ?thesis by (simp add: assms(5) p_bind_None del: not_None_eq)
  qed (simp add: assms(5))
qed

lemma chain_total:
  assumes "sound_at Y c first" and "total_at good rank k first" and "\<And>ns. total_at good 1 k (again ns)" and "0 < rank"
    and "\<And>st. h st = p_bind (first st) (\<lambda>f st1. p_bind (again [f] st1) (\<lambda>ns st2. Some (Inr (mk f ns, st2))))"
  shows "total_at good (Suc rank) (Suc k) h"
  unfolding total_at_def
proof (intro allI impI)
  fix st :: pstate assume good: "list_all good (ps_toks st)" and fuel: "4 * length (ps_toks st) + Suc rank \<le> Suc k"
  have "again [f] st1 \<noteq> None" if "first st = Some (Inr (f, st1))" for f st1
    using consumed_shorter [OF sound_atD [OF assms(1) that] good] fuel assms(4)
    by (intro total_atD [OF assms(3)]) simp_all
  moreover have "first st \<noteq> None" using good fuel by (intro total_atD [OF assms(2)]) simp_all
  ultimately show "h st \<noteq> None" unfolding assms(5) by (intro p_bind_None) simp_all
qed

lemma not_total:
  assumes "total_at good 2 k (parseNot p k)" and "total_at good 1 k (parsePrimary p k)"
  shows "total_at good 2 (Suc k) (parseNot p (Suc k))"
  unfolding total_at_def
proof (intro allI impI)
  fix st :: pstate assume good: "list_all good (ps_toks st)" and fuel: "4 * length (ps_toks st) + 2 \<le> Suc k"
  show "parseNot p (Suc k) st \<noteq> None"
  proof (cases "peek_is ''not'' st")
    case True
    then obtain t rest where t: "ps_toks st = t # rest" by (rule peek_is_Cons)
    have "parseNot p k (advance st1) \<noteq> None" if "enter p (hd (ps_toks st)) st = Some (Inr (u, st1))" for u st1
      using that good fuel t by (intro total_atD [OF assms(1)]) (auto simp: enter_Some)
    with True enter_total show ?thesis by (simp add: p_bind_None del: not_None_eq)
  next
    case False
    then show ?thesis using good fuel by (simp add: total_atD [OF assms(2)] del: not_None_eq)
  qed
qed

lemma primary_total:
  assumes "total_at good 4 k (parseOr p k)"
  shows "total_at good 1 (Suc k) (parsePrimary p (Suc k))"
  unfolding total_at_def
proof (intro allI impI)
  fix st :: pstate assume good: "list_all good (ps_toks st)" and fuel: "4 * length (ps_toks st) + 1 \<le> Suc k"
  show "parsePrimary p (Suc k) st \<noteq> None"
  proof (cases "ps_toks st")
    case (Cons t rest)
    have "parseOr p k (advance st1) \<noteq> None" if "enter p t st = Some (Inr (u, st1))" for u st1
      using that good fuel Cons by (intro total_atD [OF assms]) (auto simp: enter_Some)
    moreover have "good t" using good Cons by simp
    ultimately show ?thesis
      using Cons enter_total term_total by (simp add: p_bind_None Let_def p_error_def del: not_None_eq)
  qed (simp add: p_error_def)
qed

lemma parse_total:
  "total_at good 4 k (parseOr p k) \<and> (\<forall>ns. total_at good 1 k (orLoop p k ns)) \<and> total_at good 3 k (parseAnd p k) \<and>
   (\<forall>ns. total_at good 1 k (andLoop p k ns)) \<and> total_at good 2 k (parseNot p k) \<and> total_at good 1 k (parsePrimary p k)"
proof (induction k)
  case (Suc k)
  note sound = parse_sound [of k]
  have "total_at good (Suc 3) (Suc k) (parseOr p (Suc k))"
    using sound Suc by (intro chain_total [where c = CAnd and first = "parseAnd p k" and again = "orLoop p k"]) simp_all
  moreover have "total_at good 1 (Suc k) (orLoop p (Suc k) ns)" for ns
    using sound Suc by (intro loop_total [where c = CAnd and rank = 3 and step = "parseAnd p k" and again = "orLoop p k"]) simp_all
  moreover have "total_at good (Suc 2) (Suc k) (parseAnd p (Suc k))"
    using sound Suc by (intro chain_total [where c = CNot and first = "parseNot p k" and again = "andLoop p k"]) simp_all
  moreover have "total_at good 1 (Suc k) (andLoop p (Suc k) ns)" for ns
    using sound Suc by (intro loop_total [where c = CNot and rank = 2 and step = "parseNot p k" and again = "andLoop p k"]) simp_all
  ultimately show ?case using not_total primary_total Suc by (simp del: parseOr.simps orLoop.simps parseAnd.simps
      andLoop.simps parseNot.simps parsePrimary.simps)
qed (simp add: total_at_def)

lemma parseOr_total: "list_all good (ps_toks st) \<Longrightarrow> parseOr p (parse_fuel (ps_toks st)) st \<noteq> None"
  by (rule total_atD [OF conjunct1 [OF parse_total]]) (simp_all add: parse_fuel_def)

lemma parseOr_derives:
  assumes "parseOr p k st = Some (Inr (n, st'))" and "ps_toks st' = []" and "ps_terms st = []"
  shows "derives Y (ps_depth st) COr (ps_toks st) [n] (ps_terms st')"
  using sound_atD [OF conjunct1 [OF parse_sound] assms(1)] assms(2,3) by (auto simp: consumed_def)

end

subsection \<open>Both parsers\<close>

text \<open>The kind and the value a token is read as.\<close>

definition read_term :: "string \<Rightarrow> TKind \<times> string" where
  "read_term text =
     (case index_byte text (CHR ''@'') of
        None \<Rightarrow> (TkGlob, text)
      | Some at \<Rightarrow>
          (if at = 0 then (TkGlob, text)
           else case gomap_get kindLetters (take at text) of
             None \<Rightarrow> (TkGlob, text)
           | Some kind \<Rightarrow> (kind, drop (at + 1) text)))"

definition leaf_tree :: "target_env \<Rightarrow> token \<Rightarrow> tnode \<Rightarrow> Term list \<Rightarrow> bool" where
  "leaf_tree v t n ts \<longleftrightarrow> (\<exists>kind expr left l left1. read_term (tk_text t) = (kind, expr) \<and>
     kind \<noteq> TkNodegroup \<and> compileLeaf v kind expr left = Inr (l, left1) \<and> n = Leaf l \<and>
     ts = [\<lparr>tm_Kind = kind, tm_Key = leafKey kind expr\<rparr>])"

definition term_tree :: "target_env \<Rightarrow> Nodegroups \<Rightarrow> token \<Rightarrow> tnode \<Rightarrow> Term list \<Rightarrow> bool" where
  "term_tree v groups t n ts \<longleftrightarrow> leaf_tree v t n ts \<or>
     (\<exists>name expanded. read_term (tk_text t) = (TkNodegroup, name) \<and>
        resolveNodegroup groups nodegroup_levels name [] = Inr expanded \<and>
        derives (leaf_tree v) 0 COr (tokenize expanded) [n] ts)"

lemma leafKey_glob [simp]: "leafKey TkGlob expr = []"
  by (simp add: leafKey_def)

lemma add_leaf_yields:
  assumes "add_leaf v col kind expr key st = Some (Inr (n, st'))"
  obtains l left left1 where "compileLeaf v kind expr left = Inr (l, left1)" and "n = Leaf l"
    and "st' = st\<lparr>ps_terms := ps_terms st @ [\<lparr>tm_Kind = kind, tm_Key = key\<rparr>], ps_left := left1\<rparr>"
  using assms by (auto simp: add_leaf_def split: sum.splits)

lemma add_leaf_total: "add_leaf v col kind expr key st \<noteq> None"
  by (auto simp: add_leaf_def split: sum.splits)

lemma index_byte_Some:
  assumes "index_byte s c = Some i"
  shows "i < length s" "s ! i = c"
  using find_index_Some [OF assms [unfolded index_byte_def]] by auto

lemma letter_N: "gomap_get kindLetters letter = Some TkNodegroup \<Longrightarrow> letter = ''N''"
  by (auto simp: kindLetters_def split: if_splits)

lemma read_nodegroup: "read_term text = (TkNodegroup, name) \<Longrightarrow> \<not> no_ref text"
proof -
  assume a: "read_term text = (TkNodegroup, name)"
  then obtain i where i: "index_byte text (CHR ''@'') = Some i" "gomap_get kindLetters (take i text) = Some TkNodegroup"
    by (auto simp: read_term_def split: option.splits if_splits)
  from index_byte_Some [OF i(1)] obtain r where r: "text = take i text @ CHR ''@'' # r"
    by (metis id_take_nth_drop)
  with letter_N [OF i(2)] have "text = CHR ''N'' # CHR ''@'' # r" by simp
  then show "\<not> no_ref text" by simp
qed

text \<open>Compiling a term, by what the token is read as.\<close>

lemma compileTerm_cases:
  obtains (leaf) kind expr where "read_term (tk_text t) = (kind, expr)" and "kind \<noteq> TkNodegroup"
      "compileTerm v groups sub src t st = add_leaf v (tk_col t) kind expr (leafKey kind expr) st"
  | (empty) e where "compileTerm v groups sub src t st = Some (Inl e)"
  | (group) name where "read_term (tk_text t) = (TkNodegroup, name)"
      "compileTerm v groups sub src t st =
         (case resolveNodegroup groups nodegroup_levels name [] of
            Inl e \<Rightarrow> Some (Inl (withCol e (tk_col t)))
          | Inr expanded \<Rightarrow>
              (case sub expanded (ps_left st) of
                 None \<Rightarrow> None
               | Some (Inl e) \<Rightarrow> Some (Inl e)
               | Some (Inr (n, terms, left1)) \<Rightarrow>
                   Some (Inr (n, st\<lparr>ps_terms := ps_terms st @ terms, ps_left := left1\<rparr>))))"
proof (cases "index_byte (tk_text t) (CHR ''@'')")
  case None
  then show thesis by (intro leaf [of TkGlob "tk_text t"]) (simp_all add: read_term_def compileTerm_def)
next
  case (Some i)
  show thesis
  proof (cases "i = 0 \<or> gomap_get kindLetters (take i (tk_text t)) = None")
    case True
    with Some show thesis by (intro leaf [of TkGlob "tk_text t"]) (auto simp: read_term_def compileTerm_def Let_def)
  next
    case False
    then obtain kind where k: "i \<noteq> 0" "gomap_get kindLetters (take i (tk_text t)) = Some kind" by auto
    let ?rest = "drop (i + 1) (tk_text t)"
    have r: "read_term (tk_text t) = (kind, ?rest)" using Some k by (simp add: read_term_def)
    consider "?rest = []" | "?rest \<noteq> []" "kind = TkNodegroup" | "?rest \<noteq> []" "kind \<noteq> TkNodegroup" by blast
    then show thesis
    proof cases
      case 1 then show thesis using Some k by (intro empty) (simp add: compileTerm_def)
    next
      case 2 then show thesis using Some k r by (intro group [of ?rest]) (simp_all add: compileTerm_def Let_def)
    next
      case 3 then show thesis using Some k r by (intro leaf [of kind ?rest]) (simp_all add: compileTerm_def Let_def)
    qed
  qed
qed

lemma leaf_step:
  assumes "add_leaf v col kind expr (leafKey kind expr) st = Some (Inr (n, st'))"
    and "read_term (tk_text t) = (kind, expr)" and "kind \<noteq> TkNodegroup"
  shows "\<exists>ts left. st' = st\<lparr>ps_terms := ps_terms st @ ts, ps_left := left\<rparr> \<and> leaf_tree v t n ts"
proof -
  from add_leaf_yields [OF assms(1)] obtain l left left1 where "compileLeaf v kind expr left = Inr (l, left1)"
    "n = Leaf l" "st' = st\<lparr>ps_terms := ps_terms st @ [\<lparr>tm_Kind = kind, tm_Key = leafKey kind expr\<rparr>], ps_left := left1\<rparr>" .
  with assms(2,3) have "leaf_tree v t n [\<lparr>tm_Kind = kind, tm_Key = leafKey kind expr\<rparr>]"
    unfolding leaf_tree_def by blast
  with \<open>st' = _\<close> show ?thesis by blast
qed

lemma compileTerm_total:
  assumes "\<And>name expanded left. read_term (tk_text t) = (TkNodegroup, name) \<Longrightarrow>
    resolveNodegroup groups nodegroup_levels name [] = Inr expanded \<Longrightarrow> sub expanded left \<noteq> None"
  shows "compileTerm v groups sub src t st \<noteq> None"
proof (rule compileTerm_cases [of t v groups sub src st], goal_cases)
  case (3 name)
  show ?case
  proof (cases "resolveNodegroup groups nodegroup_levels name []")
    case (Inr expanded)
    from assms [OF 3(1) this, of "ps_left st"] obtain r where "sub expanded (ps_left st) = Some r" by blast
    with 3(2) Inr show ?thesis by (auto split: sum.splits)
  qed (use 3 in simp)
qed (simp_all add: add_leaf_total del: not_None_eq)

lemma compileTerm_yields:
  assumes "compileTerm v groups sub src t st = Some (Inr (n, st'))"
  shows "\<exists>ts left. st' = st\<lparr>ps_terms := ps_terms st @ ts, ps_left := left\<rparr> \<and>
    (leaf_tree v t n ts \<or> (\<exists>name expanded. read_term (tk_text t) = (TkNodegroup, name) \<and>
       resolveNodegroup groups nodegroup_levels name [] = Inr expanded \<and>
       sub expanded (ps_left st) = Some (Inr (n, ts, left))))"
proof (rule compileTerm_cases [of t v groups sub src st], goal_cases)
  case (1 kind expr)
  from leaf_step [OF 1(3) [unfolded assms, symmetric] 1(1,2)] show ?case by blast
next
  case (3 name)
  then show ?case using assms by (auto split: sum.splits option.splits)
qed (use assms in simp)

interpretation inner: term_compiler
  "\<lparr>pa_src = src, pa_all = toks, pa_term = compileTerm v groups (\<lambda>_ _. None) src\<rparr>"
  "\<lambda>t. no_ref (tk_text t)" "leaf_tree v" for v groups src toks
proof (unfold_locales, goal_cases)
  case (1 t st)
  then show ?case using read_nodegroup [of "tk_text t"]
    by (simp del: not_None_eq) (rule compileTerm_total, blast)
next
  case (2 t st n st')
  then show ?case using compileTerm_yields [of v groups "\<lambda>_ _. None" src t st n st'] by simp
qed

lemma parse_with_cases:
  assumes "parse_with v groups sub src left = Some (Inr (n, ts, left1))"
  obtains st where "parseOr \<lparr>pa_src = src, pa_all = tokenize src, pa_term = compileTerm v groups sub src\<rparr>
      (parse_fuel (tokenize src)) \<lparr>ps_toks = tokenize src, ps_depth = 0, ps_terms = [], ps_left = left\<rparr> =
      Some (Inr (n, st))" and "ps_toks st = []" and "ts = ps_terms st"
  using assms by (auto simp: parse_with_def Let_def split: if_splits option.splits sum.splits list.splits)

lemma parse_with_total:
  assumes "parseOr \<lparr>pa_src = src, pa_all = tokenize src, pa_term = compileTerm v groups sub src\<rparr>
      (parse_fuel (tokenize src)) \<lparr>ps_toks = tokenize src, ps_depth = 0, ps_terms = [], ps_left = left\<rparr> \<noteq> None"
  shows "parse_with v groups sub src left \<noteq> None"
  using assms by (auto simp: parse_with_def Let_def split: sum.splits list.splits)

lemma parse_inner:
  "no_ref src \<Longrightarrow> parse_with v groups (\<lambda>_ _. None) src left \<noteq> None"
  "parse_with v groups (\<lambda>_ _. None) src left = Some (Inr (n, ts, left1)) \<Longrightarrow>
     derives (leaf_tree v) 0 COr (tokenize src) [n] ts"
proof -
  let ?st = "\<lparr>ps_toks = tokenize src, ps_depth = 0, ps_terms = [], ps_left = left\<rparr>"
  show "parse_with v groups (\<lambda>_ _. None) src left \<noteq> None" if "no_ref src"
    using inner.parseOr_total [of ?st] tokenize_no_ref [OF that] by (intro parse_with_total) simp
  show "derives (leaf_tree v) 0 COr (tokenize src) [n] ts"
    if "parse_with v groups (\<lambda>_ _. None) src left = Some (Inr (n, ts, left1))"
    using that inner.parseOr_derives [of _ _ _ _ _ ?st] by (elim parse_with_cases) simp
qed

interpretation outer: term_compiler
  "\<lparr>pa_src = src, pa_all = toks, pa_term = compileTerm v groups (parse_with v groups (\<lambda>_ _. None)) src\<rparr>"
  "\<lambda>t. True" "term_tree v groups" for v groups src toks
proof (unfold_locales, goal_cases)
  case (1 t st)
  show ?case using parse_inner(1) expand_no_ref(1)
    by (simp del: not_None_eq) (rule compileTerm_total, blast)
next
  case (2 t st n st')
  then show ?case
    using compileTerm_yields [of v groups "parse_with v groups (\<lambda>_ _. None)" src t st n st'] parse_inner(2) [of v groups]
    unfolding term_tree_def by simp blast
qed

lemma target_parse_total: "parse v groups src left \<noteq> None"
  using outer.parseOr_total [of "\<lparr>ps_toks = tokenize src, ps_depth = 0, ps_terms = [], ps_left = left\<rparr>"]
  unfolding parse_def by (intro parse_with_total) (simp add: list_all_iff)

lemma parse_derives:
  "parse v groups src left = Some (Inr (n, ts, left1)) \<Longrightarrow> derives (term_tree v groups) 0 COr (tokenize src) [n] ts"
  using outer.parseOr_derives [of _ _ _ _ _ "\<lparr>ps_toks = tokenize src, ps_depth = 0, ps_terms = [], ps_left = left\<rparr>"]
  unfolding parse_def by (elim parse_with_cases) simp

subsection \<open>The grammar is unambiguous\<close>

text \<open>
  Conversely, a parser whose terms always compile finds the tree of every derivation. Fuel is left
  out of the way: \<open>ev f r\<close> says that \<open>f\<close> gives \<open>r\<close> from some fuel on.
\<close>

definition ev :: "(nat \<Rightarrow> 'a option) \<Rightarrow> 'a \<Rightarrow> bool" where
  "ev f r \<longleftrightarrow> (\<exists>k0. \<forall>k \<ge> k0. f k = Some r)"

lemma ev_unique: "ev f r \<Longrightarrow> ev f r' \<Longrightarrow> r = r'"
  unfolding ev_def by (metis max.cobounded1 max.cobounded2 option.inject)

lemma ev_const: "ev (\<lambda>k. Some r) r"
  by (simp add: ev_def)

lemma ev_cong: "ev f r \<Longrightarrow> (\<And>k. g (Suc k) = f k) \<Longrightarrow> ev g r"
  unfolding ev_def by (metis Suc_le_D Suc_le_mono)

lemma ev_bind:
  assumes "ev f (Inr (x, st))" and "ev (\<lambda>k. g k x st) r"
  shows "ev (\<lambda>k. p_bind (f k) (g k)) r"
proof -
  from assms obtain a b where ab: "\<forall>k\<ge>a. f k = Some (Inr (x, st))" "\<forall>k\<ge>b. g k x st = Some r" by (auto simp: ev_def)
  have "p_bind (f k) (g k) = Some r" if "k \<ge> max a b" for k
    using ab that by (simp add: p_bind_def)
  then show ?thesis unfolding ev_def by blast
qed

text \<open>Where the parser is after the tokens \<open>us\<close> with the terms \<open>ts\<close>.\<close>

definition after :: "token list \<Rightarrow> Term list \<Rightarrow> pstate \<Rightarrow> pstate" where
  "after us ts st = st\<lparr>ps_toks := drop (length us) (ps_toks st), ps_terms := ps_terms st @ ts\<rparr>"

lemma after_simps [simp]:
  "ps_toks (after us ts st) = drop (length us) (ps_toks st)" "ps_depth (after us ts st) = ps_depth st"
  "ps_terms (after us ts st) = ps_terms st @ ts" "ps_left (after us ts st) = ps_left st"
  by (simp_all add: after_def)

lemma pstate_eqI:
  "ps_toks a = ps_toks b \<Longrightarrow> ps_depth a = ps_depth b \<Longrightarrow> ps_terms a = ps_terms b \<Longrightarrow> ps_left a = ps_left b \<Longrightarrow>
     (a :: pstate) = b"
  by simp

text \<open>What each category's function finds; the chains go on from where a derivation stopped.\<close>

fun finds :: "parser \<Rightarrow> cat \<Rightarrow> tnode list \<Rightarrow> pstate \<Rightarrow> pstate \<Rightarrow> bool" where
  "finds p CPrimary ns st st' = ev (\<lambda>k. parsePrimary p k st) (Inr (hd ns, st'))"
| "finds p CNot ns st st' = ev (\<lambda>k. parseNot p k st) (Inr (hd ns, st'))"
| "finds p CAnds ns st st' = (\<forall>r. ev (\<lambda>k. andLoop p k ns st') r \<longrightarrow>
     ev (\<lambda>k. p_bind (parseNot p k st) (\<lambda>f st1. andLoop p k [f] st1)) r)"
| "finds p CAnd ns st st' = (\<not> peek_is ''and'' st' \<longrightarrow> ev (\<lambda>k. parseAnd p k st) (Inr (hd ns, st')))"
| "finds p COrs ns st st' = (\<not> peek_is ''and'' st' \<longrightarrow> (\<forall>r. ev (\<lambda>k. orLoop p k ns st') r \<longrightarrow>
     ev (\<lambda>k. p_bind (parseAnd p k st) (\<lambda>f st1. orLoop p k [f] st1)) r))"
| "finds p COr ns st st' = (\<not> peek_is ''and'' st' \<longrightarrow> \<not> peek_is ''or'' st' \<longrightarrow>
     ev (\<lambda>k. parseOr p k st) (Inr (hd ns, st')))"

lemma fold_words: "equal_fold w ''and'' \<Longrightarrow> \<not> equal_fold w ''or''" "equal_fold w ''or'' \<Longrightarrow> \<not> equal_fold w ''and''"
  by (auto simp: equal_fold_def)

lemma paren_folds: "\<not> equal_fold ''('' ''not''" "\<not> equal_fold '')'' ''and''" "\<not> equal_fold '')'' ''or''"
  by (code_simp)+

lemma found_paren:
  assumes "tk_text a = ''(''" and "tk_text b = '')''" and "ps_depth st < maxCompoundDepth" and "ps_toks st = a # us @ b # rest"
    and "finds p COr [n] (advance (st\<lparr>ps_depth := ps_depth st + 1\<rparr>)) (after us ts (advance (st\<lparr>ps_depth := ps_depth st + 1\<rparr>)))"
  shows "finds p CPrimary [n] st (after (a # us @ [b]) ts st)"
proof -
  let ?st1 = "advance (st\<lparr>ps_depth := ps_depth st + 1\<rparr>)"
  let ?st2 = "after us ts ?st1"
  have tk: "ps_toks ?st2 = b # rest" using assms(4) by simp
  with assms(2,5) paren_folds have "ev (\<lambda>k. parseOr p k ?st1) (Inr (n, ?st2))" by (simp add: peek_is_def)
  then obtain k0 where k0: "\<forall>k\<ge>k0. parseOr p k ?st1 = Some (Inr (n, ?st2))" by (auto simp: ev_def)
  have "advance (leave ?st2) = after (a # us @ [b]) ts st" using assms(4) by (intro pstate_eqI) simp_all
  then have "parsePrimary p (Suc k) st = Some (Inr (n, after (a # us @ [b]) ts st))" if "k \<ge> k0" for k
    using assms(1-4) k0 that tk by (simp add: enter_def p_bind_def Let_def)
  then have "\<forall>k \<ge> Suc k0. parsePrimary p k st = Some (Inr (n, after (a # us @ [b]) ts st))"
    by (metis Suc_le_D Suc_le_mono)
  then show ?thesis by (auto simp: ev_def)
qed

lemma found_not:
  assumes "equal_fold (tk_text w) ''not''" and "ps_depth st < maxCompoundDepth" and "ps_toks st = w # us @ rest"
    and "finds p CNot [n] (advance (st\<lparr>ps_depth := ps_depth st + 1\<rparr>)) (after us ts (advance (st\<lparr>ps_depth := ps_depth st + 1\<rparr>)))"
  shows "finds p CNot [NotNode n] st (after (w # us) ts st)"
proof -
  let ?st1 = "advance (st\<lparr>ps_depth := ps_depth st + 1\<rparr>)"
  have e: "ev (\<lambda>k. parseNot p k ?st1) (Inr (n, after us ts ?st1))" using assms(4) by simp
  have "leave (after us ts ?st1) = after (w # us) ts st" using assms(3) by (intro pstate_eqI) simp_all
  then have "ev (\<lambda>k. p_bind (parseNot p k ?st1) (\<lambda>inner st2. Some (Inr (NotNode inner, leave st2))))
      (Inr (NotNode n, after (w # us) ts st))"
    using ev_bind [OF e, of "\<lambda>k inner st2. Some (Inr (NotNode inner, leave st2))"] ev_const by metis
  moreover have "parseNot p (Suc k) st =
      p_bind (parseNot p k ?st1) (\<lambda>inner st2. Some (Inr (NotNode inner, leave st2)))" for k
    using assms(1-3) by (simp add: peek_is_def enter_def p_bind_def)
  ultimately show ?thesis by (simp del: parseNot.simps) (rule ev_cong)
qed

lemma derives_head:
  "derives Y d c us ns ts \<Longrightarrow> us \<noteq> [] \<and> ns \<noteq> [] \<and> (c = CPrimary \<longrightarrow> \<not> equal_fold (tk_text (hd us)) ''not'')"
  by (induction rule: derives.induct) (auto simp: plain_word_def paren_folds)

lemma found_prim_not:
  assumes "finds p CPrimary [n] st st'" and "ps_toks st = t # rest" and "\<not> equal_fold (tk_text t) ''not''"
  shows "finds p CNot [n] st st'"
proof -
  have "parseNot p (Suc k) st = parsePrimary p k st" for k using assms(2,3) by (simp add: peek_is_def)
  with assms(1) show ?thesis by (simp del: parseNot.simps parsePrimary.simps) (rule ev_cong)
qed

lemma found_more:
  assumes "ps_toks st1 = w # rest" and "ev (\<lambda>k. step p k (advance st1)) (Inr (n, st2))" and "equal_fold (tk_text w) word"
    and "\<And>k ns st. loop p (Suc k) ns st = (if \<not> peek_is word st then Some (Inr (ns, st))
       else p_bind (step p k (advance st)) (\<lambda>r st. loop p k (ns @ [r]) st))"
    and "ev (\<lambda>k. loop p k (ns @ [n]) st2) r"
  shows "ev (\<lambda>k. loop p k ns st1) r"
proof -
  have "ev (\<lambda>k. p_bind (step p k (advance st1)) (\<lambda>x st. loop p k (ns @ [x]) st)) r"
    using assms(2,5) by (rule ev_bind)
  then show ?thesis by (rule ev_cong) (simp add: assms(1,3,4) peek_is_def)
qed

lemma found_stop:
  assumes "\<not> peek_is word st" and "\<And>k ns st. loop p (Suc k) ns st = (if \<not> peek_is word st then Some (Inr (ns, st)) else rest k ns st)"
  shows "ev (\<lambda>k. loop p k ns st) (Inr (ns, st))"
  by (rule ev_cong [OF ev_const]) (simp add: assms)

lemma found_chain:
  assumes "ev (\<lambda>k. p_bind (first p k st) (\<lambda>f st1. loop p k [f] st1)) (Inr (ns, st'))"
    and "\<And>k. h p (Suc k) st = p_bind (first p k st) (\<lambda>f st1. p_bind (loop p k [f] st1) (\<lambda>ns st2.
        Some (Inr (if length ns = 1 then f else mk ns, st2))))"
    and "\<And>k f st1 ns st2. loop p k [f] st1 = Some (Inr (ns, st2)) \<Longrightarrow> hd ns = f"
  shows "ev (\<lambda>k. h p k st) (Inr (chain_node mk ns, st'))"
proof -
  have "h p (Suc k) st = Some (Inr (chain_node mk ns, st'))"
    if "p_bind (first p k st) (\<lambda>f st1. loop p k [f] st1) = Some (Inr (ns, st'))" for k
  proof -
    from that obtain f st1 where f: "first p k st = Some (Inr (f, st1))" "loop p k [f] st1 = Some (Inr (ns, st'))"
      by (rule p_bind_Some)
    with assms(3) [OF f(2)] show ?thesis by (simp add: assms(2) p_bind_def chain_node_def)
  qed
  with assms(1) show ?thesis unfolding ev_def by (metis Suc_le_D Suc_le_mono)
qed

lemma loop_hd:
  "ns0 \<noteq> [] \<Longrightarrow> orLoop p k ns0 st = Some (Inr (ns, st')) \<Longrightarrow> hd ns = hd ns0"
  "ns0 \<noteq> [] \<Longrightarrow> andLoop p k ns0 st = Some (Inr (ns, st')) \<Longrightarrow> hd ns = hd ns0"
proof (induction k arbitrary: ns0 st)
  case (Suc k)
  { case 1 show ?case
    proof (cases "peek_is ''or'' st")
      case True
      with 1 obtain r st1 where "orLoop p k (ns0 @ [r]) st1 = Some (Inr (ns, st'))" by (auto elim: p_bind_Some)
      from Suc.IH(1) [OF _ this] 1 show ?thesis by simp
    qed (use 1 in simp) }
  { case 2 show ?case
    proof (cases "peek_is ''and'' st")
      case True
      with 2 obtain r st1 where "andLoop p k (ns0 @ [r]) st1 = Some (Inr (ns, st'))" by (auto elim: p_bind_Some)
      from Suc.IH(2) [OF _ this] 2 show ?thesis by simp
    qed (use 2 in simp) }
qed simp_all

lemma after_append: "after (us @ w # us') (ts @ ts') st = after us' ts' (advance (after us ts st))"
  by (rule pstate_eqI) (simp_all add: drop_Suc add.commute tl_drop)

lemma derives_found:
  assumes "derives Y d c us ns ts" and "ps_toks st = us @ rest" and "ps_depth st = d"
    and "\<And>t n ts st. Y t n ts \<Longrightarrow> pa_term p t st = Some (Inr (n, st\<lparr>ps_terms := ps_terms st @ ts\<rparr>))"
  shows "finds p c ns st (after us ts st)"
  using assms(1-3)
proof (induction arbitrary: st rest rule: derives.induct)
  case (prim_term t n ts d)
  have "after [t] ts st = advance st\<lparr>ps_terms := ps_terms st @ ts\<rparr>" by (rule pstate_eqI) (simp_all add: drop_Suc)
  with prim_term have "parsePrimary p (Suc k) st = Some (Inr (n, after [t] ts st))" for k
    using assms(4) [OF prim_term(2), of "advance st"] by (simp add: plain_word_def peek_is_def)
  then show ?case by (simp del: parsePrimary.simps) (rule ev_cong [OF ev_const])
next
  case (prim_paren a b d us n ts)
  then show ?case by (intro found_paren [where rest = rest]) simp_all
next
  case (not_prim d us n ts)
  from derives_head [OF not_prim(1)] obtain t us' where "us = t # us'" "\<not> equal_fold (tk_text t) ''not''"
    by (cases us) simp_all
  with not_prim.prems show ?case by (intro found_prim_not [OF not_prim.IH [OF not_prim.prems]]) simp_all
next
  case (not_not w d us n ts)
  then show ?case by (intro found_not [where rest = rest]) simp_all
next
  case (ands_one d us n ts)
  from ands_one.IH [OF ands_one.prems] show ?case by (auto intro: ev_bind)
next
  case (ands_more d us ns ts w us' n ts')
  let ?st1 = "after us ts st"
  have t: "ps_toks ?st1 = w # us' @ rest" using ands_more.prems by simp
  have "finds p CNot [n] (advance ?st1) (after us' ts' (advance ?st1))"
    using ands_more.prems t by (intro ands_more.IH(2)) simp_all
  then show ?case using found_more [where step = parseNot and loop = andLoop and p = p, OF t _ ands_more(2)]
      ands_more.IH(1) [of st "w # us' @ rest"] ands_more.prems by (simp add: after_append)
next
  case (and_chain d us ns ts)
  have "ev (\<lambda>k. p_bind (parseNot p k st) (\<lambda>f st1. andLoop p k [f] st1)) (Inr (ns, after us ts st))"
    if "\<not> peek_is ''and'' (after us ts st)"
    using and_chain.IH [OF and_chain.prems] found_stop [where loop = andLoop and p = p, OF that] by simp
  then show ?case by (auto intro!: found_chain [where h = parseAnd] dest: loop_hd(2) [rotated])
next
  case (ors_one d us n ts)
  from ors_one.IH [OF ors_one.prems] show ?case by (auto intro: ev_bind)
next
  case (ors_more d us ns ts w us' n ts')
  let ?st1 = "after us ts st"
  have t: "ps_toks ?st1 = w # us' @ rest" using ors_more.prems by simp
  have "\<not> peek_is ''and'' ?st1" using t ors_more(2) by (simp add: peek_is_def fold_words)
  moreover have "finds p CAnd [n] (advance ?st1) (after us' ts' (advance ?st1))"
    using ors_more.prems t by (intro ors_more.IH(2)) simp_all
  ultimately show ?case using found_more [where step = parseAnd and loop = orLoop and p = p, OF t _ ors_more(2)]
      ors_more.IH(1) [of st "w # us' @ rest"] ors_more.prems by (simp add: after_append) blast
next
  case (or_chain d us ns ts)
  have "ev (\<lambda>k. p_bind (parseAnd p k st) (\<lambda>f st1. orLoop p k [f] st1)) (Inr (ns, after us ts st))"
    if "\<not> peek_is ''and'' (after us ts st)" "\<not> peek_is ''or'' (after us ts st)"
    using or_chain.IH [OF or_chain.prems] that(1) found_stop [where loop = orLoop and p = p, OF that(2)] by simp
  then show ?case by (auto intro!: found_chain [where h = parseOr] dest: loop_hd(1) [rotated])
qed

text \<open>When a token has one reading, so has every token list.\<close>

lemma derives_unique:
  assumes "derives Y 0 COr us [n] ts" and "derives Y 0 COr us [n'] ts'"
    and "\<And>t a b c d. Y t a b \<Longrightarrow> Y t c d \<Longrightarrow> a = c \<and> b = d"
  shows "n = n' \<and> ts = ts'"
proof -
  let ?compile = "\<lambda>t st. let x = (SOME x. Y t (fst x) (snd x)) in Some (Inr (fst x, st\<lparr>ps_terms := ps_terms st @ snd x\<rparr>))"
  let ?p = "\<lparr>pa_src = [], pa_all = [], pa_term = ?compile\<rparr> :: parser"
  let ?st = "\<lparr>ps_toks = us, ps_depth = 0, ps_terms = [], ps_left = 0\<rparr> :: pstate"
  have y: "pa_term ?p t st = Some (Inr (a, st\<lparr>ps_terms := ps_terms st @ b\<rparr>))" if "Y t a b" for t a b st
  proof -
    have "(SOME x. Y t (fst x) (snd x)) = (a, b)"
    proof (rule some_equality)
      show "x = (a, b)" if "Y t (fst x) (snd x)" for x
        using assms(3) [OF that \<open>Y t a b\<close>] by (simp add: prod_eq_iff)
    qed (simp add: that)
    then show ?thesis by simp
  qed
  have "ev (\<lambda>k. parseOr ?p k ?st) (Inr (m, after us s ?st))" if "derives Y 0 COr us [m] s" for m s
    using derives_found [OF that, of ?st "[]" ?p] y by (simp add: peek_is_def)
  from ev_unique [OF this [OF assms(1)] this [OF assms(2)]] show ?thesis by (simp add: after_def)
qed

text \<open>A leaf does not depend on the budget it was compiled with.\<close>

lemma spend_Inr: "spend expr n left = Inr left1 \<longleftrightarrow> int n \<le> left \<and> left1 = left - int n"
  by (auto simp: spend_def)

lemma compileGlob_Inr:
  "compileGlob v expr pat left = Inr (g, left1) \<Longrightarrow>
     g = (if pat = ''*'' then \<lambda>_. True else Pattern_Match (projr (Compile (tv_rt v) pat)))"
  by (auto simp: compileGlob_def split: if_splits sum.splits)

lemma compile_globs_unique:
  "compile_globs v expr cands left = Inr (gs, a) \<Longrightarrow> compile_globs v expr cands left' = Inr (gs', b) \<Longrightarrow> gs = gs'"
proof (induction cands arbitrary: left left' gs gs' a b)
  case (Cons c cands)
  obtain k pat where c: "c = (k, pat)" by (cases c)
  from Cons.prems(1) obtain g l1 gs1 l2 where 1: "compileGlob v expr pat left = Inr (g, l1)"
    "compile_globs v expr cands l1 = Inr (gs1, l2)" "gs = (k, g) # gs1" by (auto simp: c split: sum.splits)
  from Cons.prems(2) obtain g' l1' gs1' l2' where 2: "compileGlob v expr pat left' = Inr (g', l1')"
    "compile_globs v expr cands l1' = Inr (gs1', l2')" "gs' = (k, g') # gs1'" by (auto simp: c split: sum.splits)
  from Cons.IH [OF 1(2) 2(2)] compileGlob_Inr [OF 1(1)] compileGlob_Inr [OF 2(1)] 1(3) 2(3) show ?case by simp
qed simp

lemma compile_regexps_Cons:
  assumes "compile_regexps v expr first ((k, pat) # cands) left = Inr (rs, left1)"
  obtains l1 rs1 where "compile_regexps v expr False cands l1 = Inr (rs1, left1)"
    and "rs = (k, case tv_Regexp v pat of Inl _ \<Rightarrow> None | Inr f \<Rightarrow> Some f) # rs1"
  using assms by (auto simp: Let_def split: sum.splits bool.splits)

lemma compile_regexps_unique:
  "compile_regexps v expr first cands left = Inr (gs, a) \<Longrightarrow>
   compile_regexps v expr first cands left' = Inr (gs', b) \<Longrightarrow> gs = gs'"
proof (induction cands arbitrary: first left left' gs gs' a b)
  case (Cons c cands)
  obtain k pat where c: "c = (k, pat)" by (cases c)
  from Cons.prems show ?case unfolding c by (elim compile_regexps_Cons) (simp add: Cons.IH)
qed simp

lemma compileLeaf_unique:
  assumes "compileLeaf v kind expr left = Inr (l, a)" and "compileLeaf v kind expr left' = Inr (l', b)"
  shows "l = l'"
  using assms by (cases kind)
    (auto simp: compileLeaf_def spend_Inr split: sum.splits dest: compileGlob_Inr compile_globs_unique compile_regexps_unique)

lemma leaf_tree_unique: "leaf_tree v t a b \<Longrightarrow> leaf_tree v t c d \<Longrightarrow> a = c \<and> b = d"
  by (auto simp: leaf_tree_def dest: compileLeaf_unique)

lemma term_tree_unique:
  assumes "term_tree v groups t a b" and "term_tree v groups t c d"
  shows "a = c \<and> b = d"
proof (cases "fst (read_term (tk_text t)) = TkNodegroup")
  case True
  then have "\<not> leaf_tree v t n ts" for n ts by (auto simp: leaf_tree_def)
  with assms obtain s where "derives (leaf_tree v) 0 COr (tokenize s) [a] b" "derives (leaf_tree v) 0 COr (tokenize s) [c] d"
    by (auto simp: term_tree_def)
  then show ?thesis using leaf_tree_unique by (rule derives_unique)
next
  case False
  with assms have "leaf_tree v t a b" "leaf_tree v t c d" by (auto simp: term_tree_def)
  then show ?thesis by (rule leaf_tree_unique)
qed

lemma compound_derives:
  assumes "target_Compile v TkCompound expr groups = Some (Inr m)"
  shows "derives (term_tree v groups) 0 COr (tokenize expr) [mt_ast m] (mt_terms m)"
  using assms by (auto simp: target_Compile_def parsed_matcher_def split: if_splits option.splits sum.splits dest: parse_derives)

lemma target_Compile_total: "\<exists>r. target_Compile v kind expr groups = Some r"
proof -
  have p: "\<exists>r. parse v groups s left = Some r" for s left using target_parse_total [of v groups s left] by simp
  have pm: "\<exists>r. parsed_matcher k e groups (Some x) = Some r" for k e x
    by (auto simp: parsed_matcher_def split: sum.splits)
  show ?thesis using p [of expr maxPatternBytes] p [of _ maxPatternBytes] pm
    by (auto simp: target_Compile_def split: sum.splits) metis+
qed

text \<open>C17: compiling a target always ends, whatever the expression, its length and the nodegroups: the
  parser never runs out of tokens' worth of fuel, and the parser of a nodegroup's expansion never
  starts another. Checking the nodegroups at load ends too.\<close>

theorem target_Compile_ends:
  "(\<exists>r. target_Compile v kind expr groups = Some r) \<and> (\<exists>r. ValidateNodegroups v groups = Some r)"
proof
  have "\<exists>r. validate_groups v groups names = Some r" for names
  proof (induction names)
    case (Cons name names)
    have "parse v groups s left \<noteq> None" for s left by (rule target_parse_total)
    with Cons show ?case by (auto split: sum.splits option.splits) (metis option.distinct(1))
  qed simp
  then show "\<exists>r. ValidateNodegroups v groups = Some r" by (simp add: ValidateNodegroups_def)
qed (rule target_Compile_total)

text \<open>C16: a compound target that compiles has been read by the documented grammar (\<open>not\<close> binds closer
  than \<open>and\<close>, \<open>and\<close> closer than \<open>or\<close>, parentheses group, a nodegroup is its expansion), and by that
  grammar the expression has no other reading: the matcher's tree and its terms are the only ones
  that can be derived from its tokens.\<close>

theorem compound_reads_the_grammar:
  assumes "target_Compile v TkCompound expr groups = Some (Inr m)"
  shows "derives (term_tree v groups) 0 COr (tokenize expr) [n] ts \<longleftrightarrow> n = mt_ast m \<and> ts = mt_terms m"
proof
  assume "derives (term_tree v groups) 0 COr (tokenize expr) [n] ts"
  from derives_unique [OF this compound_derives [OF assms]] show "n = mt_ast m \<and> ts = mt_terms m"
    using term_tree_unique by blast
qed (use compound_derives [OF assms] in simp)

text \<open>A sample: no regular expressions and no addresses, one nodegroup.\<close>

definition sample_env :: target_env where
  "sample_env = \<lparr>tv_rt = no_runtime, tv_Regexp = (\<lambda>_. Inl ''no regexps''), tv_ParseAddr = (\<lambda>_. None),
     tv_ParsePrefix = (\<lambda>_. None), tv_Contains = (\<lambda>_ _. False)\<rparr>"

definition sample_groups :: Nodegroups where
  "sample_groups = [(''front'', ''web1 or G@role:front'')]"

lemma sample_compiled:
  obtains m where "target_Compile sample_env TkCompound ''N@front and not db1'' sample_groups = Some (Inr m)"
    and "map tm_Key (mt_terms m) = [[], ''role'', []]" and "map tm_Kind (mt_terms m) = [TkGlob, TkGrain, TkGlob]"
proof -
  have "(case target_Compile sample_env TkCompound ''N@front and not db1'' sample_groups of
      Some (Inr m) \<Rightarrow> map tm_Key (mt_terms m) = [[], ''role'', []] \<and> map tm_Kind (mt_terms m) = [TkGlob, TkGrain, TkGlob]
    | _ \<Rightarrow> False)" by code_simp
  then show thesis using that by (auto split: option.splits sum.splits)
qed

theorem compound_reads_the_grammar_witness:
  "\<exists>m. target_Compile sample_env TkCompound ''N@front and not db1'' sample_groups = Some (Inr m) \<and>
     derives (term_tree sample_env sample_groups) 0 COr (tokenize ''N@front and not db1'') [mt_ast m] (mt_terms m)"
proof -
  obtain m where "target_Compile sample_env TkCompound ''N@front and not db1'' sample_groups = Some (Inr m)"
    by (rule sample_compiled)
  with compound_reads_the_grammar [OF this, of "mt_ast m" "mt_terms m"] show ?thesis by blast
qed

subsection \<open>How deep the tree is\<close>

fun tree_depth :: "tnode \<Rightarrow> nat" where
  "tree_depth (Leaf l) = 1"
| "tree_depth (AnyNode ns) = Suc (fold max (map tree_depth ns) 0)"
| "tree_depth (AllNode ns) = Suc (fold max (map tree_depth ns) 0)"
| "tree_depth (NotNode n) = Suc (tree_depth n)"

lemma fold_max_le: "fold max xs a \<le> (b :: nat) \<longleftrightarrow> a \<le> b \<and> list_all (\<lambda>x. x \<le> b) xs"
  by (induction xs arbitrary: a) auto

text \<open>A level of the expression adds at most two levels to the tree: the chains of \<open>or\<close> and of \<open>and\<close>.\<close>

fun depth_bound :: "nat \<Rightarrow> nat \<Rightarrow> cat \<Rightarrow> nat" where
  "depth_bound b d CPrimary = b + 2 * (maxCompoundDepth - d)"
| "depth_bound b d CNot = b + 2 * (maxCompoundDepth - d)"
| "depth_bound b d CAnds = b + 2 * (maxCompoundDepth - d)"
| "depth_bound b d CAnd = b + 2 * (maxCompoundDepth - d) + 1"
| "depth_bound b d COrs = b + 2 * (maxCompoundDepth - d) + 1"
| "depth_bound b d COr = b + 2 * (maxCompoundDepth - d) + 2"

lemma chain_depth:
  "list_all (\<lambda>n. tree_depth n \<le> k) ns \<Longrightarrow> ns \<noteq> [] \<Longrightarrow> f \<in> {AnyNode, AllNode} \<Longrightarrow> tree_depth (chain_node f ns) \<le> Suc k"
  by (cases ns) (auto simp: chain_node_def fold_max_le list.pred_map comp_def)

lemma derives_depth:
  assumes "derives Y d c us ns ts" and "\<And>t n ts. Y t n ts \<Longrightarrow> tree_depth n \<le> b" and "d \<le> maxCompoundDepth"
  shows "list_all (\<lambda>n. tree_depth n \<le> depth_bound b d c) ns"
  using assms(1,3)
proof (induction rule: derives.induct)
  case (prim_term t n ts d)
  with assms(2) [OF prim_term(2)] show ?case by simp
next
  case (and_chain d us ns ts)
  with derives_head [OF and_chain(1)] chain_depth [of "depth_bound b d CAnds" ns AllNode] show ?case by simp
next
  case (or_chain d us ns ts)
  with derives_head [OF or_chain(1)] chain_depth [of "depth_bound b d COrs" ns AnyNode] show ?case by simp
qed (auto simp: list_all_iff)

lemma leaf_tree_depth: "leaf_tree v t n ts \<Longrightarrow> tree_depth n \<le> 1"
  by (auto simp: leaf_tree_def)

lemma term_tree_depth: "term_tree v groups t n ts \<Longrightarrow> tree_depth n \<le> 203"
  using derives_depth [of "leaf_tree v" 0 COr _ "[n]" ts 1] leaf_tree_depth [of v]
  by (fastforce simp: term_tree_def maxCompoundDepth_def)

text \<open>The tree that is matched against every node is never nested deeper than 405, about twice what
  one parser's bound of 100 levels allows: nodegroups are parsed at depth 0 but only once.\<close>

theorem match_tree_is_shallow:
  assumes "target_Compile v kind expr groups = Some (Inr m)"
  shows "tree_depth (mt_ast m) \<le> 405"
proof -
  have "tree_depth n \<le> 405" if "parse v groups s left = Some (Inr (n, ts, l))" for n ts l s left
    using derives_depth [OF parse_derives [OF that], of 203] term_tree_depth by (simp add: maxCompoundDepth_def)
  with assms show ?thesis
    by (auto simp: target_Compile_def parsed_matcher_def split: if_splits option.splits sum.splits)
qed

theorem match_tree_is_shallow_witness:
  "\<exists>m. target_Compile sample_env TkCompound ''N@front and not db1'' sample_groups = Some (Inr m) \<and> tree_depth (mt_ast m) \<le> 405"
  by (rule sample_compiled) (blast intro: match_tree_is_shallow)

subsection \<open>Terms are all that matching consults\<close>

definition root_name :: "string \<Rightarrow> string" where
  "root_name key = takeWhile (\<lambda>c. c \<noteq> CHR '':'') key"

definition grain_of :: "Node \<Rightarrow> string \<Rightarrow> val option" where
  "grain_of n name = (case nd_Grains n of None \<Rightarrow> None | Some m \<Rightarrow> Map_Get m (KStr name))"

definition pillar_of :: "Node \<Rightarrow> string \<Rightarrow> val option" where
  "pillar_of n name = traverse_step (pickPillar n) name"

text \<open>The two nodes agree on what the term says it consults.\<close>

definition same_for :: "Node \<Rightarrow> Node \<Rightarrow> Term \<Rightarrow> bool" where
  "same_for n n' t \<longleftrightarrow>
     (if tm_Kind t = TkGrain \<or> tm_Kind t = TkGrainRegex then
        grain_of n (root_name (tm_Key t)) = grain_of n' (root_name (tm_Key t))
      else if tm_Kind t = TkPillar \<or> tm_Kind t = TkPillarRegex then
        pillar_of n (root_name (tm_Key t)) = pillar_of n' (root_name (tm_Key t))
      else if tm_Kind t = TkSubnet then
        grain_of n ''ipv4'' = grain_of n' ''ipv4'' \<and> grain_of n ''ipv6'' = grain_of n' ''ipv6''
      else True)"

lemma pickGrains_step: "traverse_step (pickGrains n) name = grain_of n name"
  by (simp add: pickGrains_def grain_of_def traverse_step_def Get_NewMap split: option.split)

lemma root_name_append [simp]:
  "root_name (a @ CHR '':'' # b) = root_name a"
  "CHR '':'' \<notin> set a \<Longrightarrow> root_name a = a"
  by (induction a) (auto simp: root_name_def)

lemma split_root: "\<exists>parts. str_split key '':'' = root_name key # parts"
proof (cases "CHR '':'' \<in> set key")
  case True
  then obtain a b where "key = a @ CHR '':'' # b" "CHR '':'' \<notin> set a" by (meson split_list_first)
  then show ?thesis by (simp add: str_split_def split_aux_append)
qed (simp add: str_split_def split_aux_clean)

lemma key_match_cong:
  assumes "key = [] \<Longrightarrow> \<exists>m m'. root = VMap m \<and> root' = VMap m'"
    and "traverse_step root (root_name key) = traverse_step root' (root_name key)"
  shows "key_match v root key pred = key_match v root' key pred"
proof (cases "key = []")
  case True
  with assms(1) show ?thesis by (auto simp: key_match_def Traverse_def matchScalarOrList_def)
next
  case False
  from split_root obtain parts where "str_split key '':'' = root_name key # parts" ..
  with False assms(2) show ?thesis by (simp add: key_match_def Traverse_def)
qed

text \<open>Every reading of a target as path and pattern starts at the same grain.\<close>

lemma splitCandidates_root:
  assumes "splitCandidates expr = Inr cands" and "(k, pat) \<in> set cands"
  shows "root_name k = root_name expr"
proof (cases "CHR '':'' \<in> set expr")
  case True
  with assms obtain i where i: "i \<in> set (positions (\<lambda>x. x = CHR '':'') expr)" "k = take i expr"
    by (auto simp: splitCandidates_def Let_def split: if_splits)
  then have "expr = k @ CHR '':'' # drop (Suc i) expr"
    using id_take_nth_drop [of i expr] by (simp add: set_positions)
  then show ?thesis by (metis root_name_append(1))
qed (use assms in \<open>auto simp: splitCandidates_def\<close>)

lemma leafKey_root:
  assumes "kind \<in> {TkGrain, TkGrainRegex, TkPillar, TkPillarRegex}" and "splitCandidates expr = Inr cands"
  shows "root_name (leafKey kind expr) = root_name expr"
proof (cases "CHR '':'' \<in> set expr")
  case True
  then have ne: "positions (\<lambda>x. x = CHR '':'') expr \<noteq> []" by (simp add: positions_empty)
  define i where "i = last (positions (\<lambda>x. x = CHR '':'') expr)"
  from ne have i: "i \<in> set (positions (\<lambda>x. x = CHR '':'') expr)" unfolding i_def by simp
  then have e: "expr = take i expr @ CHR '':'' # drop (Suc i) expr"
    using id_take_nth_drop [of i expr] by (simp add: set_positions)
  have k: "leafKey kind expr = (if take i expr = [] then [] else take i expr)"
    using assms(1) ne unfolding leafKey_def splitKeyValue_def last_index_def i_def by (auto split: list.splits)
  have "root_name (leafKey kind expr) = root_name (take i expr)" by (simp add: k)
  also have "\<dots> = root_name expr" by (metis e root_name_append(1))
  finally show ?thesis .
next
  case False
  then have "positions (\<lambda>x. x = CHR '':'') expr = []" by (simp add: positions_empty) metis
  with assms(1) show ?thesis by (auto simp: leafKey_def splitKeyValue_def last_index_def)
qed


lemma compile_globs_keys: "compile_globs v expr cands left = Inr (gs, left1) \<Longrightarrow> map fst gs = map fst cands"
  by (induction v expr cands left arbitrary: gs left1 rule: compile_globs.induct) (auto split: sum.splits)

lemma compile_regexps_keys: "compile_regexps v expr first cands left = Inr (rs, left1) \<Longrightarrow> map fst rs = map fst cands"
proof (induction cands arbitrary: first left rs)
  case (Cons c cands)
  obtain k pat where c: "c = (k, pat)" by (cases c)
  from Cons.prems show ?case unfolding c by (elim compile_regexps_Cons) (simp add: Cons.IH)
qed simp

lemma list_ex_cong_keys:
  "(\<And>k x. (k, x) \<in> set xs \<Longrightarrow> f (k, x) = g (k, x)) \<Longrightarrow> list_ex f xs = list_ex g xs"
  by (force simp: list_ex_iff)

lemma key_in_cands:
  assumes "map fst gs = map fst cands" and "(k, x) \<in> set gs"
  obtains pat where "(k, pat) \<in> set cands"
  using assms by (metis image_eqI list.set_map prod.collapse fst_conv imageE)

definition pick :: "bool \<Rightarrow> Node \<Rightarrow> val" where
  "pick pillar n = (if pillar then pickPillar n else pickGrains n)"

lemma pick_map: "\<exists>m. pick b n = VMap m"
  by (auto simp: pick_def pickPillar_def pickGrains_def split: option.splits)

lemma pick_same:
  assumes "same_for n n' \<lparr>tm_Kind = kind, tm_Key = leafKey kind expr\<rparr>" and "splitCandidates expr = Inr cands"
    and "kind \<in> {TkGrain, TkGrainRegex, TkPillar, TkPillarRegex}" and "(k, pat) \<in> set cands"
    and "b \<longleftrightarrow> kind \<in> {TkPillar, TkPillarRegex}"
  shows "key_match v (pick b n) k = key_match v (pick b n') k"
proof
  fix g
  have "root_name k = root_name (leafKey kind expr)"
    using splitCandidates_root [OF assms(2,4)] leafKey_root [OF assms(3,2)] by simp
  with assms(1,3,5) have "traverse_step (pick b n) (root_name k) = traverse_step (pick b n') (root_name k)"
    by (elim insertE) (simp_all add: same_for_def pick_def pickGrains_step pillar_of_def)
  then show "key_match v (pick b n) k g = key_match v (pick b n') k g"
    using pick_map by (intro key_match_cong) blast+
qed

lemma leaf_match_pick:
  "leaf_match v (LKey b cands) n = list_ex (\<lambda>(k, g). key_match v (pick b n) k g) cands"
  "leaf_match v (LKeyRegex b rs) n =
     list_ex (\<lambda>(k, re). case re of None \<Rightarrow> False | Some f \<Rightarrow> key_match v (pick b n) k f) rs"
  by (cases b; simp add: pick_def)+

lemma keyed_same:
  assumes "\<And>k pat. (k, pat) \<in> set cands \<Longrightarrow> key_match v (pick b n) k = key_match v (pick b n') k"
  shows "map fst gs = map fst cands \<Longrightarrow> leaf_match v (LKey b gs) n = leaf_match v (LKey b gs) n'"
    and "map fst rs = map fst cands \<Longrightarrow> leaf_match v (LKeyRegex b rs) n = leaf_match v (LKeyRegex b rs) n'"
proof -
  show "leaf_match v (LKey b gs) n = leaf_match v (LKey b gs) n'" if "map fst gs = map fst cands"
    unfolding leaf_match_pick
  proof (rule list_ex_cong_keys)
    fix k x assume "(k, x) \<in> set gs"
    with that obtain pat where "(k, pat) \<in> set cands" by (rule key_in_cands)
    from assms [OF this] show "(case (k, x) of (k, g) \<Rightarrow> key_match v (pick b n) k g) =
        (case (k, x) of (k, g) \<Rightarrow> key_match v (pick b n') k g)" by simp
  qed
  show "leaf_match v (LKeyRegex b rs) n = leaf_match v (LKeyRegex b rs) n'" if "map fst rs = map fst cands"
    unfolding leaf_match_pick
  proof (rule list_ex_cong_keys)
    fix k x assume "(k, x) \<in> set rs"
    with that obtain pat where "(k, pat) \<in> set cands" by (rule key_in_cands)
    from assms [OF this] show "(case (k, x) of (k, re) \<Rightarrow> case re of None \<Rightarrow> False | Some f \<Rightarrow> key_match v (pick b n) k f) =
        (case (k, x) of (k, re) \<Rightarrow> case re of None \<Rightarrow> False | Some f \<Rightarrow> key_match v (pick b n') k f)" by simp
  qed
qed

lemma anyGrainAddress_grain:
  "anyGrainAddress n key pred =
     (case grain_of n key of
        Some (VSeq items) \<Rightarrow> list_ex (\<lambda>item. case item of VStr s \<Rightarrow> pred s | _ \<Rightarrow> False) items
      | _ \<Rightarrow> False)"
  by (simp add: anyGrainAddress_def grain_of_def split: option.split)

lemma subnet_same:
  assumes "compileSubnet v expr = Inr l" and "grain_of n ''ipv4'' = grain_of n' ''ipv4''" and "grain_of n ''ipv6'' = grain_of n' ''ipv6''"
  shows "leaf_match v l n = leaf_match v l n'"
proof -
  have g: "grain_of n (addressGrain is4) = grain_of n' (addressGrain is4)" for is4
    using assms(2,3) by (simp add: addressGrain_def)
  from assms(1) show ?thesis
    by (auto simp: compileSubnet_def anyGrainAddress_grain g split: option.splits)
qed

lemma leaf_same:
  assumes "compileLeaf v kind expr left = Inr (l, left1)" and "nd_ID n = nd_ID n'"
    and "same_for n n' \<lparr>tm_Kind = kind, tm_Key = leafKey kind expr\<rparr>"
  shows "leaf_match v l n = leaf_match v l n'"
proof (cases "kind \<in> {TkGrain, TkGrainRegex, TkPillar, TkPillarRegex}")
  case True
  with assms(1) obtain cands where c: "splitCandidates expr = Inr cands"
    by (auto simp: compileLeaf_def split: sum.splits)
  define b where "b \<longleftrightarrow> kind \<in> {TkPillar, TkPillarRegex}"
  note same = keyed_same [OF pick_same [OF assms(3) c True _ b_def]]
  consider gs where "compile_globs v expr cands left = Inr (gs, left1)" "l = LKey b gs"
    | rs where "compile_regexps v expr True cands left = Inr (rs, left1)" "l = LKeyRegex b rs"
    using True assms(1) c b_def by (auto simp: compileLeaf_def split: sum.splits)
  then show ?thesis by cases (simp_all only: same compile_globs_keys compile_regexps_keys)
next
  case False
  with assms subnet_same [of v expr l n n'] show ?thesis
    by (cases kind) (auto simp: compileLeaf_def same_for_def split: sum.splits)
qed

lemma derives_same:
  assumes "derives Y d c us ns ts" and "list_all (same_for n n') ts"
    and "\<And>t m ts. Y t m ts \<Longrightarrow> list_all (same_for n n') ts \<Longrightarrow> node_match v m n = node_match v m n'"
  shows "list_all (\<lambda>m. node_match v m n = node_match v m n') ns"
  using assms(1,2)
proof (induction rule: derives.induct)
  case (prim_term t m ts d)
  from assms(3) [OF prim_term(2,3)] show ?case by simp
qed (auto simp: chain_node_def list_all_iff list_ex_iff length_Suc_conv)

lemma leaf_tree_same:
  "leaf_tree v t m ts \<Longrightarrow> nd_ID n = nd_ID n' \<Longrightarrow> list_all (same_for n n') ts \<Longrightarrow> node_match v m n = node_match v m n'"
  by (auto simp: leaf_tree_def dest: leaf_same)

lemma term_tree_same:
  assumes "term_tree v groups t m ts" and "nd_ID n = nd_ID n'" and "list_all (same_for n n') ts"
  shows "node_match v m n = node_match v m n'"
  using assms(1) unfolding term_tree_def
proof (elim disjE exE conjE)
  fix s assume "derives (leaf_tree v) 0 COr (tokenize s) [m] ts"
  from derives_same [OF this assms(3), of v] leaf_tree_same [OF _ assms(2)] show ?thesis by simp
qed (rule leaf_tree_same [OF _ assms(2,3)])

lemma match_same:
  assumes "target_Compile v kind expr groups = Some (Inr m)" and "nd_ID n = nd_ID n'"
    and "list_all (same_for n n') (mt_terms m)"
  shows "Matcher_Match v m n = Matcher_Match v m n'"
proof -
  have p: "node_match v a n = node_match v a n'"
    if "parse v groups s left = Some (Inr (a, ts, l))" "list_all (same_for n n') ts" for a ts l s left
    using derives_same [OF parse_derives [OF that(1)] that(2), of v] term_tree_same [OF _ assms(2)] by simp
  show ?thesis using assms unfolding Matcher_Match_def
    by (auto simp: target_Compile_def parsed_matcher_def split: if_splits option.splits sum.splits dest: p leaf_same)
qed

text \<open>C15: the terms a matcher reports are all that matching consults. Two nodes with the same ID that
  agree on the grains and pillar entries at the head of each term's path, and on their addresses when
  the target names one, match alike, wherever in the expression or in a nodegroup the term stands.\<close>

theorem Terms_are_all_that_is_consulted:
  assumes "target_Compile v kind expr groups = Some (Inr m)" and "nd_ID n = nd_ID n'"
    and "list_all (same_for n n') (mt_terms m)"
  shows "Matcher_Match v m n = Matcher_Match v m n'"
  using assms by (rule match_same)

definition sample_node :: "string \<Rightarrow> (string \<times> val) list \<Rightarrow> Node" where
  "sample_node name grains = \<lparr>nd_ID = name,
     nd_Grains = Some (foldl (\<lambda>m (k, x). Map_Set m (KStr k) x) NewMap grains), nd_Pillar = None, nd_LoadPillar = None\<rparr>"

theorem Terms_are_all_that_is_consulted_witness:
  "\<exists>m. target_Compile sample_env TkCompound ''N@front and not db1'' sample_groups = Some (Inr m) \<and>
     Matcher_Match sample_env m (sample_node ''a'' [(''role'', VStr ''front'')]) =
     Matcher_Match sample_env m (sample_node ''a'' [(''role'', VStr ''front''), (''os'', VStr ''x'')])"
proof -
  obtain m where m: "target_Compile sample_env TkCompound ''N@front and not db1'' sample_groups = Some (Inr m)"
    "map tm_Key (mt_terms m) = [[], ''role'', []]" "map tm_Kind (mt_terms m) = [TkGlob, TkGrain, TkGlob]"
    by (rule sample_compiled)
  let ?n = "sample_node ''a'' [(''role'', VStr ''front'')]"
  let ?n' = "sample_node ''a'' [(''role'', VStr ''front''), (''os'', VStr ''x'')]"
  have g: "grain_of ?n ''role'' = grain_of ?n' ''role''" "nd_ID ?n = nd_ID ?n'" by code_simp+
  from m(2) obtain a b c where t: "mt_terms m = [a, b, c]" by (auto simp: map_eq_Cons_conv)
  with m(2,3) g(1) have "list_all (same_for ?n ?n') (mt_terms m)" by (simp add: same_for_def)
  from Terms_are_all_that_is_consulted [OF m(1) g(2) this] m(1) show ?thesis by blast
qed

subsection \<open>References inside a value\<close>

text \<open>Nodegroup expansion replaces \<open>N@\<close> wherever the two bytes stand. A grain value that happens to
  hold them is a term like any other in a compound target, but the same expression as a nodegroup is
  refused, both when it is used and when it is checked at load.\<close>

theorem nodegroup_expands_inside_values:
  "(case target_Compile sample_env TkCompound ''G@owner:ALAN@corp'' [] of
      Some (Inr m) \<Rightarrow> map tm_Key (mt_terms m) = [''owner''] | _ \<Rightarrow> False) \<and>
   (case target_Compile sample_env TkNodegroup ''ops'' [(''ops'', ''G@owner:ALAN@corp'')] of
      Some (Inl e) \<Rightarrow> e = mk_error ''corp'' 0 ''nodegroup %q is not defined'' [FStr ''corp''] | _ \<Rightarrow> False) \<and>
   ValidateNodegroups sample_env [(''ops'', ''G@owner:ALAN@corp'')] =
     Some (Some (terror_Error (mk_error ''corp'' 0 ''nodegroup %q is not defined'' [FStr ''corp''])))"
  by code_simp

end
