(* ===== verification/Top.thy ===== *)
theory Top
  imports Pipeline Targeting
begin

text \<open>
  Top files (\<open>internal/state/top.go\<close>) and the highstate (\<open>CompileHighstate\<close>): which SLS files a node gets.
  Every environment's top file is rendered, its targets are matched against the node, and what matched is
  combined by one of three strategies and compiled. Where the code ranges over a Go map, the order is a
  parameter.
\<close>

subsection \<open>One entry\<close>

definition TopName :: string where "TopName = ''top''"

record TopCompiler =
  tp_c :: Compiler
  tp_target :: target_env
  tp_NodeID :: string
  tp_Grains :: "vmap option"
  tp_Pillar :: "vmap option"
  tp_Nodegroups :: Nodegroups
  tp_range :: "string list \<Rightarrow> string list"   \<comment> \<open>the order in which a map's keys are visited\<close>

definition TopMatchKind :: "go_runtime \<Rightarrow> val \<Rightarrow> string" where
  "TopMatchKind rt body =
     (case body of
        VSeq items \<Rightarrow>
          (case find (\<lambda>item. case item of
                        VMap m \<Rightarrow> Map_Len m = 1 \<and> KeyString (Key (hd (entries m))) = ''match''
                      | _ \<Rightarrow> False) items of
             Some (VMap m) \<Rightarrow> KeyString_any (rt_sprint rt) (Val (hd (entries m)))
           | _ \<Rightarrow> [])
      | _ \<Rightarrow> [])"

definition matchAlias :: "string \<Rightarrow> string" where
  "matchAlias name =
     (if name = ''glob'' then []
      else if name = ''list'' then ''L''
      else if name = ''pcre'' then ''E''
      else if name = ''grain'' then ''G''
      else if name = ''grain_pcre'' then ''P''
      else if name = ''pillar'' then ''I''
      else if name = ''pillar_pcre'' then ''J''
      else if name = ''ipcidr'' then ''S''
      else if name = ''nodegroup'' then ''N''
      else if name = ''compound'' then ''C''
      else name)"

definition CompileTopTarget :: "target_env \<Rightarrow> string \<Rightarrow> val \<Rightarrow> Nodegroups \<Rightarrow> (terror + Matcher) option" where
  "CompileTopTarget v expr body groups =
     (let kindName = TopMatchKind (tv_rt v) body in
      if kindName = [] then CompileAuto v expr groups
      else case KindFromFlag (matchAlias kindName) of
        None \<Rightarrow> Some (Inl (mk_error expr 0 ''%s'' [FStr (''unknown match type '' @ kindName)]))
      | Some kind \<Rightarrow> target_Compile v kind expr groups)"

definition sls_name_item :: "pos \<Rightarrow> string list \<times> Diags \<Rightarrow> val \<Rightarrow> string list \<times> Diags" where
  "sls_name_item p = (\<lambda>(out, diags) item.
     case item of
       VStr t \<Rightarrow> (out @ [t], diags)
     | VMap t \<Rightarrow>
         if Map_Len t = 1 \<and> KeyString (Key (hd (entries t))) \<in> set [''match'', ''ignore_missing''] then (out, diags)
         else (out, Diags_Add p TopName [] ''an SLS name must be a string, found a mapping'' [] diags)
     | _ \<Rightarrow> (out, Diags_Add p TopName [] ''an SLS name must be a string, found %s'' [FStr (TypeName item)] diags))"

definition topSLSNames :: "val \<Rightarrow> pos \<Rightarrow> Diags \<Rightarrow> string list \<times> Diags" where
  "topSLSNames v p diags =
     (case v of
        VSeq items \<Rightarrow> foldl (sls_name_item p) ([], diags) items
      | _ \<Rightarrow> ([], Diags_Add p TopName [] ''a top file target must hold a list of SLS names, found %s''
                   [FStr (TypeName v)] diags))"

definition appendUnique :: "string list \<Rightarrow> string list \<Rightarrow> string list" where
  "appendUnique dst src = foldl (\<lambda>d s. if s \<in> set d then d else d @ [s]) dst src"

definition add_matched :: "string \<Rightarrow> string list \<Rightarrow> (string, string list) gomap \<Rightarrow> (string, string list) gomap" where
  "add_matched env names out = gomap_put env (appendUnique (multi_get out env) names) out"

subsection \<open>Matching a top file\<close>

definition top_node :: "TopCompiler \<Rightarrow> Node" where
  "top_node c = \<lparr>nd_ID = tp_NodeID c, nd_Grains = tp_Grains c, nd_Pillar = tp_Pillar c, nd_LoadPillar = None\<rparr>"

type_synonym top_state = "(string, string list) gomap \<times> Diags"

definition match_entry :: "TopCompiler \<Rightarrow> string \<Rightarrow> entry \<Rightarrow> top_state \<Rightarrow> top_state option" where
  "match_entry c env te = (\<lambda>(out, diags).
     let v = tp_target c; expr = KeyString (Key te) in
     case CompileTopTarget v expr (Val te) (tp_Nodegroups c) of
       None \<Rightarrow> None
     | Some (Inl err) \<Rightarrow> Some (out, Diags_Add (KeyPos te) TopName [] ''%v'' [terror_Error err] diags)
     | Some (Inr matcher) \<Rightarrow>
         if \<not> Matcher_Match v matcher (top_node c) then Some (out, diags)
         else case topSLSNames (Val te) (ValPos te) diags of
           (names, diags1) \<Rightarrow> Some (add_matched env names out, diags1))"

fun match_entries :: "TopCompiler \<Rightarrow> string \<Rightarrow> entry list \<Rightarrow> top_state \<Rightarrow> top_state option" where
  "match_entries c env [] st = Some st"
| "match_entries c env (te # tes) st =
     (case match_entry c env te st of None \<Rightarrow> None | Some st1 \<Rightarrow> match_entries c env tes st1)"

fun match_envs :: "TopCompiler \<Rightarrow> entry list \<Rightarrow> top_state \<Rightarrow> top_state option" where
  "match_envs c [] st = Some st"
| "match_envs c (e # es) (out, diags) =
     (let env = KeyString (Key e) in
      if env = ''include'' then match_envs c es (out, diags)
      else case Val e of
        VMap targets \<Rightarrow>
          (case match_entries c env (entries targets) (out, diags) of
             None \<Rightarrow> None | Some st1 \<Rightarrow> match_envs c es st1)
      | _ \<Rightarrow>
          match_envs c es (out, Diags_Add (ValPos e) TopName []
            ''the %q environment in the top file must hold a mapping of target expressions, found %s''
            [FStr env, FStr (TypeName (Val e))] diags))"

definition matchTop :: "TopCompiler \<Rightarrow> val \<Rightarrow> string \<Rightarrow> Diags \<Rightarrow> top_state option" where
  "matchTop c v filePath diags =
     (case v of
        VNull \<Rightarrow> Some ([], diags)
      | VMap m \<Rightarrow> match_envs c (entries m) ([], diags)
      | _ \<Rightarrow> Some ([], Diags_Add (file_pos filePath) TopName []
                  ''a top file must hold a mapping of environments, found %s'' [FStr (TypeName v)] diags))"

subsection \<open>Every environment's top file\<close>

record tops =
  to_perEnv :: "(string, (string, string list) gomap) gomap"
  to_found :: "string list"
  to_Diags :: Diags

fun read_tops :: "TopCompiler \<Rightarrow> string list \<Rightarrow> tops \<Rightarrow> tops option" where
  "read_tops c [] st = Some st"
| "read_tops c (env # envs) st =
     (case co_Source (tp_c c) env TopName of
        SrcNotFound \<Rightarrow> read_tops c envs st
      | SrcError err \<Rightarrow>
          read_tops c envs (st\<lparr>to_Diags := Diags_Add (file_pos TopName) TopName [] ''reading the top file for %q: %v''
            [FStr env, FStr err] (to_Diags st)\<rparr>)
      | SrcOK src filePath \<Rightarrow>
          (let st1 = st\<lparr>to_found := to_found st @ [env]\<rparr> in
           case snd (co_Render (tp_c c) src env TopName filePath) of
             Inl err \<Rightarrow>
               read_tops c envs (st1\<lparr>to_Diags := Diags_Add (file_pos filePath) TopName [] ''%v'' [FStr err] (to_Diags st1)\<rparr>)
           | Inr v \<Rightarrow>
               (case matchTop c v filePath (to_Diags st1) of
                  None \<Rightarrow> None
                | Some (matched, diags) \<Rightarrow>
                    read_tops c envs (st1\<lparr>to_perEnv := gomap_put env matched (to_perEnv st1), to_Diags := diags\<rparr>))))"

definition sortedStringKeys :: "(string, 'v) gomap \<Rightarrow> string list" where
  "sortedStringKeys m = sort (map fst m)"

definition matched_in :: "(string, (string, string list) gomap) gomap \<Rightarrow> string \<Rightarrow> (string, string list) gomap" where
  "matched_in perEnv env = (case gomap_get perEnv env of None \<Rightarrow> [] | Some m \<Rightarrow> m)"

text \<open>Every entry of one environment's top file, in the given order of its headings.\<close>

definition merge_env ::
  "string list \<Rightarrow> (string, string list) gomap \<Rightarrow> (string, string list) gomap \<Rightarrow> (string, string list) gomap" where
  "merge_env targetEnvs matched out = foldl (\<lambda>acc t. add_matched t (multi_get matched t) acc) out targetEnvs"

definition same_target :: "string \<Rightarrow> (string, string list) gomap \<Rightarrow> top_state \<Rightarrow> string \<Rightarrow> top_state" where
  "same_target env matched = (\<lambda>(out, diags) targetEnv.
     if targetEnv \<noteq> env then
       (out, Diags_Add (file_pos TopName) TopName []
          ''top_file_merging_strategy is `same`, so the top file in %q may not declare states for %q''
          [FStr env, FStr targetEnv] diags)
     else (add_matched env (multi_get matched targetEnv) out, diags))"

definition merge_same :: "(string list \<Rightarrow> string list) \<Rightarrow> (string, (string, string list) gomap) gomap \<Rightarrow> Diags \<Rightarrow> top_state" where
  "merge_same rng perEnv diags =
     foldl (\<lambda>st env. foldl (same_target env (matched_in perEnv env)) st (rng (map fst (matched_in perEnv env))))
       ([], diags) (rng (map fst perEnv))"

fun merge_order ::
  "(string, (string, string list) gomap) gomap \<Rightarrow> string list \<Rightarrow> string list \<Rightarrow> (string, string list) gomap
     \<Rightarrow> (string, string list) gomap" where
  "merge_order perEnv [] seen out = out"
| "merge_order perEnv (env # envs) seen out =
     (if env \<in> set seen then merge_order perEnv envs seen out
      else case gomap_get perEnv env of
        None \<Rightarrow> merge_order perEnv envs (seen @ [env]) out
      | Some matched \<Rightarrow>
          merge_order perEnv envs (seen @ [env]) (merge_env (sortedStringKeys matched) matched out))"

definition merge_tops :: "string list \<Rightarrow> (string, (string, string list) gomap) gomap \<Rightarrow> (string, string list) gomap" where
  "merge_tops envs perEnv =
     foldl (\<lambda>out env. merge_env (sortedStringKeys (matched_in perEnv env)) (matched_in perEnv env) out) [] envs"

definition resolveTop :: "TopCompiler \<Rightarrow> top_state option" where
  "resolveTop c =
     (let strategy = (if co_TopMergeStrategy (tp_c c) = [] then ''merge'' else co_TopMergeStrategy (tp_c c));
          envs = (if length (co_Envs (tp_c c)) = 0 then [Compiler_env (tp_c c)] else co_Envs (tp_c c))
      in case read_tops c envs \<lparr>to_perEnv = [], to_found = [], to_Diags = []\<rparr> of
        None \<Rightarrow> None
      | Some st \<Rightarrow>
          if length (to_found st) = 0 then
            Some ([], Diags_Add zero_pos TopName []
              ''no top file was found in any environment (%v); a highstate needs one''
              [FStr (''['' @ str_join '' '' envs @ '']'')] (to_Diags st))
          else if strategy = ''same'' then Some (merge_same (tp_range c) (to_perEnv st) (to_Diags st))
          else if strategy = ''merge_all'' then
            Some (merge_tops (sortedStringKeys (to_perEnv st)) (to_perEnv st), to_Diags st)
          else
            Some (merge_order (to_perEnv st) (Compiler_env (tp_c c) # sortedStringKeys (to_perEnv st)) [] [], to_Diags st))"

subsection \<open>The highstate\<close>

definition sortedEnvKeys :: "(string, string list) gomap \<Rightarrow> string list" where
  "sortedEnvKeys m =
     (let out = sort (map fst m) in
      case find_index (\<lambda>e. e = ''base'') out of
        Some (Suc i) \<Rightarrow> ''base'' # take (Suc i) out @ drop (Suc (Suc i)) out
      | _ \<Rightarrow> out)"

fun compile_envs :: "Compiler \<Rightarrow> nat \<Rightarrow> (string, string list) gomap \<Rightarrow> string list \<Rightarrow> Compiled \<Rightarrow> Compiled option" where
  "compile_envs c depth matched [] out = Some out"
| "compile_envs c depth matched (env # envs) out =
     (case compileNames c depth out env (multi_get matched env) of
        None \<Rightarrow> None
      | Some out1 \<Rightarrow> compile_envs c depth matched envs out1)"

definition CompileHighstate :: "TopCompiler \<Rightarrow> nat \<Rightarrow> Compiled option" where
  "CompileHighstate c depth =
     (case resolveTop c of
        None \<Rightarrow> None
      | Some (matched, diags) \<Rightarrow>
          (case compile_envs (tp_c c) depth matched (sortedEnvKeys matched)
                  (new_Compiled\<lparr>out_Diags := out_Diags new_Compiled @ diags\<rparr>) of
             None \<Rightarrow> None
           | Some out \<Rightarrow> finish (tp_c c) out))"

subsection \<open>What a top file gives a node\<close>

text \<open>The SLS names among the items of a target's body.\<close>

definition sls_names :: "val \<Rightarrow> string list" where
  "sls_names v = (case v of VSeq items \<Rightarrow> concat (map (\<lambda>item. case item of VStr t \<Rightarrow> [t] | _ \<Rightarrow> []) items) | _ \<Rightarrow> [])"

text \<open>The entry's target matches the node and it names the file.\<close>

definition entry_lists :: "TopCompiler \<Rightarrow> entry \<Rightarrow> string \<Rightarrow> bool" where
  "entry_lists c te name \<longleftrightarrow>
     (\<exists>m. CompileTopTarget (tp_target c) (KeyString (Key te)) (Val te) (tp_Nodegroups c) = Some (Inr m) \<and>
        Matcher_Match (tp_target c) m (top_node c)) \<and> name \<in> set (sls_names (Val te))"

text \<open>The heading of the top file lists the file for the node.\<close>

definition heading_lists :: "TopCompiler \<Rightarrow> entry \<Rightarrow> string \<Rightarrow> string \<Rightarrow> bool" where
  "heading_lists c e env name \<longleftrightarrow> KeyString (Key e) = env \<and> env \<noteq> ''include'' \<and>
     (\<exists>targets te. Val e = VMap targets \<and> te \<in> set (entries targets) \<and> entry_lists c te name)"

text \<open>The top file of one environment lists the file for the node, under some heading.\<close>

definition top_lists :: "TopCompiler \<Rightarrow> string \<Rightarrow> string \<Rightarrow> string \<Rightarrow> bool" where
  "top_lists c topEnv env name \<longleftrightarrow>
     (\<exists>src filePath m e. co_Source (tp_c c) topEnv TopName = SrcOK src filePath \<and>
        snd (co_Render (tp_c c) src topEnv TopName filePath) = Inr (VMap m) \<and> e \<in> set (entries m) \<and>
        heading_lists c e env name)"

lemma set_appendUnique [simp]: "set (appendUnique dst src) = set dst \<union> set src"
  unfolding appendUnique_def by (induction src arbitrary: dst) auto

lemma distinct_appendUnique: "distinct dst \<Longrightarrow> distinct (appendUnique dst src)"
  unfolding appendUnique_def by (induction src arbitrary: dst) auto

lemma multi_get_add_matched:
  "multi_get (add_matched env names out) env' =
     (if env' = env then appendUnique (multi_get out env) names else multi_get out env')"
  by (simp add: add_matched_def multi_get_def)

lemma topSLSNames_fst: "fst (topSLSNames v p diags) = sls_names v"
proof -
  have "fst (foldl (sls_name_item p) (out, d) items) =
      out @ concat (map (\<lambda>item. case item of VStr t \<Rightarrow> [t] | _ \<Rightarrow> []) items)" for out d items
    by (induction items arbitrary: out d) (auto simp: sls_name_item_def split: val.split)
  then show ?thesis by (simp add: topSLSNames_def sls_names_def split: val.split)
qed

lemma CompileTopTarget_total: "\<exists>r. CompileTopTarget v expr body groups = Some r"
  by (auto simp: CompileTopTarget_def CompileAuto_def Let_def target_Compile_total split: option.splits)

text \<open>One more entry adds what it lists, under its heading.\<close>

lemma match_entry_spec:
  obtains out' diags' where "match_entry c env te (out, diags) = Some (out', diags')"
    and "\<And>env' name. name \<in> set (multi_get out' env') \<longleftrightarrow>
      name \<in> set (multi_get out env') \<or> (env' = env \<and> entry_lists c te name)"
proof -
  from CompileTopTarget_total obtain r
    where r: "CompileTopTarget (tp_target c) (KeyString (Key te)) (Val te) (tp_Nodegroups c) = Some r" by blast
  show thesis
  proof (cases r)
    case (Inl err)
    with r show thesis by (intro that) (auto simp: match_entry_def Let_def entry_lists_def)
  next
    case (Inr m)
    obtain names d where t: "topSLSNames (Val te) (ValPos te) diags = (names, d)" by fastforce
    with topSLSNames_fst [of "Val te" "ValPos te" diags] have "names = sls_names (Val te)" by simp
    with r Inr t show thesis
      by (intro that [of "if Matcher_Match (tp_target c) m (top_node c) then add_matched env names out else out"
            "if Matcher_Match (tp_target c) m (top_node c) then d else diags"])
        (auto simp: match_entry_def Let_def entry_lists_def multi_get_add_matched)
  qed
qed

lemma match_entries_spec:
  "\<exists>out' diags'. match_entries c env tes (out, diags) = Some (out', diags') \<and>
     (\<forall>env' name. name \<in> set (multi_get out' env') \<longleftrightarrow>
        name \<in> set (multi_get out env') \<or> (env' = env \<and> (\<exists>te \<in> set tes. entry_lists c te name)))"
proof (induction tes arbitrary: out diags)
  case (Cons te tes)
  from match_entry_spec [of c env te out diags] obtain o1 d1 where 1: "match_entry c env te (out, diags) = Some (o1, d1)"
    "\<And>env' name. name \<in> set (multi_get o1 env') \<longleftrightarrow> name \<in> set (multi_get out env') \<or> (env' = env \<and> entry_lists c te name)"
    by blast
  from Cons.IH [of o1 d1] show ?case by (auto simp: 1)
qed simp

lemma match_envs_spec:
  "\<exists>out' diags'. match_envs c es (out, diags) = Some (out', diags') \<and>
     (\<forall>env name. name \<in> set (multi_get out' env) \<longleftrightarrow>
        name \<in> set (multi_get out env) \<or> (\<exists>e \<in> set es. heading_lists c e env name))"
proof (induction es arbitrary: out diags)
  case (Cons e es)
  let ?env = "KeyString (Key e)"
  consider targets where "?env \<noteq> ''include''" "Val e = VMap targets" | "?env = ''include''" | "?env \<noteq> ''include''" "\<And>m. Val e \<noteq> VMap m"
    by blast
  then show ?case
  proof cases
    case 1
    from match_entries_spec [of c ?env "entries targets" out diags] obtain o1 d1
      where m: "match_entries c ?env (entries targets) (out, diags) = Some (o1, d1)"
        "\<forall>env' name. name \<in> set (multi_get o1 env') \<longleftrightarrow> name \<in> set (multi_get out env') \<or>
          (env' = ?env \<and> (\<exists>te \<in> set (entries targets). entry_lists c te name))" by blast
    from Cons.IH [of o1 d1] obtain o2 d2 where r: "match_envs c es (o1, d1) = Some (o2, d2)"
      "\<forall>env name. name \<in> set (multi_get o2 env) \<longleftrightarrow> name \<in> set (multi_get o1 env) \<or> (\<exists>e \<in> set es. heading_lists c e env name)"
      by blast
    have "heading_lists c e env name \<longleftrightarrow> env = ?env \<and> (\<exists>te \<in> set (entries targets). entry_lists c te name)" for env name
      using 1 by (auto simp: heading_lists_def)
    with m(2) r(2) have "\<forall>env name. name \<in> set (multi_get o2 env) \<longleftrightarrow>
        name \<in> set (multi_get out env) \<or> (\<exists>e \<in> set (e # es). heading_lists c e env name)" by auto
    moreover have "match_envs c (e # es) (out, diags) = Some (o2, d2)" using 1 m(1) r(1) by (simp add: Let_def)
    ultimately show ?thesis by blast
  next
    case 2
    with Cons.IH [of out diags] show ?thesis by (auto simp: heading_lists_def Let_def)
  next
    case 3
    then have "\<not> heading_lists c e env name" for env name by (simp add: heading_lists_def)
    moreover have "\<exists>d. match_envs c (e # es) (out, diags) = match_envs c es (out, d)"
      using 3 by (cases "Val e") (auto simp: Let_def)
    ultimately show ?thesis using Cons.IH [of out] by (metis (no_types, lifting) set_ConsD list.set_intros(2))
  qed
qed simp

text \<open>What one top file matched, whatever the diagnostics so far.\<close>

lemma matchTop_spec:
  "\<exists>out' diags'. matchTop c v filePath diags = Some (out', diags') \<and>
     (\<forall>env name. name \<in> set (multi_get out' env) \<longleftrightarrow>
        (\<exists>m e. v = VMap m \<and> e \<in> set (entries m) \<and> heading_lists c e env name))"
proof (cases "\<exists>m. v = VMap m")
  case True
  then obtain m where "v = VMap m" ..
  with match_envs_spec [of c "entries m" "[]" diags] show ?thesis by (simp add: matchTop_def multi_get_def Bex_def)
next
  case False
  then show ?thesis by (cases v) (simp_all add: matchTop_def multi_get_def)
qed

text \<open>What was read of the top files of the environments \<open>S\<close>.\<close>

definition tops_ok :: "TopCompiler \<Rightarrow> string set \<Rightarrow> tops \<Rightarrow> bool" where
  "tops_ok c S st \<longleftrightarrow>
     (\<forall>topEnv env name. name \<in> set (multi_get (matched_in (to_perEnv st) topEnv) env) \<longleftrightarrow>
        topEnv \<in> S \<and> top_lists c topEnv env name) \<and>
     (to_found st = [] \<longrightarrow> (\<forall>topEnv env name. topEnv \<in> S \<longrightarrow> \<not> top_lists c topEnv env name))"

lemma tops_ok_skip:
  assumes "tops_ok c S st" and "\<And>env name. \<not> top_lists c topEnv env name"
  shows "tops_ok c (insert topEnv S) st"
  using assms unfolding tops_ok_def by (metis insert_iff)

lemma tops_ok_diags [simp]: "tops_ok c S (st\<lparr>to_Diags := ds\<rparr>) = tops_ok c S st"
  by (simp add: tops_ok_def)

lemma tops_ok_found: "tops_ok c S st \<Longrightarrow> tops_ok c S (st\<lparr>to_found := to_found st @ [env]\<rparr>)"
  by (simp add: tops_ok_def)

lemma read_tops_spec:
  "tops_ok c S st \<Longrightarrow> \<exists>st'. read_tops c envs st = Some st' \<and> tops_ok c (S \<union> set envs) st'"
proof (induction envs arbitrary: S st)
  case (Cons env envs)
  show ?case
  proof (cases "co_Source (tp_c c) env TopName")
    case SrcNotFound
    then have "tops_ok c (insert env S) st" using Cons.prems by (intro tops_ok_skip) (auto simp: top_lists_def)
    from Cons.IH [OF this] SrcNotFound show ?thesis by simp
  next
    case (SrcError err)
    then have "tops_ok c (insert env S) st" using Cons.prems by (intro tops_ok_skip) (auto simp: top_lists_def)
    then have "tops_ok c (insert env S) (st\<lparr>to_Diags := ds\<rparr>)" for ds by simp
    from Cons.IH [OF this] SrcError show ?thesis by simp
  next
    case (SrcOK src filePath)
    let ?st1 = "st\<lparr>to_found := to_found st @ [env]\<rparr>"
    show ?thesis
    proof (cases "snd (co_Render (tp_c c) src env TopName filePath)")
      case (Inl err)
      then have "tops_ok c (insert env S) (?st1\<lparr>to_Diags := ds\<rparr>)" for ds
        using tops_ok_skip [OF tops_ok_found [OF Cons.prems], of env] SrcOK by (simp add: top_lists_def)
      from Cons.IH [OF this] SrcOK Inl show ?thesis by (simp add: Let_def)
    next
      case (Inr v)
      from matchTop_spec [of c v filePath "to_Diags st"] obtain out' d'
        where m: "matchTop c v filePath (to_Diags st) = Some (out', d')"
          "\<forall>env name. name \<in> set (multi_get out' env) \<longleftrightarrow>
             (\<exists>m e. v = VMap m \<and> e \<in> set (entries m) \<and> heading_lists c e env name)" by blast
      let ?st2 = "?st1\<lparr>to_perEnv := gomap_put env out' (to_perEnv st), to_Diags := d'\<rparr>"
      have "top_lists c env env' name \<longleftrightarrow> name \<in> set (multi_get out' env')" for env' name
        using m(2) SrcOK Inr by (auto simp: top_lists_def)
      then have "tops_ok c (insert env S) ?st2"
        using Cons.prems by (simp add: tops_ok_def matched_in_def)
      from Cons.IH [OF this] SrcOK Inr m(1) show ?thesis by (simp add: Let_def)
    qed
  qed
qed simp

subsection \<open>Combining the top files\<close>

lemma merge_env_mem:
  "name \<in> set (multi_get (merge_env ts matched out) env) \<longleftrightarrow>
     name \<in> set (multi_get out env) \<or> (env \<in> set ts \<and> name \<in> set (multi_get matched env))"
  unfolding merge_env_def
  by (induction ts arbitrary: out) (auto simp: multi_get_add_matched)

lemma multi_get_key: "name \<in> set (multi_get m env) \<Longrightarrow> env \<in> fst ` set m"
  by (cases "gomap_get m env") (auto simp: multi_get_def dest!: map_of_SomeD intro: rev_image_eqI)

lemma multi_get_Nil [simp]: "multi_get [] env = []"
  by (simp add: multi_get_def)

lemma matched_in_simps:
  "gomap_get perEnv e = None \<Longrightarrow> matched_in perEnv e = []" "gomap_get perEnv e = Some m \<Longrightarrow> matched_in perEnv e = m"
  by (simp_all add: matched_in_def)

lemma matched_in_key: "name \<in> set (multi_get (matched_in perEnv e) env) \<Longrightarrow> e \<in> fst ` set perEnv"
  by (cases "gomap_get perEnv e") (auto simp: matched_in_simps dest!: map_of_SomeD intro: rev_image_eqI)

lemma merge_sorted_mem:
  "name \<in> set (multi_get (merge_env (sortedStringKeys matched) matched out) env) \<longleftrightarrow>
     name \<in> set (multi_get out env) \<or> name \<in> set (multi_get matched env)"
  by (auto simp: merge_env_mem sortedStringKeys_def dest: multi_get_key)

lemma merge_tops_mem:
  "name \<in> set (multi_get (merge_tops envs perEnv) env) \<longleftrightarrow>
     (\<exists>e \<in> set envs. name \<in> set (multi_get (matched_in perEnv e) env))"
proof -
  have "name \<in> set (multi_get (foldl (\<lambda>out e. merge_env (sortedStringKeys (matched_in perEnv e)) (matched_in perEnv e) out) out envs) env)
      \<longleftrightarrow> name \<in> set (multi_get out env) \<or> (\<exists>e \<in> set envs. name \<in> set (multi_get (matched_in perEnv e) env))" for out
    by (induction envs arbitrary: out) (auto simp: merge_sorted_mem)
  from this [of "[]"] show ?thesis by (simp add: merge_tops_def)
qed

lemma merge_order_mem:
  "name \<in> set (multi_get (merge_order perEnv envs seen out) env) \<longleftrightarrow>
     name \<in> set (multi_get out env) \<or> (\<exists>e \<in> set envs - set seen. name \<in> set (multi_get (matched_in perEnv e) env))"
proof (induction perEnv envs seen out rule: merge_order.induct)
  case (2 perEnv e envs seen out)
  show ?case
  proof (cases "e \<in> set seen")
    case False
    then have split: "(\<exists>x \<in> set (e # envs) - set seen. P x) \<longleftrightarrow> P e \<or> (\<exists>x \<in> set envs - set (seen @ [e]). P x)" for P by auto
    show ?thesis unfolding split using False 2
      by (cases "gomap_get perEnv e") (simp_all add: merge_sorted_mem matched_in_simps)
  qed (use 2 in auto)
qed simp

lemma same_target_mem:
  "name \<in> set (multi_get (fst (foldl (same_target e matched) (out, d) ts)) env) \<longleftrightarrow>
     name \<in> set (multi_get out env) \<or> (env = e \<and> e \<in> set ts \<and> name \<in> set (multi_get matched e))"
  by (induction ts arbitrary: out d) (auto simp: same_target_def multi_get_add_matched)

lemma merge_same_mem:
  assumes "\<And>ks. set (rng ks) = set ks"
  shows "name \<in> set (multi_get (fst (merge_same rng perEnv d)) env) \<longleftrightarrow> name \<in> set (multi_get (matched_in perEnv env) env)"
proof -
  let ?step = "\<lambda>st e. foldl (same_target e (matched_in perEnv e)) st (rng (map fst (matched_in perEnv e)))"
  have "name \<in> set (multi_get (fst (foldl ?step (out, d) envs)) env) \<longleftrightarrow>
      name \<in> set (multi_get out env) \<or> (env \<in> set envs \<and> name \<in> set (multi_get (matched_in perEnv env) env))" for out d envs
  proof (induction envs arbitrary: out d)
    case (Cons e envs)
    obtain o1 d1 where o: "?step (out, d) e = (o1, d1)" by fastforce
    have "x \<in> set (multi_get o1 env) \<longleftrightarrow> x \<in> set (multi_get out env) \<or> (env = e \<and> x \<in> set (multi_get (matched_in perEnv e) e))" for x
      using same_target_mem [of x e "matched_in perEnv e" out d "rng (map fst (matched_in perEnv e))" env] o assms
      by (auto dest: multi_get_key)
    with Cons.IH [of o1 d1] o show ?case by auto
  qed simp
  from this [of "[]" d "rng (map fst perEnv)"] assms show ?thesis
    by (auto simp: merge_same_def dest: matched_in_key)
qed

definition top_envs :: "TopCompiler \<Rightarrow> string list" where
  "top_envs c = (if length (co_Envs (tp_c c)) = 0 then [Compiler_env (tp_c c)] else co_Envs (tp_c c))"

definition combined :: "TopCompiler \<Rightarrow> tops \<Rightarrow> top_state" where
  "combined c st =
     (if to_found st = [] then ([], Diags_Add zero_pos TopName []
              ''no top file was found in any environment (%v); a highstate needs one''
              [FStr (''['' @ str_join '' '' (top_envs c) @ '']'')] (to_Diags st))
      else if co_TopMergeStrategy (tp_c c) = ''same'' then merge_same (tp_range c) (to_perEnv st) (to_Diags st)
      else if co_TopMergeStrategy (tp_c c) = ''merge_all'' then
        (merge_tops (sortedStringKeys (to_perEnv st)) (to_perEnv st), to_Diags st)
      else (merge_order (to_perEnv st) (Compiler_env (tp_c c) # sortedStringKeys (to_perEnv st)) [] [], to_Diags st))"

lemma resolveTop_combined:
  obtains st where "tops_ok c (set (top_envs c)) st" and "resolveTop c = Some (combined c st)"
proof -
  have "tops_ok c {} \<lparr>to_perEnv = [], to_found = [], to_Diags = []\<rparr>"
    by (simp add: tops_ok_def matched_in_def multi_get_def)
  from read_tops_spec [OF this, of "top_envs c"] obtain st
    where "read_tops c (top_envs c) \<lparr>to_perEnv = [], to_found = [], to_Diags = []\<rparr> = Some st"
      "tops_ok c (set (top_envs c)) st" by auto
  then show thesis by (intro that [of st]) (auto simp: resolveTop_def Let_def top_envs_def combined_def)
qed

text \<open>Only the strategy \<open>same\<close> ranges over a map.\<close>

lemma combined_mem:
  assumes ok: "tops_ok c (set (top_envs c)) st"
    and rng: "co_TopMergeStrategy (tp_c c) = ''same'' \<Longrightarrow> (\<And>ks. set (tp_range c ks) = set ks)"
  shows "name \<in> set (multi_get (fst (combined c st)) env) \<longleftrightarrow>
     (\<exists>t \<in> set (top_envs c). top_lists c t env name \<and> (co_TopMergeStrategy (tp_c c) = ''same'' \<longrightarrow> t = env))"
proof -
  have mem: "name \<in> set (multi_get (matched_in (to_perEnv st) t) env) \<longleftrightarrow> t \<in> set (top_envs c) \<and> top_lists c t env name" for t
    using ok by (simp add: tops_ok_def)
  have key: "t \<in> set (sortedStringKeys (to_perEnv st))" if "t \<in> set (top_envs c)" "top_lists c t env name" for t
    using matched_in_key [of name "to_perEnv st" t env] mem that by (simp add: sortedStringKeys_def)
  consider "to_found st = []" | "to_found st \<noteq> []" "co_TopMergeStrategy (tp_c c) = ''same''"
    | "to_found st \<noteq> []" "co_TopMergeStrategy (tp_c c) \<noteq> ''same''" by blast
  then show ?thesis
  proof cases
    case 1
    with ok have "\<not> top_lists c t env name" if "t \<in> set (top_envs c)" for t using that by (simp add: tops_ok_def)
    moreover have "fst (combined c st) = []" using 1 by (simp add: combined_def)
    ultimately show ?thesis by simp
  next
    case 2
    then have "combined c st = merge_same (tp_range c) (to_perEnv st) (to_Diags st)" by (simp add: combined_def)
    with 2(2) show ?thesis by (simp add: merge_same_mem [OF rng [OF 2(2)]] mem)
  next
    case 3
    then have "name \<in> set (multi_get (fst (combined c st)) env) \<longleftrightarrow>
        (\<exists>t. t \<in> set (top_envs c) \<and> top_lists c t env name)"
      using key by (simp add: combined_def merge_tops_mem merge_order_mem mem del: merge_order.simps) blast
    with 3(2) show ?thesis by (simp add: Bex_def)
  qed
qed

text \<open>C20: a node gets exactly the SLS files its top files list for it. Under an environment's heading a
  file is matched if and only if the top file of some environment has, under that heading, a target that
  compiles, matches the node and names the file; with the strategy \<open>same\<close> only an environment's own top file
  counts. The order in which Go visits a map plays no part.\<close>

theorem resolveTop_gives_what_matches:
  assumes "resolveTop c = Some (matched, diags)" and "\<And>ks. set (tp_range c ks) = set ks"
  shows "name \<in> set (multi_get matched env) \<longleftrightarrow>
     (\<exists>topEnv \<in> set (top_envs c). top_lists c topEnv env name \<and>
        (co_TopMergeStrategy (tp_c c) = ''same'' \<longrightarrow> topEnv = env))"
proof -
  from resolveTop_combined [of c] obtain st where st: "tops_ok c (set (top_envs c)) st" "resolveTop c = Some (combined c st)" .
  with assms(1) have "fst (combined c st) = matched" by simp
  with combined_mem [OF st(1) assms(2)] show ?thesis by metis
qed

subsection \<open>The compiled highstate\<close>

lemma compile_envs_inv:
  "compile_envs c depth matched envs out0 = Some out \<Longrightarrow> out_inv c {} out0 \<Longrightarrow> out_inv c {} out"
  by (induction envs arbitrary: out0) (auto split: option.splits dest: compileNames_inv)

lemma compile_envs_enough:
  assumes "finite (loadable c)" and "card (loadable c) < depth"
  shows "\<exists>out. compile_envs c depth matched envs out0 = Some out"
proof (induction envs arbitrary: out0)
  case (Cons env envs)
  from compileNames_enough [OF assms, of out0 env "multi_get matched env"] Cons show ?case by auto
qed simp

lemma compile_envs_deeper:
  assumes "compile_envs c depth matched envs out0 = Some out" and "depth \<le> depth'"
  shows "compile_envs c depth' matched envs out0 = Some out"
  using assms(1)
proof (induction envs arbitrary: out0)
  case (Cons env envs)
  from Cons.prems obtain out1 where o: "compileNames c depth out0 env (multi_get matched env) = Some out1"
    "compile_envs c depth matched envs out1 = Some out" by (auto split: option.splits)
  from compileNames_deeper [OF o(1) assms(2)] Cons.IH [OF o(2)] show ?case by simp
qed simp

lemma CompileHighstate_finish:
  assumes "CompileHighstate c depth = Some out"
  obtains out0 where "out_inv (tp_c c) {} out0" and "finish_ok out0 out"
proof -
  from assms obtain matched diags out0 where "compile_envs (tp_c c) depth matched (sortedEnvKeys matched)
      (new_Compiled\<lparr>out_Diags := out_Diags new_Compiled @ diags\<rparr>) = Some out0" "finish (tp_c c) out0 = Some out"
    by (auto simp: CompileHighstate_def split: option.splits)
  with finish_spec [of "tp_c c" out0] show thesis
    by (intro that [of out0]) (auto dest: compile_envs_inv intro: out_inv_new)
qed

text \<open>The highstate keeps the promises of a named compilation. It ends with one recursion level more
  than there are files, reads only permitted files, every step belongs to a declared state of one of them,
  and without errors every requisite has its targets and runs in its order.\<close>

theorem CompileHighstate_sound:
  assumes "finite (loadable (tp_c c))" and "card (loadable (tp_c c)) < depth"
  shows "\<exists>out. CompileHighstate c depth = Some out \<and>
     list_all (\<lambda>n. CanonicalSLS n = Inr n \<and> allowedSLS (tp_c c) n) (out_SLS out) \<and>
     list_all (\<lambda>ch. ch_SLS ch \<in> set (out_SLS out) \<and> HighState_Lookup (out_High out) (ch_ID ch) \<noteq> None) (out_Low out) \<and>
     (HasErrors (out_Diags out) \<or> all_targets_found (out_Low out) \<and> in_run_order (out_Low out))"
proof -
  obtain matched diags where r: "resolveTop c = Some (matched, diags)" by (rule resolveTop_combined [of c]) (metis surj_pair)
  from compile_envs_enough [OF assms, of matched "sortedEnvKeys matched" "new_Compiled\<lparr>out_Diags := diags\<rparr>"]
  obtain out0 where "compile_envs (tp_c c) depth matched (sortedEnvKeys matched) (new_Compiled\<lparr>out_Diags := diags\<rparr>) = Some out0" ..
  with r finish_spec [of "tp_c c" out0] obtain out where out: "CompileHighstate c depth = Some out"
    by (auto simp: CompileHighstate_def new_Compiled_def)
  from CompileHighstate_finish [OF this] obtain out1 where o: "out_inv (tp_c c) {} out1" "finish_ok out1 out" .
  with finish_permitted [OF o] out show ?thesis by (auto simp: finish_ok_def)
qed

subsection \<open>Sample estates\<close>

text \<open>A file server over a list of documents, and the node \<open>web1\<close> with the grain \<open>role\<close>.\<close>

definition estate_compiler :: "((string \<times> string) \<times> val) list \<Rightarrow> Compiler" where
  "estate_compiler files = \<lparr>co_rt = no_runtime,
     co_Source = (\<lambda>env name. case map_of files (env, name) of None \<Rightarrow> SrcNotFound | Some _ \<Rightarrow> SrcOK [] (name @ ''.sls'')),
     co_Envs = [''base'', ''dev''],
     co_Render = (\<lambda>src env name path. ([], Inr (case map_of files (env, name) of None \<Rightarrow> VNull | Some d \<Rightarrow> d))),
     co_Registry = None, co_Env = [], co_StateAllowlist = [], co_StateDenylist = [], co_TopMergeStrategy = ''merge''\<rparr>"

definition estate :: "((string \<times> string) \<times> val) list \<Rightarrow> TopCompiler" where
  "estate files = \<lparr>tp_c = estate_compiler files, tp_target = sample_env, tp_NodeID = ''web1'',
     tp_Grains = Some (MapOf [(KStr ''role'', VStr ''app'')]), tp_Pillar = None, tp_Nodegroups = [], tp_range = (\<lambda>ks. ks)\<rparr>"

definition pkg_doc :: "string \<Rightarrow> string \<times> val" where
  "pkg_doc name = (name, doc_map [(''pkg.installed'', VSeq [])])"

text \<open>\<open>common\<close> in \<open>base\<close>, and \<open>app\<close>, which includes it, in the environment given.\<close>

definition shared_estate :: "string \<Rightarrow> ((string \<times> string) \<times> val) list" where
  "shared_estate env =
     [((''base'', ''top''), doc_map [(''base'', doc_map [(''web1'', VSeq [VStr ''common''])]),
                                    (env, doc_map [(''G@role:app'', VSeq [VStr ''app''])])]),
      ((''base'', ''common''), doc_map [pkg_doc ''curl'']),
      ((env, ''app''), doc_map [(''include'', VSeq [doc_map [(''base'', VSeq [VStr ''common''])]]), pkg_doc ''nginx''])]"

lemma served_files:
  assumes "S \<subseteq> (\<lambda>(e, n). sls_key e n) ` fst ` set files"
  shows "finite S" and "card S \<le> length files"
proof -
  from assms show "finite S" by (rule finite_subset) simp
  have "card S \<le> card ((\<lambda>(e, n). sls_key e n) ` fst ` set files)" by (rule card_mono [OF _ assms]) simp
  also have "\<dots> \<le> card (set files)" by (rule order.trans [OF card_image_le card_image_le]) simp_all
  also have "\<dots> \<le> length files" by (rule card_length)
  finally show "card S \<le> length files" .
qed

lemma estate_loadable:
  "finite (loadable (estate_compiler files))" "card (loadable (estate_compiler files)) \<le> length files"
proof -
  have "loadable (estate_compiler files) \<subseteq> (\<lambda>(e, n). sls_key e n) ` fst ` set files"
    by (auto simp: loadable_def estate_compiler_def image_iff split: option.splits dest!: map_of_SomeD) force
  note this [THEN served_files(1)] this [THEN served_files(2)]
  then show "finite (loadable (estate_compiler files))" "card (loadable (estate_compiler files)) \<le> length files" .
qed

theorem CompileHighstate_sound_witness:
  "\<exists>out. CompileHighstate (estate (shared_estate ''dev'')) 4 = Some out \<and>
     list_all (\<lambda>n. CanonicalSLS n = Inr n \<and> allowedSLS (estate_compiler (shared_estate ''dev'')) n) (out_SLS out)"
proof -
  have "finite (loadable (tp_c (estate (shared_estate ''dev''))))" "card (loadable (tp_c (estate (shared_estate ''dev'')))) < 4"
    using estate_loadable [of "shared_estate ''dev''"] by (simp_all add: estate_def shared_estate_def)
  from CompileHighstate_sound [OF this] show ?thesis by (auto simp: estate_def)
qed

lemma shared_resolved:
  "map_option (\<lambda>(matched, diags). (multi_get matched ''base'', multi_get matched ''dev'', diags))
     (resolveTop (estate (shared_estate ''dev''))) = Some ([''common''], [''app''], [])"
  by code_simp

theorem resolveTop_gives_what_matches_witness:
  "\<exists>matched diags. resolveTop (estate (shared_estate ''dev'')) = Some (matched, diags) \<and>
     (\<exists>topEnv \<in> {''base'', ''dev''}. top_lists (estate (shared_estate ''dev'')) topEnv ''dev'' ''app'')"
proof -
  from shared_resolved obtain matched diags where r: "resolveTop (estate (shared_estate ''dev'')) = Some (matched, diags)"
    "multi_get matched ''dev'' = [''app'']" by (auto simp: split_beta)
  have "set (tp_range (estate (shared_estate ''dev'')) ks) = set ks" for ks by (simp add: estate_def)
  from resolveTop_gives_what_matches [OF r(1) this, of "''app''" "''dev''"] r
  show ?thesis by (auto simp: top_envs_def estate_def estate_compiler_def)
qed

definition one_env_estate :: "((string \<times> string) \<times> val) list" where
  "one_env_estate =
     [((''base'', ''top''), doc_map [(''base'', doc_map [(''web1'', VSeq [VStr ''common'', VStr ''app''])])]),
      ((''base'', ''common''), doc_map [pkg_doc ''curl'']),
      ((''base'', ''app''), doc_map [(''include'', VSeq [doc_map [(''base'', VSeq [VStr ''common''])]]), pkg_doc ''nginx''])]"

lemma shared_highstate:
  "map_option (\<lambda>out. (out_SLS out, HasErrors (out_Diags out))) (CompileHighstate (estate (shared_estate ''dev'')) 4) =
     Some ([''common'', ''app'', ''common''], True)"
  by code_simp

lemma one_env_highstate:
  "map_option (\<lambda>out. (out_SLS out, HasErrors (out_Diags out))) (CompileHighstate (estate one_env_estate) 4) =
     Some ([''common'', ''app''], False)"
  by code_simp

text \<open>A file is loaded once per environment of the highstate, not once. When \<open>app\<close> in \<open>dev\<close> includes
  \<open>common\<close> of \<open>base\<close>, which the top file lists for \<open>base\<close> as well, \<open>common\<close> is read a second time and its states
  are refused as declared twice; with \<open>app\<close> in \<open>base\<close> the same tree compiles.\<close>

theorem highstate_loads_shared_file_twice:
  "map_option (\<lambda>out. (out_SLS out, HasErrors (out_Diags out))) (CompileHighstate (estate (shared_estate ''dev'')) 4) =
     Some ([''common'', ''app'', ''common''], True) \<and>
   map_option (\<lambda>out. (out_SLS out, HasErrors (out_Diags out))) (CompileHighstate (estate one_env_estate) 4) =
     Some ([''common'', ''app''], False)"
  by (rule conjI [OF shared_highstate one_env_highstate])

text \<open>Extends are applied environment by environment, not over the assembled high state. An \<open>extend\<close> in \<open>base\<close>
  of a state declared in \<open>dev\<close> is refused, because \<open>base\<close> is compiled first; an \<open>extend\<close> in \<open>dev\<close> of a state
  declared in \<open>base\<close> is applied.\<close>

theorem extends_see_earlier_environments_only:
  "map_option (\<lambda>out. HasErrors (out_Diags out)) (CompileHighstate (estate
       [((''base'', ''top''), doc_map [(''base'', doc_map [(''web1'', VSeq [VStr ''a''])]), (''dev'', doc_map [(''web1'', VSeq [VStr ''b''])])]),
        ((''base'', ''a''), doc_map [(''extend'', doc_map [pkg_doc ''nginx''])]),
        ((''dev'', ''b''), doc_map [pkg_doc ''nginx''])]) 4) = Some True \<and>
   map_option (\<lambda>out. HasErrors (out_Diags out)) (CompileHighstate (estate
       [((''base'', ''top''), doc_map [(''base'', doc_map [(''web1'', VSeq [VStr ''a''])]), (''dev'', doc_map [(''web1'', VSeq [VStr ''b''])])]),
        ((''base'', ''a''), doc_map [pkg_doc ''nginx'']),
        ((''dev'', ''b''), doc_map [(''extend'', doc_map [pkg_doc ''nginx''])])]) 4) = Some False"
  by code_simp

text \<open>The strategies \<open>merge\<close> and \<open>merge_all\<close> give a node the same files. No top file wins over another where
  two declare the same environment; only the order of the files can differ.\<close>

theorem merge_delivers_what_merge_all_does:
  assumes "resolveTop c = Some (matched, diags)" and "co_TopMergeStrategy (tp_c c) = ''merge''"
    and "resolveTop (c\<lparr>tp_c := (tp_c c)\<lparr>co_TopMergeStrategy := ''merge_all''\<rparr>\<rparr>) = Some (matched', diags')"
  shows "set (multi_get matched env) = set (multi_get matched' env)"
proof -
  let ?all = "c\<lparr>tp_c := (tp_c c)\<lparr>co_TopMergeStrategy := ''merge_all''\<rparr>\<rparr>"
  have lists: "top_lists ?all t e n = top_lists c t e n" for t e n
    by (simp add: top_lists_def heading_lists_def entry_lists_def top_node_def)
  have envs: "top_envs ?all = top_envs c" by (simp add: top_envs_def Compiler_env_def)
  from resolveTop_combined [of c] obtain st where st: "tops_ok c (set (top_envs c)) st" "resolveTop c = Some (combined c st)" .
  from resolveTop_combined [of ?all] obtain st' where
    st': "tops_ok ?all (set (top_envs ?all)) st'" "resolveTop ?all = Some (combined ?all st')" .
  have m: "fst (combined c st) = matched" "fst (combined ?all st') = matched'"
    using st(2) st'(2) assms(1,3) by (metis fst_conv option.inject)+
  have "name \<in> set (multi_get matched env) \<longleftrightarrow> name \<in> set (multi_get matched' env)" for name
    using combined_mem [OF st(1), of name env] combined_mem [OF st'(1), of name env] assms(2)
    unfolding m lists envs by simp
  then show ?thesis by blast
qed

theorem merge_delivers_what_merge_all_does_witness:
  "\<exists>m d m' d'. resolveTop (estate (shared_estate ''dev'')) = Some (m, d) \<and>
     resolveTop ((estate (shared_estate ''dev''))\<lparr>tp_c := (estate_compiler (shared_estate ''dev''))\<lparr>co_TopMergeStrategy := ''merge_all''\<rparr>\<rparr>) = Some (m', d') \<and>
     set (multi_get m ''dev'') = set (multi_get m' ''dev'')"
proof -
  let ?c = "estate (shared_estate ''dev'')"
  let ?all = "?c\<lparr>tp_c := (tp_c ?c)\<lparr>co_TopMergeStrategy := ''merge_all''\<rparr>\<rparr>"
  from resolveTop_combined [of ?c] obtain st where 1: "resolveTop ?c = Some (combined ?c st)" .
  from resolveTop_combined [of ?all] obtain st' where 2: "resolveTop ?all = Some (combined ?all st')" .
  obtain m d m' d' where c: "combined ?c st = (m, d)" "combined ?all st' = (m', d')" by fastforce
  have "co_TopMergeStrategy (tp_c ?c) = ''merge''" by (simp add: estate_def estate_compiler_def)
  from merge_delivers_what_merge_all_does [OF 1 [unfolded c] this 2 [unfolded c], of "''dev''"] 1 2 c
  show ?thesis by (auto simp: estate_def)
qed

end
