(* ===== verification/Pillar.thy ===== *)
theory Pillar
  imports Top
begin

text \<open>
  Compiling a node's pillar (\<open>internal/pillar\<close>): which pillar files the top files deliver to the node, on
  trusted attributes only, merging the files with their includes, and the external sources. The loader, the
  render engine and the external sources are parameters.
\<close>

subsection \<open>The configuration and the result\<close>

definition TrustedGrains :: "string list" where
  "TrustedGrains = [''id'', ''os'', ''os_family'', ''osrelease'', ''kernel'', ''cpuarch'', ''virtual'', ''fips_mode'']"

text \<open>An external source: what it returns for the pillar so far, an error or maybe a mapping.\<close>

record ExtSource =
  ex_Name :: string
  ex_Pillar :: "vmap \<Rightarrow> string + vmap option"
  ex_FailSoft :: bool
  ex_Secret :: bool

record PillarCompiler =
  pc_target :: target_env
  pc_Source :: "string \<Rightarrow> string \<Rightarrow> source_result"
  pc_Envs :: "string list"
  pc_Render :: "string \<Rightarrow> string \<Rightarrow> string \<Rightarrow> string \<Rightarrow> vmap option \<Rightarrow> string list \<times> (string + val)"
    \<comment> \<open>source, environment, SLS name, path and the pillar so far to warnings and an error or the document\<close>
  pc_Env :: string
  pc_AllEnvs :: bool
  pc_NodeID :: string
  pc_Grains :: "vmap option"
  pc_NodeAttrs :: "vmap option"
  pc_TrustedGrains :: "string list"
  pc_opts :: MergeOpts
  pc_Nodegroups :: Nodegroups
  pc_OnSecret :: bool
  pc_Ext :: "ExtSource list"

record AuditEntry =
  au_Env :: string
  au_Target :: string
  au_Basis :: string
  au_SLS :: "string list"

record PillarCompiled =
  pl_Pillar :: vmap
  pl_Audit :: "AuditEntry list"
  pl_SLS :: "string list"
  pl_Ext :: "string list"
  pl_ExtFailed :: "string list"
  pl_Diags :: Diags
  pl_Warnings :: "string list"
  pl_Secrets :: "string list"   \<comment> \<open>what \<open>OnSecret\<close> was given\<close>

definition new_Pillar :: PillarCompiled where
  "new_Pillar = \<lparr>pl_Pillar = NewMap, pl_Audit = [], pl_SLS = [], pl_Ext = [], pl_ExtFailed = [], pl_Diags = [],
     pl_Warnings = [], pl_Secrets = []\<rparr>"

definition pillar_env :: "PillarCompiler \<Rightarrow> string" where
  "pillar_env c = (if pc_Env c \<noteq> [] then pc_Env c else ''base'')"

definition trusted :: "PillarCompiler \<Rightarrow> string list" where
  "trusted c = (if length (pc_TrustedGrains c) > 0 then pc_TrustedGrains c else TrustedGrains)"

definition pl_add :: "pos \<Rightarrow> string \<Rightarrow> string \<Rightarrow> string \<Rightarrow> fmt_arg list \<Rightarrow> PillarCompiled \<Rightarrow> PillarCompiled" where
  "pl_add p sls ident fmt args out = out\<lparr>pl_Diags := Diags_Add p sls ident fmt args (pl_Diags out)\<rparr>"

subsection \<open>What a pillar target is judged by and evaluated against\<close>

definition grain_get :: "vmap option \<Rightarrow> string \<Rightarrow> val option" where
  "grain_get g name = (case g of None \<Rightarrow> None | Some m \<Rightarrow> Map_Get m (KStr name))"

definition trust_grain :: "vmap option \<Rightarrow> vmap \<Rightarrow> string \<Rightarrow> vmap" where
  "trust_grain g m name = (case grain_get g name of Some v \<Rightarrow> Map_Set m (KStr name) v | None \<Rightarrow> m)"

definition targetNode :: "PillarCompiler \<Rightarrow> Node" where
  "targetNode c =
     (let t = foldl (trust_grain (pc_Grains c)) NewMap (trusted c);
          grains = (case pc_NodeAttrs c of
                      Some attrs \<Rightarrow> if Map_Len attrs > 0 then Map_Set t (KStr ''node'') (VMap attrs) else t
                    | None \<Rightarrow> t)
      in \<lparr>nd_ID = pc_NodeID c, nd_Grains = Some grains, nd_Pillar = None, nd_LoadPillar = None\<rparr>)"

definition dedupe :: "string list \<Rightarrow> string list" where
  "dedupe xs = map fst (filter (\<lambda>(s, i). i = 0 \<or> s \<noteq> xs ! (i - 1)) (zip xs [0..<length xs]))"

text \<open>The untrusted grains so far and the basis; \<open>Inl\<close> is an early refusal.\<close>

fun judge_terms :: "string \<Rightarrow> string list \<Rightarrow> Term list \<Rightarrow> string list \<times> string \<Rightarrow> fmt_arg + string list \<times> string" where
  "judge_terms expr trust [] st = Inr st"
| "judge_terms expr trust (t # ts) (untrusted, basis) =
     (if tm_Kind t \<in> set [TkGlob, TkList, TkRegex] then judge_terms expr trust ts (untrusted, basis)
      else if tm_Kind t = TkSubnet then
        Inl (FErr (''pillar top expression %q targets on an address (S@ or match: ipcidr), which is read from the ipv4 and ipv6 grains '' @
                   ''a node reports about itself; target the node ID, or a hub-authoritative attribute under node: (SPEC section 12.4)'')
               [FStr expr])
      else if tm_Kind t \<in> set [TkPillar, TkPillarRegex] then
        Inl (FErr ''pillar top expression %q targets on pillar, which is not available while pillar is being compiled'' [FStr expr])
      else if tm_Kind t \<in> set [TkGrain, TkGrainRegex] then
        judge_terms expr trust ts
          (if tm_Key t = ''node'' \<or> has_prefix (tm_Key t) ''node:'' then untrusted
           else if tm_Key t \<notin> set trust then untrusted @ [tm_Key t] else untrusted, ''grain'')
      else
        Inl (FErr ''pillar top expression %q uses a term of kind %s, which pillar targeting does not know to be safe (SPEC section 12.4)''
               [FStr expr, FStr (TKind_String (tm_Kind t))]))"

definition checkTargetIsPermitted :: "PillarCompiler \<Rightarrow> string \<Rightarrow> Matcher \<Rightarrow> fmt_arg + string" where
  "checkTargetIsPermitted c expr matcher =
     (case judge_terms expr (trusted c) (mt_terms matcher) ([], ''glob'') of
        Inl e \<Rightarrow> Inl e
      | Inr (untrusted, basis) \<Rightarrow>
          if length untrusted > 0 then
            Inl (FErr (''pillar top expression %q targets on the grain(s) %s, which a node controls and which are not in pillar_trusted_grains; '' @
                       ''add them deliberately, or move the attribute to a hub-authoritative node attribute (SPEC section 12.4)'')
                   [FStr expr, FStr (str_join '', '' (dedupe (sort untrusted)))])
          else Inr basis)"

subsection \<open>The top files\<close>

definition topEnvs :: "PillarCompiler \<Rightarrow> string list" where
  "topEnvs c = (if pc_AllEnvs c then pc_Envs c else [pillar_env c])"

definition readTop :: "PillarCompiler \<Rightarrow> PillarCompiled \<Rightarrow> string \<Rightarrow> vmap option \<times> PillarCompiled" where
  "readTop c out env =
     (case pc_Source c env TopName of
        SrcNotFound \<Rightarrow> (None, out)
      | SrcError err \<Rightarrow>
          (None, pl_add (file_pos TopName) TopName [] ''reading the pillar top file for %q: %v'' [FStr env, FStr err] out)
      | SrcOK src path \<Rightarrow>
          (case pc_Render c src env TopName path None of
             (warnings, res) \<Rightarrow>
               let out1 = out\<lparr>pl_Warnings := pl_Warnings out @ warnings\<rparr> in
               case res of
                 Inl err \<Rightarrow> (None, pl_add (file_pos path) TopName [] ''%v'' [FStr err] out1)
               | Inr (VMap m) \<Rightarrow> (Some m, out1)
               | Inr VNull \<Rightarrow> (None, out1)
               | Inr v \<Rightarrow> (None, pl_add (file_pos path) TopName []
                            ''a pillar top file must hold a mapping of environments, found %s'' [FStr (TypeName v)] out1)))"

record pillar_entry =
  pe_heading :: string
  pe_expr :: string
  pe_val :: val
  pe_valPos :: pos
  pe_keyPos :: pos

text \<open>The map of entries keeps its keys in order of first appearance, which is \<open>order\<close>.\<close>

definition gather_target ::
  "string \<Rightarrow> (string, pillar_entry) gomap \<Rightarrow> entry \<Rightarrow> (string, pillar_entry) gomap" where
  "gather_target heading es te =
     (let expr = KeyString (Key te) in
      gomap_put (heading @ ''|'' @ expr)
        \<lparr>pe_heading = heading, pe_expr = expr, pe_val = Val te, pe_valPos = ValPos te, pe_keyPos = KeyPos te\<rparr> es)"

definition gather_heading ::
  "PillarCompiler \<Rightarrow> (string, pillar_entry) gomap \<times> PillarCompiled \<Rightarrow> entry \<Rightarrow> (string, pillar_entry) gomap \<times> PillarCompiled" where
  "gather_heading c = (\<lambda>(es, out) e.
     let heading = KeyString (Key e) in
     case Val e of
       VMap targets \<Rightarrow>
         if \<not> pc_AllEnvs c \<and> heading \<noteq> pillar_env c then (es, out)
         else (foldl (gather_target heading) es (entries targets), out)
     | _ \<Rightarrow> (es, pl_add (ValPos e) TopName []
               ''the %q environment in the pillar top file must hold a mapping of target expressions'' [FStr heading] out))"

definition gather_top ::
  "PillarCompiler \<Rightarrow> (string, pillar_entry) gomap \<times> PillarCompiled \<Rightarrow> string \<Rightarrow> (string, pillar_entry) gomap \<times> PillarCompiled" where
  "gather_top c = (\<lambda>(es, out) env.
     case readTop c out env of
       (None, out1) \<Rightarrow> (es, out1)
     | (Some m, out1) \<Rightarrow> foldl (gather_heading c) (es, out1) (entries m))"

definition pillar_item :: "string list \<times> bool \<Rightarrow> val \<Rightarrow> string list \<times> bool" where
  "pillar_item = (\<lambda>(names, ignoreMissing) item.
     case item of
       VStr t \<Rightarrow> (names @ [t], ignoreMissing)
     | VMap t \<Rightarrow>
         if Map_Len t = 1 \<and> KeyString (Key (hd (entries t))) = ''ignore_missing''
         then (names, Truthy (Val (hd (entries t)))) else (names, ignoreMissing)
     | _ \<Rightarrow> (names, ignoreMissing))"

definition pillarSLSNames :: "val \<Rightarrow> pos \<Rightarrow> PillarCompiled \<Rightarrow> string list \<times> bool \<times> PillarCompiled" where
  "pillarSLSNames v p out =
     (case v of
        VSeq items \<Rightarrow> (case foldl pillar_item ([], False) items of (names, ign) \<Rightarrow> (names, ign, out))
      | _ \<Rightarrow> ([], False, pl_add p TopName [] ''a pillar top target must hold a list of SLS names, found %s'' [FStr (TypeName v)] out))"

text \<open>What each heading delivers, in the order the headings first match: the names, and those that may be
  missing.\<close>

type_synonym top_matches = "(string, string list \<times> string list) gomap"

definition add_match :: "string \<Rightarrow> string list \<Rightarrow> bool \<Rightarrow> top_matches \<Rightarrow> top_matches" where
  "add_match env names ignoreMissing matches =
     (let (old, opt) = (case gomap_get matches env of None \<Rightarrow> ([], []) | Some x \<Rightarrow> x) in
      gomap_put env (appendUnique old names, if ignoreMissing then opt @ names else opt) matches)"

definition match_pillar ::
  "PillarCompiler \<Rightarrow> pillar_entry \<Rightarrow> top_matches \<times> PillarCompiled \<Rightarrow> (top_matches \<times> PillarCompiled) option" where
  "match_pillar c e = (\<lambda>(matches, out).
     case CompileTopTarget (pc_target c) (pe_expr e) (pe_val e) (pc_Nodegroups c) of
       None \<Rightarrow> None
     | Some (Inl err) \<Rightarrow> Some (matches, pl_add (pe_keyPos e) TopName [] ''%v'' [terror_Error err] out)
     | Some (Inr matcher) \<Rightarrow>
         (case checkTargetIsPermitted c (pe_expr e) matcher of
            Inl err \<Rightarrow> Some (matches, pl_add (pe_keyPos e) TopName [] ''%v'' [err] out)
          | Inr basis \<Rightarrow>
              if \<not> Matcher_Match (pc_target c) matcher (targetNode c) then Some (matches, out)
              else
                (case pillarSLSNames (pe_val e) (pe_valPos e) out of
                   (names, ignoreMissing, out1) \<Rightarrow>
                     if pe_heading e \<notin> set (pc_Envs c) then
                       Some (matches, pl_add (pe_keyPos e) TopName []
                         ''the pillar top file delivers %s from environment %q, which pillar_roots does not serve''
                         [FStr (str_join '', '' names), FStr (pe_heading e)] out1)
                     else
                       Some (add_match (pe_heading e) names ignoreMissing matches,
                         out1\<lparr>pl_Audit := pl_Audit out1 @ [\<lparr>au_Env = pe_heading e, au_Target = pe_expr e, au_Basis = basis, au_SLS = names\<rparr>]\<rparr>))))"

fun match_pillars ::
  "PillarCompiler \<Rightarrow> pillar_entry list \<Rightarrow> top_matches \<times> PillarCompiled \<Rightarrow> (top_matches \<times> PillarCompiled) option" where
  "match_pillars c [] st = Some st"
| "match_pillars c (e # es) st = (case match_pillar c e st of None \<Rightarrow> None | Some st1 \<Rightarrow> match_pillars c es st1)"

definition resolveTops :: "PillarCompiler \<Rightarrow> PillarCompiled \<Rightarrow> (top_matches \<times> PillarCompiled) option" where
  "resolveTops c out =
     (case foldl (gather_top c) ([], out) (topEnvs c) of
        (es, out1) \<Rightarrow> match_pillars c (map snd es) ([], out1))"

subsection \<open>Merging the files\<close>

definition pillar_isPackage :: "string \<Rightarrow> bool" where
  "pillar_isPackage path = (has_suffix path ''/init.sls'' \<or> path = ''init.sls'')"

definition pillar_resolveRelative :: "string \<Rightarrow> string \<Rightarrow> bool \<Rightarrow> string" where
  "pillar_resolveRelative name sls pkg =
     (if \<not> has_prefix name ''.'' then name
      else
        let rest = trim_left CHR ''.'' name;
            levels = length name - length rest;
            comps0 = (if sls \<noteq> [] then str_split sls ''.'' else []);
            comps = (if pkg then comps0 @ [''init''] else comps0)
        in if levels > length comps then rest
           else let up = take (length comps - levels) comps in
                if length up = 0 then rest else str_join ''.'' up @ ''.'' @ rest)"

definition includeNames :: "val \<Rightarrow> string \<Rightarrow> string \<Rightarrow> string list" where
  "includeNames v from path =
     (let pkg = pillar_isPackage path in
      case v of
        VSeq items \<Rightarrow> concat (map (\<lambda>item. case item of VStr s \<Rightarrow> [pillar_resolveRelative s from pkg] | _ \<Rightarrow> []) items)
      | VStr s \<Rightarrow> [pillar_resolveRelative s from pkg]
      | _ \<Rightarrow> [])"

definition withoutKey :: "vmap \<Rightarrow> string \<Rightarrow> vmap" where
  "withoutKey m key =
     foldl (\<lambda>out e. if KeyString (Key e) = key then out else Map_SetAt out (Key e) (Val e) (KeyPos e) (ValPos e)) NewMap (entries m)"

text \<open>Merging two mappings gives a mapping; the type assertion of the code cannot fail.\<close>

definition merge_pillar :: "vmap \<Rightarrow> vmap \<Rightarrow> MergeOpts \<Rightarrow> vmap" where
  "merge_pillar a b opts = (case Merge (VMap a) (VMap b) opts of VMap m \<Rightarrow> m | _ \<Rightarrow> a)"

record merge_state =
  mg_out :: PillarCompiled
  mg_seen :: "string list"

definition mg_add :: "pos \<Rightarrow> string \<Rightarrow> string \<Rightarrow> fmt_arg list \<Rightarrow> merge_state \<Rightarrow> merge_state" where
  "mg_add p sls fmt args st = st\<lparr>mg_out := pl_add p sls [] fmt args (mg_out st)\<rparr>"

text \<open>Everything up to the includes: \<open>Inl\<close> is a file that is done with, \<open>Inr\<close> gives the mapping and the path.\<close>

definition open_pillar ::
  "PillarCompiler \<Rightarrow> string \<Rightarrow> string \<Rightarrow> string list \<Rightarrow> bool \<Rightarrow> merge_state \<Rightarrow> merge_state + (vmap \<times> string \<times> merge_state)" where
  "open_pillar c env name stack opt st =
     (let k = sls_key env name in
      case find_index (\<lambda>s. s = k) stack of
        Some i \<Rightarrow>
          Inl (st\<lparr>mg_out := (mg_out st)\<lparr>pl_Diags := Diags_Warn (file_pos name) name []
                 ''pillar include cycle: %s; the second arrival is skipped''
                 [FStr (str_join '' -> '' (drop i stack @ [k]))] (pl_Diags (mg_out st))\<rparr>\<rparr>)
      | None \<Rightarrow>
          if k \<in> set (mg_seen st) then Inl st
          else
            let st1 = st\<lparr>mg_seen := mg_seen st @ [k]\<rparr> in
            case pc_Source c env name of
              SrcNotFound \<Rightarrow>
                Inl (if opt then st1
                     else mg_add (file_pos name) name ''pillar sls %q was not found in environment %q'' [FStr name, FStr env] st1)
            | SrcError err \<Rightarrow> Inl (mg_add (file_pos name) name ''reading pillar sls %q: %v'' [FStr name, FStr err] st1)
            | SrcOK src path \<Rightarrow>
                (case pc_Render c src env name path (Some (pl_Pillar (mg_out st1))) of
                   (warnings, res) \<Rightarrow>
                     let st2 = st1\<lparr>mg_out := (mg_out st1)\<lparr>pl_Warnings := pl_Warnings (mg_out st1) @ warnings\<rparr>\<rparr> in
                     case res of
                       Inl err \<Rightarrow> Inl (mg_add (file_pos path) name ''%v'' [FStr err] st2)
                     | Inr VNull \<Rightarrow> Inl (st2\<lparr>mg_out := (mg_out st2)\<lparr>pl_SLS := pl_SLS (mg_out st2) @ [name]\<rparr>\<rparr>)
                     | Inr (VMap body) \<Rightarrow> Inr (body, path, st2)
                     | Inr v \<Rightarrow> Inl (mg_add (file_pos path) name ''a pillar sls must hold a mapping, found %s'' [FStr (TypeName v)] st2)))"

definition merge_body :: "PillarCompiler \<Rightarrow> string \<Rightarrow> vmap \<Rightarrow> merge_state \<Rightarrow> merge_state" where
  "merge_body c name body st =
     (let out = mg_out st in
      st\<lparr>mg_out := out\<lparr>pl_Pillar := merge_pillar (pl_Pillar out) body (pc_opts c), pl_SLS := pl_SLS out @ [name]\<rparr>\<rparr>)"

fun mergeSLS :: "PillarCompiler \<Rightarrow> nat \<Rightarrow> string \<Rightarrow> string \<Rightarrow> string list \<Rightarrow> bool \<Rightarrow> merge_state \<Rightarrow> merge_state option"
  and mergeIncludes :: "PillarCompiler \<Rightarrow> nat \<Rightarrow> string \<Rightarrow> string list \<Rightarrow> string list \<Rightarrow> merge_state \<Rightarrow> merge_state option" where
  "mergeSLS c 0 env name stack opt st = None"
| "mergeSLS c (Suc depth) env name stack opt st =
     (case open_pillar c env name stack opt st of
        Inl st1 \<Rightarrow> Some st1
      | Inr (body, path, st1) \<Rightarrow>
          (case Map_Get body (KStr ''include'') of
             None \<Rightarrow> Some (merge_body c name body st1)
           | Some inc \<Rightarrow>
               map_option (merge_body c name (withoutKey body ''include''))
                 (mergeIncludes c depth env (includeNames inc name path) (stack @ [sls_key env name]) st1)))"
| "mergeIncludes c depth env [] stack st = Some st"
| "mergeIncludes c depth env (n # ns) stack st =
     (case mergeSLS c depth env n stack False st of
        None \<Rightarrow> None
      | Some st1 \<Rightarrow> mergeIncludes c depth env ns stack st1)"

fun merge_names :: "PillarCompiler \<Rightarrow> nat \<Rightarrow> string \<Rightarrow> string list \<Rightarrow> string list \<Rightarrow> merge_state \<Rightarrow> merge_state option" where
  "merge_names c depth env opt [] st = Some st"
| "merge_names c depth env opt (n # ns) st =
     (case mergeSLS c depth env n [] (n \<in> set opt) st of None \<Rightarrow> None | Some st1 \<Rightarrow> merge_names c depth env opt ns st1)"

fun merge_matches :: "PillarCompiler \<Rightarrow> nat \<Rightarrow> top_matches \<Rightarrow> merge_state \<Rightarrow> merge_state option" where
  "merge_matches c depth [] st = Some st"
| "merge_matches c depth ((env, names, opt) # ms) st =
     (case merge_names c depth env opt names st of None \<Rightarrow> None | Some st1 \<Rightarrow> merge_matches c depth ms st1)"

subsection \<open>External sources\<close>

fun offerStrings :: "val \<Rightarrow> string list"
  and offer_map :: "vmap \<Rightarrow> string list"
  and offer_entries :: "entry list \<Rightarrow> string list"
  and offer_items :: "val list \<Rightarrow> string list" where
  "offerStrings (VMap m) = offer_map m"
| "offerStrings (VSeq items) = offer_items items"
| "offerStrings (VStr s) = [s]"
| "offerStrings _ = []"
| "offer_map (GMap es ix p) = offer_entries es"
| "offer_entries [] = []"
| "offer_entries (Entry k v kp vp # es) = offerStrings v @ offer_entries es"
| "offer_items [] = []"
| "offer_items (v # vs) = offerStrings v @ offer_items vs"

definition ext_step :: "PillarCompiler \<Rightarrow> PillarCompiled \<Rightarrow> ExtSource \<Rightarrow> PillarCompiled" where
  "ext_step c out src =
     (let p = file_pos (''ext_pillar:'' @ ex_Name src) in
      case ex_Pillar src (pl_Pillar out) of
        Inl err \<Rightarrow>
          (let out1 = out\<lparr>pl_ExtFailed := pl_ExtFailed out @ [ex_Name src]\<rparr> in
           if ex_FailSoft src then
             out1\<lparr>pl_Diags := Diags_Warn p ''ext_pillar'' (ex_Name src)
               (''the external pillar source %q failed and ext_pillar_fail is ignore, so this node's '' @
                ''pillar is missing whatever it would have contributed: %v'') [FStr (ex_Name src), FStr err] (pl_Diags out1)\<rparr>
           else pl_add p ''ext_pillar'' (ex_Name src) ''the external pillar source %q failed: %v'' [FStr (ex_Name src), FStr err] out1)
      | Inr None \<Rightarrow> out
      | Inr (Some contributed) \<Rightarrow>
          if Map_Len contributed = 0 then out
          else
            let out1 = (if pc_OnSecret c \<and> ex_Secret src
                        then out\<lparr>pl_Secrets := pl_Secrets out @ offerStrings (VMap contributed)\<rparr> else out)
            in out1\<lparr>pl_Pillar := merge_pillar (pl_Pillar out1) contributed (pc_opts c), pl_Ext := pl_Ext out1 @ [ex_Name src]\<rparr>)"

definition mergeExt :: "PillarCompiler \<Rightarrow> PillarCompiled \<Rightarrow> PillarCompiled" where
  "mergeExt c out = foldl (ext_step c) out (pc_Ext c)"

definition Pillar_Compile :: "PillarCompiler \<Rightarrow> nat \<Rightarrow> PillarCompiled option" where
  "Pillar_Compile c depth =
     (case resolveTops c new_Pillar of
        None \<Rightarrow> None
      | Some (matches, out) \<Rightarrow>
          (case merge_matches c depth matches \<lparr>mg_out = out, mg_seen = []\<rparr> of
             None \<Rightarrow> None
           | Some st \<Rightarrow> Some (mergeExt c (mg_out st))))"

end
