(* ===== verification/Pillars.thy ===== *)
theory Pillars
  imports Pillar
begin

text \<open>
  What compiling a pillar promises: a permitted target means on the trusted attributes what it means on all of
  them, every delivery is in the audit record, compiling ends, and a failing external source is an error
  unless it was declared soft.
\<close>

subsection \<open>Targets on trusted attributes\<close>

text \<open>The node with all its grains; where the hub has attributes for it, they stand under \<open>node\<close> in place of a
  grain of that name.\<close>

definition has_attrs :: "PillarCompiler \<Rightarrow> bool" where
  "has_attrs c = (case pc_NodeAttrs c of Some attrs \<Rightarrow> Map_Len attrs > 0 | None \<Rightarrow> False)"

definition full_grain :: "PillarCompiler \<Rightarrow> string \<Rightarrow> val option" where
  "full_grain c name =
     (if name = ''node'' \<and> has_attrs c then map_option VMap (pc_NodeAttrs c) else grain_get (pc_Grains c) name)"

lemma trust_grains:
  assumes "map_ok m"
  shows "map_ok (foldl (trust_grain g) m names) \<and>
    Map_Get (foldl (trust_grain g) m names) (KStr name) =
      (if name \<in> set names \<and> grain_get g name \<noteq> None then grain_get g name else Map_Get m (KStr name))"
  using assms
proof (induction names arbitrary: m)
  case (Cons n names)
  have "map_ok (trust_grain g m n)" and get: "Map_Get (trust_grain g m n) (KStr name) =
      (if name = n \<and> grain_get g name \<noteq> None then grain_get g name else Map_Get m (KStr name))"
    using Cons.prems by (auto simp: trust_grain_def Map_Set_def map_ok_SetAt Get_SetAt split: option.split)
  from Cons.IH [OF this(1)] get show ?case by auto
qed simp

lemma targetNode_grain:
  "grain_of (targetNode c) name =
     (if name = ''node'' \<and> has_attrs c \<or> name \<in> set (trusted c) then full_grain c name else None)"
proof -
  have m: "map_ok NewMap" by simp
  note t = trust_grains [OF m, of "pc_Grains c" "trusted c"]
  show ?thesis
    by (auto simp: targetNode_def Let_def grain_of_def full_grain_def has_attrs_def t Get_NewMap Map_Set_def Get_SetAt
        split: option.split)
qed

lemma judge_terms_Inr:
  "judge_terms expr trust ts (untrusted, basis) = Inr ([], b) \<Longrightarrow>
     untrusted = [] \<and> list_all (\<lambda>t. tm_Kind t \<in> {TkGlob, TkList, TkRegex} \<or>
       tm_Kind t \<in> {TkGrain, TkGrainRegex} \<and> (root_name (tm_Key t) = ''node'' \<or> tm_Key t \<in> set trust)) ts"
proof (induction expr trust ts "(untrusted, basis)" arbitrary: untrusted basis rule: judge_terms.induct)
  case (2 expr trust t ts untrusted basis)
  have node: "root_name k = ''node''" if "has_prefix k ''node:''" for k
    using that by (auto simp: has_prefix_iff root_name_def)
  show ?case
  proof (cases "tm_Kind t \<in> {TkGrain, TkGrainRegex}")
    case True
    then have j: "judge_terms expr trust ts
        (if tm_Key t = ''node'' \<or> has_prefix (tm_Key t) ''node:'' then untrusted
         else if tm_Key t \<notin> set trust then untrusted @ [tm_Key t] else untrusted, ''grain'') = Inr ([], b)"
      using 2(3) by auto
    have "root_name ''node'' = ''node''" by (simp add: root_name_def)
    with 2(2) [OF _ _ _ _ j] True node show ?thesis by (auto split: if_splits)
  next
    case False
    with 2 show ?thesis by (auto split: if_splits)
  qed
qed simp

lemma permitted_terms:
  assumes "checkTargetIsPermitted c expr m = Inr basis"
  shows "list_all (\<lambda>t. tm_Kind t \<in> {TkGlob, TkList, TkRegex} \<or>
       tm_Kind t \<in> {TkGrain, TkGrainRegex} \<and> (root_name (tm_Key t) = ''node'' \<or> tm_Key t \<in> set (trusted c))) (mt_terms m)"
proof -
  from assms obtain u b where "judge_terms expr (trusted c) (mt_terms m) ([], ''glob'') = Inr (u, b)" "u = []"
    by (auto simp: checkTargetIsPermitted_def split: sum.splits if_splits)
  with judge_terms_Inr [of expr "trusted c" "mt_terms m" "[]" "''glob''" b] show ?thesis by simp
qed

text \<open>C18: a pillar target that is permitted is not distorted by being evaluated on the trusted attributes only.
  Suppose that no trusted name is a path, and that the name \<open>node\<close> is settled: the hub has attributes for the
  node, or the grain \<open>node\<close> is trusted, or the node has no such grain. Then the target matches the node the
  compiler builds exactly when it matches the node with all its grains, the hub's attributes under \<open>node\<close> where
  there are any: no term reads a grain that was withheld, so none is false, and no negation true, for want of it.\<close>

theorem permitted_pillar_target_is_faithful:
  assumes "target_Compile (pc_target c) kind expr groups = Some (Inr m)"
    and "checkTargetIsPermitted c expr m = Inr basis"
    and "list_all (\<lambda>name. CHR '':'' \<notin> set name) (trusted c)"
    and "has_attrs c \<or> ''node'' \<in> set (trusted c) \<or> grain_get (pc_Grains c) ''node'' = None"
    and "nd_ID n = pc_NodeID c" and "\<And>name. grain_of n name = full_grain c name"
  shows "Matcher_Match (pc_target c) m (targetNode c) = Matcher_Match (pc_target c) m n"
proof (rule match_same [OF assms(1)])
  show "nd_ID (targetNode c) = nd_ID n" by (simp add: targetNode_def Let_def assms(5))
  have "root_name k = k" if "k \<in> set (trusted c)" for k using assms(3) that by (simp add: list_all_iff)
  moreover have "grain_of (targetNode c) ''node'' = grain_of n ''node''"
    using assms(4) by (auto simp: targetNode_grain assms(6) full_grain_def)
  ultimately show "list_all (same_for (targetNode c) n) (mt_terms m)"
    using permitted_terms [OF assms(2)]
    by (auto simp: list_all_iff same_for_def targetNode_grain assms(6) simp del: root_name_append)
qed

subsection \<open>The audit record\<close>

definition delivered :: "top_matches \<Rightarrow> string \<Rightarrow> string list" where
  "delivered matches env = (case gomap_get matches env of None \<Rightarrow> [] | Some (names, _) \<Rightarrow> names)"

text \<open>The entry stands for a target that compiled, was permitted on that basis and matched, under an environment
  that is served.\<close>

definition justified :: "PillarCompiler \<Rightarrow> AuditEntry \<Rightarrow> bool" where
  "justified c a \<longleftrightarrow> au_Env a \<in> set (pc_Envs c) \<and>
     (\<exists>body m. CompileTopTarget (pc_target c) (au_Target a) body (pc_Nodegroups c) = Some (Inr m) \<and>
        checkTargetIsPermitted c (au_Target a) m = Inr (au_Basis a) \<and> Matcher_Match (pc_target c) m (targetNode c))"

definition audit_ok :: "PillarCompiler \<Rightarrow> top_matches \<times> PillarCompiled \<Rightarrow> bool" where
  "audit_ok c = (\<lambda>(matches, out). list_all (justified c) (pl_Audit out) \<and>
     (\<forall>env name. name \<in> set (delivered matches env) \<longleftrightarrow> (\<exists>a \<in> set (pl_Audit out). au_Env a = env \<and> name \<in> set (au_SLS a))))"

lemma delivered_add:
  "delivered (add_match env names ign matches) env' =
     (if env' = env then appendUnique (delivered matches env) names else delivered matches env')"
  by (auto simp: delivered_def add_match_def Let_def split_beta split: option.splits)

lemma audit_pl_add [simp]: "pl_Audit (pl_add p sls ident fmt args out) = pl_Audit out"
  by (simp add: pl_add_def)

lemma audit_names: "pillarSLSNames v p out = (names, ign, out1) \<Longrightarrow> pl_Audit out1 = pl_Audit out"
  by (auto simp: pillarSLSNames_def split: val.splits prod.splits)

lemma audit_ok_keep: "audit_ok c (matches, out) \<Longrightarrow> pl_Audit out' = pl_Audit out \<Longrightarrow> audit_ok c (matches, out')"
  by (simp add: audit_ok_def)

lemma match_pillar_audit:
  assumes "audit_ok c st"
  shows "\<exists>st'. match_pillar c e st = Some st' \<and> audit_ok c st'"
proof -
  obtain matches out where st: "st = (matches, out)" by (cases st)
  note keep = audit_ok_keep [OF assms [unfolded st]]
  from CompileTopTarget_total obtain r
    where r: "CompileTopTarget (pc_target c) (pe_expr e) (pe_val e) (pc_Nodegroups c) = Some r" by blast
  show ?thesis
  proof (cases r)
    case (Inl err)
    then show ?thesis using r keep by (simp add: st match_pillar_def)
  next
    case (Inr m)
    show ?thesis
    proof (cases "checkTargetIsPermitted c (pe_expr e) m")
      case (Inl err)
      then show ?thesis using r Inr keep by (simp add: st match_pillar_def)
    next
      case (Inr basis)
      obtain names ign out1 where n: "pillarSLSNames (pe_val e) (pe_valPos e) out = (names, ign, out1)" by (metis prod_cases3)
      note a = audit_names [OF n]
      let ?a = "\<lparr>au_Env = pe_heading e, au_Target = pe_expr e, au_Basis = basis, au_SLS = names\<rparr>"
      show ?thesis
      proof (cases "Matcher_Match (pc_target c) m (targetNode c) \<and> pe_heading e \<in> set (pc_Envs c)")
        case True
        have "justified c ?a" using True r \<open>r = Inr m\<close> Inr by (auto simp: justified_def)
        with assms a have "audit_ok c (add_match (pe_heading e) names ign matches, out1\<lparr>pl_Audit := pl_Audit out1 @ [?a]\<rparr>)"
          by (auto simp: st audit_ok_def delivered_add)
        with True r \<open>r = Inr m\<close> Inr n show ?thesis by (simp add: st match_pillar_def)
      next
        case False
        then show ?thesis using r \<open>r = Inr m\<close> Inr n a keep by (auto simp: st match_pillar_def)
      qed
    qed
  qed
qed

lemma match_pillars_audit: "audit_ok c st \<Longrightarrow> \<exists>st'. match_pillars c es st = Some st' \<and> audit_ok c st'"
proof (induction es arbitrary: st)
  case (Cons e es)
  from match_pillar_audit [OF Cons.prems, of e] obtain st1 where "match_pillar c e st = Some st1" "audit_ok c st1" by blast
  with Cons.IH [OF this(2)] show ?case by simp
qed simp

lemma gather_audit:
  "pl_Audit (snd (foldl (gather_top c) (es, out) envs)) = pl_Audit out"
proof -
  have h: "pl_Audit (snd (foldl (gather_heading c) (es, out) hs)) = pl_Audit out" for es out hs
    by (induction hs arbitrary: es out) (auto simp: gather_heading_def Let_def split: val.splits)
  have r: "pl_Audit (snd (readTop c out env)) = pl_Audit out" for out env
    by (auto simp: readTop_def Let_def split: source_result.splits prod.splits sum.splits val.splits)
  have "pl_Audit (snd (gather_top c (es, out) env)) = pl_Audit out" for es out env
    using r [of out env] h by (auto simp: gather_top_def split: prod.splits option.splits)
  then show ?thesis by (induction envs arbitrary: es out) (auto, metis prod.collapse)
qed

lemma resolveTops_audit: "\<exists>matches out. resolveTops c new_Pillar = Some (matches, out) \<and> audit_ok c (matches, out)"
proof -
  obtain es out1 where g: "foldl (gather_top c) ([], new_Pillar) (topEnvs c) = (es, out1)" by fastforce
  with gather_audit [of c "[]" new_Pillar "topEnvs c"] have "audit_ok c ([], out1)"
    by (simp add: audit_ok_def delivered_def new_Pillar_def)
  from match_pillars_audit [OF this] g show ?thesis by (auto simp: resolveTops_def)
qed

text \<open>C19: every delivery can be reconstructed. What the top files deliver to a node is exactly what the audit record
  lists, and every entry of the record stands for a target that compiled, was permitted on the basis recorded,
  matched the node's trusted attributes and is served from its own environment.\<close>

theorem deliveries_are_audited:
  "\<exists>matches out. resolveTops c new_Pillar = Some (matches, out) \<and> list_all (justified c) (pl_Audit out) \<and>
     (\<forall>env. set (delivered matches env) = \<Union> (set ` au_SLS ` {a \<in> set (pl_Audit out). au_Env a = env}))"
proof -
  from resolveTops_audit [of c] obtain matches out where
    "resolveTops c new_Pillar = Some (matches, out)" "audit_ok c (matches, out)" by blast
  then show ?thesis by (intro exI [of _ matches] exI [of _ out]) (auto simp: audit_ok_def)
qed

subsection \<open>Compiling ends\<close>

definition pillar_files :: "PillarCompiler \<Rightarrow> string set" where
  "pillar_files c = {sls_key env name | env name src path. pc_Source c env name = SrcOK src path}"

lemma open_pillar_Inr:
  assumes "open_pillar c env name stack opt st = Inr (body, path, st1)"
  shows "sls_key env name \<notin> set stack \<and> sls_key env name \<in> pillar_files c"
proof -
  have stack: "find_index (\<lambda>s. s = sls_key env name) stack = None"
    using assms by (cases "find_index (\<lambda>s. s = sls_key env name) stack") (simp_all add: open_pillar_def)
  moreover have "\<exists>src path. pc_Source c env name = SrcOK src path"
    using assms stack by (cases "pc_Source c env name") (auto simp: open_pillar_def Let_def split: if_splits)
  ultimately show ?thesis by (auto simp: find_index_None pillar_files_def)
qed

lemma mergeSLS_enough:
  shows "finite (pillar_files c) \<Longrightarrow> set stack \<subseteq> pillar_files c \<Longrightarrow> distinct stack \<Longrightarrow>
       card (pillar_files c) < depth + length stack \<Longrightarrow> mergeSLS c depth env name stack opt st \<noteq> None"
    and "finite (pillar_files c) \<Longrightarrow> set stack \<subseteq> pillar_files c \<Longrightarrow> distinct stack \<Longrightarrow>
       card (pillar_files c) < depth + length stack \<Longrightarrow> mergeIncludes c depth env names stack st \<noteq> None"
proof (induction c depth env name stack opt st and c depth env names stack st rule: mergeSLS_mergeIncludes.induct)
  case (1 c env name stack opt st)
  then have "length stack \<le> card (pillar_files c)" by (metis card_mono distinct_card)
  with 1 show ?case by simp
next
  case (2 c depth env name stack opt st)
  show ?case
  proof (cases "open_pillar c env name stack opt st")
    case (Inr x)
    obtain body path st1 where x: "x = (body, path, st1)" by (metis prod_cases3)
    note key = open_pillar_Inr [OF Inr [unfolded x]]
    show ?thesis
    proof (cases "Map_Get body (KStr ''include'')")
      case (Some inc)
      from "2.IH" [OF Inr x [symmetric] refl Some] "2.prems" key
      have "mergeIncludes c depth env (includeNames inc name path) (stack @ [sls_key env name]) st1 \<noteq> None" by simp
      with Inr x Some show ?thesis by simp
    qed (use Inr x in simp)
  qed simp
next
  case (4 c depth env n ns stack st)
  then obtain st1 where "mergeSLS c depth env n stack False st = Some st1" by blast
  with "4.IH"(2) [OF this "4.prems"] show ?case by simp
qed simp

lemma mergeSLS_deeper:
  shows "mergeSLS c depth env name stack opt st = Some st' \<Longrightarrow> depth \<le> depth' \<Longrightarrow>
       mergeSLS c depth' env name stack opt st = Some st'"
    and "mergeIncludes c depth env names stack st = Some st' \<Longrightarrow> depth \<le> depth' \<Longrightarrow>
       mergeIncludes c depth' env names stack st = Some st'"
proof (induction c depth env name stack opt st and c depth env names stack st
    arbitrary: st' depth' and st' depth' rule: mergeSLS_mergeIncludes.induct)
  case (2 c depth env name stack opt st)
  from "2.prems"(2) obtain d where d: "depth' = Suc d" "depth \<le> d" by (cases depth') auto
  show ?case
  proof (cases "open_pillar c env name stack opt st")
    case (Inr x)
    obtain body path st1 where x: "x = (body, path, st1)" by (metis prod_cases3)
    show ?thesis
    proof (cases "Map_Get body (KStr ''include'')")
      case (Some inc)
      with "2.prems"(1) Inr x obtain st2 where
        st2: "mergeIncludes c depth env (includeNames inc name path) (stack @ [sls_key env name]) st1 = Some st2"
          "st' = merge_body c name (withoutKey body ''include'') st2" by auto
      from "2.IH" [OF Inr x [symmetric] refl Some st2(1) d(2)] st2(2) Inr x Some d(1) show ?thesis by simp
    qed (use "2.prems"(1) Inr x d in simp)
  qed (use "2.prems"(1) d in simp)
next
  case (4 c depth env n ns stack st)
  from "4.prems"(1) obtain st1 where st1: "mergeSLS c depth env n stack False st = Some st1"
    "mergeIncludes c depth env ns stack st1 = Some st'" by (auto split: option.splits)
  from "4.IH"(1) [OF st1(1) "4.prems"(2)] "4.IH"(2) [OF st1 "4.prems"(2)] show ?case by simp
qed simp_all

lemma merge_names_enough:
  assumes "finite (pillar_files c)"
  shows "\<exists>st'. \<forall>depth > card (pillar_files c). merge_names c depth env opt names st = Some st'"
proof (induction names arbitrary: st)
  case (Cons n names)
  from mergeSLS_enough(1) [OF assms, of "[]" "Suc (card (pillar_files c))" env n "n \<in> set opt" st]
  obtain st1 where st1: "mergeSLS c (Suc (card (pillar_files c))) env n [] (n \<in> set opt) st = Some st1" by auto
  from Cons.IH [of st1] obtain st' where "\<forall>depth > card (pillar_files c). merge_names c depth env opt names st1 = Some st'" ..
  then have "\<forall>depth > card (pillar_files c). merge_names c depth env opt (n # names) st = Some st'"
    using mergeSLS_deeper(1) [OF st1] by simp
  then show ?case ..
qed simp

lemma merge_matches_enough:
  assumes "finite (pillar_files c)"
  shows "\<exists>st'. \<forall>depth > card (pillar_files c). merge_matches c depth ms st = Some st'"
proof (induction ms arbitrary: st)
  case (Cons m ms)
  obtain env names opt where m: "m = (env, names, opt)" by (metis prod_cases3)
  from merge_names_enough [OF assms, of env opt names st] obtain st1
    where "\<forall>depth > card (pillar_files c). merge_names c depth env opt names st = Some st1" ..
  moreover from Cons.IH [of st1] obtain st' where "\<forall>depth > card (pillar_files c). merge_matches c depth ms st1 = Some st'" ..
  ultimately have "\<forall>depth > card (pillar_files c). merge_matches c depth (m # ms) st = Some st'" by (simp add: m)
  then show ?case ..
qed simp

text \<open>Compiling a pillar always ends, however its files include one another: one recursion level more than there
  are files is enough and every larger bound gives the same pillar.\<close>

theorem Pillar_Compile_terminates:
  assumes "finite (pillar_files c)"
  shows "\<exists>out. \<forall>depth > card (pillar_files c). Pillar_Compile c depth = Some out"
proof -
  from resolveTops_audit [of c] obtain matches out where r: "resolveTops c new_Pillar = Some (matches, out)" by blast
  from merge_matches_enough [OF assms, of matches "\<lparr>mg_out = out, mg_seen = []\<rparr>"] obtain st
    where "\<forall>depth > card (pillar_files c). merge_matches c depth matches \<lparr>mg_out = out, mg_seen = []\<rparr> = Some st" ..
  with r have "\<forall>depth > card (pillar_files c). Pillar_Compile c depth = Some (mergeExt c (mg_out st))"
    by (simp add: Pillar_Compile_def)
  then show ?thesis ..
qed

subsection \<open>External sources\<close>

text \<open>The sources that were asked for the pillar given and failed, those of the list in order.\<close>

lemma ext_step_cases:
  obtains (failed) "pl_ExtFailed (ext_step c out src) = pl_ExtFailed out @ [ex_Name src]"
      "HasErrors (pl_Diags (ext_step c out src)) \<longleftrightarrow> HasErrors (pl_Diags out) \<or> \<not> ex_FailSoft src"
      "pl_Ext (ext_step c out src) = pl_Ext out" "pl_Pillar (ext_step c out src) = pl_Pillar out"
  | (answered) "pl_ExtFailed (ext_step c out src) = pl_ExtFailed out" "pl_Diags (ext_step c out src) = pl_Diags out"
proof (cases "ex_Pillar src (pl_Pillar out)")
  case (Inl err)
  then show thesis by (intro failed) (simp_all add: ext_step_def Let_def pl_add_def)
next
  case (Inr r)
  then show thesis by (intro answered) (cases r; simp add: ext_step_def Let_def)+
qed

lemma mergeExt_failed:
  "\<exists>failed. subseq failed srcs \<and>
     pl_ExtFailed (foldl (ext_step c) out srcs) = pl_ExtFailed out @ map ex_Name failed \<and>
     (HasErrors (pl_Diags (foldl (ext_step c) out srcs)) \<longleftrightarrow>
        HasErrors (pl_Diags out) \<or> list_ex (\<lambda>src. \<not> ex_FailSoft src) failed)"
proof (induction srcs arbitrary: out)
  case (Cons src srcs)
  from Cons.IH [of "ext_step c out src"] obtain failed where f: "subseq failed srcs"
    "pl_ExtFailed (foldl (ext_step c) (ext_step c out src) srcs) = pl_ExtFailed (ext_step c out src) @ map ex_Name failed"
    "HasErrors (pl_Diags (foldl (ext_step c) (ext_step c out src) srcs)) \<longleftrightarrow>
       HasErrors (pl_Diags (ext_step c out src)) \<or> list_ex (\<lambda>src. \<not> ex_FailSoft src) failed" by blast
  show ?case
  proof (cases rule: ext_step_cases [of c out src])
    case failed
    from f failed show ?thesis by (intro exI [of _ "src # failed"]) auto
  next
    case answered
    from f answered show ?thesis by (intro exI [of _ failed]) auto
  qed
qed simp

text \<open>A partial pillar is an error. The sources that failed are recorded in the order they were configured, and
  the external sources add an error exactly when one that failed was not declared soft.\<close>

theorem a_hard_source_failure_is_an_error:
  "\<exists>failed. subseq failed (pc_Ext c) \<and> pl_ExtFailed (mergeExt c out) = pl_ExtFailed out @ map ex_Name failed \<and>
     (HasErrors (pl_Diags (mergeExt c out)) \<longleftrightarrow> HasErrors (pl_Diags out) \<or> list_ex (\<lambda>src. \<not> ex_FailSoft src) failed)"
  unfolding mergeExt_def by (rule mergeExt_failed)

subsection \<open>A sample pillar tree\<close>

definition pillar_tree :: "((string \<times> string) \<times> val) list \<Rightarrow> string list \<Rightarrow> vmap \<Rightarrow> PillarCompiler" where
  "pillar_tree files trust grains = \<lparr>pc_target = sample_env,
     pc_Source = (\<lambda>env name. case map_of files (env, name) of None \<Rightarrow> SrcNotFound | Some _ \<Rightarrow> SrcOK [] (name @ ''.sls'')),
     pc_Envs = [''base''],
     pc_Render = (\<lambda>src env name path pillar. ([], Inr (case map_of files (env, name) of None \<Rightarrow> VNull | Some d \<Rightarrow> d))),
     pc_Env = [], pc_AllEnvs = False, pc_NodeID = ''web1'', pc_Grains = Some grains, pc_NodeAttrs = None,
     pc_TrustedGrains = trust, pc_opts = \<lparr>opt_Strategy = Smart, opt_MergeLists = False\<rparr>, pc_Nodegroups = [],
     pc_OnSecret = False, pc_Ext = []\<rparr>"

lemma pillar_tree_files:
  "finite (pillar_files (pillar_tree files trust grains))"
  "card (pillar_files (pillar_tree files trust grains)) \<le> length files"
proof -
  have "pillar_files (pillar_tree files trust grains) \<subseteq> (\<lambda>(e, n). sls_key e n) ` fst ` set files"
    by (auto simp: pillar_files_def pillar_tree_def image_iff split: option.splits dest!: map_of_SomeD) force
  note this [THEN served_files(1)] this [THEN served_files(2)]
  then show "finite (pillar_files (pillar_tree files trust grains))"
    "card (pillar_files (pillar_tree files trust grains)) \<le> length files" .
qed

text \<open>Two files that include each other.\<close>

definition cyclic_pillar :: PillarCompiler where
  "cyclic_pillar = pillar_tree
     [((''base'', ''top''), doc_map [(''base'', doc_map [(''web1'', VSeq [VStr ''a''])])]),
      ((''base'', ''a''), doc_map [(''include'', VSeq [VStr ''b'']), (''x'', VInt 1)]),
      ((''base'', ''b''), doc_map [(''include'', VSeq [VStr ''a'']), (''x'', VInt 2)])] [] NewMap"

theorem Pillar_Compile_terminates_witness:
  "\<exists>out. Pillar_Compile cyclic_pillar 4 = Some out \<and> Pillar_Compile cyclic_pillar 5 = Some out"
proof -
  have "finite (pillar_files cyclic_pillar)" "card (pillar_files cyclic_pillar) \<le> 3"
    unfolding cyclic_pillar_def by (rule pillar_tree_files(1)) (rule order.trans [OF pillar_tree_files(2)], simp)
  with Pillar_Compile_terminates [of cyclic_pillar] show ?thesis by auto
qed

definition os_pillar :: PillarCompiler where
  "os_pillar = pillar_tree [] [] (MapOf [(KStr ''os'', VStr ''linux''), (KStr ''role'', VStr ''db'')])"

definition os_node :: Node where
  "os_node = \<lparr>nd_ID = ''web1'', nd_Grains = pc_Grains os_pillar, nd_Pillar = None, nd_LoadPillar = None\<rparr>"

lemma os_target:
  obtains m basis where "target_Compile (pc_target os_pillar) TkCompound ''not G@os:win'' [] = Some (Inr m)"
    "checkTargetIsPermitted os_pillar ''not G@os:win'' m = Inr basis"
proof -
  have "(case target_Compile (pc_target os_pillar) TkCompound ''not G@os:win'' [] of
     Some (Inr m) \<Rightarrow> checkTargetIsPermitted os_pillar ''not G@os:win'' m = Inr ''grain'' | _ \<Rightarrow> False)" by code_simp
  then show ?thesis using that by (auto split: option.splits sum.splits)
qed

theorem permitted_pillar_target_is_faithful_witness:
  "\<exists>m. target_Compile sample_env TkCompound ''not G@os:win'' [] = Some (Inr m) \<and>
     Matcher_Match sample_env m (targetNode os_pillar) = Matcher_Match sample_env m os_node"
proof -
  obtain m basis where m: "target_Compile (pc_target os_pillar) TkCompound ''not G@os:win'' [] = Some (Inr m)"
    "checkTargetIsPermitted os_pillar ''not G@os:win'' m = Inr basis" by (rule os_target)
  have t: "list_all (\<lambda>name. CHR '':'' \<notin> set name) (trusted os_pillar)" by code_simp
  have n: "nd_ID os_node = pc_NodeID os_pillar" by code_simp
  have a: "has_attrs os_pillar \<or> ''node'' \<in> set (trusted os_pillar) \<or> grain_get (pc_Grains os_pillar) ''node'' = None"
    by code_simp
  have g: "grain_of os_node name = full_grain os_pillar name" for name
    by (simp add: grain_of_def os_node_def full_grain_def has_attrs_def grain_get_def os_pillar_def pillar_tree_def)
  have e: "pc_target os_pillar = sample_env" by (simp add: os_pillar_def pillar_tree_def)
  from permitted_pillar_target_is_faithful [OF m t a n g] m(1) show ?thesis unfolding e by blast
qed

end
