(* ===== verification/Policy.thy ===== *)
theory Policy
  imports Signature Target
begin

text \<open>
  Access control (\<open>internal/policy\<close>): a policy file of roles and bindings is loaded, and every job and runner
  call is judged by it, deny by default. A reason is the text of a refusal as a format and its arguments;
  \<open>None\<close> is the empty string. The YAML parser, float equality and what the runtime prints are parameters.
\<close>

subsection \<open>Job functions and node IDs\<close>

definition jobFunctions :: "string list" where
  "jobFunctions = [''apply'', ''highstate'', ''sls'', ''show_top'', ''show_highstate'', ''show_sls'', ''show_lowstate'', ''show_states'']"

definition JobFunction :: "string \<Rightarrow> string option" where
  "JobFunction fn =
     (if \<not> has_prefix fn ''state.'' then None
      else let name = drop 6 fn in if name \<in> set jobFunctions then Some name else None)"

definition JobFunctions :: "string list" where
  "JobFunctions = map (\<lambda>f. ''state.'' @ f) jobFunctions"

definition node_rune :: "nat \<Rightarrow> bool" where
  "node_rune r \<longleftrightarrow> 97 \<le> r \<and> r \<le> 122 \<or> 65 \<le> r \<and> r \<le> 90 \<or> 48 \<le> r \<and> r \<le> 57 \<or> r \<in> set [46, 45, 95]"

text \<open>The error, or none.\<close>

definition ValidateNodeID :: "string \<Rightarrow> fmt_arg option" where
  "ValidateNodeID nodeID =
     (if nodeID = [] then Some (FStr ''a node identity cannot be empty'')
      else if length nodeID > 253 then
        Some (FErr ''the node identity is %d bytes; the maximum is 253'' [FInt (int (length nodeID))])
      else if has_prefix nodeID ''-'' \<or> has_prefix nodeID ''.'' then
        Some (FErr ''the node identity %q may not start with %q'' [FStr nodeID, FStr (take 1 nodeID)])
      else if list_ex (\<lambda>i. has_prefix (drop i nodeID) ''..'') [0..<length nodeID] then
        Some (FErr ''the node identity %q may not contain %q'' [FStr nodeID, FStr ''..''])
      else case find (\<lambda>r. \<not> node_rune r) (runes nodeID) of
        Some r \<Rightarrow> Some (FErr ''the node identity %q contains %q; letters, digits, and .-_ are allowed''
                     [FStr nodeID, FStr (map char_of (encode_rune r))])
      | None \<Rightarrow> None)"

subsection \<open>Policies and requests\<close>

record ArgRule =
  ar_AllowSLS :: "string list"
  ar_DenySLS :: "string list"
  ar_AllowEnv :: "string list"
  ar_DenyEnv :: "string list"
  ar_AllowMods :: "string list"
  ar_DenyKwargs :: "string list"
  ar_RequireKwargs :: "(string, val) gomap"

record Rule =
  ru_Target :: string
  ru_Functions :: "string list"
  ru_Runners :: "string list"
  ru_Args :: "(string, ArgRule) gomap"
  ru_ActFor :: "string list"

record Binding =
  bi_Principal :: string
  bi_Roles :: "string list"

record Policy =
  po_Roles :: "(string, Rule list) gomap"
  po_Bindings :: "Binding list"
  po_Path :: string
  po_ArbitraryCode :: "string list"
  po_Shipped :: "string list option"

text \<open>A keyword's value as a request carries it: of the nine kinds, or a Go \<open>int\<close>, or a number of a JSON body.\<close>

datatype kwarg = KwVal val | KwInt int | KwNumber string

record Request =
  rq_Principal :: string
  rq_Target :: string
  rq_TargetKind :: string
  rq_Fun :: string
  rq_Arg :: "string list"
  rq_Kwarg :: "(string, kwarg) gomap"
  rq_Test :: bool
  rq_Env :: string
  rq_Resumes :: "string list option"
  rq_Runner :: bool

record Decision =
  de_Allowed :: bool
  de_Role :: string
  de_RuleIndex :: nat
  de_Reason :: fmt_arg

definition denied :: "string \<Rightarrow> fmt_arg list \<Rightarrow> Decision" where
  "denied fmt args = \<lparr>de_Allowed = False, de_Role = [], de_RuleIndex = 0, de_Reason = FErr fmt args\<rparr>"

record policy_env =
  pv_rt :: go_runtime
  pv_float_eq :: "gofloat \<Rightarrow> gofloat \<Rightarrow> bool"   \<comment> \<open>\<open>==\<close> on \<open>float64\<close>\<close>

definition Decision_String :: "Decision \<Rightarrow> fmt_arg" where
  "Decision_String d =
     (if de_Allowed d then FErr ''allowed by role %q rule %d'' [FStr (de_Role d), FInt (int (de_RuleIndex d))]
      else FErr ''denied: %s'' [de_Reason d])"

subsection \<open>The catalog\<close>

definition use_name :: "Registry \<Rightarrow> string list \<times> string list \<Rightarrow> string \<Rightarrow> string list \<times> string list" where
  "use_name r = (\<lambda>(arbitrary, shipped) name.
     (case Registry_Lookup r name of
        Some sig \<Rightarrow> if sig_ArbitraryCode sig then arbitrary @ [name] else arbitrary
      | None \<Rightarrow> arbitrary, shipped @ [name]))"

definition UseCatalog :: "Policy \<Rightarrow> Registry list \<Rightarrow> Policy" where
  "UseCatalog p registries =
     (case foldl (\<lambda>st r. foldl (use_name r) st (Registry_Names r)) ([], JobFunctions) registries of
        (arbitrary, shipped) \<Rightarrow> p\<lparr>po_ArbitraryCode := arbitrary, po_Shipped := Some shipped\<rparr>)"

definition is_shipped :: "Policy \<Rightarrow> string \<Rightarrow> bool" where
  "is_shipped p fn = (case po_Shipped p of None \<Rightarrow> False | Some s \<Rightarrow> fn \<in> set s)"

definition wildcardGrants :: "Policy \<Rightarrow> string \<Rightarrow> bool" where
  "wildcardGrants p fn = (is_shipped p fn \<and> fn \<notin> set (po_ArbitraryCode p))"

definition ReadsPillar :: "string \<Rightarrow> bool \<Rightarrow> bool" where
  "ReadsPillar fn runner =
     (fn \<in> set (if runner then [''pillar.show_pillar'', ''cache.pillar'']
                else [''pillar.items'', ''pillar.raw'', ''pillar.get'', ''config.get'']))"

definition PillarReaders :: "string list \<times> string list" where
  "PillarReaders = (sort [''pillar.items'', ''pillar.raw'', ''pillar.get'', ''config.get''],
     sort [''pillar.show_pillar'', ''cache.pillar''])"

subsection \<open>Patterns\<close>

definition MatchGlob :: "go_runtime \<Rightarrow> string \<Rightarrow> string \<Rightarrow> bool" where
  "MatchGlob rt pattern s = (if pattern = ''*'' then True else Match rt pattern s)"

definition matchGlob :: "go_runtime \<Rightarrow> string \<Rightarrow> string \<Rightarrow> bool" where
  "matchGlob rt pattern s = (pattern = ''*'' \<or> Match rt pattern s)"

definition matchAny :: "go_runtime \<Rightarrow> string list \<Rightarrow> string \<Rightarrow> bool" where
  "matchAny rt patterns s = list_ex (\<lambda>p. p = s \<or> matchGlob rt p s) patterns"

definition matchPrincipal :: "go_runtime \<Rightarrow> string \<Rightarrow> string \<Rightarrow> bool" where
  "matchPrincipal rt pattern who = (pattern = who \<or> Match rt pattern who)"

definition namedExactly :: "string list \<Rightarrow> string \<Rightarrow> bool" where
  "namedExactly patterns fn = list_ex (\<lambda>p. p = fn) patterns"

definition literalCovered :: "go_runtime \<Rightarrow> string \<Rightarrow> string \<Rightarrow> bool" where
  "literalCovered rt granted node =
     (if granted = ''*'' then True
      else if ValidateNodeID node \<noteq> None then False
      else granted = node \<or> MatchGlob rt granted node)"

definition targetCovered :: "go_runtime \<Rightarrow> string \<Rightarrow> TKind \<Rightarrow> string \<Rightarrow> bool" where
  "targetCovered rt granted kind asked =
     (if granted = ''*'' then True
      else if kind = TkGlob then granted = asked \<or> literalCovered rt granted asked
      else if kind = TkList then
        (let ids = ListIDs asked in length ids \<noteq> 0 \<and> list_all (literalCovered rt granted) ids)
      else False)"

subsection \<open>Arguments\<close>

definition orchestrationRunners :: "string list" where
  "orchestrationRunners = [''state.orch'', ''state.orchestrate'', ''state.orchestrate_show_sls'']"

definition resumeRunner :: string where
  "resumeRunner = ''state.orch_resume''"

definition ArgumentFamily :: "string \<Rightarrow> bool \<Rightarrow> string list" where
  "ArgumentFamily fn runner =
     (let members = (if runner then orchestrationRunners @ [resumeRunner] else JobFunctions)
      in if fn \<in> set members then sort members else [])"

text \<open>Each rule with the function it was written under.\<close>

definition argRulesFor :: "Rule \<Rightarrow> string \<Rightarrow> bool \<Rightarrow> (string \<times> ArgRule) list" where
  "argRulesFor rule fn runner =
     (case gomap_get (ru_Args rule) fn of Some own \<Rightarrow> [(fn, own)] | None \<Rightarrow> []) @
     concat (map (\<lambda>member.
        if member = fn then []
        else case gomap_get (ru_Args rule) member of Some r \<Rightarrow> [(member, r)] | None \<Rightarrow> [])
      (ArgumentFamily fn runner))"

definition wireKwargs :: "Request \<Rightarrow> (string, kwarg) gomap" where
  "wireKwargs r = (if \<not> rq_Test r then rq_Kwarg r else gomap_put ''test'' (KwVal (VBool True)) (rq_Kwarg r))"

definition toFloat :: "go_runtime \<Rightarrow> kwarg \<Rightarrow> gofloat option" where
  "toFloat rt v =
     (case v of
        KwInt t \<Rightarrow> Some (rt_FloatOfInt rt t)
      | KwVal (VInt t) \<Rightarrow> Some (rt_FloatOfInt rt t)
      | KwVal (VFloat t) \<Rightarrow> Some t
      | KwNumber t \<Rightarrow> rt_ParseFloat rt t
      | _ \<Rightarrow> None)"

definition sameScalar :: "policy_env \<Rightarrow> val \<Rightarrow> kwarg \<Rightarrow> bool" where
  "sameScalar v want got =
     (case want of
        VBool w \<Rightarrow> got = KwVal (VBool w)
      | VStr w \<Rightarrow> got = KwVal (VStr w)
      | _ \<Rightarrow>
          (case (toFloat (pv_rt v) (KwVal want), toFloat (pv_rt v) got) of
             (Some a, Some b) \<Rightarrow> pv_float_eq v a b
           | _ \<Rightarrow> False))"

definition kw_text :: "go_runtime \<Rightarrow> kwarg \<Rightarrow> fmt_arg" where
  "kw_text rt k = (case k of KwVal v \<Rightarrow> FStr (rt_sprint rt v) | KwInt n \<Rightarrow> FInt n | KwNumber s \<Rightarrow> FStr s)"

text \<open>What \<open>%T\<close> prints.\<close>

definition kw_type :: "kwarg \<Rightarrow> string" where
  "kw_type k =
     (case k of
        KwInt _ \<Rightarrow> ''int''
      | KwNumber _ \<Rightarrow> ''json.Number''
      | KwVal v \<Rightarrow>
          (case v of
             VNull \<Rightarrow> ''<nil>'' | VBool _ \<Rightarrow> ''bool'' | VInt _ \<Rightarrow> ''int64'' | VFloat _ \<Rightarrow> ''float64''
           | VStr _ \<Rightarrow> ''string'' | VBin _ \<Rightarrow> ''[]uint8'' | VTime _ \<Rightarrow> ''time.Time''
           | VSeq _ \<Rightarrow> ''[]interface {}'' | VMap _ \<Rightarrow> ''*value.Map''))"

definition missing_kwarg :: "policy_env \<Rightarrow> (string, val) gomap \<Rightarrow> (string, kwarg) gomap \<Rightarrow> string \<Rightarrow> string \<Rightarrow> fmt_arg option" where
  "missing_kwarg v required kwargs fn name =
     (let want = (case gomap_get required name of Some w \<Rightarrow> w | None \<Rightarrow> VNull);
          shown = FStr (rt_sprint (pv_rt v) want) in
      case gomap_get kwargs name of
        None \<Rightarrow> Some (FErr ''%s requires %s=%v from this role, and the call does not carry it'' [FStr fn, FStr name, shown])
      | Some got \<Rightarrow>
          if \<not> sameScalar v want got then
            Some (FErr ''%s requires %s=%v from this role, and the call has %s=%v''
                    [FStr fn, FStr name, shown, FStr name, kw_text (pv_rt v) got])
          else None)"

text \<open>The first reason, if any.\<close>

fun first_some :: "('a \<Rightarrow> 'b option) \<Rightarrow> 'a list \<Rightarrow> 'b option" where
  "first_some f [] = None"
| "first_some f (x # xs) = (case f x of Some y \<Rightarrow> Some y | None \<Rightarrow> first_some f xs)"

definition checkRequired :: "policy_env \<Rightarrow> (string, val) gomap \<Rightarrow> (string, kwarg) gomap \<Rightarrow> string \<Rightarrow> fmt_arg option" where
  "checkRequired v required kwargs fn = first_some (missing_kwarg v required kwargs fn) (sort (map fst required))"

text \<open>The environment, and whether there is one to judge.\<close>

definition requestEnv :: "Request \<Rightarrow> fmt_arg + string \<times> bool" where
  "requestEnv req =
     (if \<not> rq_Runner req then Inr (rq_Env req, rq_Env req \<noteq> [])
      else if rq_Fun req = resumeRunner then Inr (rq_Env req, rq_Resumes req \<noteq> None)
      else if rq_Fun req \<notin> set orchestrationRunners then Inr ([], False)
      else
        let positional = (if length (rq_Arg req) > 1 \<and> rq_Arg req ! 1 \<noteq> [] then Inr (rq_Arg req ! 1, True) else Inr (''base'', True))
        in case gomap_get (rq_Kwarg req) ''env'' of
             None \<Rightarrow> positional
           | Some (KwVal VNull) \<Rightarrow> positional
           | Some (KwVal (VStr s)) \<Rightarrow> if s \<noteq> [] then Inr (s, True) else positional
           | Some raw \<Rightarrow>
               Inl (FErr ''%s was given `env` as %T, which this policy cannot check; give it as a string''
                      [FStr (rq_Fun req), FStr (kw_type raw)]))"

definition checkEnv :: "go_runtime \<Rightarrow> ArgRule \<Rightarrow> Request \<Rightarrow> fmt_arg option" where
  "checkEnv rt c req =
     (if length (ar_AllowEnv c) = 0 \<and> length (ar_DenyEnv c) = 0 then None
      else case requestEnv req of
        Inl reason \<Rightarrow> Some reason
      | Inr (env, judged) \<Rightarrow>
          if \<not> judged then None
          else if matchAny rt (ar_DenyEnv c) env then
            Some (FErr ''%s may not be run in the environment %q by this role'' [FStr (rq_Fun req), FStr env])
          else if length (ar_AllowEnv c) > 0 \<and> \<not> matchAny rt (ar_AllowEnv c) env then
            Some (FErr ''%s may not be run in the environment %q by this role, which allows %s''
                    [FStr (rq_Fun req), FStr env, FStr (str_join '', '' (ar_AllowEnv c))])
          else None)"

definition splitNames :: "string \<Rightarrow> string list" where
  "splitNames spec = filter (\<lambda>p. p \<noteq> []) (map trim_space (str_split spec '',''))"

definition runnerNames :: "Request \<Rightarrow> fmt_arg + string list" where
  "runnerNames req =
     (if rq_Fun req = resumeRunner then Inr (case rq_Resumes req of None \<Rightarrow> [] | Some ns \<Rightarrow> ns)
      else
        let names = concat (map splitNames (rq_Arg req)) in
        case gomap_get (rq_Kwarg req) ''sls'' of
          None \<Rightarrow> Inr names
        | Some (KwVal (VStr s)) \<Rightarrow> Inr (names @ splitNames s)
        | Some raw \<Rightarrow>
            Inl (FErr ''%s was given `sls` as %T, which this policy cannot check; give it as a string''
                   [FStr (rq_Fun req), FStr (kw_type raw)]))"

definition denied_kwarg :: "go_runtime \<Rightarrow> Request \<Rightarrow> (string, kwarg) gomap \<Rightarrow> string \<Rightarrow> fmt_arg option" where
  "denied_kwarg rt req kwargs kwarg =
     map_option (\<lambda>name. FErr ''%s may not be called with %q by this role'' [FStr (rq_Fun req), FStr name])
       (find (\<lambda>name. name = kwarg \<or> matchGlob rt kwarg name) (map fst kwargs))"

definition check_canonical :: "Request \<Rightarrow> string \<Rightarrow> fmt_arg option" where
  "check_canonical req arg =
     (case CanonicalSLS arg of
        Inl (fmt, args) \<Rightarrow> Some (FErr ''%s refused for %s by this role: %v'' [FStr arg, FStr (rq_Fun req), FErr fmt args])
      | Inr _ \<Rightarrow> None)"

definition check_denied :: "go_runtime \<Rightarrow> ArgRule \<Rightarrow> Request \<Rightarrow> string \<Rightarrow> fmt_arg option" where
  "check_denied rt c req arg =
     (if matchAny rt (ar_DenySLS c) arg
      then Some (FErr ''%s is not permitted for %s by this role'' [FStr arg, FStr (rq_Fun req)]) else None)"

definition check_allowed :: "go_runtime \<Rightarrow> ArgRule \<Rightarrow> Request \<Rightarrow> fmt_arg option" where
  "check_allowed rt c req =
     (let listed = FStr (str_join '', '' (ar_AllowSLS c)) in
      if rq_Fun req = ''state.highstate'' then
        Some (FErr ''%s runs the whole highstate, which is not in the SLS names this role may apply (%s)''
                [FStr (rq_Fun req), listed])
      else if length (rq_Arg req) = 0 then
        Some (FErr ''%s with no SLS names runs the highstate, which is not in the SLS names this role may apply (%s)''
                [FStr (rq_Fun req), listed])
      else first_some (\<lambda>arg. if \<not> matchAny rt (ar_AllowSLS c) arg
             then Some (FErr ''%s is not in the SLS names this role may apply (%s)'' [FStr arg, listed]) else None) (rq_Arg req))"

definition check_mods :: "go_runtime \<Rightarrow> ArgRule \<Rightarrow> Request \<Rightarrow> string list \<Rightarrow> fmt_arg option" where
  "check_mods rt c req names =
     (let listed = FStr (str_join '', '' (ar_AllowMods c)) in
      if length names = 0 then
        Some (FErr ''%s names no orchestration, so none of the modules this role may orchestrate (%s) can be checked''
                [FStr (rq_Fun req), listed])
      else first_some (\<lambda>arg. if \<not> matchAny rt (ar_AllowMods c) arg
             then Some (FErr ''%s is not in the modules this role may orchestrate (%s)'' [FStr arg, listed]) else None) names)"

text \<open>The lists of names, once the names to judge are known.\<close>

definition check_names :: "go_runtime \<Rightarrow> ArgRule \<Rightarrow> Request \<Rightarrow> string list \<Rightarrow> fmt_arg option" where
  "check_names rt c req names =
     first_some id
       [if length (ar_DenySLS c) > 0 \<or> length (ar_AllowSLS c) > 0 then first_some (check_canonical req) names else None,
        if length (ar_DenySLS c) > 0 then first_some (check_denied rt c req) names else None,
        if length (ar_AllowSLS c) > 0 then check_allowed rt c req else None,
        if length (ar_AllowMods c) > 0 then check_mods rt c req names else None]"

definition checkArgRule :: "policy_env \<Rightarrow> ArgRule \<Rightarrow> Request \<Rightarrow> fmt_arg option" where
  "checkArgRule v c req =
     (let rt = pv_rt v; kwargs = wireKwargs req in
      case first_some id
             [first_some (denied_kwarg rt req kwargs) (ar_DenyKwargs c),
              checkRequired v (ar_RequireKwargs c) kwargs (rq_Fun req),
              checkEnv rt c req] of
        Some reason \<Rightarrow> Some reason
      | None \<Rightarrow>
          if rq_Runner req \<and> (length (ar_DenySLS c) > 0 \<or> length (ar_AllowMods c) > 0) then
            (if rq_Fun req = resumeRunner \<and> rq_Resumes req = None then None
             else case runnerNames req of
               Inl reason \<Rightarrow> Some reason
             | Inr names \<Rightarrow> check_names rt c req names)
          else check_names rt c req (rq_Arg req))"

definition checkArgs :: "policy_env \<Rightarrow> Rule \<Rightarrow> Request \<Rightarrow> fmt_arg option" where
  "checkArgs v rule req =
     first_some (\<lambda>(written, c).
         map_option (\<lambda>reason.
             if written \<noteq> rq_Fun req then
               FErr ''%s (the args written for %s hold %s, %s among them)''
                 [reason, FStr written,
                  FStr (if rq_Runner req then ''every runner that runs an orchestration by its names''
                        else ''every state function a node compiles''), FStr (rq_Fun req)]
             else reason)
           (checkArgRule v c req))
       (argRulesFor rule (rq_Fun req) (rq_Runner req))"

subsection \<open>The decision\<close>

definition functionGranted :: "go_runtime \<Rightarrow> Policy \<Rightarrow> Rule \<Rightarrow> string \<Rightarrow> bool" where
  "functionGranted rt p rule fn =
     list_ex (\<lambda>pattern. pattern = fn \<or> (matchGlob rt pattern fn \<and> wildcardGrants p fn)) (ru_Functions rule)"

definition pillarRefusal :: "string \<Rightarrow> string \<Rightarrow> Decision" where
  "pillarRefusal fn lst =
     denied ''%s reads a node's pillar, which is its secrets, and is never granted by a wildcard; name it in the role's %s (SPEC 22.1)''
       [FStr fn, FStr lst]"

text \<open>One rule: it allows, or it does not, with a better reason or without.\<close>

datatype verdict = Permit | Pass "Decision option"

definition wildcard_refusal :: "go_runtime \<Rightarrow> Policy \<Rightarrow> Rule \<Rightarrow> string \<Rightarrow> Decision option" where
  "wildcard_refusal rt p rule fn =
     (if po_Shipped p = None \<and> matchAny rt (ru_Functions rule) fn then
        Some (denied ''this policy was given no catalog of the functions the build ships, so no pattern grants %s; that is a fault in whatever loaded it''
                [FStr fn])
      else if \<not> is_shipped p fn \<and> matchAny rt (ru_Functions rule) fn then
        Some (denied (''%s is not a function this build ships, so it is an extension's or a newer build's and may run anything; '' @
                      ''a wildcard never grants it, so name it in the role's functions (SPEC 23.5)'') [FStr fn])
      else if fn \<in> set (po_ArbitraryCode p) \<and> matchAny rt (ru_Functions rule) ''*'' then
        Some (denied ''%s runs arbitrary code and is never granted by a wildcard; name it in the role's functions (SPEC 23.5)'' [FStr fn])
      else None)"

definition judge_args :: "policy_env \<Rightarrow> Rule \<Rightarrow> Request \<Rightarrow> verdict" where
  "judge_args v rule req =
     (case checkArgs v rule req of
        Some reason \<Rightarrow> Pass (Some (denied ''%s'' [reason]))
      | None \<Rightarrow> Permit)"

definition judge_rule :: "policy_env \<Rightarrow> Policy \<Rightarrow> Request \<Rightarrow> TKind \<Rightarrow> Rule \<Rightarrow> verdict" where
  "judge_rule v p req kind rule =
     (let rt = pv_rt v; fn = rq_Fun req in
      if rq_Runner req then
        (if \<not> matchAny rt (ru_Runners rule) fn then Pass None
         else if ReadsPillar fn True \<and> \<not> namedExactly (ru_Runners rule) fn then Pass (Some (pillarRefusal fn ''runners''))
         else judge_args v rule req)
      else
        (if \<not> targetCovered rt (ru_Target rule) kind (rq_Target req) then Pass None
         else if ReadsPillar fn False \<and> \<not> namedExactly (ru_Functions rule) fn then
           Pass (if matchAny rt (ru_Functions rule) fn then Some (pillarRefusal fn ''functions'') else None)
         else if \<not> functionGranted rt p rule fn then Pass (wildcard_refusal rt p rule fn)
         else judge_args v rule req))"

definition rules_of :: "Policy \<Rightarrow> string \<Rightarrow> Rule list" where
  "rules_of p role = multi_get (po_Roles p) role"

fun judge_rules :: "(Rule \<Rightarrow> verdict) \<Rightarrow> string \<Rightarrow> nat \<Rightarrow> Rule list \<Rightarrow> Decision \<Rightarrow> Decision" where
  "judge_rules judge role i [] best = best"
| "judge_rules judge role i (rule # rules) best =
     (case judge rule of
        Permit \<Rightarrow> \<lparr>de_Allowed = True, de_Role = role, de_RuleIndex = i, de_Reason = FStr []\<rparr>
      | Pass (Some d) \<Rightarrow> judge_rules judge role (Suc i) rules d
      | Pass None \<Rightarrow> judge_rules judge role (Suc i) rules best)"

fun judge_roles :: "(Rule \<Rightarrow> verdict) \<Rightarrow> Policy \<Rightarrow> string list \<Rightarrow> Decision \<Rightarrow> Decision" where
  "judge_roles judge p [] best = best"
| "judge_roles judge p (role # roles) best =
     (let d = judge_rules judge role 0 (rules_of p role) best in
      if de_Allowed d then d else judge_roles judge p roles d)"

definition list_text :: "string list \<Rightarrow> fmt_arg" where
  "list_text xs = FStr (''['' @ str_join '' '' xs @ '']'')"

definition AuthorizeAs :: "policy_env \<Rightarrow> Policy option \<Rightarrow> Request \<Rightarrow> string list \<Rightarrow> Decision" where
  "AuthorizeAs v po req roles =
     (case po of
        None \<Rightarrow> denied ''there is no policy, so nothing is authorized'' []
      | Some p \<Rightarrow>
          if length roles = 0 then denied ''%s is bound to no role in %s'' [FStr (rq_Principal req), FStr (po_Path p)]
          else
            let best = denied ''no rule in %v permits %s against %q'' [list_text roles, FStr (rq_Fun req), FStr (rq_Target req)] in
            if rq_Runner req then judge_roles (judge_rule v p req TkGlob) p roles best
            else case KindFromFlag (rq_TargetKind req) of
              None \<Rightarrow> denied ''%q is not a target kind'' [FStr (rq_TargetKind req)]
            | Some kind \<Rightarrow>
                judge_roles (judge_rule v p req kind) p roles
                  (if kind \<noteq> TkGlob then
                     denied ''no rule in %v permits %s against %s target %q''
                       [list_text roles, FStr (rq_Fun req), FStr (TKind_String kind), FStr (rq_Target req)]
                   else best))"

definition RolesFor :: "go_runtime \<Rightarrow> Policy \<Rightarrow> string \<Rightarrow> string list" where
  "RolesFor rt p who =
     sort (foldl (\<lambda>out role. if role \<in> set out then out else out @ [role]) []
       (concat (map bi_Roles (filter (\<lambda>b. matchPrincipal rt (bi_Principal b) who) (po_Bindings p)))))"

definition Authorize :: "policy_env \<Rightarrow> Policy option \<Rightarrow> Request \<Rightarrow> Decision" where
  "Authorize v po req =
     (case po of
        None \<Rightarrow> denied ''this hub has no policy, so nothing is authorized'' []
      | Some p \<Rightarrow> AuthorizeAs v po req (RolesFor (pv_rt v) p (rq_Principal req)))"

definition MayActFor :: "go_runtime \<Rightarrow> Policy option \<Rightarrow> string \<Rightarrow> string \<Rightarrow> bool" where
  "MayActFor rt po who operator =
     (case po of
        None \<Rightarrow> False
      | Some p \<Rightarrow>
          if operator = [] then False
          else list_ex (\<lambda>role. list_ex (\<lambda>rule. list_ex (\<lambda>pattern. matchPrincipal rt pattern operator) (ru_ActFor rule))
                 (rules_of p role)) (RolesFor rt p who))"

definition VisibleNode :: "go_runtime \<Rightarrow> Policy option \<Rightarrow> string list \<Rightarrow> string \<Rightarrow> bool" where
  "VisibleNode rt po roles node =
     (case po of
        None \<Rightarrow> False
      | Some p \<Rightarrow>
          list_ex (\<lambda>role. list_ex (\<lambda>rule. if ru_Target rule = [] then False else literalCovered rt (ru_Target rule) node)
            (rules_of p role)) roles)"

definition HasAnyRule :: "Policy option \<Rightarrow> string list \<Rightarrow> bool" where
  "HasAnyRule po roles =
     (case po of
        None \<Rightarrow> False
      | Some p \<Rightarrow>
          list_ex (\<lambda>role. list_ex (\<lambda>rule. length (ru_Functions rule) > 0 \<or> length (ru_Runners rule) > 0) (rules_of p role)) roles)"

subsection \<open>The nodes a runner reaches\<close>

datatype Scope = Scope (sc_Targets: "string list") (sc_within: "Scope option")

fun Covers :: "go_runtime \<Rightarrow> Scope \<Rightarrow> string \<Rightarrow> bool" where
  "Covers rt (Scope targets w) node =
     (if (case w of None \<Rightarrow> False | Some o' \<Rightarrow> \<not> Covers rt o' node) then False
      else list_ex (\<lambda>t. literalCovered rt t node) targets)"

fun Everything :: "Scope \<Rightarrow> bool" where
  "Everything (Scope targets w) =
     (if (case w of None \<Rightarrow> False | Some o' \<Rightarrow> \<not> Everything o') then False else list_ex (\<lambda>t. t = ''*'') targets)"

definition Within :: "Scope \<Rightarrow> Scope \<Rightarrow> Scope" where
  "Within s other = Scope (sc_Targets s) (Some other)"

definition scope_rule :: "go_runtime \<Rightarrow> string \<Rightarrow> string list \<Rightarrow> Rule \<Rightarrow> string list" where
  "scope_rule rt fn targets rule =
     (if \<not> matchAny rt (ru_Runners rule) fn then targets
      else if ReadsPillar fn True \<and> \<not> namedExactly (ru_Runners rule) fn then targets
      else if ru_Target rule = [] \<or> ru_Target rule \<in> set targets then targets
      else targets @ [ru_Target rule])"

definition RunnerScopeFor :: "go_runtime \<Rightarrow> Policy option \<Rightarrow> string list \<Rightarrow> string \<Rightarrow> Scope" where
  "RunnerScopeFor rt po roles fn =
     (case po of
        None \<Rightarrow> Scope [] None
      | Some p \<Rightarrow> Scope (foldl (\<lambda>ts role. foldl (scope_rule rt fn) ts (rules_of p role)) [] roles) None)"

definition RunnerScope :: "go_runtime \<Rightarrow> Policy option \<Rightarrow> string \<Rightarrow> string \<Rightarrow> Scope" where
  "RunnerScope rt po who fn =
     (case po of None \<Rightarrow> Scope [] None | Some p \<Rightarrow> RunnerScopeFor rt po (RolesFor rt p who) fn)"

subsection \<open>What no argument rule holds\<close>

record Unheld =
  un_Pattern :: string
  un_Runner :: bool
  un_Names :: "string list"
  un_Granted :: nat

definition granted_by :: "go_runtime \<Rightarrow> Policy \<Rightarrow> bool \<Rightarrow> string list \<Rightarrow> string \<Rightarrow> string list" where
  "granted_by rt p runner catalog pattern =
     (if \<not> contains_any pattern ''*?['' then [pattern]
      else filter (\<lambda>name. matchGlob rt pattern name \<and> \<not> ReadsPillar name runner \<and> (runner \<or> wildcardGrants p name)) catalog)"

definition collect_unheld :: "go_runtime \<Rightarrow> Policy \<Rightarrow> Rule \<Rightarrow> string list \<Rightarrow> bool \<Rightarrow> string list \<Rightarrow> Unheld list" where
  "collect_unheld rt p rule patterns runner catalog =
     concat (map (\<lambda>pattern.
        let granted = granted_by rt p runner catalog pattern;
            names = filter (\<lambda>name. length (argRulesFor rule name runner) = 0) granted
        in if length names > 0
           then [\<lparr>un_Pattern = pattern, un_Runner = runner, un_Names = names, un_Granted = length granted\<rparr>] else [])
      patterns)"

definition UnheldGrants :: "go_runtime \<Rightarrow> Policy \<Rightarrow> Rule \<Rightarrow> string list \<Rightarrow> Unheld list" where
  "UnheldGrants rt p rule runnerCatalog =
     collect_unheld rt p rule (ru_Functions rule) False (sort (remdups (case po_Shipped p of None \<Rightarrow> [] | Some s \<Rightarrow> s))) @
     collect_unheld rt p rule (ru_Runners rule) True (sort runnerCatalog)"

subsection \<open>Loading\<close>

text \<open>Levenshtein's table, two rows at a time; the row that is filled next still holds the one before last.\<close>

definition min3 :: "nat \<Rightarrow> nat \<Rightarrow> nat \<Rightarrow> nat" where
  "min3 a b c = min a (min b c)"

definition fill_cell :: "string \<Rightarrow> string \<Rightarrow> nat \<Rightarrow> nat list \<Rightarrow> nat list \<Rightarrow> nat \<Rightarrow> nat list" where
  "fill_cell a b i previous current j =
     current[j := min3 (previous ! j + 1) (current ! (j - 1) + 1)
                       (previous ! (j - 1) + (if a ! (i - 1) = b ! (j - 1) then 0 else 1))]"

definition fill_row :: "string \<Rightarrow> string \<Rightarrow> nat list \<times> nat list \<Rightarrow> nat \<Rightarrow> nat list \<times> nat list" where
  "fill_row a b = (\<lambda>(previous, current) i.
     (foldl (fill_cell a b i previous) (current[0 := i]) [1..<length b + 1], previous))"

definition editDistance :: "string \<Rightarrow> string \<Rightarrow> nat" where
  "editDistance a b =
     fst (foldl (fill_row a b) ([0..<length b + 1], replicate (length b + 1) 0) [1..<length a + 1]) ! length b"

definition closer :: "nat \<Rightarrow> string \<Rightarrow> string \<times> nat \<Rightarrow> string \<Rightarrow> string \<times> nat" where
  "closer limit k = (\<lambda>(best, bestDistance) candidate.
     let d = editDistance k candidate in
     if d > limit then (best, bestDistance)
     else if best = [] \<or> d < bestDistance then (candidate, d)
     else (best, bestDistance))"

definition closestKey :: "string \<Rightarrow> string list \<Rightarrow> string" where
  "closestKey k known = fst (foldl (closer (if length k \<le> 3 then 1 else 2) k) ([], 0) known)"

definition ruleKeys :: "string list" where
  "ruleKeys = [''act_for'', ''args'', ''functions'', ''runners'', ''target'']"

definition argRuleKeys :: "string list" where
  "argRuleKeys = [''allow_env'', ''allow_mods'', ''allow_sls'', ''deny_env'', ''deny_kwargs'', ''deny_sls'', ''require_kwargs'']"

definition unknownKey :: "vmap \<Rightarrow> string list \<Rightarrow> string \<Rightarrow> fmt_arg option" where
  "unknownKey m known what =
     map_option (\<lambda>e.
         let k = KeyString (Key e); guess = closestKey k known;
             hint = (if guess \<noteq> [] then ''; did you mean `'' @ guess @ ''`?'' else [])
         in FErr ''`%s` is not a key of %s (known: %s)%s'' [FStr k, FStr what, FStr (str_join '', '' known), FStr hint])
       (find (\<lambda>e. KeyString (Key e) \<notin> set known) (entries m))"

fun require_entries :: "go_runtime \<Rightarrow> entry list \<Rightarrow> (string, val) gomap \<Rightarrow> fmt_arg + (string, val) gomap" where
  "require_entries rt [] out = Inr out"
| "require_entries rt (e # es) out =
     (let name = KeyString (Key e) in
      if name = [] then Inl (FStr ''`require_kwargs` has a keyword with no name'')
      else if (case Val e of VBool _ \<Rightarrow> True | VStr _ \<Rightarrow> True | VInt _ \<Rightarrow> True | VFloat _ \<Rightarrow> True | _ \<Rightarrow> False)
      then require_entries rt es (gomap_put name (Val e) out)
      else Inl (FErr ''`require_kwargs` %s is %v, which is not a bool, a string or a number''
                  [FStr name, FStr (rt_sprint rt (Val e))]))"

definition requireKwargs :: "go_runtime \<Rightarrow> vmap \<Rightarrow> fmt_arg + (string, val) gomap" where
  "requireKwargs rt m =
     (case Map_Get m (KStr ''require_kwargs'') of
        None \<Rightarrow> Inr []
      | Some VNull \<Rightarrow> Inr []
      | Some (VMap rm) \<Rightarrow> require_entries rt (entries rm) []
      | Some x \<Rightarrow> Inl (FErr ''`require_kwargs` is a mapping from a keyword to the value it must have, not %v'' [FStr (rt_sprint rt x)]))"

fun string_items :: "go_runtime \<Rightarrow> string \<Rightarrow> nat \<Rightarrow> val list \<Rightarrow> fmt_arg + string list" where
  "string_items rt key i [] = Inr []"
| "string_items rt key i (item # items) =
     (case item of
        VStr s \<Rightarrow> (case string_items rt key (Suc i) items of Inl e \<Rightarrow> Inl e | Inr ss \<Rightarrow> Inr (s # ss))
      | _ \<Rightarrow> Inl (FErr ''`%s` item %d is %v, which is not a string; quote it'' [FStr key, FInt (int i), FStr (rt_sprint rt item)]))"

definition stringList :: "go_runtime \<Rightarrow> vmap \<Rightarrow> string \<Rightarrow> fmt_arg + string list" where
  "stringList rt m key =
     (case Map_Get m (KStr key) of
        None \<Rightarrow> Inr []
      | Some VNull \<Rightarrow> Inr []
      | Some (VStr t) \<Rightarrow> Inr [t]
      | Some (VSeq t) \<Rightarrow> string_items rt key 0 t
      | Some x \<Rightarrow> Inl (FErr ''`%s` is %v, which is neither a string nor a list of strings'' [FStr key, FStr (rt_sprint rt x)]))"

text \<open>The result monad of the loader: the first error ends it.\<close>

definition and_then :: "'e + 'a \<Rightarrow> ('a \<Rightarrow> 'e + 'b) \<Rightarrow> 'e + 'b" where
  "and_then r f = (case r of Inl e \<Rightarrow> Inl e | Inr x \<Rightarrow> f x)"

definition refuse_if :: "bool \<Rightarrow> 'e \<Rightarrow> 'e + unit" where
  "refuse_if c e = (if c then Inl e else Inr ())"

definition wrap_err :: "('e \<Rightarrow> 'f) \<Rightarrow> 'e + 'a \<Rightarrow> 'f + 'a" where
  "wrap_err f r = (case r of Inl e \<Rightarrow> Inl (f e) | Inr x \<Rightarrow> Inr x)"

definition parse_arg_rule :: "go_runtime \<Rightarrow> (fmt_arg \<Rightarrow> fmt_arg) \<Rightarrow> vmap \<Rightarrow> fmt_arg + ArgRule" where
  "parse_arg_rule rt at cm =
     (let names = (\<lambda>key. wrap_err at (stringList rt cm key)) in
      and_then (case unknownKey cm argRuleKeys ''an argument rule'' of Some e \<Rightarrow> Inl (at e) | None \<Rightarrow> Inr ()) (\<lambda>_.
      and_then (wrap_err at (requireKwargs rt cm)) (\<lambda>required.
      and_then (names ''allow_sls'') (\<lambda>allow_sls.
      and_then (names ''deny_sls'') (\<lambda>deny_sls.
      and_then (names ''allow_mods'') (\<lambda>allow_mods.
      and_then (names ''deny_kwargs'') (\<lambda>deny_kwargs.
      and_then (names ''allow_env'') (\<lambda>allow_env.
      and_then (names ''deny_env'') (\<lambda>deny_env.
      Inr \<lparr>ar_AllowSLS = allow_sls, ar_DenySLS = deny_sls, ar_AllowEnv = allow_env, ar_DenyEnv = deny_env,
           ar_AllowMods = allow_mods, ar_DenyKwargs = deny_kwargs, ar_RequireKwargs = required\<rparr>)))))))))"

fun parse_args ::
  "go_runtime \<Rightarrow> (string \<Rightarrow> fmt_arg \<Rightarrow> fmt_arg) \<Rightarrow> (string \<Rightarrow> fmt_arg) \<Rightarrow> entry list \<Rightarrow> (string, ArgRule) gomap
     \<Rightarrow> fmt_arg + (string, ArgRule) gomap" where
  "parse_args rt at bad [] args = Inr args"
| "parse_args rt at bad (e # es) args =
     (let fn = KeyString (Key e) in
      case Val e of
        VMap cm \<Rightarrow> and_then (parse_arg_rule rt (at fn) cm) (\<lambda>ar. parse_args rt at bad es (gomap_put fn ar args))
      | _ \<Rightarrow> Inl (bad fn))"

definition parse_rule :: "go_runtime \<Rightarrow> string \<Rightarrow> string \<Rightarrow> nat \<Rightarrow> val \<Rightarrow> fmt_arg + Rule" where
  "parse_rule rt role path i item =
     (let where = [FStr path, FStr role, FInt (int i)];
          at = (\<lambda>e. FErr ''%s: role %q rule %d: %v'' (where @ [e])) in
      case item of
        VMap m \<Rightarrow>
          and_then (case unknownKey m ruleKeys ''a rule'' of Some e \<Rightarrow> Inl (at e) | None \<Rightarrow> Inr ()) (\<lambda>_.
          (let tgt = (case Map_Get m (KStr ''target'') of Some (VStr t) \<Rightarrow> t | _ \<Rightarrow> []) in
           and_then (wrap_err at (stringList rt m ''functions'')) (\<lambda>functions.
           and_then (wrap_err at (stringList rt m ''runners'')) (\<lambda>runners.
           and_then (wrap_err at (stringList rt m ''act_for'')) (\<lambda>act_for.
           and_then (refuse_if (length functions = 0 \<and> length runners = 0 \<and> length act_for = 0)
             (FErr ''%s: role %q rule %d grants no functions, no runners and no act_for'' where)) (\<lambda>_.
           and_then (refuse_if (length functions = 0 \<and> length runners = 0 \<and> tgt \<noteq> [])
             (FErr (''%s: role %q rule %d grants only act_for and names a target, which act_for does not read; '' @
                    ''drop the target, since the operator's own rules decide which nodes are reached'') where)) (\<lambda>_.
           and_then (refuse_if (length functions > 0 \<and> tgt = [])
             (FErr ''%s: role %q rule %d grants functions and names no target; write `target: '*'` to mean every node'' where)) (\<lambda>_.
           and_then
             (case Map_Get m (KStr ''args'') of
                None \<Rightarrow> Inr []
              | Some (VMap am) \<Rightarrow>
                  parse_args rt (\<lambda>fn e. FErr ''%s: role %q rule %d: args for %q: %v'' (where @ [FStr fn, e]))
                    (\<lambda>fn. FErr ''%s: role %q rule %d: args for %q is not a mapping'' (where @ [FStr fn])) (entries am) []
              | Some _ \<Rightarrow> Inl (FErr ''%s: role %q rule %d: `args` is a mapping keyed by function'' where)) (\<lambda>args.
           Inr \<lparr>ru_Target = tgt, ru_Functions = functions, ru_Runners = runners, ru_Args = args, ru_ActFor = act_for\<rparr>)))))))))
      | _ \<Rightarrow> Inl (FErr ''%s: role %q rule %d is not a mapping'' where))"

fun parse_rule_list :: "go_runtime \<Rightarrow> string \<Rightarrow> string \<Rightarrow> nat \<Rightarrow> val list \<Rightarrow> fmt_arg + Rule list" where
  "parse_rule_list rt role path i [] = Inr []"
| "parse_rule_list rt role path i (item # items) =
     and_then (parse_rule rt role path i item) (\<lambda>r.
     and_then (parse_rule_list rt role path (Suc i) items) (\<lambda>rs. Inr (r # rs)))"

definition parseRules :: "go_runtime \<Rightarrow> string \<Rightarrow> val \<Rightarrow> string \<Rightarrow> fmt_arg + Rule list" where
  "parseRules rt role v path =
     (case v of
        VSeq items \<Rightarrow> parse_rule_list rt role path 0 items
      | _ \<Rightarrow> Inl (FErr ''%s: role %q is a list of rules'' [FStr path, FStr role]))"

fun parse_roles :: "go_runtime \<Rightarrow> string \<Rightarrow> entry list \<Rightarrow> (string, Rule list) gomap \<Rightarrow> fmt_arg + (string, Rule list) gomap" where
  "parse_roles rt path [] roles = Inr roles"
| "parse_roles rt path (e # es) roles =
     (let name = KeyString (Key e) in
      and_then (parseRules rt name (Val e) path) (\<lambda>rules. parse_roles rt path es (gomap_put name rules roles)))"

definition parse_binding :: "go_runtime \<Rightarrow> string \<Rightarrow> (string, Rule list) gomap \<Rightarrow> nat \<Rightarrow> val \<Rightarrow> fmt_arg + Binding" where
  "parse_binding rt path roles i item =
     (case item of
        VMap m \<Rightarrow>
          (let who = (case Map_Get m (KStr ''principal'') of Some (VStr s) \<Rightarrow> s | _ \<Rightarrow> []) in
           if who = [] then Inl (FErr ''%s: binding %d names no principal'' [FStr path, FInt (int i)])
           else
             and_then (wrap_err (\<lambda>e. FErr ''%s: binding for %q: %v'' [FStr path, FStr who, e]) (stringList rt m ''roles'')) (\<lambda>names.
             case find (\<lambda>role. gomap_get roles role = None) names of
               Some role \<Rightarrow> Inl (FErr ''%s: binding for %q names role %q, which is not defined'' [FStr path, FStr who, FStr role])
             | None \<Rightarrow> Inr \<lparr>bi_Principal = who, bi_Roles = names\<rparr>))
      | _ \<Rightarrow> Inl (FErr ''%s: binding %d is not a mapping'' [FStr path, FInt (int i)]))"

fun parse_bindings :: "go_runtime \<Rightarrow> string \<Rightarrow> (string, Rule list) gomap \<Rightarrow> nat \<Rightarrow> val list \<Rightarrow> fmt_arg + Binding list" where
  "parse_bindings rt path roles i [] = Inr []"
| "parse_bindings rt path roles i (item # items) =
     and_then (parse_binding rt path roles i item) (\<lambda>b.
     and_then (parse_bindings rt path roles (Suc i) items) (\<lambda>bs. Inr (b # bs)))"

text \<open>From the parsed document: the parser's error, or the document.\<close>

definition Load :: "go_runtime \<Rightarrow> string + val \<Rightarrow> string \<Rightarrow> fmt_arg + Policy" where
  "Load rt parsed path =
     (case parsed of
        Inl err \<Rightarrow> Inl (FStr err)
      | Inr VNull \<Rightarrow>
          Inr \<lparr>po_Roles = [], po_Bindings = [], po_Path = path, po_ArbitraryCode = [], po_Shipped = None\<rparr>
      | Inr (VMap root) \<Rightarrow>
          and_then
            (case Map_Get root (KStr ''roles'') of
               None \<Rightarrow> Inr []
             | Some (VMap m) \<Rightarrow> parse_roles rt path (entries m) []
             | Some _ \<Rightarrow> Inl (FErr ''%s: `roles` is a mapping of role name to rules'' [FStr path])) (\<lambda>roles.
          and_then
            (case Map_Get root (KStr ''bindings'') of
               None \<Rightarrow> Inr []
             | Some (VSeq items) \<Rightarrow> parse_bindings rt path roles 0 items
             | Some _ \<Rightarrow> Inl (FErr ''%s: `bindings` is a list'' [FStr path])) (\<lambda>bindings.
          Inr \<lparr>po_Roles = roles, po_Bindings = bindings, po_Path = path, po_ArbitraryCode = [], po_Shipped = None\<rparr>))
      | Inr _ \<Rightarrow> Inl (FErr ''%s: a policy is a mapping with `roles` and `bindings`'' [FStr path]))"

end
