(* ===== verification/Policies.thy ===== *)
theory Policies
  imports Policy Targeting
begin

text \<open>
  What a policy promises: a request is allowed exactly when one rule permits all of it, an allowed job reaches
  only nodes inside a rule's glob, wildcards never grant what runs code or reads secrets, and argument rules
  hold every function that takes the same names.
\<close>

subsection \<open>One rule permits all of it\<close>

lemma first_some_None: "first_some f xs = None \<longleftrightarrow> (\<forall>x \<in> set xs. f x = None)"
  by (induction xs) (auto split: option.splits)

declare first_some.simps [simp del]

lemma first_some_id [simp]:
  "first_some id [] = None" "first_some id (x # xs) = None \<longleftrightarrow> x = None \<and> first_some id xs = None"
  by (auto simp: first_some.simps split: option.splits)

definition args_hold :: "policy_env \<Rightarrow> Request \<Rightarrow> Rule \<Rightarrow> bool" where
  "args_hold v req rule \<longleftrightarrow>
     list_all (\<lambda>(written, c). checkArgRule v c req = None) (argRulesFor rule (rq_Fun req) (rq_Runner req))"

text \<open>A pattern grants what it matches of the functions a wildcard may grant; a name grants itself.\<close>

definition grants :: "policy_env \<Rightarrow> Policy \<Rightarrow> Request \<Rightarrow> Rule \<Rightarrow> bool" where
  "grants v p req rule \<longleftrightarrow>
     (let fn = rq_Fun req; rt = pv_rt v in
      if rq_Runner req then matchAny rt (ru_Runners rule) fn \<and> (ReadsPillar fn True \<longrightarrow> fn \<in> set (ru_Runners rule))
      else fn \<in> set (ru_Functions rule) \<or>
           (\<not> ReadsPillar fn False \<and> wildcardGrants p fn \<and> (\<exists>pattern \<in> set (ru_Functions rule). matchGlob rt pattern fn)))"

definition covers_request :: "policy_env \<Rightarrow> Request \<Rightarrow> Rule \<Rightarrow> bool" where
  "covers_request v req rule \<longleftrightarrow>
     rq_Runner req \<or> (case KindFromFlag (rq_TargetKind req) of
       None \<Rightarrow> False | Some kind \<Rightarrow> targetCovered (pv_rt v) (ru_Target rule) kind (rq_Target req))"

definition permits :: "policy_env \<Rightarrow> Policy \<Rightarrow> Request \<Rightarrow> Rule \<Rightarrow> bool" where
  "permits v p req rule \<longleftrightarrow> covers_request v req rule \<and> grants v p req rule \<and> args_hold v req rule"

lemma denied_not [simp]: "\<not> de_Allowed (denied fmt args)" "\<not> de_Allowed (pillarRefusal fn lst)"
  by (simp_all add: denied_def pillarRefusal_def)

lemma checkArgs_None: "checkArgs v rule req = None \<longleftrightarrow> args_hold v req rule"
  by (simp add: checkArgs_def args_hold_def first_some_None list_all_iff split_beta)

lemma judge_args_simps:
  "judge_args v rule req = Permit \<longleftrightarrow> args_hold v req rule"
  "judge_args v rule req = Pass (Some d) \<Longrightarrow> \<not> de_Allowed d"
  by (auto simp: judge_args_def checkArgs_None [symmetric] split: option.splits)

lemma judge_rule_Permit:
  assumes "rq_Runner req \<or> KindFromFlag (rq_TargetKind req) = Some kind"
  shows "judge_rule v p req kind rule = Permit \<longleftrightarrow> permits v p req rule"
  using assms
  by (auto simp: judge_rule_def permits_def covers_request_def grants_def Let_def judge_args_simps namedExactly_def
      functionGranted_def list_ex_iff)

lemma judge_rule_Pass: "judge_rule v p req kind rule = Pass (Some d) \<Longrightarrow> \<not> de_Allowed d"
  by (auto simp: judge_rule_def Let_def wildcard_refusal_def judge_args_simps split: if_splits)

text \<open>The decision names the rule it was made by, and only an allowing one.\<close>

definition decided_by :: "(Rule \<Rightarrow> verdict) \<Rightarrow> Policy \<Rightarrow> string list \<Rightarrow> Decision \<Rightarrow> bool" where
  "decided_by judge p roles d \<longleftrightarrow> de_Role d \<in> set roles \<and> de_RuleIndex d < length (rules_of p (de_Role d)) \<and>
     judge (rules_of p (de_Role d) ! de_RuleIndex d) = Permit"

lemma judge_rules_spec:
  assumes "\<forall>r d. judge r = Pass (Some d) \<longrightarrow> \<not> de_Allowed d"
  shows "\<not> de_Allowed best \<Longrightarrow> i + length rules = length all \<Longrightarrow> drop i all = rules \<Longrightarrow>
    (de_Allowed (judge_rules judge role i rules best) \<longleftrightarrow> (\<exists>r \<in> set rules. judge r = Permit)) \<and>
    (\<not> de_Allowed (judge_rules judge role i rules best) \<or>
       de_Role (judge_rules judge role i rules best) = role \<and>
       de_RuleIndex (judge_rules judge role i rules best) < length all \<and>
       judge (all ! de_RuleIndex (judge_rules judge role i rules best)) = Permit)"
proof (induction rules arbitrary: i best)
  case (Cons r rules)
  have d: "drop (Suc i) all = rules" "all ! i = r" "i < length all"
    using Cons.prems by (simp_all add: drop_Suc nth_via_drop flip: tl_drop)
  show ?case
  proof (cases "judge r")
    case Permit
    with d show ?thesis by simp
  next
    case (Pass o')
    then show ?thesis using Cons.IH [of best "Suc i"] Cons.IH [of "the o'" "Suc i"] Cons.prems d assms
      by (cases o') auto
  qed
qed simp

lemma judge_roles_spec:
  assumes "\<forall>r d. judge r = Pass (Some d) \<longrightarrow> \<not> de_Allowed d"
  shows "\<not> de_Allowed best \<Longrightarrow>
    (de_Allowed (judge_roles judge p roles best) \<longleftrightarrow> (\<exists>role \<in> set roles. \<exists>r \<in> set (rules_of p role). judge r = Permit)) \<and>
    (\<not> de_Allowed (judge_roles judge p roles best) \<or> decided_by judge p roles (judge_roles judge p roles best))"
proof (induction roles arbitrary: best)
  case (Cons role roles)
  note j = judge_rules_spec [of judge best 0 "rules_of p role" "rules_of p role" role, OF assms, simplified]
  let ?d = "judge_rules judge role 0 (rules_of p role) best"
  show ?case
  proof (cases "de_Allowed ?d")
    case True
    with j Cons.prems show ?thesis by (auto simp: decided_by_def)
  next
    case False
    with j Cons.prems Cons.IH [OF False] show ?thesis by (auto simp: decided_by_def)
  qed
qed simp

text \<open>Some rule of the roles permits the request.\<close>

definition authorized :: "policy_env \<Rightarrow> Policy \<Rightarrow> Request \<Rightarrow> string list \<Rightarrow> bool" where
  "authorized v p req roles \<longleftrightarrow> list_ex (\<lambda>role. list_ex (permits v p req) (rules_of p role)) roles"

lemma AuthorizeAs_spec:
  "de_Allowed (AuthorizeAs v (Some p) req roles) \<longleftrightarrow> authorized v p req roles"
  "de_Allowed (AuthorizeAs v (Some p) req roles) \<longleftrightarrow>
     (let d = AuthorizeAs v (Some p) req roles in
      de_Role d \<in> set roles \<and> de_RuleIndex d < length (rules_of p (de_Role d)) \<and>
      permits v p req (rules_of p (de_Role d) ! de_RuleIndex d))"
proof -
  let ?d = "AuthorizeAs v (Some p) req roles"
  have "(de_Allowed ?d \<longleftrightarrow> authorized v p req roles) \<and>
    (\<not> de_Allowed ?d \<or> de_Role ?d \<in> set roles \<and> de_RuleIndex ?d < length (rules_of p (de_Role ?d)) \<and>
       permits v p req (rules_of p (de_Role ?d) ! de_RuleIndex ?d))"
  proof (cases "roles = [] \<or> \<not> rq_Runner req \<and> KindFromFlag (rq_TargetKind req) = None")
    case True
    then have "\<not> authorized v p req roles" by (auto simp: authorized_def list_ex_iff permits_def covers_request_def)
    with True show ?thesis by (auto simp: AuthorizeAs_def Let_def)
  next
    case False
    obtain kind where k: "rq_Runner req \<or> KindFromFlag (rq_TargetKind req) = Some kind" using False by auto
    obtain kind' best where d: "?d = judge_roles (judge_rule v p req kind') p roles best" "\<not> de_Allowed best"
      "rq_Runner req \<or> KindFromFlag (rq_TargetKind req) = Some kind'"
    proof (cases "rq_Runner req")
      case True
      then show thesis using False that by (simp add: AuthorizeAs_def Let_def)
    next
      case no_runner: False
      then show thesis using False that k by (auto simp: AuthorizeAs_def Let_def split: if_splits)
    qed
    have pass: "\<forall>r e. judge_rule v p req kind' r = Pass (Some e) \<longrightarrow> \<not> de_Allowed e"
      using judge_rule_Pass by blast
    from judge_roles_spec [of "judge_rule v p req kind'" best p roles, OF pass d(2)] judge_rule_Permit [OF d(3)]
    show ?thesis unfolding d(1) by (auto simp: authorized_def list_ex_iff decided_by_def)
  qed
  then show "de_Allowed ?d \<longleftrightarrow> authorized v p req roles"
    "de_Allowed ?d \<longleftrightarrow> (let d = ?d in de_Role d \<in> set roles \<and> de_RuleIndex d < length (rules_of p (de_Role d)) \<and>
       permits v p req (rules_of p (de_Role d) ! de_RuleIndex d))"
    by (auto simp: authorized_def list_ex_iff Let_def)
qed

text \<open>C21: deny by default, and one rule permits all of it. A request is allowed exactly when some rule of the
  caller's roles covers the target, grants the function and accepts the arguments together, and the decision
  names a rule exactly when that rule does.\<close>

theorem allowed_iff_one_rule_permits:
  "(de_Allowed (AuthorizeAs v (Some p) req roles) \<longleftrightarrow> authorized v p req roles) \<and>
   (de_Allowed (AuthorizeAs v (Some p) req roles) \<longleftrightarrow>
     (let d = AuthorizeAs v (Some p) req roles in
      de_Role d \<in> set roles \<and> de_RuleIndex d < length (rules_of p (de_Role d)) \<and>
      permits v p req (rules_of p (de_Role d) ! de_RuleIndex d)))"
  by (rule conjI [OF AuthorizeAs_spec])

subsection \<open>Node IDs are literals\<close>

lemma runes_small: "list_all (\<lambda>r. r < 128) (runes_of bs) \<Longrightarrow> list_all (\<lambda>b. b < 128) bs"
proof (induction bs rule: runes_of.induct)
  case (1 bs)
  show ?case
  proof (cases bs)
    case (Cons b bs')
    then have ne: "bs \<noteq> []" by simp
    obtain r w where d: "decode_rune bs = (r, w)" by fastforce
    note rs = runes_of.simps [of bs, unfolded d]
    from 1(2) ne rs have small: "r < 128" by simp
    then have "(r, w) \<noteq> (rune_error, 1)" by (auto simp: rune_error_def)
    from decode_valid [OF ne d this] small Cons have "w = 1" "r = b" by (auto simp: encode_rune_def take_Cons split: nat.splits)
    with 1(1) [OF ne] 1(2) ne rs d small Cons show ?thesis by simp
  qed simp
qed

lemma node_rune_small: "node_rune r \<Longrightarrow> r < 128 \<and> r \<notin> {42, 63, 91}"
  by (auto simp: node_rune_def)

lemma ValidateNodeID_literal:
  assumes "ValidateNodeID s = None"
  shows "IsLiteral s" and "s \<noteq> []" and "s \<noteq> ''*''"
proof -
  have r: "list_all node_rune (runes s)" and "s \<noteq> []"
    using assms by (auto simp: ValidateNodeID_def list_all_iff find_None_iff split: if_splits option.splits)
  then show "s \<noteq> []" by simp
  have small: "list_all (\<lambda>b. b < 128) (bytes_of s)"
    by (rule runes_small) (use r node_rune_small in \<open>auto simp: runes_def list_all_iff\<close>)
  then have b: "runes s = bytes_of s" by (simp add: runes_def runes_of_ascii)
  have "c \<notin> set s" if "of_char c \<in> {42, 63, 91 :: nat}" for c
  proof
    assume "c \<in> set s"
    then have "of_char c \<in> set (runes s)" by (simp add: b bytes_of_def)
    with r that node_rune_small [of "of_char c"] show False by (auto simp: list_all_iff)
  qed
  then have "\<not> HasMeta s" by (auto simp: HasMeta_def contains_any_def list_ex_iff)
  with small show "IsLiteral s" by (simp add: IsLiteral_def ValidString_def valid_utf8_ascii)
  then show "s \<noteq> ''*''" by (auto simp: IsLiteral_def HasMeta_def contains_any_def)
qed

lemma Compile_Match: "Compile rt pattern = Inr pat \<Longrightarrow> Pattern_Match pat name = Match rt pattern name"
  by (auto simp: Compile_def Match_eq compileRegexp_def split: if_splits option.splits)

subsection \<open>The nodes a job reaches\<close>

lemma targetCovered_reach:
  assumes "targetCovered (tv_rt te) granted kind asked" and "target_Compile te kind asked groups = Some (Inr m)"
    and "Matcher_Match te m n" and "ValidateNodeID (nd_ID n) = None"
  shows "literalCovered (tv_rt te) granted (nd_ID n)"
proof (cases "granted = ''*''")
  case True
  then show ?thesis by (simp add: literalCovered_def)
next
  case other: False
  with assms(1) consider "kind = TkGlob" | "kind = TkList" by (auto simp: targetCovered_def split: if_splits)
  then show ?thesis
  proof cases
    case 1
    with assms(2) obtain g left where g: "compileGlob te asked asked maxPatternBytes = Inr (g, left)" "mt_ast m = Leaf (LGlob g)"
      by (auto simp: target_Compile_def compileLeaf_def split: if_splits sum.splits)
    with assms(3) have "g (nd_ID n)" by (simp add: Matcher_Match_def)
    with g(1) have hit: "asked = ''*'' \<or> Match (tv_rt te) asked (nd_ID n)"
      by (auto simp: compileGlob_def Compile_Match split: if_splits sum.splits)
    from assms(1) 1 other have "granted = asked \<or> literalCovered (tv_rt te) granted asked" by (simp add: targetCovered_def)
    then show ?thesis
    proof
      assume "granted = asked"
      with hit other assms(4) show ?thesis by (simp add: literalCovered_def MatchGlob_def)
    next
      assume l: "literalCovered (tv_rt te) granted asked"
      with other have "ValidateNodeID asked = None" by (simp add: literalCovered_def split: if_splits)
      from ValidateNodeID_literal [OF this] hit have "asked = nd_ID n" by (simp add: Match_eq)
      with l show ?thesis by simp
    qed
  next
    case 2
    with assms(2) have "mt_ast m = Leaf (LList (ListIDs asked))"
      by (auto simp: target_Compile_def compileLeaf_def split: if_splits)
    with assms(3) have "nd_ID n \<in> set (ListIDs asked)" by (simp add: Matcher_Match_def)
    with assms(1) 2 other show ?thesis by (auto simp: targetCovered_def list_all_iff Let_def)
  qed
qed

lemma authorizedE:
  assumes "de_Allowed (AuthorizeAs v (Some p) req roles)"
  obtains role rule where "role \<in> set roles" "rule \<in> set (rules_of p role)" "permits v p req rule"
  using assms AuthorizeAs_spec(1) [of v p req roles] by (auto simp: authorized_def list_ex_iff)

text \<open>C22: the policy and dispatch agree about which nodes were asked for. Every enrolled node that an allowed job
  reaches, however its target is written, is inside the glob of one rule that grants the function and holds the
  arguments, and may be watched by the same roles.\<close>

theorem allowed_job_stays_inside_a_rule:
  assumes "de_Allowed (AuthorizeAs v (Some p) req roles)" and "\<not> rq_Runner req"
    and "KindFromFlag (rq_TargetKind req) = Some kind" and "tv_rt te = pv_rt v"
    and "target_Compile te kind (rq_Target req) groups = Some (Inr m)" and "Matcher_Match te m n"
    and "ValidateNodeID (nd_ID n) = None"
  shows "list_ex (\<lambda>role. list_ex (\<lambda>rule. literalCovered (pv_rt v) (ru_Target rule) (nd_ID n) \<and> permits v p req rule)
            (rules_of p role)) roles \<and>
         VisibleNode (pv_rt v) (Some p) roles (nd_ID n)"
proof -
  from assms(1) obtain role rule where r: "role \<in> set roles" "rule \<in> set (rules_of p role)" "permits v p req rule"
    by (rule authorizedE)
  have "targetCovered (tv_rt te) (ru_Target rule) kind (rq_Target req)"
    using r(3) assms(2,3,4) by (simp add: permits_def covers_request_def)
  from targetCovered_reach [OF this assms(5-7)] have c: "literalCovered (pv_rt v) (ru_Target rule) (nd_ID n)"
    by (simp add: assms(4))
  have "\<not> literalCovered (pv_rt v) [] (nd_ID n)"
    using ValidateNodeID_literal(2) [OF assms(7)] by (simp add: literalCovered_def MatchGlob_def Match_eq IsLiteral_def HasMeta_def
        contains_any_def ValidString_def bytes_of_def valid_utf8_code)
  with c have "ru_Target rule \<noteq> []" by auto
  with r c show ?thesis by (auto simp: VisibleNode_def list_ex_iff)
qed

subsection \<open>Wildcards\<close>

lemma use_name_spec:
  "foldl (use_name r) (arb, shp) names =
     (arb @ filter (\<lambda>n. case Registry_Lookup r n of Some sig \<Rightarrow> sig_ArbitraryCode sig | None \<Rightarrow> False) names, shp @ names)"
  by (induction names arbitrary: arb shp) (auto simp: use_name_def split: option.splits)

lemma Names_Lookup: "fn \<in> set (Registry_Names r) \<longleftrightarrow> Registry_Lookup r fn \<noteq> None"
  by (simp add: Registry_Names_def Registry_Lookup_def map_of_eq_None_iff)

definition declared_arbitrary :: "Registry list \<Rightarrow> string \<Rightarrow> bool" where
  "declared_arbitrary regs fn \<longleftrightarrow>
     list_ex (\<lambda>r. case Registry_Lookup r fn of Some sig \<Rightarrow> sig_ArbitraryCode sig | None \<Rightarrow> False) regs"

definition build_ships :: "Registry list \<Rightarrow> string \<Rightarrow> bool" where
  "build_ships regs fn \<longleftrightarrow> fn \<in> set JobFunctions \<or> list_ex (\<lambda>r. Registry_Lookup r fn \<noteq> None) regs"

lemma UseCatalog_spec:
  "fn \<in> set (po_ArbitraryCode (UseCatalog p regs)) \<longleftrightarrow> declared_arbitrary regs fn"
  "is_shipped (UseCatalog p regs) fn \<longleftrightarrow> build_ships regs fn"
proof -
  have "fn \<in> set (fst (foldl (\<lambda>st r. foldl (use_name r) st (Registry_Names r)) (arb, shp) regs)) \<longleftrightarrow>
      fn \<in> set arb \<or> declared_arbitrary regs fn"
    and "fn \<in> set (snd (foldl (\<lambda>st r. foldl (use_name r) st (Registry_Names r)) (arb, shp) regs)) \<longleftrightarrow>
      fn \<in> set shp \<or> list_ex (\<lambda>r. Registry_Lookup r fn \<noteq> None) regs" for arb shp
    by (induction regs arbitrary: arb shp)
      (auto simp: use_name_spec Names_Lookup declared_arbitrary_def split: option.splits)
  from this [of "[]" JobFunctions]
  show "fn \<in> set (po_ArbitraryCode (UseCatalog p regs)) \<longleftrightarrow> declared_arbitrary regs fn"
    "is_shipped (UseCatalog p regs) fn \<longleftrightarrow> build_ships regs fn"
    by (simp_all add: UseCatalog_def is_shipped_def build_ships_def split_beta)
qed

text \<open>What has to be named: it reads secrets, or, as a job, runs code by any registry's word or is no function the
  build ships.\<close>

definition must_be_named :: "Registry list \<Rightarrow> Request \<Rightarrow> bool" where
  "must_be_named regs req \<longleftrightarrow> ReadsPillar (rq_Fun req) (rq_Runner req) \<or>
     \<not> rq_Runner req \<and> (declared_arbitrary regs (rq_Fun req) \<or> \<not> build_ships regs (rq_Fun req))"

text \<open>C23: wildcards never grant what runs code or reads secrets. A job of a function that any registry declares
  arbitrary code or that the build does not ship, and any call that reads a node's pillar, is allowed only
  through a rule that names the function.\<close>

theorem wildcards_never_grant_code_or_secrets:
  assumes "de_Allowed (AuthorizeAs v (Some (UseCatalog p regs)) req roles)" and "must_be_named regs req"
  shows "list_ex (\<lambda>role. list_ex (\<lambda>rule. permits v (UseCatalog p regs) req rule \<and>
      rq_Fun req \<in> set (if rq_Runner req then ru_Runners rule else ru_Functions rule)) (rules_of (UseCatalog p regs) role)) roles"
proof -
  from assms(1) obtain role rule where r: "role \<in> set roles" "rule \<in> set (rules_of (UseCatalog p regs) role)"
    "permits v (UseCatalog p regs) req rule" by (rule authorizedE)
  from r(3) assms(2) have "rq_Fun req \<in> set (if rq_Runner req then ru_Runners rule else ru_Functions rule)"
    by (auto simp: permits_def grants_def must_be_named_def wildcardGrants_def UseCatalog_spec Let_def split: if_splits)
  with r show ?thesis unfolding list_ex_iff by blast
qed

subsection \<open>Argument rules\<close>

definition env_obeys :: "go_runtime \<Rightarrow> ArgRule \<Rightarrow> string \<Rightarrow> bool" where
  "env_obeys rt c env \<longleftrightarrow> \<not> matchAny rt (ar_DenyEnv c) env \<and> (ar_AllowEnv c = [] \<or> matchAny rt (ar_AllowEnv c) env)"

definition name_obeys :: "go_runtime \<Rightarrow> ArgRule \<Rightarrow> string \<Rightarrow> bool" where
  "name_obeys rt c arg \<longleftrightarrow> \<not> matchAny rt (ar_DenySLS c) arg \<and> (ar_AllowSLS c = [] \<or> matchAny rt (ar_AllowSLS c) arg) \<and>
     (ar_DenySLS c = [] \<and> ar_AllowSLS c = [] \<or> CanonicalSLS arg = Inr arg)"

definition kwargs_obey :: "policy_env \<Rightarrow> ArgRule \<Rightarrow> (string, kwarg) gomap \<Rightarrow> bool" where
  "kwargs_obey v c kwargs \<longleftrightarrow>
     list_all (\<lambda>(name, _). \<not> matchAny (pv_rt v) (ar_DenyKwargs c) name) kwargs \<and>
     list_all (\<lambda>(name, _). case (gomap_get (ar_RequireKwargs c) name, gomap_get kwargs name) of
       (Some want, Some got) \<Rightarrow> sameScalar v want got | _ \<Rightarrow> False) (ar_RequireKwargs c)"

definition job_obeys :: "policy_env \<Rightarrow> ArgRule \<Rightarrow> Request \<Rightarrow> bool" where
  "job_obeys v c req \<longleftrightarrow>
     kwargs_obey v c (wireKwargs req) \<and> (rq_Env req = [] \<or> env_obeys (pv_rt v) c (rq_Env req)) \<and>
     list_all (name_obeys (pv_rt v) c) (rq_Arg req) \<and>
     (ar_AllowSLS c = [] \<or> rq_Arg req \<noteq> [] \<and> rq_Fun req \<noteq> ''state.highstate'')"

lemma CanonicalSLS_same: "CanonicalSLS a = Inr b \<Longrightarrow> b = a"
  by (simp add: CanonicalSLS_def split: if_splits)

lemma denied_kwarg_None:
  "first_some (denied_kwarg rt req kwargs) ks = None \<longleftrightarrow> list_all (\<lambda>(name, _). \<not> matchAny rt ks name) kwargs"
  by (fastforce simp: first_some_None denied_kwarg_def find_None_iff matchAny_def list_all_iff list_ex_iff)

lemma checkRequired_None:
  "checkRequired v required kwargs fn = None \<longleftrightarrow>
     list_all (\<lambda>(name, _). case (gomap_get required name, gomap_get kwargs name) of
       (Some want, Some got) \<Rightarrow> sameScalar v want got | _ \<Rightarrow> False) required"
proof -
  have "missing_kwarg v required kwargs fn name = None \<longleftrightarrow> (case (gomap_get required name, gomap_get kwargs name) of
      (Some want, Some got) \<Rightarrow> sameScalar v want got | _ \<Rightarrow> False)" if "name \<in> fst ` set required" for name
  proof -
    from that obtain want where "gomap_get required name = Some want" using weak_map_of_SomeI by fastforce
    then show ?thesis by (cases "gomap_get kwargs name") (simp_all add: missing_kwarg_def)
  qed
  note same = this
  have "checkRequired v required kwargs fn = None \<longleftrightarrow> (\<forall>name \<in> fst ` set required. missing_kwarg v required kwargs fn name = None)"
    by (simp add: checkRequired_def first_some_None)
  also have "\<dots> \<longleftrightarrow> (\<forall>name \<in> fst ` set required. case (gomap_get required name, gomap_get kwargs name) of
      (Some want, Some got) \<Rightarrow> sameScalar v want got | _ \<Rightarrow> False)" by (rule ball_cong [OF refl same])
  finally show ?thesis by (simp add: list_all_iff split_beta)
qed

lemma checkEnv_job_None:
  "\<not> rq_Runner req \<Longrightarrow> checkEnv rt c req = None \<longleftrightarrow> rq_Env req = [] \<or> env_obeys rt c (rq_Env req)"
  by (auto simp: checkEnv_def requestEnv_def env_obeys_def matchAny_def)

lemma check_canonical_None: "check_canonical req arg = None \<longleftrightarrow> CanonicalSLS arg = Inr arg"
  by (auto simp: check_canonical_def dest: CanonicalSLS_same split: sum.splits)

lemma check_allowed_None:
  "check_allowed rt c req = None \<longleftrightarrow>
     rq_Fun req \<noteq> ''state.highstate'' \<and> rq_Arg req \<noteq> [] \<and> list_all (matchAny rt (ar_AllowSLS c)) (rq_Arg req)"
  by (simp add: check_allowed_def Let_def first_some_None list_all_iff)

lemma check_names_sound:
  assumes "check_names rt c req (rq_Arg req) = None"
  shows "list_all (name_obeys rt c) (rq_Arg req) \<and> (ar_AllowSLS c = [] \<or> rq_Arg req \<noteq> [] \<and> rq_Fun req \<noteq> ''state.highstate'')"
proof -
  from assms have canonical: "ar_DenySLS c \<noteq> [] \<or> ar_AllowSLS c \<noteq> [] \<Longrightarrow> first_some (check_canonical req) (rq_Arg req) = None"
    and denied: "ar_DenySLS c \<noteq> [] \<Longrightarrow> first_some (check_denied rt c req) (rq_Arg req) = None"
    and allowed: "ar_AllowSLS c \<noteq> [] \<Longrightarrow> check_allowed rt c req = None"
    by (simp_all add: check_names_def)
  have "\<not> matchAny rt (ar_DenySLS c) arg" if "arg \<in> set (rq_Arg req)" for arg
    using denied that by (cases "ar_DenySLS c = []") (auto simp: matchAny_def first_some_None check_denied_def)
  moreover have "ar_AllowSLS c = [] \<or> matchAny rt (ar_AllowSLS c) arg" if "arg \<in> set (rq_Arg req)" for arg
    using allowed that by (auto simp: check_allowed_None list_all_iff)
  moreover have "ar_DenySLS c = [] \<and> ar_AllowSLS c = [] \<or> CanonicalSLS arg = Inr arg" if "arg \<in> set (rq_Arg req)" for arg
    using canonical that by (auto simp: first_some_None check_canonical_None)
  moreover have "ar_AllowSLS c = [] \<or> rq_Arg req \<noteq> [] \<and> rq_Fun req \<noteq> ''state.highstate''"
    using allowed by (auto simp: check_allowed_None)
  ultimately show ?thesis by (simp add: name_obeys_def list_all_iff)
qed

lemma checkArgRule_job:
  assumes "checkArgRule v c req = None" and "\<not> rq_Runner req"
  shows "job_obeys v c req"
proof -
  from assms have "first_some (denied_kwarg (pv_rt v) req (wireKwargs req)) (ar_DenyKwargs c) = None"
    "checkRequired v (ar_RequireKwargs c) (wireKwargs req) (rq_Fun req) = None" "checkEnv (pv_rt v) c req = None"
    "check_names (pv_rt v) c req (rq_Arg req) = None"
    by (auto simp: checkArgRule_def Let_def split: option.splits)
  with check_names_sound [OF this(4)] assms(2) show ?thesis
    by (simp add: job_obeys_def kwargs_obey_def denied_kwarg_None checkRequired_None checkEnv_job_None)
qed

lemma argRulesFor_family:
  assumes "fn \<in> set (ArgumentFamily fn runner)" and "w \<in> set (ArgumentFamily fn runner)" and "gomap_get (ru_Args rule) w = Some c"
  shows "(w, c) \<in> set (argRulesFor rule fn runner)"
  using assms by (auto simp: argRulesFor_def)

text \<open>C24: an argument rule holds every function that takes the same names. When a state job is allowed, one rule
  permits it and every argument rule written there for any of the state functions a node compiles is obeyed:
  no denied keyword, every required keyword with its value, a permitted environment, and SLS names in their
  one spelling that are allowed and not denied; under an allow list the job names something and is not the
  highstate.\<close>

theorem argument_rules_hold_the_family:
  assumes "de_Allowed (AuthorizeAs v (Some p) req roles)" and "\<not> rq_Runner req" and "JobFunction (rq_Fun req) \<noteq> None"
  shows "list_ex (\<lambda>role. list_ex (\<lambda>rule. permits v p req rule \<and>
      list_all (\<lambda>w. case gomap_get (ru_Args rule) w of None \<Rightarrow> True | Some c \<Rightarrow> job_obeys v c req) JobFunctions)
    (rules_of p role)) roles"
proof -
  from assms(1) obtain role rule where r: "role \<in> set roles" "rule \<in> set (rules_of p role)" "permits v p req rule"
    by (rule authorizedE)
  have "rq_Fun req = ''state.'' @ drop 6 (rq_Fun req)" and "drop 6 (rq_Fun req) \<in> set jobFunctions"
    using assms(3) by (auto simp: JobFunction_def has_prefix_iff Let_def split: if_splits)
  then have fn: "rq_Fun req \<in> set JobFunctions" unfolding JobFunctions_def by (metis image_eqI list.set_map)
  then have fam: "set (ArgumentFamily (rq_Fun req) False) = set JobFunctions" by (simp add: ArgumentFamily_def)
  have "job_obeys v c req" if "w \<in> set JobFunctions" "gomap_get (ru_Args rule) w = Some c" for w c
  proof (rule checkArgRule_job)
    have "(w, c) \<in> set (argRulesFor rule (rq_Fun req) False)"
      by (rule argRulesFor_family) (use fam fn that in auto)
    then show "checkArgRule v c req = None" using r(3) assms(2) by (auto simp: permits_def args_hold_def list_all_iff)
  qed (rule assms(2))
  then have "list_all (\<lambda>w. case gomap_get (ru_Args rule) w of None \<Rightarrow> True | Some c \<Rightarrow> job_obeys v c req) JobFunctions"
    by (auto simp: list_all_iff split: option.splits)
  with r show ?thesis by (auto simp: list_ex_iff)
qed

subsection \<open>The nodes a runner reaches\<close>

lemma scope_rules:
  "t \<in> set (foldl (scope_rule rt fn) ts rules) \<longleftrightarrow>
     t \<in> set ts \<or> (\<exists>rule \<in> set rules. ru_Target rule = t \<and> t \<noteq> [] \<and> matchAny rt (ru_Runners rule) fn \<and>
       (ReadsPillar fn True \<longrightarrow> fn \<in> set (ru_Runners rule)))"
  by (induction rules arbitrary: ts) (auto simp: scope_rule_def namedExactly_def list_ex_iff)

lemma RunnerScopeFor_targets:
  "t \<in> set (sc_Targets (RunnerScopeFor rt (Some p) roles fn)) \<longleftrightarrow>
     (\<exists>role \<in> set roles. \<exists>rule \<in> set (rules_of p role). ru_Target rule = t \<and> t \<noteq> [] \<and> matchAny rt (ru_Runners rule) fn \<and>
       (ReadsPillar fn True \<longrightarrow> fn \<in> set (ru_Runners rule)))"
proof -
  have "t \<in> set (foldl (\<lambda>ts role. foldl (scope_rule rt fn) ts (rules_of p role)) ts roles) \<longleftrightarrow>
     t \<in> set ts \<or> (\<exists>role \<in> set roles. \<exists>rule \<in> set (rules_of p role). ru_Target rule = t \<and> t \<noteq> [] \<and> matchAny rt (ru_Runners rule) fn \<and>
       (ReadsPillar fn True \<longrightarrow> fn \<in> set (ru_Runners rule)))" for ts
    by (induction roles arbitrary: ts) (auto simp: scope_rules)
  then show ?thesis by (simp add: RunnerScopeFor_def)
qed

text \<open>The scope of a runner is the second half of the decision that grants it. A runner reaches a node, for a caller
  and within a narrower scope, exactly when the narrower scope covers the node and some rule of the roles grants
  the runner, names a target and covers the node with it; a rule that grants by a wildcard lends no scope to a
  runner that reads secrets.\<close>

theorem runner_scope_is_what_the_grant_covers:
  "Covers (pv_rt v) (Within (RunnerScopeFor (pv_rt v) (Some p) roles (rq_Fun req)) narrow) node \<and> rq_Runner req \<longleftrightarrow>
     Covers (pv_rt v) narrow node \<and> rq_Runner req \<and>
     list_ex (\<lambda>role. list_ex (\<lambda>rule. grants v p req rule \<and> ru_Target rule \<noteq> [] \<and>
       literalCovered (pv_rt v) (ru_Target rule) node) (rules_of p role)) roles"
proof (cases "rq_Runner req")
  case True
  have "list_ex (\<lambda>t. literalCovered (pv_rt v) t node) (sc_Targets (RunnerScopeFor (pv_rt v) (Some p) roles (rq_Fun req))) \<longleftrightarrow>
     list_ex (\<lambda>role. list_ex (\<lambda>rule. grants v p req rule \<and> ru_Target rule \<noteq> [] \<and>
       literalCovered (pv_rt v) (ru_Target rule) node) (rules_of p role)) roles"
    using True unfolding list_ex_iff Bex_def RunnerScopeFor_targets grants_def Let_def by (simp only: if_True) blast
  with True show ?thesis by (simp add: Within_def)
qed simp

subsection \<open>Loaded policies\<close>

lemma and_then_Inr [simp]: "and_then r f = Inr y \<longleftrightarrow> (\<exists>x. r = Inr x \<and> f x = Inr y)"
  by (simp add: and_then_def split: sum.split)

lemma refuse_if_Inr [simp]: "refuse_if c e = Inr u \<longleftrightarrow> \<not> c"
  by (simp add: refuse_if_def)

lemma wrap_err_Inr [simp]: "wrap_err f r = Inr x \<longleftrightarrow> r = Inr x"
  by (simp add: wrap_err_def split: sum.split)

lemma list_all_gomap_put: "list_all P m \<Longrightarrow> P (k, v) \<Longrightarrow> list_all P (gomap_put k v m)"
  by (induction m) auto

definition required_ok :: "(string, val) gomap \<Rightarrow> bool" where
  "required_ok m \<longleftrightarrow> list_all (\<lambda>(name, want). name \<noteq> [] \<and>
     (case want of VBool _ \<Rightarrow> True | VStr _ \<Rightarrow> True | VInt _ \<Rightarrow> True | VFloat _ \<Rightarrow> True | _ \<Rightarrow> False)) m"

definition rule_ok :: "Rule \<Rightarrow> bool" where
  "rule_ok r \<longleftrightarrow> (ru_Functions r \<noteq> [] \<or> ru_Runners r \<noteq> [] \<or> ru_ActFor r \<noteq> []) \<and>
     (ru_Functions r = [] \<or> ru_Target r \<noteq> []) \<and> (ru_Functions r \<noteq> [] \<or> ru_Runners r \<noteq> [] \<or> ru_Target r = []) \<and>
     list_all (\<lambda>(fn, c). required_ok (ar_RequireKwargs c)) (ru_Args r)"

definition binding_ok :: "Policy \<Rightarrow> Binding \<Rightarrow> bool" where
  "binding_ok p b \<longleftrightarrow> bi_Principal b \<noteq> [] \<and> list_all (\<lambda>role. gomap_get (po_Roles p) role \<noteq> None) (bi_Roles b)"

definition policy_ok :: "Policy \<Rightarrow> bool" where
  "policy_ok p \<longleftrightarrow> list_all (\<lambda>(role, rules). list_all rule_ok rules) (po_Roles p) \<and> list_all (binding_ok p) (po_Bindings p)"

lemma require_entries_ok: "require_entries rt es out = Inr m \<Longrightarrow> required_ok out \<Longrightarrow> required_ok m"
proof (induction es arbitrary: out)
  case (Cons e es)
  then show ?case by (auto simp: Let_def required_ok_def intro!: list_all_gomap_put split: if_splits)
qed simp

lemma required_ok_Nil [simp]: "required_ok []"
  by (simp add: required_ok_def)

lemma requireKwargs_ok: "requireKwargs rt m = Inr r \<Longrightarrow> required_ok r"
  by (auto simp: requireKwargs_def intro: require_entries_ok split: option.splits val.splits)

lemma parse_arg_rule_ok: "parse_arg_rule rt at cm = Inr c \<Longrightarrow> required_ok (ar_RequireKwargs c)"
  by (auto simp: parse_arg_rule_def Let_def intro: requireKwargs_ok)

lemma parse_args_ok:
  "parse_args rt at bad es args = Inr out \<Longrightarrow> list_all (\<lambda>(fn, c). required_ok (ar_RequireKwargs c)) args \<Longrightarrow>
     list_all (\<lambda>(fn, c). required_ok (ar_RequireKwargs c)) out"
proof (induction es arbitrary: args)
  case (Cons e es)
  then obtain cm c where "Val e = VMap cm" "parse_arg_rule rt (at (KeyString (Key e))) cm = Inr c"
    "parse_args rt at bad es (gomap_put (KeyString (Key e)) c args) = Inr out"
    by (cases "Val e") (auto simp: Let_def)
  from Cons.IH [OF this(3)] list_all_gomap_put [OF Cons.prems(2)] parse_arg_rule_ok [OF this(2)] show ?case by simp
qed simp

lemma parse_rule_ok: "parse_rule rt role path i item = Inr r \<Longrightarrow> rule_ok r"
  using parse_args_ok [where args = "[]"]
  by (cases item) (auto simp: parse_rule_def Let_def rule_ok_def split: option.splits val.splits)

lemma parse_rule_list_ok: "parse_rule_list rt role path i items = Inr rs \<Longrightarrow> list_all rule_ok rs"
  by (induction items arbitrary: i rs) (auto intro: parse_rule_ok)

lemma parse_roles_ok:
  "parse_roles rt path es roles = Inr out \<Longrightarrow> list_all (\<lambda>(role, rules). list_all rule_ok rules) roles \<Longrightarrow>
     list_all (\<lambda>(role, rules). list_all rule_ok rules) out"
proof (induction es arbitrary: roles)
  case (Cons e es)
  then obtain rules where "parseRules rt (KeyString (Key e)) (Val e) path = Inr rules"
    "parse_roles rt path es (gomap_put (KeyString (Key e)) rules roles) = Inr out" by (auto simp: Let_def)
  moreover from this(1) have "list_all rule_ok rules"
    by (auto simp: parseRules_def intro: parse_rule_list_ok split: val.splits)
  ultimately show ?case using Cons.IH list_all_gomap_put [OF Cons.prems(2)] by simp
qed simp

lemma parse_bindings_ok:
  "parse_bindings rt path roles i items = Inr bs \<Longrightarrow> po_Roles p = roles \<Longrightarrow> list_all (binding_ok p) bs"
  by (induction items arbitrary: i bs)
    (auto simp: parse_binding_def Let_def binding_ok_def list_all_iff find_None_iff split: val.splits if_splits option.splits)

text \<open>What loads is well formed. In a policy that loads, every rule grants something, a rule that grants
  functions names its target, a required keyword has a name and a scalar value, every binding names a
  principal and only roles that are defined, and until a catalog is given no pattern grants a function.\<close>

theorem Load_well_formed:
  assumes "Load rt parsed path = Inr p"
  shows "policy_ok p \<and> \<not> wildcardGrants p fn"
proof (cases parsed)
  case (Inr doc)
  then consider "doc = VNull" | root where "doc = VMap root" using assms by (cases doc) (auto simp: Load_def)
  then show ?thesis
  proof cases
    case 1
    then show ?thesis using assms Inr by (auto simp: Load_def policy_ok_def wildcardGrants_def is_shipped_def)
  next
    case (2 root)
    with assms Inr obtain roles bindings where rb: "p = \<lparr>po_Roles = roles, po_Bindings = bindings, po_Path = path, po_ArbitraryCode = [], po_Shipped = None\<rparr>"
      and r: "(case Map_Get root (KStr ''roles'') of None \<Rightarrow> Inr [] | Some (VMap m) \<Rightarrow> parse_roles rt path (entries m) []
             | Some _ \<Rightarrow> Inl (FErr ''%s: `roles` is a mapping of role name to rules'' [FStr path])) = Inr roles"
      and b: "(case Map_Get root (KStr ''bindings'') of None \<Rightarrow> Inr [] | Some (VSeq items) \<Rightarrow> parse_bindings rt path roles 0 items
             | Some _ \<Rightarrow> Inl (FErr ''%s: `bindings` is a list'' [FStr path])) = Inr bindings"
      by (auto simp: Load_def)
    from r have "list_all (\<lambda>(role, rules). list_all rule_ok rules) roles"
      by (auto intro: parse_roles_ok split: option.splits val.splits)
    moreover from b have "list_all (binding_ok p) bindings"
      by (auto simp: rb intro: parse_bindings_ok split: option.splits val.splits)
    ultimately show ?thesis by (simp add: policy_ok_def rb wildcardGrants_def is_shipped_def)
  qed
qed (use assms in \<open>simp add: Load_def\<close>)

subsection \<open>The suggestion for a misspelt key\<close>

text \<open>An alignment of two strings and the edits it counts: insertions, deletions and replacements.\<close>

inductive aligned :: "nat \<Rightarrow> string \<Rightarrow> string \<Rightarrow> bool" where
  empty: "aligned 0 [] []"
| insertion: "aligned n xs ys \<Longrightarrow> aligned (Suc n) xs (ys @ [y])"
| deletion: "aligned n xs ys \<Longrightarrow> aligned (Suc n) (xs @ [x]) ys"
| copy: "aligned n xs ys \<Longrightarrow> aligned n (xs @ [x]) (ys @ [x])"
| replacement: "aligned n xs ys \<Longrightarrow> aligned (Suc n) (xs @ [x]) (ys @ [y])"

text \<open>The table, as its recurrence over the lengths of the two prefixes.\<close>

fun lev_at :: "string \<Rightarrow> string \<Rightarrow> nat \<Rightarrow> nat \<Rightarrow> nat" where
  "lev_at a b 0 j = j"
| "lev_at a b (Suc i) 0 = Suc i"
| "lev_at a b (Suc i) (Suc j) =
     min3 (lev_at a b i (Suc j) + 1) (lev_at a b (Suc i) j + 1) (lev_at a b i j + (if a ! i = b ! j then 0 else 1))"

lemma lev_at_0 [simp]: "lev_at a b i 0 = i"
  by (cases i) simp_all

lemma fill_cells:
  assumes "length current = length b + 1" and "length previous = length b + 1" and "0 < i"
    and "\<And>k. k \<le> length b \<Longrightarrow> previous ! k = lev_at a b (i - 1) k" and "current ! 0 = i"
  shows "j \<le> length b \<Longrightarrow> (let row = foldl (fill_cell a b i previous) current [1..<j + 1] in
    length row = length b + 1 \<and> (\<forall>k \<le> j. row ! k = lev_at a b i k))"
proof (induction j)
  case 0
  from assms(3,5) show ?case using assms(1) by (cases i) auto
next
  case (Suc j)
  obtain i' where i: "i = Suc i'" using assms(3) by (cases i) auto
  let ?row = "foldl (fill_cell a b i previous) current [1..<j + 1]"
  have row: "length ?row = length b + 1" "\<And>k. k \<le> j \<Longrightarrow> ?row ! k = lev_at a b i k" using Suc by (auto simp: Let_def)
  have "foldl (fill_cell a b i previous) current [1..<Suc j + 1] = ?row[Suc j := lev_at a b i (Suc j)]"
    using row(2) [of j] assms(4) [of j] assms(4) [of "Suc j"] Suc.prems by (simp add: fill_cell_def i)
  with row Suc.prems show ?case by (auto simp: Let_def nth_list_update le_Suc_eq)
qed

lemma fill_rows:
  "i \<le> length a \<Longrightarrow> (case foldl (fill_row a b) ([0..<length b + 1], replicate (length b + 1) 0) [1..<i + 1] of
     (previous, current) \<Rightarrow> length previous = length b + 1 \<and> length current = length b + 1 \<and>
       (\<forall>k \<le> length b. previous ! k = lev_at a b i k))"
proof (induction i)
  case 0
  show ?case by (simp del: upt_Suc)
next
  case (Suc i)
  obtain previous current where f: "foldl (fill_row a b) ([0..<length b + 1], replicate (length b + 1) 0) [1..<i + 1] = (previous, current)"
    by fastforce
  with Suc have p: "length previous = length b + 1" "length current = length b + 1" "\<And>k. k \<le> length b \<Longrightarrow> previous ! k = lev_at a b i k"
    by auto
  have "let row = foldl (fill_cell a b (Suc i) previous) (current[0 := Suc i]) [1..<length b + 1] in
      length row = length b + 1 \<and> (\<forall>k \<le> length b. row ! k = lev_at a b (Suc i) k)"
    by (rule fill_cells) (use p in simp_all)
  with f p show ?case by (simp add: fill_row_def Let_def)
qed

lemma editDistance_lev: "editDistance a b = lev_at a b (length a) (length b)"
  using fill_rows [of "length a" a b] by (auto simp: editDistance_def split: prod.splits)

lemma lev_at_prefix: "i \<le> length a \<Longrightarrow> j \<le> length b \<Longrightarrow> lev_at (a @ a') (b @ b') i j = lev_at a b i j"
  by (induction a b i j rule: lev_at.induct) (auto simp: nth_append)

lemma lev_at_aligned: "i \<le> length a \<Longrightarrow> j \<le> length b \<Longrightarrow> aligned (lev_at a b i j) (take i a) (take j b)"
proof (induction a b i j rule: lev_at.induct)
  case (1 a b j)
  then show ?case by (induction j) (auto simp: take_Suc_conv_app_nth intro: aligned.intros)
next
  case (2 a b i)
  have "k \<le> length a \<Longrightarrow> aligned k (take k a) []" for k
    by (induction k) (auto simp: take_Suc_conv_app_nth intro: aligned.intros)
  with 2 show ?case by simp
next
  case (3 a b i j)
  let ?r = "lev_at a b i j + (if a ! i = b ! j then 0 else 1)"
  have "aligned (Suc (lev_at a b i (Suc j))) (take (Suc i) a) (take (Suc j) b)"
    "aligned (Suc (lev_at a b (Suc i) j)) (take (Suc i) a) (take (Suc j) b)"
    "aligned ?r (take (Suc i) a) (take (Suc j) b)"
    using 3 by (auto simp: take_Suc_conv_app_nth intro: aligned.intros)
  then show ?case by (auto simp: min3_def min_def)
qed

lemma lev_at_minimal: "aligned n xs ys \<Longrightarrow> lev_at xs ys (length xs) (length ys) \<le> n"
proof (induction rule: aligned.induct)
  case (insertion n xs ys y)
  then show ?case using lev_at_prefix [of "length xs" xs "length ys" ys "[]" "[y]"]
    by (cases xs rule: rev_cases) (auto simp: min3_def)
next
  case (deletion n xs ys x)
  then show ?case using lev_at_prefix [of "length xs" xs "length ys" ys "[x]" "[]"]
    by (cases ys rule: rev_cases) (auto simp: min3_def)
next
  case (copy n xs ys x)
  then show ?case using lev_at_prefix [of "length xs" xs "length ys" ys "[x]" "[x]"] by (simp add: min3_def)
next
  case (replacement n xs ys x y)
  then show ?case using lev_at_prefix [of "length xs" xs "length ys" ys "[x]" "[y]"]
    by (simp add: min3_def) (auto simp: min_le_iff_disj)
qed simp

text \<open>The distance behind the suggestion for a misspelt key is the least number of insertions, deletions and
  replacements that turn one key into the other, although only two rows of the table are kept and reused.\<close>

theorem editDistance_is_least: "editDistance a b = (LEAST n. aligned n a b)"
  using lev_at_aligned [of "length a" a "length b" b] lev_at_minimal [of _ a b]
  by (intro Least_equality [symmetric]) (simp_all add: editDistance_lev)

subsection \<open>A sample policy\<close>

definition no_args :: ArgRule where
  "no_args = \<lparr>ar_AllowSLS = [], ar_DenySLS = [], ar_AllowEnv = [], ar_DenyEnv = [], ar_AllowMods = [], ar_DenyKwargs = [],
     ar_RequireKwargs = []\<rparr>"

definition webops :: Policy where
  "webops = \<lparr>po_Roles =
       [(''webops'', [\<lparr>ru_Target = ''web*'', ru_Functions = [''state.*'', ''cmd.run''], ru_Runners = [],
            ru_Args = [(''state.apply'', no_args\<lparr>ar_AllowSLS := [''web.*'']\<rparr>)], ru_ActFor = []\<rparr>]),
        (''deploy'', [\<lparr>ru_Target = [], ru_Functions = [], ru_Runners = [''state.orchestrate''],
            ru_Args = [(''state.orchestrate'', no_args\<lparr>ar_AllowSLS := [''deploy.*'']\<rparr>)], ru_ActFor = []\<rparr>])],
     po_Bindings = [], po_Path = [], po_ArbitraryCode = [], po_Shipped = None\<rparr>"

definition plain_env :: policy_env where
  "plain_env = \<lparr>pv_rt = no_runtime, pv_float_eq = (\<lambda>_ _. False)\<rparr>"

definition sample_request :: "string \<Rightarrow> string \<Rightarrow> string list \<Rightarrow> Request" where
  "sample_request tgt fn args = \<lparr>rq_Principal = ''ops'', rq_Target = tgt, rq_TargetKind = [], rq_Fun = fn, rq_Arg = args,
     rq_Kwarg = [], rq_Test = False, rq_Env = [], rq_Resumes = None, rq_Runner = False\<rparr>"

definition web_node :: Node where
  "web_node = \<lparr>nd_ID = ''web1'', nd_Grains = None, nd_Pillar = None, nd_LoadPillar = None\<rparr>"

lemma web_match:
  obtains m where "target_Compile sample_env TkGlob ''web*'' [] = Some (Inr m)" "Matcher_Match sample_env m web_node"
proof -
  have "(case target_Compile sample_env TkGlob ''web*'' [] of Some (Inr m) \<Rightarrow> Matcher_Match sample_env m web_node | _ \<Rightarrow> False)"
    by code_simp
  then show ?thesis using that by (auto split: option.splits sum.splits)
qed

lemma web_allowed:
  "de_Allowed (AuthorizeAs plain_env (Some (UseCatalog webops [])) (sample_request ''web*'' ''state.sls'' [''web.nginx'']) [''webops''])"
  by code_simp

theorem allowed_job_stays_inside_a_rule_witness:
  "VisibleNode no_runtime (Some (UseCatalog webops [])) [''webops''] ''web1''"
proof -
  let ?req = "sample_request ''web*'' ''state.sls'' [''web.nginx'']"
  obtain m where m: "target_Compile sample_env TkGlob ''web*'' [] = Some (Inr m)" "Matcher_Match sample_env m web_node"
    by (rule web_match)
  have r: "\<not> rq_Runner ?req" "KindFromFlag (rq_TargetKind ?req) = Some TkGlob" "tv_rt sample_env = pv_rt plain_env"
    "rq_Target ?req = ''web*''" "nd_ID web_node = ''web1''" "pv_rt plain_env = no_runtime"
    by (simp_all add: sample_request_def KindFromFlag_def sample_env_def plain_env_def web_node_def)
  have "ValidateNodeID (nd_ID web_node) = None" by code_simp
  moreover have "target_Compile sample_env TkGlob (rq_Target ?req) [] = Some (Inr m)" using m(1) r(4) by simp
  ultimately have "VisibleNode (pv_rt plain_env) (Some (UseCatalog webops [])) [''webops''] (nd_ID web_node)"
    by (intro allowed_job_stays_inside_a_rule [OF web_allowed r(1-3) _ m(2), THEN conjunct2])
  then show ?thesis by (simp only: r(5,6))
qed

theorem argument_rules_hold_the_family_witness:
  "list_ex (\<lambda>role. list_ex (\<lambda>rule. list_all (\<lambda>w. case gomap_get (ru_Args rule) w of None \<Rightarrow> True
       | Some c \<Rightarrow> job_obeys plain_env c (sample_request ''web*'' ''state.sls'' [''web.nginx''])) JobFunctions)
     (rules_of (UseCatalog webops []) role)) [''webops'']"
proof -
  have "\<not> rq_Runner (sample_request ''web*'' ''state.sls'' [''web.nginx''])"
    "JobFunction (rq_Fun (sample_request ''web*'' ''state.sls'' [''web.nginx''])) \<noteq> None" by code_simp+
  from argument_rules_hold_the_family [OF web_allowed this] show ?thesis unfolding list_ex_iff by blast
qed

theorem wildcards_never_grant_code_or_secrets_witness:
  "list_ex (\<lambda>role. list_ex (\<lambda>rule. ''cmd.run'' \<in> set (ru_Functions rule)) (rules_of (UseCatalog webops []) role)) [''webops'']"
proof -
  let ?req = "sample_request ''web1'' ''cmd.run'' []"
  have "de_Allowed (AuthorizeAs plain_env (Some (UseCatalog webops [])) ?req [''webops''])" by code_simp
  moreover have "must_be_named [] ?req"
    by (simp add: must_be_named_def sample_request_def build_ships_def JobFunctions_def jobFunctions_def)
  ultimately show ?thesis using wildcards_never_grant_code_or_secrets [of plain_env webops "[]" ?req "[''webops'']"]
    by (simp add: sample_request_def list_ex_iff) blast
qed

definition sample_document :: val where
  "sample_document = VMap (MapOf
     [(KStr ''roles'', VMap (MapOf [(KStr ''ping'', VSeq [VMap (MapOf [(KStr ''target'', VStr ''*''), (KStr ''functions'', VStr ''test.ping'')])])])),
      (KStr ''bindings'', VSeq [VMap (MapOf [(KStr ''principal'', VStr ''ops''), (KStr ''roles'', VSeq [VStr ''ping''])])])])"

theorem Load_well_formed_witness:
  "\<exists>p. Load no_runtime (Inr sample_document) ''policy'' = Inr p \<and> policy_ok p"
proof -
  have "\<not> isl (Load no_runtime (Inr sample_document) ''policy'')" by code_simp
  then obtain p where p: "Load no_runtime (Inr sample_document) ''policy'' = Inr p" by (cases "Load no_runtime (Inr sample_document) ''policy''") auto
  from Load_well_formed [OF this] p show ?thesis by blast
qed

end
