(* ===== verification/Calendar.thy ===== *)
theory Calendar
  imports "HOL-Library.Product_Lexorder" Prelude
begin

text \<open>
  What the scheduler uses of Go's \<open>time\<close> package: the proleptic Gregorian calendar, the clock on the wall and
  time zones. An instant is a number of nanoseconds since the zero time. A time zone gives the wall clock of
  an instant and, as \<open>time.Date\<close>, the instant of a wall clock; one with a fixed offset is computed here.
\<close>

subsection \<open>The calendar\<close>

definition leap :: "int \<Rightarrow> bool" where
  "leap y \<longleftrightarrow> y mod 4 = 0 \<and> (y mod 100 \<noteq> 0 \<or> y mod 400 = 0)"

definition days_in :: "int \<Rightarrow> int \<Rightarrow> int" where
  "days_in y m = (if m = 2 then if leap y then 29 else 28 else if m \<in> set [4, 6, 9, 11] then 30 else 31)"

text \<open>Days before the first of January, counted from year one.\<close>

definition days_before_year :: "int \<Rightarrow> int" where
  "days_before_year y = 365 * (y - 1) + (y - 1) div 4 - (y - 1) div 100 + (y - 1) div 400"

definition days_before_month :: "int \<Rightarrow> int \<Rightarrow> int" where
  "days_before_month y m = sum_list (map (days_in y) [1..m - 1])"

definition day_number :: "int \<Rightarrow> int \<Rightarrow> int \<Rightarrow> int" where
  "day_number y m d = days_before_year y + days_before_month y m + d - 1"

text \<open>The first of January of year one was a Monday; Sunday is zero.\<close>

definition weekday_of :: "int \<Rightarrow> int" where
  "weekday_of n = (n + 1) mod 7"

text \<open>The clock on the wall: year, month, day, hour, minute.\<close>

type_synonym wall = "int \<times> int \<times> int \<times> int \<times> int"

record zone =
  zn_wall :: "int \<Rightarrow> wall"
  zn_date :: "wall \<Rightarrow> int"   \<comment> \<open>\<open>time.Date\<close>, which normalises a day or an hour that does not exist\<close>

definition nano_minute :: int where "nano_minute = 60000000000"


subsection \<open>Days and dates\<close>

lemma div_pred: "0 < k \<Longrightarrow> (y :: int) div k = (y - 1) div k + (if y mod k = 0 then 1 else 0)"
proof -
  assume k: "0 < k"
  show ?thesis
  proof (cases "y mod k = 0")
    case True
    then obtain q where q: "y = k * q" by (auto simp: mod_eq_0_iff_dvd)
    have "(k * q - 1) div k = q - 1"
      by (rule int_div_pos_eq [of _ _ _ "k - 1"]) (use k in \<open>auto simp: algebra_simps\<close>)
    with True q k show ?thesis by simp
  next
    case False
    have "0 \<le> y mod k" by (rule pos_mod_sign [OF k])
    with False have "0 \<le> y mod k - 1" by linarith
    moreover have "y mod k - 1 < k" using pos_mod_bound [OF k, of y] by linarith
    moreover have "y - 1 = k * (y div k) + (y mod k - 1)" by simp
    ultimately have "(y - 1) div k = y div k" using k by (intro int_div_pos_eq)
    with False show ?thesis by simp
  qed
qed

lemma leap_count:
  fixes y a b c :: int
  assumes "a' = a + (if p then 1 else 0)" "b' = b + (if q then 1 else 0)" "c' = c + (if r then 1 else 0)" "q \<Longrightarrow> p" "r \<Longrightarrow> q"
  shows "365 * y + a' - b' + c' = 365 * (y - 1) + a - b + c + (if p \<and> (\<not> q \<or> r) then 366 else 365)"
  using assms by auto

lemma days_before_next_year: "days_before_year (y + 1) = days_before_year y + (if leap y then 366 else 365)"
proof -
  have "y mod 100 = 0 \<Longrightarrow> y mod 4 = 0" "y mod 400 = 0 \<Longrightarrow> y mod 100 = 0" by presburger+
  then show ?thesis unfolding days_before_year_def leap_def add_diff_cancel_right'
    by (intro leap_count div_pred) simp_all
qed

lemma days_in_pos: "28 \<le> days_in y m" "days_in y m \<le> 31"
  by (simp_all add: days_in_def)

lemma days_before_next_month: "1 \<le> m \<Longrightarrow> days_before_month y (m + 1) = days_before_month y m + days_in y m"
  by (simp add: days_before_month_def upto_rec2)

lemma days_before_month_1 [simp]: "days_before_month y 1 = 0"
  by (simp add: days_before_month_def)

lemma upto_12: "[1..12] = [1, 2, 3, 4, 5, 6, 7, 8, 9, 10, 11, 12 :: int]"
  by (simp add: upto.simps)

lemma days_of_year: "days_before_month y 13 = (if leap y then 366 else 365)"
  by (simp add: days_before_month_def upto_12 days_in_def)

lemma days_before_month_mono:
  assumes "m \<le> m'" and "1 \<le> m"
  shows "days_before_month y m \<le> days_before_month y m'"
  using assms(1)
proof (induction rule: int_ge_induct)
  case (step i)
  then show ?case using days_before_next_month [of i y] days_in_pos(1) [of y i] assms(2) by simp
qed simp

lemma days_before_year_mono: "y \<le> y' \<Longrightarrow> days_before_year y \<le> days_before_year y'"
proof (induction rule: int_ge_induct)
  case (step i)
  then show ?case using days_before_next_year [of i] by (simp split: if_splits)
qed simp

definition valid_date :: "int \<Rightarrow> int \<Rightarrow> int \<Rightarrow> bool" where
  "valid_date y m d \<longleftrightarrow> 1 \<le> m \<and> m \<le> 12 \<and> 1 \<le> d \<and> d \<le> days_in y m"

text \<open>Days are numbered in the order of their dates.\<close>

lemma day_number_month:
  assumes "valid_date y m d"
  shows "days_before_year y + days_before_month y m \<le> day_number y m d"
    and "day_number y m d < days_before_year y + days_before_month y (m + 1)"
  using assms days_before_next_month [of m y] by (simp_all add: valid_date_def day_number_def)

lemma day_number_year:
  assumes "valid_date y m d"
  shows "days_before_year y \<le> day_number y m d" and "day_number y m d < days_before_year (y + 1)"
  using day_number_month [OF assms] days_before_month_mono [of 1 m y] days_before_month_mono [of "m + 1" 13 y]
    days_of_year [of y] days_before_next_year [of y] assms
  by (auto simp: valid_date_def)

lemma day_number_less:
  assumes "valid_date y m d" and "valid_date y' m' d'" and "(y, m, d) < (y', m', d')"
  shows "day_number y m d < day_number y' m' d'"
proof -
  have "y < y' \<or> y = y' \<and> (m < m' \<or> m = m' \<and> d < d')" using assms(3) by (auto simp: less_prod_def le_less)
  then consider "y < y'" | "y = y'" "m < m'" | "y = y'" "m = m'" "d < d'" by blast
  then show ?thesis
  proof cases
    case 1
    then show ?thesis using day_number_year(2) [OF assms(1)] day_number_year(1) [OF assms(2)] days_before_year_mono [of "y + 1" y'] by simp
  next
    case 2
    then show ?thesis using day_number_month(2) [OF assms(1)] day_number_month(1) [OF assms(2)] days_before_month_mono [of "m + 1" m' y] assms(1)
      by (simp add: valid_date_def)
  next
    case 3
    then show ?thesis by (simp add: day_number_def)
  qed
qed

subsection \<open>Zones of a fixed offset\<close>

function year_up :: "int \<Rightarrow> int \<Rightarrow> int" where
  "year_up y n = (if days_before_year (y + 1) \<le> n then year_up (y + 1) n else y)"
  by pat_completeness auto
termination
  by (relation "measure (\<lambda>(y, n). nat (n + 1 - days_before_year y))") (auto simp: days_before_next_year split: if_splits)

declare year_up.simps [simp del]

function month_up :: "int \<Rightarrow> int \<Rightarrow> int \<Rightarrow> int \<times> int" where
  "month_up y m r = (if m < 12 \<and> days_in y m \<le> r then month_up y (m + 1) (r - days_in y m) else (m, r + 1))"
  by pat_completeness auto
termination
  by (relation "measure (\<lambda>(y, m, r). nat (12 - m))") auto

declare month_up.simps [simp del]

definition date_of_day :: "int \<Rightarrow> int \<times> int \<times> int" where
  "date_of_day n =
     (let y = year_up ((if 0 \<le> n then n div 366 else n div 365) + 1) n; (m, d) = month_up y 1 (n - days_before_year y)
      in (y, m, d))"

definition minute_number :: "wall \<Rightarrow> int" where
  "minute_number = (\<lambda>(y, m, d, h, mi). day_number y m d * 1440 + h * 60 + mi)"

definition wall_of_minute :: "int \<Rightarrow> wall" where
  "wall_of_minute k =
     (case date_of_day (k div 1440) of (y, m, d) \<Rightarrow> (y, m, d, k mod 1440 div 60, k mod 60))"

definition fixed_zone :: "int \<Rightarrow> zone" where
  "fixed_zone offset =
     \<lparr>zn_wall = (\<lambda>t. wall_of_minute ((t + offset) div nano_minute)),
      zn_date = (\<lambda>w. minute_number w * nano_minute - offset)\<rparr>"

lemma year_up_spec:
  "days_before_year y \<le> n \<Longrightarrow> days_before_year (year_up y n) \<le> n \<and> n < days_before_year (year_up y n + 1)"
proof (induction y n rule: year_up.induct)
  case (1 y n)
  then show ?case by (cases "days_before_year (y + 1) \<le> n") (simp_all add: year_up.simps [of y n])
qed

lemma year_start: "days_before_year ((if 0 \<le> n then n div 366 else n div 365) + 1) \<le> n"
proof (cases "0 \<le> n")
  case True
  define q where "q = n div 366"
  have q: "0 \<le> q" "366 * q \<le> n" using True by (auto simp: q_def)
  have "q div 4 \<le> q" "q div 400 \<le> q div 100" using q(1) zdiv_mono2 [of q 1 4] zdiv_mono2 [of q 100 400] by simp_all
  then have "365 * q + q div 4 - q div 100 + q div 400 \<le> 366 * q" by simp
  with q True show ?thesis by (simp add: days_before_year_def q_def [symmetric])
next
  case False
  define q where "q = n div 365"
  have q: "q < 0" "365 * q \<le> n" using False by (auto simp: q_def)
  have "q div 4 \<le> q div 100" "q div 400 \<le> 0" using q(1) zdiv_mono2_neg [of q 4 100] div_neg_pos_less0 [of q 400] by simp_all
  then have "365 * q + q div 4 - q div 100 + q div 400 \<le> 365 * q" by simp
  with q False show ?thesis by (simp add: days_before_year_def q_def [symmetric])
qed

lemma month_up_spec:
  assumes "1 \<le> m" "m \<le> 12" "0 \<le> r" "days_before_month y m + r < days_before_month y 13"
  shows "case month_up y m r of (m', d) \<Rightarrow> 1 \<le> m' \<and> m' \<le> 12 \<and> 1 \<le> d \<and> d \<le> days_in y m' \<and>
    days_before_month y m' + d - 1 = days_before_month y m + r"
  using assms
proof (induction y m r rule: month_up.induct)
  case (1 y m r)
  show ?case
  proof (cases "m < 12 \<and> days_in y m \<le> r")
    case True
    with 1 days_before_next_month [of m y] show ?thesis by (simp add: month_up.simps [of y m r] split: prod.splits)
  next
    case False
    have "r < days_in y m"
    proof (cases "m < 12")
      case m: False
      then have "m = 12" using 1 by simp
      with 1 days_before_next_month [of 12 y] show ?thesis by simp
    qed (use False in simp)
    with False 1 show ?thesis by (simp add: month_up.simps [of y m r])
  qed
qed

lemma date_of_day_spec: "case date_of_day n of (y, m, d) \<Rightarrow> valid_date y m d \<and> day_number y m d = n"
proof -
  define y where "y = year_up ((if 0 \<le> n then n div 366 else n div 365) + 1) n"
  from year_up_spec [OF year_start [of n]] have y: "days_before_year y \<le> n" "n < days_before_year (y + 1)" by (simp_all add: y_def)
  obtain m d where md: "month_up y 1 (n - days_before_year y) = (m, d)" by fastforce
  have "days_before_month y 1 + (n - days_before_year y) < days_before_month y 13"
    using y days_before_next_year [of y] days_of_year [of y] by simp
  with month_up_spec [of 1 "n - days_before_year y" y] y md
  have "1 \<le> m \<and> m \<le> 12 \<and> 1 \<le> d \<and> d \<le> days_in y m \<and> days_before_month y m + d - 1 = n - days_before_year y" by simp
  then show ?thesis by (simp add: date_of_day_def y_def [symmetric] md valid_date_def day_number_def)
qed

definition valid_wall :: "wall \<Rightarrow> bool" where
  "valid_wall = (\<lambda>(y, m, d, h, mi). valid_date y m d \<and> 0 \<le> h \<and> h \<le> 23 \<and> 0 \<le> mi \<and> mi \<le> 59)"

lemma minute_number_less:
  assumes "valid_wall v" and "valid_wall w" and "v < w"
  shows "minute_number v < minute_number w"
proof -
  obtain y m d h mi y' m' d' h' mi' where vw: "v = (y, m, d, h, mi)" "w = (y', m', d', h', mi')" by (metis prod_cases5)
  show ?thesis
  proof (cases "(y, m, d) < (y', m', d')")
    case True
    with assms(1,2) vw have "day_number y m d + 1 \<le> day_number y' m' d'" using day_number_less by (simp add: valid_wall_def) fastforce
    with assms(1,2) show ?thesis by (auto simp: vw valid_wall_def minute_number_def)
  next
    case False
    with assms(3) vw have "y = y'" "m = m'" "d = d'" "h < h' \<or> h = h' \<and> mi < mi'" by (auto simp: less_prod_def)
    with assms(1,2) show ?thesis by (auto simp: vw valid_wall_def minute_number_def)
  qed
qed

lemma minute_number_inject:
  "valid_wall v \<Longrightarrow> valid_wall w \<Longrightarrow> minute_number v = minute_number w \<Longrightarrow> v = w"
  using minute_number_less [of v w] minute_number_less [of w v] by (metis less_irrefl linorder_neqE)

lemma wall_of_minute_spec: "valid_wall (wall_of_minute k) \<and> minute_number (wall_of_minute k) = k"
proof -
  obtain y m d where d: "date_of_day (k div 1440) = (y, m, d)" by (metis prod_cases3)
  have "k mod 60 = k mod 1440 mod 60" by (simp add: mod_mod_cancel)
  then have "k div 1440 * 1440 + k mod 1440 div 60 * 60 + k mod 60 = k" by simp
  with date_of_day_spec [of "k div 1440"] d show ?thesis
    by (auto simp: wall_of_minute_def valid_wall_def minute_number_def)
qed

end
