(* ===== verification/Cron.thy ===== *)
theory Cron
  imports Diag Calendar
begin

text \<open>
  Five-field cron expressions (\<open>internal/schedule/cron.go\<close>): reading them, and the walk to the next minute that
  matches. An instant is a number of nanoseconds since Go's zero time; a time zone gives the wall clock of an
  instant and, as \<open>time.Date\<close>, the instant of a wall clock, and is a parameter. The calendar is the proleptic
  Gregorian one of the \<open>time\<close> package.
\<close>

subsection \<open>Reading an expression\<close>

record Cron =
  cr_Minute :: "int list"
  cr_Hour :: "int list"
  cr_Day :: "int list"
  cr_Month :: "int list"
  cr_Weekday :: "int list"
  cr_DayRestricted :: bool
  cr_WeekdayRestricted :: bool
  cr_Reboot :: bool
  cr_Expr :: string

definition shorthands :: "(string, string) gomap" where
  "shorthands = [(''@yearly'', ''0 0 1 1 *''), (''@annually'', ''0 0 1 1 *''), (''@monthly'', ''0 0 1 * *''),
     (''@weekly'', ''0 0 * * 0''), (''@daily'', ''0 0 * * *''), (''@midnight'', ''0 0 * * *''), (''@hourly'', ''0 * * * *'')]"

definition monthNames :: "(string, int) gomap" where
  "monthNames = zip [''jan'', ''feb'', ''mar'', ''apr'', ''may'', ''jun'', ''jul'', ''aug'', ''sep'', ''oct'', ''nov'', ''dec''] [1..12]"

definition weekdayNames :: "(string, int) gomap" where
  "weekdayNames = zip [''sun'', ''mon'', ''tue'', ''wed'', ''thu'', ''fri'', ''sat''] [0..6]"

text \<open>\<open>strings.ToLower\<close>, compared with ASCII words: besides the letters, only U+0130 (C4 B0) and U+212A (E2 84 AA)
  have an ASCII letter in lower case.\<close>

function to_lower :: "string \<Rightarrow> string" where
  "to_lower s =
     (if s = [] then []
      else if has_prefix s [CHR 0xC4, CHR 0xB0] then CHR ''i'' # to_lower (drop 2 s)
      else if has_prefix s [CHR 0xE2, CHR 0x84, CHR 0xAA] then CHR ''k'' # to_lower (drop 3 s)
      else lower_byte (hd s) # to_lower (tl s))"
  by pat_completeness auto
termination
  by (relation "measure length") (auto simp: neq_Nil_conv)

declare to_lower.simps [simp del]

text \<open>\<open>strings.Fields\<close>: the words between runs of spaces.\<close>

function words_aux :: "string \<Rightarrow> string \<Rightarrow> string list" where
  "words_aux acc s =
     (let emit = (if acc = [] then [] else [rev acc]) in
      if s = [] then emit
      else case find (\<lambda>r. r \<noteq> [] \<and> has_prefix s r) space_runes of
        Some r \<Rightarrow> emit @ words_aux [] (drop (length r) s)
      | None \<Rightarrow> words_aux (hd s # acc) (tl s))"
  by pat_completeness auto
termination
  by (relation "measure (\<lambda>(_, s). length s)") (use find_prefix_shorter in \<open>auto simp: neq_Nil_conv\<close>)

declare words_aux.simps [simp del]

definition str_fields :: "string \<Rightarrow> string list" where
  "str_fields s = words_aux [] s"

definition unsupported :: "(string \<times> string) list" where
  "unsupported = [(''lL'', ''`L` (last day)''), (''wW'', ''`W` (nearest weekday)''), (''#'', ''`#` (nth weekday)''),
     (''?'', ''`?` (no specific value)'')]"

text \<open>No rune but \<open>l\<close> and \<open>w\<close> themselves becomes \<open>L\<close> or \<open>W\<close> in upper case.\<close>

definition refuseUnsupported :: "string \<Rightarrow> string \<Rightarrow> fmt_arg option" where
  "refuseUnsupported field expr =
     map_option (\<lambda>(_, what). FErr ''%q uses %s, which this build's cron does not implement'' [FStr expr, FStr what])
       (find (\<lambda>(tokens, _). contains_any field tokens) unsupported)"

definition fieldValue :: "string \<Rightarrow> int \<Rightarrow> int \<Rightarrow> (string, int) gomap \<Rightarrow> fmt_arg + int" where
  "fieldValue s0 lo hi names =
     (let s = trim_space s0 in
      case gomap_get names (to_lower s) of
        Some v \<Rightarrow> Inr v
      | None \<Rightarrow>
          (case atoi s of
             None \<Rightarrow> Inl (FErr ''%q is not a value for this field'' [FStr s])
           | Some v \<Rightarrow>
               if v < lo \<or> v > hi then Inl (FErr ''%d is outside %d-%d'' [FInt v, FInt lo, FInt hi]) else Inr v))"

text \<open>\<open>for v := low; v <= high; v += step\<close> in 64 bits; 256 rounds are enough for every field.\<close>

function field_range :: "int \<Rightarrow> int \<Rightarrow> int \<Rightarrow> int \<Rightarrow> int list" where
  "field_range n v high step =
     (if 0 < n \<and> v \<le> high then v # field_range (n - 1) (wrap64 (v + step)) high step else [])"
  by pat_completeness auto
termination
  by (relation "measure (\<lambda>(n, _). nat n)") auto

declare field_range.simps [simp del]

definition rounds :: int where "rounds = 256"

definition field_bounds :: "string \<Rightarrow> int \<Rightarrow> int \<Rightarrow> int \<Rightarrow> (string, int) gomap \<Rightarrow> fmt_arg + int \<times> int" where
  "field_bounds part step lo hi names =
     (if part = ''*'' then Inr (lo, hi)
      else case index_byte part (CHR ''-'') of
        Some i \<Rightarrow>
          (case fieldValue (take i part) lo hi names of
             Inl e \<Rightarrow> Inl e
           | Inr low \<Rightarrow>
               (case fieldValue (drop (i + 1) part) lo hi names of
                  Inl e \<Rightarrow> Inl e
                | Inr high \<Rightarrow> if low > high then Inl (FErr ''%q counts backwards'' [FStr part]) else Inr (low, high)))
      | None \<Rightarrow>
          (case fieldValue part lo hi names of
             Inl e \<Rightarrow> Inl e
           | Inr v \<Rightarrow> Inr (v, if step > 1 then hi else v)))"

definition parse_part :: "string \<Rightarrow> int \<Rightarrow> int \<Rightarrow> (string, int) gomap \<Rightarrow> string \<Rightarrow> fmt_arg + int list" where
  "parse_part field lo hi names part0 =
     (let part1 = trim_space part0 in
      if part1 = [] then Inl (FErr ''an empty item in %q'' [FStr field])
      else
        case (case index_byte part1 (CHR ''/'') of
                None \<Rightarrow> Inr (1, part1)
              | Some i \<Rightarrow>
                  (case atoi (trim_space (drop (i + 1) part1)) of
                     None \<Rightarrow> Inl (FErr ''%q is not a step'' [FStr (drop (i + 1) part1)])
                   | Some n \<Rightarrow>
                       if n < 1 then Inl (FErr ''%q is not a step'' [FStr (drop (i + 1) part1)])
                       else Inr (n, trim_space (take i part1)))) of
          Inl e \<Rightarrow> Inl e
        | Inr (step, part) \<Rightarrow>
            (case field_bounds part step lo hi names of
               Inl e \<Rightarrow> Inl e
             | Inr (low, high) \<Rightarrow> Inr (field_range rounds low high step)))"

fun parse_parts :: "string \<Rightarrow> int \<Rightarrow> int \<Rightarrow> (string, int) gomap \<Rightarrow> string list \<Rightarrow> fmt_arg + int list" where
  "parse_parts field lo hi names [] = Inr []"
| "parse_parts field lo hi names (part # parts) =
     (case parse_part field lo hi names part of
        Inl e \<Rightarrow> Inl e
      | Inr vs \<Rightarrow> (case parse_parts field lo hi names parts of Inl e \<Rightarrow> Inl e | Inr ws \<Rightarrow> Inr (vs @ ws)))"

definition parseField :: "string \<Rightarrow> int \<Rightarrow> int \<Rightarrow> (string, int) gomap \<Rightarrow> fmt_arg + int list" where
  "parseField field lo hi names =
     (case parse_parts field lo hi names (str_split field '','') of
        Inl e \<Rightarrow> Inl e
      | Inr out \<Rightarrow> if length out = 0 then Inl (FErr ''%q matches nothing'' [FStr field]) else Inr out)"

definition named_field :: "string \<Rightarrow> string \<Rightarrow> string \<Rightarrow> int \<Rightarrow> int \<Rightarrow> (string, int) gomap \<Rightarrow> fmt_arg + int list" where
  "named_field expr label field lo hi names =
     (case parseField field lo hi names of
        Inl e \<Rightarrow> Inl (FErr (''%q: '' @ label @ '': %w'') [FStr expr, e])
      | Inr vs \<Rightarrow> Inr vs)"

definition parse_fields :: "string \<Rightarrow> string list \<Rightarrow> fmt_arg + Cron" where
  "parse_fields expr parts =
     (case named_field expr ''minute'' (parts ! 0) 0 59 [] of Inl e \<Rightarrow> Inl e | Inr minute \<Rightarrow>
     (case named_field expr ''hour'' (parts ! 1) 0 23 [] of Inl e \<Rightarrow> Inl e | Inr hour \<Rightarrow>
     (case named_field expr ''day of month'' (parts ! 2) 1 31 [] of Inl e \<Rightarrow> Inl e | Inr day \<Rightarrow>
     (case named_field expr ''month'' (parts ! 3) 1 12 monthNames of Inl e \<Rightarrow> Inl e | Inr month \<Rightarrow>
     (case named_field expr ''day of week'' (parts ! 4) 0 7 weekdayNames of Inl e \<Rightarrow> Inl e | Inr weekday \<Rightarrow>
        Inr \<lparr>cr_Minute = minute, cr_Hour = hour, cr_Day = day, cr_Month = month,
             cr_Weekday = (if 7 \<in> set weekday then 0 # removeAll 7 weekday else weekday),
             cr_DayRestricted = (trim_space (parts ! 2) \<noteq> ''*''), cr_WeekdayRestricted = (trim_space (parts ! 4) \<noteq> ''*''),
             cr_Reboot = False, cr_Expr = expr\<rparr>)))))"

definition ParseCron :: "string \<Rightarrow> fmt_arg + Cron" where
  "ParseCron expr =
     (let trimmed0 = trim_space expr in
      if trimmed0 = [] then Inl (FErr ''a cron expression is five fields'' [])
      else if equal_fold trimmed0 ''@reboot'' then
        Inr \<lparr>cr_Minute = [], cr_Hour = [], cr_Day = [], cr_Month = [], cr_Weekday = [], cr_DayRestricted = False,
             cr_WeekdayRestricted = False, cr_Reboot = True, cr_Expr = trimmed0\<rparr>
      else
        let trimmed = (case gomap_get shorthands (to_lower trimmed0) of Some x \<Rightarrow> x | None \<Rightarrow> trimmed0);
            parts = str_fields trimmed in
        if length parts = 6 then
          Inl (FErr (''%q has six fields; this build's cron has no seconds field, and a '' @
                     ''schedule finer than a minute is `seconds:` or `every:`'') [FStr expr])
        else if length parts \<noteq> 5 then
          Inl (FErr ''%q has %d fields; a cron expression has five'' [FStr expr, FInt (int (length parts))])
        else case find (\<lambda>f. refuseUnsupported f expr \<noteq> None) parts of
          Some f \<Rightarrow> Inl (the (refuseUnsupported f expr))
        | None \<Rightarrow> parse_fields expr parts)"

subsection \<open>Stepping the wall clock\<close>

definition nextMonth :: "int \<Rightarrow> int \<Rightarrow> int \<times> int \<times> int" where
  "nextMonth year month = (if month = 12 then (year + 1, 1, 1) else (year, month + 1, 1))"

text \<open>The day after, normalised as \<open>AddDate\<close> does.\<close>

function norm_date :: "int \<Rightarrow> int \<Rightarrow> int \<Rightarrow> int \<times> int \<times> int" where
  "norm_date y m d =
     (if d \<le> days_in y m then (y, m, d)
      else case nextMonth y m of (y1, m1, _) \<Rightarrow> norm_date y1 m1 (d - days_in y m))"
  by pat_completeness auto
termination
  by (relation "measure (\<lambda>(y, m, d). nat d)") (auto simp: days_in_def split: if_splits)

declare norm_date.simps [simp del]

definition nextDay :: "int \<Rightarrow> int \<Rightarrow> int \<Rightarrow> int \<times> int \<times> int" where
  "nextDay year month day = norm_date year month (day + 1)"

definition stepMinute :: "wall \<Rightarrow> wall" where
  "stepMinute = (\<lambda>(year, month, day, hour, minute).
     let (h1, m1) = (if minute + 1 > 59 then (hour + 1, 0) else (hour, minute + 1)) in
     if h1 > 23 then case nextDay year month day of (y, m, d) \<Rightarrow> (y, m, d, 0, m1)
     else (year, month, day, h1, m1))"

subsection \<open>The walk\<close>

definition matchesDay :: "Cron \<Rightarrow> int \<Rightarrow> int \<Rightarrow> bool" where
  "matchesDay c day weekday =
     (let dayOK = day \<in> set (cr_Day c); weekdayOK = weekday \<in> set (cr_Weekday c) in
      if cr_DayRestricted c \<and> cr_WeekdayRestricted c then dayOK \<or> weekdayOK else dayOK \<and> weekdayOK)"

fun transition_from :: "zone \<Rightarrow> int \<Rightarrow> int \<Rightarrow> int \<Rightarrow> nat \<Rightarrow> int option" where
  "transition_from z day want cand 0 = None"
| "transition_from z day want cand (Suc n) =
     (case zn_wall z cand of (_, _, d, h, mi) \<Rightarrow>
        if d \<noteq> day then None
        else if h * 60 + mi > want then Some cand
        else transition_from z day want (cand + nano_minute) n)"

definition transitionAfter :: "zone \<Rightarrow> wall \<Rightarrow> int option" where
  "transitionAfter z = (\<lambda>(year, month, day, hour, minute).
     transition_from z day (hour * 60 + minute) (zn_date z (year, month, day, 0, 0)) 1441)"

text \<open>One round of the loop: the answer, or where to go on.\<close>

definition at_midnight :: "int \<times> int \<times> int \<Rightarrow> wall" where
  "at_midnight = (\<lambda>(y, m, d). (y, m, d, 0, 0))"

definition cron_fire :: "zone \<Rightarrow> int \<Rightarrow> wall \<Rightarrow> int + wall" where
  "cron_fire z after = (\<lambda>(year, month, day, hour, minute).
     let w = (year, month, day, hour, minute); fire = zn_date z w in
     case zn_wall z fire of (_, _, _, h, mi) \<Rightarrow>
       if h \<noteq> hour \<or> mi \<noteq> minute then
         (case transitionAfter z w of
            Some t \<Rightarrow> if t > after then Inl t else Inr (stepMinute w)
          | None \<Rightarrow> Inr (stepMinute w))
       else if \<not> fire > after then Inr (stepMinute w)
       else Inl fire)"

definition cron_round :: "Cron \<Rightarrow> zone \<Rightarrow> int \<Rightarrow> wall \<Rightarrow> int + wall" where
  "cron_round c z after = (\<lambda>(year, month, day, hour, minute).
     if month \<notin> set (cr_Month c) then Inr (at_midnight (nextMonth year month))
     else
       let probe = zn_date z (year, month, day, 0, 0) in
       case zn_wall z probe of (py, pm, pd, _, _) \<Rightarrow>
         if pd \<noteq> day \<or> pm \<noteq> month then Inr (at_midnight (nextMonth year month))
         else if \<not> matchesDay c day (weekday_of (day_number py pm pd)) then Inr (at_midnight (nextDay year month day))
         else if hour \<notin> set (cr_Hour c) then
           (if hour + 1 > 23 then Inr (at_midnight (nextDay year month day)) else Inr (year, month, day, hour + 1, 0))
         else if minute \<notin> set (cr_Minute c) then
           (if minute + 1 > 59 then
              (if hour + 1 > 23 then Inr (at_midnight (nextDay year month day)) else Inr (year, month, day, hour + 1, 0))
            else Inr (year, month, day, hour, minute + 1))
         else cron_fire z after (year, month, day, hour, minute))"

definition cron_limit :: int where "cron_limit = 5 * 366 * 24 * 60"

function cron_walk :: "Cron \<Rightarrow> zone \<Rightarrow> int \<Rightarrow> int \<Rightarrow> wall \<Rightarrow> int option" where
  "cron_walk c z after i w =
     (if \<not> i < cron_limit then None
      else case cron_round c z after w of
        Inl t \<Rightarrow> Some t
      | Inr w1 \<Rightarrow> cron_walk c z after (i + 1) w1)"
  by pat_completeness auto
termination
  by (relation "measure (\<lambda>(c, z, after, i, w). nat (cron_limit - i))") auto

declare cron_walk.simps [simp del]

definition Cron_Next :: "Cron \<Rightarrow> zone \<Rightarrow> int \<Rightarrow> int option" where
  "Cron_Next c z after =
     (if cr_Reboot c then None
      else cron_walk c z after 0 (zn_wall z (after - after mod nano_minute + nano_minute)))"

end
