(* ===== verification/Crons.thy ===== *)
theory Crons
  imports Cron
begin

text \<open>
  What the walk of a cron expression finds. The specification is the set of wall clocks an expression matches;
  in a zone whose offset does not change the walk returns the first of them after the given instant, and it
  gives up only on an expression that matches no wall clock at all.
\<close>

subsection \<open>The wall clocks an expression matches\<close>

definition date_matches :: "Cron \<Rightarrow> int \<times> int \<times> int \<Rightarrow> bool" where
  "date_matches c = (\<lambda>(y, m, d). m \<in> set (cr_Month c) \<and> matchesDay c d (weekday_of (day_number y m d)))"

definition cron_matches :: "Cron \<Rightarrow> wall \<Rightarrow> bool" where
  "cron_matches c = (\<lambda>(y, m, d, h, mi). date_matches c (y, m, d) \<and> h \<in> set (cr_Hour c) \<and> mi \<in> set (cr_Minute c))"

definition wall_day :: "wall \<Rightarrow> int" where
  "wall_day = (\<lambda>(y, m, d, h, mi). day_number y m d)"

definition day_minute :: "wall \<Rightarrow> int" where
  "day_minute = (\<lambda>(y, m, d, h, mi). h * 60 + mi)"

lemma minute_number_split: "minute_number w = wall_day w * 1440 + day_minute w"
  by (simp add: minute_number_def wall_day_def day_minute_def split: prod.splits)

lemma minute_number_tuple: "minute_number (y, m, d, h, mi) = day_number y m d * 1440 + h * 60 + mi"
  by (simp add: minute_number_def)

lemma day_minute_bounds: "valid_wall w \<Longrightarrow> 0 \<le> day_minute w \<and> day_minute w < 1440"
  by (auto simp: valid_wall_def day_minute_def)

lemma wall_day_div: "valid_wall w \<Longrightarrow> minute_number w div 1440 = wall_day w"
  using day_minute_bounds [of w] by (simp add: minute_number_split)

lemma wall_day_mono: "valid_wall w \<Longrightarrow> valid_wall v \<Longrightarrow> minute_number w \<le> minute_number v \<Longrightarrow> wall_day w \<le> wall_day v"
  using zdiv_mono1 [of "minute_number w" "minute_number v" 1440] by (simp add: wall_day_div)

lemma wall_day_before: "valid_wall v \<Longrightarrow> minute_number v < n * 1440 \<Longrightarrow> wall_day v < n"
  using day_minute_bounds [of v] by (simp add: minute_number_split)

lemma day_number_inject:
  assumes "valid_date y m d" "valid_date y' m' d'" "day_number y m d = day_number y' m' d'"
  shows "(y, m, d) = (y', m', d')"
  using day_number_less [OF assms(1,2)] day_number_less [OF assms(2,1)] assms(3) by (metis less_irrefl linorder_neqE)

lemma date_of_day_number: "valid_date y m d \<Longrightarrow> date_of_day (day_number y m d) = (y, m, d)"
  using date_of_day_spec [of "day_number y m d"] day_number_inject [of _ _ _ y m d] by (auto split: prod.splits)

definition day_matches :: "Cron \<Rightarrow> int \<Rightarrow> bool" where
  "day_matches c n \<longleftrightarrow> date_matches c (date_of_day n)"

lemma cron_matches_day: "valid_wall w \<Longrightarrow> cron_matches c w \<Longrightarrow> day_matches c (wall_day w)"
  by (auto simp: cron_matches_def day_matches_def wall_day_def valid_wall_def date_of_day_number)

subsection \<open>Steps of the wall clock\<close>

lemma nextMonth_spec:
  assumes "valid_date y m d" and "nextMonth y m = (y', m', d')"
  shows "valid_date y' m' d'" and "day_number y m d < day_number y' m' d'"
    and "valid_date y1 m1 d1 \<Longrightarrow> day_number y m d \<le> day_number y1 m1 d1 \<Longrightarrow> day_number y1 m1 d1 < day_number y' m' d' \<Longrightarrow> m1 = m"
proof -
  show v: "valid_date y' m' d'" using assms days_in_pos(1) [of y' m'] by (auto simp: valid_date_def nextMonth_def split: if_splits)
  have "(y, m, d) < (y', m', d')" using assms by (auto simp: nextMonth_def valid_date_def less_prod_def split: if_splits)
  then show "day_number y m d < day_number y' m' d'" by (rule day_number_less [OF assms(1) v])
  assume v1: "valid_date y1 m1 d1" and le: "day_number y m d \<le> day_number y1 m1 d1" and less: "day_number y1 m1 d1 < day_number y' m' d'"
  have "\<not> (y1, m1, d1) < (y, m, d)" using day_number_less [OF v1 assms(1)] le by fastforce
  moreover have "\<not> (y', m', d') < (y1, m1, d1)" using day_number_less [OF v v1] less by fastforce
  moreover have "(y1, m1, d1) \<noteq> (y', m', d')" using less by auto
  ultimately show "m1 = m" using assms v1 by (auto simp: nextMonth_def valid_date_def less_prod_def split: if_splits)
qed

lemma nextDay_spec:
  assumes "valid_date y m d" and "nextDay y m d = (y', m', d')"
  shows "valid_date y' m' d' \<and> day_number y' m' d' = day_number y m d + 1"
proof (cases "d + 1 \<le> days_in y m")
  case True
  with assms show ?thesis by (auto simp: nextDay_def norm_date.simps [of y m] valid_date_def day_number_def)
next
  case False
  then have d: "d = days_in y m" using assms(1) by (simp add: valid_date_def)
  obtain y1 m1 d1 where n: "nextMonth y m = (y1, m1, d1)" by (metis prod_cases3)
  have "1 \<le> days_in y1 m1" using days_in_pos(1) [of y1 m1] by simp
  with assms(2) False n d have eq: "y' = y1" "m' = m1" "d' = 1" by (auto simp: nextDay_def norm_date.simps [of y m] norm_date.simps [of y1 m1])
  have "days_before_year y' + days_before_month y' m' = days_before_year y + days_before_month y m + days_in y m"
  proof (cases "m = 12")
    case True
    with n eq show ?thesis using days_before_next_year [of y] days_of_year [of y] days_before_next_month [of 12 y]
      by (simp add: nextMonth_def)
  next
    case False
    with n eq assms(1) show ?thesis using days_before_next_month [of m y] by (simp add: nextMonth_def valid_date_def)
  qed
  with eq d assms(1) days_in_pos(1) [of y1 m1] n show ?thesis
    by (auto simp: valid_date_def day_number_def nextMonth_def split: if_splits)
qed

lemma at_midnight_spec:
  "valid_date y m d \<Longrightarrow> valid_wall (at_midnight (y, m, d)) \<and> wall_day (at_midnight (y, m, d)) = day_number y m d \<and> day_minute (at_midnight (y, m, d)) = 0"
  by (simp add: at_midnight_def valid_wall_def wall_day_def day_minute_def)

lemma midnight_after:
  assumes "valid_date y m d"
  shows "valid_wall (at_midnight (nextDay y m d)) \<and> wall_day (at_midnight (nextDay y m d)) = day_number y m d + 1 \<and>
    day_minute (at_midnight (nextDay y m d)) = 0"
  using nextDay_spec [OF assms] at_midnight_spec by (metis prod_cases3)

lemma stepMinute_spec:
  assumes "valid_wall w"
  shows "valid_wall (stepMinute w) \<and> minute_number (stepMinute w) = minute_number w + 1"
proof -
  obtain y m d h mi where w: "w = (y, m, d, h, mi)" by (metis prod_cases5)
  show ?thesis
  proof (cases "h = 23 \<and> mi = 59")
    case True
    obtain y' m' d' where n: "nextDay y m d = (y', m', d')" by (metis prod_cases3)
    with True w assms nextDay_spec [OF _ n] show ?thesis
      by (auto simp: stepMinute_def valid_wall_def minute_number_def)
  next
    case False
    with assms w show ?thesis by (auto simp: stepMinute_def valid_wall_def minute_number_def)
  qed
qed

text \<open>A round passes over no match that is still to come, and stays in a day only when the day matches.\<close>

definition passes :: "zone \<Rightarrow> Cron \<Rightarrow> int \<Rightarrow> wall \<Rightarrow> wall \<Rightarrow> bool" where
  "passes z c after w w1 \<longleftrightarrow> valid_wall w1 \<and> minute_number w < minute_number w1 \<and>
     (wall_day w1 = wall_day w \<longrightarrow> day_matches c (wall_day w)) \<and>
     (\<forall>v. valid_wall v \<and> cron_matches c v \<and> minute_number w \<le> minute_number v \<and> minute_number v < minute_number w1 \<longrightarrow>
        zn_date z v \<le> after)"

definition first_match :: "zone \<Rightarrow> Cron \<Rightarrow> int \<Rightarrow> int \<Rightarrow> bool" where
  "first_match z c after t \<longleftrightarrow> after < t \<and> (\<exists>v. valid_wall v \<and> cron_matches c v \<and> zn_date z v = t) \<and>
     (\<forall>v. valid_wall v \<and> cron_matches c v \<and> after < zn_date z v \<longrightarrow> t \<le> zn_date z v)"

definition ahead :: "zone \<Rightarrow> Cron \<Rightarrow> int \<Rightarrow> wall \<Rightarrow> bool" where
  "ahead z c after w \<longleftrightarrow> (\<forall>v. valid_wall v \<and> cron_matches c v \<and> after < zn_date z v \<longrightarrow> minute_number w \<le> minute_number v)"

lemma ahead_step: "ahead z c after w \<Longrightarrow> passes z c after w w1 \<Longrightarrow> ahead z c after w1"
  unfolding ahead_def passes_def by (meson leD leI)

text \<open>How far the walk has come: a day that matches may cost a round a minute, any other day costs one at most.\<close>

definition day_cost :: "Cron \<Rightarrow> int \<Rightarrow> int" where
  "day_cost c n = (if day_matches c n then 1440 else 1)"

definition walked :: "Cron \<Rightarrow> int \<Rightarrow> wall \<Rightarrow> int" where
  "walked c n w = (\<Sum>k\<in>{n..<wall_day w}. day_cost c k) + (if day_matches c (wall_day w) then day_minute w else 0)"

lemma day_cost_pos: "0 < day_cost c n"
  by (simp add: day_cost_def)

lemma walked_in_day: "valid_wall w \<Longrightarrow> (if day_matches c (wall_day w) then day_minute w else 0) < day_cost c (wall_day w)"
  using day_minute_bounds [of w] by (simp add: day_cost_def)

lemma sum_cost_split: "n \<le> a \<Longrightarrow> a < b \<Longrightarrow> (\<Sum>k\<in>{n..<a}. day_cost c k) + day_cost c a \<le> (\<Sum>k\<in>{n..<b}. day_cost c k)"
proof -
  assume le: "n \<le> a" "a < b"
  have "(\<Sum>k\<in>insert a {n..<a}. day_cost c k) \<le> (\<Sum>k\<in>{n..<b}. day_cost c k)"
    by (rule sum_mono2) (use le day_cost_pos [of c] in \<open>auto intro: less_imp_le\<close>)
  then show ?thesis by simp
qed

lemma walked_later_day:
  assumes "valid_wall w" "valid_wall w1" "n \<le> wall_day w" "wall_day w < wall_day w1"
  shows "walked c n w + 1 \<le> walked c n w1"
  using sum_cost_split [OF assms(3,4), of c] walked_in_day [OF assms(1), of c] day_minute_bounds [OF assms(2)]
  by (auto simp: walked_def)

lemma walked_step:
  assumes "valid_wall w" "n \<le> wall_day w" "passes z c after w w1"
  shows "walked c n w + 1 \<le> walked c n w1"
proof (cases "wall_day w = wall_day w1")
  case True
  with assms(3) show ?thesis by (simp add: passes_def walked_def minute_number_split)
next
  case False
  with assms have "wall_day w < wall_day w1" using wall_day_mono [of w w1] by (auto simp: passes_def)
  with assms show ?thesis by (intro walked_later_day) (auto simp: passes_def)
qed

subsection \<open>Four centuries\<close>

text \<open>The calendar repeats after 400 years, a whole number of weeks.\<close>

lemma leap_400: "leap (y + 400 * k) = leap y"
proof -
  have "(y + 400 * k) mod 4 = y mod 4" "(y + 400 * k) mod 100 = y mod 100" "(y + 400 * k) mod 400 = y mod 400"
    using mod_mult_self2 [of y 4 "100 * k"] mod_mult_self2 [of y 100 "4 * k"] by simp_all
  then show ?thesis by (simp add: leap_def)
qed

lemma days_in_400: "days_in (y + 400 * k) = days_in y"
  by (rule ext) (simp add: days_in_def leap_400)

lemma day_number_400: "day_number (y + 400 * k) m d = day_number y m d + 146097 * k"
proof -
  have "(y + 400 * k - 1) div 4 = (y - 1) div 4 + 100 * k" "(y + 400 * k - 1) div 100 = (y - 1) div 100 + 4 * k"
    "(y + 400 * k - 1) div 400 = (y - 1) div 400 + k"
    using div_mult_self2 [of 4 "y - 1" "100 * k"] div_mult_self2 [of 100 "y - 1" "4 * k"] div_mult_self2 [of 400 "y - 1" k]
    by (simp_all add: algebra_simps)
  then show ?thesis by (simp add: day_number_def days_before_year_def days_before_month_def days_in_400)
qed

lemma weekday_400: "weekday_of (n + 146097 * k) = weekday_of n"
  using mod_mult_self2 [of "n + 1" 7 "20871 * k"] by (simp add: weekday_of_def algebra_simps)

definition years_400 :: "int \<Rightarrow> wall \<Rightarrow> wall" where
  "years_400 k = (\<lambda>(y, m, d, h, mi). (y + 400 * k, m, d, h, mi))"

lemma years_400_spec:
  "valid_wall (years_400 k w) = valid_wall w" "cron_matches c (years_400 k w) = cron_matches c w"
  "wall_day (years_400 k w) = wall_day w + 146097 * k"
  by (auto simp: years_400_def valid_wall_def valid_date_def days_in_400 cron_matches_def date_matches_def day_number_400 weekday_400 wall_day_def
      split: prod.splits)

text \<open>So an expression that matches at all matches a day of the next four centuries.\<close>

lemma match_within_400_years:
  assumes "valid_wall w" and "cron_matches c w"
  obtains k where "day_matches c (n + 1 + int k)" and "k < 146097"
proof -
  define q where "q = - ((wall_day w - (n + 1)) div 146097)"
  have "wall_day w + 146097 * q = n + 1 + (wall_day w - (n + 1)) mod 146097" by (simp add: q_def minus_mult_div_eq_mod [symmetric])
  moreover have "day_matches c (wall_day w + 146097 * q)"
    using cron_matches_day [of "years_400 q w" c] assms by (simp add: years_400_spec)
  ultimately have "day_matches c (n + 1 + int (nat ((wall_day w - (n + 1)) mod 146097)))" by simp
  moreover have "nat ((wall_day w - (n + 1)) mod 146097) < 146097" by (simp add: nat_less_iff)
  ultimately show ?thesis by (rule that)
qed

text \<open>An expression has a time of day when its hour and minute fields hold one.\<close>

definition has_time :: "Cron \<Rightarrow> bool" where
  "has_time c \<longleftrightarrow> (\<exists>h \<in> set (cr_Hour c). 0 \<le> h \<and> h \<le> 23) \<and> (\<exists>mi \<in> set (cr_Minute c). 0 \<le> mi \<and> mi \<le> 59)"

lemma day_matches_wall:
  assumes "has_time c" and "day_matches c n"
  obtains w where "valid_wall w" "cron_matches c w" "wall_day w = n"
proof -
  obtain y m d where d: "date_of_day n = (y, m, d)" by (metis prod_cases3)
  obtain h mi where "h \<in> set (cr_Hour c)" "0 \<le> h" "h \<le> 23" "mi \<in> set (cr_Minute c)" "0 \<le> mi" "mi \<le> 59"
    using assms(1) by (auto simp: has_time_def)
  then have "valid_wall (y, m, d, h, mi)" "cron_matches c (y, m, d, h, mi)" "wall_day (y, m, d, h, mi) = n"
    using assms(2) date_of_day_spec [of n] by (simp_all add: d day_matches_def valid_wall_def cron_matches_def wall_day_def)
  then show ?thesis by (rule that)
qed

text \<open>The walk from a day to the first later day that matches takes few rounds.\<close>

lemma walked_to_first:
  assumes "valid_wall w" "wall_day w = n + 1 + int k" "\<And>j. j < k \<Longrightarrow> \<not> day_matches c (n + 1 + int j)"
  shows "walked c n w \<le> 2880 + int k"
proof -
  have "{n..<wall_day w} = insert n {n + 1..<n + 1 + int k}" using assms(2) by auto
  then have "(\<Sum>i\<in>{n..<wall_day w}. day_cost c i) = day_cost c n + (\<Sum>i\<in>{n + 1..<n + 1 + int k}. day_cost c i)" by simp
  moreover have "(\<Sum>i\<in>{n + 1..<n + 1 + int k}. day_cost c i) = (\<Sum>i\<in>{n + 1..<n + 1 + int k}. 1)"
  proof (rule sum.cong [OF refl])
    fix i assume i: "i \<in> {n + 1..<n + 1 + int k}"
    have "\<not> day_matches c (n + 1 + int (nat (i - n - 1)))" by (rule assms(3)) (use i in auto)
    with i show "day_cost c i = 1" by (simp add: day_cost_def)
  qed
  moreover have "day_cost c n \<le> 1440" by (simp add: day_cost_def)
  ultimately show ?thesis using day_minute_bounds [OF assms(1)] by (simp add: walked_def)
qed

lemma walked_mono:
  assumes "valid_wall v" "valid_wall w" "n \<le> wall_day v" "minute_number v \<le> minute_number w"
  shows "walked c n v \<le> walked c n w"
proof (cases "wall_day v = wall_day w")
  case True
  with assms(4) show ?thesis by (simp add: walked_def minute_number_split)
next
  case False
  with walked_later_day [OF assms(1,2,3), of c] wall_day_mono [OF assms(1,2,4)] show ?thesis by simp
qed

lemma walked_nonneg: "valid_wall w \<Longrightarrow> 0 \<le> walked c n w"
  using day_minute_bounds [of w] day_cost_pos [of c] by (simp add: walked_def sum_nonneg less_imp_le)

subsection \<open>Zones whose offset does not change\<close>

locale steady_zone =
  fixes z :: zone
  assumes wall_valid: "valid_wall (zn_wall z t)"
    and wall_of_date: "valid_wall v \<Longrightarrow> zn_wall z (zn_date z v) = v"
    and date_of_wall: "zn_date z (zn_wall z t) \<le> t"
    and wall_within: "t < zn_date z (zn_wall z t) + nano_minute"
    and date_minutes: "zn_date z v - zn_date z w = (minute_number v - minute_number w) * nano_minute"
begin

lemma date_mono: "zn_date z v \<le> zn_date z w \<longleftrightarrow> minute_number v \<le> minute_number w"
  using date_minutes [of v w] by (auto simp: nano_minute_def)

lemma passes_next_day:
  assumes "valid_wall w" "w = (y, m, d, h, mi)" "\<And>v. valid_wall v \<Longrightarrow> wall_day v = wall_day w \<Longrightarrow> minute_number w \<le> minute_number v \<Longrightarrow> \<not> cron_matches c v"
  shows "passes z c after w (at_midnight (nextDay y m d))"
proof -
  have vd: "valid_date y m d" and dn: "wall_day w = day_number y m d" using assms(1,2) by (auto simp: valid_wall_def wall_day_def)
  note n = midnight_after [OF vd]
  have mn: "minute_number (at_midnight (nextDay y m d)) = (wall_day w + 1) * 1440" using n dn by (simp add: minute_number_split)
  have "wall_day v = wall_day w" if "valid_wall v" "minute_number w \<le> minute_number v" "minute_number v < minute_number (at_midnight (nextDay y m d))" for v
    using wall_day_mono [OF assms(1) that(1,2)] wall_day_before [OF that(1), of "wall_day w + 1"] that(3) mn by simp
  with assms(3) have "\<forall>v. valid_wall v \<and> cron_matches c v \<and> minute_number w \<le> minute_number v \<and>
    minute_number v < minute_number (at_midnight (nextDay y m d)) \<longrightarrow> zn_date z v \<le> after" by blast
  moreover have "minute_number w < minute_number (at_midnight (nextDay y m d))"
    using mn day_minute_bounds [OF assms(1)] by (simp add: minute_number_split)
  ultimately show ?thesis using n dn by (simp add: passes_def)
qed

lemma passes_minute:
  assumes "valid_wall w" "valid_wall w1" "minute_number w1 = minute_number w + 1" "day_matches c (wall_day w)"
    "\<not> cron_matches c w \<or> zn_date z w \<le> after"
  shows "passes z c after w w1"
proof -
  have "v = w" if "valid_wall v" "minute_number w \<le> minute_number v" "minute_number v < minute_number w1" for v
    using that assms by (intro minute_number_inject) auto
  with assms show ?thesis by (auto simp: passes_def)
qed

lemma passes_hour:
  assumes "valid_wall w" "w = (y, m, d, h, mi)" "day_matches c (wall_day w)" "h \<notin> set (cr_Hour c)" "h + 1 \<le> 23"
  shows "passes z c after w (y, m, d, h + 1, 0)"
proof -
  have "\<not> cron_matches c v" if v: "valid_wall v" "minute_number w \<le> minute_number v" "minute_number v < minute_number (y, m, d, h + 1, 0)" for v
  proof -
    obtain y1 m1 d1 h1 mi1 where v1: "v = (y1, m1, d1, h1, mi1)" by (metis prod_cases5)
    have b: "h1 * 60 + mi1 < 1440" "0 \<le> h1 * 60 + mi1" "h * 60 + mi < 1440" "0 \<le> h * 60 + mi"
      using day_minute_bounds [OF v(1)] day_minute_bounds [OF assms(1)] by (simp_all add: v1 assms(2) day_minute_def)
    then have "day_number y1 m1 d1 = day_number y m d" using v(2,3) assms(5) by (simp add: v1 assms(2) minute_number_def)
    then have "h1 = h" using v assms(1) by (simp add: v1 assms(2) minute_number_def valid_wall_def)
    with assms(4) show ?thesis by (simp add: cron_matches_def v1)
  qed
  with assms show ?thesis by (auto simp: passes_def valid_wall_def minute_number_def wall_day_def)
qed

lemma passes_month:
  assumes "valid_wall w" "w = (y, m, d, h, mi)" "m \<notin> set (cr_Month c)"
  shows "passes z c after w (at_midnight (nextMonth y m))"
proof -
  obtain y' m' d' where n: "nextMonth y m = (y', m', d')" by (metis prod_cases3)
  have vd: "valid_date y m d" using assms(1,2) by (simp add: valid_wall_def)
  note spec = nextMonth_spec [OF vd n]
  note mid = at_midnight_spec [OF spec(1)]
  have bw: "0 \<le> day_minute w" "day_minute w < 1440" using day_minute_bounds [OF assms(1)] by simp_all
  have dw: "wall_day w = day_number y m d" by (simp add: assms(2) wall_day_def)
  have "\<not> cron_matches c v" if v: "valid_wall v" "minute_number w \<le> minute_number v" "minute_number v < minute_number (at_midnight (nextMonth y m))" for v
  proof -
    obtain y1 m1 d1 h1 mi1 where v1: "v = (y1, m1, d1, h1, mi1)" by (metis prod_cases5)
    have "minute_number v < day_number y' m' d' * 1440" using v(3) mid n by (simp add: minute_number_split)
    then have "day_number y m d \<le> day_number y1 m1 d1" "day_number y1 m1 d1 < day_number y' m' d'"
      using wall_day_mono [OF assms(1) v(1,2)] wall_day_before [OF v(1)] dw by (simp_all add: v1 wall_day_def)
    then have "m1 = m" using spec(3) [of y1 m1 d1] v(1) by (simp add: v1 valid_wall_def)
    with assms(3) show ?thesis by (simp add: v1 cron_matches_def date_matches_def)
  qed
  with mid spec(2) n dw bw show ?thesis by (auto simp: passes_def minute_number_split)
qed

lemma passes_next_date:
  assumes "valid_wall w" "w = (y, m, d, h, mi)"
    and "\<And>h1 mi1. valid_wall (y, m, d, h1, mi1) \<Longrightarrow> minute_number w \<le> minute_number (y, m, d, h1, mi1) \<Longrightarrow> \<not> cron_matches c (y, m, d, h1, mi1)"
  shows "passes z c after w (at_midnight (nextDay y m d))"
proof (rule passes_next_day [OF assms(1,2)])
  fix v assume v: "valid_wall v" "wall_day v = wall_day w" "minute_number w \<le> minute_number v"
  obtain y1 m1 d1 h1 mi1 where v1: "v = (y1, m1, d1, h1, mi1)" by (metis prod_cases5)
  have "(y1, m1, d1) = (y, m, d)"
    by (rule day_number_inject) (use v assms(1) in \<open>auto simp: v1 assms(2) valid_wall_def wall_day_def\<close>)
  then show "\<not> cron_matches c v" using assms(3) [of h1 mi1] v v1 by simp
qed

lemma hour_round:
  assumes "valid_wall w" "w = (y, m, d, h, mi)" "day_matches c (wall_day w)" "h \<notin> set (cr_Hour c)"
  shows "passes z c after w (if h + 1 > 23 then at_midnight (nextDay y m d) else (y, m, d, h + 1, 0))"
proof (cases "h + 1 > 23")
  case True
  have "passes z c after w (at_midnight (nextDay y m d))"
  proof (rule passes_next_date [OF assms(1,2)])
    fix h1 mi1 assume v: "valid_wall (y, m, d, h1, mi1)" "minute_number w \<le> minute_number (y, m, d, h1, mi1)"
    then have "h1 = h" using assms(1) True by (simp add: assms(2) valid_wall_def minute_number_def)
    with assms(4) show "\<not> cron_matches c (y, m, d, h1, mi1)" by (simp add: cron_matches_def)
  qed
  with True show ?thesis by simp
next
  case False
  with passes_hour [OF assms] show ?thesis by simp
qed

lemma minute_round:
  assumes "valid_wall w" "w = (y, m, d, h, mi)" "day_matches c (wall_day w)" "mi \<notin> set (cr_Minute c)"
  shows "passes z c after w
    (if mi + 1 > 59 then if h + 1 > 23 then at_midnight (nextDay y m d) else (y, m, d, h + 1, 0) else (y, m, d, h, mi + 1))"
    (is "passes z c after w ?w1")
proof (rule passes_minute [OF assms(1) _ _ assms(3)])
  have vd: "valid_date y m d" using assms(1,2) by (simp add: valid_wall_def)
  have b: "0 \<le> h" "h \<le> 23" "0 \<le> mi" "mi \<le> 59" using assms(1,2) by (simp_all add: valid_wall_def)
  note mid = midnight_after [OF vd]
  have eq: "minute_number (at_midnight (nextDay y m d)) = (day_number y m d + 1) * 1440" using mid by (simp add: minute_number_split)
  show "valid_wall ?w1" using mid vd b by (simp add: valid_wall_def)
  show "minute_number ?w1 = minute_number w + 1"
    using eq b unfolding assms(2) by (simp add: minute_number_tuple)
  show "\<not> cron_matches c w \<or> zn_date z w \<le> after" using assms(4) by (simp add: cron_matches_def assms(2))
qed

lemma round_spec:
  assumes "valid_wall w"
  shows "case cron_round c z after w of
      Inl t \<Rightarrow> cron_matches c w \<and> t = zn_date z w \<and> after < t
    | Inr w1 \<Rightarrow> passes z c after w w1"
proof -
  obtain y m d h mi where w: "w = (y, m, d, h, mi)" by (metis prod_cases5)
  have vd: "valid_date y m d" using assms by (simp add: w valid_wall_def)
  have probe: "zn_wall z (zn_date z (y, m, d, 0, 0)) = (y, m, d, 0, 0)"
    by (rule wall_of_date) (use vd in \<open>simp add: valid_wall_def\<close>)
  let ?day = "date_matches c (y, m, d)"
  have dm: "day_matches c (wall_day w) = ?day" by (simp add: day_matches_def w wall_day_def date_of_day_number [OF vd])
  note round = cron_round_def w probe date_matches_def
  consider (month) "m \<notin> set (cr_Month c)" | (day) "m \<in> set (cr_Month c)" "\<not> ?day" | (hour) "?day" "h \<notin> set (cr_Hour c)"
    | (minute) "?day" "h \<in> set (cr_Hour c)" "mi \<notin> set (cr_Minute c)" | (fire) "?day" "h \<in> set (cr_Hour c)" "mi \<in> set (cr_Minute c)"
    by blast
  then show ?thesis
  proof cases
    case month
    then show ?thesis using passes_month [OF assms w month] by (simp add: round)
  next
    case day
    moreover have "passes z c after w (at_midnight (nextDay y m d))"
      by (rule passes_next_date [OF assms w]) (use day in \<open>simp add: cron_matches_def\<close>)
    ultimately show ?thesis by (simp add: round)
  next
    case hour
    then show ?thesis using hour_round [OF assms w _ hour(2), of after] dm by (simp add: round split: if_splits)
  next
    case minute
    then show ?thesis using minute_round [OF assms w _ minute(3), of after] dm by (simp add: round split: if_splits)
  next
    case fire
    have "cron_matches c w" using fire by (simp add: cron_matches_def w)
    moreover have "passes z c after w (stepMinute w)" if "\<not> zn_date z w > after"
      by (rule passes_minute [OF assms]) (use that stepMinute_spec [OF assms] fire dm in auto)
    ultimately show ?thesis using fire wall_of_date [OF assms] by (cases "zn_date z w > after") (simp_all add: cron_fire_def round Let_def)
  qed
qed

text \<open>The walk returns the first match still to come, or has made all its rounds without passing over one.\<close>

lemma walk_spec:
  assumes "valid_wall w" and "n \<le> wall_day w" and "ahead z c after w"
  shows "case cron_walk c z after i w of
      Some t \<Rightarrow> first_match z c after t
    | None \<Rightarrow> \<exists>w1. valid_wall w1 \<and> walked c n w + (cron_limit - i) \<le> walked c n w1 \<and> n \<le> wall_day w1 \<and> ahead z c after w1"
  using assms
proof (induction "nat (cron_limit - i)" arbitrary: i w rule: less_induct)
  case (less i w)
  note walk = cron_walk.simps [of c z after i w]
  show ?case
  proof (cases "i < cron_limit")
    case False
    with less.prems have "valid_wall w \<and> walked c n w + (cron_limit - i) \<le> walked c n w \<and> n \<le> wall_day w \<and> ahead z c after w" by simp
    with False show ?thesis unfolding walk by (simp only: not_False_eq_True if_True option.case) (rule exI)
  next
    case i: True
    show ?thesis
    proof (cases "cron_round c z after w")
      case (Inl t)
      with round_spec [OF less.prems(1), of c after] have "cron_matches c w" "t = zn_date z w" "after < t" by simp_all
      with less.prems have "first_match z c after t" unfolding first_match_def ahead_def by (simp only: date_mono) blast
      with i Inl show ?thesis by (simp add: walk)
    next
      case (Inr w1)
      with round_spec [OF less.prems(1), of c after] have p: "passes z c after w w1" by simp
      then have v1: "valid_wall w1" and le: "minute_number w \<le> minute_number w1" by (auto simp: passes_def)
      have day: "n \<le> wall_day w1" using wall_day_mono [OF less.prems(1) v1 le] less.prems(2) by simp
      have rank: "walked c n w + 1 \<le> walked c n w1" by (rule walked_step [OF less.prems(1,2) p])
      have "nat (cron_limit - (i + 1)) < nat (cron_limit - i)" using i by simp
      note IH = less.hyps [OF this v1 day ahead_step [OF less.prems(3) p]]
      show ?thesis
      proof (cases "cron_walk c z after (i + 1) w1")
        case None
        with IH obtain w2 where "valid_wall w2" "walked c n w1 + (cron_limit - (i + 1)) \<le> walked c n w2" "n \<le> wall_day w2" "ahead z c after w2" by auto
        with rank have "valid_wall w2 \<and> walked c n w + (cron_limit - i) \<le> walked c n w2 \<and> n \<le> wall_day w2 \<and> ahead z c after w2" by simp
        with i Inr None show ?thesis unfolding walk by (simp only: not_True_eq_False if_False sum.case option.case) (rule exI)
      next
        case (Some t)
        with IH i Inr show ?thesis by (simp add: walk)
      qed
    qed
  qed
qed

lemma ahead_of_next_minute: "ahead z c after (zn_wall z (after - after mod nano_minute + nano_minute))"
  unfolding ahead_def
proof (intro allI impI)
  fix v assume v: "valid_wall v \<and> cron_matches c v \<and> after < zn_date z v"
  define w where "w = zn_wall z (after - after mod nano_minute + nano_minute)"
  have "after mod nano_minute \<ge> 0" by (simp add: nano_minute_def)
  then have "zn_date z w < zn_date z v + nano_minute" using v date_of_wall [of "after - after mod nano_minute + nano_minute"] by (simp add: w_def)
  then have "(minute_number w - minute_number v) * nano_minute < 1 * nano_minute" using date_minutes [of w v] by simp
  then show "minute_number w \<le> minute_number v" unfolding w_def [symmetric] by (subst (asm) mult_less_cancel_right) (auto simp: nano_minute_def)
qed

lemma Next_first: "Cron_Next c z after = Some t \<Longrightarrow> first_match z c after t"
  using walk_spec [OF wall_valid order_refl ahead_of_next_minute, of c after 0]
  by (simp add: Cron_Next_def split: if_splits)

text \<open>Nothing is found only when nothing matches.\<close>

lemma later_day_ahead:
  assumes "valid_wall v" "wall_day (zn_wall z (after - after mod nano_minute + nano_minute)) < wall_day v"
  shows "after < zn_date z v"
proof -
  define w where "w = zn_wall z (after - after mod nano_minute + nano_minute)"
  have "minute_number w < minute_number v"
    using wall_day_mono [OF assms(1) wall_valid, of "after - after mod nano_minute + nano_minute"] assms(2) by (auto simp: w_def not_le [symmetric])
  then have "1 * nano_minute \<le> (minute_number v - minute_number w) * nano_minute" by (intro mult_right_mono) (auto simp: nano_minute_def)
  then have "zn_date z w + nano_minute \<le> zn_date z v" using date_minutes [of v w] by simp
  moreover have "after - after mod nano_minute + nano_minute < zn_date z w + nano_minute" unfolding w_def by (rule wall_within)
  moreover have "after mod nano_minute < nano_minute" by (simp add: nano_minute_def)
  ultimately show ?thesis by linarith
qed

lemma Next_None:
  assumes "has_time c" "\<not> cr_Reboot c" "Cron_Next c z after = None" "valid_wall v"
  shows "\<not> cron_matches c v"
proof
  assume "cron_matches c v"
  define w where "w = zn_wall z (after - after mod nano_minute + nano_minute)"
  have w: "valid_wall w" unfolding w_def by (rule wall_valid)
  obtain k0 where "day_matches c (wall_day w + 1 + int k0)" "k0 < 146097"
    by (rule match_within_400_years [OF assms(4) \<open>cron_matches c v\<close>, of "wall_day w"])
  define k where "k = (LEAST k. day_matches c (wall_day w + 1 + int k))"
  have k: "day_matches c (wall_day w + 1 + int k)" unfolding k_def by (rule LeastI) fact
  have least: "\<And>j. j < k \<Longrightarrow> \<not> day_matches c (wall_day w + 1 + int j)" unfolding k_def by (rule not_less_Least)
  have "k \<le> k0" unfolding k_def by (rule Least_le) fact
  obtain u where u: "valid_wall u" "cron_matches c u" "wall_day u = wall_day w + 1 + int k" by (rule day_matches_wall [OF assms(1) k])
  have "cron_walk c z after 0 w = None" using assms(2,3) by (simp add: Cron_Next_def w_def)
  with walk_spec [OF w order_refl, of c after 0] ahead_of_next_minute [of c after]
  obtain w1 where w1: "valid_wall w1" "walked c (wall_day w) w + cron_limit \<le> walked c (wall_day w) w1" "wall_day w \<le> wall_day w1" "ahead z c after w1"
    by (auto simp: w_def)
  have "after < zn_date z u" by (rule later_day_ahead [OF u(1)]) (simp add: u(3) w_def)
  then have "minute_number w1 \<le> minute_number u" using w1(4) u(1,2) unfolding ahead_def by blast
  then have "walked c (wall_day w) w1 \<le> walked c (wall_day w) u" by (rule walked_mono [OF w1(1) u(1) w1(3)])
  moreover have "walked c (wall_day w) u \<le> 2880 + int k" by (rule walked_to_first [OF u(1,3) least])
  ultimately show False using w1(2) walked_nonneg [OF w, of c "wall_day w"] \<open>k \<le> k0\<close> \<open>k0 < 146097\<close> by (simp add: cron_limit_def)
qed

end

subsection \<open>Fixed offsets\<close>

interpretation fx: steady_zone "fixed_zone offset" for offset
proof
  fix t v w
  show "valid_wall (zn_wall (fixed_zone offset) t)" by (simp add: fixed_zone_def wall_of_minute_spec)
  show "zn_date (fixed_zone offset) v - zn_date (fixed_zone offset) w = (minute_number v - minute_number w) * nano_minute"
    by (simp add: fixed_zone_def algebra_simps)
  have "(t + offset) div nano_minute * nano_minute \<le> t + offset" by (simp add: nano_minute_def)
  then show "zn_date (fixed_zone offset) (zn_wall (fixed_zone offset) t) \<le> t" by (simp add: fixed_zone_def wall_of_minute_spec)
  have "t + offset < (t + offset) div nano_minute * nano_minute + nano_minute" by (simp add: nano_minute_def)
  then show "t < zn_date (fixed_zone offset) (zn_wall (fixed_zone offset) t) + nano_minute" by (simp add: fixed_zone_def wall_of_minute_spec)
  assume v: "valid_wall v"
  have "wall_of_minute (minute_number v) = v" by (rule minute_number_inject) (simp_all add: wall_of_minute_spec v)
  then show "zn_wall (fixed_zone offset) (zn_date (fixed_zone offset) v) = v" by (simp add: fixed_zone_def nano_minute_def)
qed


subsection \<open>What is read has a time of day\<close>

lemma fieldValue_range: "fieldValue s lo hi [] = Inr v \<Longrightarrow> lo \<le> v \<and> v \<le> hi"
  by (auto simp: fieldValue_def Let_def split: option.splits if_splits)

lemma field_bounds_range:
  "lo \<le> hi \<Longrightarrow> field_bounds part step lo hi [] = Inr (low, high) \<Longrightarrow> lo \<le> low \<and> low \<le> high \<and> high \<le> hi"
  by (auto simp: field_bounds_def split: option.splits if_splits sum.splits dest!: fieldValue_range)

lemma field_range_first: "0 < n \<Longrightarrow> v \<le> high \<Longrightarrow> v \<in> set (field_range n v high step)"
  by (simp add: field_range.simps [of n v])

lemma parse_part_has:
  assumes "lo \<le> hi" and "parse_part field lo hi [] part = Inr vs"
  shows "\<exists>v \<in> set vs. lo \<le> v \<and> v \<le> hi"
proof -
  obtain step part1 low high where "field_bounds part1 step lo hi [] = Inr (low, high)" "vs = field_range rounds low high step"
    using assms(2) by (auto simp: parse_part_def Let_def split: option.splits if_splits sum.splits)
  moreover from this(1) have "lo \<le> low \<and> low \<le> high \<and> high \<le> hi" by (rule field_bounds_range [OF assms(1)])
  ultimately show ?thesis using field_range_first [of rounds low high step] by (intro bexI [of _ low]) (auto simp: rounds_def)
qed

lemma parseField_has:
  assumes "lo \<le> hi" and "parseField field lo hi [] = Inr vs"
  shows "\<exists>v \<in> set vs. lo \<le> v \<and> v \<le> hi"
proof -
  obtain part parts where "str_split field '','' = part # parts" by (metis list.exhaust str_split_nonempty)
  with assms(2) obtain ws where "parse_part field lo hi [] part = Inr ws" "set ws \<subseteq> set vs"
    by (auto simp: parseField_def split: sum.splits if_splits)
  with parse_part_has [OF assms(1)] show ?thesis by blast
qed

lemma ParseCron_has_time: "ParseCron expr = Inr c \<Longrightarrow> \<not> cr_Reboot c \<Longrightarrow> has_time c"
  by (auto simp: ParseCron_def parse_fields_def named_field_def Let_def has_time_def split: if_splits option.splits sum.splits
      dest!: parseField_has [rotated])

subsection \<open>The next firing\<close>

text \<open>Midnight on the 29th of February, asked for in March 2096, eight years before the next one.\<close>

definition leap_day :: Cron where
  "leap_day = \<lparr>cr_Minute = [0], cr_Hour = [0], cr_Day = [29], cr_Month = [2], cr_Weekday = 0 # [0, 1, 2, 3, 4, 5, 6],
     cr_DayRestricted = True, cr_WeekdayRestricted = False, cr_Reboot = False, cr_Expr = ''0 0 29 feb *''\<rparr>"

lemma leap_day_read: "ParseCron ''0 0 29 feb *'' = Inr leap_day"
  by code_simp

text \<open>C28: the next firing of a cron expression, in a zone of a fixed offset, is the first minute it matches after
  the given instant: it is later than that instant, the wall clock there matches, and no earlier instant that
  is later than the given one has a matching wall clock at the start of its minute.\<close>

theorem next_is_first_match:
  assumes "Cron_Next c (fixed_zone offset) after = Some t"
  shows "after < t \<and> (\<exists>w. valid_wall w \<and> cron_matches c w \<and> zn_date (fixed_zone offset) w = t) \<and>
    (\<forall>w. valid_wall w \<and> cron_matches c w \<and> after < zn_date (fixed_zone offset) w \<longrightarrow> t \<le> zn_date (fixed_zone offset) w)"
  using fx.Next_first [OF assms] unfolding first_match_def .

theorem next_is_first_match_witness:
  "day_number 2104 2 28 * 86400000000000 < day_number 2104 2 29 * 86400000000000 \<and>
   (\<exists>w. valid_wall w \<and> cron_matches leap_day w \<and> zn_date (fixed_zone 0) w = day_number 2104 2 29 * 86400000000000)"
proof -
  have "Cron_Next leap_day (fixed_zone 0) (day_number 2104 2 28 * 86400000000000) = Some (day_number 2104 2 29 * 86400000000000)"
    by code_simp
  from next_is_first_match [OF this] show ?thesis by blast
qed

text \<open>C29: in a zone of a fixed offset, the walk gives up only on an expression that matches nothing: for an
  expression that was read, other than \<open>@reboot\<close>, there is a next firing if and only if some wall clock matches.
  Five years of rounds are enough although a match may be eight years away, because days that do not match take
  one round.\<close>

theorem next_exists_iff_some_match:
  assumes "ParseCron expr = Inr c" and "\<not> cr_Reboot c"
  shows "(\<exists>t. Cron_Next c (fixed_zone offset) after = Some t) \<longleftrightarrow> (\<exists>w. valid_wall w \<and> cron_matches c w)"
proof
  assume "\<exists>t. Cron_Next c (fixed_zone offset) after = Some t"
  then show "\<exists>w. valid_wall w \<and> cron_matches c w" using fx.Next_first unfolding first_match_def by blast
next
  assume "\<exists>w. valid_wall w \<and> cron_matches c w"
  then show "\<exists>t. Cron_Next c (fixed_zone offset) after = Some t"
    using fx.Next_None [OF ParseCron_has_time [OF assms] assms(2)] by (metis option.exhaust)
qed

theorem next_exists_iff_some_match_witness:
  "\<exists>t. Cron_Next leap_day (fixed_zone 0) (day_number 2096 3 1 * 86400000000000) = Some t"
proof -
  have "valid_wall (2104, 2, 29, 0, 0) \<and> cron_matches leap_day (2104, 2, 29, 0, 0)" by code_simp
  moreover have "\<not> cr_Reboot leap_day" by (simp add: leap_day_def)
  ultimately show ?thesis by (subst next_exists_iff_some_match [OF leap_day_read]) blast+
qed
text \<open>In any zone, with changes of offset too, a firing is later than the instant asked about.\<close>

lemma cron_fire_after: "cron_fire z after w = Inl t \<Longrightarrow> after < t"
  by (auto simp: cron_fire_def Let_def split: prod.splits if_splits option.splits)

lemma cron_round_after: "cron_round c z after w = Inl t \<Longrightarrow> after < t"
  by (auto simp: cron_round_def Let_def split: prod.splits if_splits dest: cron_fire_after)

lemma cron_walk_after: "cron_walk c z after i w = Some t \<Longrightarrow> after < t"
proof (induction c z after i w rule: cron_walk.induct)
  case (1 c z after i w)
  then show ?case by (auto simp: cron_walk.simps [of c z after i w] split: if_splits sum.splits dest: cron_round_after)
qed

lemma Cron_Next_after: "Cron_Next c z after = Some t \<Longrightarrow> after < t"
  by (auto simp: Cron_Next_def split: if_splits dest: cron_walk_after)

end
