(* ===== verification/Schedule.thy ===== *)
theory Schedule
  imports Crons Fnmatch
begin

text \<open>
  Scheduled jobs (\<open>internal/schedule/schedule.go\<close>): reading a definition and computing when a job runs next. An
  instant is a number of nanoseconds since Go's zero time, so the zero time is 0; a location is its name and
  its zone. What the sources use of the runtime to read and print times and floats is the record \<open>sched_env\<close>.
\<close>

subsection \<open>Jobs\<close>

type_synonym location = "string \<times> zone"

record Job =
  jb_Name :: string
  jb_Function :: string
  jb_Args :: "string list"
  jb_Kwargs :: "vmap option"
  jb_Cron :: "Cron option"
  jb_Interval :: int
  jb_When :: "int list"
  jb_Once :: int
  jb_After :: int
  jb_Until :: int
  jb_RangeStart :: int
  jb_RangeEnd :: int
  jb_RangeInvert :: bool
  jb_SkipStart :: int
  jb_SkipEnd :: int
  jb_SkipExplicit :: "int list"
  jb_Splay :: int
  jb_SplayStart :: int
  jb_MaxRunning :: int
  jb_ReturnJob :: bool
  jb_RunOnStart :: bool
  jb_Catchup :: bool
  jb_Enabled :: bool
  jb_Offset :: int
  jb_Metadata :: "vmap option"
  jb_Location :: location
  jb_LastRun :: int

definition new_Job :: "string \<Rightarrow> location \<Rightarrow> Job" where
  "new_Job name loc =
     \<lparr>jb_Name = name, jb_Function = [], jb_Args = [], jb_Kwargs = None, jb_Cron = None, jb_Interval = 0, jb_When = [],
      jb_Once = 0, jb_After = 0, jb_Until = 0, jb_RangeStart = 0, jb_RangeEnd = 0, jb_RangeInvert = False,
      jb_SkipStart = 0, jb_SkipEnd = 0, jb_SkipExplicit = [], jb_Splay = 0, jb_SplayStart = 0, jb_MaxRunning = 1,
      jb_ReturnJob = True, jb_RunOnStart = False, jb_Catchup = False, jb_Enabled = True, jb_Offset = 0,
      jb_Metadata = None, jb_Location = loc, jb_LastRun = 0\<rparr>"

definition timingNames :: "string list" where
  "timingNames = [''cron'', ''every'', ''seconds'', ''minutes'', ''hours'', ''days'', ''when'', ''once'']"

definition nano_second :: int where "nano_second = 1000000000"

subsection \<open>When a job runs next\<close>

definition nextCandidate :: "Job \<Rightarrow> int \<Rightarrow> int option" where
  "nextCandidate j after =
     (case jb_Cron j of
        Some c \<Rightarrow> if cr_Reboot c then None else Cron_Next c (snd (jb_Location j)) after
      | None \<Rightarrow>
          if jb_Once j \<noteq> 0 then (if jb_Once j > after then Some (jb_Once j) else None)
          else if jb_When j \<noteq> [] then find (\<lambda>t. t > after) (jb_When j)
          else if jb_Interval j > 0 then
            let from = (if jb_LastRun j = 0 \<or> jb_LastRun j < after then after else jb_LastRun j)
            in Some (from + jb_Interval j)
          else None)"

definition blocked :: "Job \<Rightarrow> int \<Rightarrow> bool" where
  "blocked j t =
     (if jb_RangeStart j \<noteq> 0 \<and> jb_RangeEnd j \<noteq> 0 \<and>
         (\<not> t < jb_RangeStart j \<and> \<not> t > jb_RangeEnd j) = jb_RangeInvert j then True
      else if jb_SkipStart j \<noteq> 0 \<and> jb_SkipEnd j \<noteq> 0 \<and> \<not> t < jb_SkipStart j \<and> \<not> t > jb_SkipEnd j then True
      else list_ex (\<lambda>skip. t = skip) (jb_SkipExplicit j))"

definition next_limit :: int where "next_limit = 4096"

function next_loop :: "Job \<Rightarrow> int \<Rightarrow> int \<Rightarrow> int option" where
  "next_loop j i candidate =
     (if \<not> i < next_limit then None
      else case nextCandidate j candidate of
        None \<Rightarrow> None
      | Some next0 \<Rightarrow>
          let nxt = (if jb_Offset j \<noteq> 0 then next0 + jb_Offset j else next0) in
          if jb_Until j \<noteq> 0 \<and> nxt > jb_Until j then None
          else if jb_After j \<noteq> 0 \<and> nxt < jb_After j then next_loop j (i + 1) (jb_After j - 1)
          else if blocked j nxt then next_loop j (i + 1) nxt
          else Some nxt)"
  by pat_completeness auto
termination
  by (relation "measure (\<lambda>(_, i, _). nat (next_limit - i))") (auto simp: next_limit_def)

declare next_loop.simps [simp del]

definition Job_Next :: "Job \<Rightarrow> int \<Rightarrow> int option" where
  "Job_Next j now = (if \<not> jb_Enabled j then None else next_loop j 0 now)"

text \<open>The random number comes from the caller.\<close>

definition SplayFor :: "Job \<Rightarrow> (int \<Rightarrow> int) \<Rightarrow> int" where
  "SplayFor j rand =
     (if jb_Splay j \<le> 0 then 0
      else
        let (low, high) = (if jb_Splay j \<le> jb_SplayStart j then (0, jb_Splay j) else (jb_SplayStart j, jb_Splay j));
            span = wrap64 (high - low) in
        if span \<le> 0 then low else wrap64 (low + rand span))"

subsection \<open>Reading times and durations\<close>

record sched_env =
  se_rt :: go_runtime
  se_LoadLocation :: "string \<Rightarrow> fmt_arg + location"              \<comment> \<open>\<open>time.LoadLocation\<close>\<close>
  se_ParseInLocation :: "string \<Rightarrow> string \<Rightarrow> zone \<Rightarrow> int option" \<comment> \<open>\<open>time.ParseInLocation\<close>\<close>
  se_Year :: "int \<Rightarrow> zone \<Rightarrow> int"                    \<comment> \<open>\<open>t.Year()\<close>\<close>
  se_OnDay :: "int \<Rightarrow> int \<Rightarrow> int \<Rightarrow> zone \<Rightarrow> int"        \<comment> \<open>the time of day of the first on the date of the second, days later\<close>
  se_Now :: int
  se_FloatUnits :: "gofloat \<Rightarrow> int \<Rightarrow> int"          \<comment> \<open>\<open>time.Duration(n * float64(unit))\<close>\<close>
  se_FloatTrunc :: "gofloat \<Rightarrow> int"                 \<comment> \<open>\<open>int(n)\<close>\<close>
  se_Format :: "string \<Rightarrow> location \<Rightarrow> int \<Rightarrow> string" \<comment> \<open>\<open>t.Format(layout)\<close>\<close>
  se_DurationString :: "int \<Rightarrow> string"               \<comment> \<open>\<open>d.String()\<close>\<close>
  se_WholeSeconds :: "int \<Rightarrow> int"                    \<comment> \<open>\<open>int64(d.Seconds())\<close>\<close>

definition timeLayouts :: "string list" where
  "timeLayouts = [''2006-01-02T15:04:05'', ''2006-01-02 15:04:05'', ''2006-01-02T15:04'', ''2006-01-02 15:04'', ''2006-01-02'',
     ''15:04:05'', ''15:04'', ''3:04pm'', ''3:04PM'']"

definition strftime_layouts :: "(char, string) gomap" where
  "strftime_layouts = [(CHR ''Y'', ''2006''), (CHR ''y'', ''06''), (CHR ''m'', ''01''), (CHR ''d'', ''02''), (CHR ''H'', ''15''),
     (CHR ''M'', ''04''), (CHR ''S'', ''05''), (CHR ''z'', ''-0700''), (CHR ''b'', ''Jan''), (CHR ''B'', ''January''),
     (CHR ''a'', ''Mon''), (CHR ''A'', ''Monday''), (CHR ''p'', ''PM''), (CHR ''I'', ''03''), (CHR ''%'', ''%'')]"

text \<open>\<open>%c\<close> prints the byte after the percent sign as a character.\<close>

fun layoutFromStrftime :: "string \<Rightarrow> fmt_arg + string" where
  "layoutFromStrftime [] = Inr []"
| "layoutFromStrftime [c] = (if c \<noteq> CHR ''%'' then Inr [c] else Inl (FErr ''once_fmt ends in a bare %%'' []))"
| "layoutFromStrftime (c # d # cs) =
     (if c \<noteq> CHR ''%'' then (case layoutFromStrftime (d # cs) of Inl e \<Rightarrow> Inl e | Inr r \<Rightarrow> Inr (c # r))
      else case gomap_get strftime_layouts d of
        None \<Rightarrow> Inl (FErr ''once_fmt: %%%c is not a directive this build reads'' [FStr [d]])
      | Some layout \<Rightarrow> (case layoutFromStrftime cs of Inl e \<Rightarrow> Inl e | Inr r \<Rightarrow> Inr (layout @ r)))"

abbreviation sched_key :: "sched_env \<Rightarrow> val \<Rightarrow> string" where
  "sched_key env \<equiv> KeyString_any (rt_sprint (se_rt env))"

fun first_layout :: "sched_env \<Rightarrow> string \<Rightarrow> zone \<Rightarrow> string list \<Rightarrow> int option" where
  "first_layout env s z [] = None"
| "first_layout env s z (layout # layouts) =
     (case se_ParseInLocation env layout s z of None \<Rightarrow> first_layout env s z layouts | Some t \<Rightarrow> Some t)"

definition parseOneTime :: "sched_env \<Rightarrow> val \<Rightarrow> location \<Rightarrow> vmap \<Rightarrow> fmt_arg + int" where
  "parseOneTime env v loc body =
     (let s = trim_space (sched_key env v) in
      if s = [] then Inl (FErr ''is empty'' [])
      else
        case (case Map_GetString body ''once_fmt'' of
                None \<Rightarrow> Inr timeLayouts
              | Some raw \<Rightarrow>
                  if raw = VNull then Inr timeLayouts
                  else case layoutFromStrftime (sched_key env raw) of
                    Inl e \<Rightarrow> Inl e | Inr layout \<Rightarrow> Inr (layout # timeLayouts)) of
          Inl e \<Rightarrow> Inl e
        | Inr layouts \<Rightarrow>
            (case first_layout env s (snd loc) layouts of
               Some t \<Rightarrow>
                 if se_Year env t (snd loc) = 0 then
                   let today = se_OnDay env t (se_Now env) 0 (snd loc) in
                   Inr (if \<not> today > se_Now env then se_OnDay env t (se_Now env) 1 (snd loc) else today)
                 else Inr t
             | None \<Rightarrow> Inl (FErr ''%q is not a time this build reads; it takes %s'' [FStr s, FStr (str_join '', '' timeLayouts)])))"

fun parse_each :: "(val \<Rightarrow> fmt_arg + 'a) \<Rightarrow> val list \<Rightarrow> fmt_arg + 'a list" where
  "parse_each f [] = Inr []"
| "parse_each f (v # vs) =
     (case f v of Inl e \<Rightarrow> Inl e | Inr x \<Rightarrow> (case parse_each f vs of Inl e \<Rightarrow> Inl e | Inr xs \<Rightarrow> Inr (x # xs)))"

definition parseTimes :: "sched_env \<Rightarrow> val \<Rightarrow> location \<Rightarrow> vmap \<Rightarrow> fmt_arg + int list" where
  "parseTimes env v loc body =
     (case parse_each (\<lambda>item. parseOneTime env item loc body) (case v of VSeq t \<Rightarrow> t | _ \<Rightarrow> [v]) of
        Inl e \<Rightarrow> Inl e
      | Inr out \<Rightarrow> Inr (sort out))"

definition parseRange :: "sched_env \<Rightarrow> val \<Rightarrow> location \<Rightarrow> vmap \<Rightarrow> fmt_arg + int \<times> int \<times> bool" where
  "parseRange env v loc body =
     (case v of
        VMap m \<Rightarrow>
          (case (Map_GetString m ''start'', Map_GetString m ''end'') of
             (Some rawStart, Some rawEnd) \<Rightarrow>
               (case parseOneTime env rawStart loc body of
                  Inl e \<Rightarrow> Inl e
                | Inr start \<Rightarrow>
                    (case parseOneTime env rawEnd loc body of
                       Inl e \<Rightarrow> Inl e
                     | Inr end1 \<Rightarrow>
                         Inr (start, end1, case Map_GetString m ''invert'' of Some raw \<Rightarrow> Truthy raw | None \<Rightarrow> False)))
           | _ \<Rightarrow> Inl (FErr ''needs both `start` and `end`'' []))
      | _ \<Rightarrow> Inl (FErr ''is a mapping with `start` and `end`'' []))"

definition sched_duration :: "sched_env \<Rightarrow> val \<Rightarrow> fmt_arg + int" where
  "sched_duration env v =
     (case v of
        VInt t \<Rightarrow> Inr (wrap64 (t * nano_second))
      | VFloat t \<Rightarrow> Inr (rt_FloatSeconds (se_rt env) t)
      | VStr t \<Rightarrow>
          (case rt_ParseDuration (se_rt env) t of
             Some d \<Rightarrow> Inr d
           | None \<Rightarrow>
               (case rt_ParseSeconds (se_rt env) t of
                  Some d \<Rightarrow> Inr d
                | None \<Rightarrow> Inl (FErr ''%q is not a duration'' [FStr t])))
      | _ \<Rightarrow> Inl (FErr ''%s is not a duration'' [FStr (TypeName v)]))"

definition durationField :: "sched_env \<Rightarrow> vmap \<Rightarrow> string \<Rightarrow> fmt_arg + int" where
  "durationField env m key =
     (case Map_GetString m key of
        None \<Rightarrow> Inl (FErr ''needs `%s`'' [FStr key])
      | Some raw \<Rightarrow> sched_duration env raw)"

definition parseSplay :: "sched_env \<Rightarrow> val \<Rightarrow> fmt_arg + int \<times> int" where
  "parseSplay env v =
     (case v of
        VMap m \<Rightarrow>
          (case durationField env m ''start'' of
             Inl e \<Rightarrow> Inl e
           | Inr start \<Rightarrow> (case durationField env m ''end'' of Inl e \<Rightarrow> Inl e | Inr end1 \<Rightarrow> Inr (start, end1)))
      | _ \<Rightarrow> (case sched_duration env v of Inl e \<Rightarrow> Inl e | Inr d \<Rightarrow> Inr (0, d)))"

definition sched_float :: "sched_env \<Rightarrow> val \<Rightarrow> fmt_arg + gofloat" where
  "sched_float env v =
     (let bad = Inl (FErr ''%s is not a number'' [FStr (TypeName v)]) in
      case v of
        VInt t \<Rightarrow> Inr (rt_FloatOfInt (se_rt env) t)
      | VFloat t \<Rightarrow> Inr t
      | VStr t \<Rightarrow> (case rt_ParseFloat (se_rt env) (trim_space t) of Some n \<Rightarrow> Inr n | None \<Rightarrow> bad)
      | _ \<Rightarrow> bad)"

definition unitOf :: "string \<Rightarrow> int" where
  "unitOf key =
     (if key = ''seconds'' then nano_second
      else if key = ''minutes'' then 60 * nano_second
      else if key = ''hours'' then 3600 * nano_second
      else if key = ''days'' then 24 * 3600 * nano_second
      else nano_second)"

subsection \<open>Reading a definition\<close>

definition sched_fail :: "string \<Rightarrow> string \<Rightarrow> fmt_arg + 'a \<Rightarrow> fmt_arg + 'a" where
  "sched_fail name key r =
     (case r of Inl e \<Rightarrow> Inl (FErr ''schedule %s: %s: %w'' [FStr name, FStr key, e]) | Inr x \<Rightarrow> Inr x)"

text \<open>The settings that say when a job runs; the flag tells whether the key is one of them.\<close>

definition timing_setting :: "sched_env \<Rightarrow> vmap \<Rightarrow> string \<Rightarrow> val \<Rightarrow> Job \<Rightarrow> (fmt_arg + Job) option" where
  "timing_setting env body key v j =
     (let name = jb_Name j; loc = jb_Location j in
      if key = ''cron'' then
        Some (case ParseCron (sched_key env v) of
                Inl e \<Rightarrow> Inl (FErr ''schedule %s: %w'' [FStr name, e])
              | Inr c \<Rightarrow> Inr (j\<lparr>jb_Cron := Some c\<rparr>))
      else if key = ''every'' then
        Some (case sched_fail name key (sched_duration env v) of Inl e \<Rightarrow> Inl e | Inr d \<Rightarrow> Inr (j\<lparr>jb_Interval := d\<rparr>))
      else if key \<in> set [''seconds'', ''minutes'', ''hours'', ''days''] then
        Some (case sched_fail name key (sched_float env v) of
                Inl e \<Rightarrow> Inl e
              | Inr n \<Rightarrow> Inr (j\<lparr>jb_Interval := wrap64 (jb_Interval j + se_FloatUnits env n (unitOf key))\<rparr>))
      else if key = ''when'' then
        Some (case sched_fail name key (parseTimes env v loc body) of Inl e \<Rightarrow> Inl e | Inr ts \<Rightarrow> Inr (j\<lparr>jb_When := ts\<rparr>))
      else if key = ''once'' then
        Some (case sched_fail name key (parseTimes env v loc body) of
                Inl e \<Rightarrow> Inl e
              | Inr ts \<Rightarrow>
                  if length ts \<noteq> 1 then sched_fail name key (Inl (FErr ''is one time'' []))
                  else Inr (j\<lparr>jb_Once := hd ts\<rparr>))
      else None)"

definition bound_setting :: "sched_env \<Rightarrow> vmap \<Rightarrow> string \<Rightarrow> val \<Rightarrow> Job \<Rightarrow> (fmt_arg + Job) option" where
  "bound_setting env body key v j =
     (let name = jb_Name j; loc = jb_Location j in
      if key = ''once_fmt'' then Some (Inr j)
      else if key = ''after'' then
        Some (case sched_fail name key (parseOneTime env v loc body) of Inl e \<Rightarrow> Inl e | Inr t \<Rightarrow> Inr (j\<lparr>jb_After := t\<rparr>))
      else if key = ''until'' then
        Some (case sched_fail name key (parseOneTime env v loc body) of Inl e \<Rightarrow> Inl e | Inr t \<Rightarrow> Inr (j\<lparr>jb_Until := t\<rparr>))
      else if key = ''range'' then
        Some (case sched_fail name key (parseRange env v loc body) of
                Inl e \<Rightarrow> Inl e
              | Inr (start, end1, invert) \<Rightarrow> Inr (j\<lparr>jb_RangeStart := start, jb_RangeEnd := end1, jb_RangeInvert := invert\<rparr>))
      else if key = ''skip_during_range'' then
        Some (case sched_fail name key (parseRange env v loc body) of
                Inl e \<Rightarrow> Inl e
              | Inr (start, end1, _) \<Rightarrow> Inr (j\<lparr>jb_SkipStart := start, jb_SkipEnd := end1\<rparr>))
      else if key = ''skip_explicit'' then
        Some (case sched_fail name key (parseTimes env v loc body) of Inl e \<Rightarrow> Inl e | Inr ts \<Rightarrow> Inr (j\<lparr>jb_SkipExplicit := ts\<rparr>))
      else None)"

definition plain_setting :: "sched_env \<Rightarrow> string \<Rightarrow> val \<Rightarrow> Job \<Rightarrow> fmt_arg + Job" where
  "plain_setting env key v j =
     (let name = jb_Name j in
      if key = ''timezone'' then Inr j
      else if key \<in> set [''function'', ''func''] then Inr (j\<lparr>jb_Function := sched_key env v\<rparr>)
      else if key = ''args'' then
        (case v of
           VSeq vs \<Rightarrow> Inr (j\<lparr>jb_Args := jb_Args j @ map (sched_key env) vs\<rparr>)
         | _ \<Rightarrow> sched_fail name key (Inl (FErr ''is a list'' [])))
      else if key = ''kwargs'' then
        (case v of VMap m \<Rightarrow> Inr (j\<lparr>jb_Kwargs := Some m\<rparr>) | _ \<Rightarrow> sched_fail name key (Inl (FErr ''is a mapping'' [])))
      else if key = ''splay'' then
        (case sched_fail name key (parseSplay env v) of
           Inl e \<Rightarrow> Inl e | Inr (start, end1) \<Rightarrow> Inr (j\<lparr>jb_SplayStart := start, jb_Splay := end1\<rparr>))
      else if key = ''maxrunning'' then
        (case sched_fail name key (sched_float env v) of Inl e \<Rightarrow> Inl e | Inr n \<Rightarrow> Inr (j\<lparr>jb_MaxRunning := se_FloatTrunc env n\<rparr>))
      else if key = ''return_job'' then Inr (j\<lparr>jb_ReturnJob := Truthy v\<rparr>)
      else if key = ''run_on_start'' then Inr (j\<lparr>jb_RunOnStart := Truthy v\<rparr>)
      else if key = ''catchup'' then Inr (j\<lparr>jb_Catchup := Truthy v\<rparr>)
      else if key = ''enabled'' then Inr (j\<lparr>jb_Enabled := Truthy v\<rparr>)
      else if key = ''offset'' then
        (case sched_fail name key (sched_duration env v) of Inl e \<Rightarrow> Inl e | Inr d \<Rightarrow> Inr (j\<lparr>jb_Offset := d\<rparr>))
      else if key = ''metadata'' then
        (case v of VMap m \<Rightarrow> Inr (j\<lparr>jb_Metadata := Some m\<rparr>) | _ \<Rightarrow> sched_fail name key (Inl (FErr ''is a mapping'' [])))
      else if key = ''jid_include'' then Inr j
      else Inl (FErr ''schedule %s: %q is not a schedule setting'' [FStr name, FStr key]))"

fun parse_settings :: "sched_env \<Rightarrow> vmap \<Rightarrow> entry list \<Rightarrow> Job \<Rightarrow> nat \<Rightarrow> fmt_arg + Job \<times> nat" where
  "parse_settings env body [] j timings = Inr (j, timings)"
| "parse_settings env body (e # es) j timings =
     (let key = KeyString (Key e) in
      case timing_setting env body key (Val e) j of
        Some (Inl err) \<Rightarrow> Inl err
      | Some (Inr j1) \<Rightarrow> parse_settings env body es j1 (timings + 1)
      | None \<Rightarrow>
          (case (case bound_setting env body key (Val e) j of Some r \<Rightarrow> r | None \<Rightarrow> plain_setting env key (Val e) j) of
             Inl err \<Rightarrow> Inl err
           | Inr j1 \<Rightarrow> parse_settings env body es j1 timings))"

definition check_job :: "string \<Rightarrow> Job \<times> nat \<Rightarrow> fmt_arg + Job" where
  "check_job name = (\<lambda>(j, timings).
     if jb_Function j = [] then Inl (FErr ''schedule %s names no `function` to run'' [FStr name])
     else if timings = 0 then
       Inl (FErr ''schedule %s says when it runs with none of %s'' [FStr name, FStr (str_join '', '' timingNames)])
     else if timings > 1 \<and> \<not> (jb_Interval j > 0 \<and> jb_Cron j = None \<and> length (jb_When j) = 0 \<and> jb_Once j = 0) then
       Inl (FErr ''schedule %s gives more than one of %s; a job runs on one of them'' [FStr name, FStr (str_join '', '' timingNames)])
     else Inr (if jb_MaxRunning j < 1 then j\<lparr>jb_MaxRunning := 1\<rparr> else j))"

definition job_location :: "sched_env \<Rightarrow> string \<Rightarrow> vmap \<Rightarrow> location \<Rightarrow> fmt_arg + location" where
  "job_location env name body def =
     (case Map_GetString body ''timezone'' of
        None \<Rightarrow> Inr def
      | Some raw \<Rightarrow>
          if raw = VNull then Inr def
          else case se_LoadLocation env (sched_key env raw) of
            Inl e \<Rightarrow> Inl (FErr ''schedule %s: timezone: %w'' [FStr name, e])
          | Inr loc \<Rightarrow> Inr loc)"

definition parseJob :: "sched_env \<Rightarrow> string \<Rightarrow> vmap \<Rightarrow> location \<Rightarrow> fmt_arg + Job" where
  "parseJob env name body def =
     (case job_location env name body def of
        Inl e \<Rightarrow> Inl e
      | Inr loc \<Rightarrow>
          (case parse_settings env body (entries body) (new_Job name loc) 0 of
             Inl e \<Rightarrow> Inl e
           | Inr r \<Rightarrow> check_job name r))"

fun parse_jobs :: "sched_env \<Rightarrow> location \<Rightarrow> entry list \<Rightarrow> fmt_arg + Job list" where
  "parse_jobs env def [] = Inr []"
| "parse_jobs env def (e # es) =
     (let name = KeyString (Key e) in
      case Val e of
        VMap body \<Rightarrow>
          (case parseJob env name body def of
             Inl err \<Rightarrow> Inl err
           | Inr j \<Rightarrow> (case parse_jobs env def es of Inl err \<Rightarrow> Inl err | Inr js \<Rightarrow> Inr (j # js)))
      | v \<Rightarrow> Inl (FErr ''schedule %s: the definition is a mapping, not %s'' [FStr name, FStr (TypeName v)]))"

definition Schedule_Parse :: "sched_env \<Rightarrow> val \<Rightarrow> location \<Rightarrow> fmt_arg + Job list" where
  "Schedule_Parse env v def =
     (case v of
        VNull \<Rightarrow> Inr []
      | VMap m \<Rightarrow> (case parse_jobs env def (entries m) of Inl e \<Rightarrow> Inl e | Inr js \<Rightarrow> Inr (sort_key jb_Name js))
      | _ \<Rightarrow> Inl (FErr ''`schedule` is a mapping of job name to its definition'' []))"

subsection \<open>What Next returns\<close>

lemma nextCandidate_after: "nextCandidate j after = Some t \<Longrightarrow> after < t"
  by (auto simp: nextCandidate_def Let_def find_Some_iff split: option.splits if_splits dest: Cron_Next_after)

definition in_bounds :: "Job \<Rightarrow> int \<Rightarrow> bool" where
  "in_bounds j t \<longleftrightarrow> (jb_Until j = 0 \<or> t \<le> jb_Until j) \<and> (jb_After j = 0 \<or> jb_After j \<le> t) \<and> \<not> blocked j t"

text \<open>One round of the loop, when it ends in a time.\<close>

lemma next_loop_SomeE:
  assumes "next_loop j i candidate = Some t"
  obtains n where "nextCandidate j candidate = Some n" "i < next_limit" "jb_Until j = 0 \<or> n + jb_Offset j \<le> jb_Until j"
    "jb_After j \<noteq> 0" "n + jb_Offset j < jb_After j" "next_loop j (i + 1) (jb_After j - 1) = Some t"
  | n where "nextCandidate j candidate = Some n" "i < next_limit" "blocked j (n + jb_Offset j)" "next_loop j (i + 1) (n + jb_Offset j) = Some t"
  | "nextCandidate j candidate = Some (t - jb_Offset j)" "in_bounds j t"
proof (cases "nextCandidate j candidate")
  case None
  with assms show ?thesis by (simp add: next_loop.simps [of j i candidate] split: if_splits)
next
  case (Some n)
  have eq: "(if jb_Offset j \<noteq> 0 then n + jb_Offset j else n) = n + jb_Offset j" by simp
  from assms have i: "i < next_limit" and rest: "(if jb_Until j \<noteq> 0 \<and> n + jb_Offset j > jb_Until j then None
      else if jb_After j \<noteq> 0 \<and> n + jb_Offset j < jb_After j then next_loop j (i + 1) (jb_After j - 1)
      else if blocked j (n + jb_Offset j) then next_loop j (i + 1) (n + jb_Offset j) else Some (n + jb_Offset j)) = Some t"
    by (simp_all only: next_loop.simps [of j i candidate] Some option.case Let_def eq not_not split: if_splits) simp_all
  from rest consider "jb_After j \<noteq> 0" "n + jb_Offset j < jb_After j" "next_loop j (i + 1) (jb_After j - 1) = Some t"
      "jb_Until j = 0 \<or> n + jb_Offset j \<le> jb_Until j"
    | "blocked j (n + jb_Offset j)" "next_loop j (i + 1) (n + jb_Offset j) = Some t" | "t = n + jb_Offset j" "in_bounds j t"
    by (auto simp: in_bounds_def not_less split: if_splits)
  then show ?thesis using that Some i by cases auto
qed

lemma next_loop_bounds: "next_loop j i candidate = Some t \<Longrightarrow> in_bounds j t"
proof (induction "nat (next_limit - i)" arbitrary: i candidate rule: less_induct)
  case less
  from less.prems show ?case by (cases rule: next_loop_SomeE) (auto intro: less.hyps [of "i + 1"])
qed

lemma next_loop_after: "next_loop j i candidate = Some t \<Longrightarrow> 0 \<le> jb_Offset j \<Longrightarrow> candidate < t"
proof (induction "nat (next_limit - i)" arbitrary: i candidate rule: less_induct)
  case less
  from less.prems(1) show ?case
  proof (cases rule: next_loop_SomeE)
    case (1 n)
    with less.hyps [of "i + 1" "jb_After j - 1"] less.prems(2) nextCandidate_after [OF 1(1)] show ?thesis by simp
  next
    case (2 n)
    with less.hyps [of "i + 1" "n + jb_Offset j"] less.prems(2) nextCandidate_after [OF 2(1)] show ?thesis by simp
  next
    case 3
    with nextCandidate_after [OF 3(1)] less.prems(2) show ?thesis by simp
  qed
qed

text \<open>C32: when Next gives a time, the job is enabled and the time is inside every bound of the job: not later than
  \<open>until\<close>, not earlier than \<open>after\<close>, inside the \<open>range\<close> (outside it when inverted), outside the skipped window
  and not an excluded instant. Unless the job has a negative offset, the time is later than now.\<close>

theorem next_inside_bounds:
  assumes "Job_Next j now = Some t"
  shows "jb_Enabled j \<and> in_bounds j t \<and> (0 \<le> jb_Offset j \<longrightarrow> now < t)"
  using assms next_loop_bounds next_loop_after by (auto simp: Job_Next_def split: if_splits)

subsection \<open>Listed times and intervals\<close>

definition when_job :: "Job \<Rightarrow> bool" where
  "when_job j \<longleftrightarrow> jb_Enabled j \<and> jb_Cron j = None \<and> jb_Once j = 0 \<and> jb_When j \<noteq> [] \<and> sorted (jb_When j) \<and> jb_Offset j = 0"

definition due_time :: "Job \<Rightarrow> int \<Rightarrow> int \<Rightarrow> bool" where
  "due_time j c t \<longleftrightarrow> c < t \<and> (jb_After j = 0 \<or> jb_After j \<le> t) \<and> \<not> blocked j t"

definition until_filter :: "Job \<Rightarrow> int option \<Rightarrow> int option" where
  "until_filter j r = (case r of None \<Rightarrow> None | Some t \<Rightarrow> if jb_Until j \<noteq> 0 \<and> t > jb_Until j then None else Some t)"

lemma find_sorted_least:
  assumes "sorted ts" "find P ts = Some n" "t \<in> set ts" "P t"
  shows "n \<le> t"
  using assms by (induction ts) (auto split: if_splits)

lemma find_SomeD: "find P ts = Some t \<Longrightarrow> t \<in> set ts \<and> P t"
  by (induction ts) (auto split: if_splits)

lemma find_narrow: "find P ts = Some n \<Longrightarrow> Q n \<Longrightarrow> (\<And>t. Q t \<Longrightarrow> P t) \<Longrightarrow> find Q ts = Some n"
  by (induction ts) (auto split: if_splits)

lemma filter_after_shorter:
  fixes n c d :: int
  assumes "n \<in> set ts" "c < n" "n \<le> d"
  shows "length (filter (\<lambda>t. d < t) ts) < length (filter (\<lambda>t. c < t) ts)"
proof -
  have "filter (\<lambda>t. d < t) ts = filter (\<lambda>t. d < t) (filter (\<lambda>t. c < t) ts)" using assms by (auto intro!: filter_cong)
  moreover have "length (filter (\<lambda>t. d < t) (filter (\<lambda>t. c < t) ts)) < length (filter (\<lambda>t. c < t) ts)"
    by (rule length_filter_less [of n]) (use assms in auto)
  ultimately show ?thesis by simp
qed

lemma when_loop:
  assumes "when_job j" and "int (length (filter (\<lambda>t. c < t) (jb_When j))) < next_limit - i"
  shows "next_loop j i c = until_filter j (find (due_time j c) (jb_When j))"
  using assms(2)
proof (induction "nat (next_limit - i)" arbitrary: i c rule: less_induct)
  case less
  have i: "i < next_limit" and dec: "nat (next_limit - (i + 1)) < nat (next_limit - i)" using less.prems by auto
  have cand: "nextCandidate j c = find (\<lambda>t. t > c) (jb_When j)" and offset: "jb_Offset j = 0" and srt: "sorted (jb_When j)"
    using assms(1) by (simp_all add: when_job_def nextCandidate_def)
  note step = next_loop.simps [of j i c] cand offset
  show ?case
  proof (cases "find (\<lambda>t. t > c) (jb_When j)")
    case None
    then have "find (due_time j c) (jb_When j) = None" by (auto simp: find_None_iff due_time_def)
    with None i show ?thesis by (simp add: step until_filter_def)
  next
    case (Some n)
    then have n: "n \<in> set (jb_When j)" "c < n" by (auto simp: find_Some_iff)
    have least: "n \<le> t" if "t \<in> set (jb_When j)" "c < t" for t
      using find_sorted_least [OF srt Some that] .
    have go: "next_loop j (i + 1) d = until_filter j (find (due_time j c) (jb_When j))"
      if d: "n \<le> d" and same: "\<And>t. t \<in> set (jb_When j) \<Longrightarrow> due_time j c t = due_time j d t" for d
    proof -
      have "next_loop j (i + 1) d = until_filter j (find (due_time j d) (jb_When j))"
        by (rule less.hyps [OF dec]) (use filter_after_shorter [OF n d] less.prems in simp)
      moreover have "find (due_time j c) (jb_When j) = find (due_time j d) (jb_When j)" by (rule find_cong [OF refl same])
      ultimately show ?thesis by simp
    qed
    show ?thesis
    proof (cases "jb_Until j \<noteq> 0 \<and> n > jb_Until j")
      case True
      have "until_filter j (find (due_time j c) (jb_When j)) = None"
      proof (cases "find (due_time j c) (jb_When j)")
        case found: (Some t)
        then have "t \<in> set (jb_When j) \<and> due_time j c t" by (rule find_SomeD)
        then have "n \<le> t" using least [of t] by (simp add: due_time_def)
        with True found show ?thesis by (simp add: until_filter_def)
      qed (simp add: until_filter_def)
      with True Some i show ?thesis by (simp add: step)
    next
      case False
      consider (early) "jb_After j \<noteq> 0" "n < jb_After j" | (shut) "jb_After j = 0 \<or> jb_After j \<le> n" "blocked j n"
        | (fires) "jb_After j = 0 \<or> jb_After j \<le> n" "\<not> blocked j n" by linarith
      then show ?thesis
      proof cases
        case early
        have "next_loop j (i + 1) (jb_After j - 1) = until_filter j (find (due_time j c) (jb_When j))"
          by (rule go) (use early n in \<open>auto simp: due_time_def\<close>)
        with False early Some i show ?thesis by (auto simp: step)
      next
        case shut
        have "next_loop j (i + 1) n = until_filter j (find (due_time j c) (jb_When j))"
        proof (rule go [OF order_refl])
          fix t assume "t \<in> set (jb_When j)"
          with least [of t] n shut(2) show "due_time j c t = due_time j n t" by (cases "t = n") (auto simp: due_time_def)
        qed
        with False shut Some i show ?thesis by (auto simp: step)
      next
        case fires
        have "find (due_time j c) (jb_When j) = Some n" by (rule find_narrow [OF Some]) (use fires n in \<open>auto simp: due_time_def\<close>)
        with False fires Some i show ?thesis by (auto simp: step until_filter_def)
      qed
    qed
  qed
qed

text \<open>C33: for a job without an offset that runs at listed times, given in order and fewer than 4096, Next is the
  first of them that is later than now, inside its windows and not before \<open>after\<close>, or nothing when that one is
  past \<open>until\<close>.\<close>

theorem when_next_is_first_listed:
  assumes "when_job j" and "length (jb_When j) < 4096"
  shows "Job_Next j now = until_filter j (find (due_time j now) (jb_When j))"
proof -
  have "int (length (filter (\<lambda>t. now < t) (jb_When j))) < next_limit - 0"
    using le_less_trans [OF length_filter_le assms(2), of "\<lambda>t. now < t"] by (simp add: next_limit_def)
  from when_loop [OF assms(1) this] assms(1) show ?thesis by (simp add: Job_Next_def when_job_def)
qed

definition sample_when :: Job where
  "sample_when = (new_Job ''window'' (''UTC'', fixed_zone 0))\<lparr>jb_When := [3, 7, 9], jb_SkipExplicit := [7]\<rparr>"

theorem when_next_is_first_listed_witness: "Job_Next sample_when 4 = Some 9"
proof -
  have "when_job sample_when" "length (jb_When sample_when) < 4096" by (simp_all add: sample_when_def when_job_def new_Job_def)
  from when_next_is_first_listed [OF this, of 4] show ?thesis
    by (simp add: sample_when_def new_Job_def due_time_def blocked_def until_filter_def)
qed

theorem next_inside_bounds_witness: "in_bounds sample_when 9 \<and> (4 :: int) < 9"
proof -
  have "Job_Next sample_when 4 = Some 9" by code_simp
  from next_inside_bounds [OF this] show ?thesis by (simp add: sample_when_def new_Job_def)
qed

text \<open>An interval job whose next candidates are all blocked: the loop uses up its rounds.\<close>

definition every_job :: "Job \<Rightarrow> bool" where
  "every_job j \<longleftrightarrow> jb_Enabled j \<and> jb_Cron j = None \<and> jb_Once j = 0 \<and> jb_When j = [] \<and> jb_Interval j > 0 \<and> jb_Offset j = 0"

lemma every_loop_exhausted:
  assumes "every_job j" "jb_After j = 0" "jb_LastRun j \<le> c"
    and "\<And>k. 1 \<le> k \<Longrightarrow> k \<le> next_limit - i \<Longrightarrow> blocked j (c + k * jb_Interval j)"
  shows "next_loop j i c = None"
  using assms(3,4)
proof (induction "nat (next_limit - i)" arbitrary: i c rule: less_induct)
  case less
  have nc: "nextCandidate j c = Some (c + jb_Interval j)" "jb_Offset j = 0"
    using assms(1) less.prems(1) by (auto simp: every_job_def nextCandidate_def)
  show ?case
  proof (cases "i < next_limit")
    case True
    have "blocked j (c + jb_Interval j)" using less.prems(2) [of 1] True by simp
    moreover have "next_loop j (i + 1) (c + jb_Interval j) = None"
    proof (rule less.hyps)
      show "jb_LastRun j \<le> c + jb_Interval j" using assms(1) less.prems(1) by (simp add: every_job_def)
      fix k :: int assume "1 \<le> k" "k \<le> next_limit - (i + 1)"
      with less.prems(2) [of "k + 1"] show "blocked j (c + jb_Interval j + k * jb_Interval j)" by (simp add: algebra_simps)
    qed (use True in simp)
    ultimately show ?thesis using assms(2) nc by (simp add: next_loop.simps [of j i c] Let_def)
  qed (simp add: next_loop.simps [of j i c])
qed

lemma every_next_exhausted:
  assumes "every_job j" "jb_After j = 0" "jb_LastRun j \<le> now"
    and "jb_SkipStart j \<noteq> 0" "jb_SkipStart j \<le> now" "now + 4096 * jb_Interval j \<le> jb_SkipEnd j" "jb_SkipEnd j \<noteq> 0"
  shows "Job_Next j now = None"
proof -
  have "blocked j (now + k * jb_Interval j)" if k: "1 \<le> k" "k \<le> next_limit - 0" for k
  proof -
    have "0 \<le> k * jb_Interval j" using k(1) assms(1) by (simp add: every_job_def)
    moreover have "k * jb_Interval j \<le> 4096 * jb_Interval j" using k(2) assms(1) by (intro mult_right_mono) (auto simp: next_limit_def every_job_def)
    ultimately show ?thesis using assms(4-7) by (simp add: blocked_def)
  qed
  from every_loop_exhausted [OF assms(1-3) this] show ?thesis by (simp add: Job_Next_def)
qed

end
