(* ===== verification/Scheduler.thy ===== *)
theory Scheduler
  imports Schedule
begin

text \<open>
  The engine of the scheduler (\<open>engine.go\<close>) and its control operations (\<open>control.go\<close>). What the lock protects is
  the record \<open>Engine\<close>; each operation that holds the lock throughout is one function on it. The goroutines of the
  running jobs and the loop that starts them are the record \<open>System\<close> with its step relation, in which every
  operation may come between the passes and starts of the loop. The clock is an argument of each step.
\<close>

subsection \<open>The engine\<close>

record Engine =
  en_Jobs :: "Job list"
  en_running :: "(string, int) gomap"
  en_due :: "(string, int) gomap"
  en_paused :: bool
  en_Location :: location

record JobRun =
  run_Job :: Job
  run_Fire :: int

definition markDue :: "string \<Rightarrow> int \<Rightarrow> Engine \<Rightarrow> Engine" where
  "markDue name at e = e\<lparr>en_due := gomap_put name at (en_due e)\<rparr>"

definition dropDue :: "string \<Rightarrow> Engine \<Rightarrow> Engine" where
  "dropDue name e = e\<lparr>en_due := gomap_del name (en_due e)\<rparr>"

definition Running_count :: "Engine \<Rightarrow> string \<Rightarrow> int" where
  "Running_count e name = (case gomap_get (en_running e) name of Some n \<Rightarrow> n | None \<Rightarrow> 0)"

definition claim :: "Job \<Rightarrow> Engine \<Rightarrow> bool \<times> Engine" where
  "claim job e =
     (if Running_count e (jb_Name job) \<ge> jb_MaxRunning job then (False, e)
      else (True, e\<lparr>en_running := gomap_put (jb_Name job) (Running_count e (jb_Name job) + 1) (en_running e)\<rparr>))"

definition release_slot :: "Job \<Rightarrow> Engine \<Rightarrow> Engine" where
  "release_slot job e =
     (if Running_count e (jb_Name job) > 0
      then e\<lparr>en_running := gomap_put (jb_Name job) (Running_count e (jb_Name job) - 1) (en_running e)\<rparr>
      else e)"

text \<open>One pass over the jobs: which are due, and when each of those is due again.\<close>

fun due_pass :: "int \<Rightarrow> Job list \<Rightarrow> (string, int) gomap \<Rightarrow> Job list \<times> (string, int) gomap \<times> JobRun list" where
  "due_pass now [] due = ([], due, [])"
| "due_pass now (job # jobs) due =
     (case gomap_get due (jb_Name job) of
        None \<Rightarrow> (let (js, d, rs) = due_pass now jobs due in (job # js, d, rs))
      | Some at \<Rightarrow>
          if now < at \<or> \<not> jb_Enabled job then (let (js, d, rs) = due_pass now jobs due in (job # js, d, rs))
          else
            let job1 = job\<lparr>jb_LastRun := now\<rparr>;
                due1 = (case Job_Next job1 now of
                          Some nxt \<Rightarrow> gomap_put (jb_Name job) nxt due
                        | None \<Rightarrow> gomap_del (jb_Name job) due);
                (js, d, rs) = due_pass now jobs due1
            in (job1 # js, d, \<lparr>run_Job = job1, run_Fire = at\<rparr> # rs))"

definition runDue :: "int \<Rightarrow> Engine \<Rightarrow> Engine \<times> JobRun list" where
  "runDue now e =
     (if en_paused e then (e, [])
      else let (js, d, rs) = due_pass now (en_Jobs e) (en_due e) in (e\<lparr>en_Jobs := js, en_due := d\<rparr>, rs))"

text \<open>What \<open>Run\<close> does for one job before its loop: the runs it starts, and when the job is due. The due time, which the
  code records after the starts, is recorded here in the same step as they are queued, and a job is taken as it
  stood when \<open>Run\<close> began.\<close>

definition boot_job :: "int \<Rightarrow> Job \<Rightarrow> Engine \<Rightarrow> Engine \<times> JobRun list" where
  "boot_job now job e =
     (if \<not> jb_Enabled job then (e, [])
      else
        let on_start = (if jb_RunOnStart job \<or> (case jb_Cron job of Some c \<Rightarrow> cr_Reboot c | None \<Rightarrow> False)
                        then [\<lparr>run_Job = job, run_Fire = now\<rparr>] else []);
            missed = (if jb_Catchup job \<and> jb_LastRun job \<noteq> 0
                      then (case Job_Next job (jb_LastRun job) of
                              Some m \<Rightarrow> if m < now then [\<lparr>run_Job = job, run_Fire = m\<rparr>] else []
                            | None \<Rightarrow> [])
                      else [])
        in (case Job_Next job now of Some nxt \<Rightarrow> markDue (jb_Name job) nxt e | None \<Rightarrow> e, on_start @ missed))"

subsection \<open>Control operations\<close>

definition not_scheduled :: "string \<Rightarrow> fmt_arg" where
  "not_scheduled name = FErr ''%s is not scheduled on this node'' [FStr name]"

definition Engine_Add :: "sched_env \<Rightarrow> int \<Rightarrow> string \<Rightarrow> vmap \<Rightarrow> Engine \<Rightarrow> fmt_arg + Engine" where
  "Engine_Add env now name body e =
     (if name = [] then Inl (FErr ''a scheduled job needs a name'' [])
      else case parseJob env name body (en_Location e) of
        Inl err \<Rightarrow> Inl err
      | Inr j \<Rightarrow>
          if list_ex (\<lambda>x. jb_Name x = name) (en_Jobs e)
          then Inl (FErr ''%s is already scheduled; `schedule.modify` changes one'' [FStr name])
          else
            let e1 = e\<lparr>en_Jobs := en_Jobs e @ [j]\<rparr>
            in Inr (case Job_Next j now of Some nxt \<Rightarrow> markDue name nxt e1 | None \<Rightarrow> e1))"

text \<open>The due time a changed job gets, or none.\<close>

definition redue :: "string \<Rightarrow> int option \<Rightarrow> Engine \<Rightarrow> Engine" where
  "redue name r e = (case r of Some nxt \<Rightarrow> markDue name nxt e | None \<Rightarrow> dropDue name e)"

definition Engine_Modify :: "sched_env \<Rightarrow> int \<Rightarrow> string \<Rightarrow> vmap \<Rightarrow> Engine \<Rightarrow> fmt_arg + Engine" where
  "Engine_Modify env now name body e =
     (case parseJob env name body (en_Location e) of
        Inl err \<Rightarrow> Inl err
      | Inr j \<Rightarrow>
          (case find_index (\<lambda>x. jb_Name x = name) (en_Jobs e) of
             None \<Rightarrow> Inl (not_scheduled name)
           | Some i \<Rightarrow>
               let existing = en_Jobs e ! i;
                   j1 = (if Map_GetString body ''enabled'' = None then j\<lparr>jb_Enabled := jb_Enabled existing\<rparr> else j);
                   j2 = j1\<lparr>jb_LastRun := jb_LastRun existing\<rparr>
               in Inr (redue name (Job_Next j2 now) (e\<lparr>en_Jobs := (en_Jobs e)[i := j2]\<rparr>))))"

definition Engine_Delete :: "string \<Rightarrow> Engine \<Rightarrow> fmt_arg + Engine" where
  "Engine_Delete name e =
     (case find_index (\<lambda>x. jb_Name x = name) (en_Jobs e) of
        None \<Rightarrow> Inl (not_scheduled name)
      | Some i \<Rightarrow> Inr (dropDue name (e\<lparr>en_Jobs := take i (en_Jobs e) @ drop (i + 1) (en_Jobs e)\<rparr>)))"

definition Engine_SetEnabled :: "int \<Rightarrow> string \<Rightarrow> bool \<Rightarrow> Engine \<Rightarrow> fmt_arg + Engine" where
  "Engine_SetEnabled now name on e =
     (if name = [] then Inr (e\<lparr>en_paused := \<not> on\<rparr>)
      else case find_index (\<lambda>x. jb_Name x = name) (en_Jobs e) of
        None \<Rightarrow> Inl (not_scheduled name)
      | Some i \<Rightarrow>
          let j = (en_Jobs e ! i)\<lparr>jb_Enabled := on\<rparr>
          in Inr (redue name (if on then Job_Next j now else None) (e\<lparr>en_Jobs := (en_Jobs e)[i := j]\<rparr>)))"

text \<open>The run that \<open>RunJob\<close> hands to \<open>Execute\<close>; it takes no slot and changes nothing.\<close>

definition Engine_RunJob :: "int \<Rightarrow> string \<Rightarrow> bool \<Rightarrow> Engine \<Rightarrow> fmt_arg + JobRun" where
  "Engine_RunJob now name has_Execute e =
     (case find (\<lambda>j. jb_Name j = name) (en_Jobs e) of
        None \<Rightarrow> Inl (not_scheduled name)
      | Some j \<Rightarrow>
          if \<not> has_Execute then Inl (FErr ''this node has nowhere to send a scheduled job'' [])
          else Inr \<lparr>run_Job = j, run_Fire = now\<rparr>)"

fun replace_jobs :: "int \<Rightarrow> (string, int) gomap \<Rightarrow> Job list \<Rightarrow> (string, int) gomap \<Rightarrow> Job list \<times> (string, int) gomap" where
  "replace_jobs now previous [] due = ([], due)"
| "replace_jobs now previous (j # js) due =
     (let j1 = (case gomap_get previous (jb_Name j) of Some before \<Rightarrow> j\<lparr>jb_LastRun := before\<rparr> | None \<Rightarrow> j);
          due1 = (case Job_Next j1 now of Some nxt \<Rightarrow> gomap_put (jb_Name j) nxt due | None \<Rightarrow> due);
          (js1, d) = replace_jobs now previous js due1
      in (j1 # js1, d))"

definition Engine_Replace :: "int \<Rightarrow> Job list \<Rightarrow> Engine \<Rightarrow> Engine" where
  "Engine_Replace now jobs e =
     (let previous = fold (\<lambda>j m. gomap_put (jb_Name j) (jb_LastRun j) m) (en_Jobs e) [];
          (js, d) = replace_jobs now previous jobs []
      in e\<lparr>en_Jobs := js, en_due := d\<rparr>)"

definition Engine_NextFireTime :: "int \<Rightarrow> string \<Rightarrow> Engine \<Rightarrow> fmt_arg + int option" where
  "Engine_NextFireTime now name e =
     (case find (\<lambda>j. jb_Name j = name) (en_Jobs e) of
        None \<Rightarrow> Inl (not_scheduled name)
      | Some j \<Rightarrow> Inr (if en_paused e then None else Job_Next j now))"

subsection \<open>Listing and saving\<close>

definition set_str :: "vmap \<Rightarrow> string \<Rightarrow> val \<Rightarrow> vmap" where
  "set_str m k v = Map_Set m (KStr k) v"

definition set_all :: "vmap \<Rightarrow> (string \<times> val) list \<Rightarrow> vmap" where
  "set_all m kvs = foldl (\<lambda>m (k, v). set_str m k v) m kvs"

definition call_settings :: "Job \<Rightarrow> (string \<times> val) list" where
  "call_settings j =
     [(''function'', VStr (jb_Function j))] @
     (if length (jb_Args j) > 0 then [(''args'', VSeq (map VStr (jb_Args j)))] else []) @
     (case jb_Kwargs j of Some m \<Rightarrow> if Map_Len m > 0 then [(''kwargs'', VMap m)] else [] | None \<Rightarrow> [])"

definition timing_settings :: "sched_env \<Rightarrow> string \<Rightarrow> Job \<Rightarrow> (string \<times> val) list" where
  "timing_settings env layout j =
     (case jb_Cron j of
        Some c \<Rightarrow> [(''cron'', VStr (cr_Expr c))]
      | None \<Rightarrow>
          if jb_Interval j > 0 then [(''every'', VStr (se_DurationString env (jb_Interval j)))]
          else if jb_Once j \<noteq> 0 then [(''once'', VStr (se_Format env layout (jb_Location j) (jb_Once j)))]
          else if length (jb_When j) > 0
          then [(''when'', VSeq (map (\<lambda>t. VStr (se_Format env layout (jb_Location j) t)) (jb_When j)))]
          else [])"

definition metadata_setting :: "Job \<Rightarrow> (string \<times> val) list" where
  "metadata_setting j = (case jb_Metadata j of Some m \<Rightarrow> if Map_Len m > 0 then [(''metadata'', VMap m)] else [] | None \<Rightarrow> [])"

definition rfc3339 :: string where "rfc3339 = ''2006-01-02T15:04:05Z07:00''"

definition Describe_job :: "sched_env \<Rightarrow> Job \<Rightarrow> int \<Rightarrow> vmap" where
  "Describe_job env j now =
     set_all NewMap
       (call_settings j @ timing_settings env rfc3339 j @
        (if jb_Splay j > 0 then [(''splay'', VStr (se_DurationString env (jb_Splay j)))] else []) @
        (if jb_MaxRunning j \<noteq> 1 then [(''maxrunning'', VInt (jb_MaxRunning j))] else []) @
        [(''return_job'', VBool (jb_ReturnJob j)), (''enabled'', VBool (jb_Enabled j)),
         (''timezone'', VStr (fst (jb_Location j)))] @
        metadata_setting j @
        [(''next_fire_time'', case Job_Next j now of Some nxt \<Rightarrow> VStr (se_Format env rfc3339 (jb_Location j) nxt) | None \<Rightarrow> VNull)])"

definition Engine_List :: "sched_env \<Rightarrow> int \<Rightarrow> Engine \<Rightarrow> vmap" where
  "Engine_List env now e =
     set_all NewMap
       (map (\<lambda>j. (jb_Name j, VMap (let entry1 = Describe_job env j now in
                   if en_paused e then set_all entry1 [(''enabled'', VBool False), (''next_fire_time'', VNull)] else entry1)))
         (sort_key jb_Name (en_Jobs e)))"

definition saved_settings :: "sched_env \<Rightarrow> Job \<Rightarrow> (string \<times> val) list" where
  "saved_settings env j =
     call_settings j @ timing_settings env ''2006-01-02T15:04:05'' j @
     (if jb_Splay j > 0 then [(''splay'', VInt (se_WholeSeconds env (jb_Splay j)))] else []) @
     (if jb_MaxRunning j \<noteq> 1 then [(''maxrunning'', VInt (jb_MaxRunning j))] else []) @
     (if \<not> jb_ReturnJob j then [(''return_job'', VBool False)] else []) @
     (if jb_RunOnStart j then [(''run_on_start'', VBool True)] else []) @
     (if jb_Catchup j then [(''catchup'', VBool True)] else []) @
     (if \<not> jb_Enabled j then [(''enabled'', VBool False)] else []) @
     metadata_setting j"

definition snapshot_entry :: "sched_env \<Rightarrow> Job \<Rightarrow> vmap" where
  "snapshot_entry env j = set_all NewMap (saved_settings env j)"

definition Snapshot :: "sched_env \<Rightarrow> Engine \<Rightarrow> vmap" where
  "Snapshot env e =
     set_all NewMap (map (\<lambda>j. (jb_Name j, VMap (snapshot_entry env j))) (sort_key jb_Name (en_Jobs e)))"

subsection \<open>The system\<close>

text \<open>\<open>sy_Booting\<close> are the jobs \<open>Run\<close> has not looked at yet, \<open>sy_Pending\<close> the runs it has still to start in this pass,
  \<open>sy_Flight\<close> the goroutines that hold a slot, and \<open>sy_Direct\<close> the runs \<open>RunJob\<close> waits for, which hold none.\<close>

record System =
  sy_Engine :: Engine
  sy_Booting :: "Job list"
  sy_Pending :: "JobRun list"
  sy_Flight :: "JobRun list"
  sy_Direct :: "JobRun list"

definition Engine_Run :: "Engine \<Rightarrow> System" where
  "Engine_Run e =
     \<lparr>sy_Engine = e\<lparr>en_running := []\<rparr>, sy_Booting = en_Jobs e, sy_Pending = [], sy_Flight = [], sy_Direct = []\<rparr>"

definition start_run :: "JobRun \<Rightarrow> System \<Rightarrow> System" where
  "start_run r s =
     (let (ok, e) = claim (run_Job r) (sy_Engine s)
      in s\<lparr>sy_Engine := e, sy_Flight := if ok then r # sy_Flight s else sy_Flight s\<rparr>)"

definition finish_run :: "JobRun \<Rightarrow> System \<Rightarrow> System" where
  "finish_run r s = s\<lparr>sy_Engine := release_slot (run_Job r) (sy_Engine s), sy_Flight := remove1 r (sy_Flight s)\<rparr>"

text \<open>What the scheduler does by itself, as time passes.\<close>

inductive clock_step :: "System \<Rightarrow> System \<Rightarrow> bool" where
  boot: "sy_Booting s = j # js \<Longrightarrow> sy_Pending s = [] \<Longrightarrow> boot_job now j (sy_Engine s) = (e, rs) \<Longrightarrow>
    clock_step s (s\<lparr>sy_Engine := e, sy_Booting := js, sy_Pending := rs\<rparr>)"
| tick: "sy_Booting s = [] \<Longrightarrow> sy_Pending s = [] \<Longrightarrow> runDue now (sy_Engine s) = (e, rs) \<Longrightarrow>
    clock_step s (s\<lparr>sy_Engine := e, sy_Pending := rs\<rparr>)"
| start: "sy_Pending s = r # rs \<Longrightarrow> clock_step s (start_run r (s\<lparr>sy_Pending := rs\<rparr>))"
| finish: "r \<in> set (sy_Flight s) \<Longrightarrow> clock_step s (finish_run r s)"

text \<open>The control operations that change the engine; \<open>RunJob\<close>, which does not, is a step of the system.\<close>

inductive control_step :: "sched_env \<Rightarrow> Engine \<Rightarrow> Engine \<Rightarrow> bool" for env where
  add: "Engine_Add env now name body e = Inr e1 \<Longrightarrow> control_step env e e1"
| modify: "Engine_Modify env now name body e = Inr e1 \<Longrightarrow> control_step env e e1"
| delete: "Engine_Delete name e = Inr e1 \<Longrightarrow> control_step env e e1"
| enable: "Engine_SetEnabled now name on e = Inr e1 \<Longrightarrow> control_step env e e1"
| replace: "control_step env e (Engine_Replace now jobs e)"

inductive sched_reach :: "sched_env \<Rightarrow> System \<Rightarrow> bool" for env where
  init: "sched_reach env (Engine_Run e)"
| clock: "sched_reach env s \<Longrightarrow> clock_step s s1 \<Longrightarrow> sched_reach env s1"
| control: "sched_reach env s \<Longrightarrow> control_step env (sy_Engine s) e \<Longrightarrow> sched_reach env (s\<lparr>sy_Engine := e\<rparr>)"
| run_job: "sched_reach env s \<Longrightarrow> Engine_RunJob now name True (sy_Engine s) = Inr r \<Longrightarrow>
    sched_reach env (s\<lparr>sy_Direct := r # sy_Direct s\<rparr>)"
| run_job_returns: "sched_reach env s \<Longrightarrow> r \<in> set (sy_Direct s) \<Longrightarrow>
    sched_reach env (s\<lparr>sy_Direct := remove1 r (sy_Direct s)\<rparr>)"

inductive clock_reach :: "System \<Rightarrow> System \<Rightarrow> bool" where
  here: "clock_reach s s"
| later: "clock_reach s s1 \<Longrightarrow> clock_step s1 s2 \<Longrightarrow> clock_reach s s2"

end
