(* ===== verification/Scheduling.thy ===== *)
theory Scheduling
  imports "HOL-Library.Sublist" Scheduler
begin

text \<open>
  What the scheduler keeps: the count of running jobs is the number of goroutines that hold a slot, so a job never
  runs more often than its limit; a pass starts every job that is due; a saved schedule reads back.
\<close>

subsection \<open>A sample schedule\<close>

text \<open>A node that polls every second and skips an hour and a half, with a runtime that writes durations as
  nanoseconds.\<close>

definition demo_sched_env :: sched_env where
  "demo_sched_env = \<lparr>se_rt = no_runtime\<lparr>rt_ParseDuration := atoi, rt_FloatOfInt := (\<lambda>n. GoFloat (format_int n))\<rparr>, se_LoadLocation = (\<lambda>s. Inr (s, fixed_zone 0)),
     se_ParseInLocation = (\<lambda>_ _ _. None), se_Year = (\<lambda>t z. fst (zn_wall z t)), se_OnDay = (\<lambda>t now days z. now + days * 86400000000000),
     se_Now = 1, se_FloatUnits = (\<lambda>_ _. 0), se_FloatTrunc = (\<lambda>f. the (atoi (float_text f))), se_Format = (\<lambda>_ _ t. format_int t),
     se_DurationString = format_int, se_WholeSeconds = (\<lambda>d. d div 1000000000)\<rparr>"

definition poll_job :: Job where
  "poll_job = (new_Job ''poll'' (''UTC'', fixed_zone 0))\<lparr>jb_Function := ''grains.items'', jb_Interval := 1000000000\<rparr>"

definition skipping_job :: Job where
  "skipping_job = poll_job\<lparr>jb_SkipStart := 10000000000, jb_SkipEnd := 5410000000000\<rparr>"

definition engine_of :: "Job \<Rightarrow> Engine" where
  "engine_of j = \<lparr>en_Jobs = [j], en_running = [], en_due = [(jb_Name j, 12000000000)], en_paused = False, en_Location = jb_Location j\<rparr>"

definition poll_engine :: Engine where
  "poll_engine = engine_of poll_job"

subsection \<open>Slots\<close>

definition in_flight :: "System \<Rightarrow> string \<Rightarrow> nat" where
  "in_flight s name = length (filter (\<lambda>r. jb_Name (run_Job r) = name) (sy_Flight s))"

definition slots_exact :: "System \<Rightarrow> bool" where
  "slots_exact s \<longleftrightarrow> (\<forall>name. Running_count (sy_Engine s) name = int (in_flight s name))"

lemma slots_exact_cong:
  "en_running (sy_Engine s1) = en_running (sy_Engine s) \<Longrightarrow> sy_Flight s1 = sy_Flight s \<Longrightarrow> slots_exact s1 = slots_exact s"
  by (simp add: slots_exact_def in_flight_def Running_count_def)

lemma markDue_running [simp]: "en_running (markDue name at e) = en_running e"
  by (simp add: markDue_def)

lemma dropDue_running [simp]: "en_running (dropDue name e) = en_running e"
  by (simp add: dropDue_def)

lemma redue_running [simp]: "en_running (redue name r e) = en_running e"
  by (simp add: redue_def split: option.splits)

lemma runDue_running: "en_running (fst (runDue now e)) = en_running e"
  by (simp add: runDue_def split: prod.splits)

lemma boot_job_running: "en_running (fst (boot_job now j e)) = en_running e"
  by (simp add: boot_job_def Let_def split: option.splits)

lemma control_running: "control_step env e e1 \<Longrightarrow> en_running e1 = en_running e"
proof (induction rule: control_step.induct)
  case (add now name body e e1)
  then show ?case by (auto simp: Engine_Add_def Let_def split: if_splits sum.splits option.splits)
next
  case (modify now name body e e1)
  then show ?case by (auto simp: Engine_Modify_def Let_def split: sum.splits option.splits)
next
  case (delete name e e1)
  then show ?case by (auto simp: Engine_Delete_def split: option.splits)
next
  case (enable now name on e e1)
  then show ?case by (auto simp: Engine_SetEnabled_def Let_def split: if_splits option.splits)
next
  case (replace e now jobs)
  then show ?case by (simp add: Engine_Replace_def Let_def split: prod.splits)
qed

lemma length_filter_remove1:
  "x \<in> set xs \<Longrightarrow> length (filter P xs) = length (filter P (remove1 x xs)) + (if P x then 1 else 0)"
  by (induction xs) auto

lemma start_slots:
  assumes "slots_exact s"
  shows "slots_exact (start_run r s)"
  using assms
  by (auto simp: slots_exact_def in_flight_def start_run_def claim_def Running_count_def gomap_get_put split: if_splits)

lemma finish_slots:
  assumes "slots_exact s" "r \<in> set (sy_Flight s)"
  shows "slots_exact (finish_run r s)"
proof -
  let ?n = "jb_Name (run_Job r)"
  note len = length_filter_remove1 [OF assms(2)]
  have "Running_count (sy_Engine s) ?n > 0" using assms by (auto simp: slots_exact_def in_flight_def filter_empty_conv)
  with assms(1) len show ?thesis
    by (auto simp: slots_exact_def in_flight_def finish_run_def release_slot_def Running_count_def gomap_get_put)
qed

lemma clock_slots: "clock_step s s1 \<Longrightarrow> slots_exact s \<Longrightarrow> slots_exact s1"
proof (induction rule: clock_step.induct)
  case (boot s j js now e rs)
  with boot_job_running [of now j "sy_Engine s"] show ?case by (simp add: slots_exact_def in_flight_def Running_count_def)
next
  case (tick s now e rs)
  with runDue_running [of now "sy_Engine s"] show ?case by (simp add: slots_exact_def in_flight_def Running_count_def)
next
  case (start s r rs)
  then have "slots_exact (s\<lparr>sy_Pending := rs\<rparr>)" by (simp add: slots_exact_def in_flight_def)
  then show ?case by (rule start_slots)
next
  case (finish r s)
  from finish(2,1) show ?case by (rule finish_slots)
qed

lemma reach_slots: "sched_reach env s \<Longrightarrow> slots_exact s"
proof (induction rule: sched_reach.induct)
  case (init e)
  then show ?case by (simp add: slots_exact_def in_flight_def Engine_Run_def Running_count_def)
next
  case (clock s s1)
  then show ?case by (blast intro: clock_slots)
next
  case (control s e)
  then show ?case using control_running [OF control(2)] by (simp add: slots_exact_def in_flight_def Running_count_def)
qed (simp_all add: slots_exact_def in_flight_def)

text \<open>C31: invariant: however starts, finished runs, passes and control operations interleave, direct runs through
  \<open>RunJob\<close> among them, the count the engine keeps for a job is the number of the runs it started itself that have not
  finished, and starting a run never makes that number exceed the \<open>maxrunning\<close> of the run's job unless it was
  exceeded already, in which case nothing is started. A direct run takes no slot and is not counted.\<close>

theorem running_counts_are_exact:
  assumes "sched_reach env s"
  shows "Running_count (sy_Engine s) name = int (in_flight s name) \<and>
    (in_flight (start_run r s) name = in_flight s name \<or>
     name = jb_Name (run_Job r) \<and> int (in_flight (start_run r s) name) \<le> jb_MaxRunning (run_Job r))"
  using reach_slots [OF assms]
  by (auto simp: slots_exact_def in_flight_def start_run_def claim_def split: if_splits)

theorem running_counts_are_exact_witness:
  "Engine_RunJob 4 ''poll'' True (sy_Engine (Engine_Run poll_engine)) = Inr \<lparr>run_Job = poll_job, run_Fire = 4\<rparr> \<and>
   (let s = (Engine_Run poll_engine)\<lparr>sy_Direct := [\<lparr>run_Job = poll_job, run_Fire = 4\<rparr>]\<rparr> in
    Running_count (sy_Engine s) ''poll'' = int (in_flight s ''poll'') \<and>
    int (in_flight (start_run \<lparr>run_Job = poll_job, run_Fire = 5\<rparr> s) ''poll'') \<le> jb_MaxRunning poll_job)"
proof -
  have r: "Engine_RunJob 4 ''poll'' True (sy_Engine (Engine_Run poll_engine)) = Inr \<lparr>run_Job = poll_job, run_Fire = 4\<rparr>"
    by (simp add: Engine_RunJob_def Engine_Run_def poll_engine_def engine_of_def poll_job_def new_Job_def)
  let ?s = "(Engine_Run poll_engine)\<lparr>sy_Direct := [\<lparr>run_Job = poll_job, run_Fire = 4\<rparr>]\<rparr>"
  have "sched_reach demo_sched_env ?s"
    using sched_reach.run_job [OF sched_reach.init r] by (simp add: Engine_Run_def)
  from running_counts_are_exact [OF this, of "''poll''" "\<lparr>run_Job = poll_job, run_Fire = 5\<rparr>"] r show ?thesis
    by (auto simp: Let_def in_flight_def Engine_Run_def poll_job_def new_Job_def)
qed

subsection \<open>A pass\<close>

text \<open>The pass over the rest of the jobs, whatever the first one did.\<close>

abbreviation due_again :: "int \<Rightarrow> Job \<Rightarrow> (string, int) gomap \<Rightarrow> (string, int) gomap" where
  "due_again now job due \<equiv>
     (case Job_Next (job\<lparr>jb_LastRun := now\<rparr>) now of Some nxt \<Rightarrow> gomap_put (jb_Name job) nxt due | None \<Rightarrow> gomap_del (jb_Name job) due)"

lemma due_pass_due:
  assumes "gomap_get due (jb_Name job) = Some at" "at \<le> now" "jb_Enabled job" "due_pass now (job # jobs) due = (js, d, rs)"
  obtains js1 rs1 where "due_pass now jobs (due_again now job due) = (js1, d, rs1)"
    "js = job\<lparr>jb_LastRun := now\<rparr> # js1" "rs = \<lparr>run_Job = job\<lparr>jb_LastRun := now\<rparr>, run_Fire = at\<rparr> # rs1"
  using assms by (cases "due_pass now jobs (due_again now job due)") (simp add: Let_def)

lemma due_pass_not_due:
  assumes "\<forall>at. gomap_get due (jb_Name job) = Some at \<longrightarrow> now < at \<or> \<not> jb_Enabled job" "due_pass now (job # jobs) due = (js, d, rs)"
  obtains js1 where "due_pass now jobs due = (js1, d, rs)" "js = job # js1"
  using assms by (cases "due_pass now jobs due") (auto simp: Let_def split: option.splits)

lemma due_pass_rest:
  assumes "due_pass now (job # jobs) due = (js, d, rs)"
  obtains due1 js1 rs1 where "due_pass now jobs due1 = (js1, d, rs1)" "\<forall>n. n \<noteq> jb_Name job \<longrightarrow> gomap_get due1 n = gomap_get due n"
    "set rs1 \<subseteq> set rs" "\<forall>r \<in> set rs - set rs1. jb_Name (run_Job r) = jb_Name job \<and> gomap_get due (jb_Name job) \<noteq> None"
    "\<forall>n. gomap_get due n = None \<longrightarrow> gomap_get due1 n = None"
proof (cases "\<exists>at. gomap_get due (jb_Name job) = Some at \<and> at \<le> now \<and> jb_Enabled job")
  case True
  then obtain at js1 rs1 where r: "gomap_get due (jb_Name job) = Some at" "due_pass now jobs (due_again now job due) = (js1, d, rs1)"
    "rs = \<lparr>run_Job = job\<lparr>jb_LastRun := now\<rparr>, run_Fire = at\<rparr> # rs1"
    using due_pass_due [OF _ _ _ assms] by metis
  show ?thesis by (rule that [OF r(2)]) (use r in \<open>auto split: option.splits\<close>)
next
  case False
  then obtain js1 where "due_pass now jobs due = (js1, d, rs)" using due_pass_not_due [OF _ assms] by (metis not_less)
  then show ?thesis by (rule that) auto
qed

lemma due_pass_other:
  assumes "name \<notin> jb_Name ` set jobs" "due_pass now jobs due = (js, d, rs)"
  shows "gomap_get d name = gomap_get due name"
  using assms
proof (induction jobs arbitrary: due js d rs)
  case (Cons job jobs)
  from Cons.prems(2) obtain due1 js1 rs1 where rest: "due_pass now jobs due1 = (js1, d, rs1)" "\<forall>n. n \<noteq> jb_Name job \<longrightarrow> gomap_get due1 n = gomap_get due n"
    "set rs1 \<subseteq> set rs" "\<forall>r \<in> set rs - set rs1. jb_Name (run_Job r) = jb_Name job \<and> gomap_get due (jb_Name job) \<noteq> None"
    "\<forall>n. gomap_get due n = None \<longrightarrow> gomap_get due1 n = None" by (rule due_pass_rest)
  with Cons.IH [of due1 js1 d rs1] Cons.prems(1) show ?case by auto
qed simp

text \<open>A job that is due is started and due again at its next time.\<close>

lemma due_pass_starts:
  assumes "distinct (map jb_Name jobs)" "j \<in> set jobs" "gomap_get due (jb_Name j) = Some at" "at \<le> now" "jb_Enabled j"
    "due_pass now jobs due = (js, d, rs)"
  shows "\<lparr>run_Job = j\<lparr>jb_LastRun := now\<rparr>, run_Fire = at\<rparr> \<in> set rs \<and>
    gomap_get d (jb_Name j) = Job_Next (j\<lparr>jb_LastRun := now\<rparr>) now"
  using assms
proof (induction jobs arbitrary: due js d rs)
  case (Cons job jobs)
  show ?case
  proof (cases "job = j")
    case True
    obtain js1 rs1 where rest: "due_pass now jobs (due_again now j due) = (js1, d, rs1)"
      "rs = \<lparr>run_Job = j\<lparr>jb_LastRun := now\<rparr>, run_Fire = at\<rparr> # rs1"
      using due_pass_due [OF Cons.prems(3,4,5), of jobs js d rs] Cons.prems(6) True by metis
    have "gomap_get d (jb_Name j) = gomap_get (due_again now j due) (jb_Name j)"
      by (rule due_pass_other [OF _ rest(1)]) (use Cons.prems(1) True in auto)
    with rest(2) show ?thesis by (auto split: option.splits)
  next
    case False
    then have j: "j \<in> set jobs" "jb_Name j \<noteq> jb_Name job" "distinct (map jb_Name jobs)" using Cons.prems(1,2) by (auto intro: rev_image_eqI)
    from Cons.prems(6) obtain due1 js1 rs1 where rest: "due_pass now jobs due1 = (js1, d, rs1)" "\<forall>n. n \<noteq> jb_Name job \<longrightarrow> gomap_get due1 n = gomap_get due n"
    "set rs1 \<subseteq> set rs" "\<forall>r \<in> set rs - set rs1. jb_Name (run_Job r) = jb_Name job \<and> gomap_get due (jb_Name job) \<noteq> None"
    "\<forall>n. gomap_get due n = None \<longrightarrow> gomap_get due1 n = None" by (rule due_pass_rest)
    have "gomap_get due1 (jb_Name j) = Some at" using rest(2) j(2) Cons.prems(3) by simp
    from Cons.IH [OF j(3,1) this Cons.prems(4,5) rest(1)] rest(3) show ?thesis by auto
  qed
qed simp

text \<open>A job that is not due is not started and does not become due.\<close>

lemma due_pass_absent:
  assumes "gomap_get due name = None" "due_pass now jobs due = (js, d, rs)"
  shows "gomap_get d name = None \<and> (\<forall>r \<in> set rs. jb_Name (run_Job r) \<noteq> name)"
  using assms
proof (induction jobs arbitrary: due js d rs)
  case (Cons job jobs)
  from Cons.prems(2) obtain due1 js1 rs1 where rest: "due_pass now jobs due1 = (js1, d, rs1)" "\<forall>n. n \<noteq> jb_Name job \<longrightarrow> gomap_get due1 n = gomap_get due n"
    "set rs1 \<subseteq> set rs" "\<forall>r \<in> set rs - set rs1. jb_Name (run_Job r) = jb_Name job \<and> gomap_get due (jb_Name job) \<noteq> None"
    "\<forall>n. gomap_get due n = None \<longrightarrow> gomap_get due1 n = None" by (rule due_pass_rest)
  have "gomap_get due1 name = None" using rest(5) Cons.prems(1) by blast
  from Cons.IH [OF this rest(1)] rest(4) Cons.prems(1) show ?case by fastforce
qed simp

subsection \<open>Starting what is due\<close>

lemma start_run_grows: "set (sy_Flight s) \<subseteq> set (sy_Flight (start_run r s))" "in_flight s name \<le> in_flight (start_run r s) name"
  by (auto simp: start_run_def in_flight_def claim_def)

lemma start_all_grows:
  "set (sy_Flight s) \<subseteq> set (sy_Flight (fold start_run rs s)) \<and> in_flight s name \<le> in_flight (fold start_run rs s) name"
proof (induction rs arbitrary: s)
  case (Cons r rs)
  from Cons [of "start_run r s"] start_run_grows(1) [of s r] start_run_grows(2) [of s name r] show ?case by auto
qed simp

lemma start_run_starts:
  "slots_exact s \<Longrightarrow> r \<in> set (sy_Flight (start_run r s)) \<or> jb_MaxRunning (run_Job r) \<le> int (in_flight (start_run r s) (jb_Name (run_Job r)))"
  by (auto simp: start_run_def claim_def slots_exact_def in_flight_def)

lemma start_all_starts:
  assumes "slots_exact s" and "r \<in> set rs"
  shows "r \<in> set (sy_Flight (fold start_run rs s)) \<or>
    jb_MaxRunning (run_Job r) \<le> int (in_flight (fold start_run rs s) (jb_Name (run_Job r)))"
  using assms
proof (induction rs arbitrary: s)
  case (Cons q rs)
  show ?case
  proof (cases "r = q")
    case True
    let ?s = "start_run q s"
    have "set (sy_Flight ?s) \<subseteq> set (sy_Flight (fold start_run rs ?s))"
      "int (in_flight ?s (jb_Name (run_Job q))) \<le> int (in_flight (fold start_run rs ?s) (jb_Name (run_Job q)))"
      using start_all_grows [of ?s rs "jb_Name (run_Job q)"] by simp_all
    with start_run_starts [OF Cons.prems(1), of q] True show ?thesis by auto
  next
    case False
    with Cons start_slots show ?thesis by simp
  qed
qed simp

text \<open>C30: A pass misses nothing: when the schedule is not paused, every enabled job whose time has come is, once the pass has
  started its runs, in flight with the time it was due at, or as many of its runs are in flight as it may have.
  The job is then due again at the time Next gives, and is no longer due when Next gives none.\<close>

theorem pass_starts_every_due_job:
  assumes "sched_reach env s" and "\<not> en_paused (sy_Engine s)" and "distinct (map jb_Name (en_Jobs (sy_Engine s)))"
    and "j \<in> set (en_Jobs (sy_Engine s))" and "jb_Enabled j" and "gomap_get (en_due (sy_Engine s)) (jb_Name j) = Some at" and "at \<le> now"
    and "runDue now (sy_Engine s) = (e, rs)" and "s1 = fold start_run rs (s\<lparr>sy_Engine := e\<rparr>)"
  shows "(\<lparr>run_Job = j\<lparr>jb_LastRun := now\<rparr>, run_Fire = at\<rparr> \<in> set (sy_Flight s1) \<or> jb_MaxRunning j \<le> int (in_flight s1 (jb_Name j))) \<and>
    gomap_get (en_due e) (jb_Name j) = Job_Next (j\<lparr>jb_LastRun := now\<rparr>) now"
proof -
  obtain js d rs1 where p: "due_pass now (en_Jobs (sy_Engine s)) (en_due (sy_Engine s)) = (js, d, rs1)" by (metis prod_cases3)
  with assms(2,8) have e: "rs1 = rs" "en_due e = d" by (auto simp: runDue_def)
  from due_pass_starts [OF assms(3,4,6,7,5) p] e
  have r: "\<lparr>run_Job = j\<lparr>jb_LastRun := now\<rparr>, run_Fire = at\<rparr> \<in> set rs" and d: "gomap_get (en_due e) (jb_Name j) = Job_Next (j\<lparr>jb_LastRun := now\<rparr>) now" by simp_all
  have "slots_exact (s\<lparr>sy_Engine := e\<rparr>)"
    using reach_slots [OF assms(1)] runDue_running [of now "sy_Engine s"] assms(8) by (simp add: slots_exact_def in_flight_def Running_count_def)
  from start_all_starts [OF this r] d show ?thesis by (simp add: assms(9))
qed

theorem pass_starts_every_due_job_witness:
  "\<exists>e rs. runDue 13000000000 (sy_Engine (Engine_Run poll_engine)) = (e, rs) \<and>
    gomap_get (en_due e) ''poll'' = Job_Next (poll_job\<lparr>jb_LastRun := 13000000000\<rparr>) 13000000000"
proof -
  obtain e rs where r: "runDue 13000000000 (sy_Engine (Engine_Run poll_engine)) = (e, rs)" by fastforce
  have "gomap_get (en_due e) (jb_Name poll_job) = Job_Next (poll_job\<lparr>jb_LastRun := 13000000000\<rparr>) 13000000000"
    by (rule pass_starts_every_due_job [OF sched_reach.init [of demo_sched_env] _ _ _ _ _ _ r refl, of poll_job 12000000000, THEN conjunct2])
      (simp_all add: Engine_Run_def poll_engine_def engine_of_def poll_job_def new_Job_def)
  with r show ?thesis by (simp add: poll_job_def new_Job_def)
qed

subsection \<open>Jobs that are never due again\<close>

definition gone :: "string \<Rightarrow> System \<Rightarrow> bool" where
  "gone name s \<longleftrightarrow> gomap_get (en_due (sy_Engine s)) name = None \<and> sy_Booting s = [] \<and>
     (\<forall>r \<in> set (sy_Pending s). jb_Name (run_Job r) \<noteq> name)"

lemma gone_step: "clock_step s s1 \<Longrightarrow> gone name s \<Longrightarrow> gone name s1"
proof (induction rule: clock_step.induct)
  case (boot s j js now e rs)
  then show ?case by (simp add: gone_def)
next
  case (tick s now e rs)
  obtain js d rs1 where p: "due_pass now (en_Jobs (sy_Engine s)) (en_due (sy_Engine s)) = (js, d, rs1)" by (metis prod_cases3)
  with tick due_pass_absent [OF _ p, of name] show ?case by (auto simp: gone_def runDue_def split: if_splits)
next
  case (start s r rs)
  then show ?case by (auto simp: gone_def start_run_def claim_def)
next
  case (finish r s)
  then show ?case by (simp add: gone_def finish_run_def release_slot_def)
qed

lemma gone_reach: "clock_reach s s1 \<Longrightarrow> gone name s \<Longrightarrow> gone name s1"
  by (induction rule: clock_reach.induct) (auto intro: gone_step)

text \<open>C39: A job that runs every so often and has a window to skip is lost in the window: when a pass inside the window finds
  more than 4096 of the job's times blocked, the job is no longer due, and however long the scheduler runs after its
  pending runs are started, no pass starts the job again, although it is enabled and times after the window are not
  blocked.\<close>

theorem skip_window_loses_job:
  assumes "\<not> en_paused (sy_Engine s)" and "distinct (map jb_Name (en_Jobs (sy_Engine s)))" and "sy_Booting s = []"
    and "j \<in> set (en_Jobs (sy_Engine s))" and "every_job j" and "jb_After j = 0"
    and "gomap_get (en_due (sy_Engine s)) (jb_Name j) = Some at" and "at \<le> now"
    and "jb_SkipStart j \<noteq> 0" and "jb_SkipStart j \<le> now" and "now + 4096 * jb_Interval j \<le> jb_SkipEnd j" and "jb_SkipEnd j \<noteq> 0"
    and "runDue now (sy_Engine s) = (e, rs)" and "clock_reach (s\<lparr>sy_Engine := e, sy_Pending := []\<rparr>) s1"
  shows "gomap_get (en_due (sy_Engine s1)) (jb_Name j) = None \<and> (\<forall>r \<in> set (sy_Pending s1). jb_Name (run_Job r) \<noteq> jb_Name j)"
proof -
  obtain js d rs1 where p: "due_pass now (en_Jobs (sy_Engine s)) (en_due (sy_Engine s)) = (js, d, rs1)" by (metis prod_cases3)
  with assms(1,13) have e: "en_due e = d" by (auto simp: runDue_def)
  let ?j = "j\<lparr>jb_LastRun := now\<rparr>"
  have "every_job ?j" using assms(5) by (simp add: every_job_def)
  then have "Job_Next ?j now = None" by (rule every_next_exhausted) (use assms in simp_all)
  moreover have "jb_Enabled j" using assms(5) by (simp add: every_job_def)
  ultimately have "gone (jb_Name j) (s\<lparr>sy_Engine := e, sy_Pending := []\<rparr>)"
    using due_pass_starts [OF assms(2,4,7,8) _ p] e assms(3) by (simp add: gone_def)
  from gone_reach [OF assms(14) this] show ?thesis by (simp add: gone_def)
qed

theorem skip_window_loses_job_witness:
  "\<not> blocked skipping_job 5411000000000 \<and>
   (\<exists>e rs. runDue 13000000000 (engine_of skipping_job) = (e, rs) \<and> gomap_get (en_due e) ''poll'' = None)"
proof -
  let ?s = "(Engine_Run (engine_of skipping_job))\<lparr>sy_Booting := []\<rparr>"
  obtain e rs where r: "runDue 13000000000 (sy_Engine ?s) = (e, rs)" by fastforce
  note sample = Engine_Run_def engine_of_def skipping_job_def poll_job_def new_Job_def
  have "gomap_get (en_due (sy_Engine (?s\<lparr>sy_Engine := e, sy_Pending := []\<rparr>))) (jb_Name skipping_job) = None"
    by (rule skip_window_loses_job [OF _ _ _ _ _ _ _ _ _ _ _ _ r clock_reach.here, of skipping_job 12000000000, THEN conjunct1])
      (simp_all add: sample every_job_def)
  moreover have "sy_Engine ?s = engine_of skipping_job" by (simp add: sample)
  ultimately show ?thesis using r by (simp add: sample blocked_def)
qed

subsection \<open>Saving and reading back\<close>

definition saved_entry :: "string \<times> val \<Rightarrow> entry" where
  "saved_entry = (\<lambda>(k, v). Entry (KStr k) v zero_pos zero_pos)"

lemma map_ok_set_str: "map_ok m \<Longrightarrow> map_ok (set_str m k v)"
  by (simp add: set_str_def Map_Set_def map_ok_SetAt)

lemma index_absent: "map_ok m \<Longrightarrow> k \<notin> set (map Key (entries m)) \<Longrightarrow> gomap_get (index m) (CanonKey k) = None"
  by (auto simp only: map_ok_index find_index_None set_map)

lemma entries_set_str:
  "map_ok m \<Longrightarrow> KStr k \<notin> set (map Key (entries m)) \<Longrightarrow> entries (set_str m k v) = entries m @ [saved_entry (k, v)]"
  using index_absent [of m "KStr k"] by (simp add: set_str_def Map_Set_def Map_SetAt_def saved_entry_def Let_def)

lemma entries_set_all:
  assumes "map_ok m" "distinct (map fst kvs)" "\<forall>k \<in> fst ` set kvs. KStr k \<notin> set (map Key (entries m))"
  shows "entries (set_all m kvs) = entries m @ map saved_entry kvs \<and> map_ok (set_all m kvs)"
  using assms
proof (induction kvs arbitrary: m)
  case (Cons kv kvs)
  obtain k v where kv: "kv = (k, v)" by (cases kv)
  have e: "entries (set_str m k v) = entries m @ [saved_entry (k, v)]" by (rule entries_set_str) (use Cons.prems kv in auto)
  have "entries (set_all (set_str m k v) kvs) = entries (set_str m k v) @ map saved_entry kvs \<and> map_ok (set_all (set_str m k v) kvs)"
    by (rule Cons.IH) (use Cons.prems kv e in \<open>auto simp: map_ok_set_str saved_entry_def\<close>)
  with e show ?case by (simp add: set_all_def kv)
qed (simp add: set_all_def)

definition saved_key_names :: "string list" where
  "saved_key_names = [''function'', ''args'', ''kwargs''] @ [''cron'', ''every'', ''once'', ''when''] @ [''splay''] @ [''maxrunning''] @ [''return_job''] @
     [''run_on_start''] @ [''catchup''] @ [''enabled''] @ [''metadata'']"

lemma subseq_distinct: "subseq xs ys \<Longrightarrow> distinct ys \<Longrightarrow> distinct xs"
proof (induction rule: list_emb.induct)
  case (list_emb_Cons2 x y xs ys)
  then show ?case by (auto elim: list_emb_set)
qed auto

lemma saved_keys: "subseq (map fst (saved_settings env j)) saved_key_names"
  unfolding saved_settings_def saved_key_names_def map_append
proof (intro list_emb_append_mono)
  show "subseq (map fst (call_settings j)) [''function'', ''args'', ''kwargs'']" by (auto simp: call_settings_def split: option.splits)
  show "subseq (map fst (timing_settings env ''2006-01-02T15:04:05'' j)) [''cron'', ''every'', ''once'', ''when'']"
    by (auto simp: timing_settings_def split: option.splits)
  show "subseq (map fst (metadata_setting j)) [''metadata'']" by (auto simp: metadata_setting_def split: option.splits)
qed auto

lemma saved_keys_distinct: "distinct (map fst (saved_settings env j))"
  by (rule subseq_distinct [OF saved_keys]) (simp add: saved_key_names_def)

lemma saved_keys_set: "k \<notin> set saved_key_names \<Longrightarrow> k \<notin> fst ` set (saved_settings env j)"
proof
  assume "k \<notin> set saved_key_names" "k \<in> fst ` set (saved_settings env j)"
  then have "k \<in> set (map fst (saved_settings env j))" by simp
  with saved_keys [of env j] obtain y where "y \<in> set saved_key_names" "k = y" by (rule list_emb_set)
  with \<open>k \<notin> set saved_key_names\<close> show False by simp
qed

lemma snapshot_entries: "entries (snapshot_entry env j) = map saved_entry (saved_settings env j) \<and> map_ok (snapshot_entry env j)"
  using entries_set_all [OF map_ok_NewMap saved_keys_distinct [of env j]] by (simp add: snapshot_entry_def NewMap_def)

lemma snapshot_get_None:
  assumes "k \<notin> set saved_key_names"
  shows "Map_GetString (snapshot_entry env j) k = None"
proof -
  have "KStr k \<notin> set (map Key (entries (snapshot_entry env j)))"
    using saved_keys_set [OF assms, of env j] snapshot_entries [of env j] by (force simp: saved_entry_def)
  from index_absent [OF _ this] snapshot_entries [of env j] show ?thesis by (simp add: Map_GetString_def Map_Get_def)
qed

lemma parse_settings_append:
  "parse_settings env body (es @ fs) j n =
     (case parse_settings env body es j n of Inl e \<Rightarrow> Inl e | Inr (j1, n1) \<Rightarrow> parse_settings env body fs j1 n1)"
  by (induction es arbitrary: j n) (auto simp: Let_def split: option.splits sum.splits)

text \<open>What reading relies on of the runtime: a duration that was printed is read back, a duration of whole seconds has
  that many seconds, and integers up to 2 to the 53rd are exact as floats.\<close>

definition prints_back :: "sched_env \<Rightarrow> bool" where
  "prints_back env \<longleftrightarrow>
     (\<forall>d. 0 < d \<and> int64_range d \<longrightarrow> rt_ParseDuration (se_rt env) (se_DurationString env d) = Some d) \<and>
     (\<forall>k. 0 \<le> k \<and> int64_range (k * nano_second) \<longrightarrow> se_WholeSeconds env (k * nano_second) = k) \<and>
     (\<forall>n. 0 \<le> n \<and> n \<le> 2 ^ 53 \<longrightarrow> se_FloatTrunc env (rt_FloatOfInt (se_rt env) n) = n)"

text \<open>The jobs a saved schedule can express, as far as it goes: an interval or a cron expression, and a splay of whole
  seconds.\<close>

definition savable :: "Job \<Rightarrow> bool" where
  "savable j \<longleftrightarrow>
     jb_Function j \<noteq> [] \<and> 1 \<le> jb_MaxRunning j \<and> jb_MaxRunning j \<le> 2 ^ 53 \<and>
     0 \<le> jb_Splay j \<and> int64_range (jb_Splay j) \<and> nano_second dvd jb_Splay j \<and>
     (case jb_Cron j of Some c \<Rightarrow> ParseCron (cr_Expr c) = Inr c \<and> jb_Interval j = 0
      | None \<Rightarrow> jb_Interval j > 0 \<and> int64_range (jb_Interval j)) \<and>
     (case jb_Kwargs j of Some m \<Rightarrow> Map_Len m > 0 | None \<Rightarrow> True) \<and> (case jb_Metadata j of Some m \<Rightarrow> Map_Len m > 0 | None \<Rightarrow> True) \<and>
     jb_When j = [] \<and> jb_Once j = 0"

text \<open>What is left of a job: neither its bounds and windows nor its offset, the start of its splay and its last run.\<close>

definition saved_part :: "Job \<Rightarrow> Job" where
  "saved_part j =
     j\<lparr>jb_After := 0, jb_Until := 0, jb_RangeStart := 0, jb_RangeEnd := 0, jb_RangeInvert := False, jb_SkipStart := 0,
       jb_SkipEnd := 0, jb_SkipExplicit := [], jb_SplayStart := 0, jb_Offset := 0, jb_LastRun := 0\<rparr>"

lemma saved_splay:
  assumes "savable j" and "prints_back env"
  shows "wrap64 (se_WholeSeconds env (jb_Splay j) * nano_second) = jb_Splay j"
proof -
  from assms(1) have "nano_second dvd jb_Splay j" and range: "0 \<le> jb_Splay j" "int64_range (jb_Splay j)"
    by (simp_all add: savable_def)
  then obtain k where k: "jb_Splay j = k * nano_second" by (metis dvdE mult.commute)
  with range have "0 \<le> k" by (simp add: nano_second_def)
  with assms(2) range k show ?thesis by (simp add: prints_back_def wrap64_id)
qed

text \<open>Reading back one group of settings after the other.\<close>

lemmas one_setting = timing_setting_def bound_setting_def plain_setting_def

lemma parse_call:
  assumes "savable j" "jb_Args j0 = []" "jb_Kwargs j0 = None"
  shows "parse_settings env body (map saved_entry (call_settings j)) j0 n =
    Inr (j0\<lparr>jb_Function := jb_Function j, jb_Args := jb_Args j, jb_Kwargs := jb_Kwargs j\<rparr>, n)"
  using assms
  by (auto simp: savable_def call_settings_def saved_entry_def one_setting comp_def split: option.splits intro!: Job.equality)

lemma parse_one:
  assumes "timing_setting env body k v j0 = None" "bound_setting env body k v j0 = None"
  shows "parse_settings env body (map saved_entry (if C then [(k, v)] else [])) j0 n =
    (if C then map_sum id (\<lambda>j1. (j1, n)) (plain_setting env k v j0) else Inr (j0, n))"
  using assms by (auto simp: saved_entry_def split: sum.splits)

lemma parse_timing:
  assumes "savable j" "prints_back env" "jb_Cron j0 = None" "jb_Interval j0 = 0"
  shows "parse_settings env body (map saved_entry (timing_settings env layout j)) j0 n =
    Inr (j0\<lparr>jb_Cron := jb_Cron j, jb_Interval := jb_Interval j\<rparr>, n + 1)"
  using assms
  by (cases "jb_Cron j")
    (auto simp: savable_def prints_back_def timing_settings_def saved_entry_def timing_setting_def sched_fail_def sched_duration_def
      intro!: Job.equality)

definition limit_settings :: "sched_env \<Rightarrow> Job \<Rightarrow> (string \<times> val) list" where
  "limit_settings env j =
     (if jb_Splay j > 0 then [(''splay'', VInt (se_WholeSeconds env (jb_Splay j)))] else []) @
     (if jb_MaxRunning j \<noteq> 1 then [(''maxrunning'', VInt (jb_MaxRunning j))] else [])"

lemma parse_limits:
  assumes "savable j" "prints_back env" "jb_SplayStart j0 = 0" "jb_Splay j0 = 0" "jb_MaxRunning j0 = 1"
  shows "parse_settings env body (map saved_entry (limit_settings env j)) j0 n =
    Inr (j0\<lparr>jb_Splay := jb_Splay j, jb_MaxRunning := jb_MaxRunning j\<rparr>, n)"
  using assms saved_splay [OF assms(1,2)]
  by (auto simp: limit_settings_def parse_settings_append parse_one one_setting sched_fail_def parseSplay_def sched_duration_def
      sched_float_def prints_back_def savable_def Let_def intro!: Job.equality)

definition flag_settings :: "Job \<Rightarrow> (string \<times> val) list" where
  "flag_settings j =
     (if \<not> jb_ReturnJob j then [(''return_job'', VBool False)] else []) @
     (if jb_RunOnStart j then [(''run_on_start'', VBool True)] else []) @
     (if jb_Catchup j then [(''catchup'', VBool True)] else []) @
     (if \<not> jb_Enabled j then [(''enabled'', VBool False)] else [])"

lemma parse_flags:
  assumes "jb_ReturnJob j0" "\<not> jb_RunOnStart j0" "\<not> jb_Catchup j0" "jb_Enabled j0"
  shows "parse_settings env body (map saved_entry (flag_settings j)) j0 n =
    Inr (j0\<lparr>jb_ReturnJob := jb_ReturnJob j, jb_RunOnStart := jb_RunOnStart j, jb_Catchup := jb_Catchup j, jb_Enabled := jb_Enabled j\<rparr>, n)"
  using assms by (auto simp: flag_settings_def parse_settings_append parse_one one_setting Let_def intro!: Job.equality)

lemma parse_metadata:
  assumes "savable j" "jb_Metadata j0 = None"
  shows "parse_settings env body (map saved_entry (metadata_setting j)) j0 n = Inr (j0\<lparr>jb_Metadata := jb_Metadata j\<rparr>, n)"
  using assms by (auto simp: savable_def metadata_setting_def one_setting Let_def saved_entry_def split: option.splits intro!: Job.equality)

lemma saved_settings_groups:
  "saved_settings env j = call_settings j @ timing_settings env ''2006-01-02T15:04:05'' j @ limit_settings env j @ flag_settings j @ metadata_setting j"
  by (simp add: saved_settings_def limit_settings_def flag_settings_def)

lemma parse_saved:
  assumes "savable j" "prints_back env"
  shows "parse_settings env body (map saved_entry (saved_settings env j)) (new_Job (jb_Name j) (jb_Location j)) 0 = Inr (saved_part j, 1)"
proof -
  have "parse_settings env body (map saved_entry (saved_settings env j)) (new_Job (jb_Name j) (jb_Location j)) 0 =
    Inr ((new_Job (jb_Name j) (jb_Location j))\<lparr>jb_Function := jb_Function j, jb_Args := jb_Args j, jb_Kwargs := jb_Kwargs j, jb_Cron := jb_Cron j,
      jb_Interval := jb_Interval j, jb_Splay := jb_Splay j, jb_MaxRunning := jb_MaxRunning j, jb_ReturnJob := jb_ReturnJob j,
      jb_RunOnStart := jb_RunOnStart j, jb_Catchup := jb_Catchup j, jb_Enabled := jb_Enabled j, jb_Metadata := jb_Metadata j\<rparr>, 0 + 1)"
    using assms by (simp add: saved_settings_groups parse_settings_append parse_call parse_timing parse_limits parse_flags parse_metadata new_Job_def)
  moreover have "(new_Job (jb_Name j) (jb_Location j))\<lparr>jb_Function := jb_Function j, jb_Args := jb_Args j, jb_Kwargs := jb_Kwargs j, jb_Cron := jb_Cron j,
      jb_Interval := jb_Interval j, jb_Splay := jb_Splay j, jb_MaxRunning := jb_MaxRunning j, jb_ReturnJob := jb_ReturnJob j,
      jb_RunOnStart := jb_RunOnStart j, jb_Catchup := jb_Catchup j, jb_Enabled := jb_Enabled j, jb_Metadata := jb_Metadata j\<rparr> = saved_part j"
    using assms(1) by (intro Job.equality) (simp_all add: new_Job_def savable_def saved_part_def)
  ultimately show ?thesis by simp
qed

text \<open>C34: what saving keeps of a job. For a job on an interval or a cron expression, with at least one and at most
  2 to the 53rd concurrent runs, a splay of whole seconds, and keyword arguments and metadata absent or not empty,
  saving the schedule and reading it back in the same time zone gives the job as it was, except that \<open>after\<close>,
  \<open>until\<close>, \<open>range\<close>, \<open>skip_during_range\<close>, \<open>skip_explicit\<close>, \<open>offset\<close>, the start of the splay and the last run are those of
  a job that never had them, whatever they were.\<close>

theorem saved_job_reads_back:
  assumes "savable j" and "prints_back env"
  shows "parseJob env (jb_Name j) (snapshot_entry env j) (jb_Location j) = Inr (saved_part j)"
proof -
  have "Map_GetString (snapshot_entry env j) ''timezone'' = None" by (rule snapshot_get_None) (simp add: saved_key_names_def)
  moreover have "check_job (jb_Name j) (saved_part j, 1) = Inr (saved_part j)"
    using assms(1) by (simp add: check_job_def savable_def saved_part_def)
  ultimately show ?thesis using parse_saved [OF assms] snapshot_entries [of env j] by (simp add: parseJob_def job_location_def)
qed

definition bounded_job :: Job where
  "bounded_job = poll_job\<lparr>jb_Splay := 30000000000, jb_MaxRunning := 2, jb_Until := 7000000000, jb_Offset := 5\<rparr>"

theorem saved_job_reads_back_witness:
  "parseJob demo_sched_env ''poll'' (snapshot_entry demo_sched_env bounded_job) (''UTC'', fixed_zone 0) =
     Inr (poll_job\<lparr>jb_Splay := 30000000000, jb_MaxRunning := 2\<rparr>)"
proof -
  have "savable bounded_job" by (simp add: savable_def bounded_job_def poll_job_def new_Job_def int64_range_def nano_second_def)
  moreover have "prints_back demo_sched_env"
    by (simp add: prints_back_def demo_sched_env_def atoi_format_int int64_range_def nano_second_def)
  ultimately show ?thesis
    using saved_job_reads_back [of bounded_job] by (simp add: saved_part_def bounded_job_def poll_job_def new_Job_def)
qed

subsection \<open>Negative offsets\<close>












end
