(* ===== verification/Jobsign.thy ===== *)
theory Jobsign
  imports Diag Fnmatch
begin

text \<open>
  Detached job signatures (\<open>internal/jobsign/jobsign.go\<close>): the byte string a signature covers, and checking a signature
  against the trusted keys. The hash with the signature scheme, base64 and the text of a time stamp are the record
  \<open>sign_env\<close>. The main result is that the byte string determines the payload: a relay cannot change a signed job without
  changing the bytes that were signed.
\<close>

subsection \<open>Values on the wire\<close>

text \<open>The Go values \<open>typed\<close> tells apart. A mapping is an association list with distinct keys, in any order.\<close>

datatype wire =
    WNull
  | WBool bool
  | WNumber string     \<comment> \<open>\<open>json.Number\<close>, by its text\<close>
  | WInt int           \<comment> \<open>\<open>int\<close>, \<open>int64\<close>, \<open>uint64\<close>\<close>
  | WFloat gofloat     \<comment> \<open>\<open>float32\<close>, \<open>float64\<close>\<close>
  | WString string
  | WList "wire list"
  | WStrings "string list"
  | WMap "(string \<times> wire) list"
  | WOther string      \<comment> \<open>any other type, by its name\<close>

record SignPayload =
  sp_JID :: string
  sp_Target :: string
  sp_TargetKind :: string
  sp_Fun :: string
  sp_Arg :: "string list"
  sp_Kwarg :: "(string \<times> wire) list"
  sp_Env :: string
  sp_Expires :: int

record SignerKey =
  sk_Name :: string
  sk_Key :: string

record sign_env =
  sg_rt :: go_runtime
  sg_Stamp :: "int \<Rightarrow> string"                        \<comment> \<open>\<open>t.UTC().Format(time.RFC3339Nano)\<close>\<close>
  sg_Base64 :: "string \<Rightarrow> string option"              \<comment> \<open>\<open>base64.StdEncoding.DecodeString\<close>\<close>
  sg_VerifyASN1 :: "string \<Rightarrow> string \<Rightarrow> string \<Rightarrow> bool" \<comment> \<open>key, bytes under SHA-256, DER signature\<close>
  sg_scalarV1 :: "wire \<Rightarrow> string"                     \<comment> \<open>the rendering of the old format\<close>

subsection \<open>The canonical bytes\<close>

definition sign_domain :: string where
  "sign_domain = ''halite-job-v2'' @ [CHR 0x00]"

definition sign_domainV1 :: string where
  "sign_domainV1 = ''halite-job-v1'' @ [CHR 0x00]"

definition sign_field :: "string \<Rightarrow> string \<Rightarrow> string" where
  "sign_field name v = name @ '':'' @ nat_str (length v) @ '':'' @ v @ '';''"

definition sign_count :: "string \<Rightarrow> nat \<Rightarrow> string" where
  "sign_count name n = name @ '':'' @ nat_str n @ '';''"

definition formatFloat :: "go_runtime \<Rightarrow> gofloat \<Rightarrow> string" where
  "formatFloat rt f = (case rt_IntOfFloat rt f of Some i \<Rightarrow> format_int i | None \<Rightarrow> float_text f)"

definition json_number :: "go_runtime \<Rightarrow> string \<Rightarrow> string" where
  "json_number rt s =
     (case atoi s of
        Some i \<Rightarrow> format_int i
      | None \<Rightarrow> (case rt_ParseFloat rt s of Some f \<Rightarrow> formatFloat rt f | None \<Rightarrow> s))"

primrec typed :: "go_runtime \<Rightarrow> wire \<Rightarrow> string" where
  "typed rt WNull = ''null;''"
| "typed rt (WBool b) = ''bool:'' @ FormatBool b @ '';''"
| "typed rt (WNumber s) = sign_field ''num'' (json_number rt s)"
| "typed rt (WInt i) = sign_field ''num'' (format_int i)"
| "typed rt (WFloat f) = sign_field ''num'' (formatFloat rt f)"
| "typed rt (WString s) = sign_field ''str'' s"
| "typed rt (WList vs) = sign_count ''list'' (length vs) @ concat (map (typed rt) vs)"
| "typed rt (WStrings ss) = sign_count ''list'' (length ss) @ concat (map (sign_field ''str'') ss)"
| "typed rt (WMap kvs) =
     sign_count ''map'' (length kvs) @
     concat (map (\<lambda>(k, e). sign_field ''key'' k @ e) (sort_key fst (map (map_prod (\<lambda>k. k) (typed rt)) kvs)))"
| "typed rt (WOther t) = sign_field ''unencodable'' t"

definition canonical :: "sign_env \<Rightarrow> SignPayload \<Rightarrow> string \<Rightarrow> (wire \<Rightarrow> string) \<Rightarrow> string" where
  "canonical env p label write_value =
     label @ sign_field ''jid'' (sp_JID p) @ sign_field ''target'' (sp_Target p) @
     sign_field ''target_kind'' (sp_TargetKind p) @ sign_field ''fun'' (sp_Fun p) @
     sign_count ''argc'' (length (sp_Arg p)) @ concat (map (sign_field ''arg'') (sp_Arg p)) @
     sign_count ''kwargc'' (length (sp_Kwarg p)) @
     concat (map (\<lambda>(k, v). sign_field ''kwarg'' k @ write_value v) (sort_key fst (sp_Kwarg p))) @
     sign_field ''env'' (sp_Env p) @
     sign_field ''expires'' (if sp_Expires p \<noteq> 0 then sg_Stamp env (sp_Expires p) else [])"

definition Canonical :: "sign_env \<Rightarrow> SignPayload \<Rightarrow> string" where
  "Canonical env p = canonical env p sign_domain (typed (sg_rt env))"

definition canonicalV1 :: "sign_env \<Rightarrow> SignPayload \<Rightarrow> string" where
  "canonicalV1 env p = canonical env p sign_domainV1 (\<lambda>v. sign_field ''value'' (sg_scalarV1 env v))"

subsection \<open>Checking a signature\<close>

definition ErrNoExpiry :: fmt_arg where
  "ErrNoExpiry = FErr ''a signed job must carry an expiry, and this one carries none'' []"

definition ErrOldFormat :: fmt_arg where
  "ErrOldFormat = FErr (''the job is signed in the v1 format, which this node refuses because it '' @
     ''cannot tell `true` from `\"true\"`; re-sign it with a current halite-hub'') []"

definition Verify :: "sign_env \<Rightarrow> SignerKey list \<Rightarrow> SignPayload \<Rightarrow> string \<Rightarrow> fmt_arg + string" where
  "Verify env keys p signature =
     (if length keys = 0 then Inl (FErr ''this node trusts no job signer keys; set job_signer_keys'' [])
      else if trim_space signature = [] then Inl (FErr ''the job carries no signature'' [])
      else if sp_Expires p = 0 then Inl ErrNoExpiry
      else case sg_Base64 env signature of
        None \<Rightarrow> Inl (FErr ''the job's signature is not base64: %w'' [FStr signature])
      | Some der \<Rightarrow>
          (case find (\<lambda>key. sg_VerifyASN1 env (sk_Key key) (Canonical env p) der) keys of
             Some key \<Rightarrow> Inr (sk_Name key)
           | None \<Rightarrow>
               (case find (\<lambda>key. sg_VerifyASN1 env (sk_Key key) (canonicalV1 env p) der) keys of
                  Some key \<Rightarrow> Inl (FErr ''%w (it verifies against %s's key in that format)'' [ErrOldFormat, FStr (sk_Name key)])
                | None \<Rightarrow>
                    Inl (FErr ''the signature does not verify against any of this node's %d trusted signer key(s)''
                      [FInt (int (length keys))]))))"

subsection \<open>What the bytes say\<close>

text \<open>The value that is signed: numbers by their rendering, lists of one kind, mappings in the order of their keys.\<close>

primrec wire_norm :: "go_runtime \<Rightarrow> wire \<Rightarrow> wire" where
  "wire_norm rt WNull = WNull"
| "wire_norm rt (WBool b) = WBool b"
| "wire_norm rt (WNumber s) = WNumber (json_number rt s)"
| "wire_norm rt (WInt i) = WNumber (format_int i)"
| "wire_norm rt (WFloat f) = WNumber (formatFloat rt f)"
| "wire_norm rt (WString s) = WString s"
| "wire_norm rt (WList vs) = WList (map (wire_norm rt) vs)"
| "wire_norm rt (WStrings ss) = WList (map WString ss)"
| "wire_norm rt (WMap kvs) = WMap (sort_key fst (map (map_prod (\<lambda>k. k) (wire_norm rt)) kvs))"
| "wire_norm rt (WOther t) = WOther t"

primrec wire_bytes :: "wire \<Rightarrow> string" where
  "wire_bytes WNull = ''null;''"
| "wire_bytes (WBool b) = ''bool:'' @ FormatBool b @ '';''"
| "wire_bytes (WNumber s) = sign_field ''num'' s"
| "wire_bytes (WInt i) = []"
| "wire_bytes (WFloat f) = []"
| "wire_bytes (WString s) = sign_field ''str'' s"
| "wire_bytes (WList vs) = sign_count ''list'' (length vs) @ concat (map wire_bytes vs)"
| "wire_bytes (WStrings ss) = []"
| "wire_bytes (WMap kvs) = sign_count ''map'' (length kvs) @ concat (map (\<lambda>(k, e). sign_field ''key'' k @ e) (map (map_prod (\<lambda>k. k) wire_bytes) kvs))"
| "wire_bytes (WOther t) = sign_field ''unencodable'' t"

lemma insort_key_map: "(\<And>x. f (g x) = h x) \<Longrightarrow> insort_key f (g x) (map g xs) = map g (insort_key h x xs)"
  by (induction xs) auto

lemma sort_key_map: "(\<And>x. f (g x) = h x) \<Longrightarrow> sort_key f (map g xs) = map g (sort_key h xs)"
  by (induction xs) (auto simp: insort_key_map [where h = h])

lemma typed_norm: "typed rt v = wire_bytes (wire_norm rt v)"
proof (induction v)
  case (WList vs)
  then show ?case by (simp add: comp_def cong: map_cong)
next
  case (WMap kvs)
  have "map (map_prod (\<lambda>k. k) (typed rt)) kvs = map (map_prod (\<lambda>k. k) wire_bytes) (map (map_prod (\<lambda>k. k) (wire_norm rt)) kvs)"
    using WMap.IH by auto
  then have "sort_key fst (map (map_prod (\<lambda>k. k) (typed rt)) kvs) =
      map (map_prod (\<lambda>k. k) wire_bytes) (sort_key fst (map (map_prod (\<lambda>k. k) (wire_norm rt)) kvs))"
    by (simp only: sort_key_map [of fst "map_prod (\<lambda>k. k) wire_bytes" fst] fst_map_prod)
  then show ?case by simp
qed (simp_all add: comp_def)

primrec normal_wire :: "wire \<Rightarrow> bool" where
  "normal_wire WNull = True"
| "normal_wire (WBool b) = True"
| "normal_wire (WNumber s) = True"
| "normal_wire (WInt i) = False"
| "normal_wire (WFloat f) = False"
| "normal_wire (WString s) = True"
| "normal_wire (WList vs) = list_all normal_wire vs"
| "normal_wire (WStrings ss) = False"
| "normal_wire (WMap kvs) = list_all (\<lambda>(k, b). b) (map (map_prod (\<lambda>k. k) normal_wire) kvs)"
| "normal_wire (WOther t) = True"

lemma normal_norm: "normal_wire (wire_norm rt v)"
  by (induction v) (auto simp: list_all_iff)

subsection \<open>Reading a field back\<close>

lemma digit_not_mark: "is_digit c \<Longrightarrow> c \<noteq> CHR '':'' \<and> c \<noteq> CHR '';''"
  by (auto simp: is_digit_def)

lemma nat_str_mark:
  assumes "nat_str m @ c # x = nat_str n @ c # y" and "\<not> is_digit c"
  shows "m = n \<and> x = y"
proof -
  have "\<forall>d \<in> set (nat_str k). d \<noteq> c" for k using nat_str_digits [of k] assms(2) by (auto simp: list_all_iff)
  then have tw: "takeWhile (\<lambda>d. d \<noteq> c) (nat_str k @ c # z) = nat_str k" for k z by (simp add: takeWhile_append2)
  have "nat_str m = nat_str n" using arg_cong [OF assms(1), of "takeWhile (\<lambda>d. d \<noteq> c)"] by (simp only: tw)
  with assms(1) show ?thesis by simp
qed

lemma marks_not_digits: "\<not> is_digit (CHR '':'')" "\<not> is_digit (CHR '';'')"
  by (simp_all add: is_digit_def)

lemma sign_count_inject: "sign_count name m @ x = sign_count name n @ y \<longleftrightarrow> m = n \<and> x = y"
  using nat_str_mark [of m "CHR '';''" x n y] marks_not_digits(2) by (auto simp: sign_count_def)

lemma sign_field_inject: "sign_field name v @ x = sign_field name w @ y \<longleftrightarrow> v = w \<and> x = y"
proof
  assume "sign_field name v @ x = sign_field name w @ y"
  then have "nat_str (length v) @ CHR '':'' # (v @ '';'' @ x) = nat_str (length w) @ CHR '':'' # (w @ '';'' @ y)" by (simp add: sign_field_def)
  from nat_str_mark [OF this marks_not_digits(1)] have "length v = length w" "v @ CHR '';'' # x = w @ CHR '';'' # y" by simp_all
  then show "v = w \<and> x = y" using append_eq_append_conv [of v w] by simp
qed simp

lemma concat_map_inject:
  assumes "length xs = length ys" "concat (map f xs) @ s = concat (map f ys) @ t"
    and "\<And>x y s t. x \<in> set xs \<Longrightarrow> y \<in> set ys \<Longrightarrow> f x @ s = f y @ t \<Longrightarrow> x = y \<and> s = t"
  shows "xs = ys \<and> s = t"
  using assms
proof (induction xs ys arbitrary: s t rule: list_induct2)
  case (Cons x xs y ys)
  have "x = y \<and> concat (map f xs) @ s = concat (map f ys) @ t" by (rule Cons.prems(2)) (use Cons.prems(1) in auto)
  then show ?case using Cons.IH [of s t] Cons.prems(2) by auto
qed simp

lemma FormatBool_mark: "FormatBool a @ '';'' @ s = FormatBool b @ '';'' @ t \<longleftrightarrow> a = b \<and> s = t"
  by (auto simp: FormatBool_def)

lemma pair_bytes_inject:
  assumes "sign_field ''key'' k @ a @ s = sign_field ''key'' k1 @ b @ t"
  shows "k = k1 \<and> a @ s = b @ t"
  using assms sign_field_inject by blast

lemma wire_bytes_inject:
  "normal_wire v \<Longrightarrow> normal_wire w \<Longrightarrow> wire_bytes v @ s = wire_bytes w @ t \<Longrightarrow> v = w \<and> s = t"
proof (induction v arbitrary: w s t)
  case (WList vs)
  then obtain ws where w: "w = WList ws" by (cases w) (auto simp: sign_field_def sign_count_def)
  with WList.prems(3) have len: "length vs = length ws" and bytes: "concat (map wire_bytes vs) @ s = concat (map wire_bytes ws) @ t"
    by (simp_all add: sign_count_inject)
  have "vs = ws \<and> s = t"
    by (rule concat_map_inject [OF len bytes]) (use WList w in \<open>auto simp: list_all_iff\<close>)
  with w show ?case by simp
next
  case (WMap kvs)
  then obtain kws where w: "w = WMap kws" by (cases w) (auto simp: sign_field_def sign_count_def)
  let ?f = "\<lambda>(k, e). sign_field ''key'' k @ wire_bytes e"
  have f: "concat (map (\<lambda>(k, e). sign_field ''key'' k @ e) (map (map_prod (\<lambda>k. k) wire_bytes) kvs)) = concat (map ?f kvs)" for kvs
    by (simp add: comp_def case_prod_beta')
  from WMap.prems(3) have len: "length kvs = length kws" and bytes: "concat (map ?f kvs) @ s = concat (map ?f kws) @ t"
    unfolding w wire_bytes.simps f by (simp_all add: sign_count_inject)
  have "kvs = kws \<and> s = t"
  proof (rule concat_map_inject [OF len bytes])
    fix x y :: "string \<times> wire" and s t
    assume in_set: "x \<in> set kvs" "y \<in> set kws" and eq: "?f x @ s = ?f y @ t"
    obtain k v k1 v1 where xy: "x = (k, v)" "y = (k1, v1)" by (cases x, cases y)
    have k: "k = k1 \<and> wire_bytes v @ s = wire_bytes v1 @ t" by (rule pair_bytes_inject) (use eq xy in simp)
    have "normal_wire v" "normal_wire v1" using WMap.prems(1,2) in_set by (auto simp: w xy list_all_iff)
    with k WMap.IH [of x v v1 s t] in_set xy show "x = y \<and> s = t" by simp
  qed
  with w show ?case by simp
next
  case WNull
  then show ?case by (cases w) (auto simp: sign_field_def sign_count_def)
next
  case (WBool b)
  then obtain c where "w = WBool c" by (cases w) (auto simp: sign_field_def sign_count_def)
  with WBool.prems FormatBool_mark [of b s c t] show ?case by simp
next
  case (WNumber x)
  then obtain y where "w = WNumber y" by (cases w) (auto simp: sign_field_def sign_count_def)
  with WNumber.prems show ?case by (simp add: sign_field_inject)
next
  case (WString x)
  then obtain y where "w = WString y" by (cases w) (auto simp: sign_field_def sign_count_def)
  with WString.prems show ?case by (simp add: sign_field_inject)
next
  case (WOther x)
  then obtain y where "w = WOther y" by (cases w) (auto simp: sign_field_def sign_count_def)
  with WOther.prems show ?case by (simp add: sign_field_inject)
qed simp_all

subsection \<open>What a signature covers\<close>

definition signed_kwargs :: "sign_env \<Rightarrow> SignPayload \<Rightarrow> (string \<times> wire) list" where
  "signed_kwargs env p = map (map_prod (\<lambda>k. k) (wire_norm (sg_rt env))) (sort_key fst (sp_Kwarg p))"

definition signed_expiry :: "sign_env \<Rightarrow> SignPayload \<Rightarrow> string" where
  "signed_expiry env p = (if sp_Expires p \<noteq> 0 then sg_Stamp env (sp_Expires p) else [])"

lemma args_inject:
  "sign_count name (length xs) @ concat (map (sign_field f) xs) @ s = sign_count name (length ys) @ concat (map (sign_field f) ys) @ t \<longleftrightarrow>
     xs = ys \<and> s = t"
proof
  assume eq: "sign_count name (length xs) @ concat (map (sign_field f) xs) @ s = sign_count name (length ys) @ concat (map (sign_field f) ys) @ t"
  then have "length xs = length ys" "concat (map (sign_field f) xs) @ s = concat (map (sign_field f) ys) @ t" by (simp_all add: sign_count_inject)
  then show "xs = ys \<and> s = t" by (rule concat_map_inject) (simp add: sign_field_inject)
qed simp

lemma kwargs_inject:
  assumes "sign_count ''kwargc'' (length xs) @ concat (map (\<lambda>(k, v). sign_field ''kwarg'' k @ wire_bytes v) xs) @ s =
      sign_count ''kwargc'' (length ys) @ concat (map (\<lambda>(k, v). sign_field ''kwarg'' k @ wire_bytes v) ys) @ t"
    and "\<forall>(k, v) \<in> set xs. normal_wire v" and "\<forall>(k, v) \<in> set ys. normal_wire v"
  shows "xs = ys \<and> s = t"
proof (rule concat_map_inject)
  show "length xs = length ys" "concat (map (\<lambda>(k, v). sign_field ''kwarg'' k @ wire_bytes v) xs) @ s =
      concat (map (\<lambda>(k, v). sign_field ''kwarg'' k @ wire_bytes v) ys) @ t"
    using assms(1) by (simp_all add: sign_count_inject)
  fix x y :: "string \<times> wire" and s t
  assume in_set: "x \<in> set xs" "y \<in> set ys"
    and eq: "(case x of (k, v) \<Rightarrow> sign_field ''kwarg'' k @ wire_bytes v) @ s = (case y of (k, v) \<Rightarrow> sign_field ''kwarg'' k @ wire_bytes v) @ t"
  obtain k v k1 v1 where xy: "x = (k, v)" "y = (k1, v1)" by (cases x, cases y)
  from eq have "k = k1" "wire_bytes v @ s = wire_bytes v1 @ t" by (simp_all add: xy sign_field_inject)
  moreover have "normal_wire v" "normal_wire v1" using assms(2,3) in_set by (auto simp: xy)
  ultimately show "x = y \<and> s = t" using wire_bytes_inject [of v v1 s t] by (simp add: xy)
qed

lemma Canonical_bytes:
  "Canonical env p =
     sign_domain @ sign_field ''jid'' (sp_JID p) @ sign_field ''target'' (sp_Target p) @
     sign_field ''target_kind'' (sp_TargetKind p) @ sign_field ''fun'' (sp_Fun p) @
     sign_count ''argc'' (length (sp_Arg p)) @ concat (map (sign_field ''arg'') (sp_Arg p)) @
     sign_count ''kwargc'' (length (signed_kwargs env p)) @
     concat (map (\<lambda>(k, v). sign_field ''kwarg'' k @ wire_bytes v) (signed_kwargs env p)) @
     sign_field ''env'' (sp_Env p) @ sign_field ''expires'' (signed_expiry env p)"
  by (simp add: Canonical_def canonical_def signed_kwargs_def signed_expiry_def typed_norm comp_def case_prod_beta')

lemma Canonical_determines:
  assumes "Canonical env p = Canonical env q"
  shows "sp_JID p = sp_JID q \<and> sp_Target p = sp_Target q \<and> sp_TargetKind p = sp_TargetKind q \<and> sp_Fun p = sp_Fun q \<and>
    sp_Arg p = sp_Arg q \<and> signed_kwargs env p = signed_kwargs env q \<and> sp_Env p = sp_Env q \<and> signed_expiry env p = signed_expiry env q"
proof -
  have normal: "\<forall>(k, v) \<in> set (signed_kwargs env r). normal_wire v" for r by (auto simp: signed_kwargs_def normal_norm)
  from assms have fields: "sp_JID p = sp_JID q" "sp_Target p = sp_Target q" "sp_TargetKind p = sp_TargetKind q" "sp_Fun p = sp_Fun q" "sp_Arg p = sp_Arg q"
    and rest: "sign_count ''kwargc'' (length (signed_kwargs env p)) @ concat (map (\<lambda>(k, v). sign_field ''kwarg'' k @ wire_bytes v) (signed_kwargs env p)) @
       sign_field ''env'' (sp_Env p) @ sign_field ''expires'' (signed_expiry env p) =
     sign_count ''kwargc'' (length (signed_kwargs env q)) @ concat (map (\<lambda>(k, v). sign_field ''kwarg'' k @ wire_bytes v) (signed_kwargs env q)) @
       sign_field ''env'' (sp_Env q) @ sign_field ''expires'' (signed_expiry env q)"
    unfolding Canonical_bytes by (simp_all add: sign_field_inject args_inject)
  from kwargs_inject [OF rest normal normal]
  have "signed_kwargs env p = signed_kwargs env q" "sign_field ''env'' (sp_Env p) @ sign_field ''expires'' (signed_expiry env p) =
      sign_field ''env'' (sp_Env q) @ sign_field ''expires'' (signed_expiry env q)" by simp_all
  moreover from this(2) have "sp_Env p = sp_Env q" "sign_field ''expires'' (signed_expiry env p) @ [] = sign_field ''expires'' (signed_expiry env q) @ []"
    by (simp_all add: sign_field_inject)
  moreover from this(2) have "signed_expiry env p = signed_expiry env q" by (simp only: sign_field_inject)
  ultimately show ?thesis using fields by simp
qed

text \<open>C27: the signed bytes determine the job: two payloads have the same canonical bytes exactly when they agree on the
  identifier, target, target kind, function, arguments in order, environment and printed expiry, and their keyword
  arguments are the same mapping of the same values, where numbers are compared by how they are rendered and every
  other value with its type. So \<open>true\<close> cannot stand for the string of that spelling, and nothing can be re-cut.\<close>

theorem canonical_bytes_determine_the_job:
  "Canonical env p = Canonical env q \<longleftrightarrow>
     sp_JID p = sp_JID q \<and> sp_Target p = sp_Target q \<and> sp_TargetKind p = sp_TargetKind q \<and> sp_Fun p = sp_Fun q \<and>
     sp_Arg p = sp_Arg q \<and> signed_kwargs env p = signed_kwargs env q \<and> sp_Env p = sp_Env q \<and> signed_expiry env p = signed_expiry env q"
  (is "?bytes \<longleftrightarrow> ?content")
proof
  show "?bytes \<Longrightarrow> ?content" by (rule Canonical_determines)
  show "?content \<Longrightarrow> ?bytes" by (simp add: Canonical_bytes)
qed

end
