(* ===== verification/Jobs.thy ===== *)
theory Jobs
  imports Jobsign Calendar
begin

text \<open>
  Jobs (\<open>internal/job\<close>: \<open>job.go\<close>, \<open>model.go\<close>, \<open>guard.go\<close>): identifiers and the clock that assigns them, the job record and
  what a signature over it covers, and the in-memory replay cache of a node. An instant is a number of nanoseconds
  since Go's zero time.
\<close>

subsection \<open>Identifiers\<close>

definition nano_day :: int where "nano_day = 86400000000000"

definition micro :: int where "micro = 1000"

text \<open>Decimal digits padded with zeros, as the layout's elements of fixed width are written.\<close>

fun pad :: "nat \<Rightarrow> nat \<Rightarrow> string" where
  "pad 0 n = []"
| "pad (Suc k) n = pad k (n div 10) @ [digit_char (n mod 10)]"

text \<open>The number in \<open>n\<close> bytes from position \<open>i\<close>.\<close>

definition digits_at :: "string \<Rightarrow> nat \<Rightarrow> nat \<Rightarrow> int" where
  "digits_at s i n = int (nat_of_digits (take n (drop i s)))"

text \<open>\<open>time.Parse\<close> on text whose bytes are digits but for the \<open>T\<close>, which \<open>Valid\<close> checks first.\<close>

definition ID_Time :: "string \<Rightarrow> int option" where
  "ID_Time s =
     (let y = digits_at s 0 4; m = digits_at s 4 2; d = digits_at s 6 2; h = digits_at s 9 2; mi = digits_at s 11 2;
          se = digits_at s 13 2; us = digits_at s 15 6 in
      if valid_date y m d \<and> h < 24 \<and> mi < 60 \<and> se < 60
      then Some (day_number y m d * nano_day + (h * 3600 + mi * 60 + se) * 1000000000 + us * micro)
      else None)"

definition ID_Day :: "string \<Rightarrow> string" where
  "ID_Day s = (if length s < 8 then ''unknown'' else take 8 s)"

definition ID_Valid :: "string \<Rightarrow> bool" where
  "ID_Valid s \<longleftrightarrow>
     length s = 21 \<and> s ! 8 = CHR ''T'' \<and> list_all is_digit (take 8 s) \<and> list_all is_digit (drop 9 s) \<and> ID_Time s \<noteq> None"

definition id_format :: "int \<Rightarrow> string" where
  "id_format t =
     (let (y, m, d) = date_of_day (t div nano_day); r = t mod nano_day; s = r div 1000000000 in
      pad 4 (nat y) @ pad 2 (nat m) @ pad 2 (nat d) @ ''T'' @
      pad 2 (nat (s div 3600)) @ pad 2 (nat (s mod 3600 div 60)) @ pad 2 (nat (s mod 60)) @
      pad 6 (nat (r mod 1000000000 div micro)))"

definition NewID :: "int \<Rightarrow> string" where
  "NewID now = id_format now"

text \<open>The clock keeps the last instant it used.\<close>

definition Clock_Next :: "int \<Rightarrow> int \<Rightarrow> string \<times> int" where
  "Clock_Next now last_used =
     (let t = now - now mod micro; t1 = (if \<not> t > last_used then last_used + micro else t)
      in (id_format t1, t1))"

subsection \<open>The job record\<close>

record Batch =
  ba_Size :: int
  ba_Wait :: int
  ba_SafeLimit :: int
  ba_Timeout :: int

record HJob =
  jo_JID :: string
  jo_Fun :: string
  jo_Arg :: "string list"
  jo_Kwarg :: "(string \<times> wire) list"
  jo_Env :: string
  jo_Nonce :: string
  jo_Expires :: int
  jo_Created :: int
  jo_Submitter :: string
  jo_OnBehalfOf :: string
  jo_Correlation :: string
  jo_TraceParent :: string
  jo_Target :: string
  jo_TargetKind :: string
  jo_Nodes :: "string list"
  jo_Offline :: string
  jo_State :: string
  jo_Test :: bool
  jo_Batch :: Batch
  jo_Delivered :: "string list"
  jo_Queued :: "string list"
  jo_Signature :: string
  jo_Schema :: string

definition JobSchema :: string where "JobSchema = ''halite.job/1''"

definition SignedJobSchema :: string where "SignedJobSchema = ''halite.job/2''"

definition SchemaFor :: "HJob option \<Rightarrow> string" where
  "SchemaFor j = (case j of Some x \<Rightarrow> if jo_Signature x \<noteq> [] then SignedJobSchema else JobSchema | None \<Rightarrow> JobSchema)"

definition checkSchema :: "HJob \<Rightarrow> fmt_arg option" where
  "checkSchema j =
     (if jo_Schema j \<in> set [[], JobSchema, SignedJobSchema] then None
      else Some (FErr (''the record for %s has schema %q and this build writes %q: it was written by a '' @
        ''newer halite, and writing it back would silently drop every field this '' @
        ''build does not know. It can still be read. Run the version that wrote it, '' @ ''or move the record aside'')
        [FStr (jo_JID j), FStr (jo_Schema j), FStr (SchemaFor (Some j))]))"

definition ParseOffline :: "string \<Rightarrow> fmt_arg + string" where
  "ParseOffline s =
     (if s \<in> set [''skip'', ''queue'', ''require''] then Inr s
      else if s = [] then Inr ''skip''
      else Inl (FErr ''%q is not an offline policy; use %q, %q, or %q'' [FStr s, FStr ''skip'', FStr ''queue'', FStr ''require'']))"

definition IsQueuedFor :: "HJob \<Rightarrow> string \<Rightarrow> bool" where
  "IsQueuedFor j nodeID = list_ex (\<lambda>x. x = nodeID) (jo_Queued j)"

definition Dequeue :: "string \<Rightarrow> HJob \<Rightarrow> HJob" where
  "Dequeue nodeID j = j\<lparr>jo_Queued := filter (\<lambda>x. x \<noteq> nodeID) (jo_Queued j)\<rparr>"

definition Batched :: "HJob \<Rightarrow> bool" where
  "Batched j \<longleftrightarrow> ba_Size (jo_Batch j) > 0 \<and> ba_Size (jo_Batch j) < int (length (jo_Nodes j))"

definition Remaining :: "HJob \<Rightarrow> string list" where
  "Remaining j = filter (\<lambda>x. x \<notin> set (jo_Delivered j)) (jo_Nodes j)"

definition Expired :: "HJob \<Rightarrow> int \<Rightarrow> bool" where
  "Expired j now \<longleftrightarrow> jo_Expires j \<noteq> 0 \<and> now > jo_Expires j"

definition WireKwargs :: "HJob \<Rightarrow> (string \<times> wire) list" where
  "WireKwargs j = (if jo_Test j then gomap_put ''test'' (WBool True) (jo_Kwarg j) else jo_Kwarg j)"

definition SigningPayload :: "HJob \<Rightarrow> SignPayload" where
  "SigningPayload j =
     \<lparr>sp_JID = jo_JID j, sp_Target = jo_Target j, sp_TargetKind = jo_TargetKind j, sp_Fun = jo_Fun j, sp_Arg = jo_Arg j,
      sp_Kwarg = WireKwargs j, sp_Env = jo_Env j, sp_Expires = jo_Expires j\<rparr>"

subsection \<open>The replay cache in memory\<close>

record Guard =
  gd_size :: int
  gd_seen :: "string list"    \<comment> \<open>the keys of the map\<close>
  gd_order :: "string list"

definition DefaultGuardSize :: int where "DefaultGuardSize = 4096"

definition NewGuard :: "int \<Rightarrow> Guard" where
  "NewGuard n = \<lparr>gd_size = (if n \<le> 0 then DefaultGuardSize else n), gd_seen = [], gd_order = []\<rparr>"

text \<open>A refusal as its \<open>Error\<close> prints it; every detail below is not empty.\<close>

definition refusal :: "string \<Rightarrow> string \<Rightarrow> fmt_arg list \<Rightarrow> fmt_arg" where
  "refusal reason fmt args = FErr ''%s: %s'' [FStr reason, FErr fmt args]"

text \<open>Evict the oldest keys until the list fits.\<close>

function guard_evict :: "Guard \<Rightarrow> Guard" where
  "guard_evict g =
     (if int (length (gd_order g)) > gd_size g * 2 then
        (case gd_order g of
           [] \<Rightarrow> g
         | oldest # rest \<Rightarrow> guard_evict (g\<lparr>gd_order := rest, gd_seen := removeAll oldest (gd_seen g)\<rparr>))
      else g)"
  by pat_completeness auto
termination
  by (relation "measure (\<lambda>g. length (gd_order g))") auto

declare guard_evict.simps [simp del]

definition guard_record :: "string \<Rightarrow> Guard \<Rightarrow> Guard" where
  "guard_record key g = guard_evict (g\<lparr>gd_seen := key # removeAll key (gd_seen g), gd_order := gd_order g @ [key]\<rparr>)"

definition guard_keys :: "HJob \<Rightarrow> string list" where
  "guard_keys j = [''jid:'' @ jo_JID j, ''nonce:'' @ jo_Nonce j]"

definition guard_check :: "HJob option \<Rightarrow> bool \<Rightarrow> int \<Rightarrow> Guard \<Rightarrow> fmt_arg option \<times> Guard" where
  "guard_check job record now g =
     (case job of
        None \<Rightarrow> (Some (refusal ''malformed'' ''the job carries no identifier'' []), g)
      | Some j \<Rightarrow>
          if jo_JID j = [] then (Some (refusal ''malformed'' ''the job carries no identifier'' []), g)
          else if \<not> ID_Valid (jo_JID j) then (Some (refusal ''malformed'' ''%q is not a job identifier'' [FStr (jo_JID j)]), g)
          else if jo_Nonce j = [] then
            (Some (refusal ''malformed'' ''the job carries no nonce, so a replay of it could not be detected'' []), g)
          else if Expired j now then
            (Some (refusal ''expired'' ''it expired at %s and it is now %s'' [FInt (jo_Expires j), FInt now]), g)
          else if list_ex (\<lambda>key. key \<in> set (gd_seen g)) (guard_keys j) then
            (Some (refusal ''replayed'' ''this node has already run %s'' [FStr (jo_JID j)]), g)
          else (None, if record then fold guard_record (guard_keys j) g else g))"

definition Guard_Admit :: "HJob option \<Rightarrow> int \<Rightarrow> Guard \<Rightarrow> fmt_arg option \<times> Guard" where
  "Guard_Admit j now g = guard_check j True now g"

definition Guard_Check :: "HJob option \<Rightarrow> int \<Rightarrow> Guard \<Rightarrow> fmt_arg option" where
  "Guard_Check j now g = fst (guard_check j False now g)"

definition Guard_Len :: "Guard \<Rightarrow> nat" where
  "Guard_Len g = length (gd_seen g)"

subsection \<open>Fixed-width numbers\<close>

lemma length_pad [simp]: "length (pad k n) = k"
  by (induction k arbitrary: n) auto

lemma pad_digits: "list_all is_digit (pad k n)"
proof (induction k arbitrary: n)
  case (Suc k)
  have "is_digit (digit_char (n mod 10))" using nat_str_digits [of "n mod 10"] by (simp add: nat_str.simps [of "n mod 10"])
  with Suc show ?case by simp
qed simp

lemma nat_of_digits_append: "nat_of_digits (s @ [c]) = 10 * nat_of_digits s + digit_val c"
  by (simp add: nat_of_digits_def)

lemma nat_of_digits_pad: "n < 10 ^ k \<Longrightarrow> nat_of_digits (pad k n) = n"
proof (induction k arbitrary: n)
  case 0
  then show ?case by (simp add: nat_of_digits_def)
next
  case (Suc k)
  have d: "digit_val (digit_char (n mod 10)) = n mod 10"
    using nat_of_digits_nat_str [of "n mod 10"] by (simp add: nat_str.simps [of "n mod 10"] nat_of_digits_def)
  have "n div 10 < 10 ^ k" using Suc.prems by (simp add: less_mult_imp_div_less mult.commute)
  then show ?case using Suc.IH [of "n div 10"] by (simp add: nat_of_digits_append d)
qed

lemma append_less:
  fixes a b x y :: string
  assumes "length a = length b"
  shows "a @ x < b @ y \<longleftrightarrow> a < b \<or> a = b \<and> x < y"
  using assms by (induction a b rule: list_induct2) auto

lemma digit_char_less: "m < n \<Longrightarrow> n < 10 \<Longrightarrow> digit_char m < digit_char n"
  by (simp add: digit_char_def less_char_def)

lemma pad_less: "m < n \<Longrightarrow> n < 10 ^ k \<Longrightarrow> pad k m < pad k n"
proof (induction k arbitrary: m n)
  case (Suc k)
  show ?case
  proof (cases "m div 10 = n div 10")
    case True
    then have "m mod 10 < n mod 10" using Suc.prems(1) by (metis div_mult_mod_eq nat_add_left_cancel_less)
    then have "[digit_char (m mod 10)] < [digit_char (n mod 10)]" by (simp add: digit_char_less)
    with True show ?thesis by (simp add: append_less)
  next
    case False
    then have "m div 10 < n div 10" using Suc.prems(1) by (meson div_le_mono le_neq_implies_less less_imp_le)
    moreover have "n div 10 < 10 ^ k" using Suc.prems(2) by (simp add: less_mult_imp_div_less mult.commute)
    ultimately show ?thesis using Suc.IH by (simp add: append_less)
  qed
qed simp

lemma pad_less_int: "0 \<le> a \<Longrightarrow> a < b \<Longrightarrow> b < 10 ^ k \<Longrightarrow> pad k (nat a) < pad k (nat b)"
  by (rule pad_less) (simp_all add: nat_less_iff)

lemma pad_triple_less:
  assumes "a < a' \<or> a = a' \<and> (b < b' \<or> b = b' \<and> c < c')"
    and "0 \<le> a" "0 \<le> b" "0 \<le> c" "a' < 10 ^ k" "b' < 10 ^ l" "c' < 10 ^ n"
  shows "pad k (nat a) @ pad l (nat b) @ pad n (nat c) < pad k (nat a') @ pad l (nat b') @ pad n (nat c')"
  unfolding append_less [OF trans [OF length_pad length_pad [symmetric]]]
  using assms pad_less_int [of a a' k] pad_less_int [of b b' l] pad_less_int [of c c' n] by blast

subsection \<open>Identifiers read back and sort\<close>

definition year_10000 :: int where "year_10000 = day_number 10000 1 1 * nano_day"

lemma date_in_range:
  assumes "0 \<le> n" "n < day_number 10000 1 1" "date_of_day n = (y, m, d)"
  shows "valid_date y m d \<and> day_number y m d = n \<and> 1 \<le> y \<and> y \<le> 9999"
proof -
  have v: "valid_date y m d" "day_number y m d = n" using date_of_day_spec [of n] assms(3) by auto
  have "\<not> y < 1"
  proof
    assume "y < 1"
    then have "days_before_year (y + 1) \<le> days_before_year 1" by (intro days_before_year_mono) simp
    with day_number_year(2) [OF v(1)] v(2) assms(1) show False by (simp add: days_before_year_def)
  qed
  moreover have "\<not> 10000 \<le> y"
  proof
    assume "10000 \<le> y"
    then have "days_before_year 10000 \<le> days_before_year y" by (rule days_before_year_mono)
    with day_number_year(1) [OF v(1)] v(2) assms(2) show False by (simp add: day_number_def)
  qed
  ultimately show ?thesis using v by simp
qed

lemma day_in_range: "0 \<le> t \<Longrightarrow> t < year_10000 \<Longrightarrow> 0 \<le> t div nano_day \<and> t div nano_day < day_number 10000 1 1"
  by (simp add: year_10000_def nano_day_def pos_imp_zdiv_nonneg_iff div_less_iff_less_mult)

text \<open>The three parts of an identifier.\<close>

definition date_part :: "int \<Rightarrow> string" where
  "date_part n = (case date_of_day n of (y, m, d) \<Rightarrow> pad 4 (nat y) @ pad 2 (nat m) @ pad 2 (nat d))"

definition time_part :: "int \<Rightarrow> string" where
  "time_part s = pad 2 (nat (s div 3600)) @ pad 2 (nat (s mod 3600 div 60)) @ pad 2 (nat (s mod 60))"

lemma id_format_parts:
  "id_format t = date_part (t div nano_day) @ ''T'' @ time_part (t mod nano_day div 1000000000) @
     pad 6 (nat (t mod nano_day mod 1000000000 div micro))"
  by (simp add: id_format_def date_part_def time_part_def Let_def split: prod.splits)

lemma length_parts: "length (date_part n) = 8" "length (time_part s) = 6"
  by (simp_all add: date_part_def time_part_def split: prod.splits)

lemma date_part_less:
  assumes "0 \<le> a" "a < b" "b < day_number 10000 1 1"
  shows "date_part a < date_part b"
proof -
  obtain y m d y1 m1 d1 where ab: "date_of_day a = (y, m, d)" "date_of_day b = (y1, m1, d1)" by (metis prod_cases3)
  have va: "valid_date y m d" "day_number y m d = a" "1 \<le> y" "y \<le> 9999" using date_in_range [OF _ _ ab(1)] assms by auto
  have vb: "valid_date y1 m1 d1" "day_number y1 m1 d1 = b" "1 \<le> y1" "y1 \<le> 9999" using date_in_range [OF _ _ ab(2)] assms by auto
  have "\<not> (y1, m1, d1) \<le> (y, m, d)"
    using day_number_less [OF vb(1) va(1)] va(2) vb(2) assms(2) by (auto simp: le_less)
  then have less: "(y, m, d) < (y1, m1, d1)" by (simp only: not_le)
  have small: "d1 \<le> 31" "m1 \<le> 12" "1 \<le> m" "1 \<le> d" "m \<le> 12" "d \<le> 31"
    using va(1) vb(1) days_in_pos(2) [of y1 m1] days_in_pos(2) [of y m] by (auto simp: valid_date_def)
  have "y < y1 \<or> y = y1 \<and> m < m1 \<or> y = y1 \<and> m = m1 \<and> d < d1" using less by (auto simp: less_prod_def)
  then show ?thesis unfolding date_part_def ab prod.case using va(3) vb(4) small by (intro pad_triple_less) auto
qed

lemma split_less:
  fixes a b k :: int
  assumes "0 < k" "a < b"
  shows "a div k < b div k \<or> a div k = b div k \<and> a mod k < b mod k"
proof (cases "a div k = b div k")
  case True
  have "a mod k < b mod k" using assms(2) div_mult_mod_eq [of a k] div_mult_mod_eq [of b k] unfolding True by linarith
  with True show ?thesis by simp
next
  case False
  have "a div k \<le> b div k" using assms by (simp add: zdiv_mono1)
  with False show ?thesis by simp
qed

lemma time_part_less:
  assumes "0 \<le> a" "a < b" "b < 86400"
  shows "time_part a < time_part b"
proof -
  have mm: "n mod 3600 mod 60 = n mod 60" for n :: int by (simp add: mod_mod_cancel)
  have cases: "a div 3600 < b div 3600 \<or> a div 3600 = b div 3600 \<and> (a mod 3600 div 60 < b mod 3600 div 60 \<or>
      a mod 3600 div 60 = b mod 3600 div 60 \<and> a mod 60 < b mod 60)"
    using split_less [of 3600 a b] split_less [of 60 "a mod 3600" "b mod 3600"] assms(2) by (auto simp: mm)
  have hi: "b div 3600 < 100" "b mod 3600 div 60 < 100" "b mod 60 < 100"
    using assms(3) pos_mod_bound [of 3600 b] pos_mod_bound [of 60 b] by (simp_all add: div_less_iff_less_mult)
  have lo: "0 \<le> a div 3600" "0 \<le> a mod 3600 div 60" "0 \<le> a mod 60" using assms by (simp_all add: pos_imp_zdiv_nonneg_iff)
  show ?thesis unfolding time_part_def by (rule pad_triple_less [OF cases lo]) (use hi in simp_all)
qed

lemma time_range:
  "0 \<le> t mod nano_day div 1000000000" "t mod nano_day div 1000000000 < 86400"
  "0 \<le> t mod nano_day mod 1000000000 div micro" "t mod nano_day mod 1000000000 div micro < 1000000"
  by (simp_all add: nano_day_def micro_def pos_imp_zdiv_nonneg_iff div_less_iff_less_mult)

text \<open>The microseconds of an instant, by its parts.\<close>

lemma micros:
  "t div micro = (t div nano_day * 86400 + t mod nano_day div 1000000000) * 1000000 + t mod nano_day mod 1000000000 div micro"
proof -
  define r where "r = t mod nano_day"
  define q where "q = r mod 1000000000"
  have "t = t div nano_day * nano_day + r" unfolding r_def by simp
  moreover have "r = r div 1000000000 * 1000000000 + q" unfolding q_def by simp
  moreover have "q = q div micro * micro + q mod micro" by simp
  ultimately have "t = micro * ((t div nano_day * 86400 + r div 1000000000) * 1000000 + q div micro) + q mod micro"
    unfolding nano_day_def micro_def by (simp add: algebra_simps)
  then show ?thesis unfolding r_def [symmetric] q_def [symmetric]
    by (rule int_div_pos_eq) (simp_all add: micro_def)
qed

lemma div_less_imp_less: "a div k < b div k \<Longrightarrow> 0 < k \<Longrightarrow> a < (b :: int)"
  by (meson not_le zdiv_mono1)

lemma id_format_less:
  assumes "0 \<le> a" "b < year_10000" "a div micro < b div micro"
  shows "id_format a < id_format b"
proof -
  have pos: "0 < nano_day" "0 < micro" by (simp_all add: nano_day_def micro_def)
  have ab: "a < b" using div_less_imp_less [OF assms(3) pos(2)] .
  have days: "0 \<le> a div nano_day" "b div nano_day < day_number 10000 1 1" using day_in_range [of a] day_in_range [of b] ab assms by auto
  consider "a div nano_day < b div nano_day"
    | "a div nano_day = b div nano_day" "a mod nano_day div 1000000000 < b mod nano_day div 1000000000"
    | "a div nano_day = b div nano_day" "a mod nano_day div 1000000000 = b mod nano_day div 1000000000"
      "a mod nano_day mod 1000000000 div micro < b mod nano_day mod 1000000000 div micro"
    using split_less [OF pos(1) ab] split_less [of 1000000000 "a mod nano_day" "b mod nano_day"] assms(3) unfolding micros [of a] micros [of b]
    by force
  then show ?thesis
  proof cases
    case 1
    then show ?thesis unfolding id_format_parts using date_part_less days
      by (simp add: append_less length_parts)
  next
    case 2
    then show ?thesis unfolding id_format_parts using time_part_less time_range by (simp add: append_less length_parts)
  next
    case 3
    then show ?thesis unfolding id_format_parts using pad_less_int [of _ _ 6] time_range by (simp add: append_less length_parts)
  qed
qed

text \<open>The hour, minute and second of a day.\<close>

lemma clock_parts:
  "0 \<le> s \<Longrightarrow> s < 86400 \<Longrightarrow> 0 \<le> s div 3600" "0 \<le> s \<Longrightarrow> s < 86400 \<Longrightarrow> s div 3600 < 24"
  "0 \<le> s \<Longrightarrow> s < 86400 \<Longrightarrow> 0 \<le> s mod 3600 div 60" "0 \<le> s \<Longrightarrow> s < 86400 \<Longrightarrow> s mod 3600 div 60 < 60"
  "0 \<le> s \<Longrightarrow> s < 86400 \<Longrightarrow> 0 \<le> s mod 60" "0 \<le> s \<Longrightarrow> s < 86400 \<Longrightarrow> s mod 60 < 60"
  "s div 3600 * 3600 + s mod 3600 div 60 * 60 + s mod 60 = s" for s :: int
proof -
  have mm: "s mod 3600 mod 60 = s mod 60" by (simp add: mod_mod_cancel)
  show "s div 3600 * 3600 + s mod 3600 div 60 * 60 + s mod 60 = s"
    using div_mult_mod_eq [of s 3600] div_mult_mod_eq [of "s mod 3600" 60] mm by linarith
qed (use pos_mod_bound [of 3600 s] in \<open>simp_all add: pos_imp_zdiv_nonneg_iff div_less_iff_less_mult\<close>)

lemma digits_at_first:
  "i = 0 \<Longrightarrow> m < 10 ^ k \<Longrightarrow> digits_at (pad k m @ s) i k = int m"
  by (simp add: digits_at_def nat_of_digits_pad)

lemma digits_at_skip: "length a \<le> i \<Longrightarrow> digits_at (a @ s) i k = digits_at s (i - length a) k"
  by (simp add: digits_at_def)

lemma ID_Time_layout:
  assumes "valid_date y m d" "0 \<le> y" "y \<le> 9999" "0 \<le> h" "h < 24" "0 \<le> mi" "mi < 60" "0 \<le> se" "se < 60" "0 \<le> us" "us < 1000000"
  shows "ID_Time (pad 4 (nat y) @ pad 2 (nat m) @ pad 2 (nat d) @ ''T'' @ pad 2 (nat h) @ pad 2 (nat mi) @ pad 2 (nat se) @ pad 6 (nat us)) =
    Some (day_number y m d * nano_day + (h * 3600 + mi * 60 + se) * 1000000000 + us * micro)" (is "ID_Time ?s = _")
proof -
  have dm: "1 \<le> m" "m \<le> 12" "1 \<le> d" "d \<le> 31" using assms(1) days_in_pos(2) [of y m] by (auto simp: valid_date_def)
  have n: "nat y < 10 ^ 4" "nat m < 10 ^ 2" "nat d < 10 ^ 2" "nat h < 10 ^ 2" "nat mi < 10 ^ 2" "nat se < 10 ^ 2" "nat us < 10 ^ 6"
    using assms dm by (simp_all add: nat_less_iff)
  note digits_at_first [simp] digits_at_skip [simp]
  have "digits_at ?s 0 4 = y" "digits_at ?s 4 2 = m" "digits_at ?s 6 2 = d" "digits_at ?s 9 2 = h" "digits_at ?s 11 2 = mi"
    "digits_at ?s 13 2 = se" "digits_at ?s 15 6 = us"
    using n assms dm by (simp_all add: digits_at_def nat_of_digits_pad)
  with assms show ?thesis by (simp add: ID_Time_def Let_def)
qed

lemma ID_Time_id_format:
  assumes "0 \<le> t" "t < year_10000"
  shows "ID_Time (id_format t) = Some (t - t mod micro)"
proof -
  obtain y m d where ymd: "date_of_day (t div nano_day) = (y, m, d)" by (metis prod_cases3)
  have v: "valid_date y m d" "day_number y m d = t div nano_day" "1 \<le> y" "y \<le> 9999"
    using date_in_range [OF _ _ ymd] day_in_range [OF assms] by auto
  define se where "se = t mod nano_day div 1000000000"
  have se: "0 \<le> se" "se < 86400" using time_range(1,2) unfolding se_def by auto
  have us: "day_number y m d * nano_day + se * 1000000000 + t mod nano_day mod 1000000000 div micro * micro = t - t mod micro"
  proof -
    define u where "u = t mod nano_day mod 1000000000 div micro"
    have "t - t mod micro = t div micro * micro" by (simp add: minus_mod_eq_div_mult)
    also have "\<dots> = ((t div nano_day * 86400 + se) * 1000000 + u) * micro" unfolding micros [of t] se_def u_def ..
    also have "\<dots> = t div nano_day * nano_day + se * 1000000000 + u * micro" by (simp add: nano_day_def micro_def)
    finally show ?thesis unfolding v(2) u_def by simp
  qed
  have "id_format t = pad 4 (nat y) @ pad 2 (nat m) @ pad 2 (nat d) @ ''T'' @ pad 2 (nat (se div 3600)) @
      pad 2 (nat (se mod 3600 div 60)) @ pad 2 (nat (se mod 60)) @ pad 6 (nat (t mod nano_day mod 1000000000 div micro))"
    by (simp add: id_format_def ymd se_def Let_def)
  moreover have "0 \<le> y" using v(3) by simp
  ultimately show ?thesis
    using ID_Time_layout [OF v(1) _ v(4) clock_parts(1-6) [OF se] time_range(3,4) [of t]] us
    unfolding clock_parts(7) by (simp only: zero_less_numeral simp_thms)
qed

lemma list_all_take: "list_all P xs \<Longrightarrow> list_all P (take n xs)"
  by (auto simp: list_all_iff dest: in_set_takeD)

lemma id_format_shape:
  "length (id_format t) = 21" "id_format t ! 8 = CHR ''T''" "list_all is_digit (take 8 (id_format t))" "list_all is_digit (drop 9 (id_format t))"
proof -
  have p: "list_all is_digit (date_part n)" "list_all is_digit (time_part k)" for n k
    by (simp_all add: date_part_def time_part_def pad_digits split: prod.splits)
  show "length (id_format t) = 21" "id_format t ! 8 = CHR ''T''" "list_all is_digit (take 8 (id_format t))"
    "list_all is_digit (drop 9 (id_format t))"
    unfolding id_format_parts using p by (simp_all add: length_parts nth_append pad_digits)
qed

lemma ID_Valid_id_format: "0 \<le> t \<Longrightarrow> t < year_10000 \<Longrightarrow> ID_Valid (id_format t)"
  by (simp add: ID_Valid_def id_format_shape ID_Time_id_format)

subsection \<open>The clock never repeats and never goes back\<close>

text \<open>The identifiers one clock assigns, by the readings of the system clock it takes.\<close>

fun clock_ids :: "int list \<Rightarrow> int \<Rightarrow> string list" where
  "clock_ids [] last_used = []"
| "clock_ids (now # readings) last_used = (case Clock_Next now last_used of (jid, used) \<Rightarrow> jid # clock_ids readings used)"

text \<open>The instants used are microseconds apart, and stay below any limit with room for the jobs to come.\<close>

lemma Clock_Next_step:
  assumes "Clock_Next now u = (jid, u1)" "0 \<le> u"
  shows "jid = id_format u1" "u div micro < u1 div micro" "0 \<le> u1" "now < b \<Longrightarrow> u < b \<Longrightarrow> u1 < b + micro"
proof -
  have cases: "u1 = u + micro \<or> u1 = now - now mod micro \<and> u < u1"
    using assms(1) by (auto simp: Clock_Next_def Let_def split: if_splits)
  show "jid = id_format u1" using assms(1) by (auto simp: Clock_Next_def Let_def)
  show "0 \<le> u1" using cases assms(2) by (auto simp: micro_def)
  show "u1 < b + micro" if "now < b" "u < b" using cases that pos_mod_sign [of micro now] by (auto simp: micro_def)
  show "u div micro < u1 div micro"
  proof (cases "u1 = u + micro")
    case False
    then have "u1 = now div micro * micro" "u < u1" using cases by (auto simp: minus_mod_eq_div_mult)
    then show ?thesis by (simp add: div_less_iff_less_mult micro_def)
  qed (simp add: micro_def)
qed

lemma clock_ids_above:
  assumes "0 \<le> u" "u < b" "list_all (\<lambda>r. r < b) readings" "b + micro * int (length readings) \<le> year_10000"
  shows "sorted_wrt (<) (clock_ids readings u) \<and> list_all ID_Valid (clock_ids readings u) \<and>
    list_all (\<lambda>jid. id_format u < jid) (clock_ids readings u)"
  using assms
proof (induction readings arbitrary: u b)
  case (Cons now readings)
  obtain jid u1 where n: "Clock_Next now u = (jid, u1)" by (cases "Clock_Next now u")
  note step = Clock_Next_step [OF n Cons.prems(1)]
  have u1: "u1 < b + micro" using step(4) Cons.prems(2,3) by simp
  have b1: "b + micro + micro * int (length readings) \<le> year_10000" using Cons.prems(4) by (simp add: algebra_simps)
  have lt: "list_all (\<lambda>r. r < b + micro) readings" using Cons.prems(3) by (auto simp: list_all_iff micro_def)
  have below: "u1 < year_10000" using u1 b1 by (auto simp: micro_def)
  have first: "id_format u < id_format u1" by (rule id_format_less [OF Cons.prems(1) below step(2)])
  have rest: "sorted_wrt (<) (clock_ids readings u1)" "list_all ID_Valid (clock_ids readings u1)"
    "list_all (\<lambda>jid. id_format u1 < jid) (clock_ids readings u1)"
    using Cons.IH [OF step(3) u1 lt b1] by auto
  then have "list_all (\<lambda>jid. id_format u < jid) (clock_ids readings u1)" using first by (auto simp: list_all_iff)
  with rest show ?case using ID_Valid_id_format [OF step(3) below] first by (auto simp: n step(1) list_all_iff)
qed simp

subsection \<open>The replay cache holds the newest jobs\<close>

text \<open>Offers made to one guard, one after another.\<close>

fun guard_run :: "(HJob option \<times> int) list \<Rightarrow> Guard \<Rightarrow> bool list \<times> Guard" where
  "guard_run [] g = ([], g)"
| "guard_run ((j, now) # offers) g =
     (case Guard_Admit j now g of (err, g1) \<Rightarrow> (case guard_run offers g1 of (oks, g2) \<Rightarrow> ((err = None) # oks, g2)))"

text \<open>What it promises, by the jobs it has accepted: a well-formed job in time is accepted unless one of the newest
  accepted jobs has its identifier or its nonce.\<close>

definition newest :: "nat \<Rightarrow> 'a list \<Rightarrow> 'a list" where
  "newest n xs = drop (length xs - n) xs"

definition acceptable :: "nat \<Rightarrow> HJob list \<Rightarrow> HJob option \<Rightarrow> int \<Rightarrow> bool" where
  "acceptable n history job now \<longleftrightarrow>
     (case job of
        None \<Rightarrow> False
      | Some j \<Rightarrow> ID_Valid (jo_JID j) \<and> jo_Nonce j \<noteq> [] \<and> \<not> Expired j now \<and>
          list_all (\<lambda>k. jo_JID k \<noteq> jo_JID j \<and> jo_Nonce k \<noteq> jo_Nonce j) (newest n history))"

fun accepts :: "nat \<Rightarrow> (HJob option \<times> int) list \<Rightarrow> HJob list \<Rightarrow> bool list \<times> HJob list" where
  "accepts n [] history = ([], history)"
| "accepts n ((job, now) # offers) history =
     (let ok = acceptable n history job now;
          (oks, final) = accepts n offers (if ok then history @ [the job] else history) in (ok # oks, final))"

text \<open>The cache agrees with its list of keys, which is no longer than the bound.\<close>

definition guard_inv :: "Guard \<Rightarrow> bool" where
  "guard_inv g \<longleftrightarrow>
     0 < gd_size g \<and> int (length (gd_order g)) \<le> gd_size g * 2 \<and> distinct (gd_order g) \<and> distinct (gd_seen g) \<and>
     set (gd_seen g) = set (gd_order g)"

definition guard_holds :: "nat \<Rightarrow> HJob list \<Rightarrow> Guard \<Rightarrow> bool" where
  "guard_holds n history g \<longleftrightarrow> guard_inv g \<and> gd_size g = int n \<and> gd_order g = concat (map guard_keys (newest n history))"

lemma newest_all: "length xs \<le> n \<Longrightarrow> newest n xs = xs"
  by (simp add: newest_def)

lemma newest_newest: "newest n (newest n xs @ ys) = newest n (xs @ ys)"
  by (cases "length xs \<le> n") (auto simp: newest_def add.commute)

lemma newest_Cons_full: "n \<le> length xs \<Longrightarrow> newest n (x # xs) = newest n xs"
  by (simp add: newest_def Suc_diff_le)

lemma length_concat_keys: "length (concat (map guard_keys js)) = 2 * length js"
  by (induction js) (auto simp: guard_keys_def)

lemma newest_keys: "newest (2 * n) (concat (map guard_keys js)) = concat (map guard_keys (newest n js))"
proof (induction js)
  case (Cons j js)
  show ?case
  proof (cases "length js < n")
    case True
    then show ?thesis by (simp add: newest_all length_concat_keys del: concat.simps list.map)
  next
    case False
    then have "newest (2 * n) (concat (map guard_keys (j # js))) = newest (2 * n) (concat (map guard_keys js))"
      by (simp add: guard_keys_def newest_Cons_full length_concat_keys)
    with False Cons show ?thesis by (simp add: newest_Cons_full)
  qed
qed (simp add: newest_def)

lemma key_seen:
  "list_ex (\<lambda>key. key \<in> set (concat (map guard_keys js))) (guard_keys j) \<longleftrightarrow>
     \<not> list_all (\<lambda>k. jo_JID k \<noteq> jo_JID j \<and> jo_Nonce k \<noteq> jo_Nonce j) js"
  by (induction js) (auto simp: guard_keys_def)

lemma guard_evict_stop: "int (length (gd_order g)) \<le> gd_size g * 2 \<Longrightarrow> guard_evict g = g"
  by (simp add: guard_evict.simps [of g])

lemma guard_evict_step:
  "int (length (gd_order g)) = gd_size g * 2 + 1 \<Longrightarrow> gd_order g = x # xs \<Longrightarrow>
     guard_evict g = g\<lparr>gd_order := xs, gd_seen := removeAll x (gd_seen g)\<rparr>"
  by (simp add: guard_evict.simps [of g] guard_evict_stop)

text \<open>Recording a new key drops at most the oldest one.\<close>

lemma guard_record_new:
  assumes "guard_inv g" "key \<notin> set (gd_seen g)"
  shows "guard_inv (guard_record key g)" "gd_size (guard_record key g) = gd_size g"
    "gd_order (guard_record key g) = newest (nat (gd_size g * 2)) (gd_order g @ [key])"
    "set (gd_seen (guard_record key g)) \<subseteq> insert key (set (gd_seen g))"
proof -
  let ?g = "g\<lparr>gd_seen := key # removeAll key (gd_seen g), gd_order := gd_order g @ [key]\<rparr>"
  have inv: "0 < gd_size g" "int (length (gd_order g)) \<le> gd_size g * 2" "distinct (gd_order g)" "distinct (gd_seen g)"
    "set (gd_seen g) = set (gd_order g)" using assms(1) by (auto simp: guard_inv_def)
  have "guard_inv (guard_record key g) \<and> gd_size (guard_record key g) = gd_size g \<and>
    gd_order (guard_record key g) = newest (nat (gd_size g * 2)) (gd_order g @ [key]) \<and>
    set (gd_seen (guard_record key g)) \<subseteq> insert key (set (gd_seen g))"
  proof (cases "int (length (gd_order g)) < gd_size g * 2")
    case True
    then have "guard_record key g = ?g" by (simp add: guard_record_def guard_evict_stop)
    with True inv assms(2) show ?thesis by (auto simp: guard_inv_def newest_all)
  next
    case False
    with inv obtain x xs where x: "gd_order g = x # xs" by (cases "gd_order g") auto
    have kx: "key \<noteq> x" "removeAll key (gd_seen g) = gd_seen g" using assms(2) inv(5) x by auto
    have "guard_record key g = ?g\<lparr>gd_order := xs @ [key], gd_seen := removeAll x (gd_seen ?g)\<rparr>"
      unfolding guard_record_def by (rule guard_evict_step) (use False inv(2) x in auto)
    then have "gd_seen (guard_record key g) = key # removeAll x (gd_seen g)" "gd_order (guard_record key g) = xs @ [key]"
      "gd_size (guard_record key g) = gd_size g" using kx by simp_all
    moreover have "newest (nat (gd_size g * 2)) (gd_order g @ [key]) = xs @ [key]"
    proof -
      have "length (xs @ [key]) = nat (gd_size g * 2)" using False inv(2) x by auto
      then show ?thesis unfolding x by (simp add: newest_Cons_full newest_all)
    qed
    moreover have "int (length (xs @ [key])) \<le> gd_size g * 2" "distinct (xs @ [key])" "set (gd_seen g) - {x} = set xs"
      using inv(2,3,5) x assms(2) by auto
    ultimately show ?thesis using inv(1,4) assms(2) by (auto simp: guard_inv_def distinct_removeAll)
  qed
  then show "guard_inv (guard_record key g)" "gd_size (guard_record key g) = gd_size g"
    "gd_order (guard_record key g) = newest (nat (gd_size g * 2)) (gd_order g @ [key])"
    "set (gd_seen (guard_record key g)) \<subseteq> insert key (set (gd_seen g))" by auto
qed

lemma guard_keys_new:
  assumes "guard_inv g" "list_all (\<lambda>key. key \<notin> set (gd_seen g)) keys" "distinct keys"
  shows "guard_inv (fold guard_record keys g) \<and> gd_size (fold guard_record keys g) = gd_size g \<and>
    gd_order (fold guard_record keys g) = newest (nat (gd_size g * 2)) (gd_order g @ keys)"
  using assms
proof (induction keys arbitrary: g)
  case Nil
  then have "length (gd_order g) \<le> nat (gd_size g * 2)" by (auto simp: guard_inv_def)
  with Nil show ?case by (simp add: newest_all)
next
  case (Cons key keys)
  have new: "key \<notin> set (gd_seen g)" using Cons.prems by simp
  note r = guard_record_new [OF Cons.prems(1) new]
  have "list_all (\<lambda>k. k \<notin> set (gd_seen (guard_record key g))) keys"
    using Cons.prems(2,3) r(4) by (auto simp: list_all_iff)
  with Cons.IH [OF r(1)] Cons.prems(3) show ?case by (simp add: r(2,3) newest_newest)
qed

lemma guard_admit_spec:
  assumes "guard_holds n history g"
  shows "(fst (Guard_Admit job now g) = None) = acceptable n history job now"
    "guard_holds n (if acceptable n history job now then history @ [the job] else history) (snd (Guard_Admit job now g))"
proof -
  have h: "guard_inv g" "gd_size g = int n" "gd_order g = concat (map guard_keys (newest n history))"
    "set (gd_seen g) = set (concat (map guard_keys (newest n history)))"
    using assms by (auto simp: guard_holds_def guard_inv_def)
  have seen: "list_ex (\<lambda>key. key \<in> set (gd_seen g)) (guard_keys j) \<longleftrightarrow>
     \<not> list_all (\<lambda>k. jo_JID k \<noteq> jo_JID j \<and> jo_Nonce k \<noteq> jo_Nonce j) (newest n history)" for j
    unfolding h(4) by (rule key_seen)
  have nonempty: "ID_Valid [] = False" by (simp add: ID_Valid_def)
  show ok: "(fst (Guard_Admit job now g) = None) = acceptable n history job now"
    using nonempty by (auto simp: Guard_Admit_def guard_check_def acceptable_def seen split: option.splits if_splits)
  show "guard_holds n (if acceptable n history job now then history @ [the job] else history) (snd (Guard_Admit job now g))"
  proof (cases "acceptable n history job now")
    case False
    with ok have "snd (Guard_Admit job now g) = g"
      by (auto simp: Guard_Admit_def guard_check_def split: option.splits if_splits)
    with False assms show ?thesis by simp
  next
    case True
    then obtain j where j: "job = Some j" by (auto simp: acceptable_def split: option.splits)
    have g1: "snd (Guard_Admit job now g) = fold guard_record (guard_keys j) g"
      using ok True by (auto simp: Guard_Admit_def guard_check_def j split: if_splits)
    have fresh: "list_all (\<lambda>key. key \<notin> set (gd_seen g)) (guard_keys j)"
      using True seen [of j] by (auto simp: acceptable_def j list_ex_iff list_all_iff)
    have dist: "distinct (guard_keys j)" by (simp add: guard_keys_def)
    have "newest (2 * n) (gd_order g @ guard_keys j) = concat (map guard_keys (newest n (history @ [j])))"
      unfolding h(3) using newest_newest [of "2 * n" "concat (map guard_keys history)" "guard_keys j"]
        newest_keys [of n "history @ [j]"] by (simp add: newest_keys)
    moreover have "nat (gd_size g * 2) = 2 * n" using h(2) by simp
    ultimately show ?thesis unfolding g1 using guard_keys_new [OF h(1) fresh dist] h(2) True j by (simp add: guard_holds_def)
  qed
qed

lemma guard_run_spec:
  "guard_holds n history g \<Longrightarrow>
     fst (guard_run offers g) = fst (accepts n offers history) \<and>
     guard_holds n (snd (accepts n offers history)) (snd (guard_run offers g))"
proof (induction offers arbitrary: history g)
  case (Cons offer offers)
  obtain job now where offer: "offer = (job, now)" by (cases offer)
  note spec = guard_admit_spec [OF Cons.prems, of job now]
  show ?case using Cons.IH [OF spec(2)] spec(1) by (auto simp: offer Let_def case_prod_beta)
qed simp

text \<open>However the system clock moves, standing still or going back, the identifiers one clock assigns are valid and
  strictly increase as text in the order they are assigned, so that none is assigned twice, as long as the readings and the
  instants the clock moves on to stay before the year 10000, which an identifier has no digits for.\<close>

theorem clock_never_repeats:
  assumes "0 \<le> last_used" "last_used < b" "list_all (\<lambda>now. now < b) readings"
    "b + micro * int (length readings) \<le> year_10000"
  shows "sorted_wrt (<) (clock_ids readings last_used) \<and> list_all ID_Valid (clock_ids readings last_used)"
  using clock_ids_above [OF assms] by blast

theorem clock_never_repeats_witness:
  "sorted_wrt (<) (clock_ids [63000000000000000500, 63000000000000000900, 5, 0] 0) \<and>
   list_all ID_Valid (clock_ids [63000000000000000500, 63000000000000000900, 5, 0] 0)"
  by (rule clock_never_repeats [of 0 63000000000000001000]) (simp_all add: micro_def year_10000_def nano_day_def day_number_def days_before_year_def)

text \<open>A job identifier reads back as the microsecond it was made in, and passes the check made on identifiers from
  the network.\<close>

lemma identifier_reads_back:
  assumes "0 \<le> now" "now < year_10000"
  shows "ID_Valid (NewID now) \<and> ID_Time (NewID now) = Some (now - now mod micro)"
  using ID_Valid_id_format [OF assms] ID_Time_id_format [OF assms] by (simp add: NewID_def)

text \<open>The node's replay cache answers every sequence of offers as its contract does: a well-formed job that has not
  expired is admitted exactly when none of the newest admitted jobs, as many as the cache's size, has its identifier or
  its nonce; a refused job takes no place, and the cache holds the two keys of those jobs and no more.\<close>

theorem guard_remembers_newest:
  "fst (guard_run offers (NewGuard sz)) = fst (accepts (nat (gd_size (NewGuard sz))) offers []) \<and>
   Guard_Len (snd (guard_run offers (NewGuard sz))) =
     2 * min (nat (gd_size (NewGuard sz))) (length (snd (accepts (nat (gd_size (NewGuard sz))) offers [])))"
proof -
  define n where "n = nat (gd_size (NewGuard sz))"
  have "guard_holds n [] (NewGuard sz)"
    by (simp add: guard_holds_def guard_inv_def NewGuard_def n_def newest_def DefaultGuardSize_def)
  from guard_run_spec [OF this, of offers]
  have run: "fst (guard_run offers (NewGuard sz)) = fst (accepts n offers [])"
    "guard_holds n (snd (accepts n offers [])) (snd (guard_run offers (NewGuard sz)))" by auto
  have "length (newest n xs) = min n (length xs)" for xs :: "HJob list" by (simp add: newest_def)
  moreover have "length (gd_seen g) = length (gd_order g)" if "guard_inv g" for g
    using that by (metis guard_inv_def distinct_card)
  ultimately show ?thesis unfolding n_def [symmetric] using run by (auto simp: guard_holds_def Guard_Len_def length_concat_keys)
qed

end
