(* ===== verification/Rfc3339.thy ===== *)
theory Rfc3339
  imports "HOL-Library.Monad_Syntax" Jobs
begin

text \<open>
  What the replay record uses of Go's \<open>time\<close> package: \<open>Format\<close> and \<open>Parse\<close> with the layout \<open>time.RFC3339Nano\<close>,
  on instants in UTC. \<open>Parse\<close> reads as the library's general parser does: an hour of one digit, a comma before the
  fraction, more than nine digits of it and offsets of up to 24:60 are read too.
\<close>

subsection \<open>Writing\<close>

definition frac_text :: "nat \<Rightarrow> string" where
  "frac_text n = (if n = 0 then [] else CHR ''.'' # rev (dropWhile (\<lambda>c. c = CHR ''0'') (rev (pad 9 n))))"

definition format_rfc3339nano :: "int \<Rightarrow> string" where
  "format_rfc3339nano t =
     (let (y, m, d) = date_of_day (t div nano_day); r = t mod nano_day; s = r div 1000000000 in
      pad 4 (nat y) @ ''-'' @ pad 2 (nat m) @ ''-'' @ pad 2 (nat d) @ ''T'' @
      pad 2 (nat (s div 3600)) @ '':'' @ pad 2 (nat (s mod 3600 div 60)) @ '':'' @ pad 2 (nat (s mod 60)) @
      frac_text (nat (r mod 1000000000)) @ ''Z'')"

subsection \<open>Reading\<close>

definition getnum :: "bool \<Rightarrow> string \<Rightarrow> (int \<times> string) option" where
  "getnum two_digits s =
     (case s of
        [] \<Rightarrow> None
      | c # r \<Rightarrow>
          if \<not> is_digit c then None
          else (case r of
              d # q \<Rightarrow> if is_digit d then Some (int (digit_val c * 10 + digit_val d), q)
                else if two_digits then None else Some (int (digit_val c), r)
            | [] \<Rightarrow> if two_digits then None else Some (int (digit_val c), r)))"

definition long_year :: "string \<Rightarrow> (int \<times> string) option" where
  "long_year s = (if length s \<ge> 4 \<and> list_all is_digit (take 4 s) then Some (int (nat_of_digits (take 4 s)), drop 4 s) else None)"

definition literal :: "char \<Rightarrow> string \<Rightarrow> string option" where
  "literal c s = (case s of x # r \<Rightarrow> if x = c then Some r else None | [] \<Rightarrow> None)"

definition frac_second :: "string \<Rightarrow> int \<times> string" where
  "frac_second s =
     (case s of
        p # d # r \<Rightarrow>
          if p \<in> set ''.,'' \<and> is_digit d
          then (let ds = takeWhile is_digit (d # r); n = min 9 (length ds)
                in (int (nat_of_digits (take 9 ds)) * 10 ^ (9 - n), dropWhile is_digit (d # r)))
          else (0, s)
      | _ \<Rightarrow> (0, s))"

definition zone_offset :: "string \<Rightarrow> (int \<times> string) option" where
  "zone_offset s =
     (case s of
        [] \<Rightarrow> None
      | c # r \<Rightarrow>
          if c = CHR ''Z'' then Some (0, r)
          else if length s < 6 then None
          else if s ! 3 \<noteq> CHR '':'' then None
          else do {
            (hr, x) \<leftarrow> getnum True (take 2 (drop 1 s));
            (mm, x) \<leftarrow> getnum True (take 2 (drop 4 s));
            if hr > 24 \<or> mm > 60 then None
            else if c = CHR ''+'' then Some ((hr * 60 + mm) * 60, drop 6 s)
            else if c = CHR ''-'' then Some (- ((hr * 60 + mm) * 60), drop 6 s)
            else None
          })"

definition parse_rfc3339 :: "string \<Rightarrow> int option" where
  "parse_rfc3339 s = do {
     (y, s) \<leftarrow> long_year s; s \<leftarrow> literal CHR ''-'' s;
     (m, s) \<leftarrow> getnum True s; s \<leftarrow> literal CHR ''-'' s;
     (d, s) \<leftarrow> getnum True s; s \<leftarrow> literal CHR ''T'' s;
     (h, s) \<leftarrow> getnum False s; s \<leftarrow> literal CHR '':'' s;
     (mi, s) \<leftarrow> getnum True s; s \<leftarrow> literal CHR '':'' s;
     (se, s) \<leftarrow> getnum True s;
     let (ns, s) = frac_second s;
     (off, s) \<leftarrow> zone_offset s;
     if s = [] \<and> valid_date y m d \<and> h < 24 \<and> mi < 60 \<and> se < 60
     then Some (day_number y m d * nano_day + (h * 3600 + mi * 60 + se - off) * 1000000000 + ns)
     else None
   }"

subsection \<open>What is written reads back\<close>

lemma pad_Suc_Suc: "pad 2 n = [digit_char (n div 10 mod 10), digit_char (n mod 10)]"
  by (simp add: numeral_2_eq_2)

lemma getnum_pad: "n < 100 \<Longrightarrow> getnum two (pad 2 n @ s) = Some (int n, s)"
  by (simp add: getnum_def pad_Suc_Suc)

lemma long_year_pad: "n < 10000 \<Longrightarrow> long_year (pad 4 n @ s) = Some (int n, s)"
  by (simp add: long_year_def pad_digits nat_of_digits_pad)

lemma literal_Cons [simp]: "literal c (c # s) = Some s"
  by (simp add: literal_def)

lemma nat_of_digits_zeros: "nat_of_digits (s @ replicate k CHR ''0'') = nat_of_digits s * 10 ^ k"
proof (induction k)
  case (Suc k)
  have "digit_val CHR ''0'' = 0" by (simp add: digit_val_def)
  then have "nat_of_digits ((s @ replicate k CHR ''0'') @ [CHR ''0'']) = 10 * nat_of_digits (s @ replicate k CHR ''0'')"
    by (simp only: nat_of_digits_snoc)
  with Suc show ?case by (simp add: replicate_append_same [symmetric])
qed simp

lemma strip_zeros:
  obtains k where "s = rev (dropWhile (\<lambda>c. c = CHR ''0'') (rev s)) @ replicate k CHR ''0''"
proof
  have "rev s = takeWhile (\<lambda>c. c = CHR ''0'') (rev s) @ dropWhile (\<lambda>c. c = CHR ''0'') (rev s)" by simp
  moreover have "takeWhile (\<lambda>c. c = CHR ''0'') (rev s) = replicate (length (takeWhile (\<lambda>c. c = CHR ''0'') (rev s))) CHR ''0''"
    by (rule replicate_length_same [symmetric]) (auto dest: set_takeWhileD)
  ultimately show "s = rev (dropWhile (\<lambda>c. c = CHR ''0'') (rev s)) @ replicate (length (takeWhile (\<lambda>c. c = CHR ''0'') (rev s))) CHR ''0''"
    by (metis rev_append rev_replicate rev_rev_ident)
qed

lemma frac_second_text:
  assumes "n < 10 ^ 9"
  shows "frac_second (frac_text n @ ''Z'') = (int n, ''Z'')"
proof (cases "n = 0")
  case True
  then show ?thesis by (simp add: frac_text_def frac_second_def)
next
  case False
  define ds where "ds = rev (dropWhile (\<lambda>c. c = CHR ''0'') (rev (pad 9 n)))"
  obtain k where k: "pad 9 n = ds @ replicate k CHR ''0''" using strip_zeros [of "pad 9 n"] unfolding ds_def by metis
  have len: "length ds + k = 9" using arg_cong [OF k, of length] by simp
  have val: "nat_of_digits ds * 10 ^ k = n" using nat_of_digits_pad [OF assms] nat_of_digits_zeros [of ds k] k by simp
  with False have "ds \<noteq> []" by (auto simp: nat_of_digits_def)
  then obtain c r where ds: "ds = c # r" by (cases ds) auto
  have dig: "list_all is_digit ds" using pad_digits [of 9 n] unfolding k by simp
  have zone: "\<not> is_digit CHR ''Z''" by (simp add: is_digit_def)
  have "takeWhile is_digit (ds @ ''Z'') = ds" "dropWhile is_digit (ds @ ''Z'') = ''Z''"
    using dig zone by (simp_all add: list_all_iff takeWhile_append2 dropWhile_append2)
  moreover have "frac_text n = CHR ''.'' # ds" using False by (simp add: frac_text_def ds_def)
  moreover have "take 9 ds = ds" "9 - min 9 (length ds) = k" using len by auto
  moreover have "int (nat_of_digits ds) * 10 ^ k = int n" using val by (metis of_nat_mult of_nat_numeral of_nat_power)
  ultimately show ?thesis using dig by (simp add: frac_second_def ds Let_def)
qed

lemma parse_layout:
  assumes "valid_date y m d" "0 \<le> y" "y \<le> 9999" "0 \<le> h" "h < 24" "0 \<le> mi" "mi < 60" "0 \<le> se" "se < 60" "n < 10 ^ 9"
  shows "parse_rfc3339 (pad 4 (nat y) @ ''-'' @ pad 2 (nat m) @ ''-'' @ pad 2 (nat d) @ ''T'' @ pad 2 (nat h) @ '':'' @
      pad 2 (nat mi) @ '':'' @ pad 2 (nat se) @ frac_text n @ ''Z'') =
    Some (day_number y m d * nano_day + (h * 3600 + mi * 60 + se) * 1000000000 + int n)"
proof -
  have dm: "1 \<le> m" "m \<le> 12" "1 \<le> d" "d \<le> 31" using assms(1) days_in_pos(2) [of y m] by (auto simp: valid_date_def)
  have z: "zone_offset ''Z'' = Some (0, [])" by (simp add: zone_offset_def)
  show ?thesis unfolding parse_rfc3339_def using assms dm
    by (simp add: long_year_pad getnum_pad nat_less_iff frac_second_text z)
qed

theorem parse_format:
  assumes "0 \<le> t" "t < year_10000"
  shows "parse_rfc3339 (format_rfc3339nano t) = Some t"
proof -
  obtain y m d where ymd: "date_of_day (t div nano_day) = (y, m, d)" by (metis prod_cases3)
  have v: "valid_date y m d" "day_number y m d = t div nano_day" "1 \<le> y" "y \<le> 9999"
    using date_in_range [OF _ _ ymd] day_in_range [OF assms] by auto
  define r where "r = t mod nano_day"
  define se where "se = r div 1000000000"
  have se: "0 \<le> se" "se < 86400" using time_range(1,2) unfolding se_def r_def by auto
  have "0 \<le> r mod 1000000000" "r mod 1000000000 < 10 ^ 9" by simp_all
  then have n: "nat (r mod 1000000000) < 10 ^ 9" "int (nat (r mod 1000000000)) = r mod 1000000000" by (simp_all add: nat_less_iff)
  have t: "t = t div nano_day * nano_day + se * 1000000000 + r mod 1000000000" unfolding se_def r_def by simp
  have y: "0 \<le> y" using v(3) by simp
  have f: "format_rfc3339nano t = pad 4 (nat y) @ ''-'' @ pad 2 (nat m) @ ''-'' @ pad 2 (nat d) @ ''T'' @ pad 2 (nat (se div 3600)) @ '':'' @
      pad 2 (nat (se mod 3600 div 60)) @ '':'' @ pad 2 (nat (se mod 60)) @ frac_text (nat (r mod 1000000000)) @ ''Z''"
    by (simp add: format_rfc3339nano_def ymd se_def r_def Let_def)
  show ?thesis unfolding f parse_layout [OF v(1) y v(4) clock_parts(1-6) [OF se] n(1)] clock_parts(7) n(2) v(2) using t by simp
qed

end
