(* ===== verification/Replay.thy ===== *)
theory Replay
  imports Rfc3339
begin

text \<open>
  The record of signed jobs a node keeps on disk (\<open>internal/job/signedreplay.go\<close>). The state is what the process holds
  in memory and the file, with how much of the file has been synced: a crash of the machine may take back the rest.
  What the operating system answers during a call is an argument of it. A restart empties the memory.
\<close>

subsection \<open>The record\<close>

definition newline :: char where "newline = CHR 0x0A"

record SignedReplay =
  sr_path :: string
  sr_seen :: "(string \<times> int) list"   \<comment> \<open>jid to expiry; zero is never\<close>
  sr_lines :: int
  sr_loaded :: bool
  sr_err :: "fmt_arg option"
  sr_compactAt :: int

record ReplayDisk =
  rd_text :: "string option"   \<comment> \<open>no file yet, or its bytes\<close>
  rd_synced :: nat

text \<open>What the system answers in one call: the clock as the record is loaded and as it is pruned, and the errors of
  reading, of the two rewrites and of the steps of an append, where a failed write says how many bytes it wrote.\<close>

record ReplayIO =
  ri_load_now :: int
  ri_now :: int
  ri_read :: "fmt_arg option"
  ri_load_mkdir :: "fmt_arg option"
  ri_load_write :: "fmt_arg option"
  ri_compact_mkdir :: "fmt_arg option"
  ri_compact_write :: "fmt_arg option"
  ri_mkdir :: "fmt_arg option"
  ri_open :: "fmt_arg option"
  ri_write :: "(nat \<times> fmt_arg) option"
  ri_sync :: "fmt_arg option"
  ri_close :: "fmt_arg option"

definition SignedReplayRetention :: int where "SignedReplayRetention = nano_day"

definition signedReplayCompactAt :: int where "signedReplayCompactAt = 1024"

definition NewSignedReplay :: "string \<Rightarrow> SignedReplay" where
  "NewSignedReplay path = \<lparr>sr_path = path, sr_seen = [], sr_lines = 0, sr_loaded = False, sr_err = None, sr_compactAt = 0\<rparr>"

definition formatSignedReplayLine :: "string \<Rightarrow> int \<Rightarrow> string" where
  "formatSignedReplayLine jid expires = jid @ '' '' @ (if expires \<noteq> 0 then format_rfc3339nano expires else ''never'') @ [newline]"

definition parseSignedReplayLine :: "string \<Rightarrow> fmt_arg + string \<times> int" where
  "parseSignedReplayLine line =
     (case index_byte line CHR '' '' of
        None \<Rightarrow> Inl (FErr ''%q is not `<jid> <expiry>`'' [FStr line])
      | Some i \<Rightarrow>
          let jid = take i line; at = drop (Suc i) line in
          if \<not> ID_Valid jid then Inl (FErr ''%q is not `<jid> <expiry>`'' [FStr line])
          else if at = ''never'' then Inr (jid, 0)
          else (case parse_rfc3339 at of
              None \<Rightarrow> Inl (FErr ''%q: the expiry is not a timestamp: %w'' [FStr line, FStr at])
            | Some expires \<Rightarrow> Inr (jid, expires)))"

definition replay_prune :: "int \<Rightarrow> SignedReplay \<Rightarrow> SignedReplay" where
  "replay_prune now s = s\<lparr>sr_seen := filter (\<lambda>(jid, expires). \<not> (expires \<noteq> 0 \<and> expires < now - SignedReplayRetention)) (sr_seen s)\<rparr>"

text \<open>The file is replaced whole or not at all; the entries come in some order of the map.\<close>

definition replay_rewrite :: "fmt_arg option \<Rightarrow> fmt_arg option \<Rightarrow> SignedReplay \<Rightarrow> ReplayDisk \<Rightarrow> fmt_arg option \<times> SignedReplay \<times> ReplayDisk" where
  "replay_rewrite mkdir wr s d =
     (case mkdir of
        Some err \<Rightarrow> (Some err, s, d)
      | None \<Rightarrow> (case wr of
            Some err \<Rightarrow> (Some (FErr ''writing %s: %w'' [FStr (sr_path s), err]), s, d)
          | None \<Rightarrow>
              let text = concat (map (\<lambda>(jid, expires). formatSignedReplayLine jid expires) (sr_seen s))
              in (None, s\<lparr>sr_lines := int (length (sr_seen s))\<rparr>, \<lparr>rd_text = Some text, rd_synced = length text\<rparr>)))"

text \<open>The loop over the lines: the entries read, how many, and the error it stops with.\<close>

fun replay_lines :: "string \<Rightarrow> string list \<Rightarrow> bool \<Rightarrow> nat \<Rightarrow> (string \<times> int) list \<Rightarrow> int \<Rightarrow> fmt_arg option \<times> (string \<times> int) list \<times> int" where
  "replay_lines path [] complete i seen n = (None, seen, n)"
| "replay_lines path (line # rest) complete i seen n =
     (if line = [] then replay_lines path rest complete (Suc i) seen n
      else (case parseSignedReplayLine line of
          Inl err \<Rightarrow>
            if rest = [] \<and> \<not> complete then replay_lines path rest complete (Suc i) seen n
            else (Some (FErr ''this node's record of signed jobs, %s, line %d: %w'' [FStr path, FInt (int i + 1), err]), seen, n)
        | Inr (jid, expires) \<Rightarrow> replay_lines path rest complete (Suc i) (gomap_put jid expires seen) (n + 1)))"

definition replay_load :: "ReplayIO \<Rightarrow> SignedReplay \<Rightarrow> ReplayDisk \<Rightarrow> fmt_arg option \<times> SignedReplay \<times> ReplayDisk" where
  "replay_load io s d =
     (if sr_loaded s then (sr_err s, s, d)
      else
        let s0 = s\<lparr>sr_loaded := True, sr_seen := []\<rparr> in
        (case ri_read io of
           Some err \<Rightarrow>
             let e = FErr ''reading this node's record of signed jobs: %w'' [err] in (Some e, s0\<lparr>sr_err := Some e\<rparr>, d)
         | None \<Rightarrow>
             (case rd_text d of
                None \<Rightarrow> (None, s0, d)
              | Some text \<Rightarrow>
                  let complete = (has_suffix text [newline] \<or> text = []);
                      lines = str_split (trim_suffix text [newline]) [newline] in
                  (case replay_lines (sr_path s) lines complete 0 [] (sr_lines s) of
                     (Some e, seen, n) \<Rightarrow> (Some e, s0\<lparr>sr_seen := seen, sr_lines := n, sr_err := Some e\<rparr>, d)
                   | (None, seen, n) \<Rightarrow>
                       let s1 = replay_prune (ri_load_now io) (s0\<lparr>sr_seen := seen, sr_lines := n\<rparr>) in
                       if sr_lines s1 > int (length (sr_seen s1)) \<or> \<not> complete then
                         (case replay_rewrite (ri_load_mkdir io) (ri_load_write io) s1 d of
                            (Some e, s2, d2) \<Rightarrow> (Some e, s2\<lparr>sr_err := Some e\<rparr>, d2)
                          | (None, s2, d2) \<Rightarrow> (None, s2, d2))
                       else (None, s1, d)))))"

text \<open>One line more. Opening creates the file; a write that fails leaves the bytes it wrote.\<close>

definition replay_write :: "ReplayIO \<Rightarrow> string \<Rightarrow> SignedReplay \<Rightarrow> ReplayDisk \<Rightarrow> fmt_arg option \<times> SignedReplay \<times> ReplayDisk" where
  "replay_write io line s d =
     (case ri_mkdir io of
        Some err \<Rightarrow> (Some err, s, d)
      | None \<Rightarrow>
      (case ri_open io of
         Some err \<Rightarrow> (Some err, s, d)
       | None \<Rightarrow>
           let text = (case rd_text d of None \<Rightarrow> [] | Some t \<Rightarrow> t) in
           (case ri_write io of
              Some (k, err) \<Rightarrow> (Some err, s, d\<lparr>rd_text := Some (text @ take k line)\<rparr>)
            | None \<Rightarrow>
                let d1 = d\<lparr>rd_text := Some (text @ line)\<rparr> in
                (case ri_sync io of
                   Some err \<Rightarrow> (Some err, s, d1)
                 | None \<Rightarrow>
                     let d2 = d1\<lparr>rd_synced := length (text @ line)\<rparr> in
                     (case ri_close io of
                        Some err \<Rightarrow> (Some err, s, d2)
                      | None \<Rightarrow> (None, s\<lparr>sr_lines := sr_lines s + 1\<rparr>, d2))))))"

definition replay_append :: "ReplayIO \<Rightarrow> string \<Rightarrow> int \<Rightarrow> SignedReplay \<Rightarrow> ReplayDisk \<Rightarrow> fmt_arg option \<times> SignedReplay \<times> ReplayDisk" where
  "replay_append io jid expires s d =
     (let limit = (if sr_compactAt s > 0 then sr_compactAt s else signedReplayCompactAt) in
      if sr_lines s - int (length (sr_seen s)) > limit then
        (case replay_rewrite (ri_compact_mkdir io) (ri_compact_write io) s d of
           (Some err, s1, d1) \<Rightarrow> (Some err, s1, d1)
         | (None, s1, d1) \<Rightarrow> replay_write io (formatSignedReplayLine jid expires) s1 d1)
      else replay_write io (formatSignedReplayLine jid expires) s d)"

definition SignedReplay_Admit :: "ReplayIO \<Rightarrow> HJob option \<Rightarrow> SignedReplay \<Rightarrow> ReplayDisk \<Rightarrow> fmt_arg option \<times> SignedReplay \<times> ReplayDisk" where
  "SignedReplay_Admit io job s d =
     (case job of
        None \<Rightarrow> (Some (refusal ''malformed'' ''the job carries no identifier'' []), s, d)
      | Some j \<Rightarrow>
          if jo_JID j = [] then (Some (refusal ''malformed'' ''the job carries no identifier'' []), s, d)
          else
            (case replay_load io s d of
               (Some err, s1, d1) \<Rightarrow> (Some err, s1, d1)
             | (None, s1, d1) \<Rightarrow>
                 if gomap_get (sr_seen s1) (jo_JID j) \<noteq> None then
                   (Some (refusal ''replayed'' ''this node has already accepted the signed job %s'' [FStr (jo_JID j)]), s1, d1)
                 else
                   (case replay_append io (jo_JID j) (jo_Expires j) s1 d1 of
                      (Some err, s2, d2) \<Rightarrow>
                        (Some (FErr (''recording the signed job %s so that it cannot be replayed: %w; '' @
                           ''refused, because a signed job this node cannot remember is one it could run twice'')
                           [FStr (jo_JID j), err]), s2, d2)
                    | (None, s2, d2) \<Rightarrow>
                        (None, replay_prune (ri_now io) (s2\<lparr>sr_seen := gomap_put (jo_JID j) (jo_Expires j) (sr_seen s2)\<rparr>), d2))))"

definition SignedReplay_Seen :: "ReplayIO \<Rightarrow> string \<Rightarrow> SignedReplay \<Rightarrow> ReplayDisk \<Rightarrow> bool \<times> SignedReplay \<times> ReplayDisk" where
  "SignedReplay_Seen io jid s d =
     (case replay_load io s d of
        (Some err, s1, d1) \<Rightarrow> (False, s1, d1)
      | (None, s1, d1) \<Rightarrow> (gomap_get (sr_seen s1) jid \<noteq> None, s1, d1))"

definition SignedReplay_Len :: "SignedReplay \<Rightarrow> nat" where
  "SignedReplay_Len s = length (sr_seen s)"

end
