(* ===== verification/Replaying.thy ===== *)
theory Replaying
  imports Replay
begin

text \<open>
  What the record of signed jobs is for: once a signed job has been accepted its identifier is refused, across restarts,
  crashes, failed and partial writes and rewrites, for as long as the clock has not passed the job's expiry by a day.
\<close>

subsection \<open>Timestamps and identifiers have no spaces\<close>

lemma digit_not_space: "is_digit c \<Longrightarrow> c \<noteq> CHR '' ''" "is_digit c \<Longrightarrow> c \<noteq> newline"
  by (auto simp: is_digit_def newline_def)

lemma getnum_space: "getnum b s = Some (n, r) \<Longrightarrow> CHR '' '' \<notin> set r \<Longrightarrow> CHR '' '' \<notin> set s"
  by (auto simp: getnum_def split: list.splits if_splits dest: digit_not_space)

lemma long_year_space:
  assumes "long_year s = Some (n, r)" "CHR '' '' \<notin> set r"
  shows "CHR '' '' \<notin> set s"
proof -
  have "list_all is_digit (take 4 s)" "r = drop 4 s" using assms(1) by (auto simp: long_year_def split: if_splits)
  then have "CHR '' '' \<notin> set (take 4 s @ drop 4 s)" using assms(2) digit_not_space(1) unfolding set_append list_all_iff by blast
  then show ?thesis by simp
qed

lemma literal_space: "literal c s = Some r \<Longrightarrow> c \<noteq> CHR '' '' \<Longrightarrow> CHR '' '' \<notin> set r \<Longrightarrow> CHR '' '' \<notin> set s"
  by (auto simp: literal_def split: list.splits if_splits)

lemma frac_second_space:
  assumes "frac_second s = (n, r)" "CHR '' '' \<notin> set r"
  shows "CHR '' '' \<notin> set s"
proof (rule ccontr)
  assume "\<not> CHR '' '' \<notin> set s"
  with assms obtain p x where s: "s = p # x" "p \<in> set ''.,''" "r = dropWhile is_digit x"
    by (auto simp: frac_second_def Let_def split: list.splits if_splits)
  then have "CHR '' '' \<in> set (takeWhile is_digit x @ dropWhile is_digit x)" using \<open>\<not> CHR '' '' \<notin> set s\<close> by auto
  then have "CHR '' '' \<in> set (takeWhile is_digit x)" using assms(2) s(3) by (simp del: takeWhile_dropWhile_id)
  then show False using digit_not_space(1) by (auto dest: set_takeWhileD)
qed

lemma six: "6 \<le> length s \<Longrightarrow> \<exists>a b c d e f q. s = a # b # c # d # e # f # q"
  by (auto simp: numeral_eq_Suc Suc_le_length_iff)

lemma zone_offset_space:
  assumes "zone_offset s = Some (n, r)" "CHR '' '' \<notin> set r"
  shows "CHR '' '' \<notin> set s"
proof (cases "s \<noteq> [] \<and> hd s = CHR ''Z''")
  case True
  then show ?thesis using assms by (auto simp: zone_offset_def neq_Nil_conv)
next
  case False
  then have "6 \<le> length s" using assms(1) by (auto simp: zone_offset_def split: list.splits if_splits)
  then obtain a b c d e f q where s: "s = a # b # c # d # e # f # q" using six by blast
  have two: "is_digit x \<and> is_digit y" if "getnum True [x, y] = Some k" for x y k
    using that by (auto simp: getnum_def split: if_splits)
  from assms(1) False have "is_digit b \<and> is_digit c" "d = CHR '':''" "is_digit e \<and> is_digit f" "a \<in> set ''+-''" "r = q"
    by (auto simp: zone_offset_def s bind_eq_Some_conv split: if_splits dest!: two)
  then show ?thesis using assms(2) by (auto simp: s dest: digit_not_space)
qed

lemma parse_rfc3339_space:
  assumes "parse_rfc3339 s = Some t"
  shows "CHR '' '' \<notin> set s"
proof -
  obtain y a m b d c h e mi f se g s1 s2 s3 s4 s5 where p: "long_year s = Some (y, a)" "literal CHR ''-'' a = Some s1" "getnum True s1 = Some (m, b)"
    "literal CHR ''-'' b = Some s2" "getnum True s2 = Some (d, c)" "literal CHR ''T'' c = Some s3" "getnum False s3 = Some (h, e)"
    "literal CHR '':'' e = Some s4" "getnum True s4 = Some (mi, f)" "literal CHR '':'' f = Some s5" "getnum True s5 = Some (se, g)"
    and off: "\<exists>off. zone_offset (snd (frac_second g)) = Some (off, [])"
    using assms unfolding parse_rfc3339_def by (auto simp: bind_eq_Some_conv case_prod_beta' Let_def split: if_splits)
  have "CHR '' '' \<notin> set (snd (frac_second g))" using off zone_offset_space by force
  then have "CHR '' '' \<notin> set g" using frac_second_space [of g] by (metis prod.collapse)
  then have "CHR '' '' \<notin> set a" using p(2-11) by - (rule literal_space, assumption, simp, rule getnum_space, assumption)+
  then show ?thesis by (rule long_year_space [OF p(1)])
qed

lemma ID_Valid_char:
  assumes "ID_Valid jid" "c \<in> set jid"
  shows "is_digit c \<or> c = CHR ''T''"
proof -
  have v: "length jid = 21" "jid ! 8 = CHR ''T''" "list_all is_digit (take 8 jid)" "list_all is_digit (drop 9 jid)"
    using assms(1) by (auto simp: ID_Valid_def)
  have "jid = take 8 jid @ jid ! 8 # drop 9 jid" using id_take_nth_drop [of 8 jid] v(1) by simp
  then have "set jid = set (take 8 jid) \<union> {jid ! 8} \<union> set (drop 9 jid)"
    by (metis Un_insert_right list.simps(15) set_append sup_bot.right_neutral Un_insert_left)
  with assms(2) v(2-4) show ?thesis by (auto simp: list_all_iff)
qed

lemma ID_Valid_clean: "ID_Valid jid \<Longrightarrow> CHR '' '' \<notin> set jid" "ID_Valid jid \<Longrightarrow> newline \<notin> set jid" "ID_Valid jid \<Longrightarrow> length jid = 21"
  using ID_Valid_char [of jid "CHR '' ''"] ID_Valid_char [of jid newline] by (auto simp: newline_def is_digit_def ID_Valid_def)

lemma newline_neq [simp]: "newline \<noteq> CHR ''.''" "newline \<noteq> CHR ''-''" "newline \<noteq> CHR '':''" "newline \<noteq> CHR ''T''" "newline \<noteq> CHR ''Z''"
  "newline \<noteq> CHR '' ''" "newline \<notin> set ''never''"
  by (simp_all add: newline_def)

lemma format_clean: "newline \<notin> set (format_rfc3339nano t)" "CHR '' '' \<notin> set (format_rfc3339nano t)"
proof -
  have d: "newline \<notin> set (pad k n)" "CHR '' '' \<notin> set (pad k n)" for k n
    using pad_digits [of k n] digit_not_space by (auto simp: list_all_iff)
  have f: "newline \<notin> set (frac_text n)" "CHR '' '' \<notin> set (frac_text n)" for n
    using d by (auto simp: frac_text_def dest!: set_dropWhileD)
  show "newline \<notin> set (format_rfc3339nano t)" "CHR '' '' \<notin> set (format_rfc3339nano t)"
    by (auto simp: format_rfc3339nano_def Let_def d f split: prod.splits)
qed

subsection \<open>Lines of the record\<close>

definition line_body :: "string \<Rightarrow> int \<Rightarrow> string" where
  "line_body jid expires = jid @ '' '' @ (if expires \<noteq> 0 then format_rfc3339nano expires else ''never'')"

lemma line_is_body: "formatSignedReplayLine jid expires = line_body jid expires @ [newline]"
  by (simp add: formatSignedReplayLine_def line_body_def)

lemma line_body_clean: "ID_Valid jid \<Longrightarrow> newline \<notin> set (line_body jid e)"
  using ID_Valid_clean(2) [of jid] format_clean(1) [of e] by (simp add: line_body_def) (simp add: newline_def)

lemma index_byte_at: "c \<notin> set a \<Longrightarrow> index_byte (a @ c # b) c = Some (length a)"
  by (induction a) (auto simp: index_byte_def)

lemma index_byte_cut: "index_byte s c = Some i \<Longrightarrow> s = take i s @ c # drop (Suc i) s \<and> c \<notin> set (take i s)"
  using find_index_Some [of "\<lambda>x. x = c" s i] id_take_nth_drop [of i s] by (auto simp: index_byte_def in_set_conv_nth)

text \<open>A line that parses starts with its identifier and one space, and has no other.\<close>

lemma parse_line_shape:
  assumes "parseSignedReplayLine line = Inr (jid, e)"
  shows "ID_Valid jid" "\<exists>at. line = jid @ '' '' @ at \<and> CHR '' '' \<notin> set at"
proof -
  obtain i where i: "index_byte line CHR '' '' = Some i" "jid = take i line" "ID_Valid jid"
    and at: "drop (Suc i) line = ''never'' \<or> parse_rfc3339 (drop (Suc i) line) = Some e"
    using assms by (auto simp: parseSignedReplayLine_def Let_def split: option.splits if_splits)
  show "ID_Valid jid" by fact
  have "CHR '' '' \<notin> set (drop (Suc i) line)" using at parse_rfc3339_space by auto
  then show "\<exists>at. line = jid @ '' '' @ at \<and> CHR '' '' \<notin> set at" using index_byte_cut [OF i(1)] i(2) by auto
qed

lemma parse_line_own:
  assumes "ID_Valid jid" "e = 0 \<or> 0 < e \<and> e < year_10000"
  shows "parseSignedReplayLine (line_body jid e) = Inr (jid, e)"
proof -
  have i: "index_byte (jid @ CHR '' '' # at) CHR '' '' = Some (length jid)" for at
    by (rule index_byte_at) (rule ID_Valid_clean(1) [OF assms(1)])
  have never: "format_rfc3339nano e = ''never'' \<Longrightarrow> 0 < e \<Longrightarrow> e < year_10000 \<Longrightarrow> False"
    using parse_format [of e] by (auto simp: parse_rfc3339_def long_year_def is_digit_def)
  show ?thesis using assms never parse_format [of e]
    by (auto simp: line_body_def parseSignedReplayLine_def i Let_def)
qed

subsection \<open>Bytes that appends leave at the end\<close>

text \<open>What one append, whole or cut short, writes.\<close>

definition line_piece :: "(string \<Rightarrow> bool) \<Rightarrow> string \<Rightarrow> bool" where
  "line_piece ok p \<longleftrightarrow> (\<exists>jid e k. ID_Valid jid \<and> ok jid \<and> p = take k (formatSignedReplayLine jid e))"

definition leads :: "string \<Rightarrow> string \<Rightarrow> bool" where
  "leads s jid \<longleftrightarrow> take 22 s = jid @ '' ''"

lemma space_late:
  assumes "list_all (line_piece ok) ps" "i < length (concat ps)" "concat ps ! i = CHR '' ''"
  shows "21 \<le> i"
  using assms
proof (induction ps arbitrary: i)
  case (Cons p ps)
  then obtain jid e k where p: "ID_Valid jid" "p = take k (formatSignedReplayLine jid e)" by (auto simp: line_piece_def)
  show ?case
  proof (cases "i < length p")
    case True
    then have "formatSignedReplayLine jid e ! i = CHR '' ''" using Cons.prems(3) p(2) by (simp add: nth_append)
    then have at: "jid ! i = CHR '' ''" if "i < 21" using that ID_Valid_clean(3) [OF p(1)] by (simp add: nth_append formatSignedReplayLine_def)
    show ?thesis
    proof (rule ccontr)
      assume "\<not> 21 \<le> i"
      with at have "jid ! i = CHR '' ''" "i < length jid" using ID_Valid_clean(3) [OF p(1)] by (auto simp: nth_append)
      then show False using ID_Valid_clean(1) [OF p(1)] nth_mem by metis
    qed
  next
    case False
    then have "i - length p < length (concat ps)" "concat ps ! (i - length p) = CHR '' ''"
      using Cons.prems(2,3) by (auto simp: nth_append)
    then show ?thesis using Cons.IH [of "i - length p"] Cons.prems(1) by simp
  qed
qed simp

text \<open>Bytes of other jobs' appends never start with the identifier of this one.\<close>

lemma pieces_do_not_lead:
  assumes "ID_Valid jid" "list_all (line_piece (\<lambda>k. k \<noteq> jid)) ps"
  shows "\<not> leads (concat ps) jid"
  using assms(2)
proof (induction ps)
  case Nil
  then show ?case by (simp add: leads_def)
next
  case (Cons p ps)
  obtain jid2 e k where p: "ID_Valid jid2" "jid2 \<noteq> jid" "p = take k (formatSignedReplayLine jid2 e)"
    using Cons.prems by (auto simp: line_piece_def)
  note len = ID_Valid_clean(3) [OF assms(1)] ID_Valid_clean(3) [OF p(1)]
  show ?case
  proof
    assume lead: "leads (concat (p # ps)) jid"
    show False
    proof (cases "p = []")
      case True
      with lead Cons show False by simp
    next
      case False
      show False
      proof (cases "22 \<le> length p")
        case True
        then have "22 \<le> k" unfolding p(3) by simp
        then have "take 22 p = take 22 (formatSignedReplayLine jid2 e)" unfolding p(3) by (simp add: min_absorb1)
        also have "\<dots> = jid2 @ '' ''" using len by (simp add: formatSignedReplayLine_def)
        finally have "take 22 p = jid2 @ '' ''" .
        with lead True p(2) show False by (simp add: leads_def)
      next
        case short: False
        have long: "22 \<le> length (p @ concat ps)" "(p @ concat ps) ! 21 = CHR '' ''"
        proof -
          have t: "take 22 (p @ concat ps) = jid @ '' ''" using lead by (simp add: leads_def)
          then have "length (take 22 (p @ concat ps)) = 22" using len by simp
          then show "22 \<le> length (p @ concat ps)" by simp
          have "(p @ concat ps) ! 21 = (jid @ '' '') ! 21" unfolding t [symmetric] by (rule nth_take [symmetric]) simp
          then show "(p @ concat ps) ! 21 = CHR '' ''" using len by (simp add: nth_append)
        qed
        then have "concat ps ! (21 - length p) = CHR '' ''" "21 - length p < length (concat ps)"
          using short by (auto simp: nth_append)
        from space_late [OF _ this(2,1)] Cons.prems have "21 \<le> 21 - length p" by auto
        with False show False by (cases p) auto
      qed
    qed
  qed
qed

text \<open>So whatever follows, the bytes \<open>w\<close> at the end of the file do not become a line of this job.\<close>

definition unled :: "string \<Rightarrow> string \<Rightarrow> bool" where
  "unled jid w \<longleftrightarrow> (\<forall>ps. list_all (line_piece (\<lambda>k. k \<noteq> jid)) ps \<longrightarrow> \<not> leads (w @ concat ps) jid)"

lemma unled_Nil: "ID_Valid jid \<Longrightarrow> unled jid []"
  by (simp add: unled_def pieces_do_not_lead)

lemma unled_append: "unled jid w \<Longrightarrow> line_piece (\<lambda>k. k \<noteq> jid) p \<Longrightarrow> unled jid (w @ p)"
  unfolding unled_def by (metis append_assoc concat.simps(2) list.pred_inject(2))

lemma unled_parse:
  assumes "unled jid w" "parseSignedReplayLine w = Inr (jid2, e)"
  shows "jid2 \<noteq> jid"
proof
  assume "jid2 = jid"
  then obtain at where w: "w = jid @ '' '' @ at" "ID_Valid jid" using parse_line_shape [OF assms(2)] by blast
  then have "leads (w @ concat []) jid" by (simp add: leads_def ID_Valid_clean(3))
  with assms(1) show False unfolding unled_def by (metis list.pred_inject(1))
qed

text \<open>A line glued to bytes left by a failed append does not parse.\<close>

lemma glued_line_fails:
  assumes "ID_Valid jid" "w \<noteq> []"
  shows "\<exists>err. parseSignedReplayLine (w @ line_body jid e) = Inl err"
proof (rule ccontr)
  assume "\<not> ?thesis"
  then obtain jid2 e2 where ok: "parseSignedReplayLine (w @ line_body jid e) = Inr (jid2, e2)"
    by (cases "parseSignedReplayLine (w @ line_body jid e)") auto
  obtain at where shape: "w @ line_body jid e = jid2 @ '' '' @ at" "CHR '' '' \<notin> set at" "ID_Valid jid2"
    using parse_line_shape [OF ok] by blast
  define r where "r = (if e \<noteq> 0 then format_rfc3339nano e else ''never'')"
  have eq: "(w @ jid) @ CHR '' '' # r = jid2 @ CHR '' '' # at" using shape(1) by (simp add: line_body_def r_def)
  have "CHR '' '' \<notin> set r" using format_clean(2) by (simp add: r_def)
  then have "w @ jid = jid2" using eq shape(2) ID_Valid_clean(1) [OF shape(3)]
    by (metis append_Cons_eq_iff)
  then show False using ID_Valid_clean(3) [OF assms(1)] ID_Valid_clean(3) [OF shape(3)] assms(2) by auto
qed

subsection \<open>Reading the file\<close>

text \<open>The complete lines, read strictly.\<close>

fun read_lines :: "string list \<Rightarrow> (string \<times> int) list \<Rightarrow> (string \<times> int) list option" where
  "read_lines [] seen = Some seen"
| "read_lines (line # rest) seen =
     (if line = [] then read_lines rest seen
      else (case parseSignedReplayLine line of Inl err \<Rightarrow> None | Inr (jid, e) \<Rightarrow> read_lines rest (gomap_put jid e seen)))"

definition read_tail :: "string \<Rightarrow> (string \<times> int) list \<Rightarrow> (string \<times> int) list" where
  "read_tail w seen = (case parseSignedReplayLine w of Inl err \<Rightarrow> seen | Inr (jid, e) \<Rightarrow> gomap_put jid e seen)"

lemma read_lines_append: "read_lines (ls @ ms) seen = Option.bind (read_lines ls seen) (read_lines ms)"
  by (induction ls arbitrary: seen) (auto split: sum.splits)

lemma parse_empty: "\<exists>err. parseSignedReplayLine [] = Inl err"
  by (simp add: parseSignedReplayLine_def index_byte_def)

lemma replay_lines_complete:
  "case read_lines ls seen of
     None \<Rightarrow> fst (replay_lines path ls True i seen n) \<noteq> None
   | Some y \<Rightarrow> fst (replay_lines path ls True i seen n) = None \<and> fst (snd (replay_lines path ls True i seen n)) = y"
proof (induction ls arbitrary: i seen n)
  case (Cons line ls)
  show ?case
  proof (cases "line = []")
    case True
    then show ?thesis using Cons [of "Suc i" seen n] by (simp split: option.splits)
  next
    case False
    show ?thesis
    proof (cases "parseSignedReplayLine line")
      case (Inr x)
      obtain a b where "x = (a, b)" by (cases x)
      with False Inr show ?thesis using Cons [of "Suc i" "gomap_put a b seen" "n + 1"] by (simp split: option.splits)
    qed (use False in simp)
  qed
qed simp

lemma replay_lines_torn:
  "case read_lines ls seen of
     None \<Rightarrow> fst (replay_lines path (ls @ [w]) False i seen n) \<noteq> None
   | Some y \<Rightarrow> fst (replay_lines path (ls @ [w]) False i seen n) = None \<and>
       fst (snd (replay_lines path (ls @ [w]) False i seen n)) = read_tail w y"
proof (induction ls arbitrary: i seen n)
  case Nil
  then show ?case using parse_empty by (auto simp: read_tail_def split: sum.splits)
next
  case (Cons line ls)
  show ?case
  proof (cases "line = []")
    case True
    then show ?thesis using Cons [of "Suc i" seen n] by (simp split: option.splits)
  next
    case False
    show ?thesis
    proof (cases "parseSignedReplayLine line")
      case (Inr x)
      obtain a b where "x = (a, b)" by (cases x)
      with False Inr show ?thesis using Cons [of "Suc i" "gomap_put a b seen" "n + 1"] by (simp split: option.splits)
    qed (use False in simp)
  qed
qed

lemma split_lines:
  obtains ls w where "str_split text [newline] = ls @ [w]" "newline \<notin> set w"
proof -
  have "str_split text [newline] = butlast (str_split text [newline]) @ [last (str_split text [newline])]" by simp
  moreover have "newline \<notin> set (last (str_split text [newline]))" by (rule split_no_sep [OF last_in_set]) simp
  ultimately show ?thesis using that by blast
qed

lemma split_no_newline: "newline \<notin> set s \<Longrightarrow> str_split s [newline] = [s]"
  by (simp add: str_split_def split_aux_clean)

lemma split_complete: "str_split (t @ [newline]) [newline] = str_split t [newline] @ [[]]"
  using split_append_sep [of t newline "[]"] by (simp add: split_no_newline)

lemma load_lines:
  assumes "str_split text [newline] = ls @ [w]"
    and "complete = (has_suffix text [newline] \<or> text = [])"
    and "replay_lines (path :: string) (str_split (trim_suffix text [newline]) [newline]) complete 0 [] n = (err, seen, n1)"
  shows "(err = None) = (read_lines ls [] \<noteq> None)" "err = None \<Longrightarrow> map_option (read_tail w) (read_lines ls []) = Some seen"
proof -
  consider (nl) t where "text = t @ [newline]" | (empty) "text = []" | (torn) "text \<noteq> []" "\<not> has_suffix text [newline]"
    by (auto simp: has_suffix_iff)
  then have "(err = None) = (read_lines ls [] \<noteq> None) \<and> (err = None \<longrightarrow> map_option (read_tail w) (read_lines ls []) = Some seen)"
  proof cases
    case nl
    then have "complete" "trim_suffix text [newline] = t" "ls = str_split t [newline]" "w = []"
      using assms(1,2) by (auto simp: has_suffix_iff trim_suffix_def split_complete)
    then show ?thesis using assms(3) replay_lines_complete [where ls = "str_split t [newline]" and seen = "[]" and i = 0 and n = n and path = path] parse_empty
      by (auto simp: read_tail_def split: option.splits)
  next
    case empty
    then have "complete" "trim_suffix text [newline] = []" "ls = []" "w = []"
      using assms(1,2) by (auto simp: has_suffix_iff trim_suffix_def split_no_newline)
    then show ?thesis using assms(3) parse_empty by (auto simp: read_tail_def split_no_newline)
  next
    case torn
    then have "\<not> complete" "trim_suffix text [newline] = text" using assms(2) by (auto simp: trim_suffix_def)
    then show ?thesis using assms(1,3) replay_lines_torn [where ls = ls and w = w and seen = "[]" and i = 0 and n = n and path = path]
      by (auto split: option.splits)
  qed
  then show "(err = None) = (read_lines ls [] \<noteq> None)" "err = None \<Longrightarrow> map_option (read_tail w) (read_lines ls []) = Some seen" by auto
qed

subsection \<open>The file keeps a job\<close>

definition file_keeps :: "string \<Rightarrow> int \<Rightarrow> string \<Rightarrow> bool" where
  "file_keeps jid e text \<longleftrightarrow>
     (\<exists>ls w. str_split text [newline] = ls @ [w] \<and> unled jid w \<and>
        (case read_lines ls [] of None \<Rightarrow> True | Some seen \<Rightarrow> gomap_get seen jid = Some e))"

lemma read_lines_other:
  "(\<And>line k e. line \<in> set ls \<Longrightarrow> parseSignedReplayLine line = Inr (k, e) \<Longrightarrow> k \<noteq> jid) \<Longrightarrow>
     read_lines ls seen = Some seen1 \<Longrightarrow> gomap_get seen1 jid = gomap_get seen jid"
proof (induction ls arbitrary: seen)
  case (Cons line ls)
  have rest: "k \<noteq> jid" if "l \<in> set ls" "parseSignedReplayLine l = Inr (k, e)" for l k e
    using Cons.prems(1) [of l k e] that by simp
  show ?case
  proof (cases "line = []")
    case True
    then show ?thesis using Cons.IH [OF rest] Cons.prems(2) by simp
  next
    case False
    then obtain k e where k: "parseSignedReplayLine line = Inr (k, e)" "read_lines ls (gomap_put k e seen) = Some seen1"
      using Cons.prems(2) by (auto split: sum.splits)
    then show ?thesis using Cons.IH [OF rest k(2)] Cons.prems(1) [of line k e] by simp
  qed
qed simp

lemma split_append_line:
  assumes "str_split t [newline] = ls @ [w]" "newline \<notin> set b"
  shows "str_split (t @ b) [newline] = ls @ [w @ b]" "str_split (t @ b @ [newline]) [newline] = ls @ [w @ b, []]"
proof -
  show one: "str_split (t @ b) [newline] = ls @ [w @ b]"
  proof (cases "newline \<in> set t")
    case False
    then show ?thesis using assms by (simp add: split_no_newline)
  next
    case True
    then obtain p q where t: "t = p @ newline # q" "newline \<notin> set q" using split_list_last by metis
    then have "str_split p [newline] @ [q] = ls @ [w]" using assms(1) by (simp add: split_append_sep split_no_newline)
    then show ?thesis using t assms(2) by (simp add: split_append_sep split_no_newline)
  qed
  show "str_split (t @ b @ [newline]) [newline] = ls @ [w @ b, []]"
    using split_complete [of "t @ b"] one by simp
qed

text \<open>An append for another job, whole or cut short, leaves the job kept.\<close>

lemma piece_cases:
  assumes "line_piece ok p"
  obtains (part) "newline \<notin> set p" | (whole) jid e where "ID_Valid jid" "ok jid" "p = line_body jid e @ [newline]"
proof -
  obtain jid e k where p: "ID_Valid jid" "ok jid" "p = take k (line_body jid e @ [newline])"
    using assms by (auto simp: line_piece_def line_is_body)
  show ?thesis
  proof (cases "k \<le> length (line_body jid e)")
    case True
    then have "newline \<notin> set p" using p(3) line_body_clean [OF p(1), of e] by (auto dest: in_set_takeD)
    then show ?thesis by (rule part)
  next
    case False
    with p show ?thesis by (intro whole) auto
  qed
qed

lemma piece_body: "ID_Valid jid \<Longrightarrow> ok jid \<Longrightarrow> line_piece ok (line_body jid e)"
  unfolding line_piece_def line_is_body by (intro exI [of _ jid] exI [of _ e] exI [of _ "length (line_body jid e)"]) simp

lemma piece_take: "line_piece ok p \<Longrightarrow> line_piece ok (take k p)"
  unfolding line_piece_def by (metis take_take)

lemma keeps_append_other:
  assumes "ID_Valid jid" "file_keeps jid e t" "line_piece (\<lambda>k. k \<noteq> jid) p"
  shows "file_keeps jid e (t @ p)"
proof -
  obtain ls w where k: "str_split t [newline] = ls @ [w]" "unled jid w"
    "case read_lines ls [] of None \<Rightarrow> True | Some seen \<Rightarrow> gomap_get seen jid = Some e"
    using assms(2) by (auto simp: file_keeps_def)
  from assms(3) show ?thesis
  proof (cases rule: piece_cases)
    case part
    then show ?thesis unfolding file_keeps_def
      using split_append_line(1) [OF k(1)] unled_append [OF k(2) assms(3)] k(3) by blast
  next
    case (whole jid2 e2)
    let ?line = "w @ line_body jid2 e2"
    have clean: "newline \<notin> set (line_body jid2 e2)" using line_body_clean whole(1) by blast
    have other: "unled jid ?line" using unled_append [OF k(2) piece_body] whole(1,2) by blast
    have "gomap_get seen1 jid = Some e" if "read_lines (ls @ [?line]) [] = Some seen1" for seen1
    proof -
      from that obtain seen where s: "read_lines ls [] = Some seen" "read_lines [?line] seen = Some seen1"
        by (auto simp: read_lines_append bind_eq_Some_conv simp del: read_lines.simps(2))
      have "gomap_get seen1 jid = gomap_get seen jid"
        by (rule read_lines_other [OF _ s(2)]) (use unled_parse [OF other] in auto)
      then show ?thesis using k(3) s(1) by simp
    qed
    then show ?thesis unfolding file_keeps_def whole(3) using split_append_line(2) [OF k(1) clean] unled_Nil [OF assms(1)]
      by (intro exI [of _ "ls @ [?line]"] exI [of _ "[]"]) (auto split: option.splits)
  qed
qed

text \<open>The job's own line, at the end of the file or glued to bytes a failed append left.\<close>

lemma keeps_append_own:
  assumes "ID_Valid jid" "e = 0 \<or> 0 < e \<and> e < year_10000"
  shows "file_keeps jid e (t @ line_body jid e @ [newline])"
proof -
  obtain ls w where s: "str_split t [newline] = ls @ [w]" by (rule split_lines)
  note split = split_append_line(2) [OF s line_body_clean [OF assms(1)], of e]
  have "gomap_get seen1 jid = Some e" if "read_lines (ls @ [w @ line_body jid e]) [] = Some seen1" for seen1
  proof (cases "w = []")
    case True
    with that parse_line_own [OF assms] show ?thesis
      by (auto simp: read_lines_append bind_eq_Some_conv line_body_def)
  next
    case False
    with that glued_line_fails [OF assms(1) False, of e] show ?thesis by (auto simp: read_lines_append bind_eq_Some_conv)
  qed
  then show ?thesis unfolding file_keeps_def using split unled_Nil [OF assms(1)]
    by (intro exI [of _ "ls @ [w @ line_body jid e]"] exI [of _ "[]"]) (auto split: option.splits)
qed

definition replay_text :: "(string \<times> int) list \<Rightarrow> string" where
  "replay_text seen = concat (map (\<lambda>(jid, e). formatSignedReplayLine jid e) seen)"

lemma keeps_append_others:
  "ID_Valid jid \<Longrightarrow> file_keeps jid e t \<Longrightarrow> list_all (\<lambda>(k, _). ID_Valid k \<and> k \<noteq> jid) seen \<Longrightarrow> file_keeps jid e (t @ replay_text seen)"
proof (induction seen arbitrary: t)
  case Nil
  then show ?case by (simp add: replay_text_def)
next
  case (Cons x seen)
  obtain k a where x: "x = (k, a)" by (cases x)
  have "line_piece (\<lambda>k. k \<noteq> jid) (formatSignedReplayLine k a)" unfolding line_piece_def
    using Cons.prems(3) x by (intro exI [of _ k] exI [of _ a] exI [of _ "length (formatSignedReplayLine k a)"]) simp
  from Cons.IH [OF Cons.prems(1) keeps_append_other [OF Cons.prems(1,2) this]] Cons.prems(3) show ?case
    by (simp add: replay_text_def x)
qed

lemma keeps_rewrite:
  assumes "ID_Valid jid" "e = 0 \<or> 0 < e \<and> e < year_10000" "distinct (map fst seen)" "list_all (\<lambda>(k, _). ID_Valid k) seen"
    "gomap_get seen jid = Some e"
  shows "file_keeps jid e (replay_text seen)"
proof -
  have "(jid, e) \<in> set seen" using assms(5) by (rule map_of_SomeD)
  from split_list [OF this] obtain a b where ab: "seen = a @ (jid, e) # b" by blast
  have "jid \<notin> fst ` set b" "list_all (\<lambda>(k, _). ID_Valid k) b" using assms(3,4) by (simp_all add: ab)
  then have "list_all (\<lambda>(k, _). ID_Valid k \<and> k \<noteq> jid) b" by (induction b) auto
  then have "file_keeps jid e ((replay_text a @ line_body jid e @ [newline]) @ replay_text b)"
    by (rule keeps_append_others [OF assms(1) keeps_append_own [OF assms(1,2)]])
  then show ?thesis by (simp add: ab replay_text_def line_is_body)
qed

subsection \<open>The invariants of the record\<close>

definition replay_wf :: "SignedReplay \<Rightarrow> bool" where
  "replay_wf s \<longleftrightarrow> distinct (map fst (sr_seen s)) \<and> list_all (\<lambda>(k, _). ID_Valid k) (sr_seen s) \<and> (\<not> sr_loaded s \<longrightarrow> sr_err s = None)"

definition file_protects :: "string \<Rightarrow> int \<Rightarrow> ReplayDisk \<Rightarrow> bool" where
  "file_protects jid e d \<longleftrightarrow> (\<exists>t. rd_text d = Some t \<and> (\<forall>n \<ge> rd_synced d. file_keeps jid e (take n t)))"

definition protects :: "string \<Rightarrow> int \<Rightarrow> SignedReplay \<Rightarrow> ReplayDisk \<Rightarrow> bool" where
  "protects jid e s d \<longleftrightarrow> (sr_loaded s \<longrightarrow> sr_err s = None \<longrightarrow> gomap_get (sr_seen s) jid = Some e) \<and> file_protects jid e d"

text \<open>A job that may be kept: its identifier is valid, its expiry is written with four digits of year, and the clock has
  not passed it by the retention.\<close>

definition keepable :: "string \<Rightarrow> int \<Rightarrow> bool" where
  "keepable jid e \<longleftrightarrow> ID_Valid jid \<and> (e = 0 \<or> 0 < e \<and> e < year_10000)"

definition in_time :: "int \<Rightarrow> int \<Rightarrow> bool" where
  "in_time e now \<longleftrightarrow> e = 0 \<or> now \<le> e + SignedReplayRetention"

lemma valid_keys: "list_all (\<lambda>(k, _). ID_Valid k) m \<longleftrightarrow> (\<forall>k \<in> fst ` set m. ID_Valid k)"
  by (auto simp: list_all_iff)

lemma wf_put: "distinct (map fst m) \<Longrightarrow> list_all (\<lambda>(k, _). ID_Valid k) m \<Longrightarrow> ID_Valid k \<Longrightarrow>
    distinct (map fst (gomap_put k v m)) \<and> list_all (\<lambda>(k, _). ID_Valid k) (gomap_put k v m)"
  by (simp add: valid_keys distinct_gomap_put keys_gomap_put)

lemma replay_lines_wf:
  "distinct (map fst m) \<Longrightarrow> list_all (\<lambda>(k, _). ID_Valid k) m \<Longrightarrow> replay_lines path ls c i m n = (r, seen, n1) \<Longrightarrow>
     distinct (map fst seen) \<and> list_all (\<lambda>(k, _). ID_Valid k) seen"
proof (induction ls arbitrary: i m n)
  case (Cons l ls)
  show ?case
  proof (cases "parseSignedReplayLine l")
    case (Inl err)
    then show ?thesis using Cons by (auto split: if_splits)
  next
    case (Inr x)
    obtain k e where x: "x = (k, e)" by (cases x)
    with Inr have "ID_Valid k" using parse_line_shape(1) by blast
    with Inr x show ?thesis using Cons.IH Cons.prems wf_put [of m k e] by (auto split: if_splits)
  qed
qed simp

lemma prune_wf: "replay_wf s \<Longrightarrow> replay_wf (replay_prune now s)"
  by (auto simp: replay_wf_def replay_prune_def list_all_iff distinct_map_filter)

lemma prune_get:
  assumes "distinct (map fst (sr_seen s))" "gomap_get (sr_seen s) jid = Some e" "in_time e now"
  shows "gomap_get (sr_seen (replay_prune now s)) jid = Some e"
proof -
  have "(jid, e) \<in> set (sr_seen (replay_prune now s))"
    using map_of_SomeD [OF assms(2)] assms(3) by (auto simp: replay_prune_def in_time_def)
  moreover have "distinct (map fst (sr_seen (replay_prune now s)))" using assms(1) by (simp add: replay_prune_def distinct_map_filter)
  ultimately show ?thesis by simp
qed

lemma prune_same [simp]: "sr_loaded (replay_prune now s) = sr_loaded s" "sr_err (replay_prune now s) = sr_err s"
  by (simp_all add: replay_prune_def)

lemma rewrite_wf: "replay_wf s \<Longrightarrow> replay_rewrite m w s d = (r, s1, d1) \<Longrightarrow> replay_wf s1"
  by (auto simp: replay_rewrite_def replay_wf_def Let_def split: option.splits)

lemma rewrite_protects:
  assumes "replay_rewrite m w s d = (r, s1, d1)" "replay_wf s" "keepable jid e" "gomap_get (sr_seen s) jid = Some e" "file_protects jid e d"
  shows "file_protects jid e d1" "sr_seen s1 = sr_seen s" "sr_loaded s1 = sr_loaded s" "sr_err s1 = sr_err s"
proof -
  have "file_keeps jid e (replay_text (sr_seen s))"
    using keeps_rewrite assms(2,3,4) by (auto simp: replay_wf_def keepable_def)
  then show "file_protects jid e d1" using assms(1,5)
    by (auto simp: replay_rewrite_def file_protects_def Let_def replay_text_def split: option.splits)
  show "sr_seen s1 = sr_seen s" "sr_loaded s1 = sr_loaded s" "sr_err s1 = sr_err s"
    using assms(1) by (auto simp: replay_rewrite_def Let_def split: option.splits)
qed


lemma protects_text:
  assumes "file_protects jid e d"
  obtains t where "rd_text d = Some t" "file_keeps jid e t"
proof -
  from assms obtain t where t: "rd_text d = Some t" "\<forall>n \<ge> rd_synced d. file_keeps jid e (take n t)" by (auto simp: file_protects_def)
  from t(2) [rule_format, of "max (rd_synced d) (length t)"] have "file_keeps jid e t" by simp
  with t(1) show ?thesis by (rule that)
qed

lemma keeps_read:
  assumes "file_keeps jid e t"
    and "replay_lines (path :: string) (str_split (trim_suffix t [newline]) [newline]) (has_suffix t [newline] \<or> t = []) 0 [] n = (None, seen, n1)"
  shows "gomap_get seen jid = Some e"
proof -
  from assms(1) obtain ls w where k: "str_split t [newline] = ls @ [w]" "unled jid w"
    "case read_lines ls [] of None \<Rightarrow> True | Some seen \<Rightarrow> gomap_get seen jid = Some e" by (auto simp: file_keeps_def)
  from load_lines [OF k(1) refl assms(2)] obtain seen0 where s: "read_lines ls [] = Some seen0" "seen = read_tail w seen0" by auto
  have "gomap_get (read_tail w seen0) jid = gomap_get seen0 jid"
    using unled_parse [OF k(2)] by (auto simp: read_tail_def split: sum.splits)
  with k(3) s show ?thesis by simp
qed

text \<open>What loading does, outcome by outcome.\<close>

lemma load_cases:
  assumes "replay_load io s d = (r, s1, d1)"
  obtains (loaded) "sr_loaded s" "r = sr_err s" "s1 = s" "d1 = d"
  | (unread) err where "\<not> sr_loaded s" "r = Some err" "s1 = s\<lparr>sr_loaded := True, sr_seen := [], sr_err := Some err\<rparr>" "d1 = d"
  | (fresh) "\<not> sr_loaded s" "rd_text d = None" "r = None" "s1 = s\<lparr>sr_loaded := True, sr_seen := []\<rparr>" "d1 = d"
  | (lines) t r0 seen n where "\<not> sr_loaded s" "rd_text d = Some t"
      "replay_lines (sr_path s) (str_split (trim_suffix t [newline]) [newline]) (has_suffix t [newline] \<or> t = []) 0 [] (sr_lines s) = (r0, seen, n)"
      "r0 \<noteq> None \<and> r = r0 \<and> s1 = s\<lparr>sr_loaded := True, sr_seen := seen, sr_lines := n, sr_err := r0\<rparr> \<and> d1 = d \<or>
       r0 = None \<and> r = None \<and> s1 = replay_prune (ri_load_now io) (s\<lparr>sr_loaded := True, sr_seen := seen, sr_lines := n\<rparr>) \<and> d1 = d \<or>
       r0 = None \<and> (\<exists>s2. replay_rewrite (ri_load_mkdir io) (ri_load_write io)
           (replay_prune (ri_load_now io) (s\<lparr>sr_loaded := True, sr_seen := seen, sr_lines := n\<rparr>)) d = (r, s2, d1) \<and>
         s1 = (if r = None then s2 else s2\<lparr>sr_err := r\<rparr>))"
proof (cases "sr_loaded s")
  case True
  with assms show ?thesis by (intro loaded) (auto simp: replay_load_def)
next
  case False
  show ?thesis
  proof (cases "ri_read io")
    case (Some err)
    with False assms show ?thesis by (intro unread) (auto simp: replay_load_def Let_def)
  next
    case None
    show ?thesis
    proof (cases "rd_text d")
      case no: None
      with None False assms show ?thesis by (intro fresh) (auto simp: replay_load_def Let_def)
    next
      case (Some t)
      obtain r0 seen n where l: "replay_lines (sr_path s) (str_split (trim_suffix t [newline]) [newline])
          (has_suffix t [newline] \<or> t = []) 0 [] (sr_lines s) = (r0, seen, n)" by (metis prod_cases3)
      show ?thesis
        by (rule lines [OF False Some l]) (use assms False None Some l in
          \<open>auto simp: replay_load_def Let_def split: option.splits if_splits prod.splits\<close>)
    qed
  qed
qed

lemma rewrite_same:
  assumes "replay_rewrite m w s d = (r, s1, d1)"
  shows "sr_seen s1 = sr_seen s" "sr_loaded s1 = sr_loaded s" "sr_err s1 = sr_err s"
  using assms by (auto simp: replay_rewrite_def Let_def split: option.splits)

lemma load_wf:
  assumes "replay_load io s d = (r, s1, d1)" "replay_wf s"
  shows "replay_wf s1 \<and> sr_loaded s1 \<and> r = sr_err s1"
  using assms(1)
proof (cases rule: load_cases)
  case (lines t r0 seen n)
  have seen: "distinct (map fst seen)" "list_all (\<lambda>(k, _). ID_Valid k) seen" using replay_lines_wf [OF _ _ lines(3)] by auto
  let ?s = "s\<lparr>sr_loaded := True, sr_seen := seen, sr_lines := n\<rparr>"
  have wf: "replay_wf ?s" "sr_err s = None" using seen assms(2) lines(1) by (simp_all add: replay_wf_def)
  note pr = prune_wf [OF wf(1), of "ri_load_now io"]
  from lines(4) show ?thesis
  proof (elim disjE conjE exE)
    fix s2
    assume rw: "replay_rewrite (ri_load_mkdir io) (ri_load_write io) (replay_prune (ri_load_now io) ?s) d = (r, s2, d1)"
      and s1: "s1 = (if r = None then s2 else s2\<lparr>sr_err := r\<rparr>)"
    show ?thesis using s1 rewrite_wf [OF pr rw] rewrite_same [OF rw] wf(2) by (auto simp: replay_wf_def)
  qed (use wf pr in \<open>auto simp: replay_wf_def\<close>)
qed (use assms(2) in \<open>auto simp: replay_wf_def\<close>)

lemma load_protects:
  assumes "replay_load io s d = (r, s1, d1)" "replay_wf s" "keepable jid e" "protects jid e s d" "in_time e (ri_load_now io)"
  shows "protects jid e s1 d1"
  using assms(1)
proof (cases rule: load_cases)
  case (lines t r0 seen n)
  have fp: "file_protects jid e d" using assms(4) by (simp add: protects_def)
  then have keeps: "file_keeps jid e t" using lines(2) by (auto elim!: protects_text)
  have seen: "distinct (map fst seen)" "list_all (\<lambda>(k, _). ID_Valid k) seen" using replay_lines_wf [OF _ _ lines(3)] by auto
  let ?s = "s\<lparr>sr_loaded := True, sr_seen := seen, sr_lines := n\<rparr>"
  have wf: "replay_wf (replay_prune (ri_load_now io) ?s)" using seen assms(2) lines(1) by (intro prune_wf) (simp add: replay_wf_def)
  have get: "gomap_get (sr_seen (replay_prune (ri_load_now io) ?s)) jid = Some e" if "r0 = None"
    using keeps_read [OF keeps] lines(3) that seen(1) assms(5) by (intro prune_get) auto
  from lines(4) show ?thesis
  proof (elim disjE conjE exE)
    fix s2
    assume r0: "r0 = None" and s1: "s1 = (if r = None then s2 else s2\<lparr>sr_err := r\<rparr>)"
      and rw: "replay_rewrite (ri_load_mkdir io) (ri_load_write io) (replay_prune (ri_load_now io) ?s) d = (r, s2, d1)"
    show ?thesis using rewrite_protects [OF rw wf assms(3) get [OF r0] fp] get [OF r0] s1 by (auto simp: protects_def)
  qed (use fp get in \<open>auto simp: protects_def\<close>)
qed (use assms(4) in \<open>auto simp: protects_def file_protects_def\<close>)

text \<open>Appending.\<close>

lemma write_same:
  assumes "replay_write io line s d = (r, s1, d1)"
  shows "sr_seen s1 = sr_seen s" "sr_loaded s1 = sr_loaded s" "sr_err s1 = sr_err s"
  using assms by (auto simp: replay_write_def Let_def split: option.splits prod.splits)

lemma write_disk:
  assumes "replay_write io line s d = (r, s1, d1)"
  shows "d1 = d \<or> (\<exists>k. rd_text d1 = Some ((case rd_text d of None \<Rightarrow> [] | Some t \<Rightarrow> t) @ take k line) \<and>
      (rd_synced d1 = rd_synced d \<or> rd_synced d1 = length (the (rd_text d1))))"
    and "r = None \<Longrightarrow> rd_text d1 = Some ((case rd_text d of None \<Rightarrow> [] | Some t \<Rightarrow> t) @ line) \<and> rd_synced d1 = length (the (rd_text d1))"
  using assms by (auto simp: replay_write_def Let_def split: option.splits prod.splits intro: exI [of _ "length line"])

lemma append_file_protects:
  assumes "keepable jid e" "file_protects jid e d" "line_piece (\<lambda>k. k \<noteq> jid) p" "rd_text d = Some t"
    and "rd_text d1 = Some (t @ p)" "rd_synced d1 = rd_synced d \<or> rd_synced d1 = length (t @ p)"
  shows "file_protects jid e d1"
proof -
  have jid: "ID_Valid jid" using assms(1) by (simp add: keepable_def)
  have all: "file_keeps jid e (take n t)" if "rd_synced d \<le> n" for n
    using assms(2,4) that by (auto simp: file_protects_def)
  have t: "file_keeps jid e t" using assms(2,4) by (auto elim!: protects_text)
  have "file_keeps jid e (take n (t @ p))" if "rd_synced d1 \<le> n" for n
  proof (cases "length t \<le> n")
    case True
    then have "take n (t @ p) = t @ take (n - length t) p" by simp
    then show ?thesis using keeps_append_other [OF jid t piece_take [OF assms(3)]] by simp
  next
    case False
    with that assms(6) have "rd_synced d \<le> n" by auto
    from all [OF this] False show ?thesis by simp
  qed
  then show ?thesis using assms(5) by (auto simp: file_protects_def)
qed

lemma write_protects:
  assumes "replay_write io (formatSignedReplayLine k a) s d = (r, s1, d1)" "keepable jid e" "file_protects jid e d"
    and "ID_Valid k" "k \<noteq> jid"
  shows "file_protects jid e d1"
proof -
  from assms(3) obtain t where t: "rd_text d = Some t" by (auto simp: file_protects_def)
  from write_disk(1) [OF assms(1)] consider "d1 = d"
    | n where "rd_text d1 = Some (t @ take n (formatSignedReplayLine k a))"
        "rd_synced d1 = rd_synced d \<or> rd_synced d1 = length (the (rd_text d1))" using t by auto
  then show ?thesis
  proof cases
    case 1
    then show ?thesis using assms(3) by simp
  next
    case (2 n)
    have piece: "line_piece (\<lambda>k. k \<noteq> jid) (take n (formatSignedReplayLine k a))" using assms(4,5) by (auto simp: line_piece_def)
    show ?thesis by (rule append_file_protects [OF assms(2,3) piece t 2(1)]) (use 2 in simp)
  qed
qed

lemma append_same:
  assumes "replay_append io k a s d = (r, s1, d1)"
  shows "sr_seen s1 = sr_seen s" "sr_loaded s1 = sr_loaded s" "sr_err s1 = sr_err s"
  using assms by (auto simp: replay_append_def Let_def rewrite_same write_same split: if_splits prod.splits option.splits
      dest: rewrite_same write_same)

lemma append_protects:
  assumes "replay_append io k a s d = (r, s1, d1)" "keepable jid e" "replay_wf s" "gomap_get (sr_seen s) jid = Some e"
    and "file_protects jid e d" "ID_Valid k" "k \<noteq> jid"
  shows "file_protects jid e d1"
proof -
  obtain r0 s0 d0 where rw: "replay_rewrite (ri_compact_mkdir io) (ri_compact_write io) s d = (r0, s0, d0)" by (metis prod_cases3)
  from assms(1) rw consider "d1 = d0" | "replay_write io (formatSignedReplayLine k a) s0 d0 = (r, s1, d1)"
    | "replay_write io (formatSignedReplayLine k a) s d = (r, s1, d1)"
    by (auto simp: replay_append_def Let_def split: if_splits option.splits)
  then show ?thesis
    using rewrite_protects(1) [OF rw assms(3,2,4,5)] write_protects [OF _ assms(2) _ assms(6,7)] assms(5) by cases auto
qed

lemma append_own:
  assumes "replay_append io jid e s d = (None, s1, d1)" "keepable jid e"
  shows "file_protects jid e d1"
proof -
  obtain s0 d0 where "replay_write io (formatSignedReplayLine jid e) s0 d0 = (None, s1, d1)"
    using assms(1) by (auto simp: replay_append_def Let_def split: if_splits option.splits prod.splits)
  from write_disk(2) [OF this] obtain t where t: "rd_text d1 = Some (t @ line_body jid e @ [newline])"
    "rd_synced d1 = length (t @ line_body jid e @ [newline])" by (auto simp: line_is_body)
  have "file_keeps jid e (t @ line_body jid e @ [newline])" using keeps_append_own assms(2) by (auto simp: keepable_def)
  with t show ?thesis by (auto simp: file_protects_def)
qed

text \<open>Admitting, outcome by outcome.\<close>

lemma admit_cases:
  assumes "SignedReplay_Admit io (Some j) s d = (r, s1, d1)" "jo_JID j \<noteq> []"
  obtains (failed) err where "replay_load io s d = (Some err, s1, d1)" "r \<noteq> None"
  | (known) "replay_load io s d = (None, s1, d1)" "gomap_get (sr_seen s1) (jo_JID j) \<noteq> None" "r \<noteq> None"
  | (unrecorded) s0 d0 err where "replay_load io s d = (None, s0, d0)" "gomap_get (sr_seen s0) (jo_JID j) = None"
      "replay_append io (jo_JID j) (jo_Expires j) s0 d0 = (Some err, s1, d1)" "r \<noteq> None"
  | (accepted) s0 d0 s2 where "replay_load io s d = (None, s0, d0)" "gomap_get (sr_seen s0) (jo_JID j) = None"
      "replay_append io (jo_JID j) (jo_Expires j) s0 d0 = (None, s2, d1)" "r = None"
      "s1 = replay_prune (ri_now io) (s2\<lparr>sr_seen := gomap_put (jo_JID j) (jo_Expires j) (sr_seen s2)\<rparr>)"
proof -
  obtain r0 s0 d0 where l: "replay_load io s d = (r0, s0, d0)" by (metis prod_cases3)
  obtain r2 s2 d2 where a: "replay_append io (jo_JID j) (jo_Expires j) s0 d0 = (r2, s2, d2)" by (metis prod_cases3)
  note result = assms(1) [unfolded SignedReplay_Admit_def, simplified, simplified assms(2), simplified]
  show ?thesis
  proof (cases r0)
    case (Some err)
    with result l show ?thesis by (intro failed) auto
  next
    case ok: None
    show ?thesis
    proof (cases "gomap_get (sr_seen s0) (jo_JID j)")
      case (Some x)
      with result l ok show ?thesis by (intro known) auto
    next
      case new: None
      show ?thesis
      proof (cases r2)
        case (Some err)
        with result l a ok new show ?thesis by (intro unrecorded) auto
      next
        case None
        with result l a ok new show ?thesis by (intro accepted) auto
      qed
    qed
  qed
qed

lemma append_wf:
  assumes "replay_append io k a s d = (r, s1, d1)" "replay_wf s"
  shows "replay_wf s1"
  using append_same [OF assms(1)] assms(2) by (simp add: replay_wf_def)

lemma admit_wf:
  assumes "SignedReplay_Admit io (Some j) s d = (r, s1, d1)" "ID_Valid (jo_JID j)" "replay_wf s"
  shows "replay_wf s1"
proof -
  have ne: "jo_JID j \<noteq> []" using assms(2) by (auto simp: ID_Valid_def)
  from assms(1) ne show ?thesis
  proof (cases rule: admit_cases)
    case (failed err)
    then show ?thesis using load_wf assms(3) by blast
  next
    case known
    then show ?thesis using load_wf assms(3) by blast
  next
    case (unrecorded s0 d0 err)
    then show ?thesis using load_wf append_wf assms(3) by blast
  next
    case (accepted s0 d0 s2)
    have "replay_wf s2" using accepted(1,3) load_wf append_wf assms(3) by blast
    then have "replay_wf (s2\<lparr>sr_seen := gomap_put (jo_JID j) (jo_Expires j) (sr_seen s2)\<rparr>)"
      using wf_put [of "sr_seen s2"] assms(2) by (simp add: replay_wf_def)
    then show ?thesis unfolding accepted(5) by (rule prune_wf)
  qed
qed

text \<open>A job the record protects is refused, and stays protected whatever else is offered while its time lasts.\<close>

lemma admit_protects:
  assumes "SignedReplay_Admit io (Some j) s d = (r, s1, d1)" "ID_Valid (jo_JID j)" "replay_wf s" "keepable jid e" "protects jid e s d"
    and "in_time e (ri_load_now io)" "in_time e (ri_now io)"
  shows "protects jid e s1 d1" "jo_JID j = jid \<Longrightarrow> r \<noteq> None"
proof -
  have ne: "jo_JID j \<noteq> []" using assms(2) by (auto simp: ID_Valid_def)
  have load: "protects jid e s0 d0 \<and> replay_wf s0 \<and> sr_loaded s0 \<and> sr_err s0 = r0" if "replay_load io s d = (r0, s0, d0)" for r0 s0 d0
    using load_protects [OF that assms(3-6)] load_wf [OF that assms(3)] by auto
  have "protects jid e s1 d1 \<and> (jo_JID j = jid \<longrightarrow> r \<noteq> None)"
    using assms(1) ne
  proof (cases rule: admit_cases)
    case (failed err)
    then show ?thesis using load by auto
  next
    case known
    then show ?thesis using load by auto
  next
    case (unrecorded s0 d0 err)
    have l: "file_protects jid e d0" "replay_wf s0" "gomap_get (sr_seen s0) jid = Some e"
      using load [OF unrecorded(1)] by (auto simp: protects_def)
    then have "jo_JID j \<noteq> jid" using unrecorded(2) by auto
    from append_protects [OF unrecorded(3) assms(4) l(2,3,1) assms(2) this] append_same [OF unrecorded(3)] l(3) unrecorded(4)
    show ?thesis by (auto simp: protects_def)
  next
    case (accepted s0 d0 s2)
    have l: "file_protects jid e d0" "replay_wf s0" "gomap_get (sr_seen s0) jid = Some e"
      using load [OF accepted(1)] by (auto simp: protects_def)
    then have other: "jo_JID j \<noteq> jid" using accepted(2) by auto
    have fp: "file_protects jid e d1" by (rule append_protects [OF accepted(3) assms(4) l(2,3,1) assms(2) other])
    let ?s = "s2\<lparr>sr_seen := gomap_put (jo_JID j) (jo_Expires j) (sr_seen s2)\<rparr>"
    have "gomap_get (sr_seen ?s) jid = Some e" using l(3) other append_same(1) [OF accepted(3)] by (simp add: gomap_get_put)
    moreover have "distinct (map fst (sr_seen ?s))" using append_wf [OF accepted(3) l(2)] by (simp add: replay_wf_def distinct_gomap_put)
    ultimately show ?thesis using prune_get [of ?s jid e "ri_now io"] assms(7) fp other accepted(5) by (simp add: protects_def)
  qed
  then show "protects jid e s1 d1" "jo_JID j = jid \<Longrightarrow> r \<noteq> None" by auto
qed

text \<open>Acceptance puts a job under protection.\<close>

lemma admit_establishes:
  assumes "SignedReplay_Admit io (Some j) s d = (None, s1, d1)" "keepable (jo_JID j) (jo_Expires j)" "replay_wf s"
    and "in_time (jo_Expires j) (ri_now io)"
  shows "protects (jo_JID j) (jo_Expires j) s1 d1"
proof -
  have ne: "jo_JID j \<noteq> []" using assms(2) by (auto simp: ID_Valid_def keepable_def)
  from assms(1) ne show ?thesis
  proof (cases rule: admit_cases)
    case (accepted s0 d0 s2)
    let ?s = "s2\<lparr>sr_seen := gomap_put (jo_JID j) (jo_Expires j) (sr_seen s2)\<rparr>"
    have "replay_wf s2" using accepted(1,3) load_wf append_wf assms(3) by blast
    then have "distinct (map fst (sr_seen ?s))" by (simp add: replay_wf_def distinct_gomap_put)
    then have "gomap_get (sr_seen s1) (jo_JID j) = Some (jo_Expires j)"
      unfolding accepted(5) by (rule prune_get) (simp_all add: gomap_get_put assms(4))
    then show ?thesis using append_own [OF accepted(3) assms(2)] by (simp add: protects_def)
  qed auto
qed

lemma seen_protects:
  assumes "SignedReplay_Seen io k s d = (b, s1, d1)" "replay_wf s" "keepable jid e" "protects jid e s d" "in_time e (ri_load_now io)"
  shows "protects jid e s1 d1"
proof -
  obtain r0 where "replay_load io s d = (r0, s1, d1)" using assms(1) by (auto simp: SignedReplay_Seen_def split: prod.splits option.splits)
  from load_protects [OF this assms(2-5)] show ?thesis .
qed

lemma seen_wf:
  assumes "SignedReplay_Seen io k s d = (b, s1, d1)" "replay_wf s"
  shows "replay_wf s1"
proof -
  obtain r0 where "replay_load io s d = (r0, s1, d1)" using assms(1) by (auto simp: SignedReplay_Seen_def split: prod.splits option.splits)
  from load_wf [OF this assms(2)] show ?thesis by simp
qed

text \<open>A restart empties the memory; a loss of power also cuts the file, but not below what was synced.\<close>

definition lose_power :: "nat \<Rightarrow> ReplayDisk \<Rightarrow> ReplayDisk" where
  "lose_power n d = d\<lparr>rd_text := map_option (take (max n (rd_synced d))) (rd_text d)\<rparr>"

lemma fresh_wf: "replay_wf (NewSignedReplay path)"
  by (simp add: replay_wf_def NewSignedReplay_def)

lemma restart_protects: "protects jid e s d \<Longrightarrow> protects jid e (NewSignedReplay path) d"
  by (simp add: protects_def NewSignedReplay_def)

lemma power_protects: "protects jid e s d \<Longrightarrow> protects jid e (NewSignedReplay path) (lose_power n d)"
  by (auto simp: protects_def NewSignedReplay_def file_protects_def lose_power_def min_def)

end
