(* ===== verification/Executor.thy ===== *)
theory Executor
  imports Replay Policy
begin

text \<open>
  What a node does with a job it is offered (\<open>cmd/halite-node/execute.go\<close>, \<open>cmd/halite-node/jobsignature.go\<close>): the replay
  checks, the signature it requires for the function, the expiry and the target the signature covers, the record on disk,
  the dry-run flag and the bounded queue. The node's configuration is the record \<open>node_cfg\<close>; what the clock, the disk and
  the pillar answer while one job is offered is the record \<open>offer_io\<close>. Metrics and the evidence log are left out: they
  decide nothing.
\<close>

subsection \<open>Which jobs need a signature\<close>

record signatureRequirement =
  sq_all :: bool
  sq_classes :: "string list"

definition classArbitraryCode :: string where "classArbitraryCode = ''arbitrary_code''"

definition classState :: string where "classState = ''state''"

definition classMutating :: string where "classMutating = ''mutating''"

record node_cfg =
  nc_ID :: string
  nc_Target :: target_env
  nc_Sign :: sign_env
  nc_Keys :: "SignerKey list"
  nc_Required :: signatureRequirement
  nc_Exec :: "string \<Rightarrow> Signature option"       \<comment> \<open>the registry of execution functions\<close>
  nc_MaxTTL :: "int option"                     \<comment> \<open>\<open>job_signature_max_ttl\<close>, in nanoseconds\<close>
  nc_Depth :: int                               \<comment> \<open>\<open>job_queue_depth\<close>\<close>
  nc_Path :: string                             \<comment> \<open>\<open>signedReplayPath\<close>\<close>
  nc_Sprintf :: "string \<Rightarrow> wire \<Rightarrow> string"      \<comment> \<open>a value under one verb\<close>

definition requirement_any :: "signatureRequirement \<Rightarrow> bool" where
  "requirement_any r \<longleftrightarrow> sq_all r \<or> length (sq_classes r) > 0"

definition applyingStateFunction :: "string \<Rightarrow> bool" where
  "applyingStateFunction fn \<longleftrightarrow> fn \<in> set [''apply'', ''highstate'', ''sls'']"

definition signature_required :: "node_cfg \<Rightarrow> string \<Rightarrow> bool \<times> string" where
  "signature_required n fn =
     (let r = nc_Required n in
      if sq_all r then (True, ''every job'')
      else if length (sq_classes r) = 0 then (False, [])
      else case JobFunction fn of
        Some f \<Rightarrow>
          if classState \<in> set (sq_classes r) \<and> applyingStateFunction f then (True, classState)
          else if classMutating \<in> set (sq_classes r) \<and> applyingStateFunction f then (True, classMutating)
          else (False, [])
      | None \<Rightarrow>
          (case nc_Exec n fn of
             None \<Rightarrow> (True, ''a function this build does not ship'')
           | Some sig \<Rightarrow>
               if classArbitraryCode \<in> set (sq_classes r) \<and> sig_ArbitraryCode sig then (True, classArbitraryCode)
               else if classMutating \<in> set (sq_classes r) \<and> sig_Mutates sig then (True, classMutating)
               else (False, [])))"

subsection \<open>What a signature authorises\<close>

definition nano_hour :: int where "nano_hour = 3600000000000"

definition DefaultSignatureMaxTTL :: int where "DefaultSignatureMaxTTL = nano_hour"

definition signatureExpirySkew :: int where "signatureExpirySkew = 60000000000"

text \<open>\<open>time.Time.Sub\<close>, which stops at the ends of a \<open>Duration\<close>.\<close>

definition time_sub :: "int \<Rightarrow> int \<Rightarrow> int" where
  "time_sub t u = max (- (2 ^ 63)) (min (2 ^ 63 - 1) (t - u))"

definition boundedSignedExpiry :: "node_cfg \<Rightarrow> HJob \<Rightarrow> int \<Rightarrow> fmt_arg option" where
  "boundedSignedExpiry n j now =
     (let set_limit = (case nc_MaxTTL n of None \<Rightarrow> DefaultSignatureMaxTTL | Some d \<Rightarrow> d);
          limit = (if set_limit \<le> 0 then DefaultSignatureMaxTTL else set_limit);
          ahead = time_sub (jo_Expires j) now in
      if ahead > wrap64 (limit + signatureExpirySkew) then
        Some (FErr (''this job's signature verifies and authorises it until %s, %s from now, and this node '' @
          ''accepts a signed job for at most %s (`job_signature_max_ttl`); sign it with a '' @
          ''shorter --ttl, or raise the setting on the nodes that should accept it'') [FInt (jo_Expires j), FInt ahead, FInt limit])
      else None)"

text \<open>Whether matching asks for the pillar: a pillar leaf is evaluated, and \<open>and\<close> and \<open>or\<close> stop at the first member that
  decides them.\<close>

fun leaf_reads_pillar :: "leaf \<Rightarrow> bool" where
  "leaf_reads_pillar (LKey pillar cands) \<longleftrightarrow> pillar \<and> cands \<noteq> []"
| "leaf_reads_pillar (LKeyRegex pillar cands) \<longleftrightarrow> pillar \<and> list_ex (\<lambda>(k, re). re \<noteq> None) cands"
| "leaf_reads_pillar _ \<longleftrightarrow> False"

fun node_reads_pillar :: "target_env \<Rightarrow> tnode \<Rightarrow> Node \<Rightarrow> bool"
  and nodes_read_pillar :: "target_env \<Rightarrow> bool \<Rightarrow> tnode list \<Rightarrow> Node \<Rightarrow> bool" where
  "node_reads_pillar v (Leaf l) n = leaf_reads_pillar l"
| "node_reads_pillar v (AnyNode xs) n = nodes_read_pillar v True xs n"
| "node_reads_pillar v (AllNode xs) n = nodes_read_pillar v False xs n"
| "node_reads_pillar v (NotNode x) n = node_reads_pillar v x n"
| "nodes_read_pillar v stop [] n = False"
| "nodes_read_pillar v stop (x # xs) n =
     (node_reads_pillar v x n \<or> (node_match v x n \<noteq> stop \<and> nodes_read_pillar v stop xs n))"

text \<open>What the loader returns: the pillar, or nothing when it did not compile.\<close>

definition signedTargetPillar :: "fmt_arg + vmap option \<Rightarrow> vmap option" where
  "signedTargetPillar p = (case p of Inl err \<Rightarrow> None | Inr m \<Rightarrow> m)"

definition matchesSignedTarget :: "node_cfg \<Rightarrow> vmap option \<Rightarrow> fmt_arg + vmap option \<Rightarrow> HJob \<Rightarrow> fmt_arg option" where
  "matchesSignedTarget n grains pillar j =
     (if jo_Target j = [] then
        Some (FErr (''this job's signature verifies and the job carries no target, so this node '' @
          ''cannot tell whether it was meant for it; the hub that sent it is older than '' @ ''signed targeting'') [])
      else case KindFromFlag (jo_TargetKind j) of
        None \<Rightarrow> Some (FErr ''the signed target kind %q is not one this node knows'' [FStr (jo_TargetKind j)])
      | Some kind \<Rightarrow>
          (case target_Compile (nc_Target n) kind (jo_Target j) [] of
             None \<Rightarrow> Some (FErr [] [])
           | Some (Inl err) \<Rightarrow>
               Some (FErr (''this node cannot check that a signed job targeted at %q (%s) was meant for it: %w; '' @
                 ''sign jobs with a target a node can evaluate about itself'') [FStr (jo_Target j), FStr (jo_TargetKind j), terror_Error err])
           | Some (Inr matcher) \<Rightarrow>
               let nd = \<lparr>nd_ID = nc_ID n, nd_Grains = grains, nd_Pillar = None, nd_LoadPillar = Some (signedTargetPillar pillar)\<rparr> in
               (case (node_reads_pillar (nc_Target n) (mt_ast matcher) nd, pillar) of
                  (True, Inl err) \<Rightarrow>
                    Some (FErr (''this node cannot check that a signed job targeted at %q (%s) was meant for it: '' @
                      ''the target reads pillar and this node's pillar did not compile: %w'') [FStr (jo_Target j), FStr (jo_TargetKind j), err])
                | _ \<Rightarrow>
                    if \<not> Matcher_Match (nc_Target n) matcher nd then
                      Some (FErr ''this job is signed for %q (%s) and this node is %s, which does not match it''
                        [FStr (jo_Target j), FStr (jo_TargetKind j), FStr (nc_ID n)])
                    else None)))"

record offer_io =
  of_Check :: int       \<comment> \<open>the clock of the first replay check\<close>
  of_Seen :: ReplayIO
  of_Sign :: int        \<comment> \<open>the clock of the expiry bound\<close>
  of_Grains :: "vmap option"
  of_Pillar :: "fmt_arg + vmap option"
  of_Admit :: ReplayIO
  of_Guard :: int       \<comment> \<open>the clock of the second replay check\<close>

definition checkJobSignature :: "node_cfg \<Rightarrow> offer_io \<Rightarrow> HJob \<Rightarrow> fmt_arg + string" where
  "checkJobSignature n io j =
     (case signature_required n (jo_Fun j) of
        (required, why) \<Rightarrow>
          if \<not> required then Inr []
          else if length (nc_Keys n) = 0 then
            Inl (FErr (''this node requires a signature for %s (%s) and `job_signer_keys` is empty, '' @
              ''so it can accept nothing'') [FStr (jo_Fun j), FStr why])
          else (case Verify (nc_Sign n) (nc_Keys n) (SigningPayload j) (jo_Signature j) of
              Inl err \<Rightarrow> Inl (FErr ''this node requires a signature for %s (%s): %w'' [FStr (jo_Fun j), FStr why, err])
            | Inr signer \<Rightarrow>
                (case boundedSignedExpiry n j (of_Sign io) of
                   Some err \<Rightarrow> Inl err
                 | None \<Rightarrow>
                     (case matchesSignedTarget n (of_Grains io) (of_Pillar io) j of
                        Some err \<Rightarrow> Inl err
                      | None \<Rightarrow> Inr signer))))"

subsection \<open>The queue\<close>

record executor =
  ex_guard :: Guard
  ex_signed :: SignedReplay
  ex_queue :: "HJob list"
  ex_depth :: int

definition newExecutor :: "node_cfg \<Rightarrow> executor" where
  "newExecutor n =
     \<lparr>ex_guard = NewGuard DefaultGuardSize, ex_signed = NewSignedReplay (nc_Path n), ex_queue = [],
      ex_depth = (if nc_Depth n \<le> 0 then 16 else nc_Depth n)\<rparr>"

definition ErrQueueFull :: fmt_arg where
  "ErrQueueFull = FErr ''this node's job queue is full'' []"

definition jobTestFlag :: "node_cfg \<Rightarrow> HJob \<Rightarrow> fmt_arg + bool" where
  "jobTestFlag n j =
     (case gomap_get (jo_Kwarg j) ''test'' of
        None \<Rightarrow> Inr False
      | Some WNull \<Rightarrow> Inr False
      | Some (WBool test) \<Rightarrow> Inr test
      | Some raw \<Rightarrow>
          Inl (refusal ''malformed'' (''the job's `test` is %T %v, and a dry run is asked for with the boolean true '' @
            ''or false; refused rather than guessed, since guessing wrong runs it for real'')
            [FStr (nc_Sprintf n ''%T'' raw), FStr (nc_Sprintf n ''%v'' raw)]))"

text \<open>The last steps: a place in the memory, the dry-run flag and the queue.\<close>

definition offer_queue :: "node_cfg \<Rightarrow> int \<Rightarrow> HJob \<Rightarrow> executor \<Rightarrow> fmt_arg option \<times> executor" where
  "offer_queue n now j e =
     (case Guard_Admit (Some j) now (ex_guard e) of
        (Some err, g) \<Rightarrow> (Some err, e\<lparr>ex_guard := g\<rparr>)
      | (None, g) \<Rightarrow>
          let e1 = e\<lparr>ex_guard := g\<rparr> in
          (case jobTestFlag n j of
             Inl err \<Rightarrow> (Some err, e1)
           | Inr _ \<Rightarrow>
               if int (length (ex_queue e1)) < ex_depth e1 then (None, e1\<lparr>ex_queue := ex_queue e1 @ [j]\<rparr>)
               else (Some ErrQueueFull, e1)))"

text \<open>The signature, and for a signed job the record on disk.\<close>

definition offer_signed :: "node_cfg \<Rightarrow> offer_io \<Rightarrow> HJob \<Rightarrow> executor \<Rightarrow> ReplayDisk \<Rightarrow> fmt_arg option \<times> executor \<times> ReplayDisk" where
  "offer_signed n io j e d =
     (case checkJobSignature n io j of
        Inl err \<Rightarrow> (Some err, e, d)
      | Inr signer \<Rightarrow>
          if signer \<noteq> [] then
            (case SignedReplay_Admit (of_Admit io) (Some j) (ex_signed e) d of
               (Some err, s, d1) \<Rightarrow> (Some err, e\<lparr>ex_signed := s\<rparr>, d1)
             | (None, s, d1) \<Rightarrow> (case offer_queue n (of_Guard io) j (e\<lparr>ex_signed := s\<rparr>) of (r, e1) \<Rightarrow> (r, e1, d1)))
          else (case offer_queue n (of_Guard io) j e of (r, e1) \<Rightarrow> (r, e1, d)))"

definition Offer :: "node_cfg \<Rightarrow> offer_io \<Rightarrow> HJob option \<Rightarrow> executor \<Rightarrow> ReplayDisk \<Rightarrow> fmt_arg option \<times> executor \<times> ReplayDisk" where
  "Offer n io job e d =
     (case (Guard_Check job (of_Check io) (ex_guard e), job) of
        (None, Some j) \<Rightarrow>
          if jo_Signature j \<noteq> [] then
            (case SignedReplay_Seen (of_Seen io) (jo_JID j) (ex_signed e) d of
               (True, s, d1) \<Rightarrow>
                 (Some (refusal ''replayed'' ''this node has already accepted the signed job %s'' [FStr (jo_JID j)]), e\<lparr>ex_signed := s\<rparr>, d1)
             | (False, s, d1) \<Rightarrow> offer_signed n io j (e\<lparr>ex_signed := s\<rparr>) d1)
          else offer_signed n io j e d
      | (err, _) \<Rightarrow> (err, e, d))"

definition Cancel :: "string \<Rightarrow> executor \<Rightarrow> bool \<times> executor" where
  "Cancel jid e =
     (list_ex (\<lambda>j. jo_JID j = jid) (ex_queue e), e\<lparr>ex_queue := filter (\<lambda>j. jo_JID j \<noteq> jid) (ex_queue e)\<rparr>)"

text \<open>The worker takes the oldest job.\<close>

definition executor_Run :: "executor \<Rightarrow> HJob option \<times> executor" where
  "executor_Run e = (case ex_queue e of [] \<Rightarrow> (None, e) | j # rest \<Rightarrow> (Some j, e\<lparr>ex_queue := rest\<rparr>))"

end
