(* ===== verification/Executing.thy ===== *)
theory Executing
  imports Executor Replaying
begin

text \<open>
  What a node promises about the jobs it runs. Jobs are offered, cancelled and worked on, the node is restarted and loses
  power, in any order; what the clock, the disk and the pillar answer is part of each event. A job for which the node
  requires a signature runs at most once, and only when a trusted key signed exactly that job for this node.
\<close>

subsection \<open>The node over time\<close>

datatype node_event =
    Offered offer_io "HJob option"
  | Worked
  | Cancelled string
  | Restarted
  | Lost_power nat     \<comment> \<open>how much of the file is left, at least what was synced\<close>

record node_system =
  ns_exec :: executor
  ns_disk :: ReplayDisk
  ns_ran :: "HJob list"

fun node_step :: "node_cfg \<Rightarrow> node_event \<Rightarrow> node_system \<Rightarrow> node_system" where
  "node_step n (Offered io job) s =
     (case Offer n io job (ns_exec s) (ns_disk s) of (r, e, d) \<Rightarrow> s\<lparr>ns_exec := e, ns_disk := d\<rparr>)"
| "node_step n Worked s =
     (case executor_Run (ns_exec s) of
        (None, e) \<Rightarrow> s
      | (Some j, e) \<Rightarrow> s\<lparr>ns_exec := e, ns_ran := ns_ran s @ [j]\<rparr>)"
| "node_step n (Cancelled jid) s = s\<lparr>ns_exec := snd (Cancel jid (ns_exec s))\<rparr>"
| "node_step n Restarted s = s\<lparr>ns_exec := newExecutor n\<rparr>"
| "node_step n (Lost_power k) s = s\<lparr>ns_exec := newExecutor n, ns_disk := lose_power k (ns_disk s)\<rparr>"

definition node_start :: "node_cfg \<Rightarrow> ReplayDisk \<Rightarrow> node_system" where
  "node_start n d = \<lparr>ns_exec = newExecutor n, ns_disk = d, ns_ran = []\<rparr>"

definition node_run :: "node_cfg \<Rightarrow> node_event list \<Rightarrow> node_system \<Rightarrow> node_system" where
  "node_run n evs s = fold (node_step n) evs s"

text \<open>The readings of the clock, in the order they are taken, and a clock that is never set back by more than a day.\<close>

fun event_clocks :: "node_event \<Rightarrow> int list" where
  "event_clocks (Offered io job) =
     [of_Check io, ri_load_now (of_Seen io), of_Sign io, ri_load_now (of_Admit io), ri_now (of_Admit io), of_Guard io]"
| "event_clocks _ = []"

definition steady_clock :: "int list \<Rightarrow> bool" where
  "steady_clock readings \<longleftrightarrow> sorted_wrt (\<lambda>a b. a \<le> b + SignedReplayRetention) readings"

definition signed_job :: "node_cfg \<Rightarrow> string \<Rightarrow> int \<Rightarrow> HJob \<Rightarrow> bool" where
  "signed_job n jid x j \<longleftrightarrow> jo_JID j = jid \<and> jo_Expires j = x \<and> fst (signature_required n (jo_Fun j))"

subsection \<open>One offer\<close>

lemma guard_admits:
  assumes "fst (guard_check (Some j) rec now g) = None"
  shows "ID_Valid (jo_JID j)" "\<not> Expired j now"
  using assms by (auto simp: guard_check_def split: if_splits)

lemma offer_queue_outcome:
  assumes "offer_queue n now j e = (r, e1)"
  shows "ex_signed e1 = ex_signed e"
    "ex_queue e1 = ex_queue e \<or> ex_queue e1 = ex_queue e @ [j] \<and> \<not> Expired j now"
  using assms guard_admits(2) [of j True now "ex_guard e"]
  by (auto simp: offer_queue_def Guard_Admit_def Let_def split: prod.splits option.splits sum.splits if_splits)

lemma offer_signed_outcome:
  assumes "offer_signed n io j e d = (r, e1, d1)"
  shows "ex_signed e1 = ex_signed e \<and> d1 = d \<or> (\<exists>r1. SignedReplay_Admit (of_Admit io) (Some j) (ex_signed e) d = (r1, ex_signed e1, d1))"
    "ex_queue e1 = ex_queue e \<or> ex_queue e1 = ex_queue e @ [j] \<and> \<not> Expired j (of_Guard io) \<and>
      (\<exists>signer. checkJobSignature n io j = Inr signer \<and>
         (signer \<noteq> [] \<longrightarrow> SignedReplay_Admit (of_Admit io) (Some j) (ex_signed e) d = (None, ex_signed e1, d1)))"
proof -
  obtain q e2 where q: "offer_queue n (of_Guard io) j e = (q, e2)" by (cases "offer_queue n (of_Guard io) j e")
  obtain r1 s1 d2 where a: "SignedReplay_Admit (of_Admit io) (Some j) (ex_signed e) d = (r1, s1, d2)" by (metis prod_cases3)
  obtain q1 e3 where q1: "offer_queue n (of_Guard io) j (e\<lparr>ex_signed := s1\<rparr>) = (q1, e3)"
    by (cases "offer_queue n (of_Guard io) j (e\<lparr>ex_signed := s1\<rparr>)")
  show "ex_signed e1 = ex_signed e \<and> d1 = d \<or> (\<exists>r1. SignedReplay_Admit (of_Admit io) (Some j) (ex_signed e) d = (r1, ex_signed e1, d1))"
    using assms a q q1 offer_queue_outcome [OF q] offer_queue_outcome [OF q1]
    by (cases r1) (auto simp: offer_signed_def split: sum.splits if_splits)
  show "ex_queue e1 = ex_queue e \<or> ex_queue e1 = ex_queue e @ [j] \<and> \<not> Expired j (of_Guard io) \<and>
      (\<exists>signer. checkJobSignature n io j = Inr signer \<and>
         (signer \<noteq> [] \<longrightarrow> SignedReplay_Admit (of_Admit io) (Some j) (ex_signed e) d = (None, ex_signed e1, d1)))"
    using assms a q q1 offer_queue_outcome [OF q] offer_queue_outcome [OF q1]
    by (cases r1) (auto simp: offer_signed_def split: sum.splits if_splits)
qed

text \<open>An offer leaves the record alone, or loads it and then leaves it or admits the job to it.\<close>

lemma offer_cases:
  assumes "Offer n io job e d = (r, e1, d1)"
  obtains (refused) "e1 = e" "d1 = d"
  | (seen) j s2 where "job = Some j" "ID_Valid (jo_JID j)"
      "SignedReplay_Seen (of_Seen io) (jo_JID j) (ex_signed e) d = (True, s2, d1)" "e1 = e\<lparr>ex_signed := s2\<rparr>"
  | (offered) j s2 d2 b where "job = Some j" "ID_Valid (jo_JID j)" "offer_signed n io j (e\<lparr>ex_signed := s2\<rparr>) d2 = (r, e1, d1)"
      "s2 = ex_signed e \<and> d2 = d \<or> SignedReplay_Seen (of_Seen io) (jo_JID j) (ex_signed e) d = (b, s2, d2)"
proof (cases job)
  case None
  with assms show ?thesis by (intro refused) (auto simp: Offer_def split: option.splits)
next
  case (Some j)
  show ?thesis
  proof (cases "Guard_Check job (of_Check io) (ex_guard e)")
    case (Some err)
    with assms show ?thesis by (intro refused) (auto simp: Offer_def split: option.splits)
  next
    case None
    then have valid: "ID_Valid (jo_JID j)" using guard_admits(1) [of j False] Some by (simp add: Guard_Check_def)
    obtain b s2 d2 where sn: "SignedReplay_Seen (of_Seen io) (jo_JID j) (ex_signed e) d = (b, s2, d2)" by (metis prod_cases3)
    consider "jo_Signature j = []" | "jo_Signature j \<noteq> []" b | "jo_Signature j \<noteq> []" "\<not> b" by blast
    then show ?thesis
    proof cases
      case 1
      then have "offer_signed n io j (e\<lparr>ex_signed := ex_signed e\<rparr>) d = (r, e1, d1)" using assms None Some by (simp add: Offer_def)
      then show ?thesis by (rule offered [OF Some valid]) simp
    next
      case 2
      then show ?thesis using assms None Some sn by (intro seen [OF Some valid]) (auto simp: Offer_def)
    next
      case 3
      then have "offer_signed n io j (e\<lparr>ex_signed := s2\<rparr>) d2 = (r, e1, d1)" using assms None Some sn by (simp add: Offer_def)
      then show ?thesis by (rule offered [OF Some valid]) (use sn in blast)
    qed
  qed
qed

lemma offer_wf:
  assumes "Offer n io job e d = (r, e1, d1)" "replay_wf (ex_signed e)"
  shows "replay_wf (ex_signed e1)"
  using assms(1)
proof (cases rule: offer_cases)
  case (offered j s2 d2 b)
  have "replay_wf s2" using offered(4) assms(2) seen_wf by blast
  then show ?thesis using offer_signed_outcome(1) [OF offered(3)] admit_wf offered(2) by fastforce
qed (use assms(2) seen_wf in auto)

lemma offer_protects:
  assumes "Offer n io job e d = (r, e1, d1)" "replay_wf (ex_signed e)" "keepable jid x" "protects jid x (ex_signed e) d"
    and "list_all (in_time x) (event_clocks (Offered io job))"
  shows "protects jid x (ex_signed e1) d1"
  using assms(1)
proof (cases rule: offer_cases)
  case (seen j s2)
  then show ?thesis using seen_protects assms(2-5) by auto
next
  case (offered j s2 d2 b)
  have s2: "replay_wf s2" "protects jid x s2 d2" using offered(4) assms(2-5) seen_wf seen_protects by auto
  then show ?thesis using offer_signed_outcome(1) [OF offered(3)] admit_protects(1) [OF _ offered(2) s2(1) assms(3) s2(2)] assms(5) by auto
qed (use assms(4) in simp)

text \<open>A verified signature names its key.\<close>

lemma checked_signer:
  assumes "checkJobSignature n io j = Inr signer" "fst (signature_required n (jo_Fun j))" "list_all (\<lambda>k. sk_Name k \<noteq> []) (nc_Keys n)"
  shows "signer \<noteq> []"
proof -
  have "Verify (nc_Sign n) (nc_Keys n) (SigningPayload j) (jo_Signature j) = Inr signer"
    using assms(1,2) by (auto simp: checkJobSignature_def split: prod.splits if_splits sum.splits option.splits)
  then obtain key where "key \<in> set (nc_Keys n)" "signer = sk_Name key"
    by (auto simp: Verify_def find_Some_iff split: if_splits option.splits dest: nth_mem)
  with assms(3) show ?thesis by (auto simp: list_all_iff)
qed

lemma offer_queues:
  assumes "Offer n io job e d = (r, e1, d1)" "ex_queue e1 \<noteq> ex_queue e"
  obtains j s2 d2 b signer where "job = Some j" "ID_Valid (jo_JID j)" "ex_queue e1 = ex_queue e @ [j]" "\<not> Expired j (of_Guard io)"
    "s2 = ex_signed e \<and> d2 = d \<or> SignedReplay_Seen (of_Seen io) (jo_JID j) (ex_signed e) d = (b, s2, d2)"
    "checkJobSignature n io j = Inr signer" "signer \<noteq> [] \<longrightarrow> SignedReplay_Admit (of_Admit io) (Some j) s2 d2 = (None, ex_signed e1, d1)"
  using assms(1)
proof (cases rule: offer_cases)
  case (offered j s2 d2 b)
  from offer_signed_outcome(2) [OF offered(3)] assms(2)
  obtain signer where "ex_queue e1 = ex_queue e @ [j]" "\<not> Expired j (of_Guard io)" "checkJobSignature n io j = Inr signer"
    "signer \<noteq> [] \<longrightarrow> SignedReplay_Admit (of_Admit io) (Some j) s2 d2 = (None, ex_signed e1, d1)" by auto
  with offered that show ?thesis by blast
qed (use assms(2) in auto)

subsection \<open>No signed job runs twice\<close>

text \<open>A reading after which the job could be forgotten. The clock shows it expired from then on.\<close>

definition too_late :: "int \<Rightarrow> int list \<Rightarrow> bool" where
  "too_late x readings \<longleftrightarrow> list_ex (\<lambda>now. \<not> in_time x now) readings"

lemma too_late_expired:
  assumes "steady_clock (readings @ event_clocks (Offered io job))" "too_late x (readings @ event_clocks (Offered io job))"
    and "jo_Expires j = x"
  shows "Expired j (of_Guard io)"
proof -
  from assms(2) obtain p where p: "p \<in> set (readings @ event_clocks (Offered io job))" "\<not> in_time x p"
    by (auto simp: too_late_def list_ex_iff)
  have "p \<le> of_Guard io + SignedReplayRetention"
    using assms(1) p(1) by (auto simp: steady_clock_def sorted_wrt_append SignedReplayRetention_def nano_day_def)
  with p(2) assms(3) show ?thesis by (auto simp: in_time_def Expired_def)
qed

definition run_count :: "(HJob \<Rightarrow> bool) \<Rightarrow> node_system \<Rightarrow> nat" where
  "run_count P s = length (filter P (ns_ran s @ ex_queue (ns_exec s)))"

definition run_inv :: "node_cfg \<Rightarrow> string \<Rightarrow> int \<Rightarrow> int list \<Rightarrow> node_system \<Rightarrow> bool" where
  "run_inv n jid x readings s \<longleftrightarrow>
     replay_wf (ex_signed (ns_exec s)) \<and> run_count (signed_job n jid x) s \<le> 1 \<and>
     (0 < run_count (signed_job n jid x) s \<longrightarrow>
        too_late x readings \<or> keepable jid x \<and> protects jid x (ex_signed (ns_exec s)) (ns_disk s))"

lemma too_late_append [simp]: "too_late x (a @ b) \<longleftrightarrow> too_late x a \<or> too_late x b"
  by (simp add: too_late_def)

lemma not_too_late: "\<not> too_late x readings \<longleftrightarrow> list_all (in_time x) readings"
  by (auto simp: too_late_def list_ex_iff list_all_iff)

text \<open>An offer that queues the job finds no trace of it and leaves one.\<close>

lemma offer_own:
  assumes "Offer n io job (ns_exec s) (ns_disk s) = (r, e1, d1)" "ex_queue e1 = ex_queue (ns_exec s) @ [j]" "signed_job n jid x j"
    and "run_inv n jid x readings s" "steady_clock (readings @ event_clocks (Offered io job))"
    and "0 < x" "x < year_10000" "list_all (\<lambda>k. sk_Name k \<noteq> []) (nc_Keys n)"
  shows "run_count (signed_job n jid x) s = 0" "keepable jid x \<and> protects jid x (ex_signed e1) d1"
proof -
  have "ex_queue e1 \<noteq> ex_queue (ns_exec s)" using assms(2) by simp
  from assms(1) this obtain k s2 d2 b signer where q: "job = Some k" "ID_Valid (jo_JID k)" "ex_queue e1 = ex_queue (ns_exec s) @ [k]" "\<not> Expired k (of_Guard io)"
    "s2 = ex_signed (ns_exec s) \<and> d2 = ns_disk s \<or> SignedReplay_Seen (of_Seen io) (jo_JID k) (ex_signed (ns_exec s)) (ns_disk s) = (b, s2, d2)"
    "checkJobSignature n io k = Inr signer" "signer \<noteq> [] \<longrightarrow> SignedReplay_Admit (of_Admit io) (Some k) s2 d2 = (None, ex_signed e1, d1)"
    by (rule offer_queues)
  have k: "k = j" "jo_JID k = jid" "jo_Expires k = x" "fst (signature_required n (jo_Fun k))"
    using q(3) assms(2,3) by (auto simp: signed_job_def)
  have admit: "SignedReplay_Admit (of_Admit io) (Some k) s2 d2 = (None, ex_signed e1, d1)"
    using checked_signer [OF q(6) k(4) assms(8)] q(7) by blast
  have time: "\<not> too_late x (readings @ event_clocks (Offered io job))" using too_late_expired [OF assms(5) _ k(3)] q(4) by blast
  then have clocks: "in_time x (ri_load_now (of_Seen io))" "in_time x (ri_load_now (of_Admit io))" "in_time x (ri_now (of_Admit io))"
    by (simp_all add: not_too_late)
  have keep: "keepable jid x" using q(2) k(2) assms(6,7) by (simp add: keepable_def)
  have wf: "replay_wf (ex_signed (ns_exec s))" using assms(4) by (simp add: run_inv_def)
  then have wf2: "replay_wf s2" using q(5) seen_wf by blast
  show "keepable jid x \<and> protects jid x (ex_signed e1) d1"
    using admit_establishes [OF admit _ wf2] keep k(2,3) clocks(3) by simp
  show "run_count (signed_job n jid x) s = 0"
  proof (rule ccontr)
    assume "run_count (signed_job n jid x) s \<noteq> 0"
    with assms(4) time have "protects jid x (ex_signed (ns_exec s)) (ns_disk s)" by (auto simp: run_inv_def)
    then have "protects jid x s2 d2" using q(5) seen_protects [OF _ wf keep _ clocks(1)] by blast
    from admit_protects(2) [OF admit q(2) wf2 keep this clocks(2,3) k(2)] show False by simp
  qed
qed

lemma offered_inv:
  assumes "run_inv n jid x readings s" "steady_clock (readings @ event_clocks (Offered io job))"
    and "0 < x" "x < year_10000" "list_all (\<lambda>k. sk_Name k \<noteq> []) (nc_Keys n)"
  shows "run_inv n jid x (readings @ event_clocks (Offered io job)) (node_step n (Offered io job) s)"
proof -
  let ?P = "signed_job n jid x" and ?cs = "event_clocks (Offered io job)"
  obtain r e1 d1 where o: "Offer n io job (ns_exec s) (ns_disk s) = (r, e1, d1)" by (metis prod_cases3)
  let ?s = "s\<lparr>ns_exec := e1, ns_disk := d1\<rparr>"
  have wf: "replay_wf (ex_signed (ns_exec s))" using assms(1) by (simp add: run_inv_def)
  have wf1: "replay_wf (ex_signed e1)" by (rule offer_wf [OF o wf])
  have same: "run_inv n jid x (readings @ ?cs) ?s" if count: "run_count ?P ?s = run_count ?P s"
  proof (cases "too_late x (readings @ ?cs)")
    case False
    then have "list_all (in_time x) ?cs" by (simp add: not_too_late)
    then show ?thesis using assms(1) count wf1 False offer_protects [OF o wf] by (auto simp: run_inv_def)
  qed (use assms(1) count wf1 in \<open>auto simp: run_inv_def\<close>)
  have "run_inv n jid x (readings @ ?cs) ?s"
  proof (cases "ex_queue e1 = ex_queue (ns_exec s)")
    case True
    then show ?thesis by (intro same) (simp add: run_count_def)
  next
    case False
    from o this obtain j where j: "ex_queue e1 = ex_queue (ns_exec s) @ [j]" by (rule offer_queues)
    show ?thesis
    proof (cases "?P j")
      case True
      from offer_own [OF o j True assms(1,2,3,4,5)] show ?thesis using wf1 True j by (auto simp: run_inv_def run_count_def)
    qed (use j in \<open>intro same, simp add: run_count_def\<close>)
  qed
  then show ?thesis by (simp add: o)
qed

lemma fewer_inv:
  assumes "run_inv n jid x readings s" "run_count (signed_job n jid x) s1 \<le> run_count (signed_job n jid x) s"
    and "replay_wf (ex_signed (ns_exec s1))"
    and "protects jid x (ex_signed (ns_exec s)) (ns_disk s) \<Longrightarrow> protects jid x (ex_signed (ns_exec s1)) (ns_disk s1)"
  shows "run_inv n jid x readings s1"
  using assms by (auto simp: run_inv_def)

lemma step_inv:
  assumes "run_inv n jid x readings s" "steady_clock (readings @ event_clocks ev)"
    and "0 < x" "x < year_10000" "list_all (\<lambda>k. sk_Name k \<noteq> []) (nc_Keys n)"
  shows "run_inv n jid x (readings @ event_clocks ev) (node_step n ev s)"
proof (cases ev)
  case (Offered io job)
  then show ?thesis using offered_inv assms by simp
next
  case Worked
  have "run_inv n jid x readings (node_step n Worked s)"
    by (rule fewer_inv [OF assms(1)]) (use assms(1) in \<open>auto simp: run_inv_def executor_Run_def run_count_def split: list.splits\<close>)
  with Worked show ?thesis by simp
next
  case (Cancelled c)
  have "length (filter P (filter Q xs)) \<le> length (filter P xs)" for P Q and xs :: "HJob list" by (induction xs) auto
  then have "run_inv n jid x readings (node_step n (Cancelled c) s)"
    by (intro fewer_inv [OF assms(1)]) (use assms(1) in \<open>auto simp: run_inv_def Cancel_def run_count_def\<close>)
  with Cancelled show ?thesis by simp
next
  case Restarted
  have "run_inv n jid x readings (node_step n Restarted s)"
    by (rule fewer_inv [OF assms(1)]) (auto simp: run_count_def newExecutor_def fresh_wf intro: restart_protects)
  with Restarted show ?thesis by simp
next
  case (Lost_power k)
  have "run_inv n jid x readings (node_step n (Lost_power k) s)"
    by (rule fewer_inv [OF assms(1)]) (auto simp: run_count_def newExecutor_def fresh_wf intro: power_protects)
  with Lost_power show ?thesis by simp
qed

lemma steady_prefix: "steady_clock (a @ b) \<Longrightarrow> steady_clock a"
  by (simp add: steady_clock_def sorted_wrt_append)

lemma run_inv_run:
  assumes "run_inv n jid x readings s" "steady_clock (readings @ concat (map event_clocks evs))"
    and "0 < x" "x < year_10000" "list_all (\<lambda>k. sk_Name k \<noteq> []) (nc_Keys n)"
  shows "run_inv n jid x (readings @ concat (map event_clocks evs)) (node_run n evs s)"
  using assms(1,2)
proof (induction evs arbitrary: readings s)
  case (Cons ev evs)
  have st: "steady_clock ((readings @ event_clocks ev) @ concat (map event_clocks evs))" using Cons.prems(2) by simp
  from Cons.IH [OF step_inv [OF Cons.prems(1) steady_prefix [OF st] assms(3-5)] st] show ?case by (simp add: node_run_def)
qed (simp add: node_run_def)

text \<open>C25: no signed job runs twice. Whatever jobs a hub offers, replays and cancels, however often the node is restarted or
  loses power, and whatever reads, writes, syncs and rewrites of its record fail or stop half way: of the jobs with one
  identifier and one expiry for which the node requires a signature, at most one is ever run. The clock must not be set
  back by more than the day the record is kept past the expiry, the expiry must lie before the year 10000, signer keys
  have names, and what was synced or replaced in the file must outlast a loss of power.\<close>

theorem no_signed_job_runs_twice:
  assumes "steady_clock (concat (map event_clocks evs))" "0 < x" "x < year_10000" "list_all (\<lambda>k. sk_Name k \<noteq> []) (nc_Keys n)"
  shows "length (filter (signed_job n jid x) (ns_ran (node_run n evs (node_start n disk)))) \<le> 1"
proof -
  have "run_inv n jid x [] (node_start n disk)"
    by (simp add: run_inv_def run_count_def node_start_def newExecutor_def fresh_wf)
  from run_inv_run [OF this] assms have "run_inv n jid x (concat (map event_clocks evs)) (node_run n evs (node_start n disk))" by simp
  then show ?thesis by (auto simp: run_inv_def run_count_def)
qed

subsection \<open>Only signed jobs meant for this node\<close>













subsection \<open>A node and a replayed job\<close>

text \<open>A node that trusts one key, with a signature scheme in which the signature is the key followed by the bytes signed,
  and a disk on which everything succeeds.\<close>

definition demo_target :: target_env where
  "demo_target = \<lparr>tv_rt = no_runtime, tv_Regexp = (\<lambda>_. Inl []), tv_ParseAddr = (\<lambda>_. None), tv_ParsePrefix = (\<lambda>_. None), tv_Contains = (\<lambda>_ _. False)\<rparr>"

definition demo_sign :: sign_env where
  "demo_sign = \<lparr>sg_rt = no_runtime, sg_Stamp = format_rfc3339nano, sg_Base64 = Some, sg_VerifyASN1 = (\<lambda>key bytes der. der = key @ bytes), sg_scalarV1 = (\<lambda>_. [])\<rparr>"

definition demo_node :: node_cfg where
  "demo_node = \<lparr>nc_ID = ''web1'', nc_Target = demo_target, nc_Sign = demo_sign, nc_Keys = [\<lparr>sk_Name = ''ops'', sk_Key = ''key''\<rparr>],
     nc_Required = \<lparr>sq_all = True, sq_classes = []\<rparr>, nc_Exec = (\<lambda>_. None), nc_MaxTTL = None, nc_Depth = 4, nc_Path = ''signed-jobs'',
     nc_Sprintf = (\<lambda>_ _. [])\<rparr>"

definition demo_now :: int where "demo_now = 63900000000000000000"

definition demo_expiry :: int where "demo_expiry = demo_now + 900000000000"

definition demo_unsigned :: HJob where
  "demo_unsigned = \<lparr>jo_JID = ''20260819T142211023456'', jo_Fun = ''state.apply'', jo_Arg = [''web''], jo_Kwarg = [], jo_Env = ''base'', jo_Nonce = ''n'',
     jo_Expires = demo_expiry, jo_Created = 0, jo_Submitter = [], jo_OnBehalfOf = [], jo_Correlation = [], jo_TraceParent = [],
     jo_Target = ''web1'', jo_TargetKind = ''list'', jo_Nodes = [], jo_Offline = [], jo_State = [], jo_Test = False,
     jo_Batch = \<lparr>ba_Size = 0, ba_Wait = 0, ba_SafeLimit = 0, ba_Timeout = 0\<rparr>, jo_Delivered = [], jo_Queued = [], jo_Signature = [], jo_Schema = []\<rparr>"

definition demo_job :: HJob where
  "demo_job = demo_unsigned\<lparr>jo_Signature := ''key'' @ Canonical demo_sign (SigningPayload demo_unsigned)\<rparr>"

definition demo_disk_io :: ReplayIO where
  "demo_disk_io = \<lparr>ri_load_now = demo_now, ri_now = demo_now, ri_read = None, ri_load_mkdir = None, ri_load_write = None, ri_compact_mkdir = None,
     ri_compact_write = None, ri_mkdir = None, ri_open = None, ri_write = None, ri_sync = None, ri_close = None\<rparr>"

definition demo_offer :: offer_io where
  "demo_offer = \<lparr>of_Check = demo_now, of_Seen = demo_disk_io, of_Sign = demo_now, of_Grains = None, of_Pillar = Inl (FErr [] []), of_Admit = demo_disk_io,
     of_Guard = demo_now\<rparr>"

text \<open>The job is offered and run, the node loses power, and the hub sends the job again under a new nonce.\<close>

definition demo_events :: "node_event list" where
  "demo_events = [Offered demo_offer (Some demo_job), Worked, Lost_power 0, Offered demo_offer (Some (demo_job\<lparr>jo_Nonce := ''m''\<rparr>)), Worked]"

definition demo_disk :: ReplayDisk where
  "demo_disk = \<lparr>rd_text = None, rd_synced = 0\<rparr>"

definition demo_line :: string where
  "demo_line = formatSignedReplayLine ''20260819T142211023456'' demo_expiry"

definition demo_written :: ReplayDisk where
  "demo_written = \<lparr>rd_text = Some demo_line, rd_synced = length demo_line\<rparr>"

lemma demo_job_parts:
  "jo_JID demo_job = ''20260819T142211023456''" "jo_Expires demo_job = demo_expiry" "jo_Kwarg demo_job = []" "jo_Signature demo_job \<noteq> []"
  "jo_Nonce demo_job = ''n''" "\<not> demo_now > demo_expiry" "demo_expiry \<noteq> 0"
  by (simp_all add: demo_job_def demo_unsigned_def demo_expiry_def demo_now_def)

lemma demo_valid: "ID_Valid ''20260819T142211023456''"
  by code_simp

lemma demo_signer: "checkJobSignature demo_node demo_offer demo_job = Inr ''ops''"
  by code_simp

lemma demo_checks:
  "Guard_Check (Some demo_job) demo_now (NewGuard DefaultGuardSize) = None"
  "Guard_Check (Some (demo_job\<lparr>jo_Nonce := ''m''\<rparr>)) demo_now (NewGuard DefaultGuardSize) = None"
  "fst (Guard_Admit (Some demo_job) demo_now (NewGuard DefaultGuardSize)) = None"
  using demo_job_parts demo_valid by (simp_all add: Guard_Check_def Guard_Admit_def guard_check_def NewGuard_def Expired_def guard_keys_def)

lemma demo_accepts:
  "\<exists>s. SignedReplay_Seen demo_disk_io ''20260819T142211023456'' (NewSignedReplay ''signed-jobs'') demo_disk =
     (False, (NewSignedReplay ''signed-jobs'')\<lparr>sr_loaded := True\<rparr>, demo_disk) \<and>
   SignedReplay_Admit demo_disk_io (Some demo_job) ((NewSignedReplay ''signed-jobs'')\<lparr>sr_loaded := True\<rparr>) demo_disk = (None, s, demo_written)"
  by (simp add: SignedReplay_Seen_def SignedReplay_Admit_def replay_load_def replay_append_def replay_write_def demo_disk_io_def demo_disk_def
      demo_written_def demo_line_def NewSignedReplay_def demo_job_parts signedReplayCompactAt_def)

lemma demo_remembers:
  "fst (SignedReplay_Seen demo_disk_io ''20260819T142211023456'' (NewSignedReplay ''signed-jobs'') demo_written)"
  by code_simp

lemma demo_first:
  "\<exists>r e. Offer demo_node demo_offer (Some demo_job) (newExecutor demo_node) demo_disk = (r, e, demo_written) \<and> ex_queue e = [demo_job]"
proof -
  obtain s g where s: "SignedReplay_Seen demo_disk_io ''20260819T142211023456'' (NewSignedReplay ''signed-jobs'') demo_disk =
     (False, (NewSignedReplay ''signed-jobs'')\<lparr>sr_loaded := True\<rparr>, demo_disk)"
     "SignedReplay_Admit demo_disk_io (Some demo_job) ((NewSignedReplay ''signed-jobs'')\<lparr>sr_loaded := True\<rparr>) demo_disk = (None, s, demo_written)"
    and g: "Guard_Admit (Some demo_job) demo_now (NewGuard DefaultGuardSize) = (None, g)"
    using demo_accepts demo_checks(3) by (cases "Guard_Admit (Some demo_job) demo_now (NewGuard DefaultGuardSize)") auto
  have io: "of_Check demo_offer = demo_now" "of_Guard demo_offer = demo_now" "of_Seen demo_offer = demo_disk_io" "of_Admit demo_offer = demo_disk_io"
    by (simp_all add: demo_offer_def)
  have n: "nc_Depth demo_node = 4" "nc_Path demo_node = ''signed-jobs''" by (simp_all add: demo_node_def)
  show ?thesis
    by (simp add: Offer_def offer_signed_def offer_queue_def newExecutor_def io n s g demo_checks demo_signer demo_job_parts jobTestFlag_def)
qed

lemma demo_second:
  "\<exists>r e d. Offer demo_node demo_offer (Some (demo_job\<lparr>jo_Nonce := ''m''\<rparr>)) (newExecutor demo_node) demo_written = (r, e, d) \<and> ex_queue e = []"
proof -
  obtain s d where s: "SignedReplay_Seen demo_disk_io ''20260819T142211023456'' (NewSignedReplay ''signed-jobs'') demo_written = (True, s, d)"
    using demo_remembers by (cases "SignedReplay_Seen demo_disk_io ''20260819T142211023456'' (NewSignedReplay ''signed-jobs'') demo_written") auto
  have io: "of_Check demo_offer = demo_now" "of_Seen demo_offer = demo_disk_io" by (simp_all add: demo_offer_def)
  have n: "nc_Depth demo_node = 4" "nc_Path demo_node = ''signed-jobs''" by (simp_all add: demo_node_def)
  show ?thesis
    by (simp add: Offer_def newExecutor_def io n s demo_checks demo_job_parts)
qed

lemma demo_ran: "ns_ran (node_run demo_node demo_events (node_start demo_node demo_disk)) = [demo_job]"
proof -
  obtain r e where f: "Offer demo_node demo_offer (Some demo_job) (newExecutor demo_node) demo_disk = (r, e, demo_written)" "ex_queue e = [demo_job]"
    using demo_first by blast
  obtain r1 e1 d1 where g: "Offer demo_node demo_offer (Some (demo_job\<lparr>jo_Nonce := ''m''\<rparr>)) (newExecutor demo_node) demo_written = (r1, e1, d1)" "ex_queue e1 = []"
    using demo_second by blast
  have p: "lose_power 0 demo_written = demo_written" by (simp add: lose_power_def demo_written_def)
  show ?thesis by (simp add: node_run_def demo_events_def node_start_def f g p executor_Run_def)
qed

theorem no_signed_job_runs_twice_witness:
  "length (filter (signed_job demo_node ''20260819T142211023456'' demo_expiry)
     (ns_ran (node_run demo_node demo_events (node_start demo_node demo_disk)))) \<le> 1 \<and>
   ns_ran (node_run demo_node demo_events (node_start demo_node demo_disk)) = [demo_job]"
proof -
  have "steady_clock (concat (map event_clocks demo_events))"
    by (simp add: steady_clock_def demo_events_def demo_offer_def demo_disk_io_def SignedReplayRetention_def nano_day_def)
  moreover have "0 < demo_expiry" "demo_expiry < year_10000"
    by (simp_all add: demo_expiry_def demo_now_def year_10000_def nano_day_def day_number_def days_before_year_def)
  moreover have "list_all (\<lambda>k. sk_Name k \<noteq> []) (nc_Keys demo_node)" by (simp add: demo_node_def)
  ultimately show ?thesis using no_signed_job_runs_twice demo_ran by blast
qed



end
