(* ===== verification/Spec2Isabelle.thy ===== *)
theory Spec2Isabelle
  imports Prelude Go_Lib Value Fnmatch Diag Requisite Ready_Heap Kahn Order Highstate Lowstate Go_Path
    Signature Compile Loading Pipeline States Runner Running Target Targeting Top Pillar Pillars Policy Policies
    Calendar Cron Crons Schedule Scheduler Scheduling Jobsign Jobs Rfc3339 Replay Replaying Executor Executing
begin

text \<open>
  A model of halite, a configuration-management system written in Go, and the theorems that make its core
  correct. An operator writes SLS documents that declare states; the program reads them, expands them into
  a list of steps (the low state), orders the steps by their requisites and runs them on a machine,
  reporting one result per step. Which documents and which pillar data a node gets is decided by target
  expressions in top files, who may ask for a run by a policy, when a node acts on its own by a schedule, and
  which jobs sent to it a node accepts by their signatures and its record of the jobs it has seen.
  The theories below model that path, from values to the finished run, the target language, the top files and the
  pillar, the policy, the scheduler, and the jobs a node is offered.

  \<^bold>\<open>Parts, in the order the code has them.\<close>

  \<^item> Theory \<open>Prelude\<close>: list, map and fold lemmas, Go maps as association lists, the collections of simplification
    rules. Theories \<open>Go_Lib\<close> and \<open>Go_Path\<close>: what the sources use of \<open>strings\<close>, \<open>strconv\<close> and \<open>path.Match\<close>.
  \<^item> Theory \<open>Value\<close> (\<open>internal/value\<close>): the nine kinds of value, the ordered mapping as an entry list with
    its index, traversal by path, deep copies and the four merge strategies. A merge keeps the mapping's
    invariant and its key order, and the source's scalars win.
  \<^item> Theory \<open>Fnmatch\<close> (\<open>internal/fnmatch\<close>): globs are translated to regular expressions, kept here as syntax
    trees with a matching semantics; the translation is shown to match what the glob means, with a specification of
    bracket sets of its own, and the size-bounded cache to change no answer. The record \<open>go_runtime\<close> gathers what the sources use of the
    runtime that is not modelled: \<open>fmt.Sprint\<close>, \<open>time.ParseDuration\<close>, \<open>strconv.ParseFloat\<close> and float
    conversion, and RE2's own size limit.
  \<^item> Theory \<open>Diag\<close> (\<open>diag.go\<close>, \<open>slsname.go\<close>, \<open>slsCandidates\<close> of \<open>fileserver/roots.go\<close>): diagnostics, the accepted spelling of
    an SLS name and the two files a name may load.
  \<^item> Theories \<open>Requisite\<close>, \<open>Ready_Heap\<close>, \<open>Kahn\<close>, \<open>Order\<close> (\<open>requisite.go\<close>, \<open>order.go\<close>): resolving references to
    steps through lookup tables, inheriting arguments through \<open>use\<close>, and the topological sort over a binary
    heap with its search for a cycle. The tables refine a scan, \<open>use\<close> gives exactly the arguments it should, the heap
    gives the order of a linear scan that compares by priority alone, an order without errors respects every requisite, and errors are reported exactly on
    cycles.
  \<^item> Theories \<open>Highstate\<close> and \<open>Lowstate\<close> (\<open>highstate.go\<close>, \<open>lowstate.go\<close>, \<open>duration.go\<close>): reading declarations, includes
    and excludes, and expanding declarations into steps with options, retries and names.
  \<^item> Theory \<open>Signature\<close> (\<open>internal/signature\<close>): declared parameters, coercion and binding of arguments.
  \<^item> Theories \<open>Compile\<close>, \<open>Loading\<close>, \<open>Pipeline\<close> (\<open>compile.go\<close>): loading with includes and the allow and deny lists,
    extends, excludes, inverse requisites, validation, and the stages up to the ordered low state. The
    file server, the render engine and the registry are parameters. Compiling ends on every include
    graph, reads only permitted files and yields a low state in run order.
  \<^item> Theories \<open>States\<close>, \<open>Runner\<close>, \<open>Running\<close> (\<open>internal/states\<close>, \<open>internal/runner\<close>): results, the registry of module
    functions, and the run: requisite evaluation, gates, prereq test calls, retries, check commands,
    failhard, resumed runs and listen reactions. The machine is a state of any type \<open>'w\<close>; commands, module
    functions, file existence, sleeping and randomness are functions on it. The predicate
    \<open>test_contract\<close> states the documented contract of a state function: test mode changes nothing.
  \<^item> Theories \<open>Target\<close> and \<open>Targeting\<close> (\<open>internal/target\<close>): leaf matchers, nodegroups, tokenizer, parser and
    matching. Regular expressions (\<open>regexcompat\<close>) and \<open>net/netip\<close> are the parameters of \<open>target_env\<close>. The
    parser ends, reads the documented grammar and nothing else, builds a shallow tree, and reports every
    term that matching consults.

  \<^item> Theory \<open>Top\<close> (\<open>top.go\<close>, \<open>CompileHighstate\<close>): top files, matching them against the node, the three merging
    strategies and the highstate. A node gets exactly what a matching target lists, and the highstate keeps the
    compiler's promises; how it treats files and extends across environments is shown on examples.
  \<^item> Theories \<open>Pillar\<close> and \<open>Pillars\<close> (\<open>internal/pillar\<close>): the pillar of a node. Targets are judged by the terms
    they consult and evaluated on trusted attributes, which is shown not to change what they mean; deliveries are
    audited, merging files ends on every include graph, and a failing external source is an error unless soft.

  \<^item> Theories \<open>Policy\<close> and \<open>Policies\<close> (\<open>internal/policy\<close>, \<open>jobfunctions.go\<close>, \<open>ValidateNodeID\<close>): who may do what. Loading a
    policy file, matching principals, targets and functions, argument rules and their families, and the scope of
    runners. A request is allowed exactly when one rule permits all of it; the nodes a job reaches are inside
    that rule's glob, wildcards grant neither code nor secrets, and argument rules hold every sibling function.

  \<^item> Theories \<open>Calendar\<close>, \<open>Cron\<close> and \<open>Crons\<close> (\<open>internal/schedule/cron.go\<close>): what is used of the \<open>time\<close> package's calendar, cron
    expressions and the walk to the next minute one matches. An instant is a number of nanoseconds; a zone gives the
    wall clock of an instant and the instant of a wall clock. In a zone of a fixed offset the walk finds the first
    match, and it gives up only on an expression that matches no date of four centuries.
  \<^item> Theories \<open>Schedule\<close>, \<open>Scheduler\<close>, \<open>Scheduling\<close> (\<open>schedule.go\<close>, \<open>engine.go\<close>, \<open>control.go\<close>): reading job definitions, the
    next time of a job, the engine and its control operations, listing and saving. The engine's state with its loop
    and goroutines is a step relation in which every operation may come between two steps. A pass starts what is due,
    slots are counted exactly, times respect the bounds, and what saving keeps of a job and what it loses is stated
    exactly; how windows and negative offsets fall short is proved too. Parsing and printing of times, durations and floats are the record \<open>sched_env\<close>.

  \<^item> Theories \<open>Jobsign\<close> and \<open>Jobs\<close> (\<open>internal/jobsign\<close>, \<open>internal/job\<close>): the bytes a job's signature covers and checking one,
    job identifiers and the clock that assigns them, the job record and the replay cache in memory. The bytes determine
    the job; identifiers never repeat; the cache remembers the newest jobs.
  \<^item> Theories \<open>Rfc3339\<close>, \<open>Replay\<close>, \<open>Replaying\<close> (\<open>internal/job/signedreplay.go\<close>): the record of signed jobs on disk, with its
    loading, pruning, appending and rewriting. What the system answers in a call is an argument, so that every step may
    fail, and a write may stop half way. A job it has recorded is refused until a day past its expiry.
  \<^item> Theories \<open>Executor\<close>, \<open>Executing\<close> (\<open>execute.go\<close>, \<open>jobsignature.go\<close> of \<open>cmd/halite-node\<close>): what a node does with a job it is
    offered, which functions need a signature, the bound on the expiry, the signed target and the queue. Offers, work,
    cancellations, restarts and losses of power come in any order: a signed job runs at most once, and only jobs
    a trusted key signed for this node run.

  The theorem of this theory joins the compiler and the runner: a step of a compiled low state that is not
  skipped had its requisites met, and for each of its \<open>prereq\<close> requisites a trial call was made that asked for it.

  \<^bold>\<open>Interfaces.\<close> A locale states what one part relies on of another, and each is interpreted on the model's
  own definitions: \<open>ordered_map\<close> on the ordered mapping, \<open>id_store\<close> on the high state, \<open>preference\<close>,
  \<open>ready_queue\<close>, \<open>ready_chunks\<close> and \<open>ready_pair\<close> on the binary heap and the linear scan under the run
  order's preference, and \<open>term_compiler\<close>, what the recursive descent relies on, on the parser of an
  expression and on the parser of a nodegroup's expansion. \<open>steady_zone\<close>, what the cron walk relies on of a zone without
  changes of offset, is interpreted on the zones of a fixed offset.

  \<^bold>\<open>Bounds.\<close> Recursion that the code does not bound structurally takes a number and gives \<open>None\<close> when it runs
  out. Loading, of states and of pillar files, takes one level more than there are files, which is shown to
  be enough on every include graph. The depth-first search for a cycle takes the number of steps. The parser takes four units per token
  and four, and nodegroup references eleven levels, the code's limit of ten and the first. Byte budgets are
  integers, as in the code. The walk of a cron
  expression and the search for a job's next time take the code's own limits of rounds. Counters that a run cannot exhaust are natural numbers; durations wrap at 64
  bits.

  \<^bold>\<open>Not modelled.\<close> The state modules under \<open>internal/builtin\<close> act on the operating system and are
  parameters of the runner. Templates, YAML and rendering give the compiler its documents and are the
  parameter \<open>co_Render\<close>. Transport, the hub and its API, key storage, certificates, the file servers but for the names they try, the
  command line and the platform layers are input and output around this core. Progress callbacks, tracing,
  redaction and the wall clock of a run are left out of the runner. The scheduler's ticker, logging and random
  source are left out, and the theorems on cron expressions are for zones whose offset does not change; the
  definitions handle the others. Of a job's signature the hash and the curve, base64 and the text of the old format are
  parameters, as are the configuration and the registry of a node; metrics and the evidence log are left out, and
  offers are handled one after another. What was synced or replaced in a file is taken to outlast a loss of power.
\<close>

section \<open>From files to a run\<close>

text \<open>C1: what is compiled runs in an order that honours it. When a compilation reports no error and the
  low state it gives is run, on whatever machine and with whatever module functions, a step that is not
  skipped had, on the results the run finally reports, no failed target among those it requires or
  watches, a target that succeeded for each \<open>require_any\<close> and \<open>watch_any\<close>, at least one of its \<open>onchanges\<close>
  requisites met if it has any, and at least one of its \<open>onfail\<close> requisites met if it has any; and for each
  \<open>prereq\<close> with targets a trial call of one of them, made after the steps before it and before the step
  itself, failed, gave no verdict or reported changes.\<close>

theorem compiled_run_honours_requisites:
  assumes "CompileSLS c depth names = Some out" and "\<not> HasErrors (out_Diags out)"
    and "i < length (out_Low out)" and "\<not> sr_Skipped (rr_Results (fst (Run r (out_Low out) w)) ! i)"
  shows "requisites_met (final_results r (out_Low out) w) (ch_Reqs (out_Low out ! i)) \<and>
     prereqs_met r (out_Low out) (ru_world (prefix_state r (out_Low out) w i)) (ch_Reqs (out_Low out ! i))"
proof -
  from CompileSLS_finish [OF assms(1)] obtain out0 where "finish_ok out0 out" .
  with assms(2) have ord: "in_run_order (out_Low out)" by (simp add: finish_ok_def)
  have ran: "\<not> sr_Skipped (sr_at r (out_Low out) w i)" using assms(4) by (simp add: Run_nth [OF assms(3)])
  from ran_met [OF ord assms(3) ran] ran_prereqs_met [OF ran] show ?thesis by simp
qed

text \<open>The two files of the sample server, run on the sample machine: the second step, which requires the
  first, runs.\<close>

lemma site_run:
  "map_option (\<lambda>out. map sr_Skipped (rr_Results (fst (Run (demo_runner True []) (out_Low out) 0))))
     (CompileSLS site_compiler 3 [''web'']) = Some [False, False]"
  by code_simp

theorem compiled_run_honours_requisites_witness:
  "\<exists>out. CompileSLS site_compiler 3 [''web''] = Some out \<and>
     requisites_met (final_results (demo_runner True []) (out_Low out) (0 :: nat)) (ch_Reqs (out_Low out ! 1)) \<and>
     prereqs_met (demo_runner True []) (out_Low out) (ru_world (prefix_state (demo_runner True []) (out_Low out) 0 1))
       (ch_Reqs (out_Low out ! 1))"
proof -
  from site_out obtain out where out: "CompileSLS site_compiler 3 [''web''] = Some out"
    "map ch_ID (out_Low out) = [''nginx'', ''conf'']" "\<not> HasErrors (out_Diags out)" .
  let ?rs = "rr_Results (fst (Run (demo_runner True []) (out_Low out) 0))"
  have skipped: "map sr_Skipped ?rs = [False, False]" using site_run out(1) by simp
  then have "length ?rs = 2" by (metis length_map length_Cons list.size(3) numeral_2_eq_2)
  then have "\<not> sr_Skipped (?rs ! 1)" using arg_cong [OF skipped, of "\<lambda>xs. xs ! 1"] by simp
  moreover have "1 < length (out_Low out)" using arg_cong [OF out(2), of length] by simp
  ultimately show ?thesis
    using compiled_run_honours_requisites [OF out(1,3), of 1 "demo_runner True []" 0] out(1) by blast
qed

end
